(* ===== verification/Prelude.thy ===== *)
theory Prelude
  imports Main "HOL-Library.Sublist"
begin

text \<open>
  Shared vocabulary of the development. The result type \<open>res\<close> with the faults a C++ function can end
  in, its sequencing operator, the ranges of the fixed-width integers, and the operations of
  \<^verbatim>\<open>std::string\<close> and of the number conversions (\<^verbatim>\<open>std::to_string\<close>, \<^verbatim>\<open>std::stoi\<close>,
  \<^verbatim>\<open>std::stol\<close>, \<^verbatim>\<open>std::stoll\<close>) that the sources use, with the lemmas the components share.
  A \<^verbatim>\<open>std::string\<close> is a \<open>string\<close>, one \<open>char\<close> per byte; \<^verbatim>\<open>npos\<close> is \<open>None\<close>.
\<close>

section \<open>Lemma collections\<close>

named_theorems res_simps \<open>unfolding rules for computations in the result type\<close>
named_theorems str_simps \<open>evaluation rules for string search\<close>

section \<open>Results and faults\<close>

text \<open>
  How a call can end other than by returning: a C++ exception (the constructors up to
  \<open>Thrown\<close>, which carries any other exception's text), or behaviour the language leaves
  undefined (a null pointer dereference, a signed overflow, an iterator out of range), or a failed
  \<open>SYLAR_ASSERT\<close>, which ends the process.
\<close>

datatype fault =
    InvalidArgument
  | OutOfRange
  | JsonError
  | SqlError
  | Thrown string
  | UndefinedBehaviour
  | AssertionFailure

type_synonym 'a res = "fault + 'a"

definition rbind :: "'a res \<Rightarrow> ('a \<Rightarrow> 'b res) \<Rightarrow> 'b res" where
  "rbind m f = (case m of Inl e \<Rightarrow> Inl e | Inr x \<Rightarrow> f x)"

lemma rbind_Inl [simp, res_simps]: "rbind (Inl e) f = Inl e"
  by (simp add: rbind_def)

lemma rbind_Inr [simp, res_simps]: "rbind (Inr x) f = f x"
  by (simp add: rbind_def)

lemma rbind_assoc: "rbind (rbind m f) g = rbind m (\<lambda>x. rbind (f x) g)"
  by (simp add: rbind_def split: sum.splits)

lemma rbind_eq_Inr [res_simps]: "rbind m f = Inr y \<longleftrightarrow> (\<exists>x. m = Inr x \<and> f x = Inr y)"
  by (simp add: rbind_def split: sum.splits)

lemma rbind_cong [fundef_cong]:
  "m = m' \<Longrightarrow> (\<And>x. m' = Inr x \<Longrightarrow> f x = f' x) \<Longrightarrow> rbind m f = rbind m' f'"
  by (simp add: rbind_def split: sum.splits)

text \<open>\<open>Inr\<close> exactly when the call returns normally.\<close>

definition returns :: "'a res \<Rightarrow> bool" where
  "returns m = (case m of Inl _ \<Rightarrow> False | Inr _ \<Rightarrow> True)"

lemma returns_simps [simp]: "returns (Inr x)" "\<not> returns (Inl e)"
  by (simp_all add: returns_def)

section \<open>Fixed-width integers\<close>

text \<open>
  Integer variables are \<open>int\<close> with their range stated where it matters. \<open>i32_of\<close> is the
  conversion of a wider value to \<^verbatim>\<open>int\<close>: the low 32 bits read as two's complement.
\<close>

definition in_i32 :: "int \<Rightarrow> bool" where
  "in_i32 x \<longleftrightarrow> - (2 ^ 31) \<le> x \<and> x < 2 ^ 31"

definition in_i64 :: "int \<Rightarrow> bool" where
  "in_i64 x \<longleftrightarrow> - (2 ^ 63) \<le> x \<and> x < 2 ^ 63"

definition i32_of :: "int \<Rightarrow> int" where
  "i32_of x = (x + 2 ^ 31) mod 2 ^ 32 - 2 ^ 31"

lemma in_i32_i32_of [simp]: "in_i32 (i32_of x)"
proof -
  have "0 \<le> (x + 2 ^ 31) mod 2 ^ 32 \<and> (x + 2 ^ 31) mod 2 ^ 32 < (2 :: int) ^ 32"
    by simp
  then show ?thesis by (simp add: in_i32_def i32_of_def)
qed

lemma i32_of_id: "in_i32 x \<Longrightarrow> i32_of x = x"
  by (simp add: in_i32_def i32_of_def mod_pos_pos_trivial)

text \<open>Signed \<^verbatim>\<open>int\<close> arithmetic: leaving the range is undefined behaviour.\<close>

definition i32_checked :: "int \<Rightarrow> int res" where
  "i32_checked x = (if in_i32 x then Inr x else Inl UndefinedBehaviour)"

lemma i32_checked_Inr [res_simps]: "i32_checked x = Inr y \<longleftrightarrow> in_i32 x \<and> y = x"
  by (auto simp: i32_checked_def)

definition i64_checked :: "int \<Rightarrow> int res" where
  "i64_checked x = (if in_i64 x then Inr x else Inl UndefinedBehaviour)"

section \<open>Strings\<close>

text \<open>
  \<open>find_idx sub s\<close> is the first index at which \<open>sub\<close> occurs in \<open>s\<close>; \<open>str_find s sub pos\<close> is
  \<^verbatim>\<open>s.find(sub, pos)\<close>, which looks at no index below \<open>pos\<close> and answers \<^verbatim>\<open>npos\<close> when
  \<open>pos\<close> lies past the end.
\<close>

fun find_idx :: "string \<Rightarrow> string \<Rightarrow> nat option" where
  "find_idx sub [] = (if sub = [] then Some 0 else None)"
| "find_idx sub (c # cs) =
     (if prefix sub (c # cs) then Some 0 else map_option Suc (find_idx sub cs))"

definition str_find :: "string \<Rightarrow> string \<Rightarrow> nat \<Rightarrow> nat option" where
  "str_find s sub pos =
     (if pos \<le> length s then map_option (\<lambda>i. pos + i) (find_idx sub (drop pos s)) else None)"

text \<open>\<^verbatim>\<open>s.find_last_of(c)\<close>: the last index holding the character.\<close>

fun find_last_idx :: "char \<Rightarrow> string \<Rightarrow> nat option" where
  "find_last_idx c [] = None"
| "find_last_idx c (d # ds) =
     (case find_last_idx c ds of
        Some i \<Rightarrow> Some (Suc i)
      | None \<Rightarrow> if d = c then Some 0 else None)"

text \<open>\<^verbatim>\<open>s.substr(pos, n)\<close>: throws when \<open>pos\<close> lies past the end, and stops at the end.\<close>

definition substr :: "string \<Rightarrow> nat \<Rightarrow> nat \<Rightarrow> string res" where
  "substr s pos n = (if pos \<le> length s then Inr (take n (drop pos s)) else Inl OutOfRange)"

definition substr_from :: "string \<Rightarrow> nat \<Rightarrow> string res" where
  "substr_from s pos = (if pos \<le> length s then Inr (drop pos s) else Inl OutOfRange)"

text \<open>\<^verbatim>\<open>tolower\<close> in the C locale.\<close>

definition tolower :: "char \<Rightarrow> char" where
  "tolower c = (let n = of_char c :: nat in if 65 \<le> n \<and> n \<le> 90 then char_of (n + 32) else c)"

text \<open>A \<^verbatim>\<open>c_str()\<close> read as a C string: what precedes the first null byte.\<close>

definition c_str :: "string \<Rightarrow> string" where
  "c_str s = takeWhile (\<lambda>c. c \<noteq> CHR 0x00) s"

lemma c_str_id: "CHR 0x00 \<notin> set s \<Longrightarrow> c_str s = s"
  unfolding c_str_def by (rule takeWhile_eq_all_conv [THEN iffD2]) auto

lemma find_idx_bound: "find_idx sub s = Some i \<Longrightarrow> i + length sub \<le> length s"
proof (induction s arbitrary: i)
  case (Cons c cs)
  then show ?case
    using prefix_length_le by (fastforce split: if_splits)
qed (simp split: if_splits)

lemma find_idx_prefix: "find_idx sub s = Some i \<Longrightarrow> prefix sub (drop i s)"
  by (induction s arbitrary: i) (auto split: if_splits)

lemma find_idx_char:
  "find_idx [c] s = (if c \<in> set s then Some (length (takeWhile (\<lambda>d. d \<noteq> c) s)) else None)"
  by (induction s) auto

lemma find_idx_char_None: "find_idx [c] s = None \<longleftrightarrow> c \<notin> set s"
  by (simp add: find_idx_char)

lemma find_idx_absent [simp]: "c \<notin> set s \<Longrightarrow> find_idx [c] s = None"
  by (simp add: find_idx_char)

lemma find_idx_char_Some:
  "find_idx [c] s = Some i \<Longrightarrow> i < length s \<and> s ! i = c \<and> c \<notin> set (take i s)"
proof (induction s arbitrary: i)
  case (Cons d ds)
  then show ?case by (cases "c = d") (auto split: if_splits)
qed simp

text \<open>A prefix without the first character of the pattern is skipped.\<close>

lemma find_idx_skip:
  "sub = c # sub' \<Longrightarrow> c \<notin> set u \<Longrightarrow>
   find_idx sub (u @ v) = map_option (\<lambda>i. length u + i) (find_idx sub v)"
proof (induction u)
  case Nil
  then show ?case by (simp add: option.map_ident)
next
  case (Cons d ds)
  then show ?case by (auto simp: option.map_comp comp_def)
qed

lemma find_idx_here [simp]: "find_idx sub (sub @ v) = Some 0"
proof (cases "sub @ v")
  case (Cons d ds)
  then show ?thesis by (metis find_idx.simps(2) prefixI)
qed simp

text \<open>The search step the parsers make: after \<open>pos\<close> bytes, skip \<open>u\<close>, find the pattern.\<close>

lemma str_find_skip:
  assumes "s = p @ u @ sub @ v" and "sub = c # sub'" and "c \<notin> set u"
  shows "str_find s sub (length p) = Some (length p + length u)"
proof -
  have "find_idx sub (u @ sub @ v) = Some (length u)"
    by (simp add: find_idx_skip [OF assms(2,3)])
  then show ?thesis using assms(1) by (simp add: str_find_def)
qed

lemma find_last_idx_absent [simp]: "c \<notin> set s \<Longrightarrow> find_last_idx c s = None"
  by (induction s) auto

lemma find_last_idx_append:
  "c \<notin> set v \<Longrightarrow> find_last_idx c (u @ c # v) = Some (length u)"
proof (induction u)
  case Nil
  then show ?case by simp
next
  case (Cons d ds)
  then show ?case by simp
qed

section \<open>Numbers in decimal\<close>

definition is_digit :: "char \<Rightarrow> bool" where
  "is_digit c \<longleftrightarrow> 48 \<le> (of_char c :: nat) \<and> (of_char c :: nat) \<le> 57"

text \<open>\<^verbatim>\<open>isspace\<close> in the C locale.\<close>

definition is_space :: "char \<Rightarrow> bool" where
  "is_space c \<longleftrightarrow> (of_char c :: nat) \<in> {9, 10, 11, 12, 13, 32}"

definition digit_char :: "nat \<Rightarrow> char" where
  "digit_char n = char_of (48 + n)"

fun show_nat :: "nat \<Rightarrow> string" where
  "show_nat n = (if n < 10 then [digit_char n] else show_nat (n div 10) @ [digit_char (n mod 10)])"

declare show_nat.simps [simp del]

text \<open>\<^verbatim>\<open>std::to_string\<close> and the stream output of an integer.\<close>

definition show_int :: "int \<Rightarrow> string" where
  "show_int x = (if x < 0 then CHR ''-'' # show_nat (nat (- x)) else show_nat (nat x))"

definition digit_val :: "char \<Rightarrow> nat" where
  "digit_val c = of_char c - 48"

definition read_digits :: "string \<Rightarrow> nat" where
  "read_digits ds = foldl (\<lambda>n c. 10 * n + digit_val c) 0 ds"

text \<open>
  \<^verbatim>\<open>strtol\<close> in base 10 as \<^verbatim>\<open>std::stoi\<close>, \<^verbatim>\<open>std::stol\<close> and \<^verbatim>\<open>std::stoll\<close> use it: leading
  white space, an optional sign, the longest run of digits; no digit is
  \<^verbatim>\<open>std::invalid_argument\<close>, a value outside the result type \<^verbatim>\<open>std::out_of_range\<close>, and
  what follows the digits is ignored.
\<close>

definition split_sign :: "string \<Rightarrow> bool \<times> string" where
  "split_sign s =
     (case s of
        [] \<Rightarrow> (False, [])
      | c # cs \<Rightarrow> if c = CHR ''-'' then (True, cs) else if c = CHR ''+'' then (False, cs) else (False, s))"

definition sto :: "(int \<Rightarrow> bool) \<Rightarrow> string \<Rightarrow> int res" where
  "sto in_range s =
     (let (neg, body) = split_sign (dropWhile is_space s);
          ds = takeWhile is_digit body;
          n = int (read_digits ds);
          v = (if neg then - n else n)
      in if ds = [] then Inl InvalidArgument
         else if in_range v then Inr v
         else Inl OutOfRange)"

definition stoi :: "string \<Rightarrow> int res" where
  "stoi = sto in_i32"

definition stoll :: "string \<Rightarrow> int res" where
  "stoll = sto in_i64"

text \<open>\<^verbatim>\<open>long\<close> has 64 bits on the platforms the project builds for.\<close>

definition stol :: "string \<Rightarrow> int res" where
  "stol = sto in_i64"

lemma of_char_digit_char [simp]: "n < 10 \<Longrightarrow> of_char (digit_char n) = 48 + n"
  by (simp add: digit_char_def)

lemma is_digit_digit_char [simp]: "n < 10 \<Longrightarrow> is_digit (digit_char n)"
  by (simp add: is_digit_def)

lemma digit_val_digit_char [simp]: "n < 10 \<Longrightarrow> digit_val (digit_char n) = n"
  by (simp add: digit_val_def)

lemma digit_chars [simp]:
  "char_of (48 :: nat) = CHR ''0''" "char_of (49 :: nat) = CHR ''1''"
  "char_of (50 :: nat) = CHR ''2''" "char_of (51 :: nat) = CHR ''3''"
  "char_of (52 :: nat) = CHR ''4''" "char_of (53 :: nat) = CHR ''5''"
  "char_of (54 :: nat) = CHR ''6''" "char_of (55 :: nat) = CHR ''7''"
  "char_of (56 :: nat) = CHR ''8''" "char_of (57 :: nat) = CHR ''9''"
  by code_simp+

lemma show_nat_not_Nil [simp]: "show_nat n \<noteq> []"
  by (subst show_nat.simps) simp

lemma show_nat_digits: "list_all is_digit (show_nat n)"
proof (induction n rule: show_nat.induct)
  case (1 n)
  show ?case
  proof (cases "n < 10")
    case True
    then show ?thesis by (simp add: show_nat.simps [of n])
  next
    case False
    then show ?thesis using "1" by (simp add: show_nat.simps [of n])
  qed
qed

lemma read_digits_snoc: "read_digits (ds @ [c]) = 10 * read_digits ds + digit_val c"
  by (simp add: read_digits_def)

lemma read_digits_show_nat [simp]: "read_digits (show_nat n) = n"
proof (induction n rule: show_nat.induct)
  case (1 n)
  show ?case
  proof (cases "n < 10")
    case True
    then show ?thesis by (simp add: show_nat.simps [of n] read_digits_def)
  next
    case False
    then have "read_digits (show_nat n) = 10 * (n div 10) + n mod 10"
      using "1" by (simp add: show_nat.simps [of n] read_digits_snoc)
    then show ?thesis by simp
  qed
qed

lemma show_nat_hd: "\<exists>d ds. show_nat n = d # ds \<and> is_digit d"
  using show_nat_digits [of n] by (cases "show_nat n") auto

lemma is_digit_not_space: "is_digit c \<Longrightarrow> \<not> is_space c"
  by (auto simp: is_digit_def is_space_def)

lemma is_digit_not_sign: "is_digit c \<Longrightarrow> c \<noteq> CHR ''-'' \<and> c \<noteq> CHR ''+''"
  by (auto simp: is_digit_def)

lemma takeWhile_show_nat:
  assumes "rest = [] \<or> \<not> is_digit (hd rest)"
  shows "takeWhile is_digit (show_nat n @ rest) = show_nat n"
proof -
  have all: "\<And>c. c \<in> set (show_nat n) \<Longrightarrow> is_digit c"
    using show_nat_digits [of n] by (simp add: list_all_iff)
  have "takeWhile is_digit rest = []" using assms by (cases rest) auto
  then show ?thesis using all by simp
qed

text \<open>Reading back a printed number, whatever non-digit follows it.\<close>

lemma split_sign_show_int:
  "split_sign (dropWhile is_space (show_int x @ rest)) = (x < 0, show_nat (nat \<bar>x\<bar>) @ rest)"
proof (cases "x < 0")
  case True
  then show ?thesis by (simp add: show_int_def split_sign_def is_space_def)
next
  case False
  obtain d ds where d: "show_nat (nat x) = d # ds" "is_digit d"
    using show_nat_hd by blast
  with False show ?thesis
    using is_digit_not_space [OF d(2)] is_digit_not_sign [OF d(2)]
    by (simp add: show_int_def split_sign_def)
qed

lemma sto_show_int:
  assumes "in_range x" and "rest = [] \<or> \<not> is_digit (hd rest)"
  shows "sto in_range (show_int x @ rest) = Inr x"
  using assms
  by (cases "x < 0")
     (simp_all add: sto_def split_sign_show_int takeWhile_show_nat [OF assms(2)])

lemma stoll_show_int [simp]: "in_i64 x \<Longrightarrow> stoll (show_int x) = Inr x"
  using sto_show_int [of in_i64 x "[]"] by (simp add: stoll_def)

lemma stoi_show_int [simp]: "in_i32 x \<Longrightarrow> stoi (show_int x) = Inr x"
  using sto_show_int [of in_i32 x "[]"] by (simp add: stoi_def)

lemma show_int_chars: "c \<in> set (show_int x) \<Longrightarrow> is_digit c \<or> c = CHR ''-''"
  using show_nat_digits by (auto simp: show_int_def list_all_iff split: if_splits)

lemma show_int_no_quote [simp]:
  "CHR 0x22 \<notin> set (show_int x)" "CHR '','' \<notin> set (show_int x)" "CHR ''}'' \<notin> set (show_int x)"
  using show_int_chars by (fastforce simp: is_digit_def)+

end
