(* ===== verification/OrdMap.thy ===== *)
theory OrdMap
  imports Prelude
begin

text \<open>
  The ordered containers \<^verbatim>\<open>std::map\<close> and \<^verbatim>\<open>std::set\<close>, which the sources instantiate with
  three comparators: \<^verbatim>\<open>std::less<std::string>\<close> (servlet table, cookies of a response),
  \<open>CaseInsensitiveLess\<close> (HTTP headers, parameters) and \<open>Timer::Comparator\<close> (timers).
  A container is the list of its elements in iteration order. The operations take the
  comparator as an argument; what they promise is stated once in the locale
  \<open>strict_weak_order\<close>, whose laws are what the C++ standard asks of a comparator.
\<close>

section \<open>Operations\<close>

text \<open>\<^verbatim>\<open>m.find(k)\<close>: the stored key and its value.\<close>

fun map_find :: "('k \<Rightarrow> 'k \<Rightarrow> bool) \<Rightarrow> 'k \<Rightarrow> ('k \<times> 'v) list \<Rightarrow> ('k \<times> 'v) option" where
  "map_find lt k [] = None"
| "map_find lt k ((a, b) # m) =
     (if lt k a then None else if lt a k then map_find lt k m else Some (a, b))"

text \<open>\<^verbatim>\<open>m[k] = v\<close>: an equivalent key keeps its spelling and gets the new value.\<close>

fun map_assign :: "('k \<Rightarrow> 'k \<Rightarrow> bool) \<Rightarrow> 'k \<Rightarrow> 'v \<Rightarrow> ('k \<times> 'v) list \<Rightarrow> ('k \<times> 'v) list" where
  "map_assign lt k v [] = [(k, v)]"
| "map_assign lt k v ((a, b) # m) =
     (if lt k a then (k, v) # (a, b) # m
      else if lt a k then (a, b) # map_assign lt k v m
      else (a, v) # m)"

text \<open>\<^verbatim>\<open>m.insert(make_pair(k, v))\<close>: an equivalent key keeps its old value.\<close>

fun map_insert :: "('k \<Rightarrow> 'k \<Rightarrow> bool) \<Rightarrow> 'k \<Rightarrow> 'v \<Rightarrow> ('k \<times> 'v) list \<Rightarrow> ('k \<times> 'v) list" where
  "map_insert lt k v [] = [(k, v)]"
| "map_insert lt k v ((a, b) # m) =
     (if lt k a then (k, v) # (a, b) # m
      else if lt a k then (a, b) # map_insert lt k v m
      else (a, b) # m)"

text \<open>\<^verbatim>\<open>m.erase(k)\<close>.\<close>

fun map_erase :: "('k \<Rightarrow> 'k \<Rightarrow> bool) \<Rightarrow> 'k \<Rightarrow> ('k \<times> 'v) list \<Rightarrow> ('k \<times> 'v) list" where
  "map_erase lt k [] = []"
| "map_erase lt k ((a, b) # m) =
     (if lt k a then (a, b) # m
      else if lt a k then (a, b) # map_erase lt k m
      else m)"

definition map_value :: "('k \<Rightarrow> 'k \<Rightarrow> bool) \<Rightarrow> 'k \<Rightarrow> ('k \<times> 'v) list \<Rightarrow> 'v option" where
  "map_value lt k m = map_option snd (map_find lt k m)"

text \<open>\<^verbatim>\<open>s.insert(x)\<close> and \<^verbatim>\<open>s.erase(s.find(x))\<close> on a \<^verbatim>\<open>std::set\<close>.\<close>

fun set_insert :: "('k \<Rightarrow> 'k \<Rightarrow> bool) \<Rightarrow> 'k \<Rightarrow> 'k list \<Rightarrow> 'k list" where
  "set_insert lt x [] = [x]"
| "set_insert lt x (y # ys) =
     (if lt x y then x # y # ys else if lt y x then y # set_insert lt x ys else y # ys)"

fun set_find :: "('k \<Rightarrow> 'k \<Rightarrow> bool) \<Rightarrow> 'k \<Rightarrow> 'k list \<Rightarrow> 'k option" where
  "set_find lt x [] = None"
| "set_find lt x (y # ys) =
     (if lt x y then None else if lt y x then set_find lt x ys else Some y)"

fun set_erase :: "('k \<Rightarrow> 'k \<Rightarrow> bool) \<Rightarrow> 'k \<Rightarrow> 'k list \<Rightarrow> 'k list" where
  "set_erase lt x [] = []"
| "set_erase lt x (y # ys) =
     (if lt x y then y # ys else if lt y x then y # set_erase lt x ys else ys)"

section \<open>The container interface\<close>

definition ordered_by :: "('k \<Rightarrow> 'k \<Rightarrow> bool) \<Rightarrow> 'k list \<Rightarrow> bool" where
  "ordered_by lt ks = sorted_wrt lt ks"

lemma ordered_by_simps [simp]:
  "ordered_by lt []"
  "ordered_by lt (k # ks) \<longleftrightarrow> (\<forall>x\<in>set ks. lt k x) \<and> ordered_by lt ks"
  by (auto simp: ordered_by_def)

lemma ordered_by_append:
  "ordered_by lt (xs @ ys) \<longleftrightarrow>
   ordered_by lt xs \<and> ordered_by lt ys \<and> (\<forall>x\<in>set xs. \<forall>y\<in>set ys. lt x y)"
  by (auto simp: ordered_by_def sorted_wrt_append)

locale strict_weak_order =
  fixes lt :: "'k \<Rightarrow> 'k \<Rightarrow> bool"
  assumes lt_irrefl: "\<not> lt x x"
    and lt_trans: "lt x y \<Longrightarrow> lt y z \<Longrightarrow> lt x z"
    and inc_trans:
      "\<not> lt x y \<Longrightarrow> \<not> lt y x \<Longrightarrow> \<not> lt y z \<Longrightarrow> \<not> lt z y \<Longrightarrow> \<not> lt x z \<and> \<not> lt z x"
begin

lemma lt_asym: "lt x y \<Longrightarrow> \<not> lt y x"
  using lt_irrefl lt_trans by blast

text \<open>Equivalent keys compare alike with every third key.\<close>

lemma equiv_left_imp: "\<not> lt x y \<Longrightarrow> \<not> lt y x \<Longrightarrow> lt x z \<Longrightarrow> lt y z"
proof (rule ccontr)
  assume a: "\<not> lt x y" "\<not> lt y x" "lt x z" "\<not> lt y z"
  then have "\<not> lt z y" using lt_trans by blast
  with a have "\<not> lt x z" using inc_trans by blast
  with a show False by simp
qed

lemma equiv_right_imp: "\<not> lt x y \<Longrightarrow> \<not> lt y x \<Longrightarrow> lt z x \<Longrightarrow> lt z y"
proof (rule ccontr)
  assume a: "\<not> lt x y" "\<not> lt y x" "lt z x" "\<not> lt z y"
  then have "\<not> lt y z" using lt_trans by blast
  with a have "\<not> lt z x" using inc_trans by blast
  with a show False by simp
qed

lemma equiv_left: "\<not> lt x y \<Longrightarrow> \<not> lt y x \<Longrightarrow> lt x z = lt y z"
  using equiv_left_imp by blast

lemma equiv_right: "\<not> lt x y \<Longrightarrow> \<not> lt y x \<Longrightarrow> lt z x = lt z y"
  using equiv_right_imp by blast

lemma keys_map_assign:
  "set (map fst (map_assign lt k v m)) \<subseteq> insert k (set (map fst m))"
  by (induction m) (auto simp del: set_map split: if_splits)

lemma keys_map_insert:
  "set (map fst (map_insert lt k v m)) \<subseteq> insert k (set (map fst m))"
  by (induction m) (auto simp del: set_map split: if_splits)

lemma keys_map_erase: "set (map fst (map_erase lt k m)) \<subseteq> set (map fst m)"
  by (induction m) (auto simp del: set_map split: if_splits)

text \<open>A bound on the keys of the argument is a bound on the keys of the result.\<close>

lemma keys_bound:
  assumes "set (map fst m') \<subseteq> insert k (set (map fst m))"
    and "\<forall>x\<in>set (map fst m). lt a x" and "lt a k"
  shows "\<forall>x\<in>set (map fst m'). lt a x"
  using assms by blast

lemma below_trans: "lt k a \<Longrightarrow> \<forall>x\<in>A. lt a x \<Longrightarrow> \<forall>x\<in>A. lt k x"
  using lt_trans by blast

lemma ordered_map_assign:
  "ordered_by lt (map fst m) \<Longrightarrow> ordered_by lt (map fst (map_assign lt k v m))"
proof (induction m)
  case (Cons p m)
  obtain a b where p: "p = (a, b)" by fastforce
  have above: "\<forall>x\<in>set (map fst m). lt a x" and o: "ordered_by lt (map fst m)"
    using Cons.prems p by (simp_all del: set_map)
  consider "lt k a" | "\<not> lt k a" "lt a k" | "\<not> lt k a" "\<not> lt a k" by blast
  then show ?case
  proof cases
    case 1
    then show ?thesis using below_trans [OF 1 above] o above p by (simp del: set_map)
  next
    case 2
    then show ?thesis
      using keys_bound [OF keys_map_assign above 2(2), of v] Cons.IH [OF o] p by (simp del: set_map)
  next
    case 3
    then show ?thesis using o above p by (simp del: set_map)
  qed
qed simp

lemma ordered_map_insert:
  "ordered_by lt (map fst m) \<Longrightarrow> ordered_by lt (map fst (map_insert lt k v m))"
proof (induction m)
  case (Cons p m)
  obtain a b where p: "p = (a, b)" by fastforce
  have above: "\<forall>x\<in>set (map fst m). lt a x" and o: "ordered_by lt (map fst m)"
    using Cons.prems p by (simp_all del: set_map)
  consider "lt k a" | "\<not> lt k a" "lt a k" | "\<not> lt k a" "\<not> lt a k" by blast
  then show ?case
  proof cases
    case 1
    then show ?thesis using below_trans [OF 1 above] o above p by (simp del: set_map)
  next
    case 2
    then show ?thesis
      using keys_bound [OF keys_map_insert above 2(2), of v] Cons.IH [OF o] p by (simp del: set_map)
  next
    case 3
    then show ?thesis using o above p by (simp del: set_map)
  qed
qed simp

lemma ordered_map_erase:
  "ordered_by lt (map fst m) \<Longrightarrow> ordered_by lt (map fst (map_erase lt k m))"
proof (induction m)
  case (Cons p m)
  obtain a b where p: "p = (a, b)" by fastforce
  have above: "\<forall>x\<in>set (map fst m). lt a x" and o: "ordered_by lt (map fst m)"
    using Cons.prems p by (simp_all del: set_map)
  have "\<forall>x\<in>set (map fst (map_erase lt k m)). lt a x"
    using keys_map_erase [of k m] above by blast
  with Cons.IH [OF o] o above p show ?case by (simp del: set_map)
qed simp

text \<open>Past the first greater key nothing is found.\<close>

lemma map_find_None_above:
  "(\<forall>x\<in>set (map fst m). lt k x) \<Longrightarrow> map_find lt k m = None"
  by (cases m) auto

lemma map_value_Nil [simp]: "map_value lt k [] = None"
  by (simp add: map_value_def)

lemma map_value_Cons [simp]:
  "map_value lt k ((a, b) # m) =
     (if lt k a then None else if lt a k then map_value lt k m else Some b)"
  by (simp add: map_value_def)

text \<open>The three ways a key can stand to the first key of a container.\<close>

lemma trichotomy [consumes 0, case_names less greater equiv]:
  assumes "lt k a \<Longrightarrow> \<not> lt a k \<Longrightarrow> P"
    and "lt a k \<Longrightarrow> \<not> lt k a \<Longrightarrow> P"
    and "(\<And>z. lt k z = lt a z) \<Longrightarrow> (\<And>z. lt z k = lt z a) \<Longrightarrow> \<not> lt a a \<Longrightarrow> P"
  shows P
proof (cases "lt k a \<or> lt a k")
  case True
  then show P using assms(1,2) lt_asym by blast
next
  case False
  then show P using equiv_left equiv_right lt_irrefl by (intro assms(3)) blast+
qed

lemma map_value_above:
  assumes "\<forall>x\<in>set (map fst m). lt k x" shows "map_value lt k m = None"
  using map_find_None_above [OF assms] by (simp add: map_value_def)

lemma map_value_assign:
  "ordered_by lt (map fst m) \<Longrightarrow>
   map_value lt k' (map_assign lt k v m) =
     (if \<not> lt k k' \<and> \<not> lt k' k then Some v else map_value lt k' m)"
proof (induction m)
  case Nil
  then show ?case by auto
next
  case (Cons p m)
  obtain a b where p: "p = (a, b)" by fastforce
  show ?case
  proof (cases rule: trichotomy [of k a])
    case less
    then show ?thesis using p by (auto dest: lt_trans)
  next
    case greater
    then show ?thesis using Cons p
      by (cases rule: trichotomy [of k' a]) (auto dest: lt_trans)
  next
    case equiv
    then show ?thesis using p by simp
  qed
qed

lemma map_value_insert:
  "ordered_by lt (map fst m) \<Longrightarrow>
   map_value lt k' (map_insert lt k v m) =
     (if \<not> lt k k' \<and> \<not> lt k' k
      then Some (case map_value lt k m of Some w \<Rightarrow> w | None \<Rightarrow> v)
      else map_value lt k' m)"
proof (induction m)
  case Nil
  then show ?case by auto
next
  case (Cons p m)
  obtain a b where p: "p = (a, b)" by fastforce
  show ?case
  proof (cases rule: trichotomy [of k a])
    case less
    then show ?thesis using p by (auto dest: lt_trans)
  next
    case greater
    then show ?thesis using Cons p
      by (cases rule: trichotomy [of k' a]) (auto dest: lt_trans)
  next
    case equiv
    then show ?thesis using p by simp
  qed
qed

lemma map_value_erase:
  "ordered_by lt (map fst m) \<Longrightarrow>
   map_value lt k' (map_erase lt k m) =
     (if \<not> lt k k' \<and> \<not> lt k' k then None else map_value lt k' m)"
proof (induction m)
  case Nil
  then show ?case by auto
next
  case (Cons p m)
  obtain a b where p: "p = (a, b)" by fastforce
  have above: "\<forall>x\<in>set (map fst m). lt a x" using Cons.prems p by simp
  show ?case
  proof (cases rule: trichotomy [of k a])
    case less
    then show ?thesis using p
      by (cases rule: trichotomy [of k' a]) (auto dest: lt_trans)
  next
    case greater
    then show ?thesis using Cons p
      by (cases rule: trichotomy [of k' a]) (auto dest: lt_trans)
  next
    case equiv
    have "map_value lt k' m = None" if "\<not> lt a k'"
      using that above lt_trans equiv_left
      by (intro map_value_above) (metis (full_types))
    with equiv p show ?thesis using lt_asym by auto
  qed
qed

lemmas map_specs =
  map_value_assign map_value_insert map_value_erase
  ordered_map_assign ordered_map_insert ordered_map_erase

lemma elems_set_insert: "set (set_insert lt x xs) \<subseteq> insert x (set xs)"
  by (induction xs) auto

lemma elems_set_erase: "set (set_erase lt x xs) \<subseteq> set xs"
  by (induction xs) auto

lemma ordered_set_insert: "ordered_by lt xs \<Longrightarrow> ordered_by lt (set_insert lt x xs)"
proof (induction xs)
  case (Cons y ys)
  then show ?case
    using elems_set_insert [of x ys] below_trans [of x y "set ys"] by auto
qed simp

lemma ordered_set_erase: "ordered_by lt xs \<Longrightarrow> ordered_by lt (set_erase lt x xs)"
proof (induction xs)
  case (Cons y ys)
  then show ?case
    using elems_set_erase [of x ys] by auto
qed simp

end

text \<open>
  A comparator that separates distinct keys (a strict total order): the container then holds
  exactly the elements put into it.
\<close>

locale strict_total_order = strict_weak_order +
  assumes total: "x \<noteq> y \<Longrightarrow> lt x y \<or> lt y x"
begin

lemma set_set_insert: "set (set_insert lt x xs) = insert x (set xs)"
  by (induction xs) (use total in auto)

lemma set_set_erase: "ordered_by lt xs \<Longrightarrow> set (set_erase lt x xs) = set xs - {x}"
proof (induction xs)
  case (Cons y ys)
  then show ?case
    by (cases rule: trichotomy [of x y]) (use total [of x y] lt_irrefl lt_asym in auto)
qed simp

lemma set_find_iff: "ordered_by lt xs \<Longrightarrow> set_find lt x xs = (if x \<in> set xs then Some x else None)"
proof (induction xs)
  case (Cons y ys)
  then show ?case
    by (cases rule: trichotomy [of x y]) (use total [of x y] lt_irrefl lt_asym in auto)
qed simp

lemma ordered_by_distinct: "ordered_by lt xs \<Longrightarrow> distinct xs"
  using lt_irrefl by (induction xs) auto

end

text \<open>The laws in the form the comparators are shown to satisfy them.\<close>

lemma strict_total_orderI:
  assumes irrefl: "\<And>x. \<not> lt x x"
    and trans: "\<And>x y z. lt x y \<Longrightarrow> lt y z \<Longrightarrow> lt x z"
    and total: "\<And>x y. x \<noteq> y \<Longrightarrow> lt x y \<or> lt y x"
  shows "strict_total_order lt"
proof unfold_locales
  fix x y z
  show "\<not> lt x x" by (rule irrefl)
  show "lt x y \<Longrightarrow> lt y z \<Longrightarrow> lt x z" by (rule trans)
  show "x \<noteq> y \<Longrightarrow> lt x y \<or> lt y x" by (rule total)
  assume "\<not> lt x y" "\<not> lt y x" "\<not> lt y z" "\<not> lt z y"
  then have "x = y" "y = z" using total by blast+
  then show "\<not> lt x z \<and> \<not> lt z x" using irrefl by simp
qed

lemma strict_weak_order_pullback:
  assumes "strict_total_order lt"
  shows "strict_weak_order (\<lambda>x y. lt (f x) (f y))"
proof unfold_locales
  have w: "strict_weak_order lt"
    using assms by (simp add: strict_total_order_def)
  fix x y z
  show "\<not> lt (f x) (f x)" by (rule strict_weak_order.lt_irrefl [OF w])
  show "lt (f x) (f y) \<Longrightarrow> lt (f y) (f z) \<Longrightarrow> lt (f x) (f z)"
    by (rule strict_weak_order.lt_trans [OF w])
  show "\<not> lt (f x) (f y) \<Longrightarrow> \<not> lt (f y) (f x) \<Longrightarrow> \<not> lt (f y) (f z) \<Longrightarrow>
      \<not> lt (f z) (f y) \<Longrightarrow> \<not> lt (f x) (f z) \<and> \<not> lt (f z) (f x)"
    by (rule strict_weak_order.inc_trans [OF w])
qed

section \<open>Comparators on strings\<close>

text \<open>\<^verbatim>\<open>std::less<std::string>\<close>: lexicographic on unsigned bytes.\<close>

fun str_less :: "string \<Rightarrow> string \<Rightarrow> bool" where
  "str_less [] [] = False"
| "str_less [] (d # ds) = True"
| "str_less (c # cs) [] = False"
| "str_less (c # cs) (d # ds) =
     ((of_char c :: nat) < of_char d \<or> (c = d \<and> str_less cs ds))"

lemma str_less_irrefl: "\<not> str_less x x"
  by (induction x) auto

lemma str_less_trans: "str_less x y \<Longrightarrow> str_less y z \<Longrightarrow> str_less x z"
proof (induction x y arbitrary: z rule: str_less.induct)
  case (4 c cs d ds)
  then show ?case by (cases z) auto
next
  case (2 d ds)
  then show ?case by (cases z) auto
qed simp_all

lemma str_less_total: "x \<noteq> y \<Longrightarrow> str_less x y \<or> str_less y x"
proof (induction x y rule: str_less.induct)
  case (4 c cs d ds)
  then show ?case
    by (metis (full_types) char_of_char list.inject nat_neq_iff str_less.simps(4))
qed simp_all

interpretation str: strict_total_order str_less
  by (rule strict_total_orderI) (fact str_less_irrefl, fact str_less_trans, fact str_less_total)

end
