(* ===== verification/Base64Url.thy ===== *)
theory Base64Url
  imports Prelude "HOL-Library.Word"
begin

unbundle bit_operations_syntax

text \<open>
  The URL-safe base64 codec of \<^verbatim>\<open>blog/src/util/jwt_util.cc\<close> (\<open>base64UrlEncode\<close>,
  \<open>base64UrlDecode\<close>). Bytes are \<open>8 word\<close>, so the shifts, masks and sums of the source are
  taken modulo 256 as its \<^verbatim>\<open>unsigned char\<close> arrays do. The encoder's three-byte buffer and the
  decoder's four-character buffer are the patterns of the two recursive functions. Main
  lemma: decoding an encoding gives the bytes back; the encoding stays in the URL-safe alphabet.
\<close>

section \<open>Bytes and the alphabet\<close>

type_synonym byte = "8 word"

definition byte_of :: "char \<Rightarrow> byte" where
  "byte_of c = of_nat (of_char c)"

definition char_at :: "byte \<Rightarrow> char" where
  "char_at b = char_of (unat b)"

lemma of_char_less_256: "(of_char c :: nat) < 256"
  by (metis char_of_char of_char_of mod_less_divisor zero_less_numeral)

lemma char_at_byte_of [simp]: "char_at (byte_of c) = c"
  using of_char_less_256 [of c]
  by (simp add: char_at_def byte_of_def unat_of_nat take_bit_eq_mod)

lemma byte_of_char_at [simp]: "byte_of (char_at b) = b"
proof -
  have "unat b < 256" using unsigned_less [of b, where ?'a = nat] by simp
  then show ?thesis by (simp add: char_at_def byte_of_def of_char_of)
qed

definition base64_chars :: string where
  "base64_chars =
     ''ABCDEFGHIJKLMNOPQRSTUVWXYZ'' @ ''abcdefghijklmnopqrstuvwxyz'' @ ''0123456789+/''"

text \<open>\<^verbatim>\<open>isalnum\<close> in the C locale.\<close>

definition is_alnum :: "char \<Rightarrow> bool" where
  "is_alnum c \<longleftrightarrow>
     (let n = (of_char c :: nat)
      in (48 \<le> n \<and> n \<le> 57) \<or> (65 \<le> n \<and> n \<le> 90) \<or> (97 \<le> n \<and> n \<le> 122))"

definition is_base64 :: "char \<Rightarrow> bool" where
  "is_base64 c \<longleftrightarrow> is_alnum c \<or> c = CHR ''+'' \<or> c = CHR ''/''"

text \<open>\<^verbatim>\<open>base64_chars.find(c)\<close> stored in an \<^verbatim>\<open>unsigned char\<close>: \<^verbatim>\<open>npos\<close> becomes 255.\<close>

definition b64_index :: "char \<Rightarrow> byte" where
  "b64_index c = (case find_idx [c] base64_chars of Some i \<Rightarrow> of_nat i | None \<Rightarrow> 255)"

definition b64_char :: "byte \<Rightarrow> char" where
  "b64_char i = base64_chars ! unat i"

section \<open>The two buffers\<close>

text \<open>\<open>char_array_3\<close> to \<open>char_array_4\<close> in the encoder, and back in the decoder.\<close>

definition group3 :: "byte \<Rightarrow> byte \<Rightarrow> byte \<Rightarrow> byte list" where
  "group3 a b c =
     [drop_bit 2 (a AND 0xfc),
      push_bit 4 (a AND 0x03) + drop_bit 4 (b AND 0xf0),
      push_bit 2 (b AND 0x0f) + drop_bit 6 (c AND 0xc0),
      c AND 0x3f]"

definition group4 :: "byte \<Rightarrow> byte \<Rightarrow> byte \<Rightarrow> byte \<Rightarrow> byte list" where
  "group4 w x y z =
     [push_bit 2 w + drop_bit 4 (x AND 0x30),
      push_bit 4 (x AND 0xf) + drop_bit 2 (y AND 0x3c),
      push_bit 6 (y AND 0x3) + z]"

fun b64_loop :: "byte list \<Rightarrow> string" where
  "b64_loop (a # b # c # rest) = map b64_char (group3 a b c) @ b64_loop rest"
| "b64_loop [a, b] = take 3 (map b64_char (group3 a b 0)) @ ''=''"
| "b64_loop [a] = take 2 (map b64_char (group3 a 0 0)) @ ''==''"
| "b64_loop [] = []"

fun b64_unloop :: "string \<Rightarrow> byte list" where
  "b64_unloop (p # q # r # s # rest) =
     group4 (b64_index p) (b64_index q) (b64_index r) (b64_index s) @ b64_unloop rest"
| "b64_unloop [p, q, r] =
     take 2 (group4 (b64_index p) (b64_index q) (b64_index r) (b64_index (CHR 0x00)))"
| "b64_unloop [p, q] =
     take 1 (group4 (b64_index p) (b64_index q) (b64_index (CHR 0x00)) (b64_index (CHR 0x00)))"
| "b64_unloop [p] =
     take 0 (group4 (b64_index p) (b64_index (CHR 0x00)) (b64_index (CHR 0x00)) (b64_index (CHR 0x00)))"
| "b64_unloop [] = []"

section \<open>The replacement loops\<close>

text \<open>
  \<^verbatim>\<open>while ((pos = s.find(c)) != npos) s.replace(pos, 1, d)\<close>, which searches from the start
  each time. It stops because every round removes one \<open>c\<close>; the guard on equal characters is
  never taken by the code, whose two characters differ.
\<close>

lemma count_list_update_less:
  "p < length s \<Longrightarrow> s ! p = c \<Longrightarrow> d \<noteq> c \<Longrightarrow> count_list (s[p := d]) c < count_list s c"
proof (induction s arbitrary: p)
  case (Cons e s)
  then show ?case by (cases p) auto
qed simp

function replace_loop :: "char \<Rightarrow> char \<Rightarrow> string \<Rightarrow> string" where
  "replace_loop c d s =
     (case find_idx [c] s of
        None \<Rightarrow> s
      | Some p \<Rightarrow> if d = c then s else replace_loop c d (s[p := d]))"
  by pat_completeness auto
termination
  by (relation "measure (\<lambda>(c, d, s). count_list s c)")
     (auto dest!: find_idx_char_Some intro!: count_list_update_less)

declare replace_loop.simps [simp del]

text \<open>\<^verbatim>\<open>while ((pos = s.find(c)) != npos) s.erase(pos, 1)\<close>.\<close>

function erase_loop :: "char \<Rightarrow> string \<Rightarrow> string" where
  "erase_loop c s =
     (case find_idx [c] s of
        None \<Rightarrow> s
      | Some p \<Rightarrow> erase_loop c (take p s @ drop (Suc p) s))"
  by pat_completeness auto
termination
  by (relation "measure (\<lambda>(c, s). length s)") (auto dest!: find_idx_char_Some)

declare erase_loop.simps [simp del]

lemma map_replace_update:
  "p < length s \<Longrightarrow> s ! p = c \<Longrightarrow>
   map (\<lambda>e. if e = c then d else e) (s[p := d]) = map (\<lambda>e. if e = c then d else e) s"
  by (rule nth_equalityI) (auto simp: nth_list_update)

lemma replace_loop_eq: "d \<noteq> c \<Longrightarrow> replace_loop c d s = map (\<lambda>e. if e = c then d else e) s"
proof (induction c d s rule: replace_loop.induct)
  case (1 c d s)
  show ?case
  proof (cases "find_idx [c] s")
    case None
    then have "c \<notin> set s" by (rule find_idx_char_None [THEN iffD1])
    then have "map (\<lambda>e. if e = c then d else e) s = map (\<lambda>e. e) s" by (intro map_cong) auto
    with None show ?thesis by (subst replace_loop.simps) simp
  next
    case (Some p)
    then have "p < length s" "s ! p = c" using find_idx_char_Some by auto
    with Some "1" show ?thesis
      by (subst replace_loop.simps) (simp add: map_replace_update)
  qed
qed

lemma filter_erase:
  "p < length s \<Longrightarrow> s ! p = c \<Longrightarrow>
   filter (\<lambda>e. e \<noteq> c) (take p s @ drop (Suc p) s) = filter (\<lambda>e. e \<noteq> c) s"
  by (subst (3) id_take_nth_drop [of p s]) simp_all

lemma erase_loop_eq: "erase_loop c s = filter (\<lambda>e. e \<noteq> c) s"
proof (induction c s rule: erase_loop.induct)
  case (1 c s)
  show ?case
  proof (cases "find_idx [c] s")
    case None
    then have "c \<notin> set s" by (rule find_idx_char_None [THEN iffD1])
    then have "filter (\<lambda>e. e \<noteq> c) s = s" by (auto intro: filter_True)
    with None show ?thesis by (subst erase_loop.simps) simp
  next
    case (Some p)
    then have "p < length s" "s ! p = c" using find_idx_char_Some by auto
    with Some "1" show ?thesis
      by (subst erase_loop.simps) (simp add: filter_erase del: filter_append)
  qed
qed

section \<open>Encoder and decoder\<close>

definition base64UrlEncode :: "string \<Rightarrow> string" where
  "base64UrlEncode data =
     (let ret = b64_loop (map byte_of data);
          ret = replace_loop (CHR ''+'') (CHR ''-'') ret;
          ret = replace_loop (CHR ''/'') (CHR ''_'') ret
      in erase_loop (CHR ''='') ret)"

definition base64UrlDecode :: "string \<Rightarrow> string" where
  "base64UrlDecode encoded_string =
     (let input = replace_loop (CHR ''-'') (CHR ''+'') encoded_string;
          input = replace_loop (CHR ''_'') (CHR ''/'') input;
          padding = length input mod 4;
          input = (if padding > 0 then input @ replicate (4 - padding) (CHR ''='') else input);
          body = takeWhile (\<lambda>c. c \<noteq> CHR ''='' \<and> is_base64 c) input
      in map char_at (b64_unloop body))"

section \<open>Decoding undoes encoding\<close>

text \<open>The bit patterns: four six-bit values carry three bytes.\<close>

lemma masks:
  "(0x03 :: byte) = mask 2" "(0xf :: byte) = mask 4" "(0x3f :: byte) = mask 6"
  "(0xf0 :: byte) = push_bit 4 (mask 4)" "(0xfc :: byte) = push_bit 2 (mask 6)"
  "(0xc0 :: byte) = push_bit 6 (mask 2)" "(0x30 :: byte) = push_bit 4 (mask 2)"
  "(0x3c :: byte) = push_bit 2 (mask 4)"
  by (simp_all add: mask_eq_exp_minus_1)

lemma bit_up:
  "2 \<le> n \<Longrightarrow> Suc (Suc (n - 2)) = n"
  "4 \<le> n \<Longrightarrow> Suc (Suc (Suc (Suc (n - 4)))) = n"
  "6 \<le> n \<Longrightarrow> Suc (Suc (Suc (Suc (Suc (Suc (n - 6)))))) = n"
  by auto

text \<open>The sums of the source add disjoint bit fields, so each is a bitwise or.\<close>

lemma plus_disjoint: "x AND y = 0 \<Longrightarrow> x + y = (x OR y :: byte)"
  by (rule disjunctive_add_eq_or)

lemma field_sums:
  "push_bit 4 (a AND 0x03) + drop_bit 4 (b AND 0xf0) =
     (push_bit 4 (a AND 0x03) OR drop_bit 4 (b AND 0xf0) :: byte)"
  "push_bit 2 (a AND 0x0f) + drop_bit 6 (b AND 0xc0) =
     (push_bit 2 (a AND 0x0f) OR drop_bit 6 (b AND 0xc0) :: byte)"
  "push_bit 2 a + drop_bit 4 (b AND 0x30) = (push_bit 2 a OR drop_bit 4 (b AND 0x30) :: byte)"
  "push_bit 4 (a AND 0xf) + drop_bit 2 (b AND 0x3c) =
     (push_bit 4 (a AND 0xf) OR drop_bit 2 (b AND 0x3c) :: byte)"
  "push_bit 6 (a AND 0x3) + (b AND 0x3f) = (push_bit 6 (a AND 0x3) OR (b AND 0x3f) :: byte)"
  unfolding masks by (rule plus_disjoint, rule bit_word_eqI, auto simp: bit_simps)+

lemma group_first:
  "push_bit 2 (drop_bit 2 (a AND 0xfc)) +
   drop_bit 4 ((push_bit 4 (a AND 0x03) + drop_bit 4 (b AND 0xf0)) AND 0x30) = (a :: byte)"
  unfolding field_sums unfolding masks
  by (rule bit_word_eqI, case_tac "n < 2") (auto simp: bit_simps bit_up)

lemma group_second:
  "push_bit 4 ((push_bit 4 (a AND 0x03) + drop_bit 4 (b AND 0xf0)) AND 0xf) +
   drop_bit 2 ((push_bit 2 (b AND 0x0f) + drop_bit 6 (c AND 0xc0)) AND 0x3c) = (b :: byte)"
  unfolding field_sums unfolding masks
  by (rule bit_word_eqI, case_tac "n < 4") (auto simp: bit_simps bit_up)

lemma group_third:
  "push_bit 6 ((push_bit 2 (b AND 0x0f) + drop_bit 6 (c AND 0xc0)) AND 0x3) + (c AND 0x3f) =
   (c :: byte)"
  unfolding field_sums unfolding masks
  by (rule bit_word_eqI, case_tac "n < 6") (auto simp: bit_simps bit_up)

lemma sextet_bound:
  assumes "x AND 0x3f = x" shows "unat (x :: byte) < 64"
proof -
  have "take_bit 6 x = x" using assms unfolding masks by (simp add: take_bit_eq_mask)
  then have "take_bit 6 (unat x) = unat x" by (metis unsigned_take_bit_eq)
  then show ?thesis using take_bit_nat_less_exp [of 6 "unat x"] by simp
qed

lemma group3_bound: "i \<in> set (group3 a b c) \<Longrightarrow> unat i < 64"
proof -
  have "\<forall>i\<in>set (group3 a b c). i AND 0x3f = i"
    unfolding group3_def list.set ball_simps field_sums unfolding masks
    by (intro conjI TrueI; rule bit_word_eqI) (auto simp: bit_simps)
  then show "i \<in> set (group3 a b c) \<Longrightarrow> unat i < 64" by (intro sextet_bound) blast
qed

text \<open>The alphabet has 64 distinct characters, so index and character are inverse.\<close>

lemma base64_chars_distinct: "distinct base64_chars"
  by (simp add: base64_chars_def)

lemma length_base64_chars: "length base64_chars = 64"
  by (simp add: base64_chars_def)

lemma base64_chars_ok: "list_all (\<lambda>c. is_base64 c \<and> c \<noteq> CHR ''='' \<and> c \<noteq> CHR ''-'' \<and> c \<noteq> CHR ''_'') base64_chars"
  by (simp add: base64_chars_def is_base64_def is_alnum_def)

lemma find_idx_nth: "distinct s \<Longrightarrow> i < length s \<Longrightarrow> find_idx [s ! i] s = Some i"
proof (induction s arbitrary: i)
  case (Cons c cs)
  then show ?case by (cases i) (auto simp: nth_mem)
qed simp

lemma b64_index_b64_char: "unat i < 64 \<Longrightarrow> b64_index (b64_char i) = i"
  using find_idx_nth [OF base64_chars_distinct, of "unat i"]
  by (simp add: b64_index_def b64_char_def length_base64_chars)

lemma b64_char_ok:
  "unat i < 64 \<Longrightarrow>
   is_base64 (b64_char i) \<and> b64_char i \<noteq> CHR ''='' \<and> b64_char i \<noteq> CHR ''-'' \<and> b64_char i \<noteq> CHR ''_''"
  using base64_chars_ok nth_mem [of "unat i" base64_chars]
  by (simp add: list_all_iff b64_char_def length_base64_chars del: nth_mem)

lemma map_index_group3:
  "map (\<lambda>i. b64_index (b64_char i)) (group3 a b c) = group3 a b c"
  using group3_bound by (intro map_idI b64_index_b64_char)

lemma group4_group3:
  assumes "group3 a b c = [w, x, y, z]"
  shows "group4 w x y z = [a, b, c]"
  using assms group_first [of a b] group_second [of a b c] group_third [of b c]
  by (auto simp: group3_def group4_def)

text \<open>The encoder's output without its padding.\<close>

fun b64_body :: "byte list \<Rightarrow> string" where
  "b64_body (a # b # c # rest) = map b64_char (group3 a b c) @ b64_body rest"
| "b64_body [a, b] = take 3 (map b64_char (group3 a b 0))"
| "b64_body [a] = take 2 (map b64_char (group3 a 0 0))"
| "b64_body [] = []"

lemma group3_cases: obtains w x y z where "group3 a b c = [w, x, y, z]"
  by (simp add: group3_def)

lemma b64_loop_body: "\<exists>k. b64_loop bs = b64_body bs @ replicate k (CHR ''='')"
proof (induction bs rule: b64_loop.induct)
  case (2 a b)
  show ?case by (rule exI [of _ 1]) simp
next
  case (3 a)
  show ?case by (rule exI [of _ 2]) (simp add: numeral_2_eq_2)
qed auto

lemma group3_chars:
  "d \<in> set (map b64_char (group3 a b c)) \<Longrightarrow> \<exists>i. unat i < 64 \<and> d = b64_char i"
  using group3_bound [of _ a b c] by auto

lemma b64_body_chars: "d \<in> set (b64_body bs) \<Longrightarrow> \<exists>i. unat i < 64 \<and> d = b64_char i"
proof (induction bs rule: b64_body.induct)
  case (1 a b c rest)
  then show ?case using group3_chars [of d a b c] by auto
next
  case (2 a b)
  then have "d \<in> set (map b64_char (group3 a b 0))"
    unfolding b64_body.simps by (rule in_set_takeD)
  then show ?case by (rule group3_chars)
next
  case (3 a)
  then have "d \<in> set (map b64_char (group3 a 0 0))"
    unfolding b64_body.simps by (rule in_set_takeD)
  then show ?case by (rule group3_chars)
qed simp

lemma length_b64_body_mod: "length (b64_body bs) mod 4 \<noteq> 1"
  by (induction bs rule: b64_body.induct) (auto simp: group3_def)

lemma b64_unloop_body: "b64_unloop (b64_body bs) = bs"
proof (induction bs rule: b64_body.induct)
  case (1 a b c rest)
  obtain w x y z where g: "group3 a b c = [w, x, y, z]" by (rule group3_cases)
  with map_index_group3 [of a b c] group4_group3 [OF g] "1" show ?case by simp
next
  case (2 a b)
  obtain w x y z where g: "group3 a b 0 = [w, x, y, z]" by (rule group3_cases)
  have "take 2 (group4 w x y v) = take 2 (group4 w x y z)" for v
    by (simp add: group4_def)
  with g map_index_group3 [of a b 0] group4_group3 [OF g] show ?case by simp
next
  case (3 a)
  obtain w x y z where g: "group3 a 0 0 = [w, x, y, z]" by (rule group3_cases)
  have "take 1 (group4 w x u v) = take 1 (group4 w x y z)" for u v
    by (simp add: group4_def)
  with g map_index_group3 [of a 0 0] group4_group3 [OF g] show ?case by simp
qed simp

text \<open>The URL-safe spelling of a base64 text and its undoing.\<close>

definition url_safe :: "char \<Rightarrow> char" where
  "url_safe c = (if c = CHR ''+'' then CHR ''-'' else if c = CHR ''/'' then CHR ''_'' else c)"

definition url_unsafe :: "char \<Rightarrow> char" where
  "url_unsafe c = (if c = CHR ''-'' then CHR ''+'' else if c = CHR ''_'' then CHR ''/'' else c)"

lemma base64UrlEncode_body: "base64UrlEncode s = map url_safe (b64_body (map byte_of s))"
proof -
  obtain k where k: "b64_loop (map byte_of s) = b64_body (map byte_of s) @ replicate k (CHR ''='')"
    using b64_loop_body by blast
  have "c \<noteq> CHR ''=''" if "c \<in> set (b64_body (map byte_of s))" for c
    using b64_body_chars [OF that] b64_char_ok by auto
  then have "filter (\<lambda>c. c \<noteq> CHR ''='') (map url_safe (b64_body (map byte_of s))) =
      map url_safe (b64_body (map byte_of s))"
    by (auto simp: filter_id_conv url_safe_def)
  moreover have "(\<lambda>c. if c = CHR ''/'' then CHR ''_'' else c) \<circ>
      (\<lambda>c. if c = CHR ''+'' then CHR ''-'' else c) = url_safe"
    by (rule ext) (simp add: url_safe_def)
  ultimately show ?thesis
    by (simp add: base64UrlEncode_def Let_def replace_loop_eq erase_loop_eq k map_replicate)
       (simp add: url_safe_def)
qed

lemma takeWhile_pad:
  assumes "\<forall>c\<in>set body. P c" and "\<not> P x"
  shows "takeWhile P (body @ replicate k x) = body"
  using assms by (cases k) simp_all

lemma base64UrlDecode_alt:
  assumes "\<forall>c\<in>set s. c \<noteq> CHR ''='' \<and> is_base64 (url_unsafe c)"
  shows "base64UrlDecode s = map char_at (b64_unloop (map url_unsafe s))"
proof -
  have comp: "(\<lambda>c. if c = CHR ''_'' then CHR ''/'' else c) \<circ>
      (\<lambda>c. if c = CHR ''-'' then CHR ''+'' else c) = url_unsafe"
    by (rule ext) (simp add: url_unsafe_def)
  have ok: "\<forall>c\<in>set (map url_unsafe s). c \<noteq> CHR ''='' \<and> is_base64 c"
  proof (intro ballI)
    fix d assume "d \<in> set (map url_unsafe s)"
    then obtain c where c: "c \<in> set s" "d = url_unsafe c" by auto
    with assms have "c \<noteq> CHR ''=''" "is_base64 (url_unsafe c)" by simp_all
    with c show "d \<noteq> CHR ''='' \<and> is_base64 d" by (simp add: url_unsafe_def)
  qed
  show ?thesis
    using takeWhile_pad [OF ok, of "CHR ''=''"] takeWhile_pad [OF ok, of "CHR ''=''" 0]
    by (simp add: base64UrlDecode_def Let_def replace_loop_eq comp del: takeWhile_eq_all_conv)
qed

lemma url_unsafe_safe:
  "unat i < 64 \<Longrightarrow> url_unsafe (url_safe (b64_char i)) = b64_char i"
  using b64_char_ok [of i] by (simp add: url_unsafe_def url_safe_def)

lemma encoded_char:
  "d \<in> set (base64UrlEncode s) \<Longrightarrow> \<exists>i. unat i < 64 \<and> d = url_safe (b64_char i)"
  unfolding base64UrlEncode_body using b64_body_chars by auto

lemma encoded_char_ok:
  assumes "d \<in> set (base64UrlEncode s)"
  shows "d \<noteq> CHR ''='' \<and> is_base64 (url_unsafe d)"
proof -
  obtain i where i: "unat i < 64" "d = url_safe (b64_char i)" using encoded_char [OF assms] by blast
  with b64_char_ok [OF i(1)] url_unsafe_safe [OF i(1)] show ?thesis
    by (simp add: url_safe_def)
qed

lemma base64UrlDecode_encode [simp]: "base64UrlDecode (base64UrlEncode s) = s"
proof -
  let ?b = "b64_body (map byte_of s)"
  have "url_unsafe (url_safe d) = d" if "d \<in> set ?b" for d
    using b64_body_chars [OF that] url_unsafe_safe by auto
  then have "map url_unsafe (base64UrlEncode s) = ?b"
    by (simp add: base64UrlEncode_body comp_def map_idI)
  moreover have "\<forall>d\<in>set (base64UrlEncode s). d \<noteq> CHR ''='' \<and> is_base64 (url_unsafe d)"
    using encoded_char_ok by blast
  ultimately show ?thesis
    by (simp add: base64UrlDecode_alt b64_unloop_body comp_def)
qed

text \<open>C8: \<open>base64UrlDecode\<close> undoes \<open>base64UrlEncode\<close> on every byte string, whatever its length
  modulo three and although the padding is stripped and the alphabet respelled on the way; so two
  strings with the same encoding are the same string.\<close>

theorem base64Url_roundtrip:
  "base64UrlDecode (base64UrlEncode s) = s \<and> (base64UrlEncode s = base64UrlEncode t \<longleftrightarrow> s = t)"
proof -
  have "s = t" if "base64UrlEncode s = base64UrlEncode t"
    using arg_cong [OF that, of base64UrlDecode] by simp
  then show ?thesis by auto
qed

text \<open>An encoding uses letters, digits, \<^verbatim>\<open>-\<close> and \<^verbatim>\<open>_\<close> only, so it
  contains no \<^verbatim>\<open>.\<close> and can be a segment of a token.\<close>

theorem base64Url_alphabet:
  "list_all (\<lambda>c. is_alnum c \<or> c = CHR ''-'' \<or> c = CHR ''_'') (base64UrlEncode s)"
proof -
  have "is_alnum d \<or> d = CHR ''-'' \<or> d = CHR ''_''" if d: "d \<in> set (base64UrlEncode s)" for d
  proof -
    obtain i where i: "unat i < 64" "d = url_safe (b64_char i)" using encoded_char [OF d] by blast
    with b64_char_ok [OF i(1)] show ?thesis
      by (auto simp: url_safe_def is_base64_def)
  qed
  then show ?thesis by (simp add: list_all_iff)
qed

lemma base64Url_no_dot [simp]: "CHR ''.'' \<notin> set (base64UrlEncode s)"
proof
  assume "CHR ''.'' \<in> set (base64UrlEncode s)"
  then show False
    using encoded_char_ok [of "CHR ''.''" s] by (simp add: is_base64_def is_alnum_def url_unsafe_def)
qed

end
