(* ===== verification/Models.thy ===== *)
theory Models
  imports Prelude
begin

text \<open>
  The data model of the blog server (\<^verbatim>\<open>blog/src/model/blog.h\<close>, \<^verbatim>\<open>user.h\<close>,
  \<^verbatim>\<open>response.h\<close>): the classes \<open>Blog\<close>, \<open>User\<close> and \<open>ApiResponse\<close> with their conversions
  to and from JSON. A getter is a record selector and a setter a record update. The JSON library
  (jsoncpp) is not part of the sources: it is the parameter \<open>J\<close>, a record of the operations the code
  calls, and \<open>json_laws\<close> states what jsoncpp documents of them. \<^verbatim>\<open>time(nullptr)\<close> is the
  argument \<open>now\<close>.
\<close>

section \<open>The JSON library as a parameter\<close>

text \<open>
  \<open>jset\<close> is \<^verbatim>\<open>v[key] = x\<close>, \<open>jget\<close> is \<^verbatim>\<open>v[key]\<close> (null when the key is absent).
  Calls that throw \<^verbatim>\<open>Json::LogicError\<close> on a value of the wrong type return \<open>Inl\<close>.
\<close>

record 'j jsonlib =
  jnull :: 'j
  jint :: "int \<Rightarrow> 'j"
  jstr :: "string \<Rightarrow> 'j"
  jset :: "'j \<Rightarrow> string \<Rightarrow> 'j \<Rightarrow> 'j"
  jarray :: 'j
  jappend :: "'j \<Rightarrow> 'j \<Rightarrow> 'j"
  isMember :: "'j \<Rightarrow> string \<Rightarrow> bool res"
  jget :: "'j \<Rightarrow> string \<Rightarrow> 'j res"
  asInt64 :: "'j \<Rightarrow> int res"
  asInt :: "'j \<Rightarrow> int res"
  asString :: "'j \<Rightarrow> string res"
  parseFromStream :: "string \<Rightarrow> 'j option"
  writeString :: "'j \<Rightarrow> string"

text \<open>
  Documented behaviour of jsoncpp on objects: \<open>obj\<close> reads a null or object value as a map.
\<close>

definition json_laws :: "'j jsonlib \<Rightarrow> ('j \<Rightarrow> (string \<rightharpoonup> 'j) option) \<Rightarrow> bool" where
  "json_laws J obj \<longleftrightarrow>
     obj (jnull J) = Some Map.empty \<and>
     (\<forall>j m k v. obj j = Some m \<longrightarrow> obj (jset J j k v) = Some (m(k \<mapsto> v))) \<and>
     (\<forall>j m k. obj j = Some m \<longrightarrow> isMember J j k = Inr (m k \<noteq> None)) \<and>
     (\<forall>j m k v. obj j = Some m \<longrightarrow> m k = Some v \<longrightarrow> jget J j k = Inr v) \<and>
     (\<forall>j m k. obj j = Some m \<longrightarrow> m k = None \<longrightarrow> jget J j k = Inr (jnull J)) \<and>
     (\<forall>n. in_i64 n \<longrightarrow> asInt64 J (jint J n) = Inr n) \<and>
     (\<forall>n. in_i32 n \<longrightarrow> asInt J (jint J n) = Inr n) \<and>
     (\<forall>s. asString J (jstr J s) = Inr s)"

lemma json_lawsD:
  assumes "json_laws J obj"
  shows "obj (jnull J) = Some Map.empty"
    and "obj j = Some m \<Longrightarrow> obj (jset J j k v) = Some (m(k \<mapsto> v))"
    and "obj j = Some m \<Longrightarrow> isMember J j k = Inr (m k \<noteq> None)"
    and "obj j = Some m \<Longrightarrow> m k = Some v \<Longrightarrow> jget J j k = Inr v"
    and "in_i64 n \<Longrightarrow> asInt64 J (jint J n) = Inr n"
    and "in_i32 n \<Longrightarrow> asInt J (jint J n) = Inr n"
    and "asString J (jstr J s) = Inr s"
  using assms unfolding json_laws_def by simp_all

text \<open>
  \<^verbatim>\<open>if (json.isMember(key)) x.setField(json[key].asT());\<close>
\<close>

definition set_if_member ::
    "'j jsonlib \<Rightarrow> 'j \<Rightarrow> string \<Rightarrow> ('j \<Rightarrow> 'a res) \<Rightarrow> ('a \<Rightarrow> 'b \<Rightarrow> 'b) \<Rightarrow> 'b \<Rightarrow> 'b res" where
  "set_if_member J json key asT set_field x =
     rbind (isMember J json key) (\<lambda>m.
       if m then
         rbind (jget J json key) (\<lambda>v.
         rbind (asT v) (\<lambda>y. Inr (set_field y x)))
       else Inr x)"

lemma set_if_member_present:
  assumes "json_laws J obj" "obj j = Some m" "m key = Some v" "asT v = Inr y"
  shows "set_if_member J j key asT f x = Inr (f y x)"
  using json_lawsD(3) [OF assms(1,2), of key] json_lawsD(4) [OF assms(1,2,3)] assms(3,4)
  by (simp add: set_if_member_def)

lemma set_if_member_absent:
  assumes "json_laws J obj" "obj j = Some m" "m key = None"
  shows "set_if_member J j key asT f x = Inr x"
  using json_lawsD(3) [OF assms(1,2), of key] assms(3) by (simp add: set_if_member_def)

section \<open>Blog\<close>

definition STATUS_DRAFT :: int where "STATUS_DRAFT = 0"
definition STATUS_PUBLISHED :: int where "STATUS_PUBLISHED = 1"
definition STATUS_DELETED :: int where "STATUS_DELETED = 2"

lemmas status_defs = STATUS_DRAFT_def STATUS_PUBLISHED_def STATUS_DELETED_def

record blog =
  b_id :: int
  b_title :: string
  b_content :: string
  b_summary :: string
  b_author_id :: int
  b_author_name :: string
  b_status :: int
  b_view_count :: int
  b_created_at :: int
  b_updated_at :: int
  b_published_at :: int

definition new_blog :: blog where
  "new_blog =
     \<lparr>b_id = 0, b_title = [], b_content = [], b_summary = [], b_author_id = 0, b_author_name = [],
      b_status = STATUS_DRAFT, b_view_count = 0, b_created_at = 0, b_updated_at = 0,
      b_published_at = 0\<rparr>"

lemma b_id_new_blog [simp]: "b_id new_blog = 0"
  by (simp add: new_blog_def)

definition blog_toJson :: "'j jsonlib \<Rightarrow> blog \<Rightarrow> 'j" where
  "blog_toJson J b =
     (let json = jset J (jnull J) ''id'' (jint J (b_id b));
          json = jset J json ''title'' (jstr J (b_title b));
          json = jset J json ''content'' (jstr J (b_content b));
          json = jset J json ''summary'' (jstr J (b_summary b));
          json = jset J json ''author_id'' (jint J (b_author_id b));
          json = jset J json ''author_name'' (jstr J (b_author_name b));
          json = jset J json ''status'' (jint J (b_status b));
          json = jset J json ''view_count'' (jint J (b_view_count b));
          json = jset J json ''created_at'' (jint J (b_created_at b));
          json = jset J json ''updated_at'' (jint J (b_updated_at b))
      in if b_published_at b > 0 then jset J json ''published_at'' (jint J (b_published_at b))
         else json)"

text \<open>The members read one by one, then the defaults that depend on the clock.\<close>

definition blog_members :: "'j jsonlib \<Rightarrow> 'j \<Rightarrow> blog res" where
  "blog_members J json =
     rbind (set_if_member J json ''id'' (asInt64 J) (\<lambda>x b. b\<lparr>b_id := x\<rparr>) new_blog) (\<lambda>b.
     rbind (set_if_member J json ''title'' (asString J) (\<lambda>x b. b\<lparr>b_title := x\<rparr>) b) (\<lambda>b.
     rbind (set_if_member J json ''content'' (asString J) (\<lambda>x b. b\<lparr>b_content := x\<rparr>) b) (\<lambda>b.
     rbind (set_if_member J json ''summary'' (asString J) (\<lambda>x b. b\<lparr>b_summary := x\<rparr>) b) (\<lambda>b.
     rbind (set_if_member J json ''author_id'' (asInt64 J) (\<lambda>x b. b\<lparr>b_author_id := x\<rparr>) b) (\<lambda>b.
     rbind (set_if_member J json ''author_name'' (asString J) (\<lambda>x b. b\<lparr>b_author_name := x\<rparr>) b) (\<lambda>b.
     rbind (set_if_member J json ''status'' (asInt J) (\<lambda>x b. b\<lparr>b_status := x\<rparr>) b) (\<lambda>b.
     rbind (set_if_member J json ''view_count'' (asInt J) (\<lambda>x b. b\<lparr>b_view_count := x\<rparr>) b) (\<lambda>b.
     rbind (set_if_member J json ''created_at'' (asInt64 J) (\<lambda>x b. b\<lparr>b_created_at := x\<rparr>) b) (\<lambda>b.
     rbind (set_if_member J json ''updated_at'' (asInt64 J) (\<lambda>x b. b\<lparr>b_updated_at := x\<rparr>) b) (\<lambda>b.
     set_if_member J json ''published_at'' (asInt64 J) (\<lambda>x b. b\<lparr>b_published_at := x\<rparr>) b))))))))))"

definition blog_default_times :: "int \<Rightarrow> blog \<Rightarrow> blog" where
  "blog_default_times now b =
     (let b = (if b_created_at b = 0 then b\<lparr>b_created_at := now\<rparr> else b);
          b = (if b_updated_at b = 0 then b\<lparr>b_updated_at := now\<rparr> else b)
      in if b_status b = STATUS_PUBLISHED \<and> b_published_at b = 0
         then b\<lparr>b_published_at := now\<rparr> else b)"

definition blog_fromJson :: "'j jsonlib \<Rightarrow> int \<Rightarrow> 'j \<Rightarrow> blog res" where
  "blog_fromJson J now json =
     rbind (blog_members J json) (\<lambda>b. Inr (blog_default_times now b))"

definition blog_isDraft :: "blog \<Rightarrow> bool" where
  "blog_isDraft b \<longleftrightarrow> b_status b = STATUS_DRAFT"

definition blog_isPublished :: "blog \<Rightarrow> bool" where
  "blog_isPublished b \<longleftrightarrow> b_status b = STATUS_PUBLISHED"

definition blog_isDeleted :: "blog \<Rightarrow> bool" where
  "blog_isDeleted b \<longleftrightarrow> b_status b = STATUS_DELETED"

definition blog_isValid :: "blog \<Rightarrow> bool" where
  "blog_isValid b \<longleftrightarrow> b_status b \<noteq> STATUS_DELETED"

text \<open>\<^verbatim>\<open>view_count += count\<close> on an \<^verbatim>\<open>int\<close>: overflow is undefined.\<close>

definition blog_increaseViewCount :: "int \<Rightarrow> blog \<Rightarrow> blog res" where
  "blog_increaseViewCount count b =
     rbind (i32_checked (b_view_count b + count)) (\<lambda>n. Inr (b\<lparr>b_view_count := n\<rparr>))"

definition blog_updateTimestamp :: "int \<Rightarrow> blog \<Rightarrow> blog" where
  "blog_updateTimestamp now b = b\<lparr>b_updated_at := now\<rparr>"

definition blog_publish :: "int \<Rightarrow> blog \<Rightarrow> blog" where
  "blog_publish now b =
     b\<lparr>b_status := STATUS_PUBLISHED, b_published_at := now, b_updated_at := now\<rparr>"

definition blog_markAsDraft :: "int \<Rightarrow> blog \<Rightarrow> blog" where
  "blog_markAsDraft now b = b\<lparr>b_status := STATUS_DRAFT, b_updated_at := now\<rparr>"

definition blog_softDelete :: "int \<Rightarrow> blog \<Rightarrow> blog" where
  "blog_softDelete now b = b\<lparr>b_status := STATUS_DELETED, b_updated_at := now\<rparr>"

section \<open>User\<close>

definition STATUS_INACTIVE :: int where "STATUS_INACTIVE = 0"
definition STATUS_ACTIVE :: int where "STATUS_ACTIVE = 1"

record user =
  u_id :: int
  u_username :: string
  u_password :: string
  u_nickname :: string
  u_email :: string
  u_avatar :: string
  u_bio :: string
  u_status :: int
  u_created_at :: int
  u_updated_at :: int
  u_last_login_at :: int

definition new_user :: user where
  "new_user =
     \<lparr>u_id = 0, u_username = [], u_password = [], u_nickname = [], u_email = [], u_avatar = [],
      u_bio = [], u_status = STATUS_ACTIVE, u_created_at = 0, u_updated_at = 0,
      u_last_login_at = 0\<rparr>"

lemma u_id_new_user [simp]: "u_id new_user = 0"
  by (simp add: new_user_def)

definition user_toJson :: "'j jsonlib \<Rightarrow> bool \<Rightarrow> user \<Rightarrow> 'j" where
  "user_toJson J includeSensitive u =
     (let json = jset J (jnull J) ''id'' (jint J (u_id u));
          json = jset J json ''username'' (jstr J (u_username u));
          json = (if includeSensitive then jset J json ''password'' (jstr J (u_password u)) else json);
          json = jset J json ''nickname'' (jstr J (u_nickname u));
          json = jset J json ''email'' (jstr J (u_email u));
          json = jset J json ''avatar'' (jstr J (u_avatar u));
          json = jset J json ''bio'' (jstr J (u_bio u));
          json = jset J json ''status'' (jint J (u_status u));
          json = jset J json ''created_at'' (jint J (u_created_at u));
          json = jset J json ''updated_at'' (jint J (u_updated_at u))
      in if u_last_login_at u > 0 then jset J json ''last_login_at'' (jint J (u_last_login_at u))
         else json)"

definition user_members :: "'j jsonlib \<Rightarrow> 'j \<Rightarrow> user res" where
  "user_members J json =
     rbind (set_if_member J json ''id'' (asInt64 J) (\<lambda>x u. u\<lparr>u_id := x\<rparr>) new_user) (\<lambda>u.
     rbind (set_if_member J json ''username'' (asString J) (\<lambda>x u. u\<lparr>u_username := x\<rparr>) u) (\<lambda>u.
     rbind (set_if_member J json ''password'' (asString J) (\<lambda>x u. u\<lparr>u_password := x\<rparr>) u) (\<lambda>u.
     rbind (set_if_member J json ''nickname'' (asString J) (\<lambda>x u. u\<lparr>u_nickname := x\<rparr>) u) (\<lambda>u.
     rbind (set_if_member J json ''email'' (asString J) (\<lambda>x u. u\<lparr>u_email := x\<rparr>) u) (\<lambda>u.
     rbind (set_if_member J json ''avatar'' (asString J) (\<lambda>x u. u\<lparr>u_avatar := x\<rparr>) u) (\<lambda>u.
     rbind (set_if_member J json ''bio'' (asString J) (\<lambda>x u. u\<lparr>u_bio := x\<rparr>) u) (\<lambda>u.
     rbind (set_if_member J json ''status'' (asInt J) (\<lambda>x u. u\<lparr>u_status := x\<rparr>) u) (\<lambda>u.
     rbind (set_if_member J json ''created_at'' (asInt64 J) (\<lambda>x u. u\<lparr>u_created_at := x\<rparr>) u) (\<lambda>u.
     rbind (set_if_member J json ''updated_at'' (asInt64 J) (\<lambda>x u. u\<lparr>u_updated_at := x\<rparr>) u) (\<lambda>u.
     set_if_member J json ''last_login_at'' (asInt64 J) (\<lambda>x u. u\<lparr>u_last_login_at := x\<rparr>) u))))))))))"

definition user_default_times :: "int \<Rightarrow> user \<Rightarrow> user" where
  "user_default_times now u =
     (let u = (if u_created_at u = 0 then u\<lparr>u_created_at := now\<rparr> else u)
      in if u_updated_at u = 0 then u\<lparr>u_updated_at := now\<rparr> else u)"

definition user_fromJson :: "'j jsonlib \<Rightarrow> int \<Rightarrow> 'j \<Rightarrow> user res" where
  "user_fromJson J now json =
     rbind (user_members J json) (\<lambda>u. Inr (user_default_times now u))"

definition user_isActive :: "user \<Rightarrow> bool" where
  "user_isActive u \<longleftrightarrow> u_status u = STATUS_ACTIVE"

definition user_isInactive :: "user \<Rightarrow> bool" where
  "user_isInactive u \<longleftrightarrow> u_status u = STATUS_INACTIVE"

definition user_updateTimestamp :: "int \<Rightarrow> user \<Rightarrow> user" where
  "user_updateTimestamp now u = u\<lparr>u_updated_at := now\<rparr>"

definition user_activate :: "int \<Rightarrow> user \<Rightarrow> user" where
  "user_activate now u = user_updateTimestamp now (u\<lparr>u_status := STATUS_ACTIVE\<rparr>)"

definition user_deactivate :: "int \<Rightarrow> user \<Rightarrow> user" where
  "user_deactivate now u = user_updateTimestamp now (u\<lparr>u_status := STATUS_INACTIVE\<rparr>)"

text \<open>Two calls of \<^verbatim>\<open>time(nullptr)\<close>.\<close>

definition user_updateLastLogin :: "int \<Rightarrow> int \<Rightarrow> user \<Rightarrow> user" where
  "user_updateLastLogin t1 t2 u = user_updateTimestamp t2 (u\<lparr>u_last_login_at := t1\<rparr>)"

definition user_isValid :: "user \<Rightarrow> bool" where
  "user_isValid u \<longleftrightarrow> u_status u \<noteq> STATUS_INACTIVE"

definition user_verifyPassword :: "string \<Rightarrow> user \<Rightarrow> bool" where
  "user_verifyPassword password u \<longleftrightarrow> u_password u = password"

definition user_clearPassword :: "user \<Rightarrow> user" where
  "user_clearPassword u = u\<lparr>u_password := []\<rparr>"

definition user_isComplete :: "user \<Rightarrow> bool" where
  "user_isComplete u \<longleftrightarrow> u_username u \<noteq> [] \<and> u_password u \<noteq> [] \<and> u_email u \<noteq> []"

definition user_getDisplayName :: "user \<Rightarrow> string" where
  "user_getDisplayName u = (if u_nickname u = [] then u_username u else u_nickname u)"

section \<open>ApiResponse\<close>

record 'j api_response =
  api_code :: int
  api_message :: string
  api_data :: 'j

definition api_toJson :: "'j jsonlib \<Rightarrow> 'j api_response \<Rightarrow> 'j" where
  "api_toJson J r =
     jset J (jset J (jset J (jnull J) ''code'' (jint J (api_code r)))
       ''message'' (jstr J (api_message r))) ''data'' (api_data r)"

section \<open>Round trips\<close>

text \<open>The values a stored row can have: the integer fields fit their C++ types.\<close>

definition blog_in_range :: "blog \<Rightarrow> bool" where
  "blog_in_range b \<longleftrightarrow>
     in_i64 (b_id b) \<and> in_i64 (b_author_id b) \<and> in_i32 (b_status b) \<and> in_i32 (b_view_count b) \<and>
     in_i64 (b_created_at b) \<and> in_i64 (b_updated_at b) \<and> in_i64 (b_published_at b)"

definition user_in_range :: "user \<Rightarrow> bool" where
  "user_in_range u \<longleftrightarrow>
     in_i64 (u_id u) \<and> in_i32 (u_status u) \<and> in_i64 (u_created_at u) \<and>
     in_i64 (u_updated_at u) \<and> in_i64 (u_last_login_at u)"

lemma blog_toJson_view:
  assumes "json_laws J obj"
  shows "obj (blog_toJson J b) = Some (
    let m = Map.empty(''id'' \<mapsto> jint J (b_id b), ''title'' \<mapsto> jstr J (b_title b),
        ''content'' \<mapsto> jstr J (b_content b), ''summary'' \<mapsto> jstr J (b_summary b),
        ''author_id'' \<mapsto> jint J (b_author_id b), ''author_name'' \<mapsto> jstr J (b_author_name b),
        ''status'' \<mapsto> jint J (b_status b), ''view_count'' \<mapsto> jint J (b_view_count b),
        ''created_at'' \<mapsto> jint J (b_created_at b), ''updated_at'' \<mapsto> jint J (b_updated_at b))
    in if b_published_at b > 0 then m(''published_at'' \<mapsto> jint J (b_published_at b)) else m)"
  by (simp add: blog_toJson_def Let_def json_lawsD(1,2) [OF assms])

lemma user_toJson_view:
  assumes "json_laws J obj"
  shows "obj (user_toJson J sens u) = Some (
    let m = Map.empty(''id'' \<mapsto> jint J (u_id u), ''username'' \<mapsto> jstr J (u_username u));
        m = (if sens then m(''password'' \<mapsto> jstr J (u_password u)) else m);
        m = m(''nickname'' \<mapsto> jstr J (u_nickname u), ''email'' \<mapsto> jstr J (u_email u),
          ''avatar'' \<mapsto> jstr J (u_avatar u), ''bio'' \<mapsto> jstr J (u_bio u),
          ''status'' \<mapsto> jint J (u_status u), ''created_at'' \<mapsto> jint J (u_created_at u),
          ''updated_at'' \<mapsto> jint J (u_updated_at u))
    in if u_last_login_at u > 0 then m(''last_login_at'' \<mapsto> jint J (u_last_login_at u)) else m)"
  by (simp add: user_toJson_def Let_def json_lawsD(1,2) [OF assms])

subsection \<open>A concrete JSON library, for the witnesses\<close>

datatype jval = JNull | JInt int | JStr string | JArr "jval list" | JObj "(string \<times> jval) list"

fun jval_obj :: "jval \<Rightarrow> (string \<rightharpoonup> jval) option" where
  "jval_obj JNull = Some Map.empty"
| "jval_obj (JObj kvs) = Some (map_of kvs)"
| "jval_obj _ = None"

definition jval_lib :: "jval jsonlib" where
  "jval_lib =
     \<lparr>jnull = JNull, jint = JInt, jstr = JStr,
      jset = (\<lambda>j k v. case j of JObj kvs \<Rightarrow> JObj ((k, v) # kvs) | _ \<Rightarrow> JObj [(k, v)]),
      jarray = JArr [],
      jappend = (\<lambda>j v. case j of JArr vs \<Rightarrow> JArr (vs @ [v]) | _ \<Rightarrow> JArr [v]),
      isMember = (\<lambda>j k. case jval_obj j of Some m \<Rightarrow> Inr (m k \<noteq> None) | None \<Rightarrow> Inl JsonError),
      jget = (\<lambda>j k. case jval_obj j of
         Some m \<Rightarrow> Inr (case m k of Some v \<Rightarrow> v | None \<Rightarrow> JNull) | None \<Rightarrow> Inl JsonError),
      asInt64 = (\<lambda>j. case j of JInt n \<Rightarrow> if in_i64 n then Inr n else Inl JsonError
         | JNull \<Rightarrow> Inr 0 | _ \<Rightarrow> Inl JsonError),
      asInt = (\<lambda>j. case j of JInt n \<Rightarrow> if in_i32 n then Inr n else Inl JsonError
         | JNull \<Rightarrow> Inr 0 | _ \<Rightarrow> Inl JsonError),
      asString = (\<lambda>j. case j of JStr t \<Rightarrow> Inr t | JNull \<Rightarrow> Inr [] | JInt n \<Rightarrow> Inr (show_int n)
         | _ \<Rightarrow> Inl JsonError),
      parseFromStream = (\<lambda>t. if t = ''{}'' then Some (JObj []) else None),
      writeString = (\<lambda>j. case j of JNull \<Rightarrow> ''null'' | JStr t \<Rightarrow> t | _ \<Rightarrow> ''{}'')\<rparr>"

lemma jval_lib_laws: "json_laws jval_lib jval_obj"
  unfolding json_laws_def
proof (intro conjI allI impI)
  fix j m k v
  assume "jval_obj j = Some m"
  then show "jval_obj (jset jval_lib j k v) = Some (m(k \<mapsto> v))"
    by (cases j) (auto simp: jval_lib_def)
qed (simp_all add: jval_lib_def)

lemma blog_rebuild:
  "\<lparr>b_id = b_id b, b_title = b_title b, b_content = b_content b, b_summary = b_summary b,
    b_author_id = b_author_id b, b_author_name = b_author_name b, b_status = b_status b,
    b_view_count = b_view_count b, b_created_at = b_created_at b, b_updated_at = b_updated_at b,
    b_published_at = p\<rparr> = b\<lparr>b_published_at := p\<rparr>"
  by (rule blog.equality) simp_all

lemma user_rebuild:
  "\<lparr>u_id = u_id u, u_username = u_username u, u_password = p, u_nickname = u_nickname u,
    u_email = u_email u, u_avatar = u_avatar u, u_bio = u_bio u, u_status = u_status u,
    u_created_at = u_created_at u, u_updated_at = u_updated_at u, u_last_login_at = l\<rparr> =
   u\<lparr>u_password := p, u_last_login_at := l\<rparr>"
  by (rule user.equality) simp_all

subsection \<open>Properties\<close>

text \<open>Reading back the JSON of a blog gives the blog, up to a negative publication time
  (which \<open>toJson\<close> drops) and the clock defaults for times that are zero.\<close>

theorem blog_json_roundtrip:
  assumes laws: "json_laws J obj" and range: "blog_in_range b"
  shows "blog_fromJson J now (blog_toJson J b) =
    Inr (blog_default_times now (b\<lparr>b_published_at := max 0 (b_published_at b)\<rparr>))"
proof -
  note view = blog_toJson_view [OF laws, of b, unfolded Let_def]
  note present = set_if_member_present [OF laws view]
  note vals = json_lawsD(5-7) [OF laws]
  show ?thesis
  proof (cases "b_published_at b > 0")
    case True
    with range show ?thesis
      by (simp add: blog_fromJson_def blog_members_def present vals blog_in_range_def new_blog_def
          blog_rebuild)
  next
    case False
    then have absent: "set_if_member J (blog_toJson J b) ''published_at'' asT f x = Inr x"
      for asT :: "_ \<Rightarrow> int res" and f and x :: blog
      using view by (intro set_if_member_absent [OF laws view]) simp
    with range False show ?thesis
      by (simp add: blog_fromJson_def blog_members_def present absent vals blog_in_range_def new_blog_def
          blog_rebuild)
  qed
qed

theorem blog_json_roundtrip_witness:
  "json_laws jval_lib jval_obj \<and> blog_in_range (new_blog\<lparr>b_id := 7, b_title := ''t'', b_view_count := 3\<rparr>) \<and>
   blog_fromJson jval_lib 5 (blog_toJson jval_lib (new_blog\<lparr>b_id := 7, b_title := ''t'', b_view_count := 3\<rparr>)) =
   Inr (new_blog\<lparr>b_id := 7, b_title := ''t'', b_view_count := 3, b_created_at := 5, b_updated_at := 5\<rparr>)"
proof -
  have r: "blog_in_range (new_blog\<lparr>b_id := 7, b_title := ''t'', b_view_count := 3\<rparr>)"
    by (simp add: blog_in_range_def new_blog_def in_i64_def in_i32_def status_defs)
  from blog_json_roundtrip [OF jval_lib_laws r, of 5] r jval_lib_laws show ?thesis
    by (simp add: blog_default_times_def new_blog_def status_defs)
qed

text \<open>Reading back the JSON of a user gives the user; without the sensitive fields the
  password comes back empty and everything else unchanged.\<close>

theorem user_json_roundtrip:
  assumes laws: "json_laws J obj" and range: "user_in_range u"
  shows "user_fromJson J now (user_toJson J sens u) =
    Inr (user_default_times now (u\<lparr>u_password := (if sens then u_password u else []),
      u_last_login_at := max 0 (u_last_login_at u)\<rparr>))"
proof -
  note view = user_toJson_view [OF laws, of sens u, unfolded Let_def]
  note present = set_if_member_present [OF laws view]
  note absent = set_if_member_absent [OF laws view]
  note vals = json_lawsD(5-7) [OF laws]
  have pw: "set_if_member J (user_toJson J sens u) ''password'' (asString J) f x =
      Inr (if sens then f (u_password u) x else x)" for f and x :: user
    using present [of "''password''" _ "asString J" "u_password u" f x]
      absent [of "''password''" "asString J" f x] vals
    by (cases sens) auto
  have ll: "set_if_member J (user_toJson J sens u) ''last_login_at'' (asInt64 J) f x =
      Inr (if u_last_login_at u > 0 then f (u_last_login_at u) x else x)" for f and x :: user
    using present [of "''last_login_at''" _ "asInt64 J" "u_last_login_at u" f x]
      absent [of "''last_login_at''" "asInt64 J" f x] vals range
    by (cases "u_last_login_at u > 0") (auto simp: user_in_range_def)
  show ?thesis using range
    by (simp add: user_fromJson_def user_members_def present vals pw ll user_in_range_def
        new_user_def user_rebuild max_def)
qed

theorem user_json_roundtrip_witness:
  "json_laws jval_lib jval_obj \<and> user_in_range (new_user\<lparr>u_id := 3, u_password := ''pw''\<rparr>) \<and>
   user_fromJson jval_lib 9 (user_toJson jval_lib False (new_user\<lparr>u_id := 3, u_password := ''pw''\<rparr>)) =
   Inr (new_user\<lparr>u_id := 3, u_created_at := 9, u_updated_at := 9\<rparr>)"
proof -
  have r: "user_in_range (new_user\<lparr>u_id := 3, u_password := ''pw''\<rparr>)"
    by (simp add: user_in_range_def new_user_def in_i64_def in_i32_def STATUS_ACTIVE_def)
  from user_json_roundtrip [OF jval_lib_laws r, of 9 False] r jval_lib_laws show ?thesis
    by (simp add: user_default_times_def new_user_def)
qed

text \<open>The JSON the servlets send for a user (no sensitive fields) has no member
  \<^verbatim>\<open>password\<close>.\<close>

theorem user_toJson_hides_password:
  assumes "json_laws J obj"
  shows "isMember J (user_toJson J False u) ''password'' = Inr False"
  using json_lawsD(3) [OF assms user_toJson_view [OF assms]] by (simp add: Let_def)

theorem user_toJson_hides_password_witness:
  "json_laws jval_lib jval_obj \<and>
   isMember jval_lib (user_toJson jval_lib False (new_user\<lparr>u_password := ''secret''\<rparr>)) ''password'' = Inr False"
  using user_toJson_hides_password [OF jval_lib_laws] jval_lib_laws by blast

end
