(* ===== verification/Mysql.thy ===== *)
theory Mysql
  imports Models "HOL-Library.Multiset"
begin

text \<open>
  The database layer the data access objects call: the wrapper classes of
  \<^verbatim>\<open>sylar/db/mysql_connector.cc\<close> (\<open>MySQLRow\<close>, \<open>MySQLResult\<close>,
  \<open>MySQLPreparedStatement\<close>, \<open>MySQLConnection\<close>).

  MySQL Connector/C++ and the server are not part of the sources: they are the parameter \<open>D\<close>, a
  record of the driver calls the wrappers make, over a state \<open>'w\<close> of the server and
  connection handles \<open>'h\<close>. A driver call that returns \<open>None\<close> throws
  \<^verbatim>\<open>sql::SQLException\<close>. The SQL text of the sources is represented by its syntax tree; \<open>render\<close>
  gives the text back, and for each statement of the DAOs a lemma shows it to be the literal of
  the source. \<open>mysql_laws\<close> states what the server's manual promises of the statements the
  code issues (in autocommit mode, the only mode the services use).
\<close>

section \<open>SQL statements\<close>

datatype sqlval = SNull | SInt int | SStr string

type_synonym sqlrow = "(string \<times> sqlval) list"
type_synonym params = "nat \<rightharpoonup> sqlval"
type_synonym db = "string \<Rightarrow> sqlrow list"

text \<open>\<open>Qm i\<close> is the \<open>i\<close>-th question mark of the statement, \<open>Num\<close> a number in the text.
  \<open>RawCond\<close> is a condition given as text by the caller.\<close>

datatype sexpr = Qm nat | Num int

datatype cond =
    Eq string sexpr
  | Ne string sexpr
  | Gt string sexpr
  | LikeC string sexpr
  | AndC cond cond
  | OrC cond cond
  | RawCond string

datatype assignment = SetTo string sexpr | Increment string int

datatype agg = CountAll | SumCase string sexpr | SumCol string

datatype proj = Cols "string list" | Star | Aggs "(agg \<times> string option) list"

datatype order = Desc string | RawOrder string

datatype limit_clause = Limit sexpr | LimitOffset sexpr sexpr

datatype stmt =
    Insert string "string list"
  | Update string "assignment list" cond
  | Delete string cond
  | Select proj string "cond option" "order option" "limit_clause option"

subsection \<open>Text\<close>

fun join :: "string \<Rightarrow> string list \<Rightarrow> string" where
  "join sep [] = []"
| "join sep [x] = x"
| "join sep (x # y # ys) = x @ sep @ join sep (y # ys)"

fun render_sexpr :: "sexpr \<Rightarrow> string" where
  "render_sexpr (Qm i) = ''?''"
| "render_sexpr (Num n) = show_int n"

fun render_cond :: "cond \<Rightarrow> string" where
  "render_cond (Eq c e) = c @ '' = '' @ render_sexpr e"
| "render_cond (Ne c e) = c @ '' != '' @ render_sexpr e"
| "render_cond (Gt c e) = c @ '' > '' @ render_sexpr e"
| "render_cond (LikeC c e) = c @ '' LIKE '' @ render_sexpr e"
| "render_cond (AndC a b) = render_cond a @ '' AND '' @ render_cond b"
| "render_cond (OrC a b) = ''('' @ render_cond a @ '' OR '' @ render_cond b @ '')''"
| "render_cond (RawCond s) = s"

fun render_assignment :: "assignment \<Rightarrow> string" where
  "render_assignment (SetTo c e) = c @ '' = '' @ render_sexpr e"
| "render_assignment (Increment c n) = c @ '' = '' @ c @ '' + '' @ show_int n"

fun render_agg :: "agg \<Rightarrow> string" where
  "render_agg CountAll = ''COUNT(*)''"
| "render_agg (SumCase c e) = ''SUM(CASE WHEN '' @ c @ '' = '' @ render_sexpr e @ '' THEN 1 ELSE 0 END)''"
| "render_agg (SumCol c) = ''SUM('' @ c @ '')''"

fun render_as :: "agg \<times> string option \<Rightarrow> string" where
  "render_as (a, None) = render_agg a"
| "render_as (a, Some n) = render_agg a @ '' as '' @ n"

fun render_proj :: "proj \<Rightarrow> string" where
  "render_proj (Cols cs) = join '', '' cs"
| "render_proj Star = ''*''"
| "render_proj (Aggs as) = join '', '' (map render_as as)"

fun render_order :: "order \<Rightarrow> string" where
  "render_order (Desc c) = c @ '' DESC''"
| "render_order (RawOrder s) = s"

fun render_limit :: "limit_clause \<Rightarrow> string" where
  "render_limit (Limit n) = '' LIMIT '' @ render_sexpr n"
| "render_limit (LimitOffset n off) = '' LIMIT '' @ render_sexpr n @ '' OFFSET '' @ render_sexpr off"

fun render :: "stmt \<Rightarrow> string" where
  "render (Insert t cs) =
     ''INSERT INTO '' @ t @ '' ('' @ join '', '' cs @ '') VALUES ('' @
     join '', '' (map (\<lambda>_. ''?'') cs) @ '')''"
| "render (Update t sets c) =
     ''UPDATE '' @ t @ '' SET '' @ join '', '' (map render_assignment sets) @ '' WHERE '' @ render_cond c"
| "render (Delete t c) = ''DELETE FROM '' @ t @ '' WHERE '' @ render_cond c"
| "render (Select p t c ord l) =
     ''SELECT '' @ render_proj p @ '' FROM '' @ t @
     (case c of None \<Rightarrow> [] | Some c \<Rightarrow> '' WHERE '' @ render_cond c) @
     (case ord of None \<Rightarrow> [] | Some ord \<Rightarrow> '' ORDER BY '' @ render_order ord) @
     (case l of None \<Rightarrow> [] | Some l \<Rightarrow> render_limit l)"

text \<open>The indices of the question marks in the order of the text.\<close>

fun qms_sexpr :: "sexpr \<Rightarrow> nat list" where
  "qms_sexpr (Qm i) = [i]" | "qms_sexpr (Num n) = []"

fun qms_cond :: "cond \<Rightarrow> nat list" where
  "qms_cond (Eq c e) = qms_sexpr e"
| "qms_cond (Ne c e) = qms_sexpr e"
| "qms_cond (Gt c e) = qms_sexpr e"
| "qms_cond (LikeC c e) = qms_sexpr e"
| "qms_cond (AndC a b) = qms_cond a @ qms_cond b"
| "qms_cond (OrC a b) = qms_cond a @ qms_cond b"
| "qms_cond (RawCond s) = []"

fun qms_assignment :: "assignment \<Rightarrow> nat list" where
  "qms_assignment (SetTo c e) = qms_sexpr e" | "qms_assignment (Increment c n) = []"

fun qms_as :: "agg \<times> string option \<Rightarrow> nat list" where
  "qms_as (SumCase c e, n) = qms_sexpr e" | "qms_as _ = []"

fun qms_limit :: "limit_clause \<Rightarrow> nat list" where
  "qms_limit (Limit n) = qms_sexpr n"
| "qms_limit (LimitOffset n off) = qms_sexpr n @ qms_sexpr off"

fun qms :: "stmt \<Rightarrow> nat list" where
  "qms (Insert t cs) = [1..<Suc (length cs)]"
| "qms (Update t sets c) = concat (map qms_assignment sets) @ qms_cond c"
| "qms (Delete t c) = qms_cond c"
| "qms (Select p t c ord l) =
     (case p of Aggs as \<Rightarrow> concat (map qms_as as) | _ \<Rightarrow> []) @
     (case c of None \<Rightarrow> [] | Some c \<Rightarrow> qms_cond c) @
     (case l of None \<Rightarrow> [] | Some l \<Rightarrow> qms_limit l)"

section \<open>The driver as a parameter\<close>

text \<open>
  \<open>drv_set\<close> binds a value to a question mark; \<open>drv_prepare\<close> and \<open>drv_executeQuery\<close> can also
  return a null pointer (\<open>Some False\<close>, \<open>Some None\<close>). \<open>drv_lastInsertId\<close> is the first row of
  \<^verbatim>\<open>SELECT LAST_INSERT_ID()\<close>. \<open>drv_eq\<close>, \<open>drv_like\<close> and \<open>drv_raw\<close> are the server's
  comparison (with the collation of the column), \<^verbatim>\<open>LIKE\<close>, and the value of a condition given as
  text. The getters take the current row, the \<open>At\<close> variants a column number from 1.
\<close>

record ('h, 'w) driver =
  drv_isClosed :: "'h \<Rightarrow> 'w \<Rightarrow> bool option"
  drv_prepare :: "'h \<Rightarrow> stmt \<Rightarrow> 'w \<Rightarrow> bool option"
  drv_set :: "'h \<Rightarrow> stmt \<Rightarrow> nat \<Rightarrow> sqlval \<Rightarrow> unit option"
  drv_execute :: "'h \<Rightarrow> stmt \<Rightarrow> params \<Rightarrow> 'w \<Rightarrow> bool option \<times> 'w"
  drv_executeQuery :: "'h \<Rightarrow> stmt \<Rightarrow> params \<Rightarrow> 'w \<Rightarrow> sqlrow list option option \<times> 'w"
  drv_executeUpdate :: "'h \<Rightarrow> stmt \<Rightarrow> params \<Rightarrow> 'w \<Rightarrow> int option \<times> 'w"
  drv_updateCount :: "'h \<Rightarrow> stmt \<Rightarrow> 'w \<Rightarrow> int option"
  drv_lastInsertId :: "'h \<Rightarrow> 'w \<Rightarrow> int option option"
  drv_setAutoCommit :: "'h \<Rightarrow> bool \<Rightarrow> 'w \<Rightarrow> unit option \<times> 'w"
  drv_getAutoCommit :: "'h \<Rightarrow> 'w \<Rightarrow> bool option"
  drv_commit :: "'h \<Rightarrow> 'w \<Rightarrow> unit option \<times> 'w"
  drv_rollback :: "'h \<Rightarrow> 'w \<Rightarrow> unit option \<times> 'w"
  drv_close :: "'h \<Rightarrow> 'w \<Rightarrow> unit option \<times> 'w"
  drv_next_throws :: "sqlrow list \<Rightarrow> bool"
  drv_rowsCount :: "sqlrow list \<Rightarrow> nat option"
  drv_getString :: "sqlrow \<Rightarrow> string \<Rightarrow> string option"
  drv_getInt :: "sqlrow \<Rightarrow> string \<Rightarrow> int option"
  drv_getInt64 :: "sqlrow \<Rightarrow> string \<Rightarrow> int option"
  drv_isNull :: "sqlrow \<Rightarrow> string \<Rightarrow> bool option"
  drv_getStringAt :: "sqlrow \<Rightarrow> int \<Rightarrow> string option"
  drv_getIntAt :: "sqlrow \<Rightarrow> int \<Rightarrow> int option"
  drv_getInt64At :: "sqlrow \<Rightarrow> int \<Rightarrow> int option"
  drv_isNullAt :: "sqlrow \<Rightarrow> int \<Rightarrow> bool option"
  drv_eq :: "sqlval \<Rightarrow> sqlval \<Rightarrow> bool"
  drv_like :: "sqlval \<Rightarrow> sqlval \<Rightarrow> bool"
  drv_raw :: "string \<Rightarrow> sqlrow \<Rightarrow> bool"

section \<open>The wrapper classes\<close>

subsection \<open>MySQLRow and MySQLResult\<close>

text \<open>
  A \<open>MySQLRow\<close> refers to the current row of its result set; without a result set, or with the
  cursor on no row, every getter gives its default.
\<close>

type_synonym mysql_row = "sqlrow option"

definition or_default :: "'a \<Rightarrow> 'a option \<Rightarrow> 'a" where
  "or_default d v = (case v of Some x \<Rightarrow> x | None \<Rightarrow> d)"

lemma or_default_simps [simp]: "or_default d (Some x) = x" "or_default d None = d"
  by (simp_all add: or_default_def)

definition row_getString :: "('h, 'w) driver \<Rightarrow> mysql_row \<Rightarrow> string \<Rightarrow> string" where
  "row_getString D row column =
     (case row of None \<Rightarrow> [] | Some r \<Rightarrow> or_default [] (drv_getString D r column))"

definition row_getStringAt :: "('h, 'w) driver \<Rightarrow> mysql_row \<Rightarrow> int \<Rightarrow> string" where
  "row_getStringAt D row columnIndex =
     (case row of None \<Rightarrow> [] | Some r \<Rightarrow> or_default [] (drv_getStringAt D r (columnIndex + 1)))"

definition row_getInt32 :: "('h, 'w) driver \<Rightarrow> mysql_row \<Rightarrow> string \<Rightarrow> int" where
  "row_getInt32 D row column =
     (case row of None \<Rightarrow> 0 | Some r \<Rightarrow> or_default 0 (drv_getInt D r column))"

definition row_getInt32At :: "('h, 'w) driver \<Rightarrow> mysql_row \<Rightarrow> int \<Rightarrow> int" where
  "row_getInt32At D row columnIndex =
     (case row of None \<Rightarrow> 0 | Some r \<Rightarrow> or_default 0 (drv_getIntAt D r (columnIndex + 1)))"

definition row_getInt64 :: "('h, 'w) driver \<Rightarrow> mysql_row \<Rightarrow> string \<Rightarrow> int" where
  "row_getInt64 D row column =
     (case row of None \<Rightarrow> 0 | Some r \<Rightarrow> or_default 0 (drv_getInt64 D r column))"

definition row_getInt64At :: "('h, 'w) driver \<Rightarrow> mysql_row \<Rightarrow> int \<Rightarrow> int" where
  "row_getInt64At D row columnIndex =
     (case row of None \<Rightarrow> 0 | Some r \<Rightarrow> or_default 0 (drv_getInt64At D r (columnIndex + 1)))"

definition row_isNull :: "('h, 'w) driver \<Rightarrow> mysql_row \<Rightarrow> string \<Rightarrow> bool" where
  "row_isNull D row column =
     (case row of None \<Rightarrow> True | Some r \<Rightarrow> or_default True (drv_isNull D r column))"

definition row_isNullAt :: "('h, 'w) driver \<Rightarrow> mysql_row \<Rightarrow> int \<Rightarrow> bool" where
  "row_isNullAt D row columnIndex =
     (case row of None \<Rightarrow> True | Some r \<Rightarrow> or_default True (drv_isNullAt D r (columnIndex + 1)))"

text \<open>
  A \<open>MySQLResult::ptr\<close>: null, or the row under the cursor (none before the first call of
  \<open>next\<close> and after the last row) with the rows ahead of it.
\<close>

type_synonym mysql_result = "(sqlrow option \<times> sqlrow list) option"

fun result_next :: "('h, 'w) driver \<Rightarrow> mysql_result \<Rightarrow> bool \<times> mysql_result" where
  "result_next D None = (False, None)"
| "result_next D (Some (cur, ahead)) =
     (if drv_next_throws D ahead then (False, Some (cur, ahead))
      else case ahead of [] \<Rightarrow> (False, Some (None, [])) | r # rs \<Rightarrow> (True, Some (Some r, rs)))"

definition result_getRow :: "mysql_result \<Rightarrow> mysql_row" where
  "result_getRow res = (case res of None \<Rightarrow> None | Some (cur, ahead) \<Rightarrow> cur)"

definition result_getRowCount :: "('h, 'w) driver \<Rightarrow> sqlrow list option \<Rightarrow> nat" where
  "result_getRowCount D rs =
     (case rs of None \<Rightarrow> 0 | Some rs \<Rightarrow> or_default 0 (drv_rowsCount D rs))"

definition result_isEmpty :: "('h, 'w) driver \<Rightarrow> sqlrow list option \<Rightarrow> bool" where
  "result_isEmpty D rs \<longleftrightarrow> result_getRowCount D rs = 0"

subsection \<open>MySQLPreparedStatement\<close>

record 'h prepared =
  m_stmt :: "('h \<times> stmt) option"
  bound :: params

text \<open>The common shape of the setters: nothing without a driver statement, a
  \<open>MySQLException\<close> when the driver throws.\<close>

definition stmt_set ::
    "('h, 'w) driver \<Rightarrow> string \<Rightarrow> nat \<Rightarrow> sqlval \<Rightarrow> 'h prepared \<Rightarrow> 'h prepared res" where
  "stmt_set D msg parameterIndex v stm =
     (case m_stmt stm of
        None \<Rightarrow> Inr stm
      | Some (h, s) \<Rightarrow>
          (case drv_set D h s parameterIndex v of
             None \<Rightarrow> Inl (Thrown msg)
           | Some _ \<Rightarrow> Inr (stm\<lparr>bound := (bound stm)(parameterIndex \<mapsto> v)\<rparr>)))"

datatype binding = BNull nat | BBool nat bool | BInt32 nat int | BInt64 nat int | BString nat string
  | BDateTime nat string

definition stmt_setNull :: "('h, 'w) driver \<Rightarrow> nat \<Rightarrow> 'h prepared \<Rightarrow> 'h prepared res" where
  "stmt_setNull D i = stmt_set D ''setNull error: '' i SNull"

definition stmt_setBoolean :: "('h, 'w) driver \<Rightarrow> nat \<Rightarrow> bool \<Rightarrow> 'h prepared \<Rightarrow> 'h prepared res" where
  "stmt_setBoolean D i value = stmt_set D ''setBoolean error: '' i (SInt (if value then 1 else 0))"

definition stmt_setInt32 :: "('h, 'w) driver \<Rightarrow> nat \<Rightarrow> int \<Rightarrow> 'h prepared \<Rightarrow> 'h prepared res" where
  "stmt_setInt32 D i value = stmt_set D ''setInt32 error: '' i (SInt value)"

definition stmt_setInt64 :: "('h, 'w) driver \<Rightarrow> nat \<Rightarrow> int \<Rightarrow> 'h prepared \<Rightarrow> 'h prepared res" where
  "stmt_setInt64 D i value = stmt_set D ''setInt64 error: '' i (SInt value)"

definition stmt_setString :: "('h, 'w) driver \<Rightarrow> nat \<Rightarrow> string \<Rightarrow> 'h prepared \<Rightarrow> 'h prepared res" where
  "stmt_setString D i value = stmt_set D ''setString error: '' i (SStr value)"

definition stmt_setDateTime :: "('h, 'w) driver \<Rightarrow> nat \<Rightarrow> string \<Rightarrow> 'h prepared \<Rightarrow> 'h prepared res" where
  "stmt_setDateTime D i datetime = stmt_set D ''setDateTime error: '' i (SStr datetime)"

text \<open>A sequence of setter calls, stopped by the first exception.\<close>

fun stmt_bind1 :: "('h, 'w) driver \<Rightarrow> binding \<Rightarrow> 'h prepared \<Rightarrow> 'h prepared res" where
  "stmt_bind1 D (BNull i) stm = stmt_setNull D i stm"
| "stmt_bind1 D (BBool i v) stm = stmt_setBoolean D i v stm"
| "stmt_bind1 D (BInt32 i v) stm = stmt_setInt32 D i v stm"
| "stmt_bind1 D (BInt64 i v) stm = stmt_setInt64 D i v stm"
| "stmt_bind1 D (BString i v) stm = stmt_setString D i v stm"
| "stmt_bind1 D (BDateTime i v) stm = stmt_setDateTime D i v stm"

fun stmt_bind :: "('h, 'w) driver \<Rightarrow> binding list \<Rightarrow> 'h prepared \<Rightarrow> 'h prepared res" where
  "stmt_bind D [] stm = Inr stm"
| "stmt_bind D (b # bs) stm = rbind (stmt_bind1 D b stm) (stmt_bind D bs)"

definition stmt_execute :: "('h, 'w) driver \<Rightarrow> 'h prepared \<Rightarrow> 'w \<Rightarrow> bool \<times> 'w" where
  "stmt_execute D stm w =
     (case m_stmt stm of
        None \<Rightarrow> (False, w)
      | Some (h, s) \<Rightarrow>
          (case drv_execute D h s (bound stm) w of
             (Some _, w') \<Rightarrow> (True, w')
           | (None, w') \<Rightarrow> (False, w')))"

definition stmt_executeQuery :: "('h, 'w) driver \<Rightarrow> 'h prepared \<Rightarrow> 'w \<Rightarrow> mysql_result \<times> 'w" where
  "stmt_executeQuery D stm w =
     (case m_stmt stm of
        None \<Rightarrow> (None, w)
      | Some (h, s) \<Rightarrow>
          (case drv_executeQuery D h s (bound stm) w of
             (Some (Some rows), w') \<Rightarrow> (Some (None, rows), w')
           | (Some None, w') \<Rightarrow> (None, w')
           | (None, w') \<Rightarrow> (None, w')))"

definition stmt_executeUpdate :: "('h, 'w) driver \<Rightarrow> 'h prepared \<Rightarrow> 'w \<Rightarrow> int \<times> 'w" where
  "stmt_executeUpdate D stm w =
     (case m_stmt stm of
        None \<Rightarrow> (0, w)
      | Some (h, s) \<Rightarrow>
          (case drv_executeUpdate D h s (bound stm) w of
             (Some n, w') \<Rightarrow> (n, w')
           | (None, w') \<Rightarrow> (-1, w')))"

text \<open>The \<^verbatim>\<open>-1\<close> of the exception branch is returned as \<^verbatim>\<open>uint64_t\<close>.\<close>

definition stmt_getUpdateCount :: "('h, 'w) driver \<Rightarrow> 'h prepared \<Rightarrow> 'w \<Rightarrow> int" where
  "stmt_getUpdateCount D stm w =
     (case m_stmt stm of
        None \<Rightarrow> 0
      | Some (h, s) \<Rightarrow>
          (case drv_updateCount D h s w of
             Some n \<Rightarrow> n mod 2 ^ 64
           | None \<Rightarrow> (-1) mod 2 ^ 64))"

subsection \<open>MySQLConnection\<close>

record 'h mysql_connection =
  m_connection :: "'h option"

definition conn_close ::
    "('h, 'w) driver \<Rightarrow> 'h mysql_connection \<Rightarrow> 'w \<Rightarrow> 'h mysql_connection \<times> 'w" where
  "conn_close D mc w =
     (case m_connection mc of
        None \<Rightarrow> (mc, w)
      | Some h \<Rightarrow>
          (case drv_close D h w of
             (Some _, w') \<Rightarrow> (mc\<lparr>m_connection := None\<rparr>, w')
           | (None, w') \<Rightarrow> (mc, w')))"

definition conn_isClosed :: "('h, 'w) driver \<Rightarrow> 'h mysql_connection \<Rightarrow> 'w \<Rightarrow> bool" where
  "conn_isClosed D mc w =
     (case m_connection mc of None \<Rightarrow> True | Some h \<Rightarrow> or_default True (drv_isClosed D h w))"

text \<open>The handle of an open connection: \<^verbatim>\<open>if (!m_connection || isClosed()) return \<dots>;\<close>\<close>

definition conn_open :: "('h, 'w) driver \<Rightarrow> 'h mysql_connection \<Rightarrow> 'w \<Rightarrow> 'h option" where
  "conn_open D mc w = (if conn_isClosed D mc w then None else m_connection mc)"

definition conn_execute :: "('h, 'w) driver \<Rightarrow> 'h mysql_connection \<Rightarrow> stmt \<Rightarrow> 'w \<Rightarrow> bool \<times> 'w" where
  "conn_execute D mc sql w =
     (case conn_open D mc w of
        None \<Rightarrow> (False, w)
      | Some h \<Rightarrow>
          (case drv_execute D h sql Map.empty w of
             (Some b, w') \<Rightarrow> (b, w')
           | (None, w') \<Rightarrow> (False, w')))"

definition conn_executeQuery ::
    "('h, 'w) driver \<Rightarrow> 'h mysql_connection \<Rightarrow> stmt \<Rightarrow> 'w \<Rightarrow> mysql_result \<times> 'w" where
  "conn_executeQuery D mc sql w =
     (case conn_open D mc w of
        None \<Rightarrow> (None, w)
      | Some h \<Rightarrow>
          (case drv_executeQuery D h sql Map.empty w of
             (Some (Some rows), w') \<Rightarrow> (Some (None, rows), w')
           | (Some None, w') \<Rightarrow> (None, w')
           | (None, w') \<Rightarrow> (None, w')))"

definition conn_executeUpdate ::
    "('h, 'w) driver \<Rightarrow> 'h mysql_connection \<Rightarrow> stmt \<Rightarrow> 'w \<Rightarrow> int \<times> 'w" where
  "conn_executeUpdate D mc sql w =
     (case conn_open D mc w of
        None \<Rightarrow> (0, w)
      | Some h \<Rightarrow>
          (case drv_executeUpdate D h sql Map.empty w of
             (Some n, w') \<Rightarrow> (n, w')
           | (None, w') \<Rightarrow> (0, w')))"

definition conn_prepareStatement ::
    "('h, 'w) driver \<Rightarrow> 'h mysql_connection \<Rightarrow> stmt \<Rightarrow> 'w \<Rightarrow> 'h prepared option" where
  "conn_prepareStatement D mc sql w =
     (case conn_open D mc w of
        None \<Rightarrow> None
      | Some h \<Rightarrow>
          (case drv_prepare D h sql w of
             Some True \<Rightarrow> Some \<lparr>m_stmt = Some (h, sql), bound = Map.empty\<rparr>
           | Some False \<Rightarrow> None
           | None \<Rightarrow> None))"

text \<open>The calls that swallow the exception and return nothing.\<close>

definition conn_quiet ::
    "('h \<Rightarrow> 'w \<Rightarrow> unit option \<times> 'w) \<Rightarrow> 'h mysql_connection \<Rightarrow> 'w \<Rightarrow> 'w" where
  "conn_quiet call mc w = (case m_connection mc of None \<Rightarrow> w | Some h \<Rightarrow> snd (call h w))"

definition conn_setAutoCommit :: "('h, 'w) driver \<Rightarrow> 'h mysql_connection \<Rightarrow> bool \<Rightarrow> 'w \<Rightarrow> 'w" where
  "conn_setAutoCommit D mc autoCommit = conn_quiet (\<lambda>h. drv_setAutoCommit D h autoCommit) mc"

definition conn_getAutoCommit :: "('h, 'w) driver \<Rightarrow> 'h mysql_connection \<Rightarrow> 'w \<Rightarrow> bool" where
  "conn_getAutoCommit D mc w =
     (case m_connection mc of None \<Rightarrow> True | Some h \<Rightarrow> or_default True (drv_getAutoCommit D h w))"

definition conn_commit :: "('h, 'w) driver \<Rightarrow> 'h mysql_connection \<Rightarrow> 'w \<Rightarrow> 'w" where
  "conn_commit D mc = conn_quiet (drv_commit D) mc"

definition conn_rollback :: "('h, 'w) driver \<Rightarrow> 'h mysql_connection \<Rightarrow> 'w \<Rightarrow> 'w" where
  "conn_rollback D mc = conn_quiet (drv_rollback D) mc"

definition conn_getLastInsertId :: "('h, 'w) driver \<Rightarrow> 'h mysql_connection \<Rightarrow> 'w \<Rightarrow> int" where
  "conn_getLastInsertId D mc w =
     (case conn_open D mc w of
        None \<Rightarrow> 0
      | Some h \<Rightarrow>
          (case drv_lastInsertId D h w of
             Some (Some i) \<Rightarrow> i
           | Some None \<Rightarrow> 0
           | None \<Rightarrow> 0))"

text \<open>The text overload runs the update itself; its exception branch gives 0.\<close>

definition conn_executeUpdateAndGetId ::
    "('h, 'w) driver \<Rightarrow> 'h mysql_connection \<Rightarrow> stmt \<Rightarrow> 'w \<Rightarrow> int \<times> 'w" where
  "conn_executeUpdateAndGetId D mc sql w =
     (case conn_open D mc w of
        None \<Rightarrow> (0, w)
      | Some h \<Rightarrow>
          (case drv_executeUpdate D h sql Map.empty w of
             (Some affected, w') \<Rightarrow> (if affected > 0 then conn_getLastInsertId D mc w' else 0, w')
           | (None, w') \<Rightarrow> (0, w')))"

definition conn_executeUpdateAndGetId_stmt ::
    "('h, 'w) driver \<Rightarrow> 'h mysql_connection \<Rightarrow> 'h prepared option \<Rightarrow> 'w \<Rightarrow> int \<times> 'w" where
  "conn_executeUpdateAndGetId_stmt D mc stm w =
     (case stm of
        None \<Rightarrow> (0, w)
      | Some stm \<Rightarrow>
          (case stmt_executeUpdate D stm w of
             (affected, w') \<Rightarrow> (if affected > 0 then conn_getLastInsertId D mc w' else 0, w')))"

end
