(* ===== verification/MysqlSpec.thy ===== *)
theory MysqlSpec
  imports Mysql
begin

text \<open>
  What the server promises. The meaning of the statements on tables of rows, the schema of the two
  tables, and \<open>mysql_laws D view\<close>: each driver call either throws and leaves the data as they
  were, or does what the statement means; \<open>view\<close> is the data the server holds. A concrete
  in-memory server \<open>mem_driver\<close> satisfies the laws and runs the witnesses.
\<close>

section \<open>Meaning of statements\<close>

definition col :: "sqlrow \<Rightarrow> string \<Rightarrow> sqlval" where
  "col r c = (case map_of r c of Some v \<Rightarrow> v | None \<Rightarrow> SNull)"

fun set_col :: "string \<Rightarrow> sqlval \<Rightarrow> sqlrow \<Rightarrow> sqlrow" where
  "set_col c v [] = [(c, v)]"
| "set_col c v ((d, u) # r) = (if c = d then (c, v) # r else (d, u) # set_col c v r)"

lemma col_set_col [simp]: "col (set_col c v r) d = (if d = c then v else col r d)"
  by (induction r) (auto simp: col_def)

lemma col_Cons [simp]: "col ((c, v) # r) d = (if d = c then v else col r d)"
  by (simp add: col_def)

lemma col_Nil [simp]: "col [] d = SNull"
  by (simp add: col_def)

lemma set_col_same: "map_of r c = Some v \<Longrightarrow> set_col c v r = r"
  by (induction r) (auto split: if_splits)

fun sql_int :: "sqlval \<Rightarrow> int" where
  "sql_int (SInt n) = n" | "sql_int _ = 0"

fun sql_str :: "sqlval \<Rightarrow> string" where
  "sql_str (SStr s) = s" | "sql_str _ = []"

fun eval :: "params \<Rightarrow> sexpr \<Rightarrow> sqlval" where
  "eval ps (Qm i) = (case ps i of Some v \<Rightarrow> v | None \<Rightarrow> SNull)"
| "eval ps (Num n) = SInt n"

fun holds :: "('h, 'w) driver \<Rightarrow> params \<Rightarrow> sqlrow \<Rightarrow> cond \<Rightarrow> bool" where
  "holds D ps r (Eq c e) = drv_eq D (col r c) (eval ps e)"
| "holds D ps r (Ne c e) =
     (col r c \<noteq> SNull \<and> eval ps e \<noteq> SNull \<and> \<not> drv_eq D (col r c) (eval ps e))"
| "holds D ps r (Gt c e) =
     (case (col r c, eval ps e) of (SInt m, SInt n) \<Rightarrow> m > n | _ \<Rightarrow> False)"
| "holds D ps r (LikeC c e) = drv_like D (col r c) (eval ps e)"
| "holds D ps r (AndC a b) = (holds D ps r a \<and> holds D ps r b)"
| "holds D ps r (OrC a b) = (holds D ps r a \<or> holds D ps r b)"
| "holds D ps r (RawCond s) = drv_raw D s r"

fun holds_opt :: "('h, 'w) driver \<Rightarrow> params \<Rightarrow> cond option \<Rightarrow> sqlrow \<Rightarrow> bool" where
  "holds_opt D ps None r = True"
| "holds_opt D ps (Some c) r = holds D ps r c"

text \<open>Assignments are made from left to right.\<close>

fun apply_assign :: "params \<Rightarrow> sqlrow \<Rightarrow> assignment \<Rightarrow> sqlrow" where
  "apply_assign ps r (SetTo c e) = set_col c (eval ps e) r"
| "apply_assign ps r (Increment c n) =
     set_col c (case col r c of SInt m \<Rightarrow> SInt (m + n) | v \<Rightarrow> v) r"

definition assigned :: "params \<Rightarrow> assignment list \<Rightarrow> sqlrow \<Rightarrow> sqlrow" where
  "assigned ps sets r = foldl (apply_assign ps) r sets"

definition upd_row ::
    "('h, 'w) driver \<Rightarrow> params \<Rightarrow> assignment list \<Rightarrow> cond \<Rightarrow> sqlrow \<Rightarrow> sqlrow" where
  "upd_row D ps sets c r = (if holds D ps r c then assigned ps sets r else r)"

text \<open>The order of a column: null first; the order of strings is left open.\<close>

fun sql_le :: "sqlval \<Rightarrow> sqlval \<Rightarrow> bool" where
  "sql_le SNull v = True"
| "sql_le (SInt m) SNull = False"
| "sql_le (SInt m) (SInt n) = (m \<le> n)"
| "sql_le (SInt m) (SStr t) = True"
| "sql_le (SStr s) (SStr t) = True"
| "sql_le (SStr s) v = False"

lemma sql_le_trans: "sql_le a b \<Longrightarrow> sql_le b c \<Longrightarrow> sql_le a c"
  by (cases a; cases b; cases c) auto

lemma sql_le_total: "sql_le a b \<or> sql_le b a"
  by (cases a; cases b) auto

fun ordered_rows :: "order option \<Rightarrow> sqlrow list \<Rightarrow> bool" where
  "ordered_rows (Some (Desc c)) xs = sorted_wrt (\<lambda>a b. sql_le (col b c) (col a c)) xs"
| "ordered_rows _ xs = True"

fun pick :: "limit_clause option \<Rightarrow> params \<Rightarrow> 'a list \<Rightarrow> 'a list" where
  "pick None ps xs = xs"
| "pick (Some (Limit n)) ps xs = take (nat (sql_int (eval ps n))) xs"
| "pick (Some (LimitOffset n off)) ps xs =
     take (nat (sql_int (eval ps n))) (drop (nat (sql_int (eval ps off))) xs)"

lemma set_pick: "set (pick l ps xs) \<subseteq> set xs"
  by (induction l ps xs rule: pick.induct) (auto dest: in_set_takeD in_set_dropD)

fun agg_val :: "('h, 'w) driver \<Rightarrow> params \<Rightarrow> sqlrow list \<Rightarrow> agg \<Rightarrow> sqlval" where
  "agg_val D ps xs CountAll = SInt (int (length xs))"
| "agg_val D ps xs (SumCase c e) =
     (if xs = [] then SNull else SInt (int (length (filter (\<lambda>r. holds D ps r (Eq c e)) xs))))"
| "agg_val D ps xs (SumCol c) =
     (if list_all (\<lambda>r. col r c = SNull) xs then SNull
      else SInt (sum_list (map (\<lambda>r. sql_int (col r c)) xs)))"

definition agg_col :: "('h, 'w) driver \<Rightarrow> params \<Rightarrow> sqlrow list \<Rightarrow> agg \<times> string option \<Rightarrow> string \<times> sqlval" where
  "agg_col D ps xs an =
     (case an of (a, n) \<Rightarrow> (case n of Some n \<Rightarrow> n | None \<Rightarrow> render_agg a, agg_val D ps xs a))"

definition project :: "string list \<Rightarrow> sqlrow \<Rightarrow> sqlrow" where
  "project cs r = map (\<lambda>c. (c, col r c)) cs"

fun out_rows ::
    "('h, 'w) driver \<Rightarrow> params \<Rightarrow> proj \<Rightarrow> limit_clause option \<Rightarrow> sqlrow list \<Rightarrow> sqlrow list" where
  "out_rows D ps (Cols cs) l xs = map (project cs) (pick l ps xs)"
| "out_rows D ps Star l xs = pick l ps xs"
| "out_rows D ps (Aggs as) l xs = pick l ps [map (agg_col D ps xs) as]"

text \<open>
  A selection: some arrangement \<open>xs\<close> of the matching rows in the requested order (rows that tie
  come in any order), cut by the limit.
\<close>

definition select_result where
  "select_result D ps p c ord l rows out \<longleftrightarrow>
     (\<exists>xs. mset xs = mset (filter (holds_opt D ps c) rows) \<and> ordered_rows ord xs \<and>
       out = out_rows D ps p l xs)"

section \<open>Schema\<close>

text \<open>
  The columns the code reads and writes, with the types it reads them at; only the publication time
  of a blog and the last login of a user can be null. The sources hold no table definitions.
\<close>

definition int_col :: "(int \<Rightarrow> bool) \<Rightarrow> sqlrow \<Rightarrow> string \<Rightarrow> bool" where
  "int_col rng r c = (case col r c of SInt n \<Rightarrow> rng n | SNull \<Rightarrow> True | SStr s \<Rightarrow> False)"

definition str_col :: "sqlrow \<Rightarrow> string \<Rightarrow> bool" where
  "str_col r c = (case col r c of SStr s \<Rightarrow> True | _ \<Rightarrow> False)"

definition num_col :: "(int \<Rightarrow> bool) \<Rightarrow> sqlrow \<Rightarrow> string \<Rightarrow> bool" where
  "num_col rng r c = (case col r c of SInt n \<Rightarrow> rng n | _ \<Rightarrow> False)"

definition key_col :: "sqlrow \<Rightarrow> bool" where
  "key_col r = (case col r ''id'' of SInt n \<Rightarrow> 0 < n \<and> in_i64 n | _ \<Rightarrow> False)"

definition blog_columns :: "string list" where
  "blog_columns = [''id'', ''title'', ''content'', ''summary'', ''author_id'', ''author_name'',
     ''status'', ''view_count'', ''created_at'', ''updated_at'', ''published_at'']"

definition user_columns :: "string list" where
  "user_columns = [''id'', ''username'', ''password'', ''nickname'', ''email'', ''avatar'', ''bio'',
     ''status'', ''created_at'', ''updated_at'', ''last_login_at'']"

definition has_columns :: "string list \<Rightarrow> sqlrow \<Rightarrow> bool" where
  "has_columns cs r \<longleftrightarrow> list_all (\<lambda>c. map_of r c \<noteq> None) cs"

definition blog_row_ok :: "sqlrow \<Rightarrow> bool" where
  "blog_row_ok r \<longleftrightarrow> key_col r \<and> has_columns blog_columns r \<and>
     list_all (str_col r) [''title'', ''content'', ''summary'', ''author_name''] \<and>
     list_all (int_col in_i64 r) [''published_at''] \<and>
     list_all (num_col in_i64 r) [''author_id'', ''created_at'', ''updated_at''] \<and>
     list_all (num_col in_i32 r) [''status'', ''view_count'']"

definition user_row_ok :: "sqlrow \<Rightarrow> bool" where
  "user_row_ok r \<longleftrightarrow> key_col r \<and> has_columns user_columns r \<and>
     list_all (str_col r) [''username'', ''password'', ''nickname'', ''email'', ''avatar'', ''bio''] \<and>
     list_all (int_col in_i64 r) [''last_login_at''] \<and>
     list_all (num_col in_i64 r) [''created_at'', ''updated_at''] \<and>
     list_all (num_col in_i32 r) [''status'']"

definition row_id :: "sqlrow \<Rightarrow> int" where
  "row_id r = sql_int (col r ''id'')"

definition rows_ok :: "(sqlrow \<Rightarrow> bool) \<Rightarrow> sqlrow list \<Rightarrow> bool" where
  "rows_ok ok rows \<longleftrightarrow> list_all ok rows \<and> distinct (map row_id rows)"

definition db_ok :: "db \<Rightarrow> bool" where
  "db_ok d \<longleftrightarrow> rows_ok blog_row_ok (d ''blogs'') \<and> rows_ok user_row_ok (d ''users'')"

lemma str_col_value: "str_col r c \<Longrightarrow> col r c = SStr (sql_str (col r c))"
  by (auto simp: str_col_def split: sqlval.splits)

lemma num_col_value: "num_col rng r c \<Longrightarrow> col r c = SInt (sql_int (col r c)) \<and> rng (sql_int (col r c))"
  by (auto simp: num_col_def split: sqlval.splits)

lemma key_col_row_id: "key_col r \<Longrightarrow> col r ''id'' = SInt (row_id r) \<and> 0 < row_id r \<and> in_i64 (row_id r)"
  by (auto simp: key_col_def row_id_def split: sqlval.splits)

section \<open>The laws\<close>

definition eq_law :: "('h, 'w) driver \<Rightarrow> bool" where
  "eq_law D \<longleftrightarrow>
     (\<forall>m n. drv_eq D (SInt m) (SInt n) \<longleftrightarrow> m = n) \<and>
     (\<forall>s. drv_eq D (SStr s) (SStr s)) \<and>
     (\<forall>v. \<not> drv_eq D SNull v \<and> \<not> drv_eq D v SNull)"

text \<open>
  An insertion adds one row with a fresh positive key, which \<^verbatim>\<open>LAST_INSERT_ID()\<close> on the same
  connection then gives. Columns not named have their default.
\<close>

definition insert_law :: "('h, 'w) driver \<Rightarrow> ('w \<Rightarrow> db) \<Rightarrow> bool" where
  "insert_law D view \<longleftrightarrow>
     (\<forall>h t cs ps w res w'. drv_execute D h (Insert t cs) ps w = (res, w') \<longrightarrow>
       (case res of
          None \<Rightarrow> view w' = view w
        | Some _ \<Rightarrow>
            (\<exists>r. view w' = (view w)(t := view w t @ [r]) \<and> key_col r \<and>
              row_id r \<notin> row_id ` set (view w t) \<and>
              (\<forall>k<length cs. col r (cs ! k) = eval ps (Qm (Suc k))) \<and>
              (\<forall>x. drv_lastInsertId D h w' = Some x \<longrightarrow> x = Some (row_id r)))))"

text \<open>
  The number returned by an update counts the matched rows, or only those it changed, depending on
  the connection's flags.
\<close>

definition update_law :: "('h, 'w) driver \<Rightarrow> ('w \<Rightarrow> db) \<Rightarrow> bool" where
  "update_law D view \<longleftrightarrow>
     (\<forall>h t sets c ps w res w'. drv_executeUpdate D h (Update t sets c) ps w = (res, w') \<longrightarrow>
       (case res of
          None \<Rightarrow> view w' = view w
        | Some n \<Rightarrow>
            view w' = (view w)(t := map (upd_row D ps sets c) (view w t)) \<and>
            int (length (filter (\<lambda>r. upd_row D ps sets c r \<noteq> r) (view w t))) \<le> n \<and>
            n \<le> int (length (filter (\<lambda>r. holds D ps r c) (view w t)))))"

definition delete_law :: "('h, 'w) driver \<Rightarrow> ('w \<Rightarrow> db) \<Rightarrow> bool" where
  "delete_law D view \<longleftrightarrow>
     (\<forall>h t c ps w res w'. drv_executeUpdate D h (Delete t c) ps w = (res, w') \<longrightarrow>
       (case res of
          None \<Rightarrow> view w' = view w
        | Some n \<Rightarrow>
            view w' = (view w)(t := filter (\<lambda>r. \<not> holds D ps r c) (view w t)) \<and>
            n = int (length (filter (\<lambda>r. holds D ps r c) (view w t)))))"

definition query_law :: "('h, 'w) driver \<Rightarrow> ('w \<Rightarrow> db) \<Rightarrow> bool" where
  "query_law D view \<longleftrightarrow>
     (\<forall>h p t c ord l ps w res w'. drv_executeQuery D h (Select p t c ord l) ps w = (res, w') \<longrightarrow>
       view w' = view w \<and>
       (\<forall>out. res = Some (Some out) \<longrightarrow> select_result D ps p c ord l (view w t) out))"

text \<open>The server keeps the column types and the primary key.\<close>

definition schema_law :: "('h, 'w) driver \<Rightarrow> ('w \<Rightarrow> db) \<Rightarrow> bool" where
  "schema_law D view \<longleftrightarrow>
     (\<forall>h st ps w. db_ok (view w) \<longrightarrow>
       db_ok (view (snd (drv_execute D h st ps w))) \<and>
       db_ok (view (snd (drv_executeUpdate D h st ps w))))"

text \<open>Reading a row: results are buffered, so advancing does not fail; null reads as zero or as
  the empty string.\<close>

definition getter_law :: "('h, 'w) driver \<Rightarrow> bool" where
  "getter_law D \<longleftrightarrow>
     (\<forall>rs. \<not> drv_next_throws D rs) \<and>
     (\<forall>r c s. map_of r c = Some (SStr s) \<longrightarrow> drv_getString D r c = Some s) \<and>
     (\<forall>r c. map_of r c = Some SNull \<longrightarrow> drv_getString D r c = Some []) \<and>
     (\<forall>r c n. map_of r c = Some (SInt n) \<longrightarrow> in_i64 n \<longrightarrow> drv_getInt64 D r c = Some n) \<and>
     (\<forall>r c. map_of r c = Some SNull \<longrightarrow> drv_getInt64 D r c = Some 0) \<and>
     (\<forall>r c n. map_of r c = Some (SInt n) \<longrightarrow> in_i32 n \<longrightarrow> drv_getInt D r c = Some n) \<and>
     (\<forall>r c. map_of r c = Some SNull \<longrightarrow> drv_getInt D r c = Some 0) \<and>
     (\<forall>r c v. map_of r c = Some v \<longrightarrow> drv_isNull D r c = Some (v = SNull)) \<and>
     (\<forall>c n r. in_i64 n \<longrightarrow> drv_getInt64At D ((c, SInt n) # r) 1 = Some n)"

definition mysql_laws :: "('h, 'w) driver \<Rightarrow> ('w \<Rightarrow> db) \<Rightarrow> bool" where
  "mysql_laws D view \<longleftrightarrow>
     eq_law D \<and> insert_law D view \<and> update_law D view \<and> delete_law D view \<and>
     query_law D view \<and> schema_law D view \<and> getter_law D"

lemma mysql_lawsD:
  assumes "mysql_laws D view"
  shows "eq_law D" "insert_law D view" "update_law D view" "delete_law D view"
    "query_law D view" "schema_law D view" "getter_law D"
  using assms by (simp_all add: mysql_laws_def)

lemma drv_eq_simps:
  assumes "mysql_laws D view"
  shows "drv_eq D (SInt m) (SInt n) = (m = n)" "drv_eq D (SStr s) (SStr s)"
    "\<not> drv_eq D SNull v" "\<not> drv_eq D v SNull"
  using mysql_lawsD(1) [OF assms] by (simp_all add: eq_law_def)

section \<open>An in-memory server\<close>

text \<open>
  Used only by the witnesses: two tables, the next key, and a flag that makes every
  statement fail.
\<close>

record mem =
  mem_blogs :: "sqlrow list"
  mem_users :: "sqlrow list"
  mem_next :: int
  mem_last :: int
  mem_down :: bool

definition mem_view :: "mem \<Rightarrow> db" where
  "mem_view m t = (if t = ''blogs'' then mem_blogs m else if t = ''users'' then mem_users m else [])"

definition mem_store :: "string \<Rightarrow> sqlrow list \<Rightarrow> mem \<Rightarrow> mem" where
  "mem_store t rows m =
     (if t = ''blogs'' then m\<lparr>mem_blogs := rows\<rparr> else m\<lparr>mem_users := rows\<rparr>)"

definition mem_table :: "string \<Rightarrow> bool" where
  "mem_table t \<longleftrightarrow> t = ''blogs'' \<or> t = ''users''"

lemma mem_view_store:
  "mem_table t \<Longrightarrow> mem_view (mem_store t rows m) = (mem_view m)(t := rows)"
  by (auto simp: mem_view_def mem_store_def mem_table_def fun_eq_iff)

fun insert_by :: "('a \<Rightarrow> 'a \<Rightarrow> bool) \<Rightarrow> 'a \<Rightarrow> 'a list \<Rightarrow> 'a list" where
  "insert_by le x [] = [x]"
| "insert_by le x (y # ys) = (if le x y then x # y # ys else y # insert_by le x ys)"

definition sort_by :: "('a \<Rightarrow> 'a \<Rightarrow> bool) \<Rightarrow> 'a list \<Rightarrow> 'a list" where
  "sort_by le xs = foldr (insert_by le) xs []"

fun mem_sort :: "order option \<Rightarrow> sqlrow list \<Rightarrow> sqlrow list" where
  "mem_sort (Some (Desc c)) xs = sort_by (\<lambda>a b. sql_le (col b c) (col a c)) xs"
| "mem_sort _ xs = xs"

fun fill :: "params \<Rightarrow> nat \<Rightarrow> string list \<Rightarrow> sqlrow" where
  "fill ps k [] = []"
| "fill ps k (c # cs) = (c, eval ps (Qm k)) # fill ps (Suc k) cs"

definition mem_defaults :: "string \<Rightarrow> string list \<Rightarrow> sqlrow" where
  "mem_defaults t cs = map (\<lambda>c. (c, SNull)) (filter (\<lambda>c. c \<noteq> ''id'' \<and> c \<notin> set cs)
     (if t = ''blogs'' then blog_columns else user_columns))"

definition mem_equal :: "sqlval \<Rightarrow> sqlval \<Rightarrow> bool" where
  "mem_equal a b \<longleftrightarrow> a = b \<and> a \<noteq> SNull"

text \<open>\<^verbatim>\<open>'%word%'\<close>, the only kind of pattern the code builds.\<close>

definition mem_like :: "sqlval \<Rightarrow> sqlval \<Rightarrow> bool" where
  "mem_like v p =
     (case v of SStr s \<Rightarrow> (case p of SStr q \<Rightarrow> find_idx (butlast (tl q)) s \<noteq> None | _ \<Rightarrow> False)
      | _ \<Rightarrow> False)"

definition mem_commit :: "mem \<Rightarrow> mem \<Rightarrow> 'a \<Rightarrow> 'a option \<times> mem" where
  "mem_commit m m' x =
     (if mem_down m \<or> \<not> db_ok (mem_view m') then (None, m) else (Some x, m'))"

definition mem_get :: "(sqlval \<Rightarrow> 'a option) \<Rightarrow> sqlrow \<Rightarrow> string \<Rightarrow> 'a option" where
  "mem_get f r c = (case map_of r c of Some v \<Rightarrow> f v | None \<Rightarrow> None)"

definition mem_getAt :: "(sqlval \<Rightarrow> 'a option) \<Rightarrow> sqlrow \<Rightarrow> int \<Rightarrow> 'a option" where
  "mem_getAt f r k = (if 1 \<le> k \<and> k \<le> int (length r) then f (snd (r ! nat (k - 1))) else None)"

fun mem_str :: "sqlval \<Rightarrow> string option" where
  "mem_str SNull = Some []" | "mem_str (SStr s) = Some s" | "mem_str (SInt n) = Some (show_int n)"

fun mem_int :: "(int \<Rightarrow> bool) \<Rightarrow> sqlval \<Rightarrow> int option" where
  "mem_int rng SNull = Some 0"
| "mem_int rng (SInt n) = (if rng n then Some n else None)"
| "mem_int rng (SStr s) = None"

definition mem_base :: "(unit, mem) driver" where
  "mem_base =
     \<lparr>drv_isClosed = (\<lambda>h m. Some False), drv_prepare = (\<lambda>h st m. Some True),
      drv_set = (\<lambda>h st i v. Some ()),
      drv_execute = (\<lambda>h st ps m. (None, m)),
      drv_executeQuery = (\<lambda>h st ps m. (None, m)),
      drv_executeUpdate = (\<lambda>h st ps m. (None, m)),
      drv_updateCount = (\<lambda>h st m. Some 0),
      drv_lastInsertId = (\<lambda>h m. Some (Some (mem_last m))),
      drv_setAutoCommit = (\<lambda>h b m. (Some (), m)), drv_getAutoCommit = (\<lambda>h m. Some True),
      drv_commit = (\<lambda>h m. (Some (), m)), drv_rollback = (\<lambda>h m. (Some (), m)),
      drv_close = (\<lambda>h m. (Some (), m)),
      drv_next_throws = (\<lambda>rs. False), drv_rowsCount = (\<lambda>rs. Some (length rs)),
      drv_getString = mem_get mem_str, drv_getInt = mem_get (mem_int in_i32),
      drv_getInt64 = mem_get (mem_int in_i64), drv_isNull = mem_get (\<lambda>v. Some (v = SNull)),
      drv_getStringAt = mem_getAt mem_str, drv_getIntAt = mem_getAt (mem_int in_i32),
      drv_getInt64At = mem_getAt (mem_int in_i64), drv_isNullAt = mem_getAt (\<lambda>v. Some (v = SNull)),
      drv_eq = mem_equal, drv_like = mem_like, drv_raw = (\<lambda>s r. False)\<rparr>"

fun mem_execute :: "unit \<Rightarrow> stmt \<Rightarrow> params \<Rightarrow> mem \<Rightarrow> bool option \<times> mem" where
  "mem_execute h (Insert t cs) ps m =
     (if mem_table t \<and> ''id'' \<notin> set cs \<and> distinct cs \<and> 0 < mem_next m \<and> in_i64 (mem_next m) \<and>
        mem_next m \<notin> row_id ` set (mem_view m t)
      then mem_commit m
        (mem_store t (mem_view m t @ [(''id'', SInt (mem_next m)) # fill ps 1 cs @ mem_defaults t cs]) m
           \<lparr>mem_next := mem_next m + 1, mem_last := mem_next m\<rparr>) False
      else (None, m))"
| "mem_execute h st ps m = (None, m)"

fun mem_executeUpdate :: "unit \<Rightarrow> stmt \<Rightarrow> params \<Rightarrow> mem \<Rightarrow> int option \<times> mem" where
  "mem_executeUpdate h (Update t sets c) ps m =
     (if mem_table t
      then mem_commit m (mem_store t (map (upd_row mem_base ps sets c) (mem_view m t)) m)
        (int (length (filter (\<lambda>r. holds mem_base ps r c) (mem_view m t))))
      else (None, m))"
| "mem_executeUpdate h (Delete t c) ps m =
     (if mem_table t
      then mem_commit m (mem_store t (filter (\<lambda>r. \<not> holds mem_base ps r c) (mem_view m t)) m)
        (int (length (filter (\<lambda>r. holds mem_base ps r c) (mem_view m t))))
      else (None, m))"
| "mem_executeUpdate h st ps m = (None, m)"

fun mem_executeQuery :: "unit \<Rightarrow> stmt \<Rightarrow> params \<Rightarrow> mem \<Rightarrow> sqlrow list option option \<times> mem" where
  "mem_executeQuery h (Select p t c ord l) ps m =
     (if mem_down m then (None, m)
      else (Some (Some (out_rows mem_base ps p l
        (mem_sort ord (filter (holds_opt mem_base ps c) (mem_view m t))))), m))"
| "mem_executeQuery h st ps m = (None, m)"

definition mem_driver :: "(unit, mem) driver" where
  "mem_driver = mem_base
     \<lparr>drv_execute := mem_execute, drv_executeQuery := mem_executeQuery,
      drv_executeUpdate := mem_executeUpdate\<rparr>"

subsection \<open>Reading rows\<close>

lemma has_columnsD: "has_columns cs r \<Longrightarrow> c \<in> set cs \<Longrightarrow> map_of r c = Some (col r c)"
  by (auto simp: has_columns_def col_def list_all_iff)

lemma map_of_project: "map_of (project cs r) c = (if c \<in> set cs then Some (col r c) else None)"
  by (induction cs) (auto simp: project_def)

lemma col_project: "c \<in> set cs \<Longrightarrow> col (project cs r) c = col r c"
  by (simp add: col_def map_of_project)

lemma has_columns_project: "has_columns cs (project cs r)"
  by (simp add: has_columns_def map_of_project list_all_iff)

lemma row_getInt64_col:
  "getter_law D \<Longrightarrow> map_of r c = Some (col r c) \<Longrightarrow> int_col in_i64 r c \<Longrightarrow>
   row_getInt64 D (Some r) c = sql_int (col r c)"
  by (auto simp: row_getInt64_def int_col_def getter_law_def split: sqlval.splits)

lemma row_getInt32_col:
  "getter_law D \<Longrightarrow> map_of r c = Some (col r c) \<Longrightarrow> int_col in_i32 r c \<Longrightarrow>
   row_getInt32 D (Some r) c = sql_int (col r c)"
  by (auto simp: row_getInt32_def int_col_def getter_law_def split: sqlval.splits)

lemma row_getString_col:
  "getter_law D \<Longrightarrow> map_of r c = Some (col r c) \<Longrightarrow> str_col r c \<Longrightarrow>
   row_getString D (Some r) c = sql_str (col r c)"
  by (auto simp: row_getString_def str_col_def getter_law_def split: sqlval.splits)

lemma row_isNull_col:
  "getter_law D \<Longrightarrow> map_of r c = Some (col r c) \<Longrightarrow> row_isNull D (Some r) c = (col r c = SNull)"
  by (auto simp: row_isNull_def getter_law_def)

lemmas row_getters = row_getInt64_col row_getInt32_col row_getString_col row_isNull_col

lemma num_int_col: "num_col rng r c \<Longrightarrow> int_col rng r c"
  by (auto simp: num_col_def int_col_def split: sqlval.splits)

lemma key_int_col: "key_col r \<Longrightarrow> int_col in_i64 r ''id''"
  by (auto simp: key_col_def int_col_def split: sqlval.splits)

subsection \<open>The in-memory server satisfies the laws\<close>

lemma mem_driver_sel [simp]:
  "drv_eq mem_driver = mem_equal" "drv_like mem_driver = mem_like"
  "drv_raw mem_driver = (\<lambda>s r. False)" "drv_set mem_driver = (\<lambda>h st i v. Some ())"
  "drv_isClosed mem_driver = (\<lambda>h m. Some False)" "drv_prepare mem_driver = (\<lambda>h st m. Some True)"
  "drv_execute mem_driver = mem_execute" "drv_executeQuery mem_driver = mem_executeQuery"
  "drv_executeUpdate mem_driver = mem_executeUpdate"
  "drv_lastInsertId mem_driver = (\<lambda>h m. Some (Some (mem_last m)))"
  "drv_next_throws mem_driver = (\<lambda>rs. False)"
  "drv_getString mem_driver = mem_get mem_str" "drv_getInt mem_driver = mem_get (mem_int in_i32)"
  "drv_getInt64 mem_driver = mem_get (mem_int in_i64)"
  "drv_isNull mem_driver = mem_get (\<lambda>v. Some (v = SNull))"
  "drv_getInt64At mem_driver = mem_getAt (mem_int in_i64)"
  "drv_eq mem_base = mem_equal" "drv_like mem_base = mem_like" "drv_raw mem_base = (\<lambda>s r. False)"
  by (simp_all add: mem_driver_def mem_base_def)

lemma mem_holds: "holds mem_driver ps r c = holds mem_base ps r c"
  by (induction c) simp_all

lemma mem_holds_opt: "holds_opt mem_driver ps c = holds_opt mem_base ps c"
  by (cases c) (auto simp: mem_holds fun_eq_iff)

lemma mem_upd_row: "upd_row mem_driver = upd_row mem_base"
  by (simp add: upd_row_def mem_holds fun_eq_iff)

lemma mem_agg_val: "agg_val mem_driver ps xs a = agg_val mem_base ps xs a"
  by (cases a) simp_all

lemma mem_out_rows: "out_rows mem_driver ps p l xs = out_rows mem_base ps p l xs"
  by (cases p) (auto simp: mem_agg_val agg_col_def intro!: arg_cong [where f = "\<lambda>y. pick l ps [y]"])

lemma mset_insert_by [simp]: "mset (insert_by le x xs) = add_mset x (mset xs)"
  by (induction xs) auto

lemma mset_sort_by: "mset (sort_by le xs) = mset xs"
  by (induction xs) (auto simp: sort_by_def)

lemma set_insert_by [simp]: "set (insert_by le x xs) = insert x (set xs)"
  by (induction xs) auto

lemma sorted_insert_by:
  assumes "\<And>a b. le a b \<or> le b a" "\<And>a b c. le a b \<Longrightarrow> le b c \<Longrightarrow> le a c"
  shows "sorted_wrt le xs \<Longrightarrow> sorted_wrt le (insert_by le x xs)"
proof (induction xs)
  case (Cons y ys)
  show ?case
  proof (cases "le x y")
    case True
    have "\<forall>z\<in>set ys. le x z"
    proof
      fix z assume "z \<in> set ys"
      then show "le x z" using Cons.prems assms(2) [OF True] by simp
    qed
    with Cons.prems True show ?thesis by simp
  next
    case False
    then have "le y x" using assms(1) by blast
    with Cons False show ?thesis by simp
  qed
qed simp

lemma sorted_sort_by:
  assumes "\<And>a b. le a b \<or> le b a" "\<And>a b c. le a b \<Longrightarrow> le b c \<Longrightarrow> le a c"
  shows "sorted_wrt le (sort_by le xs)"
  by (induction xs) (simp_all add: sort_by_def sorted_insert_by [where le = le, OF assms])

lemma mem_sort_ordered: "ordered_rows ord (mem_sort ord xs)"
proof (induction ord xs rule: mem_sort.induct)
  case (1 c xs)
  show ?case using sql_le_total sql_le_trans by (auto intro!: sorted_sort_by)
qed simp_all

lemma mset_mem_sort: "mset (mem_sort ord xs) = mset xs"
  by (induction ord xs rule: mem_sort.induct) (simp_all add: mset_sort_by)

lemma col_fill:
  "distinct cs \<Longrightarrow> k < length cs \<Longrightarrow> col (fill ps i cs @ r) (cs ! k) = eval ps (Qm (i + k))"
proof (induction cs arbitrary: i k)
  case (Cons c cs)
  then show ?case by (cases k) (auto simp del: eval.simps)
qed simp

lemma mem_commit_cases:
  "mem_commit m m' x = (res, m'') \<Longrightarrow>
   res = None \<and> m'' = m \<or> res = Some x \<and> m'' = m' \<and> db_ok (mem_view m')"
  by (auto simp: mem_commit_def split: if_splits)

lemma mem_view_counters [simp]: "mem_view (m\<lparr>mem_next := a, mem_last := b\<rparr>) = mem_view m"
  by (simp add: mem_view_def fun_eq_iff)

lemma mem_insert_law: "insert_law mem_driver mem_view"
  unfolding insert_law_def
proof (intro allI impI)
  fix h t cs ps w res w'
  assume a: "drv_execute mem_driver h (Insert t cs) ps w = (res, w')"
  let ?r = "(''id'', SInt (mem_next w)) # fill ps 1 cs @ mem_defaults t cs"
  show "case res of None \<Rightarrow> mem_view w' = mem_view w
     | Some _ \<Rightarrow>
         (\<exists>r. mem_view w' = (mem_view w)(t := mem_view w t @ [r]) \<and> key_col r \<and>
           row_id r \<notin> row_id ` set (mem_view w t) \<and>
           (\<forall>k<length cs. col r (cs ! k) = eval ps (Qm (Suc k))) \<and>
           (\<forall>x. drv_lastInsertId mem_driver h w' = Some x \<longrightarrow> x = Some (row_id r)))"
  proof (cases res)
    case None
    with a show ?thesis by (auto split: if_splits dest!: mem_commit_cases)
  next
    case (Some b)
    with a have c: "mem_table t" "''id'' \<notin> set cs" "distinct cs" "0 < mem_next w" "in_i64 (mem_next w)"
      "mem_next w \<notin> row_id ` set (mem_view w t)"
      and w': "w' = mem_store t (mem_view w t @ [?r]) w \<lparr>mem_next := mem_next w + 1, mem_last := mem_next w\<rparr>"
      by (auto split: if_splits dest!: mem_commit_cases)
    have "col ?r (cs ! k) = eval ps (Qm (Suc k))" if "k < length cs" for k
      using that c(2) col_fill [OF c(3) that, of ps 1 "mem_defaults t cs"] by (metis One_nat_def col_Cons nth_mem plus_1_eq_Suc)
    moreover have "row_id ?r = mem_next w" "key_col ?r"
      using c by (simp_all add: row_id_def key_col_def)
    ultimately show ?thesis using Some c w' by (auto simp: mem_view_store intro!: exI [of _ ?r])
  qed
qed

lemma mem_update_law: "update_law mem_driver mem_view"
proof -
  have le: "length (filter (\<lambda>r. upd_row mem_base ps sets c r \<noteq> r) xs) \<le>
      length (filter (\<lambda>r. holds mem_base ps r c) xs)" for ps sets c xs
    by (induction xs) (auto simp: upd_row_def)
  show ?thesis
    unfolding update_law_def
    by (auto simp: mem_holds mem_upd_row mem_view_store le split: option.splits if_splits
        dest!: mem_commit_cases)
qed

lemma mem_delete_law: "delete_law mem_driver mem_view"
  unfolding delete_law_def
  by (auto simp: mem_holds mem_view_store split: option.splits if_splits dest!: mem_commit_cases)

lemma mem_query_law: "query_law mem_driver mem_view"
  unfolding query_law_def
proof (intro allI impI)
  fix h p t c ord l ps w res w'
  let ?xs = "mem_sort ord (filter (holds_opt mem_base ps c) (mem_view w t))"
  assume a: "drv_executeQuery mem_driver h (Select p t c ord l) ps w = (res, w')"
  have "select_result mem_driver ps p c ord l (mem_view w t) (out_rows mem_base ps p l ?xs)"
    unfolding select_result_def
    by (rule exI [of _ ?xs]) (simp add: mset_mem_sort mem_sort_ordered mem_holds_opt mem_out_rows)
  with a show "mem_view w' = mem_view w \<and> (\<forall>out. res = Some (Some out) \<longrightarrow>
      select_result mem_driver ps p c ord l (mem_view w t) out)"
    by (auto split: if_splits)
qed

lemma mem_schema_law: "schema_law mem_driver mem_view"
  unfolding schema_law_def
proof (intro allI impI)
  fix h :: unit and st ps w
  assume ok: "db_ok (mem_view w)"
  show "db_ok (mem_view (snd (drv_execute mem_driver h st ps w))) \<and>
      db_ok (mem_view (snd (drv_executeUpdate mem_driver h st ps w)))"
    using ok by (cases st) (simp_all add: mem_commit_def)
qed

lemma mem_getter_law: "getter_law mem_driver"
  by (simp add: getter_law_def mem_get_def mem_getAt_def)

lemma mem_laws: "mysql_laws mem_driver mem_view"
  unfolding mysql_laws_def
  by (intro conjI mem_insert_law mem_update_law mem_delete_law mem_query_law mem_schema_law
      mem_getter_law) (simp add: eq_law_def mem_equal_def)

end
