(* ===== verification/BaseDao.thy ===== *)
theory BaseDao
  imports MysqlSpec
begin

text \<open>
  The template \<open>BaseDao<T>\<close> (\<^verbatim>\<open>blog/src/dao/base_dao.h\<close>). The member \<open>connection_\<close> is the argument
  \<open>c\<close>, a connection or null; the virtual functions of the entity DAO are function arguments.
  \<open>run_update\<close>, \<open>run_query\<close> are the two shapes a prepared statement is used in by every method of
  the entity DAOs; their lemmas carry the proofs about those methods. The locale \<open>entity_dao\<close> states what the base
  class relies on in its subclasses.
\<close>

section \<open>Connection and transactions\<close>

definition isConnectionValid :: "('h, 'w) driver \<Rightarrow> 'h mysql_connection option \<Rightarrow> 'w \<Rightarrow> bool" where
  "isConnectionValid D c w =
     (case c of None \<Rightarrow> False | Some mc \<Rightarrow> \<not> conn_isClosed D mc w)"

definition beginTransaction :: "('h, 'w) driver \<Rightarrow> 'h mysql_connection option \<Rightarrow> 'w \<Rightarrow> bool \<times> 'w" where
  "beginTransaction D c w =
     (case c of None \<Rightarrow> (False, w) | Some mc \<Rightarrow> (True, conn_setAutoCommit D mc False w))"

definition commitTransaction :: "('h, 'w) driver \<Rightarrow> 'h mysql_connection option \<Rightarrow> 'w \<Rightarrow> bool \<times> 'w" where
  "commitTransaction D c w =
     (case c of None \<Rightarrow> (False, w)
      | Some mc \<Rightarrow> (True, conn_setAutoCommit D mc True (conn_commit D mc w)))"

definition rollbackTransaction :: "('h, 'w) driver \<Rightarrow> 'h mysql_connection option \<Rightarrow> 'w \<Rightarrow> bool \<times> 'w" where
  "rollbackTransaction D c w =
     (case c of None \<Rightarrow> (False, w)
      | Some mc \<Rightarrow> (True, conn_setAutoCommit D mc True (conn_rollback D mc w)))"

definition dao_executeQuery ::
    "('h, 'w) driver \<Rightarrow> 'h mysql_connection option \<Rightarrow> stmt \<Rightarrow> 'w \<Rightarrow> mysql_result \<times> 'w" where
  "dao_executeQuery D c sql w =
     (case c of
        None \<Rightarrow> (None, w)
      | Some mc \<Rightarrow> if isConnectionValid D c w then conn_executeQuery D mc sql w else (None, w))"

definition dao_executeUpdate ::
    "('h, 'w) driver \<Rightarrow> 'h mysql_connection option \<Rightarrow> stmt \<Rightarrow> 'w \<Rightarrow> int \<times> 'w" where
  "dao_executeUpdate D c sql w =
     (case c of
        None \<Rightarrow> (0, w)
      | Some mc \<Rightarrow> if isConnectionValid D c w then conn_executeUpdate D mc sql w else (0, w))"

section \<open>Batches\<close>

text \<open>The argument \<open>k\<close> of the virtual functions numbers the calls (each reads the clock).\<close>

fun createBatch_loop ::
    "(nat \<Rightarrow> 'e \<Rightarrow> 'w \<Rightarrow> bool \<times> 'e \<times> 'w) \<Rightarrow> nat \<Rightarrow> 'e list \<Rightarrow> nat \<Rightarrow> 'w \<Rightarrow> nat \<times> 'w" where
  "createBatch_loop create k [] success_count w = (success_count, w)"
| "createBatch_loop create k (entity # es) success_count w =
     (case create k entity w of
        (True, temp, w') \<Rightarrow> createBatch_loop create (Suc k) es (Suc success_count) w'
      | (False, temp, w') \<Rightarrow> createBatch_loop create (Suc k) es success_count w')"

definition createBatch ::
    "'h mysql_connection option \<Rightarrow> (nat \<Rightarrow> 'e \<Rightarrow> 'w \<Rightarrow> bool \<times> 'e \<times> 'w) \<Rightarrow> 'e list \<Rightarrow> 'w \<Rightarrow> nat \<times> 'w" where
  "createBatch c create entities w =
     (if c = None \<or> entities = [] then (0, w) else createBatch_loop create 0 entities 0 w)"

fun findByIds ::
    "(int \<Rightarrow> 'w \<Rightarrow> 'e \<times> 'w) \<Rightarrow> ('e \<Rightarrow> bool) \<Rightarrow> int list \<Rightarrow> 'w \<Rightarrow> 'e list \<times> 'w" where
  "findByIds findById isEntityEmpty [] w = ([], w)"
| "findByIds findById isEntityEmpty (i # ids) w =
     (case findById i w of (entity, w') \<Rightarrow>
        (case findByIds findById isEntityEmpty ids w' of (res, w'') \<Rightarrow>
           (if isEntityEmpty entity then res else entity # res, w'')))"

fun successes_loop :: "(nat \<Rightarrow> 'a \<Rightarrow> 'w \<Rightarrow> bool \<times> 'w) \<Rightarrow> nat \<Rightarrow> 'a list \<Rightarrow> nat \<Rightarrow> 'w \<Rightarrow> nat \<times> 'w" where
  "successes_loop step k [] success_count w = (success_count, w)"
| "successes_loop step k (x # xs) success_count w =
     (case step k x w of (b, w') \<Rightarrow>
        successes_loop step (Suc k) xs (if b then Suc success_count else success_count) w')"

definition updateBatch ::
    "'h mysql_connection option \<Rightarrow> (nat \<Rightarrow> 'e \<Rightarrow> 'w \<Rightarrow> bool \<times> 'w) \<Rightarrow> 'e list \<Rightarrow> 'w \<Rightarrow> nat \<times> 'w" where
  "updateBatch c update entities w =
     (if c = None \<or> entities = [] then (0, w) else successes_loop update 0 entities 0 w)"

definition removeBatch ::
    "(nat \<Rightarrow> int \<Rightarrow> bool \<Rightarrow> 'w \<Rightarrow> bool \<times> 'w) \<Rightarrow> int list \<Rightarrow> bool \<Rightarrow> 'w \<Rightarrow> nat \<times> 'w" where
  "removeBatch remove ids soft_delete w =
     (if ids = [] then (0, w) else successes_loop (\<lambda>k i. remove k i soft_delete) 0 ids 0 w)"

section \<open>Queries built from text\<close>

text \<open>\<^verbatim>\<open>field_name + " = '" + field_value + "'"\<close>\<close>

definition field_condition :: "string \<Rightarrow> string \<Rightarrow> cond" where
  "field_condition field_name field_value =
     RawCond (field_name @ '' = '' @ [CHR 0x27] @ field_value @ [CHR 0x27])"

definition findOneByField ::
    "(cond option \<Rightarrow> order option \<Rightarrow> int \<Rightarrow> 'w \<Rightarrow> 'e list \<times> 'w) \<Rightarrow> 'e \<Rightarrow> string \<Rightarrow> string \<Rightarrow> 'w \<Rightarrow> 'e \<times> 'w" where
  "findOneByField findByCondition T field_name field_value w =
     (case findByCondition (Some (field_condition field_name field_value)) None 1 w of
        (results, w') \<Rightarrow> (case results of [] \<Rightarrow> T | e # es \<Rightarrow> e, w'))"

definition findByField ::
    "(cond option \<Rightarrow> order option \<Rightarrow> int \<Rightarrow> 'w \<Rightarrow> 'e list \<times> 'w) \<Rightarrow> string \<Rightarrow> string \<Rightarrow> order option \<Rightarrow> 'w \<Rightarrow> 'e list \<times> 'w" where
  "findByField findByCondition field_name field_value order_by =
     findByCondition (Some (field_condition field_name field_value)) order_by 0"

definition dao_exists :: "(cond option \<Rightarrow> 'w \<Rightarrow> int \<times> 'w) \<Rightarrow> int \<Rightarrow> 'w \<Rightarrow> bool \<times> 'w" where
  "dao_exists cnt i w = (case cnt (Some (Eq ''id'' (Num i))) w of (n, w') \<Rightarrow> (n > 0, w'))"

definition existsByField ::
    "(cond option \<Rightarrow> 'w \<Rightarrow> int \<times> 'w) \<Rightarrow> string \<Rightarrow> string \<Rightarrow> 'w \<Rightarrow> bool \<times> 'w" where
  "existsByField cnt field_name field_value w =
     (case cnt (Some (field_condition field_name field_value)) w of (n, w') \<Rightarrow> (n > 0, w'))"

text \<open>\<^verbatim>\<open>(page - 1) * page_size\<close> is computed in \<^verbatim>\<open>int\<close>.\<close>

definition page_offset :: "int \<Rightarrow> int \<Rightarrow> int res" where
  "page_offset page page_size =
     rbind (i32_checked (page - 1)) (\<lambda>p. i32_checked (p * page_size))"

definition buildPaginationSQL ::
    "string \<Rightarrow> int \<Rightarrow> int \<Rightarrow> cond option \<Rightarrow> order option \<Rightarrow> stmt res" where
  "buildPaginationSQL table_name page page_size condition order_by =
     (if page > 0 \<and> page_size > 0 then
        rbind (page_offset page page_size) (\<lambda>off.
          Inr (Select Star table_name condition order_by
            (Some (LimitOffset (Num page_size) (Num off)))))
      else Inr (Select Star table_name condition order_by None))"

definition buildCountSQL :: "string \<Rightarrow> cond option \<Rightarrow> stmt" where
  "buildCountSQL table_name condition = Select (Aggs [(CountAll, None)]) table_name condition None None"

fun extract_rows ::
    "('h, 'w) driver \<Rightarrow> (mysql_row \<Rightarrow> 'e) \<Rightarrow> ('e \<Rightarrow> bool) \<Rightarrow> sqlrow option \<Rightarrow> sqlrow list \<Rightarrow> 'e list" where
  "extract_rows D build isEntityEmpty cur [] = []"
| "extract_rows D build isEntityEmpty cur (r # rs) =
     (if drv_next_throws D (r # rs) then []
      else let entity = build (Some r); rest = extract_rows D build isEntityEmpty (Some r) rs
           in if isEntityEmpty entity then rest else entity # rest)"

text \<open>\<^verbatim>\<open>while (result->next())\<close>: one row per round.\<close>

definition extractEntitiesFromResult ::
    "('h, 'w) driver \<Rightarrow> (mysql_row \<Rightarrow> 'e) \<Rightarrow> ('e \<Rightarrow> bool) \<Rightarrow> mysql_result \<Rightarrow> 'e list" where
  "extractEntitiesFromResult D build isEntityEmpty res =
     (case res of None \<Rightarrow> [] | Some (cur, rows) \<Rightarrow> extract_rows D build isEntityEmpty cur rows)"

section \<open>Prepared statements in the entity DAOs\<close>

text \<open>
  \<^verbatim>\<open>prepareStatement\<close>, the setters, \<^verbatim>\<open>executeUpdate\<close>, \<^verbatim>\<open>affected == 0\<close>, with
  \<^verbatim>\<open>false\<close> for a null statement and for an exception. A \<open>DELETE\<close> has the same shape.
\<close>

definition run_update ::
    "('h, 'w) driver \<Rightarrow> 'h mysql_connection option \<Rightarrow> stmt \<Rightarrow> binding list \<Rightarrow> 'w \<Rightarrow> bool \<times> 'w" where
  "run_update D c sql bs w =
     (if \<not> isConnectionValid D c w then (False, w)
      else case c of None \<Rightarrow> (False, w) | Some mc \<Rightarrow>
        (case conn_prepareStatement D mc sql w of
           None \<Rightarrow> (False, w)
         | Some stm \<Rightarrow>
             (case stmt_bind D bs stm of
                Inl e \<Rightarrow> (False, w)
              | Inr stm \<Rightarrow>
                  (case stmt_executeUpdate D stm w of (affected, w') \<Rightarrow> (affected \<noteq> 0, w')))))"

text \<open>
  \<^verbatim>\<open>prepareStatement\<close>, the setters, \<^verbatim>\<open>execute\<close>, \<^verbatim>\<open>getLastInsertId\<close>: whether the statement
  was prepared (from there on the entity has its timestamps), whether it was executed, and the key.
\<close>

definition run_insert ::
    "('h, 'w) driver \<Rightarrow> 'h mysql_connection option \<Rightarrow> stmt \<Rightarrow> binding list \<Rightarrow> 'w \<Rightarrow>
     (bool \<times> bool \<times> int) \<times> 'w" where
  "run_insert D c sql bs w =
     (if \<not> isConnectionValid D c w then ((False, False, 0), w)
      else case c of None \<Rightarrow> ((False, False, 0), w) | Some mc \<Rightarrow>
        (case conn_prepareStatement D mc sql w of
           None \<Rightarrow> ((False, False, 0), w)
         | Some stm \<Rightarrow>
             (case stmt_bind D bs stm of
                Inl e \<Rightarrow> ((True, False, 0), w)
              | Inr stm \<Rightarrow>
                  (case stmt_execute D stm w of
                     (True, w') \<Rightarrow> ((True, True, conn_getLastInsertId D mc w'), w')
                   | (False, w') \<Rightarrow> ((True, False, 0), w')))))"

text \<open>\<^verbatim>\<open>prepareStatement\<close>, the setters, \<^verbatim>\<open>executeQuery\<close>; no result for a null
  statement or an exception.\<close>

definition run_query ::
    "('h, 'w) driver \<Rightarrow> 'h mysql_connection \<Rightarrow> stmt \<Rightarrow> binding list \<Rightarrow> 'w \<Rightarrow> mysql_result \<times> 'w" where
  "run_query D mc sql bs w =
     (case conn_prepareStatement D mc sql w of
        None \<Rightarrow> (None, w)
      | Some stm \<Rightarrow>
          (case stmt_bind D bs stm of
             Inl e \<Rightarrow> (None, w)
           | Inr stm \<Rightarrow> stmt_executeQuery D stm w))"

definition valid_query ::
    "('h, 'w) driver \<Rightarrow> 'h mysql_connection option \<Rightarrow> stmt \<Rightarrow> binding list \<Rightarrow> 'w \<Rightarrow> mysql_result \<times> 'w" where
  "valid_query D c sql bs w =
     (if \<not> isConnectionValid D c w then (None, w)
      else case c of None \<Rightarrow> (None, w) | Some mc \<Rightarrow> run_query D mc sql bs w)"

text \<open>\<^verbatim>\<open>if (!result || !result->next()) return T();\<close> then the entity of the first row.\<close>

definition first_entity ::
    "('h, 'w) driver \<Rightarrow> (mysql_row \<Rightarrow> 'e) \<Rightarrow> 'e \<Rightarrow> mysql_result \<Rightarrow> 'e" where
  "first_entity D build T res =
     (case result_next D res of
        (False, res') \<Rightarrow> T
      | (True, res') \<Rightarrow> build (result_getRow res'))"

text \<open>The same for a count: \<^verbatim>\<open>result->getRow().getInt64(0)\<close>.\<close>

definition first_count :: "('h, 'w) driver \<Rightarrow> mysql_result \<Rightarrow> int" where
  "first_count D res =
     (case result_next D res of
        (False, res') \<Rightarrow> 0
      | (True, res') \<Rightarrow> row_getInt64At D (result_getRow res') 0)"

section \<open>What the prepared statements do\<close>

fun binding_of :: "binding \<Rightarrow> nat \<times> sqlval" where
  "binding_of (BNull i) = (i, SNull)"
| "binding_of (BBool i v) = (i, SInt (if v then 1 else 0))"
| "binding_of (BInt32 i v) = (i, SInt v)"
| "binding_of (BInt64 i v) = (i, SInt v)"
| "binding_of (BString i v) = (i, SStr v)"
| "binding_of (BDateTime i v) = (i, SStr v)"

definition params_of :: "binding list \<Rightarrow> params" where
  "params_of bs = foldl (\<lambda>ps b. ps(fst (binding_of b) \<mapsto> snd (binding_of b))) Map.empty bs"

lemma stmt_set_Inr:
  assumes "stmt_set D msg i v stm = Inr stm'" "m_stmt stm = Some hs"
  shows "m_stmt stm' = Some hs \<and> bound stm' = (bound stm)(i \<mapsto> v)"
  using assms by (cases hs) (auto simp: stmt_set_def split: option.splits)

lemmas stmt_setters = stmt_setNull_def stmt_setBoolean_def stmt_setInt32_def stmt_setInt64_def
  stmt_setString_def stmt_setDateTime_def

lemma stmt_bind1_Inr:
  assumes "stmt_bind1 D b stm = Inr stm'" "m_stmt stm = Some hs"
  shows "m_stmt stm' = Some hs \<and>
    bound stm' = (bound stm)(fst (binding_of b) \<mapsto> snd (binding_of b))"
  using assms by (cases b) (auto simp: stmt_setters dest: stmt_set_Inr)

lemma stmt_bind_Inr:
  "stmt_bind D bs stm = Inr stm' \<Longrightarrow> m_stmt stm = Some hs \<Longrightarrow>
   m_stmt stm' = Some hs \<and>
   bound stm' = foldl (\<lambda>ps b. ps(fst (binding_of b) \<mapsto> snd (binding_of b))) (bound stm) bs"
proof (induction bs arbitrary: stm)
  case (Cons b bs)
  then obtain s where s: "stmt_bind1 D b stm = Inr s" "stmt_bind D bs s = Inr stm'"
    by (auto simp: rbind_eq_Inr)
  from stmt_bind1_Inr [OF s(1) Cons.prems(2)] Cons.IH [OF s(2)] show ?case by simp
qed simp

lemma prepare_Some:
  "conn_prepareStatement D mc sql w = Some stm \<Longrightarrow>
   \<exists>h. m_stmt stm = Some (h, sql) \<and> bound stm = Map.empty"
  by (auto simp: conn_prepareStatement_def split: option.splits bool.splits)

text \<open>The two outcomes of a use of a prepared statement: it was not executed, or it was, with the
  bound values.\<close>

lemma run_update_cases:
  assumes "run_update D c sql bs w = (b, w')"
  obtains "b = False" "w' = w"
  | h res where "drv_executeUpdate D h sql (params_of bs) w = (res, w')"
      "b \<longleftrightarrow> res \<noteq> Some 0"
proof -
  have "b = False \<and> w' = w \<or>
      (\<exists>h res. drv_executeUpdate D h sql (params_of bs) w = (res, w') \<and> (b \<longleftrightarrow> res \<noteq> Some 0))"
  proof (cases "isConnectionValid D c w")
    case True
    then obtain mc where mc: "c = Some mc" by (cases c) (auto simp: isConnectionValid_def)
    show ?thesis
    proof (cases "conn_prepareStatement D mc sql w")
      case None
      with assms True mc show ?thesis by (simp add: run_update_def)
    next
      case (Some stm)
      obtain h where h: "m_stmt stm = Some (h, sql)" "bound stm = Map.empty"
        using prepare_Some [OF Some] by blast
      show ?thesis
      proof (cases "stmt_bind D bs stm")
        case (Inl e)
        with assms True mc Some show ?thesis by (simp add: run_update_def)
      next
        case (Inr stm')
        have "m_stmt stm' = Some (h, sql)" "bound stm' = params_of bs"
          using stmt_bind_Inr [OF Inr h(1)] h(2) by (simp_all add: params_of_def)
        with assms True mc Some Inr show ?thesis
          by (auto simp: run_update_def stmt_executeUpdate_def split: prod.splits option.splits)
      qed
    qed
  next
    case False
    with assms show ?thesis by (simp add: run_update_def)
  qed
  then show ?thesis using that by blast
qed

lemma run_insert_cases:
  assumes "run_insert D c sql bs w = ((prepared, ok, i), w')"
  obtains "ok = False" "w' = w"
  | h mc res where "c = Some mc" "m_connection mc = Some h"
      "drv_execute D h sql (params_of bs) w = (res, w')"
      "ok \<longleftrightarrow> res \<noteq> None" "ok \<Longrightarrow> prepared" "ok \<Longrightarrow> i = conn_getLastInsertId D mc w'"
proof -
  have "ok = False \<and> w' = w \<or>
      (\<exists>h mc res. c = Some mc \<and> m_connection mc = Some h \<and>
        drv_execute D h sql (params_of bs) w = (res, w') \<and>
        (ok \<longleftrightarrow> res \<noteq> None) \<and> (ok \<longrightarrow> prepared \<and> i = conn_getLastInsertId D mc w'))"
  proof (cases "isConnectionValid D c w")
    case True
    then obtain mc where mc: "c = Some mc" by (cases c) (auto simp: isConnectionValid_def)
    show ?thesis
    proof (cases "conn_prepareStatement D mc sql w")
      case None
      with assms True mc show ?thesis by (simp add: run_insert_def)
    next
      case (Some stm)
      obtain h where h: "m_stmt stm = Some (h, sql)" "bound stm = Map.empty" "m_connection mc = Some h"
        using Some by (auto simp: conn_prepareStatement_def conn_open_def
            split: option.splits bool.splits if_splits)
      show ?thesis
      proof (cases "stmt_bind D bs stm")
        case (Inl e)
        with assms True mc Some show ?thesis by (simp add: run_insert_def)
      next
        case (Inr stm')
        have "m_stmt stm' = Some (h, sql)" "bound stm' = params_of bs"
          using stmt_bind_Inr [OF Inr h(1)] h(2) by (simp_all add: params_of_def)
        with assms True mc Some Inr h(3) show ?thesis
          by (auto simp: run_insert_def stmt_execute_def split: prod.splits option.splits)
      qed
    qed
  next
    case False
    with assms show ?thesis by (simp add: run_insert_def)
  qed
  then show ?thesis using that by blast
qed

lemma run_query_cases:
  assumes "run_query D mc sql bs w = (res, w')"
  obtains "res = None" "w' = w"
  | h r where "drv_executeQuery D h sql (params_of bs) w = (r, w')"
      "res = (case r of Some (Some rows) \<Rightarrow> Some (None, rows) | _ \<Rightarrow> None)"
proof -
  have "res = None \<and> w' = w \<or>
      (\<exists>h r. drv_executeQuery D h sql (params_of bs) w = (r, w') \<and>
        res = (case r of Some (Some rows) \<Rightarrow> Some (None, rows) | _ \<Rightarrow> None))"
  proof (cases "conn_prepareStatement D mc sql w")
    case None
    with assms show ?thesis by (simp add: run_query_def)
  next
    case (Some stm)
    obtain h where h: "m_stmt stm = Some (h, sql)" "bound stm = Map.empty"
      using prepare_Some [OF Some] by blast
    show ?thesis
    proof (cases "stmt_bind D bs stm")
      case (Inl e)
      with assms Some show ?thesis by (simp add: run_query_def)
    next
      case (Inr stm')
      have "m_stmt stm' = Some (h, sql)" "bound stm' = params_of bs"
        using stmt_bind_Inr [OF Inr h(1)] h(2) by (simp_all add: params_of_def)
      with assms Some Inr show ?thesis
        by (auto simp: run_query_def stmt_executeQuery_def split: prod.splits option.splits)
    qed
  qed
  then show ?thesis using that by blast
qed

text \<open>\<open>updated\<close>, \<open>deleted\<close>: the data after a statement that went through.\<close>

definition updated ::
    "('h, 'w) driver \<Rightarrow> string \<Rightarrow> assignment list \<Rightarrow> cond \<Rightarrow> params \<Rightarrow> db \<Rightarrow> db" where
  "updated D t sets cnd ps d = d(t := map (upd_row D ps sets cnd) (d t))"

definition deleted :: "('h, 'w) driver \<Rightarrow> string \<Rightarrow> cond \<Rightarrow> params \<Rightarrow> db \<Rightarrow> db" where
  "deleted D t cnd ps d = d(t := filter (\<lambda>r. \<not> holds D ps r cnd) (d t))"

lemma map_id_filter: "filter (\<lambda>x. f x \<noteq> x) xs = [] \<Longrightarrow> map f xs = xs"
  by (induction xs) (auto split: if_splits)

text \<open>
  An \<open>UPDATE\<close> that reports failure changed nothing. One that reports success either updated the
  matching rows, of which there is one at least, or was stopped by an exception
  (\<open>MySQLPreparedStatement::executeUpdate\<close> then gives -1) and changed nothing.
\<close>

lemma run_update_Update:
  assumes laws: "mysql_laws D view"
    and run: "run_update D c (Update t sets cnd) bs w = (b, w')"
  shows "view w' = view w \<or>
    b \<and> view w' = updated D t sets cnd (params_of bs) (view w) \<and>
    (\<exists>r\<in>set (view w t). holds D (params_of bs) r cnd)"
  using run
proof (cases rule: run_update_cases)
  case 1
  then show ?thesis by simp
next
  case (2 h res)
  let ?ps = "params_of bs"
  note law = mysql_lawsD(3) [OF laws, unfolded update_law_def, rule_format, OF 2(1)]
  show ?thesis
  proof (cases res)
    case None
    with law show ?thesis by simp
  next
    case (Some n)
    with law have v: "view w' = updated D t sets cnd ?ps (view w)"
      and lo: "int (length (filter (\<lambda>r. upd_row D ?ps sets cnd r \<noteq> r) (view w t))) \<le> n"
      and hi: "n \<le> int (length (filter (\<lambda>r. holds D ?ps r cnd) (view w t)))"
      by (simp_all add: updated_def)
    show ?thesis
    proof (cases "n = 0")
      case True
      with lo have "map (upd_row D ?ps sets cnd) (view w t) = view w t"
        by (intro map_id_filter) simp
      with v show ?thesis by (simp add: updated_def)
    next
      case False
      with lo hi have "filter (\<lambda>r. holds D ?ps r cnd) (view w t) \<noteq> []" by auto
      then have "\<exists>r\<in>set (view w t). holds D ?ps r cnd" by (auto simp: filter_empty_conv)
      with v 2(2) Some False show ?thesis by simp
    qed
  qed
qed

lemma run_update_Delete:
  assumes laws: "mysql_laws D view"
    and run: "run_update D c (Delete t cnd) bs w = (b, w')"
  shows "view w' = view w \<or>
    b \<and> view w' = deleted D t cnd (params_of bs) (view w) \<and>
    (\<exists>r\<in>set (view w t). holds D (params_of bs) r cnd)"
  using run
proof (cases rule: run_update_cases)
  case 1
  then show ?thesis by simp
next
  case (2 h res)
  let ?ps = "params_of bs"
  note law = mysql_lawsD(4) [OF laws, unfolded delete_law_def, rule_format, OF 2(1)]
  show ?thesis
  proof (cases res)
    case None
    with law show ?thesis by simp
  next
    case (Some n)
    with law have v: "view w' = deleted D t cnd ?ps (view w)"
      and n: "n = int (length (filter (\<lambda>r. holds D ?ps r cnd) (view w t)))"
      by (simp_all add: deleted_def)
    show ?thesis
    proof (cases "filter (\<lambda>r. holds D ?ps r cnd) (view w t)")
      case Nil
      then have "filter (\<lambda>r. \<not> holds D ?ps r cnd) (view w t) = view w t"
        by (simp add: filter_empty_conv filter_id_conv)
      with v show ?thesis by (simp add: deleted_def)
    next
      case (Cons r rs)
      then have "r \<in> set (filter (\<lambda>r. holds D ?ps r cnd) (view w t))" by simp
      with v n Cons 2(2) Some show ?thesis by auto
    qed
  qed
qed

text \<open>An insertion that reports success added one row under a fresh key; the key the entity gets is
  that of the row, or 0 when the question for it failed.\<close>

lemma run_insert_Insert:
  assumes laws: "mysql_laws D view"
    and run: "run_insert D c (Insert t cs) bs w = ((prepared, ok, i), w')"
  shows "\<not> ok \<and> view w' = view w \<or>
    ok \<and> prepared \<and>
    (\<exists>r. view w' = (view w)(t := view w t @ [r]) \<and> key_col r \<and>
       row_id r \<notin> row_id ` set (view w t) \<and>
       map (col r) cs = map (\<lambda>k. eval (params_of bs) (Qm k)) [1..<Suc (length cs)] \<and>
       (i = 0 \<or> i = row_id r))"
  using run
proof (cases rule: run_insert_cases)
  case (2 h mc res)
  note law = mysql_lawsD(2) [OF laws, unfolded insert_law_def, rule_format, OF 2(3)]
  show ?thesis
  proof (cases res)
    case None
    with law 2(4) show ?thesis by simp
  next
    case (Some x)
    with law obtain r where r: "view w' = (view w)(t := view w t @ [r])" "key_col r"
      "row_id r \<notin> row_id ` set (view w t)"
      "\<forall>k<length cs. col r (cs ! k) = eval (params_of bs) (Qm (Suc k))"
      "\<forall>x. drv_lastInsertId D h w' = Some x \<longrightarrow> x = Some (row_id r)"
      by auto
    have "conn_getLastInsertId D mc w' = 0 \<or> conn_getLastInsertId D mc w' = row_id r"
      using 2(2) r(5) by (auto simp: conn_getLastInsertId_def conn_open_def split: option.splits)
    moreover have "map (col r) cs = map (\<lambda>k. eval (params_of bs) (Qm k)) [1..<Suc (length cs)]"
      by (rule nth_equalityI) (use r(4) in \<open>simp_all del: upt_Suc\<close>)
    ultimately show ?thesis using r(1-3) 2(4-6) Some by auto
  qed
qed simp

lemma run_insert_db_ok:
  assumes "mysql_laws D view" "db_ok (view w)" "run_insert D c sql bs w = (x, w')"
  shows "db_ok (view w')"
proof (cases x)
  case (fields prepared ok i)
  from assms(3) [unfolded fields] show ?thesis
  proof (cases rule: run_insert_cases)
    case (2 h mc res)
    then show ?thesis
      using mysql_lawsD(6) [OF assms(1)] assms(2) unfolding schema_law_def by (metis snd_conv)
  qed (use assms(2) in simp)
qed

text \<open>The statement that throws: nothing changes, and success is reported.\<close>

lemma run_update_throws:
  assumes "isConnectionValid D c w" "c = Some mc" "conn_prepareStatement D mc sql w = Some stm"
    "stmt_bind D bs stm = Inr stm'" "m_stmt stm' = Some (h, sql)"
    "drv_executeUpdate D h sql (bound stm') w = (None, w')"
  shows "run_update D c sql bs w = (True, w')"
  using assms by (simp add: run_update_def stmt_executeUpdate_def)

lemma run_update_db_ok:
  assumes "mysql_laws D view" "db_ok (view w)" "run_update D c sql bs w = (b, w')"
  shows "db_ok (view w')"
  using assms(3)
proof (cases rule: run_update_cases)
  case (2 h res)
  then show ?thesis
    using mysql_lawsD(6) [OF assms(1)] assms(2) unfolding schema_law_def by (metis snd_conv)
qed (use assms(2) in simp)

lemma run_query_Select:
  assumes laws: "mysql_laws D view"
    and run: "run_query D mc (Select p t cnd ord l) bs w = (res, w')"
  shows "view w' = view w \<and> (res = None \<or>
    (\<exists>out. res = Some (None, out) \<and> select_result D (params_of bs) p cnd ord l (view w t) out))"
  using run
proof (cases rule: run_query_cases)
  case (2 h r)
  then show ?thesis
    using mysql_lawsD(5) [OF laws, unfolded query_law_def, rule_format, OF 2(1)]
    by (cases r) (auto split: option.splits)
qed simp

lemma valid_query_Select:
  assumes "mysql_laws D view" "valid_query D c (Select p t cnd ord l) bs w = (res, w')"
  shows "view w' = view w \<and> (res = None \<or>
    (\<exists>out. res = Some (None, out) \<and> select_result D (params_of bs) p cnd ord l (view w t) out))"
  using assms run_query_Select [OF assms(1)]
  by (auto simp: valid_query_def split: if_splits option.splits)

lemma dao_executeQuery_Select:
  assumes laws: "mysql_laws D view" and run: "dao_executeQuery D c (Select p t cnd ord l) w = (res, w')"
  shows "view w' = view w \<and> (res = None \<or>
    (\<exists>out. res = Some (None, out) \<and> select_result D Map.empty p cnd ord l (view w t) out))"
proof -
  have "res = None \<and> w' = w \<or>
      (\<exists>h r. drv_executeQuery D h (Select p t cnd ord l) Map.empty w = (r, w') \<and>
        res = (case r of Some (Some rows) \<Rightarrow> Some (None, rows) | _ \<Rightarrow> None))"
    using run by (auto simp: dao_executeQuery_def conn_executeQuery_def
        split: option.splits if_splits prod.splits)
  then show ?thesis
  proof (elim disjE exE conjE)
    fix h r
    assume a: "drv_executeQuery D h (Select p t cnd ord l) Map.empty w = (r, w')"
      and "res = (case r of Some (Some rows) \<Rightarrow> Some (None, rows) | _ \<Rightarrow> None)"
    then show ?thesis
      using mysql_lawsD(5) [OF laws, unfolded query_law_def, rule_format, OF a]
      by (cases r) (auto split: option.splits)
  qed simp
qed

lemma extract_rows_eq:
  assumes "getter_law D"
  shows "extract_rows D build isEntityEmpty cur rs =
    filter (\<lambda>e. \<not> isEntityEmpty e) (map (\<lambda>r. build (Some r)) rs)"
  using assms by (induction rs arbitrary: cur) (auto simp: getter_law_def Let_def)

lemma first_entity_simps:
  assumes "getter_law D"
  shows "first_entity D build T None = T" "first_entity D build T (Some (cur, [])) = T"
    "first_entity D build T (Some (cur, r # rs)) = build (Some r)"
  using assms by (simp_all add: first_entity_def getter_law_def result_getRow_def)

lemma first_count_simps:
  assumes "getter_law D"
  shows "first_count D None = 0" "first_count D (Some (cur, [])) = 0"
    "in_i64 n \<Longrightarrow> first_count D (Some (cur, ((x, SInt n) # r) # rs)) = n"
  using assms by (simp_all add: first_count_def getter_law_def result_getRow_def row_getInt64At_def)

lemma row_id_eq:
  "mysql_laws D view \<Longrightarrow> key_col r \<Longrightarrow> ps k = Some (SInt i) \<Longrightarrow>
   holds D ps r (Eq ''id'' (Qm k)) \<longleftrightarrow> row_id r = i"
  using key_col_row_id [of r] by (simp add: drv_eq_simps)

lemma first_row_found:
  assumes laws: "mysql_laws D view"
    and q: "valid_query D c (Select (Cols cs) t (Some cnd) None None) bs w = (Some (cur, r0 # rs), w')"
    and ent: "\<And>r. r \<in> set (view w t) \<Longrightarrow> build (Some (project cs r)) = ent r"
  shows "\<exists>r\<in>set (view w t). holds D (params_of bs) r cnd \<and> build (Some r0) = ent r"
proof -
  from valid_query_Select [OF laws q]
  have "select_result D (params_of bs) (Cols cs) (Some cnd) None None (view w t) (r0 # rs)" by auto
  then obtain xs where xs: "mset xs = mset (filter (holds_opt D (params_of bs) (Some cnd)) (view w t))"
    and o': "r0 # rs = out_rows D (params_of bs) (Cols cs) None xs"
    unfolding select_result_def by (elim exE conjE)
  from o' obtain r ys where r: "xs = r # ys" "r0 = project cs r" by (cases xs) auto
  then have "r \<in> set (filter (holds_opt D (params_of bs) (Some cnd)) (view w t))"
    using xs by (metis list.set_intros(1) mset_eq_setD)
  with r ent show ?thesis by auto
qed

text \<open>A lookup gives the entity of a row the condition holds for, or the empty entity.\<close>

lemma first_entity_found:
  assumes laws: "mysql_laws D view"
    and q: "valid_query D c (Select (Cols cs) t (Some cnd) None None) bs w = (res, w')"
    and ent: "\<And>r. r \<in> set (view w t) \<Longrightarrow> build (Some (project cs r)) = ent r"
  shows "view w' = view w \<and> (first_entity D build T res = T \<or>
    (\<exists>r\<in>set (view w t). holds D (params_of bs) r cnd \<and> first_entity D build T res = ent r))"
proof -
  note g = mysql_lawsD(7) [OF laws]
  note out = valid_query_Select [OF laws q]
  show ?thesis
  proof (cases "res = None \<or> (\<exists>cur. res = Some (cur, []))")
    case True
    with out show ?thesis by (auto simp: first_entity_simps [OF g])
  next
    case False
    with out obtain r0 rs where res: "res = Some (None, r0 # rs)" by (metis list.exhaust)
    from first_row_found [where ent = ent and build = build, OF laws q [unfolded res] ent] out res
    show ?thesis by (auto simp: first_entity_simps [OF g])
  qed
qed

text \<open>A count that was executed is the number of rows the condition holds for.\<close>

lemma first_count_value:
  assumes laws: "mysql_laws D view"
    and q: "valid_query D c (Select (Aggs [(CountAll, None)]) t (Some cnd) None None) bs w = (res, w')"
    and fits: "in_i64 (int (length (view w t)))"
  shows "view w' = view w \<and> first_count D res =
    (if res = None then 0 else int (length (filter (\<lambda>r. holds D (params_of bs) r cnd) (view w t))))"
proof -
  note g = mysql_lawsD(7) [OF laws]
  note out = valid_query_Select [OF laws q]
  show ?thesis
  proof (cases res)
    case None
    with out show ?thesis by (simp add: first_count_simps(1) [OF g])
  next
    case (Some x)
    with out obtain xs where v: "view w' = view w"
      and xs: "mset xs = mset (filter (holds_opt D (params_of bs) (Some cnd)) (view w t))"
      and res: "res = Some (None, [[(''COUNT(*)'', SInt (int (length xs)))]])"
      by (auto simp: select_result_def agg_col_def)
    have len: "length xs = length (filter (\<lambda>r. holds D (params_of bs) r cnd) (view w t))"
      using mset_eq_length [OF xs] by (simp add: holds_opt.simps [abs_def])
    then have "in_i64 (int (length xs))"
      using fits length_filter_le [of "\<lambda>r. holds D (params_of bs) r cnd" "view w t"]
      unfolding in_i64_def by linarith
    then have "first_count D res = int (length xs)" using res by (simp add: first_count_simps(3) [OF g])
    with v len res show ?thesis by simp
  qed
qed

section \<open>Lists of entities\<close>

text \<open>
  What a finder returns of the stored entities \<open>es\<close>: those with \<open>P\<close>, arranged so that \<open>before\<close>
  holds along the list, and of these the window given by the limit.
\<close>

definition listing ::
    "('e \<Rightarrow> bool) \<Rightarrow> ('e \<Rightarrow> 'e \<Rightarrow> bool) \<Rightarrow> (nat \<times> nat) option \<Rightarrow> 'e list \<Rightarrow> 'e list \<Rightarrow> bool" where
  "listing P before window es out \<longleftrightarrow>
     (\<exists>xs. mset xs = mset (filter P es) \<and> sorted_wrt before xs \<and>
       out = (case window of None \<Rightarrow> xs | Some (n, off) \<Rightarrow> take n (drop off xs)))"

lemma listing_set: "listing P before window es out \<Longrightarrow> set out \<subseteq> {e \<in> set es. P e}"
proof -
  assume "listing P before window es out"
  then obtain xs where xs: "mset xs = mset (filter P es)"
    and out: "out = (case window of None \<Rightarrow> xs | Some (n, off) \<Rightarrow> take n (drop off xs))"
    by (auto simp: listing_def)
  from xs have "set xs = {e \<in> set es. P e}" by (metis set_filter mset_eq_setD)
  with out show ?thesis by (auto split: option.splits dest!: in_set_takeD in_set_dropD)
qed

lemma listing_sorted: "listing P before window es out \<Longrightarrow> sorted_wrt before out"
  by (auto simp: listing_def split: option.splits intro: sorted_wrt_take sorted_wrt_drop)

lemma listing_length: "listing P before (Some (n, off)) es out \<Longrightarrow> length out \<le> n"
  by (auto simp: listing_def)

text \<open>Without a window the whole selection comes back, each entity once.\<close>

lemma listing_all: "listing P before None es out \<Longrightarrow> mset out = mset (filter P es)"
  by (auto simp: listing_def)

lemma select_listing:
  assumes g: "getter_law D"
    and sel: "select_result D ps p cnd (Some (Desc key)) l rows out"
    and p: "p = Cols cs \<or> p = Star"
    and ent: "\<And>r. r \<in> set rows \<Longrightarrow>
      build (Some (project cs r)) = ent r \<and> build (Some r) = ent r \<and> \<not> isEntityEmpty (ent r)"
    and P: "\<And>r. r \<in> set rows \<Longrightarrow> holds_opt D ps cnd r = P (ent r)"
    and before: "\<And>a b. a \<in> set rows \<Longrightarrow> b \<in> set rows \<Longrightarrow> sql_le (col b key) (col a key) \<Longrightarrow>
      before (ent a) (ent b)"
    and l: "\<And>xs :: sqlrow list. pick l ps xs =
      (case window of None \<Rightarrow> xs | Some (n, off) \<Rightarrow> take n (drop off xs))"
  shows "listing P before window (map ent rows)
    (extractEntitiesFromResult D build isEntityEmpty (Some (None, out)))"
proof -
  from sel obtain xs where xs: "mset xs = mset (filter (holds_opt D ps cnd) rows)"
    and sorted: "sorted_wrt (\<lambda>a b. sql_le (col b key) (col a key)) xs"
    and out: "out = out_rows D ps p l xs"
    by (auto simp: select_result_def)
  have sub: "set xs \<subseteq> set rows" using xs by (metis filter_is_subset mset_eq_setD)
  have "mset (map ent xs) = mset (map ent (filter (holds_opt D ps cnd) rows))"
    using xs by simp
  also have "filter (holds_opt D ps cnd) rows = filter (P \<circ> ent) rows"
    by (rule filter_cong) (simp_all add: P)
  finally have m: "mset (map ent xs) = mset (filter P (map ent rows))"
    by (simp add: filter_map)
  have s: "sorted_wrt before (map ent xs)"
    unfolding sorted_wrt_map
    by (rule sorted_wrt_mono_rel [OF _ sorted]) (use sub before in blast)
  have "set (pick l ps xs) \<subseteq> set rows" using sub set_pick [of l ps xs] by blast
  then have "extractEntitiesFromResult D build isEntityEmpty (Some (None, out)) = map ent (pick l ps xs)"
    using p ent unfolding out extractEntitiesFromResult_def
    by (auto simp: extract_rows_eq [OF g] filter_id_conv subset_iff intro!: filter_True)
  also have "\<dots> = (case window of None \<Rightarrow> map ent xs | Some (n, off) \<Rightarrow> take n (drop off (map ent xs)))"
    unfolding l by (simp add: take_map drop_map split: option.split)
  finally show ?thesis using m s unfolding listing_def by blast
qed

section \<open>The contract of an entity DAO\<close>

text \<open>
  What \<open>BaseDao\<close> needs of its subclass: \<open>stored w\<close> are the entities of the table, \<open>live\<close> those
  the finders can return. \<open>on\<close> stands for the laws of the server, \<open>good\<close> for its schema.
\<close>

locale entity_dao =
  fixes on :: bool
    and good :: "'w \<Rightarrow> bool"
    and stored :: "'w \<Rightarrow> 'e list"
    and live :: "'e \<Rightarrow> bool"
    and ident :: "'e \<Rightarrow> int"
    and isEntityEmpty :: "'e \<Rightarrow> bool"
    and findById :: "int \<Rightarrow> 'w \<Rightarrow> 'e \<times> 'w"
    and create :: "nat \<Rightarrow> 'e \<Rightarrow> 'w \<Rightarrow> bool \<times> 'e \<times> 'w"
    and update :: "nat \<Rightarrow> 'e \<Rightarrow> 'w \<Rightarrow> bool \<times> 'w"
    and remove :: "nat \<Rightarrow> int \<Rightarrow> bool \<Rightarrow> 'w \<Rightarrow> bool \<times> 'w"
  assumes find_law: "on \<Longrightarrow> good w \<Longrightarrow> findById i w = (e, w') \<Longrightarrow>
      good w' \<and> stored w' = stored w \<and> (isEntityEmpty e \<or> e \<in> set (stored w) \<and> live e \<and> ident e = i)"
    and create_law: "on \<Longrightarrow> good w \<Longrightarrow> create k e w = (b, e', w') \<Longrightarrow>
      good w' \<and> (if b then \<exists>s. stored w' = stored w @ [s] else stored w' = stored w)"
    and update_law: "on \<Longrightarrow> good w \<Longrightarrow> update k e w = (b, w') \<Longrightarrow>
      good w' \<and> map ident (stored w') = map ident (stored w) \<and> (\<not> b \<longrightarrow> stored w' = stored w) \<and>
      (\<forall>s\<in>set (stored w). ident s \<noteq> ident e \<longrightarrow> s \<in> set (stored w'))"
    and remove_law: "on \<Longrightarrow> good w \<Longrightarrow> remove k i soft w = (b, w') \<Longrightarrow>
      good w' \<and> set (map ident (stored w')) \<subseteq> set (map ident (stored w)) \<and>
      (\<not> b \<longrightarrow> stored w' = stored w) \<and>
      (\<forall>s\<in>set (stored w). ident s \<noteq> i \<longrightarrow> s \<in> set (stored w'))"
begin

lemma findByIds_law:
  "on \<Longrightarrow> good w \<Longrightarrow> findByIds findById isEntityEmpty ids w = (es, v) \<Longrightarrow>
   good v \<and> stored v = stored w \<and> subseq (map ident es) ids \<and>
   set es \<subseteq> {e \<in> set (stored w). live e}"
proof (induction ids arbitrary: w es)
  case (Cons i ids)
  obtain e w1 where f: "findById i w = (e, w1)" by fastforce
  obtain rs w2 where r: "findByIds findById isEntityEmpty ids w1 = (rs, w2)" by fastforce
  note one = find_law [OF Cons.prems(1,2) f]
  from Cons.prems f r have eq: "es = (if isEntityEmpty e then rs else e # rs)" "v = w2"
    by (simp_all split: if_splits)
  note rest = Cons.IH [OF Cons.prems(1) conjunct1 [OF one] r [folded eq(2)]]
  with one eq rest show ?case by (auto intro: list_emb_Cons)
qed simp

lemma createBatch_loop_law:
  "on \<Longrightarrow> good w \<Longrightarrow> createBatch_loop create k es n w = (m, w') \<Longrightarrow>
   good w' \<and> m \<le> n + length es \<and>
   (\<exists>new. stored w' = stored w @ new \<and> n + length new = m)"
proof (induction es arbitrary: k n w)
  case (Cons e es)
  obtain b e' w1 where c: "create k e w = (b, e', w1)" using prod_cases3 by blast
  note one = create_law [OF Cons.prems(1,2) c]
  have nxt: "createBatch_loop create (Suc k) es (if b then Suc n else n) w1 = (m, w')"
    using Cons.prems(3) c by (cases b) simp_all
  note rest = Cons.IH [OF Cons.prems(1) conjunct1 [OF one] nxt]
  show ?case
  proof (cases b)
    case True
    with one obtain s where s: "stored w1 = stored w @ [s]" by auto
    from rest True obtain new where "stored w' = stored w1 @ new" "Suc n + length new = m" by auto
    with s rest True show ?thesis by (auto intro: exI [of _ "s # new"])
  next
    case False
    with one rest show ?thesis by auto
  qed
qed simp

lemma createBatch_law:
  assumes "on" "good w" "createBatch c create es w = (m, w')"
  shows "good w' \<and> m \<le> length es \<and> (\<exists>new. stored w' = stored w @ new \<and> length new = m)"
  using assms createBatch_loop_law [OF assms(1,2)]
  by (fastforce simp: createBatch_def split: if_splits)

text \<open>Rows no element of the batch refers to stay as they are; so does the count of rows.\<close>

lemma update_loop_law:
  "on \<Longrightarrow> good w \<Longrightarrow> successes_loop update k es n w = (m, w') \<Longrightarrow>
   good w' \<and> m \<le> n + length es \<and> map ident (stored w') = map ident (stored w) \<and>
   (\<forall>s\<in>set (stored w). ident s \<notin> ident ` set es \<longrightarrow> s \<in> set (stored w'))"
proof (induction es arbitrary: k n w)
  case (Cons e es)
  obtain b w1 where c: "update k e w = (b, w1)" by fastforce
  note one = update_law [OF Cons.prems(1,2) c]
  have nxt: "successes_loop update (Suc k) es (if b then Suc n else n) w1 = (m, w')"
    using Cons.prems(3) c by simp
  note rest = Cons.IH [OF Cons.prems(1) conjunct1 [OF one] nxt]
  with one show ?case by (auto split: if_splits)
qed simp

lemma updateBatch_law:
  assumes "on" "good w" "updateBatch c update es w = (m, w')"
  shows "good w' \<and> m \<le> length es \<and> map ident (stored w') = map ident (stored w) \<and>
    (\<forall>s\<in>set (stored w). ident s \<notin> ident ` set es \<longrightarrow> s \<in> set (stored w'))"
  using assms update_loop_law [OF assms(1,2), of 0 es 0]
  by (auto simp: updateBatch_def split: if_splits)

lemma remove_loop_law:
  "on \<Longrightarrow> good w \<Longrightarrow> successes_loop (\<lambda>k i. remove k i soft) k ids n w = (m, w') \<Longrightarrow>
   good w' \<and> m \<le> n + length ids \<and>
   (\<forall>s\<in>set (stored w). ident s \<notin> set ids \<longrightarrow> s \<in> set (stored w'))"
proof (induction ids arbitrary: k n w)
  case (Cons i ids)
  obtain b w1 where c: "remove k i soft w = (b, w1)" by fastforce
  note one = remove_law [OF Cons.prems(1,2) c]
  have nxt: "successes_loop (\<lambda>k i. remove k i soft) (Suc k) ids (if b then Suc n else n) w1 = (m, w')"
    using Cons.prems(3) c by simp
  note rest = Cons.IH [OF Cons.prems(1) conjunct1 [OF one] nxt]
  with one show ?case by (auto split: if_splits)
qed simp

lemma removeBatch_law:
  assumes "on" "good w" "removeBatch remove ids soft w = (m, w')"
  shows "good w' \<and> m \<le> length ids \<and>
    (\<forall>s\<in>set (stored w). ident s \<notin> set ids \<longrightarrow> s \<in> set (stored w'))"
  using assms remove_loop_law [OF assms(1,2), of soft 0 ids 0]
  by (auto simp: removeBatch_def split: if_splits)

end

end
