(* ===== verification/BlogDao.thy ===== *)
theory BlogDao
  imports BaseDao
begin

text \<open>
  \<open>BlogDao\<close> (\<^verbatim>\<open>blog/src/dao/blog_dao.cc\<close>): its statements, its operations, and the operations
  read on the abstract table of blogs \<open>stored_blogs\<close>. \<open>now\<close> is the value of \<^verbatim>\<open>time(nullptr)\<close> in
  the call. Log output is not modelled.
\<close>

section \<open>Statements\<close>

definition sql_blog_insert :: stmt where
  "sql_blog_insert = Insert ''blogs''
     [''title'', ''content'', ''summary'', ''author_id'', ''author_name'', ''status'', ''view_count'',
      ''created_at'', ''updated_at'', ''published_at'']"

definition sql_blog_find :: stmt where
  "sql_blog_find = Select (Cols blog_columns) ''blogs''
     (Some (AndC (Eq ''id'' (Qm 1)) (Ne ''status'' (Qm 2)))) None None"

definition sql_blog_update :: stmt where
  "sql_blog_update = Update ''blogs''
     [SetTo ''title'' (Qm 1), SetTo ''content'' (Qm 2), SetTo ''summary'' (Qm 3),
      SetTo ''status'' (Qm 4), SetTo ''author_name'' (Qm 5), SetTo ''updated_at'' (Qm 6)]
     (Eq ''id'' (Qm 7))"

definition sql_blog_soft_delete :: stmt where
  "sql_blog_soft_delete = Update ''blogs''
     [SetTo ''status'' (Qm 1), SetTo ''updated_at'' (Qm 2)] (Eq ''id'' (Qm 3))"

definition sql_blog_delete :: stmt where
  "sql_blog_delete = Delete ''blogs'' (Eq ''id'' (Qm 1))"

definition sql_blog_view_count :: stmt where
  "sql_blog_view_count = Update ''blogs''
     [SetTo ''view_count'' (Qm 1), SetTo ''updated_at'' (Qm 2)] (Eq ''id'' (Qm 3))"

definition sql_blog_increase :: stmt where
  "sql_blog_increase = Update ''blogs''
     [Increment ''view_count'' 1, SetTo ''updated_at'' (Qm 1)] (Eq ''id'' (Qm 2))"

definition sql_blog_publish :: stmt where
  "sql_blog_publish = Update ''blogs''
     [SetTo ''status'' (Qm 1), SetTo ''published_at'' (Qm 2), SetTo ''updated_at'' (Qm 3)]
     (Eq ''id'' (Qm 4))"

definition sql_blog_search :: stmt where
  "sql_blog_search = Select (Cols blog_columns) ''blogs''
     (Some (AndC (Eq ''status'' (Qm 1)) (OrC (LikeC ''title'' (Qm 2)) (LikeC ''content'' (Qm 3)))))
     (Some (Desc ''published_at'')) (Some (LimitOffset (Qm 4) (Qm 5)))"

definition sql_blog_stats :: stmt where
  "sql_blog_stats = Select
     (Aggs [(CountAll, Some ''total_blogs''), (SumCase ''status'' (Qm 1), Some ''published_blogs''),
        (SumCol ''view_count'', Some ''total_views'')])
     ''blogs'' (Some (AndC (Eq ''author_id'' (Qm 2)) (Ne ''status'' (Qm 3)))) None None"

definition sql_blog_select :: "cond option \<Rightarrow> order option \<Rightarrow> int \<Rightarrow> stmt" where
  "sql_blog_select condition order_by limit =
     Select (Cols blog_columns) ''blogs'' condition order_by
       (if limit > 0 then Some (Limit (Num limit)) else None)"

text \<open>The texts of the sources, with the question marks numbered from left to right.\<close>

lemma blog_statement_texts:
  "render sql_blog_insert = ''INSERT INTO blogs (title, content, summary, author_id, author_name, '' @
     ''status, view_count, created_at, updated_at, published_at) '' @
     ''VALUES (?, ?, ?, ?, ?, ?, ?, ?, ?, ?)''"
  "render sql_blog_find = ''SELECT id, title, content, summary, author_id, author_name, status, '' @
     ''view_count, created_at, updated_at, published_at '' @
     ''FROM blogs WHERE id = ? AND status != ?''"
  "render sql_blog_update = ''UPDATE blogs SET title = ?, content = ?, summary = ?, status = ?, '' @
     ''author_name = ?, updated_at = ? WHERE id = ?''"
  "render sql_blog_soft_delete = ''UPDATE blogs SET status = ?, updated_at = ? WHERE id = ?''"
  "render sql_blog_delete = ''DELETE FROM blogs WHERE id = ?''"
  "render sql_blog_view_count = ''UPDATE blogs SET view_count = ?, updated_at = ? WHERE id = ?''"
  "render sql_blog_increase = ''UPDATE blogs SET view_count = view_count + 1, updated_at = ? WHERE id = ?''"
  "render sql_blog_publish = ''UPDATE blogs SET status = ?, published_at = ?, updated_at = ? WHERE id = ?''"
  "render sql_blog_search = ''SELECT id, title, content, summary, author_id, author_name, status, '' @
     ''view_count, created_at, updated_at, published_at '' @
     ''FROM blogs WHERE status = ? AND (title LIKE ? OR content LIKE ?) '' @
     ''ORDER BY published_at DESC LIMIT ? OFFSET ?''"
  "render sql_blog_stats = ''SELECT COUNT(*) as total_blogs, '' @
     ''SUM(CASE WHEN status = ? THEN 1 ELSE 0 END) as published_blogs, '' @
     ''SUM(view_count) as total_views '' @
     ''FROM blogs WHERE author_id = ? AND status != ?''"
  by (simp_all add: sql_blog_insert_def sql_blog_find_def sql_blog_update_def
      sql_blog_soft_delete_def sql_blog_delete_def sql_blog_view_count_def sql_blog_increase_def
      sql_blog_publish_def sql_blog_search_def sql_blog_stats_def blog_columns_def
      show_int_def show_nat.simps digit_char_def numeral_2_eq_2 [symmetric])

lemma blog_statement_numbering:
  "list_all (\<lambda>s. qms s = [1..<Suc (length (qms s))])
     [sql_blog_insert, sql_blog_find, sql_blog_update, sql_blog_soft_delete, sql_blog_delete,
      sql_blog_view_count, sql_blog_increase, sql_blog_publish, sql_blog_search, sql_blog_stats]"
  by (simp add: sql_blog_insert_def sql_blog_find_def sql_blog_update_def upt_rec
      sql_blog_soft_delete_def sql_blog_delete_def sql_blog_view_count_def sql_blog_increase_def
      sql_blog_publish_def sql_blog_search_def sql_blog_stats_def)

section \<open>Operations\<close>

definition blog_isEntityEmpty :: "blog \<Rightarrow> bool" where
  "blog_isEntityEmpty b \<longleftrightarrow> b_id b = 0"

definition buildBlogFromRow :: "('h, 'w) driver \<Rightarrow> mysql_row \<Rightarrow> blog" where
  "buildBlogFromRow D row =
     (let b = new_blog\<lparr>b_id := row_getInt64 D row ''id'',
          b_title := row_getString D row ''title'',
          b_content := row_getString D row ''content'',
          b_summary := row_getString D row ''summary'',
          b_author_id := row_getInt64 D row ''author_id'',
          b_author_name := row_getString D row ''author_name'',
          b_status := row_getInt32 D row ''status'',
          b_view_count := row_getInt32 D row ''view_count'',
          b_created_at := row_getInt64 D row ''created_at'',
          b_updated_at := row_getInt64 D row ''updated_at''\<rparr>
      in if \<not> row_isNull D row ''published_at''
         then b\<lparr>b_published_at := row_getInt64 D row ''published_at''\<rparr> else b)"

definition blog_extractEntityFromResult :: "('h, 'w) driver \<Rightarrow> mysql_result \<Rightarrow> blog" where
  "blog_extractEntityFromResult D res =
     (case res of None \<Rightarrow> new_blog | Some _ \<Rightarrow> buildBlogFromRow D (result_getRow res))"

definition blog_extractEntities :: "('h, 'w) driver \<Rightarrow> mysql_result \<Rightarrow> blog list" where
  "blog_extractEntities D = extractEntitiesFromResult D (buildBlogFromRow D) blog_isEntityEmpty"

definition blog_stamped :: "int \<Rightarrow> blog \<Rightarrow> blog" where
  "blog_stamped now b =
     (let b = b\<lparr>b_created_at := now, b_updated_at := now\<rparr>
      in if b_status b = STATUS_PUBLISHED \<and> b_published_at b = 0
         then b\<lparr>b_published_at := now\<rparr> else b)"

definition blog_insert_bindings :: "blog \<Rightarrow> binding list" where
  "blog_insert_bindings b =
     [BString 1 (b_title b), BString 2 (b_content b), BString 3 (b_summary b),
      BInt64 4 (b_author_id b), BString 5 (b_author_name b), BInt32 6 (b_status b),
      BInt32 7 (b_view_count b), BInt64 8 (b_created_at b), BInt64 9 (b_updated_at b),
      if b_published_at b > 0 then BInt64 10 (b_published_at b) else BNull 10]"

definition BlogDao_create ::
    "('h, 'w) driver \<Rightarrow> 'h mysql_connection option \<Rightarrow> int \<Rightarrow> blog \<Rightarrow> 'w \<Rightarrow> bool \<times> blog \<times> 'w" where
  "BlogDao_create D c now b w =
     (let b' = blog_stamped now b in
      case run_insert D c sql_blog_insert (blog_insert_bindings b') w of
        ((prepared, ok, i), w') \<Rightarrow>
          (ok, if ok then b'\<lparr>b_id := i\<rparr> else if prepared then b' else b, w'))"

definition BlogDao_findById ::
    "('h, 'w) driver \<Rightarrow> 'h mysql_connection option \<Rightarrow> int \<Rightarrow> 'w \<Rightarrow> blog \<times> 'w" where
  "BlogDao_findById D c i w =
     (case valid_query D c sql_blog_find [BInt64 1 i, BInt32 2 STATUS_DELETED] w of
        (res, w') \<Rightarrow> (first_entity D (buildBlogFromRow D) new_blog res, w'))"

definition BlogDao_update ::
    "('h, 'w) driver \<Rightarrow> 'h mysql_connection option \<Rightarrow> int \<Rightarrow> blog \<Rightarrow> 'w \<Rightarrow> bool \<times> 'w" where
  "BlogDao_update D c now b w =
     run_update D c sql_blog_update
       [BString 1 (b_title b), BString 2 (b_content b), BString 3 (b_summary b),
        BInt32 4 (b_status b), BString 5 (b_author_name b), BInt64 6 now, BInt64 7 (b_id b)] w"

definition BlogDao_remove ::
    "('h, 'w) driver \<Rightarrow> 'h mysql_connection option \<Rightarrow> int \<Rightarrow> int \<Rightarrow> bool \<Rightarrow> 'w \<Rightarrow> bool \<times> 'w" where
  "BlogDao_remove D c now i soft_delete w =
     (if soft_delete then
        run_update D c sql_blog_soft_delete [BInt32 1 STATUS_DELETED, BInt64 2 now, BInt64 3 i] w
      else run_update D c sql_blog_delete [BInt64 1 i] w)"

definition BlogDao_findByCondition ::
    "('h, 'w) driver \<Rightarrow> 'h mysql_connection option \<Rightarrow> cond option \<Rightarrow> order option \<Rightarrow> int \<Rightarrow> 'w \<Rightarrow>
     blog list \<times> 'w" where
  "BlogDao_findByCondition D c condition order_by limit w =
     (case dao_executeQuery D c (sql_blog_select condition order_by limit) w of
        (res, w') \<Rightarrow> (blog_extractEntities D res, w'))"

text \<open>\<^verbatim>\<open>order_by.empty() ? "created_at DESC" : order_by\<close>\<close>

definition order_or_created :: "order option \<Rightarrow> order option" where
  "order_or_created order_by = (case order_by of None \<Rightarrow> Some (Desc ''created_at'') | o' \<Rightarrow> o')"

definition BlogDao_findAll ::
    "('h, 'w) driver \<Rightarrow> 'h mysql_connection option \<Rightarrow> order option \<Rightarrow> 'w \<Rightarrow> blog list \<times> 'w" where
  "BlogDao_findAll D c order_by =
     BlogDao_findByCondition D c (Some (Ne ''status'' (Num STATUS_DELETED))) (order_or_created order_by) 0"

definition BlogDao_findPage ::
    "('h, 'w) driver \<Rightarrow> 'h mysql_connection option \<Rightarrow> int \<Rightarrow> int \<Rightarrow> cond option \<Rightarrow> order option \<Rightarrow>
     'w \<Rightarrow> blog list res \<times> 'w" where
  "BlogDao_findPage D c page page_size condition order_by w =
     (let actual_condition = (case condition of None \<Rightarrow> Ne ''status'' (Num STATUS_DELETED) | Some x \<Rightarrow> x)
      in case buildPaginationSQL ''blogs'' page page_size (Some actual_condition) (order_or_created order_by) of
           Inl e \<Rightarrow> (Inl e, w)
         | Inr sql \<Rightarrow>
             (case dao_executeQuery D c sql w of
                (res, w') \<Rightarrow> (Inr (blog_extractEntities D res), w')))"

definition BlogDao_count ::
    "('h, 'w) driver \<Rightarrow> 'h mysql_connection option \<Rightarrow> cond option \<Rightarrow> 'w \<Rightarrow> int \<times> 'w" where
  "BlogDao_count D c condition w =
     (case dao_executeQuery D c (buildCountSQL ''blogs'' condition) w of
        (res, w') \<Rightarrow> (first_count D res, w'))"

definition BlogDao_findByAuthor ::
    "('h, 'w) driver \<Rightarrow> 'h mysql_connection option \<Rightarrow> int \<Rightarrow> bool \<Rightarrow> 'w \<Rightarrow> blog list \<times> 'w" where
  "BlogDao_findByAuthor D c author_id include_deleted =
     (let condition = Eq ''author_id'' (Num author_id);
          condition = (if \<not> include_deleted
            then AndC condition (Ne ''status'' (Num STATUS_DELETED)) else condition)
      in BlogDao_findByCondition D c (Some condition) (Some (Desc ''created_at'')) 0)"

definition BlogDao_findByStatus ::
    "('h, 'w) driver \<Rightarrow> 'h mysql_connection option \<Rightarrow> int \<Rightarrow> 'w \<Rightarrow> blog list \<times> 'w" where
  "BlogDao_findByStatus D c status =
     BlogDao_findByCondition D c (Some (Eq ''status'' (Num status))) (Some (Desc ''created_at'')) 0"

definition BlogDao_findPublished ::
    "('h, 'w) driver \<Rightarrow> 'h mysql_connection option \<Rightarrow> int \<Rightarrow> int \<Rightarrow> 'w \<Rightarrow> blog list res \<times> 'w" where
  "BlogDao_findPublished D c page page_size =
     BlogDao_findPage D c page page_size (Some (Eq ''status'' (Num STATUS_PUBLISHED)))
       (Some (Desc ''published_at''))"

definition BlogDao_updateViewCount ::
    "('h, 'w) driver \<Rightarrow> 'h mysql_connection option \<Rightarrow> int \<Rightarrow> int \<Rightarrow> int \<Rightarrow> 'w \<Rightarrow> bool \<times> 'w" where
  "BlogDao_updateViewCount D c now blog_id new_count =
     run_update D c sql_blog_view_count [BInt32 1 new_count, BInt64 2 now, BInt64 3 blog_id]"

definition BlogDao_increaseViewCount ::
    "('h, 'w) driver \<Rightarrow> 'h mysql_connection option \<Rightarrow> int \<Rightarrow> int \<Rightarrow> 'w \<Rightarrow> bool \<times> 'w" where
  "BlogDao_increaseViewCount D c now blog_id =
     run_update D c sql_blog_increase [BInt64 1 now, BInt64 2 blog_id]"

definition BlogDao_publishBlog ::
    "('h, 'w) driver \<Rightarrow> 'h mysql_connection option \<Rightarrow> int \<Rightarrow> int \<Rightarrow> 'w \<Rightarrow> bool \<times> 'w" where
  "BlogDao_publishBlog D c now blog_id =
     run_update D c sql_blog_publish
       [BInt32 1 STATUS_PUBLISHED, BInt64 2 now, BInt64 3 now, BInt64 4 blog_id]"

text \<open>
  The search does not test the connection: without one, \<^verbatim>\<open>connection_->prepareStatement\<close>
  dereferences a null pointer. The offset is computed after the statement is prepared.
\<close>

definition BlogDao_search ::
    "('h, 'w) driver \<Rightarrow> 'h mysql_connection option \<Rightarrow> string \<Rightarrow> int \<Rightarrow> int \<Rightarrow> 'w \<Rightarrow>
     blog list res \<times> 'w" where
  "BlogDao_search D c keyword page page_size w =
     (if keyword = [] then BlogDao_findPublished D c page page_size w
      else case c of None \<Rightarrow> (Inl UndefinedBehaviour, w) | Some mc \<Rightarrow>
        (case conn_prepareStatement D mc sql_blog_search w of
           None \<Rightarrow> (Inr [], w)
         | Some stm \<Rightarrow>
             (let like_keyword = ''%'' @ keyword @ ''%'' in
              case page_offset page page_size of
                Inl e \<Rightarrow> (Inl e, w)
              | Inr off \<Rightarrow>
                  (case run_query D mc sql_blog_search
                      [BInt32 1 STATUS_PUBLISHED, BString 2 like_keyword, BString 3 like_keyword,
                       BInt32 4 page_size, BInt32 5 off] w of
                     (res, w') \<Rightarrow> (Inr (blog_extractEntities D res), w')))))"

definition BlogDao_findPopular ::
    "('h, 'w) driver \<Rightarrow> 'h mysql_connection option \<Rightarrow> int \<Rightarrow> 'w \<Rightarrow> blog list \<times> 'w" where
  "BlogDao_findPopular D c limit =
     BlogDao_findByCondition D c (Some (Eq ''status'' (Num STATUS_PUBLISHED)))
       (Some (Desc ''view_count'')) limit"

definition BlogDao_getAuthorStats ::
    "('h, 'w) driver \<Rightarrow> 'h mysql_connection option \<Rightarrow> int \<Rightarrow> 'w \<Rightarrow> (string \<times> int) list \<times> 'w" where
  "BlogDao_getAuthorStats D c author_id w =
     (case valid_query D c sql_blog_stats
         [BInt32 1 STATUS_PUBLISHED, BInt64 2 author_id, BInt32 3 STATUS_DELETED] w of
        (res, w') \<Rightarrow>
          (case result_next D res of
             (False, res') \<Rightarrow> ([], w')
           | (True, res') \<Rightarrow>
               (let row = result_getRow res' in
                ([(''published_blogs'', row_getInt64 D row ''published_blogs''),
                  (''total_blogs'', row_getInt64 D row ''total_blogs''),
                  (''total_views'', row_getInt64 D row ''total_views'')], w'))))"

section \<open>The table of blogs\<close>

definition blog_of_row :: "sqlrow \<Rightarrow> blog" where
  "blog_of_row r =
     \<lparr>b_id = row_id r, b_title = sql_str (col r ''title''), b_content = sql_str (col r ''content''),
      b_summary = sql_str (col r ''summary''), b_author_id = sql_int (col r ''author_id''),
      b_author_name = sql_str (col r ''author_name''), b_status = sql_int (col r ''status''),
      b_view_count = sql_int (col r ''view_count''), b_created_at = sql_int (col r ''created_at''),
      b_updated_at = sql_int (col r ''updated_at''), b_published_at = sql_int (col r ''published_at'')\<rparr>"

definition stored_blogs :: "db \<Rightarrow> blog list" where
  "stored_blogs d = map blog_of_row (d ''blogs'')"

definition live_blog :: "blog \<Rightarrow> bool" where
  "live_blog b \<longleftrightarrow> b_status b \<noteq> STATUS_DELETED"

lemma blog_row_okD:
  assumes "blog_row_ok r"
  shows "key_col r" "has_columns blog_columns r"
    "str_col r ''title''" "str_col r ''content''" "str_col r ''summary''" "str_col r ''author_name''"
    "num_col in_i64 r ''author_id''" "num_col in_i64 r ''created_at''"
    "num_col in_i64 r ''updated_at''" "int_col in_i64 r ''published_at''"
    "num_col in_i32 r ''status''" "num_col in_i32 r ''view_count''"
  using assms by (simp_all add: blog_row_ok_def)

lemma blog_row_map_of:
  "blog_row_ok r \<Longrightarrow> c \<in> set blog_columns \<Longrightarrow> map_of r c = Some (col r c)"
  by (rule has_columnsD [OF blog_row_okD(2)])

lemma buildBlogFromRow_row:
  assumes g: "getter_law D" and ok: "blog_row_ok r"
  shows "buildBlogFromRow D (Some r) = blog_of_row r"
proof -
  note m = blog_row_map_of [OF ok, unfolded blog_columns_def]
  note get = row_getters [OF g m]
  show ?thesis
    by (simp add: buildBlogFromRow_def blog_of_row_def row_id_def new_blog_def get Let_def
        blog_row_okD(3-6,10) [OF ok] num_int_col [OF blog_row_okD(7) [OF ok]] key_int_col [OF blog_row_okD(1) [OF ok]]
        num_int_col [OF blog_row_okD(8) [OF ok]] num_int_col [OF blog_row_okD(9) [OF ok]]
        num_int_col [OF blog_row_okD(11) [OF ok]] num_int_col [OF blog_row_okD(12) [OF ok]])
qed

lemma blog_row_ok_project: "blog_row_ok r \<Longrightarrow> blog_row_ok (project blog_columns r)"
  by (simp add: blog_row_ok_def has_columns_project key_col_def str_col_def int_col_def num_col_def
      col_project blog_columns_def)

lemma blog_of_row_project: "blog_of_row (project blog_columns r) = blog_of_row r"
  by (simp add: blog_of_row_def row_id_def col_project blog_columns_def)

lemma db_ok_blog_row: "db_ok d \<Longrightarrow> r \<in> set (d ''blogs'') \<Longrightarrow> blog_row_ok r"
  by (simp add: db_ok_def rows_ok_def list_all_iff)

lemma db_ok_blog_ids: "db_ok d \<Longrightarrow> distinct (map b_id (stored_blogs d))"
  by (simp add: db_ok_def rows_ok_def stored_blogs_def blog_of_row_def comp_def)

lemma b_id_blog_of_row [simp]: "b_id (blog_of_row r) = row_id r"
  by (simp add: blog_of_row_def)

lemma stored_blog_id_pos: "db_ok d \<Longrightarrow> b \<in> set (stored_blogs d) \<Longrightarrow> 0 < b_id b"
  using db_ok_blog_row key_col_row_id blog_row_okD(1) by (fastforce simp: stored_blogs_def)

lemma b_status_blog_of_row:
  "blog_row_ok r \<Longrightarrow> col r ''status'' = SInt (b_status (blog_of_row r))"
  using num_col_value [OF blog_row_okD(11)] by (simp add: blog_of_row_def)

subsection \<open>Updates\<close>

definition on_blog :: "int \<Rightarrow> (blog \<Rightarrow> blog) \<Rightarrow> blog list \<Rightarrow> blog list" where
  "on_blog i f bs = map (\<lambda>b. if b_id b = i then f b else b) bs"

text \<open>
  An update of the row with key \<open>i\<close> whose assignments act on the entity as \<open>f\<close>: it is \<open>on_blog i f\<close>
  on the stored blogs, or nothing.
\<close>

definition update_outcome :: "int \<Rightarrow> (blog \<Rightarrow> blog) \<Rightarrow> bool \<Rightarrow> db \<Rightarrow> db \<Rightarrow> bool" where
  "update_outcome i f b d d' \<longleftrightarrow>
     db_ok d' \<and> d' ''users'' = d ''users'' \<and>
     (stored_blogs d' = stored_blogs d \<or>
      b \<and> i \<in> b_id ` set (stored_blogs d) \<and> stored_blogs d' = on_blog i f (stored_blogs d))"

lemma blog_run_update:
  assumes laws: "mysql_laws D view" and ok: "db_ok (view w)"
    and run: "run_update D c (Update ''blogs'' sets (Eq ''id'' (Qm k))) bs w = (b, w')"
    and k: "params_of bs k = Some (SInt i)"
    and f: "\<And>r. blog_row_ok r \<Longrightarrow> blog_of_row (assigned (params_of bs) sets r) = f (blog_of_row r)"
  shows "update_outcome i f b (view w) (view w')"
proof -
  let ?ps = "params_of bs"
  have row: "holds D ?ps r (Eq ''id'' (Qm k)) \<longleftrightarrow> row_id r = i" if "r \<in> set (view w ''blogs'')" for r
    using row_id_eq [where ps = ?ps and k = k, OF laws blog_row_okD(1) [OF db_ok_blog_row [OF ok that]] k] .
  have step: "blog_of_row (upd_row D ?ps sets (Eq ''id'' (Qm k)) r) =
      (if b_id (blog_of_row r) = i then f (blog_of_row r) else blog_of_row r)"
    if "r \<in> set (view w ''blogs'')" for r
    unfolding upd_row_def row [OF that] using f [OF db_ok_blog_row [OF ok that]] by simp
  have "stored_blogs (updated D ''blogs'' sets (Eq ''id'' (Qm k)) ?ps (view w)) =
      on_blog i f (stored_blogs (view w))"
    by (simp add: stored_blogs_def updated_def on_blog_def step)
  moreover have "i \<in> b_id ` set (stored_blogs (view w))"
    if "r \<in> set (view w ''blogs'')" "holds D ?ps r (Eq ''id'' (Qm k))" for r
    using that row [OF that(1)] by (force simp: stored_blogs_def)
  ultimately show ?thesis
    using run_update_Update [OF laws run] run_update_db_ok [OF laws ok run]
    unfolding update_outcome_def by (auto simp: updated_def)
qed

end
