(* ===== verification/BlogDaoSpec.thy ===== *)
theory BlogDaoSpec
  imports BlogDao
begin

text \<open>
  What the operations of \<open>BlogDao\<close> do to the table of blogs: each refines an operation on the list
  \<open>stored_blogs\<close> of entities, or fails and leaves it. The entity DAO contract of the base class
  is discharged here.
\<close>

section \<open>Writing\<close>

definition blog_written :: "int \<Rightarrow> blog \<Rightarrow> blog \<Rightarrow> blog" where
  "blog_written now b old =
     old\<lparr>b_title := b_title b, b_content := b_content b, b_summary := b_summary b,
       b_status := b_status b, b_author_name := b_author_name b, b_updated_at := now\<rparr>"

lemma BlogDao_update_outcome:
  assumes "mysql_laws D view" "db_ok (view w)" "BlogDao_update D c now b w = (ok, w')"
  shows "update_outcome (b_id b) (blog_written now b) ok (view w) (view w')"
  using assms(3) unfolding BlogDao_update_def sql_blog_update_def
  by (rule blog_run_update [OF assms(1,2)])
     (simp_all add: params_of_def assigned_def blog_of_row_def row_id_def blog_written_def)

lemma BlogDao_soft_delete_outcome:
  assumes "mysql_laws D view" "db_ok (view w)" "BlogDao_remove D c now i True w = (ok, w')"
  shows "update_outcome i (blog_softDelete now) ok (view w) (view w')"
  using assms(3) unfolding BlogDao_remove_def sql_blog_soft_delete_def if_True
  by (rule blog_run_update [OF assms(1,2)])
     (simp_all add: params_of_def assigned_def blog_of_row_def row_id_def blog_softDelete_def)

lemma BlogDao_updateViewCount_outcome:
  assumes "mysql_laws D view" "db_ok (view w)" "BlogDao_updateViewCount D c now i n w = (ok, w')"
  shows "update_outcome i (\<lambda>b. b\<lparr>b_view_count := n, b_updated_at := now\<rparr>) ok (view w) (view w')"
  using assms(3) unfolding BlogDao_updateViewCount_def sql_blog_view_count_def
  by (rule blog_run_update [OF assms(1,2)])
     (simp_all add: params_of_def assigned_def blog_of_row_def row_id_def)

lemma BlogDao_increaseViewCount_outcome:
  assumes "mysql_laws D view" "db_ok (view w)" "BlogDao_increaseViewCount D c now i w = (ok, w')"
  shows "update_outcome i (\<lambda>b. b\<lparr>b_view_count := b_view_count b + 1, b_updated_at := now\<rparr>) ok
    (view w) (view w')"
  using assms(3) unfolding BlogDao_increaseViewCount_def sql_blog_increase_def
proof (rule blog_run_update [OF assms(1,2)])
  fix r assume "blog_row_ok r"
  then obtain n where "col r ''view_count'' = SInt n"
    using num_col_value [OF blog_row_okD(12)] by blast
  then show "blog_of_row (assigned (params_of [BInt64 1 now, BInt64 2 i])
        [Increment ''view_count'' 1, SetTo ''updated_at'' (Qm 1)] r) =
      (blog_of_row r)\<lparr>b_view_count := b_view_count (blog_of_row r) + 1, b_updated_at := now\<rparr>"
    by (simp add: params_of_def assigned_def blog_of_row_def row_id_def)
qed (simp add: params_of_def)

lemma BlogDao_publishBlog_outcome:
  assumes "mysql_laws D view" "db_ok (view w)" "BlogDao_publishBlog D c now i w = (ok, w')"
  shows "update_outcome i (blog_publish now) ok (view w) (view w')"
  using assms(3) unfolding BlogDao_publishBlog_def sql_blog_publish_def
  by (rule blog_run_update [OF assms(1,2)])
     (simp_all add: params_of_def assigned_def blog_of_row_def row_id_def blog_publish_def)

lemma BlogDao_hard_delete_outcome:
  assumes laws: "mysql_laws D view" and ok: "db_ok (view w)"
    and run: "BlogDao_remove D c now i False w = (b, w')"
  shows "db_ok (view w') \<and> view w' ''users'' = view w ''users'' \<and>
    (stored_blogs (view w') = stored_blogs (view w) \<or>
     b \<and> i \<in> b_id ` set (stored_blogs (view w)) \<and>
     stored_blogs (view w') = filter (\<lambda>x. b_id x \<noteq> i) (stored_blogs (view w)))"
proof -
  let ?ps = "params_of [BInt64 1 i]"
  have run': "run_update D c (Delete ''blogs'' (Eq ''id'' (Qm 1))) [BInt64 1 i] w = (b, w')"
    using run by (simp add: BlogDao_remove_def sql_blog_delete_def)
  have row: "holds D ?ps r (Eq ''id'' (Qm 1)) \<longleftrightarrow> row_id r = i" if "r \<in> set (view w ''blogs'')" for r
    by (rule row_id_eq [OF laws blog_row_okD(1) [OF db_ok_blog_row [OF ok that]]])
       (simp add: params_of_def)
  have eq: "stored_blogs (deleted D ''blogs'' (Eq ''id'' (Qm 1)) ?ps (view w)) =
      filter (\<lambda>x. b_id x \<noteq> i) (stored_blogs (view w))"
    unfolding stored_blogs_def deleted_def filter_map fun_upd_same
    by (rule arg_cong [where f = "map blog_of_row"], rule filter_cong)
       (simp_all add: row [unfolded One_nat_def] del: holds.simps)
  have "i \<in> b_id ` set (stored_blogs (view w))"
    if "r \<in> set (view w ''blogs'')" "holds D ?ps r (Eq ''id'' (Qm 1))" for r
    using that row [OF that(1)] by (force simp: stored_blogs_def)
  then show ?thesis
    using run_update_Delete [OF laws run'] run_update_db_ok [OF laws ok run'] eq
    by (auto simp: deleted_def)
qed

lemma BlogDao_create_outcome:
  assumes laws: "mysql_laws D view" and ok: "db_ok (view w)"
    and run: "BlogDao_create D c now b w = (success, b', w')"
  shows "db_ok (view w') \<and> view w' ''users'' = view w ''users'' \<and>
    (if success then
       (\<exists>i. stored_blogs (view w') = stored_blogs (view w) @
            [(blog_stamped now b)\<lparr>b_id := i, b_published_at := max 0 (b_published_at (blog_stamped now b))\<rparr>] \<and>
          i \<notin> b_id ` set (stored_blogs (view w)) \<and> 0 < i \<and>
          (b' = (blog_stamped now b)\<lparr>b_id := i\<rparr> \<or> b' = (blog_stamped now b)\<lparr>b_id := 0\<rparr>))
     else stored_blogs (view w') = stored_blogs (view w))"
proof -
  let ?b = "blog_stamped now b"
  obtain prepared i where ins: "run_insert D c sql_blog_insert (blog_insert_bindings ?b) w =
      ((prepared, success, i), w')" and b': "success \<Longrightarrow> b' = ?b\<lparr>b_id := i\<rparr>"
    using run by (auto simp: BlogDao_create_def Let_def split: prod.splits if_splits)
  have ok': "db_ok (view w')" by (rule run_insert_db_ok [OF laws ok ins])
  let ?cols = "[''title'', ''content'', ''summary'', ''author_id'', ''author_name'', ''status'',
    ''view_count'', ''created_at'', ''updated_at'', ''published_at'']"
  note out = run_insert_Insert [OF laws ins [unfolded sql_blog_insert_def]]
  show ?thesis
  proof (cases success)
    case False
    with out ok' show ?thesis by simp
  next
    case True
    with out obtain r where r: "view w' = (view w)(''blogs'' := view w ''blogs'' @ [r])" "key_col r"
      "row_id r \<notin> row_id ` set (view w ''blogs'')" "i = 0 \<or> i = row_id r"
      and cols: "map (col r) ?cols =
        map (\<lambda>k. eval (params_of (blog_insert_bindings ?b)) (Qm k)) [1..<Suc (length ?cols)]"
      by blast
    have "blog_of_row r = ?b\<lparr>b_id := row_id r, b_published_at := max 0 (b_published_at ?b)\<rparr>"
      using cols by (simp add: blog_of_row_def params_of_def blog_insert_bindings_def upt_rec
          split: if_splits)
    then have "stored_blogs (view w') = stored_blogs (view w) @
        [?b\<lparr>b_id := row_id r, b_published_at := max 0 (b_published_at ?b)\<rparr>]"
      using r(1) by (simp add: stored_blogs_def)
    moreover have "row_id r \<notin> b_id ` set (stored_blogs (view w))"
      using r(3) by (simp add: stored_blogs_def image_image)
    ultimately show ?thesis
      using r True ok' b' key_col_row_id [OF r(2)] by (auto intro!: exI [of _ "row_id r"])
  qed
qed

section \<open>Reading\<close>

lemma blog_row_entity:
  assumes "getter_law D" "db_ok d" "r \<in> set (d ''blogs'')"
  shows "buildBlogFromRow D (Some (project blog_columns r)) = blog_of_row r \<and>
    buildBlogFromRow D (Some r) = blog_of_row r \<and> \<not> blog_isEntityEmpty (blog_of_row r)"
proof -
  have ok: "blog_row_ok r" by (rule db_ok_blog_row [OF assms(2,3)])
  have "0 < row_id r" using key_col_row_id [OF blog_row_okD(1) [OF ok]] by blast
  with ok show ?thesis
    using buildBlogFromRow_row [OF assms(1)] blog_row_ok_project
    by (simp add: blog_of_row_project blog_isEntityEmpty_def)
qed

lemma BlogDao_findById_outcome:
  assumes laws: "mysql_laws D view" and ok: "db_ok (view w)"
    and run: "BlogDao_findById D c i w = (b, w')"
  shows "view w' = view w \<and>
    (b = new_blog \<or> b \<in> set (stored_blogs (view w)) \<and> b_id b = i \<and> live_blog b)"
proof -
  let ?ps = "params_of [BInt64 1 i, BInt32 2 STATUS_DELETED]"
  let ?c = "AndC (Eq ''id'' (Qm 1)) (Ne ''status'' (Qm 2))"
  note g = mysql_lawsD(7) [OF laws]
  obtain res where q: "valid_query D c sql_blog_find [BInt64 1 i, BInt32 2 STATUS_DELETED] w = (res, w')"
    and b: "b = first_entity D (buildBlogFromRow D) new_blog res"
    using run by (auto simp: BlogDao_findById_def split: prod.splits)
  note out = valid_query_Select [OF laws q [unfolded sql_blog_find_def]]
  have P: "row_id r = i \<and> live_blog (blog_of_row r)"
    if "r \<in> set (view w ''blogs'')" "holds D ?ps r ?c" for r
    using that drv_eq_simps [OF laws] key_col_row_id [OF blog_row_okD(1) [OF db_ok_blog_row [OF ok that(1)]]]
      b_status_blog_of_row [OF db_ok_blog_row [OF ok that(1)]]
    by (auto simp: params_of_def live_blog_def)
  show ?thesis
  proof (cases "res = None \<or> (\<exists>cur. res = Some (cur, []))")
    case True
    with out b show ?thesis by (auto simp: first_entity_simps [OF g])
  next
    case False
    with out obtain r0 rs where res: "res = Some (None, r0 # rs)"
      and sel: "select_result D ?ps (Cols blog_columns) (Some ?c) None None (view w ''blogs'') (r0 # rs)"
      by (metis list.exhaust)
    from sel obtain xs where xs: "mset xs = mset (filter (holds_opt D ?ps (Some ?c)) (view w ''blogs''))"
      and o': "r0 # rs = out_rows D ?ps (Cols blog_columns) None xs"
      unfolding select_result_def by (elim exE conjE)
    from o' have o: "r0 # rs = map (project blog_columns) xs" by simp
    obtain r ys where r: "xs = r # ys" "r0 = project blog_columns r" using o by (cases xs) auto
    then have "r \<in> set (filter (holds_opt D ?ps (Some ?c)) (view w ''blogs''))"
      using xs by (metis list.set_intros(1) mset_eq_setD)
    then have in_r: "r \<in> set (view w ''blogs'')" "holds D ?ps r ?c" by auto
    then have "b = blog_of_row r"
      using b res r blog_row_entity [OF g ok in_r(1)] by (simp add: first_entity_simps [OF g])
    with out P [OF in_r] in_r(1) show ?thesis by (auto simp: stored_blogs_def)
  qed
qed

text \<open>The orders the finders ask for, newest or most viewed first; a blog that was never published has
  publication time 0 and comes last.\<close>

definition by_created :: "blog \<Rightarrow> blog \<Rightarrow> bool" where
  "by_created a b \<longleftrightarrow> b_created_at b \<le> b_created_at a"

definition by_published :: "blog \<Rightarrow> blog \<Rightarrow> bool" where
  "by_published a b \<longleftrightarrow> b_published_at b = 0 \<or> b_published_at b \<le> b_published_at a"

definition by_views :: "blog \<Rightarrow> blog \<Rightarrow> bool" where
  "by_views a b \<longleftrightarrow> b_view_count b \<le> b_view_count a"

lemma blog_orders:
  assumes "db_ok d" "r \<in> set (d ''blogs'')" "s \<in> set (d ''blogs'')"
  shows "sql_le (col s ''created_at'') (col r ''created_at'') \<Longrightarrow> by_created (blog_of_row r) (blog_of_row s)"
    and "sql_le (col s ''published_at'') (col r ''published_at'') \<Longrightarrow> by_published (blog_of_row r) (blog_of_row s)"
    and "sql_le (col s ''view_count'') (col r ''view_count'') \<Longrightarrow> by_views (blog_of_row r) (blog_of_row s)"
  using blog_row_okD(8,10,12) [OF db_ok_blog_row [OF assms(1,2)]]
    blog_row_okD(8,10,12) [OF db_ok_blog_row [OF assms(1,3)]]
  by (auto simp: by_created_def by_published_def by_views_def blog_of_row_def num_col_def int_col_def
      split: sqlval.splits)

text \<open>The conditions, read on entities.\<close>

lemma blog_conditions:
  assumes laws: "mysql_laws D view" and ok: "db_ok d" and r: "r \<in> set (d ''blogs'')"
  shows "holds D ps r (Eq ''status'' (Num n)) \<longleftrightarrow> b_status (blog_of_row r) = n"
    and "holds D ps r (Ne ''status'' (Num n)) \<longleftrightarrow> b_status (blog_of_row r) \<noteq> n"
    and "holds D ps r (Eq ''author_id'' (Num n)) \<longleftrightarrow> b_author_id (blog_of_row r) = n"
    and "ps k = Some (SInt n) \<Longrightarrow> holds D ps r (Eq ''status'' (Qm k)) \<longleftrightarrow> b_status (blog_of_row r) = n"
    and "ps k = Some v \<Longrightarrow> holds D ps r (LikeC ''title'' (Qm k)) \<longleftrightarrow> drv_like D (SStr (b_title (blog_of_row r))) v"
    and "ps k = Some v \<Longrightarrow> holds D ps r (LikeC ''content'' (Qm k)) \<longleftrightarrow> drv_like D (SStr (b_content (blog_of_row r))) v"
proof -
  note okr = db_ok_blog_row [OF ok r]
  obtain s a t u where v: "col r ''status'' = SInt s" "col r ''author_id'' = SInt a"
    "col r ''title'' = SStr t" "col r ''content'' = SStr u"
    using num_col_value [OF blog_row_okD(11) [OF okr]] num_col_value [OF blog_row_okD(7) [OF okr]]
      str_col_value [OF blog_row_okD(3) [OF okr]] str_col_value [OF blog_row_okD(4) [OF okr]] by blast
  then show "holds D ps r (Eq ''status'' (Num n)) \<longleftrightarrow> b_status (blog_of_row r) = n"
    and "holds D ps r (Ne ''status'' (Num n)) \<longleftrightarrow> b_status (blog_of_row r) \<noteq> n"
    and "holds D ps r (Eq ''author_id'' (Num n)) \<longleftrightarrow> b_author_id (blog_of_row r) = n"
    and "ps k = Some (SInt n) \<Longrightarrow> holds D ps r (Eq ''status'' (Qm k)) \<longleftrightarrow> b_status (blog_of_row r) = n"
    and "ps k = Some v \<Longrightarrow> holds D ps r (LikeC ''title'' (Qm k)) \<longleftrightarrow> drv_like D (SStr (b_title (blog_of_row r))) v"
    and "ps k = Some v \<Longrightarrow> holds D ps r (LikeC ''content'' (Qm k)) \<longleftrightarrow> drv_like D (SStr (b_content (blog_of_row r))) v"
    by (simp_all add: drv_eq_simps [OF laws] blog_of_row_def)
qed

text \<open>A finder gives the listing its condition and order describe, or nothing (no connection, or the
  query failed), and changes nothing.\<close>

definition found :: "(blog \<Rightarrow> bool) \<Rightarrow> (blog \<Rightarrow> blog \<Rightarrow> bool) \<Rightarrow> (nat \<times> nat) option \<Rightarrow> db \<Rightarrow> blog list \<Rightarrow> bool" where
  "found P before window d out \<longleftrightarrow> out = [] \<or> listing P before window (stored_blogs d) out"

lemma found_of_select:
  assumes laws: "mysql_laws D view" and ok: "db_ok d"
    and sel: "res = None \<or> (\<exists>out. res = Some (None, out) \<and>
      select_result D ps p (Some cnd) (Some (Desc key)) l (d ''blogs'') out)"
    and p: "p = Cols blog_columns \<or> p = Star"
    and P: "\<And>r. r \<in> set (d ''blogs'') \<Longrightarrow> holds D ps r cnd = P (blog_of_row r)"
    and before: "\<And>r s. r \<in> set (d ''blogs'') \<Longrightarrow> s \<in> set (d ''blogs'') \<Longrightarrow>
      sql_le (col s key) (col r key) \<Longrightarrow> before (blog_of_row r) (blog_of_row s)"
    and l: "\<And>xs :: sqlrow list. pick l ps xs =
      (case window of None \<Rightarrow> xs | Some (n, off) \<Rightarrow> take n (drop off xs))"
  shows "found P before window d (blog_extractEntities D res)"
proof (cases res)
  case None
  then show ?thesis by (simp add: found_def blog_extractEntities_def extractEntitiesFromResult_def)
next
  case (Some x)
  with sel obtain out where out: "res = Some (None, out)"
    and s: "select_result D ps p (Some cnd) (Some (Desc key)) l (d ''blogs'') out" by auto
  have "listing P before window (map blog_of_row (d ''blogs''))
    (extractEntitiesFromResult D (buildBlogFromRow D) blog_isEntityEmpty (Some (None, out)))"
  proof (rule select_listing [OF mysql_lawsD(7) [OF laws] s p])
    show "\<And>r. r \<in> set (d ''blogs'') \<Longrightarrow>
        buildBlogFromRow D (Some (project blog_columns r)) = blog_of_row r \<and>
        buildBlogFromRow D (Some r) = blog_of_row r \<and> \<not> blog_isEntityEmpty (blog_of_row r)"
      by (rule blog_row_entity [OF mysql_lawsD(7) [OF laws] ok])
  qed (simp_all add: P before l)
  then show ?thesis
    unfolding found_def blog_extractEntities_def out stored_blogs_def by blast
qed

lemma BlogDao_findByCondition_found:
  assumes laws: "mysql_laws D view" and ok: "db_ok (view w)"
    and run: "BlogDao_findByCondition D c (Some cnd) (Some (Desc key)) limit w = (out, w')"
    and P: "\<And>r. r \<in> set (view w ''blogs'') \<Longrightarrow> holds D Map.empty r cnd = P (blog_of_row r)"
    and before: "\<And>r s. r \<in> set (view w ''blogs'') \<Longrightarrow> s \<in> set (view w ''blogs'') \<Longrightarrow>
      sql_le (col s key) (col r key) \<Longrightarrow> before (blog_of_row r) (blog_of_row s)"
  shows "view w' = view w \<and>
    found P before (if limit > 0 then Some (nat limit, 0) else None) (view w) out"
proof -
  obtain res where q: "dao_executeQuery D c (Select (Cols blog_columns) ''blogs'' (Some cnd)
      (Some (Desc key)) (if limit > 0 then Some (Limit (Num limit)) else None)) w = (res, w')"
    and out: "out = blog_extractEntities D res"
    using run by (auto simp: BlogDao_findByCondition_def sql_blog_select_def split: prod.splits)
  note sel = dao_executeQuery_Select [OF laws q]
  have "found P before (if limit > 0 then Some (nat limit, 0) else None) (view w) (blog_extractEntities D res)"
    by (rule found_of_select [OF laws ok conjunct2 [OF sel]]) (simp_all add: P before)
  with sel out show ?thesis by simp
qed

lemma BlogDao_findPage_found:
  assumes laws: "mysql_laws D view" and ok: "db_ok (view w)"
    and run: "BlogDao_findPage D c page page_size cnd ord w = (Inr out, w')"
    and args: "page > 0" "page_size > 0" "order_or_created ord = Some (Desc key)"
    and P: "\<And>r. r \<in> set (view w ''blogs'') \<Longrightarrow>
      holds D Map.empty r (case cnd of None \<Rightarrow> Ne ''status'' (Num STATUS_DELETED) | Some x \<Rightarrow> x) =
      P (blog_of_row r)"
    and before: "\<And>r s. r \<in> set (view w ''blogs'') \<Longrightarrow> s \<in> set (view w ''blogs'') \<Longrightarrow>
      sql_le (col s key) (col r key) \<Longrightarrow> before (blog_of_row r) (blog_of_row s)"
  shows "view w' = view w \<and>
    found P before (Some (nat page_size, nat ((page - 1) * page_size))) (view w) out"
proof -
  let ?c = "case cnd of None \<Rightarrow> Ne ''status'' (Num STATUS_DELETED) | Some x \<Rightarrow> x"
  obtain res where q: "dao_executeQuery D c (Select Star ''blogs'' (Some ?c) (Some (Desc key))
      (Some (LimitOffset (Num page_size) (Num ((page - 1) * page_size))))) w = (res, w')"
    and out: "out = blog_extractEntities D res"
    using run args by (auto simp: BlogDao_findPage_def buildPaginationSQL_def page_offset_def
        rbind_eq_Inr i32_checked_def Let_def split: prod.splits sum.splits if_splits)
  note sel = dao_executeQuery_Select [OF laws q]
  have "found P before (Some (nat page_size, nat ((page - 1) * page_size))) (view w)
      (blog_extractEntities D res)"
    by (rule found_of_select [OF laws ok conjunct2 [OF sel]]) (simp_all add: P before)
  with sel out show ?thesis by simp
qed

section \<open>The contract of the base class\<close>

lemma update_outcome_frame:
  assumes "update_outcome i f b d d'" "\<And>x. b_id (f x) = b_id x"
  shows "map b_id (stored_blogs d') = map b_id (stored_blogs d)"
    and "\<forall>s\<in>set (stored_blogs d). b_id s \<noteq> i \<longrightarrow> s \<in> set (stored_blogs d')"
    and "\<not> b \<Longrightarrow> stored_blogs d' = stored_blogs d"
proof -
  have "map b_id (on_blog i f xs) = map b_id xs" for xs
    by (simp add: on_blog_def assms(2))
  then show "map b_id (stored_blogs d') = map b_id (stored_blogs d)"
    using assms(1) by (auto simp: update_outcome_def)
  show "\<forall>s\<in>set (stored_blogs d). b_id s \<noteq> i \<longrightarrow> s \<in> set (stored_blogs d')"
    using assms(1) by (force simp: update_outcome_def on_blog_def)
  show "\<not> b \<Longrightarrow> stored_blogs d' = stored_blogs d"
    using assms(1) by (simp add: update_outcome_def)
qed

interpretation blog_dao: entity_dao "mysql_laws D view" "\<lambda>w. db_ok (view w)" "\<lambda>w. stored_blogs (view w)"
    live_blog b_id blog_isEntityEmpty "BlogDao_findById D c" "\<lambda>k. BlogDao_create D c (clock k)"
    "\<lambda>k. BlogDao_update D c (clock k)" "\<lambda>k. BlogDao_remove D c (clock k)" for D view c clock
proof unfold_locales
  fix w w' i e
  assume "mysql_laws D view" "db_ok (view w)" "BlogDao_findById D c i w = (e, w')"
  then show "db_ok (view w') \<and> stored_blogs (view w') = stored_blogs (view w) \<and>
      (blog_isEntityEmpty e \<or> e \<in> set (stored_blogs (view w)) \<and> live_blog e \<and> b_id e = i)"
    using BlogDao_findById_outcome by (metis b_id_new_blog blog_isEntityEmpty_def)
next
  fix w w' k e b e'
  assume "mysql_laws D view" "db_ok (view w)" "BlogDao_create D c (clock k) e w = (b, e', w')"
  from BlogDao_create_outcome [OF this] show "db_ok (view w') \<and>
      (if b then \<exists>s. stored_blogs (view w') = stored_blogs (view w) @ [s]
       else stored_blogs (view w') = stored_blogs (view w))"
    by (auto split: if_splits)
next
  fix w w' k e b
  assume "mysql_laws D view" "db_ok (view w)" "BlogDao_update D c (clock k) e w = (b, w')"
  note out = BlogDao_update_outcome [OF this]
  have f: "\<And>x. b_id (blog_written (clock k) e x) = b_id x" by (simp add: blog_written_def)
  from out have "db_ok (view w')" unfolding update_outcome_def by (elim conjE)
  with update_outcome_frame [OF out f] show "db_ok (view w') \<and>
      map b_id (stored_blogs (view w')) = map b_id (stored_blogs (view w)) \<and>
      (\<not> b \<longrightarrow> stored_blogs (view w') = stored_blogs (view w)) \<and>
      (\<forall>s\<in>set (stored_blogs (view w)). b_id s \<noteq> b_id e \<longrightarrow> s \<in> set (stored_blogs (view w')))"
    by (intro conjI impI) assumption+
next
  fix w w' k i soft b
  assume a: "mysql_laws D view" "db_ok (view w)" "BlogDao_remove D c (clock k) i soft w = (b, w')"
  show "db_ok (view w') \<and>
      set (map b_id (stored_blogs (view w'))) \<subseteq> set (map b_id (stored_blogs (view w))) \<and>
      (\<not> b \<longrightarrow> stored_blogs (view w') = stored_blogs (view w)) \<and>
      (\<forall>s\<in>set (stored_blogs (view w)). b_id s \<noteq> i \<longrightarrow> s \<in> set (stored_blogs (view w')))"
  proof (cases soft)
    case True
    with a(3) have "BlogDao_remove D c (clock k) i True w = (b, w')" by simp
    note out = BlogDao_soft_delete_outcome [OF a(1,2) this]
    have f: "\<And>x. b_id (blog_softDelete (clock k) x) = b_id x" by (simp add: blog_softDelete_def)
    note frame = update_outcome_frame [OF out f]
    have "set (map b_id (stored_blogs (view w'))) \<subseteq> set (map b_id (stored_blogs (view w)))"
      unfolding frame(1) ..
    moreover from out have "db_ok (view w')" unfolding update_outcome_def by (elim conjE)
    ultimately show ?thesis using frame(2,3) by (intro conjI impI) assumption+
  next
    case False
    with a(3) have "BlogDao_remove D c (clock k) i False w = (b, w')" by simp
    from BlogDao_hard_delete_outcome [OF a(1,2) this] show ?thesis by auto
  qed
qed

section \<open>Finders\<close>

lemma by_created_rows:
  "db_ok d \<Longrightarrow> r \<in> set (d ''blogs'') \<Longrightarrow> s \<in> set (d ''blogs'') \<Longrightarrow>
   sql_le (col s ''created_at'') (col r ''created_at'') \<Longrightarrow> by_created (blog_of_row r) (blog_of_row s)"
  by (rule blog_orders)

lemma BlogDao_findByStatus_found:
  assumes "mysql_laws D view" "db_ok (view w)" "BlogDao_findByStatus D c n w = (out, w')"
  shows "view w' = view w \<and> found (\<lambda>b. b_status b = n) by_created None (view w) out"
  using BlogDao_findByCondition_found [where P = "\<lambda>b. b_status b = n" and before = by_created,
      OF assms(1,2) assms(3) [unfolded BlogDao_findByStatus_def]
      blog_conditions(1) [OF assms(1,2)] by_created_rows [OF assms(2)]]
  by simp

lemma BlogDao_findByAuthor_found:
  assumes laws: "mysql_laws D view" and ok: "db_ok (view w)"
    and run: "BlogDao_findByAuthor D c n incl w = (out, w')"
  shows "view w' = view w \<and>
    found (\<lambda>b. b_author_id b = n \<and> (incl \<or> live_blog b)) by_created None (view w) out"
proof (cases incl)
  case True
  with run have "BlogDao_findByCondition D c (Some (Eq ''author_id'' (Num n))) (Some (Desc ''created_at'')) 0 w = (out, w')"
    by (simp add: BlogDao_findByAuthor_def)
  from BlogDao_findByCondition_found [where P = "\<lambda>b. b_author_id b = n" and before = by_created,
      OF laws ok this blog_conditions(3) [OF laws ok] by_created_rows [OF ok]] True
  show ?thesis by simp
next
  case False
  with run have q: "BlogDao_findByCondition D c
      (Some (AndC (Eq ''author_id'' (Num n)) (Ne ''status'' (Num STATUS_DELETED)))) (Some (Desc ''created_at'')) 0 w = (out, w')"
    by (simp add: BlogDao_findByAuthor_def)
  have P: "holds D Map.empty r (AndC (Eq ''author_id'' (Num n)) (Ne ''status'' (Num STATUS_DELETED))) =
      (b_author_id (blog_of_row r) = n \<and> live_blog (blog_of_row r))" if "r \<in> set (view w ''blogs'')" for r
    using blog_conditions(2,3) [OF laws ok that] by (simp only: holds.simps(5) live_blog_def)
  from BlogDao_findByCondition_found [where P = "\<lambda>b. b_author_id b = n \<and> live_blog b" and before = by_created,
      OF laws ok q P by_created_rows [OF ok]] False show ?thesis by simp
qed

lemma BlogDao_findPopular_found:
  assumes "mysql_laws D view" "db_ok (view w)" "BlogDao_findPopular D c n w = (out, w')"
  shows "view w' = view w \<and>
    found (\<lambda>b. b_status b = STATUS_PUBLISHED) by_views (if n > 0 then Some (nat n, 0) else None) (view w) out"
  using BlogDao_findByCondition_found [where P = "\<lambda>b. b_status b = STATUS_PUBLISHED" and before = by_views,
      OF assms(1,2) assms(3) [unfolded BlogDao_findPopular_def]
      blog_conditions(1) [OF assms(1,2)] blog_orders(3) [OF assms(2)]] .

lemma BlogDao_findPage_default_found:
  assumes "mysql_laws D view" "db_ok (view w)" "BlogDao_findPage D c page page_size None None w = (Inr out, w')"
    "page > 0" "page_size > 0"
  shows "view w' = view w \<and>
    found live_blog by_created (Some (nat page_size, nat ((page - 1) * page_size))) (view w) out"
  using assms(2) blog_conditions(2) [OF assms(1,2)] by_created_rows [OF assms(2)]
  by (intro BlogDao_findPage_found [OF assms(1-5)])
     (simp_all add: order_or_created_def live_blog_def del: holds.simps)

lemma BlogDao_findPublished_found:
  assumes "mysql_laws D view" "db_ok (view w)" "BlogDao_findPublished D c page page_size w = (Inr out, w')"
    "page > 0" "page_size > 0"
  shows "view w' = view w \<and> found (\<lambda>b. b_status b = STATUS_PUBLISHED) by_published
    (Some (nat page_size, nat ((page - 1) * page_size))) (view w) out"
  using blog_conditions(1) [OF assms(1,2)] blog_orders(2) [OF assms(2)]
  by (intro BlogDao_findPage_found [OF assms(1,2) assms(3) [unfolded BlogDao_findPublished_def] assms(4,5)])
     (simp_all add: order_or_created_def del: holds.simps)

text \<open>A published blog whose title or content the server's \<^verbatim>\<open>LIKE\<close> matches with the keyword.\<close>

definition matches :: "('h, 'w) driver \<Rightarrow> string \<Rightarrow> blog \<Rightarrow> bool" where
  "matches D keyword b \<longleftrightarrow> b_status b = STATUS_PUBLISHED \<and>
     (drv_like D (SStr (b_title b)) (SStr (''%'' @ keyword @ ''%'')) \<or>
      drv_like D (SStr (b_content b)) (SStr (''%'' @ keyword @ ''%'')))"

lemma BlogDao_search_found:
  assumes laws: "mysql_laws D view" and ok: "db_ok (view w)"
    and run: "BlogDao_search D c keyword page page_size w = (Inr out, w')"
    and kw: "keyword \<noteq> []"
  shows "view w' = view w \<and> found (matches D keyword) by_published
    (Some (nat page_size, nat ((page - 1) * page_size))) (view w) out"
proof -
  let ?kw = "''%'' @ keyword @ ''%''"
  let ?off = "(page - 1) * page_size"
  let ?bs = "[BInt32 1 STATUS_PUBLISHED, BString 2 ?kw, BString 3 ?kw, BInt32 4 page_size, BInt32 5 ?off]"
  obtain mc where c: "c = Some mc" using run kw by (auto simp: BlogDao_search_def split: option.splits)
  show ?thesis
  proof (cases "conn_prepareStatement D mc sql_blog_search w")
    case None
    with run kw c show ?thesis by (auto simp: BlogDao_search_def found_def)
  next
    case (Some stm)
    obtain res where q: "run_query D mc sql_blog_search ?bs w = (res, w')"
      and out: "out = blog_extractEntities D res"
      using run kw c Some by (auto simp: BlogDao_search_def page_offset_def rbind_eq_Inr i32_checked_def
          Let_def split: prod.splits sum.splits if_splits)
    note sel = run_query_Select [OF laws q [unfolded sql_blog_search_def]]
    have P: "holds D (params_of ?bs) r (AndC (Eq ''status'' (Qm 1)) (OrC (LikeC ''title'' (Qm 2)) (LikeC ''content'' (Qm 3))))
        = matches D keyword (blog_of_row r)" if "r \<in> set (view w ''blogs'')" for r
    proof -
      have ps: "params_of ?bs 1 = Some (SInt STATUS_PUBLISHED)" "params_of ?bs 2 = Some (SStr ?kw)"
        "params_of ?bs 3 = Some (SStr ?kw)"
        by (simp_all add: params_of_def)
      show ?thesis
        unfolding holds.simps(5,6) matches_def blog_conditions(4) [OF laws ok that, of "params_of ?bs", OF ps(1)]
          blog_conditions(5) [OF laws ok that, of "params_of ?bs", OF ps(2)]
          blog_conditions(6) [OF laws ok that, of "params_of ?bs", OF ps(3)] ..
    qed
    have "found (matches D keyword) by_published (Some (nat page_size, nat ?off)) (view w) (blog_extractEntities D res)"
      using blog_orders(2) [OF ok]
      by (intro found_of_select [OF laws ok conjunct2 [OF sel] _ P]) (simp_all add: params_of_def)
    with sel out show ?thesis by simp
  qed
qed

lemma BlogDao_count_outcome:
  assumes laws: "mysql_laws D view"
    and run: "BlogDao_count D c (Some cnd) w = (n, w')"
    and fits: "in_i64 (int (length (view w ''blogs'')))"
  shows "view w' = view w \<and>
    (n = 0 \<or> n = int (length (filter (\<lambda>r. holds D Map.empty r cnd) (view w ''blogs''))))"
proof -
  note g = mysql_lawsD(7) [OF laws]
  obtain res where q: "dao_executeQuery D c (Select (Aggs [(CountAll, None)]) ''blogs'' (Some cnd) None None) w = (res, w')"
    and n: "n = first_count D res"
    using run by (auto simp: BlogDao_count_def buildCountSQL_def split: prod.splits)
  note sel = dao_executeQuery_Select [OF laws q]
  show ?thesis
  proof (cases res)
    case None
    with sel n show ?thesis by (simp add: first_count_simps(1) [OF g])
  next
    case (Some x)
    with sel obtain xs where v: "view w' = view w"
      and xs: "mset xs = mset (filter (holds_opt D Map.empty (Some cnd)) (view w ''blogs''))"
      and res: "res = Some (None, [[(''COUNT(*)'', SInt (int (length xs)))]])"
      by (auto simp: select_result_def agg_col_def)
    have len: "length xs = length (filter (\<lambda>r. holds D Map.empty r cnd) (view w ''blogs''))"
      using mset_eq_length [OF xs] by (simp add: holds_opt.simps [abs_def])
    then have "in_i64 (int (length xs))"
      using fits length_filter_le [of "\<lambda>r. holds D Map.empty r cnd" "view w ''blogs''"]
      unfolding in_i64_def by linarith
    then have "n = int (length xs)" using n res by (simp add: first_count_simps(3) [OF g])
    with v len show ?thesis by simp
  qed
qed

end
