(* ===== verification/BlogDaoProps.thy ===== *)
theory BlogDaoProps
  imports BlogDaoSpec
begin

text \<open>
  The properties of \<open>BlogDao\<close>, with the in-memory server as the driver of the witnesses.
\<close>

section \<open>A concrete table\<close>

definition blog_row :: "blog \<Rightarrow> sqlrow" where
  "blog_row b =
     [(''id'', SInt (b_id b)), (''title'', SStr (b_title b)), (''content'', SStr (b_content b)),
      (''summary'', SStr (b_summary b)), (''author_id'', SInt (b_author_id b)),
      (''author_name'', SStr (b_author_name b)), (''status'', SInt (b_status b)),
      (''view_count'', SInt (b_view_count b)), (''created_at'', SInt (b_created_at b)),
      (''updated_at'', SInt (b_updated_at b)),
      (''published_at'', if b_published_at b = 0 then SNull else SInt (b_published_at b))]"

definition mem_conn :: "unit mysql_connection option" where
  "mem_conn = Some \<lparr>m_connection = Some ()\<rparr>"

definition sample_blogs :: "blog list" where
  "sample_blogs =
     [new_blog\<lparr>b_id := 1, b_title := ''a'', b_content := ''x'', b_author_id := 7, b_status := 1,
        b_view_count := 4, b_created_at := 10, b_updated_at := 10, b_published_at := 11\<rparr>,
      new_blog\<lparr>b_id := 2, b_title := ''b'', b_content := ''y'', b_author_id := 7, b_created_at := 20,
        b_updated_at := 20\<rparr>]"

definition sample_db :: mem where
  "sample_db =
     \<lparr>mem_blogs = map blog_row sample_blogs, mem_users = [], mem_next = 3, mem_last = 0,
      mem_down = False\<rparr>"

lemma sample_ok: "db_ok (mem_view sample_db)"
  by code_simp

section \<open>Properties\<close>

text \<open>What \<open>create\<close> stores is what \<open>findById\<close> finds. After a successful \<open>create\<close> the table holds
  the old blogs and one new one; a later lookup of the key the entity was given, if it
  finds anything, finds the entity as it was stamped, with a negative publication time stored as none.\<close>

theorem BlogDao_create_find:
  assumes laws: "mysql_laws D view" and ok: "db_ok (view w)"
    and create: "BlogDao_create D c now b w = (True, b', w1)"
    and find: "BlogDao_findById D c' (b_id b') w1 = (b'', w2)" and hit: "b'' \<noteq> new_blog"
  shows "b'' = b'\<lparr>b_published_at := max 0 (b_published_at b')\<rparr> \<and>
    stored_blogs (view w2) = stored_blogs (view w) @ [b'']"
proof -
  let ?b = "blog_stamped now b"
  from BlogDao_create_outcome [OF laws ok create] obtain i where ok1: "db_ok (view w1)"
    and st: "stored_blogs (view w1) = stored_blogs (view w) @
      [?b\<lparr>b_id := i, b_published_at := max 0 (b_published_at ?b)\<rparr>]"
    and i: "i \<notin> b_id ` set (stored_blogs (view w))"
    and b': "b' = ?b\<lparr>b_id := i\<rparr> \<or> b' = ?b\<lparr>b_id := 0\<rparr>"
    by auto
  from BlogDao_findById_outcome [OF laws ok1 find] hit have v: "view w2 = view w1"
    and b'': "b'' \<in> set (stored_blogs (view w1))" "b_id b'' = b_id b'" by auto
  with stored_blog_id_pos [OF ok1] b' have "b' = ?b\<lparr>b_id := i\<rparr>" by force
  with b'' st i v show ?thesis by (auto simp: image_iff)
qed

theorem BlogDao_create_find_witness:
  "\<exists>b' w1 w2. BlogDao_create mem_driver mem_conn 50 (new_blog\<lparr>b_title := ''n'', b_status := 1\<rparr>) sample_db = (True, b', w1) \<and>
     BlogDao_findById mem_driver mem_conn (b_id b') w1 = (b', w2) \<and> b_id b' = 3 \<and> b_published_at b' = 50 \<and>
     stored_blogs (mem_view w2) = sample_blogs @ [b']"
proof -
  let ?b = "new_blog\<lparr>b_title := ''n'', b_status := 1\<rparr>"
  let ?b' = "?b\<lparr>b_id := 3, b_created_at := 50, b_updated_at := 50, b_published_at := 50\<rparr>"
  obtain w1 where c: "BlogDao_create mem_driver mem_conn 50 ?b sample_db = (True, ?b', w1)"
    and f: "BlogDao_findById mem_driver mem_conn (b_id ?b') w1 = (?b', w1)"
  proof
    let ?w = "snd (snd (BlogDao_create mem_driver mem_conn 50 ?b sample_db))"
    show "BlogDao_create mem_driver mem_conn 50 ?b sample_db = (True, ?b', ?w)" by code_simp
    show "BlogDao_findById mem_driver mem_conn (b_id ?b') ?w = (?b', ?w)" by code_simp
  qed
  have "?b' \<noteq> new_blog" by code_simp
  from BlogDao_create_find [OF mem_laws sample_ok c f this]
  have "stored_blogs (mem_view w1) = stored_blogs (mem_view sample_db) @ [?b']" by simp
  moreover have "stored_blogs (mem_view sample_db) = sample_blogs" by code_simp
  ultimately show ?thesis using c f by auto
qed



text \<open>An \<open>UPDATE\<close> the server rejects is reported as a success.
  \<open>MySQLPreparedStatement::executeUpdate\<close> gives -1 for an exception and \<open>BlogDao::update\<close> only tests
  for 0, so the caller is told the blog was saved although nothing was written.\<close>

theorem BlogDao_update_exception:
  assumes laws: "mysql_laws D view"
    and conn: "m_connection mc = Some h" "drv_isClosed D h w = Some False"
    and prep: "drv_prepare D h sql_blog_update w = Some True"
    and set: "\<forall>i v. drv_set D h sql_blog_update i v = Some ()"
    and throws: "\<forall>ps. drv_executeUpdate D h sql_blog_update ps w = (None, w')"
  shows "BlogDao_update D (Some mc) now b w = (True, w') \<and> view w' = view w"
proof -
  have "view w' = view w"
    using mysql_lawsD(3) [OF laws, unfolded update_law_def, rule_format,
        OF throws [unfolded sql_blog_update_def, rule_format]]
    by simp
  then show ?thesis using conn prep set throws
    by (simp add: BlogDao_update_def run_update_def isConnectionValid_def conn_isClosed_def
        conn_prepareStatement_def conn_open_def stmt_setters stmt_set_def stmt_executeUpdate_def)
qed

theorem BlogDao_update_exception_witness:
  "BlogDao_update mem_driver mem_conn 30 (sample_blogs ! 0) (sample_db\<lparr>mem_down := True\<rparr>) =
     (True, sample_db\<lparr>mem_down := True\<rparr>)"
  unfolding mem_conn_def
  by (rule conjunct1 [OF BlogDao_update_exception [OF mem_laws, where h = "()"]])
     (simp_all add: sql_blog_update_def mem_commit_def mem_table_def)

text \<open>The public pages. The search with a keyword lists published blogs whose title or content
  matches, the empty search all published blogs, by publication time, newest first, a page at a time;
  when the query fails the page is empty. A page is never longer than asked for.\<close>

theorem BlogDao_search_pages:
  assumes laws: "mysql_laws D view" and ok: "db_ok (view w)"
    and run: "BlogDao_search D c keyword page page_size w = (Inr out, w')"
    and args: "page > 0" "page_size > 0"
  shows "view w' = view w \<and> length out \<le> nat page_size \<and>
    found (if keyword = [] then (\<lambda>b. b_status b = STATUS_PUBLISHED) else matches D keyword) by_published
      (Some (nat page_size, nat ((page - 1) * page_size))) (view w) out"
proof -
  have "view w' = view w \<and>
    found (if keyword = [] then (\<lambda>b. b_status b = STATUS_PUBLISHED) else matches D keyword) by_published
      (Some (nat page_size, nat ((page - 1) * page_size))) (view w) out"
    using BlogDao_search_found [OF laws ok run] run args
      BlogDao_findPublished_found [OF laws ok, of c page page_size out w']
    by (cases "keyword = []") (simp_all add: BlogDao_search_def)
  then show ?thesis using listing_length unfolding found_def by (metis le0 list.size(3))
qed

theorem BlogDao_search_pages_witness:
  "\<exists>w'. BlogDao_search mem_driver mem_conn ''x'' 1 10 sample_db = (Inr [sample_blogs ! 0], w') \<and>
     found (matches mem_driver ''x'') by_published (Some (10, 0)) (mem_view sample_db) [sample_blogs ! 0]"
proof -
  have r: "BlogDao_search mem_driver mem_conn ''x'' 1 10 sample_db = (Inr [sample_blogs ! 0], sample_db)"
    by code_simp
  from BlogDao_search_pages [OF mem_laws sample_ok r] r show ?thesis by simp
qed

text \<open>The search dereferences a null connection, while the empty search on the same object
  answers with an empty list.\<close>

theorem BlogDao_search_null_connection:
  assumes "keyword \<noteq> []" "in_i32 (page - 1)" "in_i32 ((page - 1) * page_size)"
  shows "BlogDao_search D None keyword page page_size w = (Inl UndefinedBehaviour, w) \<and>
    BlogDao_search D None [] page page_size w = (Inr [], w)"
  using assms by (simp add: BlogDao_search_def BlogDao_findPublished_def BlogDao_findPage_def Let_def
      buildPaginationSQL_def page_offset_def i32_checked_def dao_executeQuery_def
      blog_extractEntities_def extractEntitiesFromResult_def)

theorem BlogDao_search_null_connection_witness:
  "BlogDao_search mem_driver None ''x'' 1 10 sample_db = (Inl UndefinedBehaviour, sample_db) \<and>
   BlogDao_search mem_driver None [] 1 10 sample_db = (Inr [], sample_db)"
  by (rule BlogDao_search_null_connection) (simp_all add: in_i32_def)

lemma perm_sums:
  assumes "mset xs = mset ys"
  shows "length xs = length ys" "sum_list (map f xs) = (sum_list (map f ys) :: int)"
    "length (filter P xs) = length (filter P ys)" "xs = [] \<longleftrightarrow> ys = []" "set xs = set ys"
proof -
  show "length xs = length ys" "xs = [] \<longleftrightarrow> ys = []" "set xs = set ys"
    using mset_eq_length [OF assms] mset_eq_setD [OF assms] by auto
  have "sum_mset (mset (map f xs)) = sum_mset (mset (map f ys))" using assms by simp
  then show "sum_list (map f xs) = sum_list (map f ys)" by (simp only: sum_mset_sum_list)
  have "mset (filter P xs) = mset (filter P ys)" using assms by simp
  then show "length (filter P xs) = length (filter P ys)" by (rule mset_eq_length)
qed

text \<open>The row of the statistics query, computed from the selected rows.\<close>

lemma stats_row:
  assumes laws: "mysql_laws D view" and ok: "\<And>r. r \<in> set rows \<Longrightarrow> blog_row_ok r"
    and ps: "ps 1 = Some (SInt STATUS_PUBLISHED)"
    and bs: "bs = map blog_of_row rows"
    and fits: "in_i64 (int (length rows))" "in_i64 (sum_list (map b_view_count bs))"
    and row: "row = map (agg_col D ps rows) [(CountAll, Some ''total_blogs''),
      (SumCase ''status'' (Qm 1), Some ''published_blogs''), (SumCol ''view_count'', Some ''total_views'')]"
  shows "row_getInt64 D (Some row) ''published_blogs'' = int (length (filter blog_isPublished bs))"
    "row_getInt64 D (Some row) ''total_blogs'' = int (length bs)"
    "row_getInt64 D (Some row) ''total_views'' = sum_list (map b_view_count bs)"
proof -
  note g = mysql_lawsD(7) [OF laws]
  have pub: "holds D ps r (Eq ''status'' (Qm 1)) = blog_isPublished (blog_of_row r)" if m: "r \<in> set rows" for r
  proof -
    obtain n where "col r ''status'' = SInt n"
      using num_col_value [OF blog_row_okD(11) [OF ok [OF m]]] by blast
    then show ?thesis
      using ps by (simp add: drv_eq_simps [OF laws] blog_isPublished_def blog_of_row_def)
  qed
  have views: "col r ''view_count'' \<noteq> SNull" if "r \<in> set rows" for r
    using num_col_value [OF blog_row_okD(12) [OF ok [OF that]]] by auto
  have len: "length (filter (\<lambda>r. holds D ps r (Eq ''status'' (Qm 1))) rows) = length (filter blog_isPublished bs)"
    unfolding bs filter_map length_map
    by (rule arg_cong [where f = length], rule filter_cong) (simp_all add: pub [unfolded One_nat_def] del: holds.simps)
  have "length (filter blog_isPublished bs) \<le> length rows" unfolding bs using length_filter_le by (metis length_map)
  then have fp: "in_i64 (int (length (filter blog_isPublished bs)))" using fits(1) by (simp add: in_i64_def)
  have sum: "sum_list (map (\<lambda>r. sql_int (col r ''view_count'')) rows) = sum_list (map b_view_count bs)"
    unfolding bs by (simp add: blog_of_row_def comp_def)
  have null: "list_all (\<lambda>r. col r ''view_count'' = SNull) rows \<longleftrightarrow> rows = []"
    using views by (cases rows) auto
  have int64: "row_getInt64 D (Some row) c = sql_int v"
    if "map_of row c = Some v" "v = SNull \<or> (\<exists>n. v = SInt n \<and> in_i64 n)" for c v
    using g that by (auto simp: getter_law_def row_getInt64_def)
  show "row_getInt64 D (Some row) ''published_blogs'' = int (length (filter blog_isPublished bs))"
    by (subst int64 [where v = "agg_val D ps rows (SumCase ''status'' (Qm 1))"])
       (use fp len in \<open>auto simp: row agg_col_def bs simp del: holds.simps\<close>)
  show "row_getInt64 D (Some row) ''total_blogs'' = int (length bs)"
    by (subst int64 [where v = "agg_val D ps rows CountAll"]) (use fits(1) in \<open>auto simp: row agg_col_def bs\<close>)
  show "row_getInt64 D (Some row) ''total_views'' = sum_list (map b_view_count bs)"
    by (subst int64 [where v = "agg_val D ps rows (SumCol ''view_count'')"])
       (use fits(2) sum in \<open>auto simp: row agg_col_def null bs\<close>)
qed

text \<open>The statistics of an author. On a table whose counts fit, they are the number of
  blogs of the author that are not deleted, how many of those are published and the sum of
  their views; without any blog all are 0.\<close>

theorem BlogDao_getAuthorStats_values:
  assumes laws: "mysql_laws D view" and ok: "db_ok (view w)"
    and run: "BlogDao_getAuthorStats D c a w = (stats, w')" and hit: "stats \<noteq> []"
    and mine: "mine = filter (\<lambda>b. b_author_id b = a \<and> live_blog b) (stored_blogs (view w))"
    and fits: "in_i64 (int (length mine))" "in_i64 (sum_list (map b_view_count mine))"
  shows "view w' = view w \<and>
    stats = [(''published_blogs'', int (length (filter blog_isPublished mine))),
      (''total_blogs'', int (length mine)), (''total_views'', sum_list (map b_view_count mine))]"
proof -
  let ?bs = "[BInt32 1 STATUS_PUBLISHED, BInt64 2 a, BInt32 3 STATUS_DELETED]"
  let ?c = "AndC (Eq ''author_id'' (Qm 2)) (Ne ''status'' (Qm 3))"
  let ?as = "[(CountAll, Some ''total_blogs''), (SumCase ''status'' (Qm 1), Some ''published_blogs''),
    (SumCol ''view_count'', Some ''total_views'')]"
  note g = mysql_lawsD(7) [OF laws]
  obtain res where q: "valid_query D c sql_blog_stats ?bs w = (res, w')"
    using run by (auto simp: BlogDao_getAuthorStats_def Let_def split: prod.splits bool.splits)
  note sel = valid_query_Select [OF laws q [unfolded sql_blog_stats_def]]
  have "res \<noteq> None" using run q hit by (cases res) (auto simp: BlogDao_getAuthorStats_def)
  with sel obtain xs where v: "view w' = view w"
    and xs: "mset xs = mset (filter (holds_opt D (params_of ?bs) (Some ?c)) (view w ''blogs''))"
    and res: "res = Some (None, [map (agg_col D (params_of ?bs) xs) ?as])"
    unfolding select_result_def by auto
  have holds: "holds_opt D (params_of ?bs) (Some ?c) r = (b_author_id (blog_of_row r) = a \<and> live_blog (blog_of_row r))"
    if m: "r \<in> set (view w ''blogs'')" for r
  proof -
    obtain n s where "col r ''author_id'' = SInt n" "col r ''status'' = SInt s"
      using num_col_value [OF blog_row_okD(7) [OF db_ok_blog_row [OF ok m]]]
        num_col_value [OF blog_row_okD(11) [OF db_ok_blog_row [OF ok m]]] by blast
    then show ?thesis
      by (auto simp: params_of_def drv_eq_simps [OF laws] blog_of_row_def live_blog_def)
  qed
  have "filter (holds_opt D (params_of ?bs) (Some ?c)) (view w ''blogs'') =
      filter (\<lambda>r. b_author_id (blog_of_row r) = a \<and> live_blog (blog_of_row r)) (view w ''blogs'')"
    by (rule filter_cong) (simp_all only: holds)
  then have "mset (map blog_of_row xs) = mset mine"
    using xs by (simp add: mine stored_blogs_def filter_map comp_def)
  note same = perm_sums [OF this]
  have "blog_row_ok r" if "r \<in> set xs" for r
    using that perm_sums(5) [OF xs] db_ok_blog_row [OF ok] by auto
  note row = stats_row [OF laws this _ refl _ _ refl, of xs "params_of ?bs"]
  have "stats = [(''published_blogs'', int (length (filter blog_isPublished (map blog_of_row xs)))),
      (''total_blogs'', int (length (map blog_of_row xs))),
      (''total_views'', sum_list (map b_view_count (map blog_of_row xs)))]"
    using run q res row fits same g
    by (simp add: BlogDao_getAuthorStats_def getter_law_def result_getRow_def Let_def params_of_def)
  with v same show ?thesis by simp
qed

theorem BlogDao_getAuthorStats_values_witness:
  "BlogDao_getAuthorStats mem_driver mem_conn 7 sample_db =
     ([(''published_blogs'', 1), (''total_blogs'', 2), (''total_views'', 4)], sample_db)"
proof -
  let ?mine = "filter (\<lambda>b. b_author_id b = 7 \<and> live_blog b) (stored_blogs (mem_view sample_db))"
  let ?run = "BlogDao_getAuthorStats mem_driver mem_conn 7 sample_db"
  have m: "?mine = sample_blogs" by code_simp
  have r: "?run = (fst ?run, snd ?run)" by simp
  have ne: "fst ?run \<noteq> []" and w: "snd ?run = sample_db" by code_simp+
  have "fst ?run = [(''published_blogs'', int (length (filter blog_isPublished sample_blogs))),
      (''total_blogs'', int (length sample_blogs)), (''total_views'', sum_list (map b_view_count sample_blogs))]"
    by (rule conjunct2 [OF BlogDao_getAuthorStats_values [OF mem_laws sample_ok r ne m [symmetric]]]) code_simp+
  moreover have "filter blog_isPublished sample_blogs = [sample_blogs ! 0]" by code_simp
  ultimately show ?thesis using w by (simp add: sample_blogs_def new_blog_def prod_eq_iff)
qed

text \<open>The batch operations of the base class on blogs. \<open>createBatch\<close> returns the number of rows it added,
  \<open>findByIds\<close> returns stored blogs that are not deleted, in the order of the
  keys, and \<open>removeBatch\<close> leaves every blog whose key is not in the list.\<close>

theorem BlogDao_batches:
  assumes laws: "mysql_laws D view" and ok: "db_ok (view w)"
  shows
    "(createBatch c (\<lambda>k. BlogDao_create D c (clock k)) bs w = (m, w') \<longrightarrow>
      m \<le> length bs \<and> (\<exists>new. stored_blogs (view w') = stored_blogs (view w) @ new \<and> length new = m)) \<and>
     (findByIds (BlogDao_findById D c) blog_isEntityEmpty ids w = (found_blogs, w') \<longrightarrow>
      stored_blogs (view w') = stored_blogs (view w) \<and> subseq (map b_id found_blogs) ids \<and>
      set found_blogs \<subseteq> {b \<in> set (stored_blogs (view w)). live_blog b}) \<and>
     (removeBatch (\<lambda>k. BlogDao_remove D c (clock k)) ids soft w = (m, w') \<longrightarrow>
      m \<le> length ids \<and>
      (\<forall>b\<in>set (stored_blogs (view w)). b_id b \<notin> set ids \<longrightarrow> b \<in> set (stored_blogs (view w'))))"
  using blog_dao.createBatch_law [of D view w c c clock bs m w', OF laws ok]
    blog_dao.findByIds_law [of D view w c ids found_blogs w', OF laws ok]
    blog_dao.removeBatch_law [of D view w c clock ids soft m w', OF laws ok]
  by blast

theorem BlogDao_batches_witness:
  "\<exists>w'. removeBatch (\<lambda>k. BlogDao_remove mem_driver mem_conn 60) [2, 9] False sample_db = (1, w') \<and>
     b_id (sample_blogs ! 0) = 1 \<and> sample_blogs ! 0 \<in> set (stored_blogs (mem_view w'))"
proof -
  let ?run = "removeBatch (\<lambda>k. BlogDao_remove mem_driver mem_conn 60) [2, 9] False sample_db"
  have r: "?run = (1, snd ?run)" by code_simp
  have m: "sample_blogs ! 0 \<in> set (stored_blogs (mem_view sample_db))" "b_id (sample_blogs ! 0) = 1" by code_simp+
  from BlogDao_batches [OF mem_laws sample_ok, of mem_conn "\<lambda>k. 60" "[]" 1 "snd ?run" "[2, 9]" "[]" False] r m
  show ?thesis by auto
qed

end
