(* ===== verification/UserDao.thy ===== *)
theory UserDao
  imports BaseDao
begin

text \<open>
  \<open>UserDao\<close> (\<^verbatim>\<open>blog/src/dao/user_dao.cc\<close>): its statements and operations, and the table of users
  read as a list of entities. Conventions as for \<open>BlogDao\<close>.
\<close>

section \<open>Statements\<close>

definition sql_user_insert :: stmt where
  "sql_user_insert = Insert ''users''
     [''username'', ''password'', ''nickname'', ''email'', ''avatar'', ''bio'', ''status'',
      ''created_at'', ''updated_at'']"

definition sql_user_find :: stmt where
  "sql_user_find = Select (Cols user_columns) ''users''
     (Some (AndC (Eq ''id'' (Qm 1)) (Eq ''status'' (Qm 2)))) None None"

definition sql_user_find_username :: stmt where
  "sql_user_find_username = Select (Cols user_columns) ''users''
     (Some (AndC (Eq ''username'' (Qm 1)) (Eq ''status'' (Qm 2)))) None None"

definition sql_user_find_email :: stmt where
  "sql_user_find_email = Select (Cols user_columns) ''users''
     (Some (AndC (Eq ''email'' (Qm 1)) (Eq ''status'' (Qm 2)))) None None"

definition sql_user_update :: stmt where
  "sql_user_update = Update ''users''
     [SetTo ''username'' (Qm 1), SetTo ''nickname'' (Qm 2), SetTo ''email'' (Qm 3),
      SetTo ''avatar'' (Qm 4), SetTo ''bio'' (Qm 5), SetTo ''status'' (Qm 6),
      SetTo ''updated_at'' (Qm 7)] (Eq ''id'' (Qm 8))"

definition sql_user_delete :: stmt where
  "sql_user_delete = Delete ''users'' (Eq ''id'' (Qm 1))"

definition sql_user_password :: stmt where
  "sql_user_password = Update ''users''
     [SetTo ''password'' (Qm 1), SetTo ''updated_at'' (Qm 2)] (Eq ''id'' (Qm 3))"

definition sql_user_status :: stmt where
  "sql_user_status = Update ''users''
     [SetTo ''status'' (Qm 1), SetTo ''updated_at'' (Qm 2)] (Eq ''id'' (Qm 3))"

definition sql_user_exists_username :: stmt where
  "sql_user_exists_username = Select (Aggs [(CountAll, None)]) ''users''
     (Some (Eq ''username'' (Qm 1))) None None"

definition sql_user_exists_email :: stmt where
  "sql_user_exists_email = Select (Aggs [(CountAll, None)]) ''users''
     (Some (Eq ''email'' (Qm 1))) None None"

definition sql_user_authenticate :: stmt where
  "sql_user_authenticate = Select (Cols user_columns) ''users''
     (Some (AndC (Eq ''username'' (Qm 1)) (AndC (Eq ''password'' (Qm 2)) (Eq ''status'' (Qm 3)))))
     None None"

definition sql_user_last_login :: stmt where
  "sql_user_last_login = Update ''users'' [SetTo ''last_login_at'' (Qm 1)] (Eq ''id'' (Qm 2))"

definition sql_user_select :: "cond option \<Rightarrow> order option \<Rightarrow> int \<Rightarrow> stmt" where
  "sql_user_select condition order_by limit =
     Select (Cols user_columns) ''users'' condition order_by
       (if limit > 0 then Some (Limit (Num limit)) else None)"

lemma user_statement_texts:
  "render sql_user_insert =
     ''INSERT INTO users (username, password, nickname, email, avatar, bio, status, created_at, updated_at) '' @
     ''VALUES (?, ?, ?, ?, ?, ?, ?, ?, ?)''"
  "render sql_user_find = ''SELECT id, username, password, nickname, email, avatar, bio, status, '' @
     ''created_at, updated_at, last_login_at '' @
     ''FROM users WHERE id = ? AND status = ?''"
  "render sql_user_find_username = ''SELECT id, username, password, nickname, email, avatar, bio, status, '' @
     ''created_at, updated_at, last_login_at '' @
     ''FROM users WHERE username = ? AND status = ?''"
  "render sql_user_find_email = ''SELECT id, username, password, nickname, email, avatar, bio, status, '' @
     ''created_at, updated_at, last_login_at '' @
     ''FROM users WHERE email = ? AND status = ?''"
  "render sql_user_update = ''UPDATE users SET username = ?, nickname = ?, email = ?, avatar = ?, '' @
     ''bio = ?, status = ?, updated_at = ? WHERE id = ?''"
  "render sql_user_delete = ''DELETE FROM users WHERE id = ?''"
  "render sql_user_password = ''UPDATE users SET password = ?, updated_at = ? WHERE id = ?''"
  "render sql_user_status = ''UPDATE users SET status = ?, updated_at = ? WHERE id = ?''"
  "render sql_user_exists_username = ''SELECT COUNT(*) FROM users WHERE username = ?''"
  "render sql_user_exists_email = ''SELECT COUNT(*) FROM users WHERE email = ?''"
  "render sql_user_authenticate = ''SELECT id, username, password, nickname, email, avatar, bio, status, '' @
     ''created_at, updated_at, last_login_at '' @
     ''FROM users WHERE username = ? AND password = ? AND status = ?''"
  "render sql_user_last_login = ''UPDATE users SET last_login_at = ? WHERE id = ?''"
  by (simp_all add: sql_user_insert_def sql_user_find_def sql_user_find_username_def
      sql_user_find_email_def sql_user_update_def sql_user_delete_def sql_user_password_def
      sql_user_status_def sql_user_exists_username_def sql_user_exists_email_def
      sql_user_authenticate_def sql_user_last_login_def user_columns_def)

lemma user_statement_numbering:
  "list_all (\<lambda>s. qms s = [1..<Suc (length (qms s))])
     [sql_user_insert, sql_user_find, sql_user_find_username, sql_user_find_email, sql_user_update,
      sql_user_delete, sql_user_password, sql_user_status, sql_user_exists_username,
      sql_user_exists_email, sql_user_authenticate, sql_user_last_login]"
  by (simp add: sql_user_insert_def sql_user_find_def sql_user_find_username_def upt_rec
      sql_user_find_email_def sql_user_update_def sql_user_delete_def sql_user_password_def
      sql_user_status_def sql_user_exists_username_def sql_user_exists_email_def
      sql_user_authenticate_def sql_user_last_login_def)

section \<open>Operations\<close>

definition user_isEntityEmpty :: "user \<Rightarrow> bool" where
  "user_isEntityEmpty u \<longleftrightarrow> u_id u = 0"

definition buildUserFromRow :: "('h, 'w) driver \<Rightarrow> mysql_row \<Rightarrow> user" where
  "buildUserFromRow D row =
     (let u = new_user\<lparr>u_id := row_getInt64 D row ''id'',
          u_username := row_getString D row ''username'',
          u_password := row_getString D row ''password'',
          u_nickname := row_getString D row ''nickname'',
          u_email := row_getString D row ''email'',
          u_avatar := row_getString D row ''avatar'',
          u_bio := row_getString D row ''bio'',
          u_status := row_getInt32 D row ''status'',
          u_created_at := row_getInt64 D row ''created_at'',
          u_updated_at := row_getInt64 D row ''updated_at''\<rparr>
      in if \<not> row_isNull D row ''last_login_at''
         then u\<lparr>u_last_login_at := row_getInt64 D row ''last_login_at''\<rparr> else u)"

definition user_extractEntityFromResult :: "('h, 'w) driver \<Rightarrow> mysql_result \<Rightarrow> user" where
  "user_extractEntityFromResult D res =
     (case res of None \<Rightarrow> new_user | Some _ \<Rightarrow> buildUserFromRow D (result_getRow res))"

definition user_extractEntities :: "('h, 'w) driver \<Rightarrow> mysql_result \<Rightarrow> user list" where
  "user_extractEntities D = extractEntitiesFromResult D (buildUserFromRow D) user_isEntityEmpty"

definition user_stamped :: "int \<Rightarrow> user \<Rightarrow> user" where
  "user_stamped now u = u\<lparr>u_created_at := now, u_updated_at := now\<rparr>"

definition user_insert_bindings :: "user \<Rightarrow> binding list" where
  "user_insert_bindings u =
     [BString 1 (u_username u), BString 2 (u_password u), BString 3 (u_nickname u),
      BString 4 (u_email u), BString 5 (u_avatar u), BString 6 (u_bio u), BInt32 7 (u_status u),
      BInt64 8 (u_created_at u), BInt64 9 (u_updated_at u)]"

definition UserDao_create ::
    "('h, 'w) driver \<Rightarrow> 'h mysql_connection option \<Rightarrow> int \<Rightarrow> user \<Rightarrow> 'w \<Rightarrow> bool \<times> user \<times> 'w" where
  "UserDao_create D c now u w =
     (let u' = user_stamped now u in
      case run_insert D c sql_user_insert (user_insert_bindings u') w of
        ((prepared, ok, i), w') \<Rightarrow>
          (ok, if ok then u'\<lparr>u_id := i\<rparr> else if prepared then u' else u, w'))"

definition UserDao_findById ::
    "('h, 'w) driver \<Rightarrow> 'h mysql_connection option \<Rightarrow> int \<Rightarrow> 'w \<Rightarrow> user \<times> 'w" where
  "UserDao_findById D c i w =
     (case valid_query D c sql_user_find [BInt64 1 i, BInt32 2 STATUS_ACTIVE] w of
        (res, w') \<Rightarrow> (first_entity D (buildUserFromRow D) new_user res, w'))"

definition UserDao_findByUsername ::
    "('h, 'w) driver \<Rightarrow> 'h mysql_connection option \<Rightarrow> string \<Rightarrow> 'w \<Rightarrow> user \<times> 'w" where
  "UserDao_findByUsername D c username w =
     (case valid_query D c sql_user_find_username [BString 1 username, BInt32 2 STATUS_ACTIVE] w of
        (res, w') \<Rightarrow> (first_entity D (buildUserFromRow D) new_user res, w'))"

definition UserDao_findByEmail ::
    "('h, 'w) driver \<Rightarrow> 'h mysql_connection option \<Rightarrow> string \<Rightarrow> 'w \<Rightarrow> user \<times> 'w" where
  "UserDao_findByEmail D c email w =
     (case valid_query D c sql_user_find_email [BString 1 email, BInt32 2 STATUS_ACTIVE] w of
        (res, w') \<Rightarrow> (first_entity D (buildUserFromRow D) new_user res, w'))"

definition UserDao_update ::
    "('h, 'w) driver \<Rightarrow> 'h mysql_connection option \<Rightarrow> int \<Rightarrow> user \<Rightarrow> 'w \<Rightarrow> bool \<times> 'w" where
  "UserDao_update D c now u w =
     run_update D c sql_user_update
       [BString 1 (u_username u), BString 2 (u_nickname u), BString 3 (u_email u),
        BString 4 (u_avatar u), BString 5 (u_bio u), BInt32 6 (u_status u), BInt64 7 now,
        BInt64 8 (u_id u)] w"

definition UserDao_updatePassword ::
    "('h, 'w) driver \<Rightarrow> 'h mysql_connection option \<Rightarrow> int \<Rightarrow> int \<Rightarrow> string \<Rightarrow> 'w \<Rightarrow> bool \<times> 'w" where
  "UserDao_updatePassword D c now user_id new_password =
     run_update D c sql_user_password [BString 1 new_password, BInt64 2 now, BInt64 3 user_id]"

definition UserDao_updateStatus ::
    "('h, 'w) driver \<Rightarrow> 'h mysql_connection option \<Rightarrow> int \<Rightarrow> int \<Rightarrow> int \<Rightarrow> 'w \<Rightarrow> bool \<times> 'w" where
  "UserDao_updateStatus D c now user_id status =
     run_update D c sql_user_status [BInt32 1 status, BInt64 2 now, BInt64 3 user_id]"

definition UserDao_remove ::
    "('h, 'w) driver \<Rightarrow> 'h mysql_connection option \<Rightarrow> int \<Rightarrow> int \<Rightarrow> bool \<Rightarrow> 'w \<Rightarrow> bool \<times> 'w" where
  "UserDao_remove D c now i soft_delete w =
     (if \<not> isConnectionValid D c w then (False, w)
      else if soft_delete then UserDao_updateStatus D c now i STATUS_INACTIVE w
      else run_update D c sql_user_delete [BInt64 1 i] w)"

definition UserDao_findByCondition ::
    "('h, 'w) driver \<Rightarrow> 'h mysql_connection option \<Rightarrow> cond option \<Rightarrow> order option \<Rightarrow> int \<Rightarrow> 'w \<Rightarrow>
     user list \<times> 'w" where
  "UserDao_findByCondition D c condition order_by limit w =
     (case dao_executeQuery D c (sql_user_select condition order_by limit) w of
        (res, w') \<Rightarrow> (user_extractEntities D res, w'))"

definition user_order_or_created :: "order option \<Rightarrow> order option" where
  "user_order_or_created order_by = (case order_by of None \<Rightarrow> Some (Desc ''created_at'') | o' \<Rightarrow> o')"

definition UserDao_findAll ::
    "('h, 'w) driver \<Rightarrow> 'h mysql_connection option \<Rightarrow> order option \<Rightarrow> 'w \<Rightarrow> user list \<times> 'w" where
  "UserDao_findAll D c order_by =
     UserDao_findByCondition D c (Some (Eq ''status'' (Num STATUS_ACTIVE)))
       (user_order_or_created order_by) 0"

definition UserDao_findPage ::
    "('h, 'w) driver \<Rightarrow> 'h mysql_connection option \<Rightarrow> int \<Rightarrow> int \<Rightarrow> cond option \<Rightarrow> order option \<Rightarrow>
     'w \<Rightarrow> user list res \<times> 'w" where
  "UserDao_findPage D c page page_size condition order_by w =
     (let actual_condition = (case condition of None \<Rightarrow> Eq ''status'' (Num STATUS_ACTIVE) | Some x \<Rightarrow> x)
      in case buildPaginationSQL ''users'' page page_size (Some actual_condition)
            (user_order_or_created order_by) of
           Inl e \<Rightarrow> (Inl e, w)
         | Inr sql \<Rightarrow>
             (case dao_executeQuery D c sql w of
                (res, w') \<Rightarrow> (Inr (user_extractEntities D res), w')))"

definition UserDao_count ::
    "('h, 'w) driver \<Rightarrow> 'h mysql_connection option \<Rightarrow> cond option \<Rightarrow> 'w \<Rightarrow> int \<times> 'w" where
  "UserDao_count D c condition w =
     (case dao_executeQuery D c (buildCountSQL ''users'' condition) w of
        (res, w') \<Rightarrow> (first_count D res, w'))"

definition UserDao_existsUsername ::
    "('h, 'w) driver \<Rightarrow> 'h mysql_connection option \<Rightarrow> string \<Rightarrow> 'w \<Rightarrow> bool \<times> 'w" where
  "UserDao_existsUsername D c username w =
     (case valid_query D c sql_user_exists_username [BString 1 username] w of
        (res, w') \<Rightarrow> (first_count D res > 0, w'))"

definition UserDao_existsEmail ::
    "('h, 'w) driver \<Rightarrow> 'h mysql_connection option \<Rightarrow> string \<Rightarrow> 'w \<Rightarrow> bool \<times> 'w" where
  "UserDao_existsEmail D c email w =
     (case valid_query D c sql_user_exists_email [BString 1 email] w of
        (res, w') \<Rightarrow> (first_count D res > 0, w'))"

definition UserDao_updateLastLogin ::
    "('h, 'w) driver \<Rightarrow> 'h mysql_connection option \<Rightarrow> int \<Rightarrow> int \<Rightarrow> 'w \<Rightarrow> bool \<times> 'w" where
  "UserDao_updateLastLogin D c now user_id =
     run_update D c sql_user_last_login [BInt64 1 now, BInt64 2 user_id]"

text \<open>The result of \<open>updateLastLogin\<close> is not looked at.\<close>

definition UserDao_authenticate ::
    "('h, 'w) driver \<Rightarrow> 'h mysql_connection option \<Rightarrow> int \<Rightarrow> string \<Rightarrow> string \<Rightarrow> 'w \<Rightarrow> user \<times> 'w" where
  "UserDao_authenticate D c now username password w =
     (case valid_query D c sql_user_authenticate
         [BString 1 username, BString 2 password, BInt32 3 STATUS_ACTIVE] w of
        (res, w') \<Rightarrow>
          (case result_next D res of
             (False, res') \<Rightarrow> (new_user, w')
           | (True, res') \<Rightarrow>
               (let user = user_extractEntityFromResult D res' in
                case UserDao_updateLastLogin D c now (u_id user) w' of (b, w'') \<Rightarrow> (user, w''))))"

section \<open>The table of users\<close>

definition user_of_row :: "sqlrow \<Rightarrow> user" where
  "user_of_row r =
     \<lparr>u_id = row_id r, u_username = sql_str (col r ''username''), u_password = sql_str (col r ''password''),
      u_nickname = sql_str (col r ''nickname''), u_email = sql_str (col r ''email''),
      u_avatar = sql_str (col r ''avatar''), u_bio = sql_str (col r ''bio''),
      u_status = sql_int (col r ''status''), u_created_at = sql_int (col r ''created_at''),
      u_updated_at = sql_int (col r ''updated_at''), u_last_login_at = sql_int (col r ''last_login_at'')\<rparr>"

definition stored_users :: "db \<Rightarrow> user list" where
  "stored_users d = map user_of_row (d ''users'')"

lemma user_row_okD:
  assumes "user_row_ok r"
  shows "key_col r" "has_columns user_columns r"
    "str_col r ''username''" "str_col r ''password''" "str_col r ''nickname''" "str_col r ''email''"
    "str_col r ''avatar''" "str_col r ''bio''"
    "num_col in_i64 r ''created_at''" "num_col in_i64 r ''updated_at''"
    "int_col in_i64 r ''last_login_at''" "num_col in_i32 r ''status''"
  using assms by (simp_all add: user_row_ok_def)

lemma user_row_map_of:
  "user_row_ok r \<Longrightarrow> c \<in> set user_columns \<Longrightarrow> map_of r c = Some (col r c)"
  by (rule has_columnsD [OF user_row_okD(2)])

lemma buildUserFromRow_row:
  assumes g: "getter_law D" and ok: "user_row_ok r"
  shows "buildUserFromRow D (Some r) = user_of_row r"
proof -
  note m = user_row_map_of [OF ok, unfolded user_columns_def]
  note get = row_getters [OF g m]
  show ?thesis
    by (simp add: buildUserFromRow_def user_of_row_def row_id_def new_user_def get Let_def
        user_row_okD(3-8,11) [OF ok] key_int_col [OF user_row_okD(1) [OF ok]]
        num_int_col [OF user_row_okD(9) [OF ok]] num_int_col [OF user_row_okD(10) [OF ok]]
        num_int_col [OF user_row_okD(12) [OF ok]])
qed

lemma user_row_ok_project: "user_row_ok r \<Longrightarrow> user_row_ok (project user_columns r)"
  by (simp add: user_row_ok_def has_columns_project key_col_def str_col_def int_col_def num_col_def
      col_project user_columns_def)

lemma user_of_row_project: "user_of_row (project user_columns r) = user_of_row r"
  by (simp add: user_of_row_def row_id_def col_project user_columns_def)

lemma db_ok_user_row: "db_ok d \<Longrightarrow> r \<in> set (d ''users'') \<Longrightarrow> user_row_ok r"
  by (simp add: db_ok_def rows_ok_def list_all_iff)

lemma u_id_user_of_row [simp]: "u_id (user_of_row r) = row_id r"
  by (simp add: user_of_row_def)

lemma stored_user_id_pos: "db_ok d \<Longrightarrow> u \<in> set (stored_users d) \<Longrightarrow> 0 < u_id u"
  using db_ok_user_row key_col_row_id user_row_okD(1) by (fastforce simp: stored_users_def)

lemma user_row_values:
  assumes "user_row_ok r"
  shows "col r ''username'' = SStr (u_username (user_of_row r))"
    "col r ''email'' = SStr (u_email (user_of_row r))"
    "col r ''password'' = SStr (u_password (user_of_row r))"
    "col r ''status'' = SInt (u_status (user_of_row r))"
  using str_col_value [OF user_row_okD(3) [OF assms]] str_col_value [OF user_row_okD(6) [OF assms]]
    str_col_value [OF user_row_okD(4) [OF assms]] num_col_value [OF user_row_okD(12) [OF assms]]
  by (simp_all add: user_of_row_def)

end
