(* ===== verification/UserDaoProps.thy ===== *)
theory UserDaoProps
  imports UserDao
begin

text \<open>
  What the operations of \<open>UserDao\<close> do to the table of users, the contract of the base class for
  it, and its properties.
\<close>

section \<open>Updates\<close>

definition on_user :: "int \<Rightarrow> (user \<Rightarrow> user) \<Rightarrow> user list \<Rightarrow> user list" where
  "on_user i f us = map (\<lambda>u. if u_id u = i then f u else u) us"

definition user_outcome :: "int \<Rightarrow> (user \<Rightarrow> user) \<Rightarrow> bool \<Rightarrow> db \<Rightarrow> db \<Rightarrow> bool" where
  "user_outcome i f b d d' \<longleftrightarrow>
     db_ok d' \<and> d' ''blogs'' = d ''blogs'' \<and>
     (stored_users d' = stored_users d \<or>
      b \<and> i \<in> u_id ` set (stored_users d) \<and> stored_users d' = on_user i f (stored_users d))"

lemma user_run_update:
  assumes laws: "mysql_laws D view" and ok: "db_ok (view w)"
    and run: "run_update D c (Update ''users'' sets (Eq ''id'' (Qm k))) bs w = (b, w')"
    and k: "params_of bs k = Some (SInt i)"
    and f: "\<And>r. user_row_ok r \<Longrightarrow> user_of_row (assigned (params_of bs) sets r) = f (user_of_row r)"
  shows "user_outcome i f b (view w) (view w')"
proof -
  let ?ps = "params_of bs"
  have row: "holds D ?ps r (Eq ''id'' (Qm k)) \<longleftrightarrow> row_id r = i" if "r \<in> set (view w ''users'')" for r
    using row_id_eq [where ps = ?ps and k = k, OF laws user_row_okD(1) [OF db_ok_user_row [OF ok that]] k] .
  have step: "user_of_row (upd_row D ?ps sets (Eq ''id'' (Qm k)) r) =
      (if u_id (user_of_row r) = i then f (user_of_row r) else user_of_row r)"
    if "r \<in> set (view w ''users'')" for r
    unfolding upd_row_def row [OF that] using f [OF db_ok_user_row [OF ok that]] by simp
  have "stored_users (updated D ''users'' sets (Eq ''id'' (Qm k)) ?ps (view w)) =
      on_user i f (stored_users (view w))"
    by (simp add: stored_users_def updated_def on_user_def step)
  moreover have "i \<in> u_id ` set (stored_users (view w))"
    if "r \<in> set (view w ''users'')" "holds D ?ps r (Eq ''id'' (Qm k))" for r
    using that row [OF that(1)] by (force simp: stored_users_def)
  ultimately show ?thesis
    using run_update_Update [OF laws run] run_update_db_ok [OF laws ok run]
    unfolding user_outcome_def by (auto simp: updated_def)
qed

definition user_written :: "int \<Rightarrow> user \<Rightarrow> user \<Rightarrow> user" where
  "user_written now u old =
     old\<lparr>u_username := u_username u, u_nickname := u_nickname u, u_email := u_email u,
       u_avatar := u_avatar u, u_bio := u_bio u, u_status := u_status u, u_updated_at := now\<rparr>"

lemma UserDao_update_outcome:
  assumes "mysql_laws D view" "db_ok (view w)" "UserDao_update D c now u w = (b, w')"
  shows "user_outcome (u_id u) (user_written now u) b (view w) (view w')"
  using assms(3) unfolding UserDao_update_def sql_user_update_def
  by (rule user_run_update [OF assms(1,2)])
     (simp_all add: params_of_def assigned_def user_of_row_def row_id_def user_written_def)

lemma UserDao_updatePassword_outcome:
  assumes "mysql_laws D view" "db_ok (view w)" "UserDao_updatePassword D c now i p w = (b, w')"
  shows "user_outcome i (\<lambda>u. u\<lparr>u_password := p, u_updated_at := now\<rparr>) b (view w) (view w')"
  using assms(3) unfolding UserDao_updatePassword_def sql_user_password_def
  by (rule user_run_update [OF assms(1,2)])
     (simp_all add: params_of_def assigned_def user_of_row_def row_id_def)

lemma UserDao_updateStatus_outcome:
  assumes "mysql_laws D view" "db_ok (view w)" "UserDao_updateStatus D c now i s w = (b, w')"
  shows "user_outcome i (\<lambda>u. u\<lparr>u_status := s, u_updated_at := now\<rparr>) b (view w) (view w')"
  using assms(3) unfolding UserDao_updateStatus_def sql_user_status_def
  by (rule user_run_update [OF assms(1,2)])
     (simp_all add: params_of_def assigned_def user_of_row_def row_id_def)

lemma UserDao_updateLastLogin_outcome:
  assumes "mysql_laws D view" "db_ok (view w)" "UserDao_updateLastLogin D c now i w = (b, w')"
  shows "user_outcome i (\<lambda>u. u\<lparr>u_last_login_at := now\<rparr>) b (view w) (view w')"
  using assms(3) unfolding UserDao_updateLastLogin_def sql_user_last_login_def
  by (rule user_run_update [OF assms(1,2)])
     (simp_all add: params_of_def assigned_def user_of_row_def row_id_def)

lemma user_outcome_same:
  "db_ok d \<Longrightarrow> user_outcome i f b d d"
  by (simp add: user_outcome_def)

lemma UserDao_soft_delete_outcome:
  assumes "mysql_laws D view" "db_ok (view w)" "UserDao_remove D c now i True w = (b, w')"
  shows "user_outcome i (user_deactivate now) b (view w) (view w')"
  using UserDao_updateStatus_outcome [OF assms(1,2), of c now i STATUS_INACTIVE b w'] assms(2,3)
  by (auto simp: UserDao_remove_def user_deactivate_def [abs_def] user_updateTimestamp_def
      user_outcome_same split: if_splits)

lemma UserDao_hard_delete_outcome:
  assumes laws: "mysql_laws D view" and ok: "db_ok (view w)"
    and run: "UserDao_remove D c now i False w = (b, w')"
  shows "db_ok (view w') \<and> view w' ''blogs'' = view w ''blogs'' \<and>
    (stored_users (view w') = stored_users (view w) \<or>
     b \<and> i \<in> u_id ` set (stored_users (view w)) \<and>
     stored_users (view w') = filter (\<lambda>x. u_id x \<noteq> i) (stored_users (view w)))"
proof (cases "isConnectionValid D c w")
  case False
  with run ok show ?thesis by (simp add: UserDao_remove_def)
next
  case True
  let ?ps = "params_of [BInt64 1 i]"
  have run': "run_update D c (Delete ''users'' (Eq ''id'' (Qm 1))) [BInt64 1 i] w = (b, w')"
    using run True by (simp add: UserDao_remove_def sql_user_delete_def)
  have row: "holds D ?ps r (Eq ''id'' (Qm 1)) \<longleftrightarrow> row_id r = i" if "r \<in> set (view w ''users'')" for r
    by (rule row_id_eq [OF laws user_row_okD(1) [OF db_ok_user_row [OF ok that]]])
       (simp add: params_of_def)
  have eq: "stored_users (deleted D ''users'' (Eq ''id'' (Qm 1)) ?ps (view w)) =
      filter (\<lambda>x. u_id x \<noteq> i) (stored_users (view w))"
    unfolding stored_users_def deleted_def filter_map fun_upd_same
    by (rule arg_cong [where f = "map user_of_row"], rule filter_cong)
       (simp_all add: row [unfolded One_nat_def] del: holds.simps)
  have "i \<in> u_id ` set (stored_users (view w))"
    if "r \<in> set (view w ''users'')" "holds D ?ps r (Eq ''id'' (Qm 1))" for r
    using that row [OF that(1)] by (force simp: stored_users_def)
  then show ?thesis
    using run_update_Delete [OF laws run'] run_update_db_ok [OF laws ok run'] eq
    by (auto simp: deleted_def)
qed

lemma UserDao_create_outcome:
  assumes laws: "mysql_laws D view" and ok: "db_ok (view w)"
    and run: "UserDao_create D c now u w = (success, u', w')"
  shows "db_ok (view w') \<and> view w' ''blogs'' = view w ''blogs'' \<and>
    (if success then
       (\<exists>s. stored_users (view w') = stored_users (view w) @ [s] \<and>
          u_id s \<notin> u_id ` set (stored_users (view w)) \<and> 0 < u_id s \<and>
          s\<lparr>u_id := 0, u_last_login_at := 0\<rparr> = (user_stamped now u)\<lparr>u_id := 0, u_last_login_at := 0\<rparr> \<and>
          (u' = (user_stamped now u)\<lparr>u_id := u_id s\<rparr> \<or> u' = (user_stamped now u)\<lparr>u_id := 0\<rparr>))
     else stored_users (view w') = stored_users (view w))"
proof -
  let ?u = "user_stamped now u"
  let ?cols = "[''username'', ''password'', ''nickname'', ''email'', ''avatar'', ''bio'', ''status'',
      ''created_at'', ''updated_at'']"
  obtain prepared i where ins: "run_insert D c sql_user_insert (user_insert_bindings ?u) w =
      ((prepared, success, i), w')" and u': "success \<Longrightarrow> u' = ?u\<lparr>u_id := i\<rparr>"
    using run by (auto simp: UserDao_create_def Let_def split: prod.splits if_splits)
  have ok': "db_ok (view w')" by (rule run_insert_db_ok [OF laws ok ins])
  note out = run_insert_Insert [OF laws ins [unfolded sql_user_insert_def]]
  show ?thesis
  proof (cases success)
    case False
    with out ok' show ?thesis by simp
  next
    case True
    with out obtain r where r: "view w' = (view w)(''users'' := view w ''users'' @ [r])" "key_col r"
      "row_id r \<notin> row_id ` set (view w ''users'')" "i = 0 \<or> i = row_id r"
      and cols: "map (col r) ?cols =
        map (\<lambda>k. eval (params_of (user_insert_bindings ?u)) (Qm k)) [1..<Suc (length ?cols)]"
      by blast
    have "(user_of_row r)\<lparr>u_id := 0, u_last_login_at := 0\<rparr> = ?u\<lparr>u_id := 0, u_last_login_at := 0\<rparr>"
      using cols by (simp add: user_of_row_def params_of_def user_insert_bindings_def upt_rec)
    moreover have "stored_users (view w') = stored_users (view w) @ [user_of_row r]"
      using r(1) by (simp add: stored_users_def)
    moreover have "row_id r \<notin> u_id ` set (stored_users (view w))"
      using r(3) by (simp add: stored_users_def image_image)
    ultimately show ?thesis
      using r True ok' u' key_col_row_id [OF r(2)] by (auto intro!: exI [of _ "user_of_row r"])
  qed
qed

section \<open>Lookups\<close>

lemma user_row_entity:
  assumes "getter_law D" "db_ok d" "r \<in> set (d ''users'')"
  shows "buildUserFromRow D (Some (project user_columns r)) = user_of_row r"
    and "buildUserFromRow D (Some r) = user_of_row r" and "\<not> user_isEntityEmpty (user_of_row r)"
proof -
  have ok: "user_row_ok r" by (rule db_ok_user_row [OF assms(2,3)])
  then have "0 < row_id r" using key_col_row_id [OF user_row_okD(1)] by blast
  with ok show "buildUserFromRow D (Some (project user_columns r)) = user_of_row r"
    and "buildUserFromRow D (Some r) = user_of_row r" and "\<not> user_isEntityEmpty (user_of_row r)"
    using buildUserFromRow_row [OF assms(1)] user_row_ok_project
    by (simp_all add: user_of_row_project user_isEntityEmpty_def)
qed

lemma user_lookup:
  assumes laws: "mysql_laws D view" and ok: "db_ok (view w)"
    and q: "valid_query D c (Select (Cols user_columns) ''users'' (Some cnd) None None) bs w = (res, w')"
    and P: "\<And>r. user_row_ok r \<Longrightarrow> holds D (params_of bs) r cnd \<Longrightarrow> P (user_of_row r)"
    and u: "u = first_entity D (buildUserFromRow D) new_user res"
  shows "view w' = view w \<and> (u = new_user \<or> u \<in> set (stored_users (view w)) \<and> P u)"
  using first_entity_found [where ent = user_of_row and build = "buildUserFromRow D",
      OF laws q user_row_entity(1) [OF mysql_lawsD(7) [OF laws] ok], of new_user]
    P db_ok_user_row [OF ok]
  unfolding u stored_users_def by auto

lemma UserDao_findById_outcome:
  assumes laws: "mysql_laws D view" and ok: "db_ok (view w)" and run: "UserDao_findById D c i w = (u, w')"
  shows "view w' = view w \<and> (u = new_user \<or>
    u \<in> set (stored_users (view w)) \<and> u_id u = i \<and> user_isActive u)"
proof -
  obtain res where q: "valid_query D c sql_user_find [BInt64 1 i, BInt32 2 STATUS_ACTIVE] w = (res, w')"
    and u: "u = first_entity D (buildUserFromRow D) new_user res"
    using run by (auto simp: UserDao_findById_def split: prod.splits)
  show ?thesis
    by (rule user_lookup [OF laws ok q [unfolded sql_user_find_def] _ u])
       (use key_col_row_id [OF user_row_okD(1)] user_row_values(4) in
        \<open>auto simp: params_of_def drv_eq_simps [OF laws] user_isActive_def\<close>)
qed

lemma UserDao_findByUsername_outcome:
  assumes laws: "mysql_laws D view" and ok: "db_ok (view w)"
    and run: "UserDao_findByUsername D c name w = (u, w')"
  shows "view w' = view w \<and> (u = new_user \<or>
    u \<in> set (stored_users (view w)) \<and> drv_eq D (SStr (u_username u)) (SStr name) \<and> user_isActive u)"
proof -
  obtain res where q: "valid_query D c sql_user_find_username [BString 1 name, BInt32 2 STATUS_ACTIVE] w = (res, w')"
    and u: "u = first_entity D (buildUserFromRow D) new_user res"
    using run by (auto simp: UserDao_findByUsername_def split: prod.splits)
  show ?thesis
    by (rule user_lookup [OF laws ok q [unfolded sql_user_find_username_def] _ u])
       (use user_row_values in \<open>auto simp: params_of_def drv_eq_simps [OF laws] user_isActive_def\<close>)
qed

lemma UserDao_findByEmail_outcome:
  assumes laws: "mysql_laws D view" and ok: "db_ok (view w)"
    and run: "UserDao_findByEmail D c mail w = (u, w')"
  shows "view w' = view w \<and> (u = new_user \<or>
    u \<in> set (stored_users (view w)) \<and> drv_eq D (SStr (u_email u)) (SStr mail) \<and> user_isActive u)"
proof -
  obtain res where q: "valid_query D c sql_user_find_email [BString 1 mail, BInt32 2 STATUS_ACTIVE] w = (res, w')"
    and u: "u = first_entity D (buildUserFromRow D) new_user res"
    using run by (auto simp: UserDao_findByEmail_def split: prod.splits)
  show ?thesis
    by (rule user_lookup [OF laws ok q [unfolded sql_user_find_email_def] _ u])
       (use user_row_values in \<open>auto simp: params_of_def drv_eq_simps [OF laws] user_isActive_def\<close>)
qed

lemma user_count:
  assumes laws: "mysql_laws D view" and ok: "db_ok (view w)"
    and q: "valid_query D c (Select (Aggs [(CountAll, None)]) ''users'' (Some cnd) None None) bs w = (res, w')"
    and P: "\<And>r. user_row_ok r \<Longrightarrow> holds D (params_of bs) r cnd = P (user_of_row r)"
    and fits: "in_i64 (int (length (view w ''users'')))"
  shows "view w' = view w \<and>
    (0 < first_count D res \<longleftrightarrow> res \<noteq> None \<and> (\<exists>u\<in>set (stored_users (view w)). P u))"
proof -
  have "0 < length (filter (\<lambda>r. holds D (params_of bs) r cnd) (view w ''users'')) \<longleftrightarrow>
      (\<exists>r\<in>set (view w ''users''). holds D (params_of bs) r cnd)"
    by (auto simp: filter_empty_conv)
  also have "\<dots> \<longleftrightarrow> (\<exists>u\<in>set (stored_users (view w)). P u)"
    using P db_ok_user_row [OF ok] by (auto simp: stored_users_def)
  finally show ?thesis
    using first_count_value [where view = view and w = w and t = "''users''", OF laws q fits] by auto
qed

lemma UserDao_exists_name:
  assumes laws: "mysql_laws D view" and ok: "db_ok (view w)"
    and fits: "in_i64 (int (length (view w ''users'')))"
    and run: "UserDao_existsUsername D c name w = (b, w')"
  shows "view w' = view w \<and>
    (b \<longleftrightarrow> fst (valid_query D c sql_user_exists_username [BString 1 name] w) \<noteq> None \<and>
      (\<exists>u\<in>set (stored_users (view w)). drv_eq D (SStr (u_username u)) (SStr name)))"
proof -
  obtain res w1 where q: "valid_query D c sql_user_exists_username [BString 1 name] w = (res, w1)" by fastforce
  have P: "holds D (params_of [BString 1 name]) r (Eq ''username'' (Qm 1)) =
      drv_eq D (SStr (u_username (user_of_row r))) (SStr name)" if "user_row_ok r" for r
    using user_row_values(1) [OF that] by (simp add: params_of_def)
  note n = user_count [where view = view and w = w and P = "\<lambda>u. drv_eq D (SStr (u_username u)) (SStr name)",
      OF laws ok q [unfolded sql_user_exists_username_def] P fits]
  show ?thesis using run q n by (auto simp: UserDao_existsUsername_def)
qed

lemma UserDao_exists_mail:
  assumes laws: "mysql_laws D view" and ok: "db_ok (view w)"
    and fits: "in_i64 (int (length (view w ''users'')))"
    and run: "UserDao_existsEmail D c mail w = (b, w')"
  shows "view w' = view w \<and>
    (b \<longleftrightarrow> fst (valid_query D c sql_user_exists_email [BString 1 mail] w) \<noteq> None \<and>
      (\<exists>u\<in>set (stored_users (view w)). drv_eq D (SStr (u_email u)) (SStr mail)))"
proof -
  obtain res w1 where q: "valid_query D c sql_user_exists_email [BString 1 mail] w = (res, w1)" by fastforce
  have P: "holds D (params_of [BString 1 mail]) r (Eq ''email'' (Qm 1)) =
      drv_eq D (SStr (u_email (user_of_row r))) (SStr mail)" if "user_row_ok r" for r
    using user_row_values(2) [OF that] by (simp add: params_of_def)
  note n = user_count [where view = view and w = w and P = "\<lambda>u. drv_eq D (SStr (u_email u)) (SStr mail)",
      OF laws ok q [unfolded sql_user_exists_email_def] P fits]
  show ?thesis using run q n by (auto simp: UserDao_existsEmail_def)
qed

section \<open>The contract of the base class\<close>

lemma user_outcome_frame:
  assumes "user_outcome i f b d d'" "\<And>x. u_id (f x) = u_id x"
  shows "map u_id (stored_users d') = map u_id (stored_users d)"
    and "\<forall>s\<in>set (stored_users d). u_id s \<noteq> i \<longrightarrow> s \<in> set (stored_users d')"
    and "\<not> b \<Longrightarrow> stored_users d' = stored_users d" and "db_ok d'"
proof -
  have "map u_id (on_user i f xs) = map u_id xs" for xs
    by (simp add: on_user_def assms(2))
  then show "map u_id (stored_users d') = map u_id (stored_users d)"
    using assms(1) by (auto simp: user_outcome_def)
  show "\<forall>s\<in>set (stored_users d). u_id s \<noteq> i \<longrightarrow> s \<in> set (stored_users d')"
    using assms(1) by (force simp: user_outcome_def on_user_def)
  show "\<not> b \<Longrightarrow> stored_users d' = stored_users d" "db_ok d'"
    using assms(1) by (simp_all add: user_outcome_def)
qed

interpretation user_dao: entity_dao "mysql_laws D view" "\<lambda>w. db_ok (view w)" "\<lambda>w. stored_users (view w)"
    user_isActive u_id user_isEntityEmpty "UserDao_findById D c" "\<lambda>k. UserDao_create D c (clock k)"
    "\<lambda>k. UserDao_update D c (clock k)" "\<lambda>k. UserDao_remove D c (clock k)" for D view c clock
proof unfold_locales
  fix w w' i e
  assume "mysql_laws D view" "db_ok (view w)" "UserDao_findById D c i w = (e, w')"
  then show "db_ok (view w') \<and> stored_users (view w') = stored_users (view w) \<and>
      (user_isEntityEmpty e \<or> e \<in> set (stored_users (view w)) \<and> user_isActive e \<and> u_id e = i)"
    using UserDao_findById_outcome by (metis u_id_new_user user_isEntityEmpty_def)
next
  fix w w' k e b e'
  assume "mysql_laws D view" "db_ok (view w)" "UserDao_create D c (clock k) e w = (b, e', w')"
  from UserDao_create_outcome [OF this] show "db_ok (view w') \<and>
      (if b then \<exists>s. stored_users (view w') = stored_users (view w) @ [s]
       else stored_users (view w') = stored_users (view w))"
    by (auto split: if_splits)
next
  fix w w' k e b
  assume "mysql_laws D view" "db_ok (view w)" "UserDao_update D c (clock k) e w = (b, w')"
  note out = UserDao_update_outcome [OF this]
  have f: "\<And>x. u_id (user_written (clock k) e x) = u_id x" by (simp add: user_written_def)
  from user_outcome_frame [OF out f] show "db_ok (view w') \<and>
      map u_id (stored_users (view w')) = map u_id (stored_users (view w)) \<and>
      (\<not> b \<longrightarrow> stored_users (view w') = stored_users (view w)) \<and>
      (\<forall>s\<in>set (stored_users (view w)). u_id s \<noteq> u_id e \<longrightarrow> s \<in> set (stored_users (view w')))"
    by (intro conjI impI) assumption+
next
  fix w w' k i soft b
  assume a: "mysql_laws D view" "db_ok (view w)" "UserDao_remove D c (clock k) i soft w = (b, w')"
  show "db_ok (view w') \<and>
      set (map u_id (stored_users (view w'))) \<subseteq> set (map u_id (stored_users (view w))) \<and>
      (\<not> b \<longrightarrow> stored_users (view w') = stored_users (view w)) \<and>
      (\<forall>s\<in>set (stored_users (view w)). u_id s \<noteq> i \<longrightarrow> s \<in> set (stored_users (view w')))"
  proof (cases soft)
    case True
    with a(3) have "UserDao_remove D c (clock k) i True w = (b, w')" by simp
    note out = UserDao_soft_delete_outcome [OF a(1,2) this]
    have f: "\<And>x. u_id (user_deactivate (clock k) x) = u_id x"
      by (simp add: user_deactivate_def user_updateTimestamp_def)
    note frame = user_outcome_frame [OF out f]
    have "set (map u_id (stored_users (view w'))) \<subseteq> set (map u_id (stored_users (view w)))"
      unfolding frame(1) ..
    with frame(2-4) show ?thesis by (intro conjI impI) assumption+
  next
    case False
    with a(3) have "UserDao_remove D c (clock k) i False w = (b, w')" by simp
    from UserDao_hard_delete_outcome [OF a(1,2) this] show ?thesis by auto
  qed
qed

section \<open>Authentication\<close>

lemma UserDao_authenticate_outcome:
  assumes laws: "mysql_laws D view" and ok: "db_ok (view w)"
    and run: "UserDao_authenticate D c now name pw w = (u, w')"
  shows "u = new_user \<and> view w' = view w \<or>
    u \<in> set (stored_users (view w)) \<and> drv_eq D (SStr (u_username u)) (SStr name) \<and>
    drv_eq D (SStr (u_password u)) (SStr pw) \<and> user_isActive u \<and>
    (\<exists>b. user_outcome (u_id u) (\<lambda>x. x\<lparr>u_last_login_at := now\<rparr>) b (view w) (view w'))"
proof -
  let ?bs = "[BString 1 name, BString 2 pw, BInt32 3 STATUS_ACTIVE]"
  note g = mysql_lawsD(7) [OF laws]
  obtain res w1 where q: "valid_query D c sql_user_authenticate ?bs w = (res, w1)" by fastforce
  note sel = valid_query_Select [OF laws q [unfolded sql_user_authenticate_def]]
  show ?thesis
  proof (cases "result_next D res")
    case (Pair b res')
    show ?thesis
    proof (cases b)
      case False
      with run q Pair sel show ?thesis by (simp add: UserDao_authenticate_def)
    next
      case True
      from Pair True obtain cur r rs where res: "res = Some (cur, r # rs)" "res' = Some (Some r, rs)"
        by (cases res) (auto split: if_splits list.splits)
      from first_row_found [where ent = user_of_row and build = "buildUserFromRow D",
          OF laws q [unfolded sql_user_authenticate_def res] user_row_entity(1) [OF g ok]]
      obtain s where s: "s \<in> set (view w ''users'')"
        "holds D (params_of ?bs) s (AndC (Eq ''username'' (Qm 1)) (AndC (Eq ''password'' (Qm 2)) (Eq ''status'' (Qm 3))))"
        "buildUserFromRow D (Some r) = user_of_row s"
        by blast
      have e: "user_extractEntityFromResult D res' = user_of_row s"
        using res s(3) by (simp add: user_extractEntityFromResult_def result_getRow_def)
      obtain b' where upd: "UserDao_updateLastLogin D c now (row_id s) w1 = (b', w')" and u: "u = user_of_row s"
        using run q Pair True e by (auto simp: UserDao_authenticate_def Let_def split: prod.splits)
      have "user_outcome (row_id s) (\<lambda>x. x\<lparr>u_last_login_at := now\<rparr>) b' (view w1) (view w')"
        using sel ok by (intro UserDao_updateLastLogin_outcome [OF laws _ upd]) simp
      moreover have "drv_eq D (SStr (u_username u)) (SStr name) \<and> drv_eq D (SStr (u_password u)) (SStr pw) \<and>
          user_isActive u"
        using s(2) u user_row_values [OF db_ok_user_row [OF ok s(1)]]
        by (auto simp: params_of_def drv_eq_simps [OF laws] user_isActive_def)
      ultimately show ?thesis using s(1) u sel by (auto simp: stored_users_def)
    qed
  qed
qed

section \<open>A concrete table\<close>

definition user_row :: "user \<Rightarrow> sqlrow" where
  "user_row u =
     [(''id'', SInt (u_id u)), (''username'', SStr (u_username u)), (''password'', SStr (u_password u)),
      (''nickname'', SStr (u_nickname u)), (''email'', SStr (u_email u)), (''avatar'', SStr (u_avatar u)),
      (''bio'', SStr (u_bio u)), (''status'', SInt (u_status u)), (''created_at'', SInt (u_created_at u)),
      (''updated_at'', SInt (u_updated_at u)),
      (''last_login_at'', if u_last_login_at u = 0 then SNull else SInt (u_last_login_at u))]"

definition sample_users :: "user list" where
  "sample_users =
     [new_user\<lparr>u_id := 1, u_username := ''ann'', u_password := ''h'', u_email := ''a@x'', u_created_at := 5,
        u_updated_at := 5\<rparr>,
      new_user\<lparr>u_id := 2, u_username := ''bob'', u_password := ''k'', u_email := ''b@x'', u_status := 0,
        u_created_at := 6, u_updated_at := 6\<rparr>]"

definition sample_udb :: mem where
  "sample_udb =
     \<lparr>mem_blogs = [], mem_users = map user_row sample_users, mem_next = 3, mem_last = 0, mem_down = False\<rparr>"

definition mem_uconn :: "unit mysql_connection option" where
  "mem_uconn = Some \<lparr>m_connection = Some ()\<rparr>"

lemma sample_udb_ok: "db_ok (mem_view sample_udb)"
  by code_simp

section \<open>Properties\<close>

text \<open>What \<open>create\<close> stores is what \<open>findById\<close> finds: all fields of the user, with the timestamps of the
  call; only the time of the last login, which the insertion leaves to its default, is open.\<close>

theorem UserDao_create_find:
  assumes laws: "mysql_laws D view" and ok: "db_ok (view w)"
    and create: "UserDao_create D c now u w = (True, u', w1)"
    and find: "UserDao_findById D c' (u_id u') w1 = (u'', w2)" and hit: "u'' \<noteq> new_user"
  shows "u''\<lparr>u_last_login_at := 0\<rparr> = u'\<lparr>u_last_login_at := 0\<rparr> \<and>
    stored_users (view w2) = stored_users (view w) @ [u'']"
proof -
  let ?u = "user_stamped now u"
  from UserDao_create_outcome [OF laws ok create] obtain s where ok1: "db_ok (view w1)"
    and st: "stored_users (view w1) = stored_users (view w) @ [s]"
    and s: "u_id s \<notin> u_id ` set (stored_users (view w))"
    and eq: "s\<lparr>u_id := 0, u_last_login_at := 0\<rparr> = ?u\<lparr>u_id := 0, u_last_login_at := 0\<rparr>"
    and u': "u' = ?u\<lparr>u_id := u_id s\<rparr> \<or> u' = ?u\<lparr>u_id := 0\<rparr>"
    by auto
  from UserDao_findById_outcome [OF laws ok1 find] hit have v: "view w2 = view w1"
    and u'': "u'' \<in> set (stored_users (view w1))" "u_id u'' = u_id u'" by auto
  with stored_user_id_pos [OF ok1] u' have u's: "u' = ?u\<lparr>u_id := u_id s\<rparr>" by force
  with u'' st s have "u'' = s" by (auto simp: image_iff)
  moreover have "s\<lparr>u_last_login_at := 0\<rparr> = u'\<lparr>u_last_login_at := 0\<rparr>"
    using eq unfolding u's by (cases s; cases ?u) simp
  ultimately show ?thesis using st v by simp
qed

theorem UserDao_create_find_witness:
  "\<exists>u' w1 w2. UserDao_create mem_driver mem_uconn 50 (new_user\<lparr>u_username := ''cy''\<rparr>) sample_udb = (True, u', w1) \<and>
     UserDao_findById mem_driver mem_uconn (u_id u') w1 = (u', w2) \<and> u_id u' = 3 \<and> u_created_at u' = 50 \<and>
     stored_users (mem_view w2) = sample_users @ [u']"
proof -
  let ?u = "new_user\<lparr>u_username := ''cy''\<rparr>"
  let ?u' = "?u\<lparr>u_id := 3, u_created_at := 50, u_updated_at := 50\<rparr>"
  obtain w1 where c: "UserDao_create mem_driver mem_uconn 50 ?u sample_udb = (True, ?u', w1)"
    and f: "UserDao_findById mem_driver mem_uconn (u_id ?u') w1 = (?u', w1)"
  proof
    let ?w = "snd (snd (UserDao_create mem_driver mem_uconn 50 ?u sample_udb))"
    show "UserDao_create mem_driver mem_uconn 50 ?u sample_udb = (True, ?u', ?w)" by code_simp
    show "UserDao_findById mem_driver mem_uconn (u_id ?u') ?w = (?u', ?w)" by code_simp
  qed
  have "?u' \<noteq> new_user" by code_simp
  from UserDao_create_find [OF mem_laws sample_udb_ok c f this]
  have "stored_users (mem_view w1) = stored_users (mem_view sample_udb) @ [?u']" by simp
  moreover have "stored_users (mem_view sample_udb) = sample_users" by code_simp
  ultimately show ?thesis using c f by auto
qed

text \<open>The writing operations of \<open>UserDao\<close> refine operations on the list of entities. An update
  leaves the password and the last login, a password change only writes the password, a soft delete
  deactivates the account, a login only writes the last login; whatever reports failure has changed nothing.\<close>

theorem UserDao_writes_refine:
  assumes laws: "mysql_laws D view" and ok: "db_ok (view w)"
  shows
    "(UserDao_update D c now u w = (r, w') \<longrightarrow>
      user_outcome (u_id u) (\<lambda>x. x\<lparr>u_username := u_username u, u_nickname := u_nickname u,
        u_email := u_email u, u_avatar := u_avatar u, u_bio := u_bio u, u_status := u_status u,
        u_updated_at := now\<rparr>) r (view w) (view w')) \<and>
     (UserDao_updatePassword D c now i p w = (r, w') \<longrightarrow>
      user_outcome i (\<lambda>x. x\<lparr>u_password := p, u_updated_at := now\<rparr>) r (view w) (view w')) \<and>
     (UserDao_updateStatus D c now i s w = (r, w') \<longrightarrow>
      user_outcome i (\<lambda>x. x\<lparr>u_status := s, u_updated_at := now\<rparr>) r (view w) (view w')) \<and>
     (UserDao_updateLastLogin D c now i w = (r, w') \<longrightarrow>
      user_outcome i (\<lambda>x. x\<lparr>u_last_login_at := now\<rparr>) r (view w) (view w')) \<and>
     (UserDao_remove D c now i True w = (r, w') \<longrightarrow>
      user_outcome i (user_deactivate now) r (view w) (view w'))"
  using UserDao_update_outcome [OF laws ok, of c now u r w', unfolded user_written_def [abs_def]]
    UserDao_updatePassword_outcome [OF laws ok, of c now i p r w']
    UserDao_updateStatus_outcome [OF laws ok, of c now i s r w']
    UserDao_updateLastLogin_outcome [OF laws ok, of c now i r w']
    UserDao_soft_delete_outcome [OF laws ok, of c now i r w']
  by (intro conjI impI) assumption+

theorem UserDao_writes_refine_witness:
  "\<exists>w'. UserDao_remove mem_driver mem_uconn 30 1 True sample_udb = (True, w') \<and>
     user_outcome 1 (user_deactivate 30) True (mem_view sample_udb) (mem_view w') \<and>
     stored_users (mem_view w') = on_user 1 (user_deactivate 30) sample_users"
proof -
  let ?w = "snd (UserDao_remove mem_driver mem_uconn 30 1 True sample_udb)"
  have r: "UserDao_remove mem_driver mem_uconn 30 1 True sample_udb = (True, ?w)" by code_simp
  have "stored_users (mem_view ?w) = on_user 1 (user_deactivate 30) sample_users" by code_simp
  with r UserDao_writes_refine [OF mem_laws sample_udb_ok, of mem_uconn 30 new_user True ?w 1] show ?thesis
    by blast
qed

text \<open>No lookup returns a user that is not stored, disabled, or other than asked for (names, mail addresses and
  passwords compared by the server); \<open>authenticate\<close> besides only sets the last login of
  the user it returns.\<close>

theorem UserDao_lookups_sound:
  assumes laws: "mysql_laws D view" and ok: "db_ok (view w)" and hit: "u \<noteq> new_user"
  shows
    "(UserDao_findById D c i w = (u, w') \<longrightarrow>
      u \<in> set (stored_users (view w)) \<and> u_id u = i \<and> user_isActive u \<and> view w' = view w) \<and>
     (UserDao_findByUsername D c name w = (u, w') \<longrightarrow>
      u \<in> set (stored_users (view w)) \<and> drv_eq D (SStr (u_username u)) (SStr name) \<and> user_isActive u \<and>
      view w' = view w) \<and>
     (UserDao_findByEmail D c mail w = (u, w') \<longrightarrow>
      u \<in> set (stored_users (view w)) \<and> drv_eq D (SStr (u_email u)) (SStr mail) \<and> user_isActive u \<and>
      view w' = view w) \<and>
     (UserDao_authenticate D c now name pw w = (u, w') \<longrightarrow>
      u \<in> set (stored_users (view w)) \<and> drv_eq D (SStr (u_username u)) (SStr name) \<and>
      drv_eq D (SStr (u_password u)) (SStr pw) \<and> user_isActive u \<and>
      (\<exists>b. user_outcome (u_id u) (\<lambda>x. x\<lparr>u_last_login_at := now\<rparr>) b (view w) (view w')))"
  using UserDao_findById_outcome [OF laws ok, of c i u w'] UserDao_findByUsername_outcome [OF laws ok, of c name u w']
    UserDao_findByEmail_outcome [OF laws ok, of c mail u w']
    UserDao_authenticate_outcome [OF laws ok, of c now name pw u w'] hit
  by (intro conjI [where P = "_ \<longrightarrow> _"] impI) (simp_all only:, blast+)

theorem UserDao_lookups_sound_witness:
  "UserDao_findByUsername mem_driver mem_uconn ''ann'' sample_udb = (sample_users ! 0, sample_udb) \<and>
   user_isActive (sample_users ! 0) \<and>
   UserDao_findByUsername mem_driver mem_uconn ''bob'' sample_udb = (new_user, sample_udb)"
proof -
  have r: "UserDao_findByUsername mem_driver mem_uconn ''ann'' sample_udb = (sample_users ! 0, sample_udb)"
    "UserDao_findByUsername mem_driver mem_uconn ''bob'' sample_udb = (new_user, sample_udb)" by code_simp+
  have "sample_users ! 0 \<noteq> new_user" by code_simp
  from UserDao_lookups_sound [OF mem_laws sample_udb_ok this, of mem_uconn 1 sample_udb "''ann''" "[]" 0 "[]"] r
  show ?thesis by blast
qed

text \<open>The existence tests. When the query runs, \<open>existsUsername\<close> and \<open>existsEmail\<close> say whether any
  stored user, disabled ones included, has the name or the address; when it does not run, they say no.\<close>

theorem UserDao_exists_exact:
  assumes laws: "mysql_laws D view" and ok: "db_ok (view w)"
    and fits: "in_i64 (int (length (view w ''users'')))"
  shows
    "(UserDao_existsUsername D c name w = (b, w') \<longrightarrow> view w' = view w \<and>
      (b \<longleftrightarrow> fst (valid_query D c sql_user_exists_username [BString 1 name] w) \<noteq> None \<and>
        (\<exists>u\<in>set (stored_users (view w)). drv_eq D (SStr (u_username u)) (SStr name)))) \<and>
     (UserDao_existsEmail D c mail w = (b, w') \<longrightarrow> view w' = view w \<and>
      (b \<longleftrightarrow> fst (valid_query D c sql_user_exists_email [BString 1 mail] w) \<noteq> None \<and>
        (\<exists>u\<in>set (stored_users (view w)). drv_eq D (SStr (u_email u)) (SStr mail))))"
  using UserDao_exists_name [where view = view and w = w, OF laws ok fits, of c name b w']
    UserDao_exists_mail [where view = view and w = w, OF laws ok fits, of c mail b w']
  by blast

theorem UserDao_exists_exact_witness:
  "UserDao_existsUsername mem_driver mem_uconn ''bob'' sample_udb = (True, sample_udb) \<and>
   (\<exists>u\<in>set (stored_users (mem_view sample_udb)). drv_eq mem_driver (SStr (u_username u)) (SStr ''bob''))"
proof -
  have f: "in_i64 (int (length (mem_view sample_udb ''users'')))" by code_simp
  have r: "UserDao_existsUsername mem_driver mem_uconn ''bob'' sample_udb = (True, sample_udb)" by code_simp
  from UserDao_exists_exact [where view = mem_view and w = sample_udb and D = mem_driver
      and c = mem_uconn and name = "''bob''" and b = True and w' = sample_udb,
      OF mem_laws sample_udb_ok f] r
  show ?thesis by blast
qed

end
