(* ===== verification/BlogService.thy ===== *)
theory BlogService
  imports BlogDaoProps
begin

text \<open>
  \<open>BlogService\<close> (\<^verbatim>\<open>blog/src/service/blog_service.cc\<close>). The argument \<open>dao\<close> is the member
  \<open>blog_dao_\<close>: null, or the DAO with its connection. \<open>now\<close> is the clock at the call.
\<close>

type_synonym 'h dao_ptr = "'h mysql_connection option option"

section \<open>Operations\<close>

definition createBlog ::
    "('h, 'w) driver \<Rightarrow> 'h dao_ptr \<Rightarrow> int \<Rightarrow> blog \<Rightarrow> 'w \<Rightarrow> blog \<times> 'w" where
  "createBlog D dao now blog w =
     (case dao of None \<Rightarrow> (new_blog, w) | Some c \<Rightarrow>
       if b_title blog = [] \<or> b_content blog = [] then (new_blog, w)
       else if b_author_id blog \<le> 0 then (new_blog, w)
       else
         (case BlogDao_create D c now (blog\<lparr>b_view_count := 0\<rparr>) w of
            (False, b, w') \<Rightarrow> (new_blog, w')
          | (True, b, w') \<Rightarrow> (b, w')))"

text \<open>\<open>t1\<close> is the clock when the publication time is set, \<open>t2\<close> when the row is written.\<close>

definition updateBlog ::
    "('h, 'w) driver \<Rightarrow> 'h dao_ptr \<Rightarrow> int \<Rightarrow> int \<Rightarrow> blog \<Rightarrow> 'w \<Rightarrow> bool \<times> 'w" where
  "updateBlog D dao t1 t2 blog w =
     (case dao of None \<Rightarrow> (False, w) | Some c \<Rightarrow>
       (let i = b_id blog in
        if i \<le> 0 then (False, w)
        else
          (case BlogDao_findById D c i w of (existing_blog, w) \<Rightarrow>
            if b_id existing_blog = 0 then (False, w)
            else
              (let update_blog = existing_blog\<lparr>b_title := b_title blog, b_content := b_content blog,
                     b_summary := b_summary blog, b_status := b_status blog\<rparr>;
                   update_blog =
                     (if b_status existing_blog \<noteq> 1 \<and> b_status blog = 1 \<and> b_published_at update_blog = 0
                      then update_blog\<lparr>b_published_at := t1\<rparr> else update_blog)
               in BlogDao_update D c t2 update_blog w))))"

definition validateOwnership ::
    "('h, 'w) driver \<Rightarrow> 'h dao_ptr \<Rightarrow> int \<Rightarrow> int \<Rightarrow> 'w \<Rightarrow> bool \<times> 'w" where
  "validateOwnership D dao blog_id user_id w =
     (case dao of None \<Rightarrow> (False, w) | Some c \<Rightarrow>
       (case BlogDao_findById D c blog_id w of (blog, w) \<Rightarrow>
         if b_id blog = 0 then (False, w) else (b_author_id blog = user_id, w)))"

definition deleteBlog ::
    "('h, 'w) driver \<Rightarrow> 'h dao_ptr \<Rightarrow> int \<Rightarrow> int \<Rightarrow> int \<Rightarrow> 'w \<Rightarrow> bool \<times> 'w" where
  "deleteBlog D dao now blog_id user_id w =
     (case dao of None \<Rightarrow> (False, w) | Some c \<Rightarrow>
       if blog_id \<le> 0 \<or> user_id \<le> 0 then (False, w)
       else
         (case validateOwnership D dao blog_id user_id w of (owns, w) \<Rightarrow>
           if \<not> owns then (False, w) else BlogDao_remove D c now blog_id True w))"

definition getBlog :: "('h, 'w) driver \<Rightarrow> 'h dao_ptr \<Rightarrow> int \<Rightarrow> 'w \<Rightarrow> blog \<times> 'w" where
  "getBlog D dao blog_id w =
     (case dao of None \<Rightarrow> (new_blog, w) | Some c \<Rightarrow>
       if blog_id \<le> 0 then (new_blog, w) else BlogDao_findById D c blog_id w)"

text \<open>
  The pagination done in the service: the window \<open>[start, end)\<close> of the list, with the arithmetic in
  \<^verbatim>\<open>int\<close> and the conversion \<^verbatim>\<open>(int)blogs.size()\<close>. Iterators outside the vector are
  undefined behaviour.
\<close>

definition manual_page :: "'a list \<Rightarrow> int \<Rightarrow> int \<Rightarrow> 'a list res" where
  "manual_page blogs page page_size =
     rbind (page_offset page page_size) (\<lambda>start.
       let size = i32_of (int (length blogs)) in
       if start \<ge> size then Inr []
       else
         rbind (i32_checked (start + page_size)) (\<lambda>stop.
           let stop = min stop size in
           if 0 \<le> start \<and> start \<le> stop \<and> stop \<le> int (length blogs)
           then Inr (take (nat (stop - start)) (drop (nat start) blogs))
           else Inl UndefinedBehaviour))"

definition getBlogList ::
    "('h, 'w) driver \<Rightarrow> 'h dao_ptr \<Rightarrow> int \<Rightarrow> int \<Rightarrow> int \<Rightarrow> 'w \<Rightarrow> blog list res \<times> 'w" where
  "getBlogList D dao page page_size status w =
     (case dao of None \<Rightarrow> (Inr [], w) | Some c \<Rightarrow>
       (let page = (if page < 1 then 1 else page);
            page_size = (if page_size < 1 then 10 else page_size)
        in if status = -1 then BlogDao_findPage D c page page_size None None w
           else
             (case BlogDao_findByStatus D c status w of
                (blogs, w) \<Rightarrow> (manual_page blogs page page_size, w))))"

definition getUserBlogs ::
    "('h, 'w) driver \<Rightarrow> 'h dao_ptr \<Rightarrow> int \<Rightarrow> int \<Rightarrow> int \<Rightarrow> 'w \<Rightarrow> blog list res \<times> 'w" where
  "getUserBlogs D dao user_id page page_size w =
     (case dao of None \<Rightarrow> (Inr [], w) | Some c \<Rightarrow>
       if user_id \<le> 0 then (Inr [], w)
       else
         (let page = (if page < 1 then 1 else page);
              page_size = (if page_size < 1 then 10 else page_size)
          in case BlogDao_findByAuthor D c user_id False w of
               (blogs, w) \<Rightarrow> (manual_page blogs page page_size, w)))"

definition increaseViewCount ::
    "('h, 'w) driver \<Rightarrow> 'h dao_ptr \<Rightarrow> int \<Rightarrow> int \<Rightarrow> 'w \<Rightarrow> bool \<times> 'w" where
  "increaseViewCount D dao now blog_id w =
     (case dao of None \<Rightarrow> (False, w) | Some c \<Rightarrow>
       if blog_id \<le> 0 then (False, w) else BlogDao_increaseViewCount D c now blog_id w)"

definition publishBlog ::
    "('h, 'w) driver \<Rightarrow> 'h dao_ptr \<Rightarrow> int \<Rightarrow> int \<Rightarrow> int \<Rightarrow> 'w \<Rightarrow> bool \<times> 'w" where
  "publishBlog D dao now blog_id user_id w =
     (case dao of None \<Rightarrow> (False, w) | Some c \<Rightarrow>
       if blog_id \<le> 0 \<or> user_id \<le> 0 then (False, w)
       else
         (case validateOwnership D dao blog_id user_id w of (owns, w) \<Rightarrow>
           if \<not> owns then (False, w) else BlogDao_publishBlog D c now blog_id w))"

definition searchBlogs ::
    "('h, 'w) driver \<Rightarrow> 'h dao_ptr \<Rightarrow> string \<Rightarrow> int \<Rightarrow> int \<Rightarrow> 'w \<Rightarrow> blog list res \<times> 'w" where
  "searchBlogs D dao keyword page page_size w =
     (case dao of None \<Rightarrow> (Inr [], w) | Some c \<Rightarrow>
       (let page = (if page < 1 then 1 else page);
            page_size = (if page_size < 1 then 10 else page_size)
        in BlogDao_search D c keyword page page_size w))"

section \<open>Ownership\<close>

lemma validateOwnership_outcome:
  assumes laws: "mysql_laws D view" and ok: "db_ok (view w)"
    and run: "validateOwnership D dao i u w = (owns, w')"
  shows "view w' = view w \<and>
    (owns \<longrightarrow> (\<exists>b\<in>set (stored_blogs (view w)). b_id b = i \<and> b_author_id b = u \<and> live_blog b))"
proof (cases dao)
  case None
  with run show ?thesis by (simp add: validateOwnership_def)
next
  case (Some c)
  obtain b w1 where f: "BlogDao_findById D c i w = (b, w1)" by fastforce
  with BlogDao_findById_outcome [OF laws ok f] run Some show ?thesis
    by (auto simp: validateOwnership_def split: if_splits)
qed

text \<open>What the state can be after an operation on the blog \<open>i\<close> that acts on it as \<open>f\<close>.\<close>

definition blog_step :: "int \<Rightarrow> (blog \<Rightarrow> blog) \<Rightarrow> blog list \<Rightarrow> blog list \<Rightarrow> bool" where
  "blog_step i f bs bs' \<longleftrightarrow> bs' = bs \<or> bs' = on_blog i f bs"

lemma owned_step:
  assumes laws: "mysql_laws D view" and ok: "db_ok (view w)"
    and run: "(case validateOwnership D dao i u w of (owns, w) \<Rightarrow>
      if \<not> owns then (False, w) else op w) = (r, w')"
    and op: "\<And>w. db_ok (view w) \<Longrightarrow> op w = (r, w') \<Longrightarrow> update_outcome i f r (view w) (view w')"
  shows "db_ok (view w') \<and> blog_step i f (stored_blogs (view w)) (stored_blogs (view w')) \<and>
    (r \<or> stored_blogs (view w') \<noteq> stored_blogs (view w) \<longrightarrow>
      (\<exists>b\<in>set (stored_blogs (view w)). b_id b = i \<and> b_author_id b = u \<and> live_blog b))"
proof -
  obtain owns w1 where v: "validateOwnership D dao i u w = (owns, w1)" by fastforce
  note own = validateOwnership_outcome [OF laws ok v]
  show ?thesis
  proof (cases owns)
    case False
    with run v own ok show ?thesis by (auto simp: blog_step_def)
  next
    case True
    with run v have "op w1 = (r, w')" by simp
    moreover have "db_ok (view w1)" using own ok by simp
    ultimately have "update_outcome i f r (view w1) (view w')" by (intro op)
    with own True show ?thesis unfolding update_outcome_def blog_step_def by auto
  qed
qed

lemma deleteBlog_step:
  assumes laws: "mysql_laws D view" and ok: "db_ok (view w)"
    and run: "deleteBlog D dao now i u w = (r, w')"
  shows "db_ok (view w') \<and> blog_step i (blog_softDelete now) (stored_blogs (view w)) (stored_blogs (view w')) \<and>
    (r \<or> stored_blogs (view w') \<noteq> stored_blogs (view w) \<longrightarrow> 0 < u \<and>
      (\<exists>b\<in>set (stored_blogs (view w)). b_id b = i \<and> b_author_id b = u \<and> live_blog b))"
proof (cases dao)
  case None
  with run ok show ?thesis by (simp add: deleteBlog_def blog_step_def)
next
  case (Some c)
  show ?thesis
  proof (cases "i \<le> 0 \<or> u \<le> 0")
    case True
    with run ok Some show ?thesis by (auto simp: deleteBlog_def blog_step_def split: if_splits)
  next
    case False
    with run Some have "(case validateOwnership D dao i u w of (owns, w) \<Rightarrow>
        if \<not> owns then (False, w) else BlogDao_remove D c now i True w) = (r, w')"
      by (simp add: deleteBlog_def)
    from owned_step [OF laws ok this BlogDao_soft_delete_outcome [OF laws]] False show ?thesis by auto
  qed
qed

lemma publishBlog_step:
  assumes laws: "mysql_laws D view" and ok: "db_ok (view w)"
    and run: "publishBlog D dao now i u w = (r, w')"
  shows "db_ok (view w') \<and> blog_step i (blog_publish now) (stored_blogs (view w)) (stored_blogs (view w')) \<and>
    (r \<or> stored_blogs (view w') \<noteq> stored_blogs (view w) \<longrightarrow> 0 < u \<and>
      (\<exists>b\<in>set (stored_blogs (view w)). b_id b = i \<and> b_author_id b = u \<and> live_blog b))"
proof (cases dao)
  case None
  with run ok show ?thesis by (simp add: publishBlog_def blog_step_def)
next
  case (Some c)
  show ?thesis
  proof (cases "i \<le> 0 \<or> u \<le> 0")
    case True
    with run ok Some show ?thesis by (auto simp: publishBlog_def blog_step_def split: if_splits)
  next
    case False
    with run Some have "(case validateOwnership D dao i u w of (owns, w) \<Rightarrow>
        if \<not> owns then (False, w) else BlogDao_publishBlog D c now i w) = (r, w')"
      by (simp add: publishBlog_def)
    from owned_step [OF laws ok this BlogDao_publishBlog_outcome [OF laws]] False show ?thesis by auto
  qed
qed

text \<open>The DAO does not write the publication time, whatever the service sets it to.\<close>

lemma BlogDao_update_published:
  "BlogDao_update D c now (b\<lparr>b_published_at := p\<rparr>) w = BlogDao_update D c now b w"
  by (simp add: BlogDao_update_def)

lemma updateBlog_step:
  assumes laws: "mysql_laws D view" and ok: "db_ok (view w)"
    and run: "updateBlog D dao t1 t2 b w = (r, w')"
  shows "db_ok (view w') \<and>
    blog_step (b_id b) (\<lambda>x. x\<lparr>b_title := b_title b, b_content := b_content b, b_summary := b_summary b,
        b_status := b_status b, b_updated_at := t2\<rparr>)
      (stored_blogs (view w)) (stored_blogs (view w')) \<and>
    (r \<or> stored_blogs (view w') \<noteq> stored_blogs (view w) \<longrightarrow>
      (\<exists>x\<in>set (stored_blogs (view w)). b_id x = b_id b \<and> live_blog x))"
proof (cases "dao = None \<or> b_id b \<le> 0")
  case True
  with run ok show ?thesis by (auto simp: updateBlog_def blog_step_def split: option.splits)
next
  case False
  then obtain c where c: "dao = Some c" and i: "\<not> b_id b \<le> 0" by auto
  obtain e w1 where f: "BlogDao_findById D c (b_id b) w = (e, w1)" by fastforce
  note out = BlogDao_findById_outcome [OF laws ok f]
  show ?thesis
  proof (cases "b_id e = 0")
    case True
    with run c i f out ok show ?thesis by (simp add: updateBlog_def Let_def blog_step_def)
  next
    case nz: False
    with out have e: "e \<in> set (stored_blogs (view w))" "b_id e = b_id b" "live_blog e"
      and v: "view w1 = view w" by auto
    have run': "BlogDao_update D c t2 (e\<lparr>b_title := b_title b, b_content := b_content b,
        b_summary := b_summary b, b_status := b_status b\<rparr>) w1 = (r, w')"
      using run c i f nz by (simp add: updateBlog_def Let_def BlogDao_update_published split: if_splits)
    have ok1: "db_ok (view w1)" using ok v by simp
    note upd = BlogDao_update_outcome [OF laws ok1 run']
    let ?f = "\<lambda>x. x\<lparr>b_title := b_title b, b_content := b_content b, b_summary := b_summary b,
      b_status := b_status b, b_updated_at := t2\<rparr>"
    have same: "x = e" if "x \<in> set (stored_blogs (view w))" "b_id x = b_id b" for x
      using that e(1,2) db_ok_blog_ids [OF ok] by (metis distinct_map inj_onD)
    have "on_blog (b_id b) (blog_written t2 (e\<lparr>b_title := b_title b, b_content := b_content b,
        b_summary := b_summary b, b_status := b_status b\<rparr>)) (stored_blogs (view w)) =
        on_blog (b_id b) ?f (stored_blogs (view w))"
      unfolding on_blog_def
      by (rule map_cong [OF refl]) (auto simp: blog_written_def dest!: same)
    with upd v e show ?thesis
      unfolding update_outcome_def blog_step_def by auto
  qed
qed

lemma increaseViewCount_step:
  assumes laws: "mysql_laws D view" and ok: "db_ok (view w)"
    and run: "increaseViewCount D dao now i w = (r, w')"
  shows "db_ok (view w') \<and>
    blog_step i (\<lambda>b. b\<lparr>b_view_count := b_view_count b + 1, b_updated_at := now\<rparr>)
      (stored_blogs (view w)) (stored_blogs (view w'))"
proof (cases "dao = None \<or> i \<le> 0")
  case True
  with run ok show ?thesis by (auto simp: increaseViewCount_def blog_step_def split: option.splits)
next
  case False
  then obtain c where "dao = Some c" "\<not> i \<le> 0" by auto
  with run have "BlogDao_increaseViewCount D c now i w = (r, w')" by (simp add: increaseViewCount_def)
  from BlogDao_increaseViewCount_outcome [OF laws ok this] show ?thesis
    unfolding update_outcome_def blog_step_def by auto
qed

lemma createBlog_step:
  assumes laws: "mysql_laws D view" and ok: "db_ok (view w)"
    and run: "createBlog D dao now b w = (r, w')"
  shows "db_ok (view w') \<and>
    (stored_blogs (view w') = stored_blogs (view w) \<and> r = new_blog \<or>
     b_title b \<noteq> [] \<and> b_content b \<noteq> [] \<and> 0 < b_author_id b \<and>
     (\<exists>i. i \<notin> b_id ` set (stored_blogs (view w)) \<and> 0 < i \<and>
       (let s = (blog_stamped now (b\<lparr>b_view_count := 0\<rparr>))\<lparr>b_id := i\<rparr> in
        stored_blogs (view w') = stored_blogs (view w) @ [s\<lparr>b_published_at := max 0 (b_published_at s)\<rparr>] \<and>
        (r = s \<or> r = s\<lparr>b_id := 0\<rparr>))))"
proof (cases "dao = None \<or> b_title b = [] \<or> b_content b = [] \<or> b_author_id b \<le> 0")
  case True
  with run ok show ?thesis by (auto simp: createBlog_def split: option.splits if_splits)
next
  case False
  then obtain c where c: "dao = Some c" by auto
  obtain q b' w1 where cr: "BlogDao_create D c now (b\<lparr>b_view_count := 0\<rparr>) w = (q, b', w1)"
    using prod_cases3 by blast
  note out = BlogDao_create_outcome [OF laws ok cr]
  show ?thesis
  proof (cases q)
    case True
    with out obtain i where "i \<notin> b_id ` set (stored_blogs (view w))" "0 < i" "db_ok (view w1)"
      "stored_blogs (view w1) = stored_blogs (view w) @ [(blog_stamped now (b\<lparr>b_view_count := 0\<rparr>))
        \<lparr>b_id := i, b_published_at := max 0 (b_published_at (blog_stamped now (b\<lparr>b_view_count := 0\<rparr>)))\<rparr>]"
      "b' = (blog_stamped now (b\<lparr>b_view_count := 0\<rparr>))\<lparr>b_id := i\<rparr> \<or>
        b' = (blog_stamped now (b\<lparr>b_view_count := 0\<rparr>))\<lparr>b_id := 0\<rparr>"
      by auto
    moreover have "r = b'" "w' = w1" using run c False cr True by (simp_all add: createBlog_def)
    ultimately show ?thesis using False by (auto simp: Let_def)
  next
    case False': False
    have "r = new_blog" "w' = w1" using run c False cr False' by (simp_all add: createBlog_def)
    with out False' show ?thesis by simp
  qed
qed

section \<open>The life of a blog\<close>

text \<open>One call of a writing operation of the service, with any arguments and at any time.\<close>

inductive service_step :: "('h, 'w) driver \<Rightarrow> 'h dao_ptr \<Rightarrow> 'w \<Rightarrow> 'w \<Rightarrow> bool" for D dao where
  create: "createBlog D dao now b w = (r, w') \<Longrightarrow> service_step D dao w w'"
| update: "updateBlog D dao t1 t2 b w = (ok, w') \<Longrightarrow> service_step D dao w w'"
| delete: "deleteBlog D dao now i u w = (ok, w') \<Longrightarrow> service_step D dao w w'"
| publish: "publishBlog D dao now i u w = (ok, w') \<Longrightarrow> service_step D dao w w'"
| view: "increaseViewCount D dao now i w = (ok, w') \<Longrightarrow> service_step D dao w w'"

inductive service_run :: "('h, 'w) driver \<Rightarrow> 'h dao_ptr \<Rightarrow> 'w \<Rightarrow> 'w \<Rightarrow> bool" for D dao where
  stop: "service_run D dao w w"
| step: "service_run D dao w w' \<Longrightarrow> service_step D dao w' w'' \<Longrightarrow> service_run D dao w w''"

inductive_cases service_runE: "service_run D dao w w'"
inductive_simps service_step_iff: "service_step D dao w w'"

text \<open>What stays of a blog: its key, author and creation time; views only grow; and once deleted
  nothing but the view counter and the modification time changes any more.\<close>

definition kept :: "blog \<Rightarrow> blog \<Rightarrow> bool" where
  "kept b b' \<longleftrightarrow>
     b_id b' = b_id b \<and> b_author_id b' = b_author_id b \<and> b_created_at b' = b_created_at b \<and>
     b_view_count b \<le> b_view_count b' \<and>
     (b_status b = STATUS_DELETED \<longrightarrow>
       b_status b' = STATUS_DELETED \<and> b_title b' = b_title b \<and> b_content b' = b_content b \<and>
       b_summary b' = b_summary b \<and> b_author_name b' = b_author_name b \<and>
       b_published_at b' = b_published_at b)"

definition all_kept :: "blog list \<Rightarrow> blog list \<Rightarrow> bool" where
  "all_kept bs bs' \<longleftrightarrow> (\<forall>b\<in>set bs. \<exists>b'\<in>set bs'. kept b b')"

lemma kept_refl: "kept b b"
  by (simp add: kept_def)

lemma kept_trans: "kept a b \<Longrightarrow> kept b c \<Longrightarrow> kept a c"
  by (auto simp: kept_def)

lemma all_kept_refl: "all_kept bs bs"
  using kept_refl by (auto simp: all_kept_def)

lemma all_kept_trans: "all_kept as bs \<Longrightarrow> all_kept bs cs \<Longrightarrow> all_kept as cs"
  using kept_trans unfolding all_kept_def by blast

lemma all_kept_append: "all_kept bs (bs @ cs)"
  using kept_refl by (auto simp: all_kept_def)

lemma all_kept_step:
  assumes "blog_step i f bs bs'" "\<And>b. b \<in> set bs \<Longrightarrow> b_id b = i \<Longrightarrow> bs' \<noteq> bs \<Longrightarrow> kept b (f b)"
  shows "all_kept bs bs'"
proof (cases "bs' = bs")
  case True
  then show ?thesis by (simp add: all_kept_refl)
next
  case False
  with assms(1) have "bs' = on_blog i f bs" by (simp add: blog_step_def)
  then have "\<exists>b'\<in>set bs'. kept b b'" if "b \<in> set bs" for b
    using assms(2) [OF that] False that kept_refl [of b]
    by (cases "b_id b = i") (force simp: on_blog_def)+
  then show ?thesis by (simp add: all_kept_def)
qed

text \<open>The blog an owner acts on is the live one found.\<close>

lemma live_only:
  assumes ok: "db_ok d" and b: "b \<in> set (stored_blogs d)" "b_id b = i"
    and x: "\<exists>x\<in>set (stored_blogs d). b_id x = i \<and> Q x \<and> live_blog x"
  shows "live_blog b"
  using assms db_ok_blog_ids [OF ok] by (metis distinct_map inj_onD)

lemma service_step_kept:
  assumes laws: "mysql_laws D view"
  shows "service_step D dao w w' \<Longrightarrow> db_ok (view w) \<Longrightarrow>
    db_ok (view w') \<and> all_kept (stored_blogs (view w)) (stored_blogs (view w'))"
proof (induction rule: service_step.induct)
  case (create now b w r w')
  from createBlog_step [OF laws create(2,1)] show ?case
    by (auto simp: Let_def intro: all_kept_refl all_kept_append)
next
  case (update t1 t2 b w ok w')
  note out = updateBlog_step [OF laws update(2,1)]
  then have "\<exists>x\<in>set (stored_blogs (view w)). b_id x = b_id b \<and> True \<and> live_blog x"
    if "stored_blogs (view w') \<noteq> stored_blogs (view w)" using that by blast
  then show ?case
    using out live_only [OF update(2), where Q = "\<lambda>_. True"]
    by (intro conjI all_kept_step [OF conjunct1 [OF conjunct2 [OF out]]])
       (auto simp: kept_def live_blog_def)
next
  case (delete now i u w ok w')
  note out = deleteBlog_step [OF laws delete(2,1)]
  show ?case
    using out live_only [OF delete(2), where Q = "\<lambda>b. b_author_id b = u"]
    by (intro conjI all_kept_step [OF conjunct1 [OF conjunct2 [OF out]]])
       (auto simp: kept_def live_blog_def blog_softDelete_def)
next
  case (publish now i u w ok w')
  note out = publishBlog_step [OF laws publish(2,1)]
  show ?case
    using out live_only [OF publish(2), where Q = "\<lambda>b. b_author_id b = u"]
    by (intro conjI all_kept_step [OF conjunct1 [OF conjunct2 [OF out]]])
       (auto simp: kept_def live_blog_def blog_publish_def)
next
  case (view now i w ok w')
  note out = increaseViewCount_step [OF laws view(2,1)]
  show ?case
    using out by (intro conjI all_kept_step [OF conjunct2 [OF out]]) (auto simp: kept_def)
qed

section \<open>Pages\<close>

lemma manual_page_in_range:
  assumes "1 \<le> page" "1 \<le> page_size" "in_i32 page" "in_i32 page_size" "in_i32 (page * page_size)"
    "in_i32 (int (length xs))"
  shows "manual_page xs page page_size = Inr (take (nat page_size) (drop (nat ((page - 1) * page_size)) xs))"
proof -
  let ?s = "(page - 1) * page_size"
  have s: "0 \<le> ?s" "?s + page_size = page * page_size" using assms(1,2) by (simp_all add: algebra_simps)
  then have "?s \<le> page * page_size" using assms(2) by linarith
  then have r: "in_i32 ?s" "in_i32 (page - 1)"
    using assms(1,3,5) s(1) unfolding in_i32_def by linarith+
  then have off: "page_offset page page_size = Inr ?s"
    by (simp add: page_offset_def i32_checked_def)
  show ?thesis
  proof (cases "?s \<ge> int (length xs)")
    case True
    then have "length xs \<le> nat ?s" by linarith
    with True off assms(6) show ?thesis by (simp add: manual_page_def Let_def i32_of_id)
  next
    case False
    have "take (nat (min (?s + page_size) (int (length xs)) - ?s)) (drop (nat ?s) xs) =
        take (nat page_size) (drop (nat ?s) xs)"
    proof (cases "?s + page_size \<le> int (length xs)")
      case False
      then have "length (drop (nat ?s) xs) \<le> nat page_size"
        "length (drop (nat ?s) xs) \<le> nat (min (?s + page_size) (int (length xs)) - ?s)"
        using s(1) by auto
      then show ?thesis by simp
    qed (simp add: min_def)
    with False off assms s show ?thesis
      by (simp add: manual_page_def Let_def i32_of_id i32_checked_def min_def)
  qed
qed

lemma manual_page_overflow:
  assumes "\<not> in_i32 ((page - 1) * page_size)" "in_i32 (page - 1)"
  shows "manual_page xs page page_size = Inl UndefinedBehaviour"
  using assms by (simp add: manual_page_def page_offset_def i32_checked_def)

section \<open>Properties\<close>

definition sample_dao :: "unit dao_ptr" where
  "sample_dao = Some mem_conn"

text \<open>C2: only the author of a live blog deletes or publishes it. If one of the two calls reports success or
  changes the table of blogs at all, the table held a blog with that key that was not deleted and whose author is the user
  named, and the change is the soft deletion, or the publication, of that one blog.\<close>

theorem delete_publish_owner:
  assumes laws: "mysql_laws D view" and ok: "db_ok (view w)"
    and run: "deleteBlog D dao now i u w = (r, w') \<and> f = blog_softDelete now \<or>
      publishBlog D dao now i u w = (r, w') \<and> f = blog_publish now"
  shows "blog_step i f (stored_blogs (view w)) (stored_blogs (view w')) \<and>
    (r \<or> stored_blogs (view w') \<noteq> stored_blogs (view w) \<longrightarrow>
      (\<exists>b\<in>set (stored_blogs (view w)). b_id b = i \<and> b_author_id b = u \<and> live_blog b))"
  using run deleteBlog_step [OF laws ok, of dao now i u r w'] publishBlog_step [OF laws ok, of dao now i u r w']
  by blast

theorem delete_publish_owner_witness:
  "\<exists>w'. deleteBlog mem_driver sample_dao 30 2 7 sample_db = (True, w') \<and>
     (\<exists>b\<in>set (stored_blogs (mem_view sample_db)). b_id b = 2 \<and> b_author_id b = 7 \<and> live_blog b) \<and>
     deleteBlog mem_driver sample_dao 30 2 8 sample_db = (False, sample_db)"
proof -
  let ?w = "snd (deleteBlog mem_driver sample_dao 30 2 7 sample_db)"
  have r: "deleteBlog mem_driver sample_dao 30 2 7 sample_db = (True, ?w)" by code_simp
  have "deleteBlog mem_driver sample_dao 30 2 8 sample_db = (False, sample_db)" by code_simp
  with delete_publish_owner [OF mem_laws sample_ok disjI1 [OF conjI [OF r refl]]] r show ?thesis by blast
qed

text \<open>Creating a blog. A blog that is created has a title, a content and an author, starts with no
  views and the timestamps of the call, and is the only change of the table; a publication time is
  set when it is created as published. Whatever is not created leaves the table and gives the empty
  blog.\<close>

theorem createBlog_effect:
  assumes laws: "mysql_laws D view" and ok: "db_ok (view w)" and run: "createBlog D dao now b w = (r, w')"
  shows "r = new_blog \<and> stored_blogs (view w') = stored_blogs (view w) \<or>
    (\<exists>s. stored_blogs (view w') = stored_blogs (view w) @ [s] \<and>
      b_id s \<notin> b_id ` set (stored_blogs (view w)) \<and> 0 < b_id s \<and> b_id r \<in> {0, b_id s} \<and>
      b_title s = b_title b \<and> b_title b \<noteq> [] \<and> b_content s = b_content b \<and> b_content b \<noteq> [] \<and>
      b_author_id s = b_author_id b \<and> 0 < b_author_id b \<and> b_status s = b_status b \<and>
      b_view_count s = 0 \<and> b_created_at s = now \<and> b_updated_at s = now \<and>
      (b_status b = STATUS_PUBLISHED \<and> b_published_at b = 0 \<longrightarrow> b_published_at s = max 0 now))"
  using createBlog_step [OF laws ok run]
proof (elim conjE disjE exE)
  fix i
  let ?s = "(blog_stamped now (b\<lparr>b_view_count := 0\<rparr>))\<lparr>b_id := i\<rparr>"
  assume a: "b_title b \<noteq> []" "b_content b \<noteq> []" "0 < b_author_id b"
    "i \<notin> b_id ` set (stored_blogs (view w))" "0 < i"
    and "let s = ?s in stored_blogs (view w') = stored_blogs (view w) @
      [s\<lparr>b_published_at := max 0 (b_published_at s)\<rparr>] \<and> (r = s \<or> r = s\<lparr>b_id := 0\<rparr>)"
  then have st: "stored_blogs (view w') = stored_blogs (view w) @ [?s\<lparr>b_published_at := max 0 (b_published_at ?s)\<rparr>]"
    and r: "r = ?s \<or> r = ?s\<lparr>b_id := 0\<rparr>"
    by (simp_all add: Let_def)
  show ?thesis
    by (rule disjI2, rule exI [of _ "?s\<lparr>b_published_at := max 0 (b_published_at ?s)\<rparr>"])
       (use a st r in \<open>auto simp: blog_stamped_def Let_def\<close>)
qed simp

theorem createBlog_effect_witness:
  "\<exists>r w'. createBlog mem_driver sample_dao 40
       (new_blog\<lparr>b_title := ''t'', b_content := ''c'', b_author_id := 9, b_view_count := 99, b_status := 1\<rparr>) sample_db = (r, w') \<and>
     b_id r = 3 \<and> b_view_count r = 0 \<and> b_published_at r = 40 \<and>
     (\<exists>s. stored_blogs (mem_view w') = stored_blogs (mem_view sample_db) @ [s] \<and> b_view_count s = 0)"
proof -
  let ?b = "new_blog\<lparr>b_title := ''t'', b_content := ''c'', b_author_id := 9, b_view_count := 99, b_status := 1\<rparr>"
  let ?run = "createBlog mem_driver sample_dao 40 ?b sample_db"
  have r: "?run = (fst ?run, snd ?run)" by simp
  have v: "b_id (fst ?run) = 3" "b_view_count (fst ?run) = 0" "b_published_at (fst ?run) = 40" by code_simp+
  then have "fst ?run \<noteq> new_blog" by auto
  with createBlog_effect [OF mem_laws sample_ok r] obtain s
    where "stored_blogs (mem_view (snd ?run)) = stored_blogs (mem_view sample_db) @ [s]" "b_view_count s = 0"
    by blast
  with r v show ?thesis by blast
qed

text \<open>Editing a blog changes title, content, summary, status and modification time of the one
  live blog with that key and nothing else. In particular a draft that is set to published this way is
  stored without a publication time: the time the service sets is not among the columns the DAO
  writes.\<close>

theorem updateBlog_effect:
  assumes laws: "mysql_laws D view" and ok: "db_ok (view w)" and run: "updateBlog D dao t1 t2 b w = (r, w')"
  shows "blog_step (b_id b) (\<lambda>x. x\<lparr>b_title := b_title b, b_content := b_content b,
        b_summary := b_summary b, b_status := b_status b, b_updated_at := t2\<rparr>)
      (stored_blogs (view w)) (stored_blogs (view w')) \<and>
    (r \<or> stored_blogs (view w') \<noteq> stored_blogs (view w) \<longrightarrow>
      (\<exists>x\<in>set (stored_blogs (view w)). b_id x = b_id b \<and> live_blog x)) \<and>
    map b_published_at (stored_blogs (view w')) = map b_published_at (stored_blogs (view w))"
proof -
  note out = updateBlog_step [OF laws ok run]
  have "map b_published_at (stored_blogs (view w')) = map b_published_at (stored_blogs (view w))"
    using out unfolding blog_step_def by (elim conjE disjE) (simp_all add: on_blog_def)
  with out show ?thesis by blast
qed

theorem updateBlog_effect_witness:
  "\<exists>w'. updateBlog mem_driver sample_dao 40 40 ((sample_blogs ! 1)\<lparr>b_status := 1\<rparr>) sample_db = (True, w') \<and>
     map b_published_at (stored_blogs (mem_view w')) = [11, 0] \<and>
     map b_status (stored_blogs (mem_view w')) = [1, 1]"
proof -
  let ?run = "updateBlog mem_driver sample_dao 40 40 ((sample_blogs ! 1)\<lparr>b_status := 1\<rparr>) sample_db"
  have r: "?run = (True, snd ?run)" by code_simp
  have "map b_published_at (stored_blogs (mem_view sample_db)) = [11, 0]"
    "map b_status (stored_blogs (mem_view (snd ?run))) = [1, 1]" by code_simp+
  with r updateBlog_effect [OF mem_laws sample_ok r] show ?thesis by auto
qed

text \<open>C5: over any sequence of calls of the service a blog keeps its key, its author and its creation
  time, its views never go down, and a deleted blog stays deleted with its text unchanged; the schema is kept.\<close>

theorem service_run_kept:
  assumes "mysql_laws D view" "service_run D dao w w'" "db_ok (view w)"
  shows "db_ok (view w') \<and> all_kept (stored_blogs (view w)) (stored_blogs (view w'))"
  using assms(2,3)
proof (induction rule: service_run.induct)
  case (stop w)
  then show ?case by (simp add: all_kept_refl)
next
  case (step w w' w'')
  then show ?case using service_step_kept [OF assms(1)] all_kept_trans by blast
qed

theorem service_run_kept_witness:
  "\<exists>w'. service_run mem_driver sample_dao sample_db w' \<and> stored_blogs (mem_view w') \<noteq> sample_blogs \<and>
     all_kept (stored_blogs (mem_view sample_db)) (stored_blogs (mem_view w'))"
proof -
  let ?w = "snd (deleteBlog mem_driver sample_dao 30 2 7 sample_db)"
  have "deleteBlog mem_driver sample_dao 30 2 7 sample_db = (True, ?w)" by code_simp
  then have run: "service_run mem_driver sample_dao sample_db ?w"
    by (intro service_run.step [OF service_run.stop]) (rule service_step.delete)
  have "stored_blogs (mem_view ?w) \<noteq> sample_blogs" by code_simp
  with run service_run_kept [OF mem_laws run sample_ok] show ?thesis by blast
qed

text \<open>The manual pagination of the service. With the arithmetic in range a page is the exact window
  of the list, so page by page the whole list comes out; when the offset leaves the range of
  \<^verbatim>\<open>int\<close> (a large page number sent by the client) the behaviour is undefined.\<close>

theorem manual_page_window:
  assumes "in_i32 page" "in_i32 page_size" "1 \<le> page" "1 \<le> page_size"
  shows "(in_i32 (page * page_size) \<and> in_i32 (int (length xs)) \<longrightarrow>
      manual_page xs page page_size = Inr (take (nat page_size) (drop (nat ((page - 1) * page_size)) xs))) \<and>
    (\<not> in_i32 ((page - 1) * page_size) \<longrightarrow> manual_page xs page page_size = Inl UndefinedBehaviour)"
proof -
  have "in_i32 (page - 1)" using assms(1,3) by (simp add: in_i32_def)
  then show ?thesis using manual_page_in_range manual_page_overflow assms by blast
qed

theorem manual_page_window_witness:
  "manual_page [10, 20, 30, 40, 50 :: int] 2 2 = Inr [30, 40] \<and>
   manual_page [10, 20 :: int] 2147483647 20 = Inl UndefinedBehaviour"
proof
  have i: "in_i32 2" "in_i32 (2 * 2)" "in_i32 (int (length [10, 20, 30, 40, 50 :: int]))" "in_i32 2147483647"
    "in_i32 20" "\<not> in_i32 ((2147483647 - 1) * 20)"
    by (simp_all add: in_i32_def)
  have o: "(1 :: int) \<le> 2" "(1 :: int) \<le> 2147483647" "(1 :: int) \<le> 20" by simp_all
  have "manual_page [10, 20, 30, 40, 50 :: int] 2 2 =
      Inr (take (nat 2) (drop (nat ((2 - 1) * 2)) [10, 20, 30, 40, 50]))"
    by (rule mp [OF conjunct1 [OF manual_page_window [OF i(1) i(1) o(1) o(1)]] conjI [OF i(2,3)]])
  also have "\<dots> = Inr [30, 40]" by code_simp
  finally show "manual_page [10, 20, 30, 40, 50 :: int] 2 2 = Inr [30, 40]" .
  show "manual_page [10, 20 :: int] 2147483647 20 = Inl UndefinedBehaviour"
    by (rule mp [OF conjunct2 [OF manual_page_window [OF i(4,5) o(2,3)]] i(6)])
qed

text \<open>The list of blogs by status. For any status the client asks for, and so also for drafts and deleted
  blogs, the page is a window of the blogs with that status, newest first; nothing restricts the status to
  the published ones.\<close>

theorem getBlogList_by_status:
  assumes laws: "mysql_laws D view" and ok: "db_ok (view w)"
    and run: "getBlogList D dao page page_size status w = (Inr out, w')"
    and args: "1 \<le> page" "1 \<le> page_size" "in_i32 page" "in_i32 page_size" "in_i32 (page * page_size)"
    and few: "length (view w ''blogs'') < 2 ^ 31" and st: "status \<noteq> -1"
  shows "view w' = view w \<and>
    found (\<lambda>b. b_status b = status) by_created (Some (nat page_size, nat ((page - 1) * page_size))) (view w) out"
proof (cases dao)
  case None
  with run show ?thesis by (simp add: getBlogList_def found_def)
next
  case (Some c)
  obtain bs w1 where f: "BlogDao_findByStatus D c status w = (bs, w1)" by fastforce
  note fd = BlogDao_findByStatus_found [OF laws ok f]
  have "length bs \<le> length (stored_blogs (view w))"
  proof (cases "bs = []")
    case False
    with fd have "listing (\<lambda>b. b_status b = status) by_created None (stored_blogs (view w)) bs"
      by (simp add: found_def)
    from mset_eq_length [OF listing_all [OF this]] show ?thesis by (simp add: length_filter_le)
  qed simp
  then have "in_i32 (int (length bs))" using few by (simp add: in_i32_def stored_blogs_def)
  then have "out = take (nat page_size) (drop (nat ((page - 1) * page_size)) bs)" "w' = w1"
    using run Some f st args manual_page_in_range [OF args, of bs]
    by (simp_all add: getBlogList_def Let_def)
  with fd show ?thesis by (auto simp: found_def listing_def)
qed

theorem getBlogList_by_status_witness:
  "getBlogList mem_driver sample_dao 1 20 0 sample_db = (Inr [sample_blogs ! 1], sample_db) \<and>
   found (\<lambda>b. b_status b = STATUS_DRAFT) by_created (Some (20, 0)) (mem_view sample_db) [sample_blogs ! 1]"
proof -
  have r: "getBlogList mem_driver sample_dao 1 20 0 sample_db = (Inr [sample_blogs ! 1], sample_db)" by code_simp
  have "length (mem_view sample_db ''blogs'') = 2" by code_simp
  then have few: "length (mem_view sample_db ''blogs'') < 2 ^ 31" by simp
  from getBlogList_by_status [where view = mem_view, OF mem_laws sample_ok r _ _ _ _ _ few] r
  show ?thesis by (simp add: in_i32_def STATUS_DRAFT_def)
qed

end
