(* ===== verification/CryptoUtil.thy ===== *)
theory CryptoUtil
  imports Prelude
begin

text \<open>
  The digests of \<open>CryptoUtil\<close> (\<^verbatim>\<open>blog/src/util/crypto_util.cc\<close>) and the random identifiers of
  \<^verbatim>\<open>blog/src/util/jwt_util.cc\<close>, both printed in hexadecimal. OpenSSL's digest functions are
  parameters that give the bytes of the digest; the random generators are parameters that give what
  they drew.
\<close>

section \<open>Digests\<close>

definition hex_digit :: "nat \<Rightarrow> char" where
  "hex_digit n = (if n < 10 then char_of (48 + n) else char_of (87 + n))"

text \<open>\<^verbatim>\<open>sprintf("%02x", digest[i])\<close>\<close>

definition hex02 :: "nat \<Rightarrow> string" where
  "hex02 n = [hex_digit (n div 16), hex_digit (n mod 16)]"

definition md5 :: "(string \<Rightarrow> nat list) \<Rightarrow> string \<Rightarrow> string" where
  "md5 MD5 str = concat (map hex02 (MD5 str))"

definition sha1 :: "(string \<Rightarrow> nat list) \<Rightarrow> string \<Rightarrow> string" where
  "sha1 SHA1 str = concat (map hex02 (SHA1 str))"

lemma hex_digit_inj: "m < 16 \<Longrightarrow> n < 16 \<Longrightarrow> hex_digit m = hex_digit n \<Longrightarrow> m = n"
proof -
  assume a: "m < 16" "n < 16" "hex_digit m = hex_digit n"
  then have "(of_char (hex_digit m) :: nat) = of_char (hex_digit n)" by simp
  with a(1,2) show "m = n" by (auto simp: hex_digit_def split: if_splits)
qed

text \<open>The text determines the digest: comparing texts compares digests.\<close>

lemma hex02_inj: "m < 256 \<Longrightarrow> n < 256 \<Longrightarrow> hex02 m = hex02 n \<Longrightarrow> m = n"
proof -
  assume a: "m < 256" "n < 256" "hex02 m = hex02 n"
  then have "m div 16 = n div 16" "m mod 16 = n mod 16"
    by (auto simp: hex02_def intro: hex_digit_inj)
  then show "m = n" by (metis div_mod_decomp)
qed

lemma hex_text_inj:
  "\<forall>x\<in>set xs. x < 256 \<Longrightarrow> \<forall>x\<in>set ys. x < 256 \<Longrightarrow>
   concat (map hex02 xs) = concat (map hex02 ys) \<Longrightarrow> xs = ys"
proof (induction xs arbitrary: ys)
  case Nil
  then show ?case by (cases ys) (simp_all add: hex02_def)
next
  case (Cons x xs)
  have "length (hex02 n) = 2" "hex02 n \<noteq> []" for n by (simp_all add: hex02_def)
  with Cons.prems(3) obtain y zs where ys: "ys = y # zs"
    and eq: "hex02 x = hex02 y" "concat (map hex02 xs) = concat (map hex02 zs)"
    by (cases ys) (simp_all add: append_eq_append_conv)
  from Cons.IH [OF _ _ eq(2)] hex02_inj [OF _ _ eq(1)] Cons.prems(1,2) ys show ?case by simp
qed

section \<open>Random identifiers\<close>

definition random_chars :: string where
  "random_chars =
     ''0123456789'' @ ''ABCDEFGHIJKLMNOPQRSTUVWXYZ'' @ ''abcdefghijklmnopqrstuvwxyz''"

text \<open>\<open>draws\<close> are the values of \<^verbatim>\<open>distribution(generator)\<close>, one for each round of the loop.\<close>

definition generateRandomString :: "nat list \<Rightarrow> string" where
  "generateRandomString draws = map (\<lambda>i. random_chars ! i) draws"

text \<open>\<open>rand\<close> is what \<^verbatim>\<open>RAND_bytes\<close> delivered, \<open>None\<close> when it failed.\<close>

definition generateJTI :: "nat list option \<Rightarrow> nat list \<Rightarrow> string" where
  "generateJTI rand draws =
     (case rand of
        Some buffer \<Rightarrow> concat (map hex02 buffer)
      | None \<Rightarrow> generateRandomString draws)"

lemma hex_digit_alnum:
  "n < 16 \<Longrightarrow> hex_digit n \<noteq> CHR 0x22"
proof -
  assume "n < 16"
  then have "(of_char (hex_digit n) :: nat) \<noteq> 34" by (simp add: hex_digit_def)
  then show ?thesis by auto
qed

lemma generateJTI_no_quote:
  assumes "\<forall>bs. rand = Some bs \<longrightarrow> (\<forall>b\<in>set bs. b < 256)" "\<forall>i\<in>set draws. i < 62"
  shows "CHR 0x22 \<notin> set (generateJTI rand draws)"
proof (cases rand)
  case (Some bs)
  then have "\<forall>b\<in>set bs. b < 256" using assms(1) by simp
  then have "CHR 0x22 \<noteq> hex_digit (b div 16) \<and> CHR 0x22 \<noteq> hex_digit (b mod 16)" if "b \<in> set bs" for b
    using that hex_digit_alnum [of "b div 16"] hex_digit_alnum [of "b mod 16"] by (auto simp: less_mult_imp_div_less)
  with Some show ?thesis by (auto simp: generateJTI_def hex02_def)
next
  case None
  have "random_chars ! i \<noteq> CHR 0x22" if "i < 62" for i
  proof -
    have "list_all (\<lambda>c. c \<noteq> CHR 0x22) random_chars" by code_simp
    moreover have "length random_chars = 62" by (simp add: random_chars_def)
    ultimately show ?thesis using that by (simp add: list_all_length)
  qed
  with None assms(2) show ?thesis by (fastforce simp: generateJTI_def generateRandomString_def)
qed

end
