(* ===== verification/UserService.thy ===== *)
theory UserService
  imports UserDaoProps CryptoUtil
begin

text \<open>
  \<open>UserService\<close> (\<^verbatim>\<open>blog/src/service/user_service.cc\<close>). The argument \<open>dao\<close> is the member \<open>user_dao_\<close>: null, or the DAO with its connection.
\<close>

section \<open>Operations\<close>

type_synonym 'h user_dao_ptr = "'h mysql_connection option option"

definition hashPassword :: "(string \<Rightarrow> nat list) \<Rightarrow> string \<Rightarrow> string" where
  "hashPassword MD5 password = md5 MD5 (''blog_salt_'' @ password)"

definition verifyPassword :: "(string \<Rightarrow> nat list) \<Rightarrow> string \<Rightarrow> string \<Rightarrow> bool" where
  "verifyPassword MD5 password hashed \<longleftrightarrow> hashPassword MD5 password = hashed"

definition registerUser ::
    "('h, 'w) driver \<Rightarrow> (string \<Rightarrow> nat list) \<Rightarrow> 'h user_dao_ptr \<Rightarrow> int \<Rightarrow> string \<Rightarrow> string \<Rightarrow> string \<Rightarrow> string \<Rightarrow>
     'w \<Rightarrow> user \<times> 'w" where
  "registerUser D MD5 dao now username password nickname email w =
     (case dao of None \<Rightarrow> (new_user, w) | Some c \<Rightarrow>
       if username = [] \<or> password = [] then (new_user, w)
       else
         (case UserDao_existsUsername D c username w of (taken, w) \<Rightarrow>
           if taken then (new_user, w)
           else
             (case (if email \<noteq> [] then UserDao_existsEmail D c email w else (False, w)) of (taken, w) \<Rightarrow>
               if taken then (new_user, w)
               else
                 (let user = new_user\<lparr>u_username := username, u_password := hashPassword MD5 password,
                        u_nickname := (if nickname = [] then username else nickname),
                        u_email := email, u_status := 1\<rparr>
                  in case UserDao_create D c now user w of
                       (False, u, w) \<Rightarrow> (new_user, w)
                     | (True, u, w) \<Rightarrow> (u, w)))))"

definition login ::
    "('h, 'w) driver \<Rightarrow> (string \<Rightarrow> nat list) \<Rightarrow> 'h user_dao_ptr \<Rightarrow> string \<Rightarrow> string \<Rightarrow> 'w \<Rightarrow> user \<times> 'w" where
  "login D MD5 dao username password w =
     (case dao of None \<Rightarrow> (new_user, w) | Some c \<Rightarrow>
       if username = [] \<or> password = [] then (new_user, w)
       else
         (case UserDao_findByUsername D c username w of (user, w) \<Rightarrow>
           if u_id user = 0 then (new_user, w)
           else if u_status user \<noteq> 1 then (new_user, w)
           else if \<not> verifyPassword MD5 password (u_password user) then (new_user, w)
           else (user, w)))"

definition getUserById :: "('h, 'w) driver \<Rightarrow> 'h user_dao_ptr \<Rightarrow> int \<Rightarrow> 'w \<Rightarrow> user \<times> 'w" where
  "getUserById D dao user_id w =
     (case dao of None \<Rightarrow> (new_user, w) | Some c \<Rightarrow>
       if user_id \<le> 0 then (new_user, w) else UserDao_findById D c user_id w)"

definition getUserByUsername :: "('h, 'w) driver \<Rightarrow> 'h user_dao_ptr \<Rightarrow> string \<Rightarrow> 'w \<Rightarrow> user \<times> 'w" where
  "getUserByUsername D dao username w =
     (case dao of None \<Rightarrow> (new_user, w) | Some c \<Rightarrow>
       if username = [] then (new_user, w) else UserDao_findByUsername D c username w)"

text \<open>\<^verbatim>\<open>int id = user.getId();\<close> keeps the low 32 bits of the key.\<close>

definition updateUser ::
    "('h, 'w) driver \<Rightarrow> 'h user_dao_ptr \<Rightarrow> int \<Rightarrow> user \<Rightarrow> 'w \<Rightarrow> bool \<times> 'w" where
  "updateUser D dao now user w =
     (case dao of None \<Rightarrow> (False, w) | Some c \<Rightarrow>
       (let i = i32_of (u_id user) in
        if i \<le> 0 then (False, w)
        else
          (case UserDao_findById D c i w of (existing_user, w) \<Rightarrow>
            if u_id existing_user = 0 then (False, w)
            else UserDao_update D c now
              (existing_user\<lparr>u_nickname := u_nickname user, u_email := u_email user,
                 u_avatar := u_avatar user, u_bio := u_bio user\<rparr>) w)))"

definition validateUser ::
    "('h, 'w) driver \<Rightarrow> (string \<Rightarrow> nat list) \<Rightarrow> 'h user_dao_ptr \<Rightarrow> int \<Rightarrow> string \<Rightarrow> 'w \<Rightarrow> bool \<times> 'w" where
  "validateUser D MD5 dao user_id password w =
     (case dao of None \<Rightarrow> (False, w) | Some c \<Rightarrow>
       if user_id \<le> 0 \<or> password = [] then (False, w)
       else
         (case UserDao_findById D c user_id w of (user, w) \<Rightarrow>
           if u_id user = 0 then (False, w)
           else (verifyPassword MD5 password (u_password user), w)))"

definition updatePassword ::
    "('h, 'w) driver \<Rightarrow> (string \<Rightarrow> nat list) \<Rightarrow> 'h user_dao_ptr \<Rightarrow> int \<Rightarrow> int \<Rightarrow> string \<Rightarrow> string \<Rightarrow> 'w \<Rightarrow> bool \<times> 'w" where
  "updatePassword D MD5 dao now user_id old_password new_password w =
     (case dao of None \<Rightarrow> (False, w) | Some c \<Rightarrow>
       if user_id \<le> 0 \<or> old_password = [] \<or> new_password = [] then (False, w)
       else
         (case validateUser D MD5 dao user_id old_password w of (valid, w) \<Rightarrow>
           if \<not> valid then (False, w)
           else UserDao_updatePassword D c now user_id (hashPassword MD5 new_password) w))"

definition resetPassword ::
    "('h, 'w) driver \<Rightarrow> (string \<Rightarrow> nat list) \<Rightarrow> 'h user_dao_ptr \<Rightarrow> int \<Rightarrow> int \<Rightarrow> string \<Rightarrow> 'w \<Rightarrow> bool \<times> 'w" where
  "resetPassword D MD5 dao now user_id new_password w =
     (case dao of None \<Rightarrow> (False, w) | Some c \<Rightarrow>
       if user_id \<le> 0 \<or> new_password = [] then (False, w)
       else UserDao_updatePassword D c now user_id (hashPassword MD5 new_password) w)"

section \<open>Lemmas\<close>

definition user_step :: "int \<Rightarrow> (user \<Rightarrow> user) \<Rightarrow> user list \<Rightarrow> user list \<Rightarrow> bool" where
  "user_step i f us us' \<longleftrightarrow> us' = us \<or> us' = on_user i f us"

lemma user_outcome_step:
  "user_outcome i f r d d' \<Longrightarrow> db_ok d' \<and> user_step i f (stored_users d) (stored_users d') \<and>
     (r \<or> stored_users d' = stored_users d)"
  by (auto simp: user_outcome_def user_step_def)

lemma db_ok_user_ids: "db_ok d \<Longrightarrow> distinct (map u_id (stored_users d))"
  by (simp add: db_ok_def rows_ok_def stored_users_def user_of_row_def comp_def)

lemma stored_user_unique:
  "db_ok d \<Longrightarrow> a \<in> set (stored_users d) \<Longrightarrow> b \<in> set (stored_users d) \<Longrightarrow> u_id a = u_id b \<Longrightarrow> a = b"
  using db_ok_user_ids by (metis distinct_map inj_onD)

lemma login_outcome:
  assumes laws: "mysql_laws D view" and ok: "db_ok (view w)"
    and run: "login D MD5 dao name pw w = (u, w')"
  shows "view w' = view w \<and> (u = new_user \<or>
    u \<in> set (stored_users (view w)) \<and> drv_eq D (SStr (u_username u)) (SStr name) \<and> user_isActive u \<and>
    u_password u = hashPassword MD5 pw \<and> name \<noteq> [] \<and> pw \<noteq> [])"
proof (cases "dao = None \<or> name = [] \<or> pw = []")
  case True
  with run show ?thesis by (auto simp: login_def split: option.splits)
next
  case False
  then obtain c where c: "dao = Some c" by auto
  obtain e w1 where f: "UserDao_findByUsername D c name w = (e, w1)" by fastforce
  from UserDao_findByUsername_outcome [OF laws ok f] run c f False show ?thesis
    by (auto simp: login_def verifyPassword_def split: if_splits)
qed

lemma validateUser_outcome:
  assumes laws: "mysql_laws D view" and ok: "db_ok (view w)"
    and run: "validateUser D MD5 dao i pw w = (r, w')"
  shows "view w' = view w \<and>
    (r \<longrightarrow> (\<exists>u\<in>set (stored_users (view w)). u_id u = i \<and> user_isActive u \<and> u_password u = hashPassword MD5 pw))"
proof (cases "dao = None \<or> i \<le> 0 \<or> pw = []")
  case True
  with run show ?thesis by (auto simp: validateUser_def split: option.splits if_splits)
next
  case False
  then obtain c where c: "dao = Some c" by auto
  obtain e w1 where f: "UserDao_findById D c i w = (e, w1)" by fastforce
  from UserDao_findById_outcome [OF laws ok f] run c f False show ?thesis
    by (auto simp: validateUser_def verifyPassword_def split: if_splits)
qed

lemma updatePassword_outcome:
  assumes laws: "mysql_laws D view" and ok: "db_ok (view w)"
    and run: "updatePassword D MD5 dao now i old_pw new_pw w = (r, w')"
  shows "db_ok (view w') \<and>
    user_step i (\<lambda>u. u\<lparr>u_password := hashPassword MD5 new_pw, u_updated_at := now\<rparr>)
      (stored_users (view w)) (stored_users (view w')) \<and>
    (r \<or> stored_users (view w') \<noteq> stored_users (view w) \<longrightarrow>
      (\<exists>u\<in>set (stored_users (view w)). u_id u = i \<and> user_isActive u \<and> u_password u = hashPassword MD5 old_pw))"
proof (cases "dao = None \<or> i \<le> 0 \<or> old_pw = [] \<or> new_pw = []")
  case True
  with run ok show ?thesis by (auto simp: updatePassword_def user_step_def split: option.splits if_splits)
next
  case False
  then obtain c where c: "dao = Some c" by auto
  obtain v w1 where f: "validateUser D MD5 dao i old_pw w = (v, w1)" by fastforce
  note val = validateUser_outcome [OF laws ok f]
  show ?thesis
  proof (cases v)
    case False': False
    with run c f False val ok show ?thesis by (auto simp: updatePassword_def user_step_def)
  next
    case True
    with run c f False have "UserDao_updatePassword D c now i (hashPassword MD5 new_pw) w1 = (r, w')"
      by (simp add: updatePassword_def)
    from user_outcome_step [OF UserDao_updatePassword_outcome [OF laws _ this]] val ok True
    show ?thesis by auto
  qed
qed

text \<open>The registration, step by step: the name test, the address test, the insertion.\<close>

lemma registerUser_outcome:
  assumes laws: "mysql_laws D view" and ok: "db_ok (view w)" and fits: "in_i64 (int (length (view w ''users'')))"
    and run: "registerUser D MD5 (Some c) now name pw nick mail w = (r, w')"
  shows "db_ok (view w') \<and> (r = new_user \<and> stored_users (view w') = stored_users (view w) \<or>
    name \<noteq> [] \<and> pw \<noteq> [] \<and>
    (fst (valid_query D c sql_user_exists_username [BString 1 name] w) \<noteq> None \<longrightarrow>
      (\<forall>u\<in>set (stored_users (view w)). \<not> drv_eq D (SStr (u_username u)) (SStr name))) \<and>
    (\<exists>s. stored_users (view w') = stored_users (view w) @ [s] \<and>
      u_id s \<notin> u_id ` set (stored_users (view w)) \<and> 0 < u_id s \<and> u_id r \<in> {0, u_id s} \<and>
      u_username s = name \<and> u_password s = hashPassword MD5 pw \<and>
      u_nickname s = (if nick = [] then name else nick) \<and> u_email s = mail \<and> user_isActive s))"
proof (cases "name = [] \<or> pw = []")
  case True
  with run ok show ?thesis by (auto simp: registerUser_def)
next
  case False
  let ?u = "new_user\<lparr>u_username := name, u_password := hashPassword MD5 pw,
    u_nickname := (if nick = [] then name else nick), u_email := mail, u_status := 1\<rparr>"
  obtain t1 w1 where e1: "UserDao_existsUsername D c name w = (t1, w1)" by fastforce
  obtain t2 w2 where e2: "(if mail \<noteq> [] then UserDao_existsEmail D c mail w1 else (False, w1)) = (t2, w2)"
    by fastforce
  obtain q u w3 where cr: "UserDao_create D c now ?u w2 = (q, u, w3)" using prod_cases3 by blast
  note x1 = UserDao_exists_name [where view = view and w = w, OF laws ok fits e1]
  then have v1: "view w1 = view w" by blast
  then have ok1: "db_ok (view w1)" and f1: "in_i64 (int (length (view w1 ''users'')))" using ok fits by simp_all
  have v2: "view w2 = view w"
    using UserDao_exists_mail [where view = view and w = w1, OF laws ok1 f1, of c mail t2 w2] e2 v1
    by (cases "mail = []") auto
  show ?thesis
  proof (cases "t1 \<or> t2")
    case True
    then have "r = new_user \<and> (w' = w1 \<or> w' = w2)"
      using run False e1 e2 by (cases t1) (simp_all add: registerUser_def)
    then show ?thesis using v1 v2 ok by auto
  next
    case no: False
    have ok2: "db_ok (view w2)" using v2 ok by simp
    note out = UserDao_create_outcome [OF laws ok2 cr]
    show ?thesis
    proof (cases q)
      case False': False
      with run False e1 e2 cr no have "r = new_user" "w' = w3" by (simp_all add: registerUser_def Let_def)
      with out False' v2 show ?thesis by simp
    next
      case True
      with run False e1 e2 cr no have r: "r = u" "w' = w3" by (simp_all add: registerUser_def Let_def)
      from out True obtain s where s: "stored_users (view w3) = stored_users (view w2) @ [s]"
        "u_id s \<notin> u_id ` set (stored_users (view w2))" "0 < u_id s"
        "s\<lparr>u_id := 0, u_last_login_at := 0\<rparr> = (user_stamped now ?u)\<lparr>u_id := 0, u_last_login_at := 0\<rparr>"
        "u = (user_stamped now ?u)\<lparr>u_id := u_id s\<rparr> \<or> u = (user_stamped now ?u)\<lparr>u_id := 0\<rparr>"
        and ok3: "db_ok (view w3)" by auto
      have "u_username s = name \<and> u_password s = hashPassword MD5 pw \<and>
          u_nickname s = (if nick = [] then name else nick) \<and> u_email s = mail \<and> user_isActive s"
        using s(4) by (cases s) (simp add: user_stamped_def user_isActive_def STATUS_ACTIVE_def new_user_def)
      moreover have "u_id r \<in> {0, u_id s}" using s(5) r by auto
      moreover have "fst (valid_query D c sql_user_exists_username [BString 1 name] w) \<noteq> None \<longrightarrow>
          (\<forall>u\<in>set (stored_users (view w)). \<not> drv_eq D (SStr (u_username u)) (SStr name))"
        using x1 no by blast
      ultimately show ?thesis using s(1-3) ok3 False unfolding r(2) v2 by blast
    qed
  qed
qed

lemma updateUser_outcome:
  assumes laws: "mysql_laws D view" and ok: "db_ok (view w)" and run: "updateUser D dao now u w = (r, w')"
  shows "user_step (i32_of (u_id u)) (\<lambda>x. x\<lparr>u_nickname := u_nickname u, u_email := u_email u,
      u_avatar := u_avatar u, u_bio := u_bio u, u_updated_at := now\<rparr>)
    (stored_users (view w)) (stored_users (view w')) \<and>
    (r \<longrightarrow> (\<exists>x\<in>set (stored_users (view w)). u_id x = i32_of (u_id u) \<and> user_isActive x))"
proof (cases "dao = None \<or> i32_of (u_id u) \<le> 0")
  case True
  with run show ?thesis by (auto simp: updateUser_def user_step_def Let_def split: option.splits)
next
  case False
  let ?i = "i32_of (u_id u)"
  from False obtain c where c: "dao = Some c" by auto
  obtain e w1 where f: "UserDao_findById D c ?i w = (e, w1)" by fastforce
  note out = UserDao_findById_outcome [OF laws ok f]
  show ?thesis
  proof (cases "u_id e = 0")
    case True
    with run c False f out show ?thesis by (simp add: updateUser_def Let_def user_step_def)
  next
    case nz: False
    with out have e: "e \<in> set (stored_users (view w))" "u_id e = ?i" "user_isActive e" and v: "view w1 = view w"
      by auto
    have "UserDao_update D c now (e\<lparr>u_nickname := u_nickname u, u_email := u_email u,
        u_avatar := u_avatar u, u_bio := u_bio u\<rparr>) w1 = (r, w')"
      using run c False f nz by (simp add: updateUser_def Let_def)
    from user_outcome_step [OF UserDao_update_outcome [OF laws _ this]] ok v
    have "user_step ?i (user_written now (e\<lparr>u_nickname := u_nickname u, u_email := u_email u,
        u_avatar := u_avatar u, u_bio := u_bio u\<rparr>)) (stored_users (view w)) (stored_users (view w'))"
      using e(2) by simp
    moreover have "on_user ?i (user_written now (e\<lparr>u_nickname := u_nickname u, u_email := u_email u,
        u_avatar := u_avatar u, u_bio := u_bio u\<rparr>)) (stored_users (view w)) =
        on_user ?i (\<lambda>x. x\<lparr>u_nickname := u_nickname u, u_email := u_email u,
          u_avatar := u_avatar u, u_bio := u_bio u, u_updated_at := now\<rparr>) (stored_users (view w))"
      unfolding on_user_def
    proof (rule map_cong [OF refl])
      fix x assume "x \<in> set (stored_users (view w))"
      then have "u_id x = ?i \<Longrightarrow> x = e" using stored_user_unique [OF ok _ e(1)] e(2) by simp
      then show "(if u_id x = ?i then user_written now (e\<lparr>u_nickname := u_nickname u, u_email := u_email u,
          u_avatar := u_avatar u, u_bio := u_bio u\<rparr>) x else x) =
        (if u_id x = ?i then x\<lparr>u_nickname := u_nickname u, u_email := u_email u,
          u_avatar := u_avatar u, u_bio := u_bio u, u_updated_at := now\<rparr> else x)"
        by (auto simp: user_written_def)
    qed
    ultimately show ?thesis using e unfolding user_step_def by auto
  qed
qed

section \<open>Properties\<close>

definition sample_udao :: "unit user_dao_ptr" where
  "sample_udao = Some mem_uconn"

text \<open>A digest for the witnesses: the bytes of the text, cut or filled to sixteen.\<close>

definition toy_digest :: "string \<Rightarrow> nat list" where
  "toy_digest t = take 16 (map of_char (drop 10 t) @ replicate 16 0)"



text \<open>C3: nobody logs in with a wrong password. A user that \<open>login\<close> returns is stored and active, the server
  takes its name for the name given, its stored digest is that of the password given, and nothing was changed.\<close>

theorem login_sound:
  assumes laws: "mysql_laws D view" and ok: "db_ok (view w)"
    and run: "login D MD5 dao name pw w = (u, w')" and hit: "u_id u \<noteq> 0"
  shows "u \<in> set (stored_users (view w)) \<and> drv_eq D (SStr (u_username u)) (SStr name) \<and>
    u_status u = STATUS_ACTIVE \<and> u_password u = hashPassword MD5 pw \<and> view w' = view w"
  using login_outcome [OF laws ok run] hit by (auto simp: user_isActive_def)

theorem login_sound_witness:
  "\<exists>u w' w0. login mem_driver toy_digest sample_udao ''eve'' ''secret'' w0 = (u, w') \<and> u_id u = 3 \<and>
     u_password u = hashPassword toy_digest ''secret'' \<and> u_status u = STATUS_ACTIVE"
proof -
  let ?w = "snd (registerUser mem_driver toy_digest sample_udao 50 ''eve'' ''secret'' [] [] sample_udb)"
  let ?run = "login mem_driver toy_digest sample_udao ''eve'' ''secret'' ?w"
  have r: "?run = (fst ?run, snd ?run)" by simp
  have ok: "db_ok (mem_view ?w)" and i: "u_id (fst ?run) = 3" by code_simp+
  from i have "u_id (fst ?run) \<noteq> 0" by simp
  from login_sound [where view = mem_view, OF mem_laws ok r this] r i show ?thesis by blast
qed

text \<open>A password is changed by who knows it. \<open>updatePassword\<close> succeeds or changes the table only if
  the user is stored and active with the digest of the old password, and the change is that user's digest and
  modification time.\<close>

theorem updatePassword_guarded:
  assumes laws: "mysql_laws D view" and ok: "db_ok (view w)"
    and run: "updatePassword D MD5 dao now i old_pw new_pw w = (r, w')"
  shows "user_step i (\<lambda>u. u\<lparr>u_password := hashPassword MD5 new_pw, u_updated_at := now\<rparr>)
      (stored_users (view w)) (stored_users (view w')) \<and>
    (r \<or> stored_users (view w') \<noteq> stored_users (view w) \<longrightarrow>
      (\<exists>u\<in>set (stored_users (view w)). u_id u = i \<and> user_isActive u \<and> u_password u = hashPassword MD5 old_pw))"
  using updatePassword_outcome [OF laws ok run] by blast

theorem updatePassword_guarded_witness:
  "\<exists>w0 w'. updatePassword mem_driver toy_digest sample_udao 60 3 ''secret'' ''other1'' w0 = (True, w') \<and>
     (\<exists>u\<in>set (stored_users (mem_view w0)). u_id u = 3 \<and> u_password u = hashPassword toy_digest ''secret'') \<and>
     updatePassword mem_driver toy_digest sample_udao 60 3 ''guess1'' ''other1'' w0 = (False, w0)"
proof -
  let ?w = "snd (registerUser mem_driver toy_digest sample_udao 50 ''eve'' ''secret'' [] [] sample_udb)"
  let ?run = "updatePassword mem_driver toy_digest sample_udao 60 3 ''secret'' ''other1'' ?w"
  have r: "?run = (True, snd ?run)" by code_simp
  have ok: "db_ok (mem_view ?w)" by code_simp
  have "updatePassword mem_driver toy_digest sample_udao 60 3 ''guess1'' ''other1'' ?w = (False, ?w)" by code_simp
  with updatePassword_guarded [where view = mem_view, OF mem_laws ok r] r show ?thesis by blast
qed

text \<open>Editing a profile writes nickname, mail address, avatar, biography and modification time of one active
  user. Which one is the low 32 bits of the key, so that a key past the range of
  \<^verbatim>\<open>int\<close> edits another user's profile.\<close>

theorem updateUser_effect:
  assumes laws: "mysql_laws D view" and ok: "db_ok (view w)" and run: "updateUser D dao now u w = (r, w')"
  shows "user_step (i32_of (u_id u)) (\<lambda>x. x\<lparr>u_nickname := u_nickname u, u_email := u_email u,
      u_avatar := u_avatar u, u_bio := u_bio u, u_updated_at := now\<rparr>)
    (stored_users (view w)) (stored_users (view w')) \<and>
    (r \<longrightarrow> (\<exists>x\<in>set (stored_users (view w)). u_id x = i32_of (u_id u) \<and> user_isActive x))"
  by (rule updateUser_outcome [OF assms])

lemma u_id_sample: "u_id (new_user\<lparr>u_id := n, u_nickname := t\<rparr>) = n"
  by simp

theorem updateUser_effect_witness:
  "\<exists>w'. updateUser mem_driver sample_udao 60 (new_user\<lparr>u_id := 2 ^ 32 + 1, u_nickname := ''mallory''\<rparr>) sample_udb = (True, w') \<and>
     i32_of (2 ^ 32 + 1) = 1 \<and> (\<exists>x\<in>set (stored_users (mem_view sample_udb)). u_id x = 1 \<and> user_isActive x) \<and>
     map u_nickname (stored_users (mem_view w')) = [''mallory'', []]"
proof -
  let ?u = "new_user\<lparr>u_id := 2 ^ 32 + 1, u_nickname := ''mallory''\<rparr>"
  let ?run = "updateUser mem_driver sample_udao 60 ?u sample_udb"
  have i: "i32_of (2 ^ 32 + 1) = 1" by code_simp
  have r: "?run = (True, snd ?run)" by code_simp
  have n: "map u_nickname (stored_users (mem_view (snd ?run))) = [''mallory'', []]" by code_simp
  have x: "\<exists>x\<in>set (stored_users (mem_view sample_udb)). u_id x = i32_of (2 ^ 32 + 1) \<and> user_isActive x"
    by (rule mp [OF conjunct2 [OF updateUser_effect [OF mem_laws sample_udb_ok r], unfolded u_id_sample] TrueI])
  show ?thesis by (intro exI [of _ "snd ?run"] conjI r i n x [unfolded i])
qed

end
