(* ===== verification/Redis.thy ===== *)
theory Redis
  imports Prelude
begin

text \<open>
  The Redis client of \<^verbatim>\<open>sylar/db/redis_connector.cc\<close>: the reply wrapper \<open>RedisReply\<close> and the
  commands of \<open>RedisConnection\<close>, each the text of its command with the reply read back.

  hiredis and the server are the parameter \<open>R\<close>: what \<^verbatim>\<open>redisCommand\<close> does with a context, and
  whether the context carries an error. \<open>redis_laws\<close> states what the command reference promises of
  the commands the server uses; \<open>kv_driver\<close> is an in-memory server that keeps them.
\<close>

section \<open>Replies\<close>

datatype redis_reply =
    RString string
  | RArray "redis_reply list"
  | RInteger int
  | RNil
  | RStatus string
  | RError string

text \<open>A \<open>RedisReply\<close> holds a reply or a null pointer, which counts as \<^verbatim>\<open>NIL\<close>.\<close>

fun reply_isString :: "redis_reply option \<Rightarrow> bool" where
  "reply_isString (Some (RString s)) = True" | "reply_isString _ = False"

fun reply_isArray :: "redis_reply option \<Rightarrow> bool" where
  "reply_isArray (Some (RArray rs)) = True" | "reply_isArray _ = False"

fun reply_isInteger :: "redis_reply option \<Rightarrow> bool" where
  "reply_isInteger (Some (RInteger n)) = True" | "reply_isInteger _ = False"

fun reply_isStatus :: "redis_reply option \<Rightarrow> bool" where
  "reply_isStatus (Some (RStatus s)) = True" | "reply_isStatus _ = False"

fun reply_isError :: "redis_reply option \<Rightarrow> bool" where
  "reply_isError (Some (RError s)) = True" | "reply_isError _ = False"

fun reply_isNil :: "redis_reply option \<Rightarrow> bool" where
  "reply_isNil None = True" | "reply_isNil (Some RNil) = True" | "reply_isNil _ = False"

fun reply_getString :: "redis_reply option \<Rightarrow> string" where
  "reply_getString (Some (RString s)) = s"
| "reply_getString (Some (RStatus s)) = s"
| "reply_getString (Some (RError s)) = s"
| "reply_getString _ = []"

fun reply_getInteger :: "redis_reply option \<Rightarrow> int" where
  "reply_getInteger (Some (RInteger n)) = n" | "reply_getInteger _ = 0"

fun reply_getStatus :: "redis_reply option \<Rightarrow> string" where
  "reply_getStatus (Some (RStatus s)) = s" | "reply_getStatus _ = []"

fun reply_getError :: "redis_reply option \<Rightarrow> string" where
  "reply_getError (Some (RError s)) = s" | "reply_getError _ = []"

fun reply_getArraySize :: "redis_reply option \<Rightarrow> nat" where
  "reply_getArraySize (Some (RArray rs)) = length rs" | "reply_getArraySize _ = 0"

fun reply_getArrayElement :: "redis_reply option \<Rightarrow> nat \<Rightarrow> redis_reply option" where
  "reply_getArrayElement (Some (RArray rs)) index =
     (if index \<ge> length rs then None else Some (rs ! index))"
| "reply_getArrayElement _ index = None"

section \<open>Connections\<close>

text \<open>
  \<open>rds_connect\<close> is \<^verbatim>\<open>redisConnectWithTimeout\<close> (\<open>None\<close>: no context, or one with an error),
  \<open>rds_err\<close> the error field of a context, \<open>rds_command\<close> the command with its words (a null reply
  is \<open>None\<close>).
\<close>

record ('h, 'w) redis_driver =
  rds_connect :: "string \<Rightarrow> nat \<Rightarrow> nat \<Rightarrow> 'w \<Rightarrow> 'h option \<times> 'w"
  rds_err :: "'h \<Rightarrow> 'w \<Rightarrow> bool"
  rds_command :: "'h \<Rightarrow> string list \<Rightarrow> 'w \<Rightarrow> redis_reply option \<times> 'w"

record 'h redis_connection =
  rc_context :: "'h option"
  rc_host :: string
  rc_port :: nat
  rc_password :: string
  rc_timeout :: nat
  rc_inTransaction :: bool

definition redis_init :: "'h redis_connection" where
  "redis_init = \<lparr>rc_context = None, rc_host = [], rc_port = 0, rc_password = [], rc_timeout = 0,
     rc_inTransaction = False\<rparr>"

text \<open>\<^verbatim>\<open>%s\<close> prints a \<^verbatim>\<open>c_str()\<close>.\<close>

definition redis_isConnected :: "('h, 'w) redis_driver \<Rightarrow> 'h redis_connection \<Rightarrow> 'w \<Rightarrow> bool" where
  "redis_isConnected R c w = (case rc_context c of None \<Rightarrow> False | Some h \<Rightarrow> \<not> rds_err R h w)"

definition redis_executeCommand ::
    "('h, 'w) redis_driver \<Rightarrow> 'h redis_connection \<Rightarrow> string list \<Rightarrow> 'w \<Rightarrow> redis_reply option \<times> 'w" where
  "redis_executeCommand R c argv w =
     (if \<not> redis_isConnected R c w then (None, w)
      else case rc_context c of None \<Rightarrow> (None, w) | Some h \<Rightarrow> rds_command R h argv w)"

definition redis_close :: "'h redis_connection \<Rightarrow> 'h redis_connection" where
  "redis_close c = c\<lparr>rc_context := None, rc_inTransaction := False\<rparr>"

definition redis_connect ::
    "('h, 'w) redis_driver \<Rightarrow> 'h redis_connection \<Rightarrow> string \<Rightarrow> nat \<Rightarrow> nat \<Rightarrow> 'w \<Rightarrow>
     bool \<times> 'h redis_connection \<times> 'w" where
  "redis_connect R c host port timeout w =
     (case rds_connect R (c_str host) port timeout w of
        (ctx, w') \<Rightarrow>
          (ctx \<noteq> None,
           c\<lparr>rc_host := host, rc_port := port, rc_timeout := timeout, rc_context := ctx\<rparr>, w'))"

text \<open>Most commands: a null or an error reply gives the default, any other is read.\<close>

definition redis_simple ::
    "('h, 'w) redis_driver \<Rightarrow> 'h redis_connection \<Rightarrow> string list \<Rightarrow> 'a \<Rightarrow>
     (redis_reply option \<Rightarrow> 'a) \<Rightarrow> 'w \<Rightarrow> 'a \<times> 'w" where
  "redis_simple R c argv d read w =
     (case redis_executeCommand R c argv w of
        (reply, w') \<Rightarrow> (if reply = None \<or> reply_isError reply then d else read reply, w'))"

definition status_is :: "string \<Rightarrow> redis_reply option \<Rightarrow> bool" where
  "status_is s reply \<longleftrightarrow> reply_isStatus reply \<and> reply_getStatus reply = s"

definition string_or_empty :: "redis_reply option \<Rightarrow> string" where
  "string_or_empty reply = (if reply_isNil reply then [] else reply_getString reply)"

definition redis_auth where
  "redis_auth R c password = redis_simple R c [''AUTH'', c_str password] False (\<lambda>_. True)"

definition redis_connect_auth ::
    "('h, 'w) redis_driver \<Rightarrow> 'h redis_connection \<Rightarrow> string \<Rightarrow> nat \<Rightarrow> string \<Rightarrow> nat \<Rightarrow> 'w \<Rightarrow>
     bool \<times> 'h redis_connection \<times> 'w" where
  "redis_connect_auth R c host port password timeout w =
     (case redis_connect R c host port timeout w of
        (ok, c1, w1) \<Rightarrow>
          if \<not> ok then (False, c1, w1)
          else let c2 = c1\<lparr>rc_password := password\<rparr>
               in if password = [] then (True, c2, w1)
                  else case redis_auth R c2 password w1 of
                         (True, w2) \<Rightarrow> (True, c2, w2)
                       | (False, w2) \<Rightarrow> (False, redis_close c2, w2))"

definition redis_reconnect ::
    "('h, 'w) redis_driver \<Rightarrow> 'h redis_connection \<Rightarrow> 'w \<Rightarrow> bool \<times> 'h redis_connection \<times> 'w" where
  "redis_reconnect R c w =
     (let c0 = redis_close c
      in if rc_password c0 = [] then redis_connect R c0 (rc_host c0) (rc_port c0) (rc_timeout c0) w
         else redis_connect_auth R c0 (rc_host c0) (rc_port c0) (rc_password c0) (rc_timeout c0) w)"

section \<open>Commands\<close>

definition redis_select where
  "redis_select R c database = redis_simple R c [''SELECT'', show_int database] False (\<lambda>_. True)"

definition redis_ping where
  "redis_ping R c = redis_simple R c [''PING''] False (status_is ''PONG'')"

definition redis_set where
  "redis_set R c key val expire =
     redis_simple R c
       ([''SET'', c_str key, c_str val] @ (if expire > 0 then [''EX'', show_int expire] else []))
       False (status_is ''OK'')"

definition redis_get where
  "redis_get R c key = redis_simple R c [''GET'', c_str key] [] string_or_empty"

definition redis_del where
  "redis_del R c key = redis_simple R c [''DEL'', c_str key] 0 reply_getInteger"

definition redis_exists where
  "redis_exists R c key =
     redis_simple R c [''EXISTS'', c_str key] False (\<lambda>reply. reply_getInteger reply > 0)"

definition redis_expire where
  "redis_expire R c key expire =
     redis_simple R c [''EXPIRE'', c_str key, show_int expire] False
       (\<lambda>reply. reply_getInteger reply > 0)"

definition redis_setex where
  "redis_setex R c key expire val =
     redis_simple R c [''SETEX'', c_str key, show_int expire, c_str val] False (status_is ''OK'')"

definition redis_setnx where
  "redis_setnx R c key val =
     redis_simple R c [''SETNX'', c_str key, c_str val] False (\<lambda>reply. reply_getInteger reply = 1)"

text \<open>The argument vector carries lengths: null bytes are kept here.\<close>

definition redis_setnxex where
  "redis_setnxex R c key val expire =
     redis_simple R c [''SET'', key, val, ''NX'', ''EX'', show_int expire] False
       (\<lambda>reply. \<not> reply_isNil reply)"

definition redis_getset where
  "redis_getset R c key val =
     redis_simple R c [''GETSET'', c_str key, c_str val] [] string_or_empty"

definition redis_strlen where
  "redis_strlen R c key = redis_simple R c [''STRLEN'', c_str key] 0 reply_getInteger"

definition redis_append where
  "redis_append R c key val = redis_simple R c [''APPEND'', c_str key, c_str val] 0 reply_getInteger"

definition redis_incr where
  "redis_incr R c key = redis_simple R c [''INCR'', c_str key] 0 reply_getInteger"

definition redis_incrby where
  "redis_incrby R c key increment =
     redis_simple R c [''INCRBY'', c_str key, show_int increment] 0 reply_getInteger"

definition redis_decr where
  "redis_decr R c key = redis_simple R c [''DECR'', c_str key] 0 reply_getInteger"

definition redis_decrby where
  "redis_decrby R c key decrement =
     redis_simple R c [''DECRBY'', c_str key, show_int decrement] 0 reply_getInteger"

definition redis_ttl where
  "redis_ttl R c key = redis_simple R c [''TTL'', c_str key] (-2) reply_getInteger"

definition redis_pttl where
  "redis_pttl R c key = redis_simple R c [''PTTL'', c_str key] (-2) reply_getInteger"

definition redis_persist where
  "redis_persist R c key =
     redis_simple R c [''PERSIST'', c_str key] False (\<lambda>reply. reply_getInteger reply = 1)"

definition redis_rename where
  "redis_rename R c key newkey =
     redis_simple R c [''RENAME'', c_str key, c_str newkey] False (status_is ''OK'')"

fun array_strings :: "redis_reply option \<Rightarrow> nat list \<Rightarrow> string list" where
  "array_strings reply [] = []"
| "array_strings reply (i # is) =
     (case reply_getArrayElement reply i of
        Some e \<Rightarrow> reply_getString (Some e) # array_strings reply is
      | None \<Rightarrow> array_strings reply is)"

definition redis_keys where
  "redis_keys R c pattern =
     redis_simple R c [''KEYS'', c_str pattern] []
       (\<lambda>reply. if \<not> reply_isArray reply then []
                else array_strings reply [0..<reply_getArraySize reply])"

definition redis_hset where
  "redis_hset R c key field val =
     redis_simple R c [''HSET'', c_str key, c_str field, c_str val] False (\<lambda>_. True)"

definition redis_hget where
  "redis_hget R c key field = redis_simple R c [''HGET'', c_str key, c_str field] [] string_or_empty"

text \<open>The \<open>k\<close>-th round of the loop of \<open>hgetall\<close> reads the elements \<open>2k\<close> and \<open>2k + 1\<close>; the
  map is the function updated.\<close>

fun hgetall_loop ::
    "redis_reply option \<Rightarrow> nat list \<Rightarrow> (string \<rightharpoonup> string) \<Rightarrow> (string \<rightharpoonup> string)" where
  "hgetall_loop reply [] m = m"
| "hgetall_loop reply (k # ks) m =
     hgetall_loop reply ks
       (case (reply_getArrayElement reply (2 * k), reply_getArrayElement reply (2 * k + 1)) of
          (Some f, Some v) \<Rightarrow> m(reply_getString (Some f) \<mapsto> reply_getString (Some v))
        | _ \<Rightarrow> m)"

definition redis_hgetall where
  "redis_hgetall R c key =
     redis_simple R c [''HGETALL'', c_str key] Map.empty
       (\<lambda>reply. if \<not> reply_isArray reply then Map.empty
                else hgetall_loop reply [0..<(reply_getArraySize reply + 1) div 2] Map.empty)"

definition redis_hdel where
  "redis_hdel R c key field = redis_simple R c [''HDEL'', c_str key, c_str field] 0 reply_getInteger"

definition redis_lpush where
  "redis_lpush R c key val = redis_simple R c [''LPUSH'', c_str key, c_str val] 0 reply_getInteger"

definition redis_rpush where
  "redis_rpush R c key val = redis_simple R c [''RPUSH'', c_str key, c_str val] 0 reply_getInteger"

definition redis_lpop where
  "redis_lpop R c key = redis_simple R c [''LPOP'', c_str key] [] string_or_empty"

definition redis_rpop where
  "redis_rpop R c key = redis_simple R c [''RPOP'', c_str key] [] string_or_empty"

definition redis_llen where
  "redis_llen R c key = redis_simple R c [''LLEN'', c_str key] 0 reply_getInteger"

definition redis_sadd where
  "redis_sadd R c key member = redis_simple R c [''SADD'', c_str key, c_str member] 0 reply_getInteger"

definition redis_srem where
  "redis_srem R c key member = redis_simple R c [''SREM'', c_str key, c_str member] 0 reply_getInteger"

definition redis_sismember where
  "redis_sismember R c key member =
     redis_simple R c [''SISMEMBER'', c_str key, c_str member] False
       (\<lambda>reply. reply_getInteger reply > 0)"

text \<open>The transaction commands set the flag of the connection.\<close>

definition redis_multi ::
    "('h, 'w) redis_driver \<Rightarrow> 'h redis_connection \<Rightarrow> 'w \<Rightarrow> bool \<times> 'h redis_connection \<times> 'w" where
  "redis_multi R c w =
     (case redis_simple R c [''MULTI''] False (\<lambda>_. True) w of
        (ok, w') \<Rightarrow> (ok, if ok then c\<lparr>rc_inTransaction := True\<rparr> else c, w'))"

definition redis_exec ::
    "('h, 'w) redis_driver \<Rightarrow> 'h redis_connection \<Rightarrow> 'w \<Rightarrow>
     redis_reply option list \<times> 'h redis_connection \<times> 'w" where
  "redis_exec R c w =
     (case redis_simple R c [''EXEC''] []
             (\<lambda>reply. if reply_isArray reply
                      then map (reply_getArrayElement reply) [0..<reply_getArraySize reply] else []) w of
        (results, w') \<Rightarrow> (results, c\<lparr>rc_inTransaction := False\<rparr>, w'))"

definition redis_discard ::
    "('h, 'w) redis_driver \<Rightarrow> 'h redis_connection \<Rightarrow> 'w \<Rightarrow> bool \<times> 'h redis_connection \<times> 'w" where
  "redis_discard R c w =
     (case redis_simple R c [''DISCARD''] False (\<lambda>_. True) w of
        (ok, w') \<Rightarrow> (ok, if ok then c\<lparr>rc_inTransaction := False\<rparr> else c, w'))"

definition redis_publish where
  "redis_publish R c channel message =
     redis_simple R c [''PUBLISH'', c_str channel, c_str message] 0 reply_getInteger"

definition redis_subscribe where
  "redis_subscribe R c channel = redis_simple R c [''SUBSCRIBE'', c_str channel] False (\<lambda>_. True)"

definition redis_unsubscribe where
  "redis_unsubscribe R c channel = redis_simple R c [''UNSUBSCRIBE'', c_str channel] False (\<lambda>_. True)"

section \<open>What the server promises\<close>

text \<open>
  \<open>view\<close> gives the keys that exist and their strings. A command is answered with the reply of the
  command reference, with an error, or not at all (a null reply); only in the first case it acts.
\<close>

definition failed :: "redis_reply option \<Rightarrow> bool" where
  "failed reply \<longleftrightarrow> reply = None \<or> reply_isError reply"

definition redis_laws :: "('h, 'w) redis_driver \<Rightarrow> ('w \<Rightarrow> string \<rightharpoonup> string) \<Rightarrow> bool" where
  "redis_laws R view \<longleftrightarrow>
     (\<forall>h k n v w reply w'. rds_command R h [''SETEX'', k, n, v] w = (reply, w') \<longrightarrow>
        (if failed reply then view w' = view w
         else reply = Some (RStatus ''OK'') \<and> view w' = (view w)(k \<mapsto> v))) \<and>
     (\<forall>h k w reply w'. rds_command R h [''EXISTS'', k] w = (reply, w') \<longrightarrow>
        view w' = view w \<and>
        (failed reply \<or> reply = Some (RInteger (if view w k = None then 0 else 1)))) \<and>
     (\<forall>h k w reply w'. rds_command R h [''GET'', k] w = (reply, w') \<longrightarrow>
        view w' = view w \<and>
        (failed reply \<or> reply = Some (case view w k of None \<Rightarrow> RNil | Some v \<Rightarrow> RString v)))"

lemma redis_lawsD:
  assumes "redis_laws R view"
  shows "rds_command R h [''SETEX'', k, n, v] w = (reply, w') \<Longrightarrow>
      if failed reply then view w' = view w
      else reply = Some (RStatus ''OK'') \<and> view w' = (view w)(k \<mapsto> v)"
    and "rds_command R h [''EXISTS'', k] w = (reply, w') \<Longrightarrow>
      view w' = view w \<and>
      (failed reply \<or> reply = Some (RInteger (if view w k = None then 0 else 1)))"
    and "rds_command R h [''GET'', k] w = (reply, w') \<Longrightarrow>
      view w' = view w \<and>
      (failed reply \<or> reply = Some (case view w k of None \<Rightarrow> RNil | Some v \<Rightarrow> RString v))"
  using assms unfolding redis_laws_def by blast+

text \<open>A command reaches the server, or there is no connection and nothing happens.\<close>

lemma redis_simple_cases:
  assumes "redis_simple R c argv d read w = (x, w')"
  obtains "x = d" "w' = w"
  | h reply where "rds_command R h argv w = (reply, w')"
      "x = (if failed reply then d else read reply)"
  using assms
  by (auto simp: redis_simple_def redis_executeCommand_def failed_def split: if_splits option.splits prod.splits)

lemma redis_setex_outcome:
  assumes "redis_laws R view" and "redis_setex R c key n v w = (ok, w')"
  shows "view w' = (if ok then (view w)(c_str key \<mapsto> c_str v) else view w)"
  using assms(2) unfolding redis_setex_def
proof (cases rule: redis_simple_cases)
  case (2 h reply)
  from redis_lawsD(1) [OF assms(1) 2(1)] 2(2) show ?thesis
    by (auto simp: status_is_def split: if_splits)
qed simp

lemma redis_exists_outcome:
  assumes "redis_laws R view" and "redis_exists R c key w = (ok, w')"
  shows "view w' = view w \<and> (ok \<longrightarrow> view w (c_str key) \<noteq> None)"
  using assms(2) unfolding redis_exists_def
proof (cases rule: redis_simple_cases)
  case (2 h reply)
  from redis_lawsD(2) [OF assms(1) 2(1)] 2(2) show ?thesis
    by (auto split: if_splits)
qed simp

lemma redis_get_outcome:
  assumes "redis_laws R view" and "redis_get R c key w = (s, w')"
  shows "view w' = view w \<and> (s \<noteq> [] \<longrightarrow> view w (c_str key) = Some s)"
  using assms(2) unfolding redis_get_def
proof (cases rule: redis_simple_cases)
  case (2 h reply)
  from redis_lawsD(3) [OF assms(1) 2(1)] 2(2) show ?thesis
    by (auto simp: string_or_empty_def split: if_splits option.splits)
qed simp

section \<open>An in-memory server\<close>

record kv =
  kv_map :: "(string \<times> string) list"
  kv_down :: bool

definition kv_view :: "kv \<Rightarrow> string \<rightharpoonup> string" where
  "kv_view m = map_of (kv_map m)"

fun kv_command :: "unit \<Rightarrow> string list \<Rightarrow> kv \<Rightarrow> redis_reply option \<times> kv" where
  "kv_command h argv m =
     (if kv_down m then (None, m)
      else case argv of
        [op, k, n, v] \<Rightarrow>
          if op = ''SETEX'' then (Some (RStatus ''OK''), m\<lparr>kv_map := (k, v) # kv_map m\<rparr>)
          else (Some (RError ''ERR''), m)
      | [op, k] \<Rightarrow>
          if op = ''EXISTS'' then (Some (RInteger (if kv_view m k = None then 0 else 1)), m)
          else if op = ''GET'' then
            (Some (case kv_view m k of None \<Rightarrow> RNil | Some v \<Rightarrow> RString v), m)
          else (Some (RError ''ERR''), m)
      | _ \<Rightarrow> (Some (RError ''ERR''), m))"

definition kv_driver :: "(unit, kv) redis_driver" where
  "kv_driver = \<lparr>rds_connect = (\<lambda>host port timeout m. (Some (), m)), rds_err = (\<lambda>h m. False),
     rds_command = kv_command\<rparr>"

lemma kv_laws: "redis_laws kv_driver kv_view"
  unfolding redis_laws_def
  by (auto simp: kv_driver_def failed_def kv_view_def fun_eq_iff split: if_splits)

definition kv_conn :: "unit redis_connection" where
  "kv_conn = redis_init\<lparr>rc_context := Some ()\<rparr>"

section \<open>Properties\<close>

text \<open>A \<open>setex\<close> that answers true has stored the value under the key, both cut at the first
  null byte, and touched no other key; \<open>get\<close> then gives that value back, or the empty
  string when the server does not answer, and \<open>exists\<close> answers true for stored keys only. A
  \<open>setex\<close> that answers false has stored nothing.\<close>

theorem redis_setex_get:
  assumes "redis_laws R view" and "redis_setex R c key n v w = (ok, w1)"
  shows "view w1 = (if ok then (view w)(c_str key \<mapsto> c_str v) else view w) \<and>
    (ok \<longrightarrow> fst (redis_get R c key w1) \<in> {[], c_str v}) \<and>
    (fst (redis_exists R c k w1) \<longrightarrow> view w1 (c_str k) \<noteq> None)"
proof -
  note v1 = redis_setex_outcome [OF assms]
  obtain s w2 where g: "redis_get R c key w1 = (s, w2)" by fastforce
  obtain b w3 where e: "redis_exists R c k w1 = (b, w3)" by fastforce
  from v1 redis_get_outcome [OF assms(1) g] redis_exists_outcome [OF assms(1) e] g e
  show ?thesis by auto
qed

theorem redis_setex_get_witness:
  "kv_view (snd (redis_setex kv_driver kv_conn ''k'' 60 ''v'' \<lparr>kv_map = [], kv_down = False\<rparr>)) ''k'' =
     Some ''v'' \<and>
   fst (redis_get kv_driver kv_conn ''k''
     (snd (redis_setex kv_driver kv_conn ''k'' 60 ''v'' \<lparr>kv_map = [], kv_down = False\<rparr>))) \<in> {[], ''v''}"
proof -
  have r: "redis_setex kv_driver kv_conn ''k'' 60 ''v'' \<lparr>kv_map = [], kv_down = False\<rparr> =
      (True, \<lparr>kv_map = [(''k'', ''v'')], kv_down = False\<rparr>)"
    by code_simp
  have c: "c_str ''k'' = ''k''" "c_str ''v'' = ''v''" by code_simp+
  show ?thesis using redis_setex_get [OF kv_laws r, of "''k''"] by (simp add: r c)
qed

end
