(* ===== verification/Jwt.thy ===== *)
theory Jwt
  imports Base64Url CryptoUtil MysqlSpec Redis
begin

text \<open>
  The tokens of \<^verbatim>\<open>blog/src/util/jwt_util.cc\<close>: the claims and their text, the three-segment
  token, its verification, the accessors, and the blacklist kept in Redis and in MySQL.
  \<^verbatim>\<open>HMAC\<close> of OpenSSL is a parameter (\<open>None\<close> is the null pointer it returns on an error), the
  servers are the drivers \<open>R\<close> and \<open>D\<close>, and \<^verbatim>\<open>time(nullptr)\<close> is an argument.
\<close>

section \<open>Claims\<close>

record jwt_claims =
  c_user_id :: int
  c_username :: string
  c_nickname :: string
  c_roles :: "string list"
  c_jti :: string
  c_iat :: int
  c_exp :: int
  c_issuer :: string

text \<open>\<open>JWTClaims()\<close>\<close>

definition empty_claims :: jwt_claims where
  "empty_claims = \<lparr>c_user_id = 0, c_username = [], c_nickname = [], c_roles = [], c_jti = [],
     c_iat = 0, c_exp = 0, c_issuer = []\<rparr>"

definition claims_isValid :: "jwt_claims \<Rightarrow> bool" where
  "claims_isValid c \<longleftrightarrow> c_user_id c > 0 \<and> c_username c \<noteq> [] \<and> c_exp c > 0"

definition claims_isExpired :: "int \<Rightarrow> jwt_claims \<Rightarrow> bool" where
  "claims_isExpired now c \<longleftrightarrow> now > c_exp c"

definition dq :: char where
  "dq = CHR 0x22"

definition quoted :: "string \<Rightarrow> string" where
  "quoted s = dq # s @ [dq]"

fun roles_text :: "string list \<Rightarrow> string" where
  "roles_text [] = []"
| "roles_text [r] = quoted r"
| "roles_text (r # rs) = quoted r @ '','' @ roles_text rs"

definition serializeClaims :: "jwt_claims \<Rightarrow> string" where
  "serializeClaims c =
     ''{'' @
     quoted ''sub'' @ '':'' @ quoted (show_int (c_user_id c)) @ '','' @
     quoted ''username'' @ '':'' @ quoted (c_username c) @ '','' @
     quoted ''nickname'' @ '':'' @ quoted (c_nickname c) @ '','' @
     quoted ''jti'' @ '':'' @ quoted (c_jti c) @ '','' @
     quoted ''iat'' @ '':'' @ show_int (c_iat c) @ '','' @
     quoted ''exp'' @ '':'' @ show_int (c_exp c) @ '','' @
     quoted ''iss'' @ '':'' @ quoted (c_issuer c) @
     (if c_roles c \<noteq> [] then '','' @ quoted ''roles'' @ '':['' @ roles_text (c_roles c) @ '']'' else []) @
     ''}''"

subsection \<open>Reading claims back\<close>

text \<open>
  Each step of \<open>parseClaims\<close> looks for a key from the end of the last value on, takes what stands
  up to the closing character, and stores it. A step that does not find its key or its end, or
  whose conversion throws, ends the function with false (\<open>Inl\<close>, with the claims read so far).
\<close>

type_synonym 'a parse = "jwt_claims + 'a"

definition parse_bind :: "'a parse \<Rightarrow> ('a \<Rightarrow> 'b parse) \<Rightarrow> 'b parse" where
  "parse_bind m f = (case m of Inl c \<Rightarrow> Inl c | Inr x \<Rightarrow> f x)"

lemma parse_bind_simps [simp]: "parse_bind (Inl c) f = Inl c" "parse_bind (Inr x) f = f x"
  by (simp_all add: parse_bind_def)

text \<open>\<open>span_of json key close pos\<close>: where the value after the key starts and ends.\<close>

definition span_of :: "string \<Rightarrow> string \<Rightarrow> string list \<Rightarrow> nat \<Rightarrow> (nat \<times> nat) option" where
  "span_of json key closers from =
     (case str_find json key from of
        None \<Rightarrow> None
      | Some k \<Rightarrow>
          let pos = k + length key
          in case List.find (\<lambda>cl. str_find json cl pos \<noteq> None) closers of
               None \<Rightarrow> None
             | Some cl \<Rightarrow> (case str_find json cl pos of None \<Rightarrow> None | Some e \<Rightarrow> Some (pos, e)))"

definition parse_step ::
    "string \<Rightarrow> string \<Rightarrow> string list \<Rightarrow> (string \<Rightarrow> jwt_claims \<Rightarrow> jwt_claims res) \<Rightarrow>
     nat \<times> jwt_claims \<Rightarrow> (nat \<times> jwt_claims) parse" where
  "parse_step json key closers put st =
     (case st of (from, claims) \<Rightarrow>
        case span_of json key closers from of
          None \<Rightarrow> Inl claims
        | Some (pos, e) \<Rightarrow>
            (case rbind (substr json pos (e - pos)) (\<lambda>s. put s claims) of
               Inl _ \<Rightarrow> Inl claims
             | Inr claims' \<Rightarrow> Inr (e, claims')))"

definition put_user_id :: "string \<Rightarrow> jwt_claims \<Rightarrow> jwt_claims res" where
  "put_user_id s c = rbind (stoll s) (\<lambda>n. Inr (c\<lparr>c_user_id := n\<rparr>))"

definition put_username :: "string \<Rightarrow> jwt_claims \<Rightarrow> jwt_claims res" where
  "put_username s c = Inr (c\<lparr>c_username := s\<rparr>)"

definition put_nickname :: "string \<Rightarrow> jwt_claims \<Rightarrow> jwt_claims res" where
  "put_nickname s c = Inr (c\<lparr>c_nickname := s\<rparr>)"

definition put_jti :: "string \<Rightarrow> jwt_claims \<Rightarrow> jwt_claims res" where
  "put_jti s c = Inr (c\<lparr>c_jti := s\<rparr>)"

definition put_iat :: "string \<Rightarrow> jwt_claims \<Rightarrow> jwt_claims res" where
  "put_iat s c = rbind (stoll s) (\<lambda>n. Inr (c\<lparr>c_iat := n\<rparr>))"

definition put_exp :: "string \<Rightarrow> jwt_claims \<Rightarrow> jwt_claims res" where
  "put_exp s c = rbind (stoll s) (\<lambda>n. Inr (c\<lparr>c_exp := n\<rparr>))"

definition key_of :: "string \<Rightarrow> string" where
  "key_of name = quoted name @ '':''"

text \<open>The issuer is optional; when its key is found but not its end, \<open>end\<close> is \<^verbatim>\<open>npos\<close>.\<close>

definition parse_issuer :: "string \<Rightarrow> nat \<times> jwt_claims \<Rightarrow> nat option \<times> jwt_claims" where
  "parse_issuer json st =
     (case st of (from, claims) \<Rightarrow>
        case str_find json (key_of ''iss'' @ [dq]) from of
          None \<Rightarrow> (Some from, claims)
        | Some k \<Rightarrow>
            (case str_find json [dq] (k + 7) of
               None \<Rightarrow> (None, claims)
             | Some e \<Rightarrow> (Some e, claims\<lparr>c_issuer := take (e - (k + 7)) (drop (k + 7) json)\<rparr>)))"

lemma str_find_bound: "str_find s sub pos = Some i \<Longrightarrow> pos \<le> i \<and> i + length sub \<le> length s"
  by (auto simp: str_find_def dest!: find_idx_bound split: if_splits)

text \<open>The loop over the roles; \<open>start\<close> grows by at least three in every round.\<close>

function roles_loop :: "string \<Rightarrow> nat \<Rightarrow> string list \<Rightarrow> string list" where
  "roles_loop roles_str start acc =
     (if start < length roles_str then
        (case str_find roles_str [dq] start of
           None \<Rightarrow> acc
         | Some quote_start \<Rightarrow>
             (case str_find roles_str [dq] (quote_start + 1) of
                None \<Rightarrow> acc
              | Some quote_end \<Rightarrow>
                  roles_loop roles_str (quote_end + 2)
                    (acc @ [take (quote_end - quote_start - 1) (drop (quote_start + 1) roles_str)])))
      else acc)"
  by auto
termination
  by (relation "measure (\<lambda>(s, start, acc). length s - start)") (auto dest!: str_find_bound)

declare roles_loop.simps [simp del]

definition parse_roles :: "string \<Rightarrow> nat option \<times> jwt_claims \<Rightarrow> jwt_claims" where
  "parse_roles json st =
     (case st of
        (None, claims) \<Rightarrow> claims
      | (Some from, claims) \<Rightarrow>
          (case str_find json (key_of ''roles'' @ ''['') from of
             None \<Rightarrow> claims
           | Some k \<Rightarrow>
               (case str_find json '']'' (k + 9) of
                  None \<Rightarrow> claims
                | Some e \<Rightarrow>
                    claims\<lparr>c_roles := roles_loop (take (e - (k + 9)) (drop (k + 9) json)) 0 (c_roles claims)\<rparr>)))"

definition parseClaims :: "string \<Rightarrow> jwt_claims \<Rightarrow> bool \<times> jwt_claims" where
  "parseClaims json claims =
     (case
        parse_bind (parse_step json (key_of ''sub'' @ [dq]) [[dq]] put_user_id (0, claims)) (\<lambda>st.
        parse_bind (parse_step json (key_of ''username'' @ [dq]) [[dq]] put_username st) (\<lambda>st.
        parse_bind (parse_step json (key_of ''nickname'' @ [dq]) [[dq]] put_nickname st) (\<lambda>st.
        parse_bind (parse_step json (key_of ''jti'' @ [dq]) [[dq]] put_jti st) (\<lambda>st.
        parse_bind (parse_step json (key_of ''iat'') ['',''] put_iat st) (\<lambda>st.
        parse_bind (parse_step json (key_of ''exp'') ['','', ''}''] put_exp st) (\<lambda>st.
        Inr (parse_roles json (parse_issuer json st))))))))
      of Inl claims' \<Rightarrow> (False, claims') | Inr claims' \<Rightarrow> (True, claims'))"

section \<open>Tokens\<close>

text \<open>\<open>JWTUtil\<close>'s static members.\<close>

record jwt_state =
  current_secret :: string
  previous_secret :: string
  secret_rotation_time :: int

definition default_secret :: string where
  "default_secret = ''blog_server_jwt_secret_key_2024''"

text \<open>\<open>env_secret\<close> is the environment variable, \<open>looked_up\<close> the text of the configuration
  variable, \<open>None\<close> when the lookup gives a null pointer.\<close>

definition jwt_init :: "string \<Rightarrow> string option \<Rightarrow> int \<Rightarrow> jwt_state" where
  "jwt_init env_secret looked_up now =
     (let secret = (if env_secret = []
                    then (case looked_up of Some s \<Rightarrow> s | None \<Rightarrow> default_secret) else env_secret)
      in \<lparr>current_secret = secret, previous_secret = secret, secret_rotation_time = now\<rparr>)"

type_synonym hmac = "string \<Rightarrow> string \<Rightarrow> string option"

definition hmacSha256 :: "hmac \<Rightarrow> string \<Rightarrow> string \<Rightarrow> string res" where
  "hmacSha256 HMAC key data =
     (case HMAC key data of
        None \<Rightarrow> Inl UndefinedBehaviour
      | Some digest \<Rightarrow> Inr (base64UrlEncode digest))"

definition jwt_header :: string where
  "jwt_header = ''{'' @ quoted ''alg'' @ '':'' @ quoted ''HS256'' @ '','' @ quoted ''typ'' @ '':'' @
     quoted ''JWT'' @ ''}''"

definition signing_input :: "jwt_claims \<Rightarrow> string" where
  "signing_input claims = base64UrlEncode jwt_header @ ''.'' @ base64UrlEncode (serializeClaims claims)"

definition fresh_claims :: "string \<Rightarrow> int \<Rightarrow> int \<Rightarrow> string \<Rightarrow> string \<Rightarrow> string list \<Rightarrow> int \<Rightarrow> jwt_claims" where
  "fresh_claims jti now user_id username nickname roles exp =
     \<lparr>c_user_id = user_id, c_username = username, c_nickname = nickname, c_roles = roles,
      c_jti = jti, c_iat = now, c_exp = exp, c_issuer = ''blog_server''\<rparr>"

definition generateToken ::
    "hmac \<Rightarrow> jwt_state \<Rightarrow> nat list option \<Rightarrow> nat list \<Rightarrow> int \<Rightarrow> int \<Rightarrow> string \<Rightarrow> string \<Rightarrow>
     string list \<Rightarrow> int \<Rightarrow> string res" where
  "generateToken HMAC st rand draws now user_id username nickname roles expires_in =
     rbind (i64_checked (now + expires_in)) (\<lambda>exp.
       let claims = fresh_claims (generateJTI rand draws) now user_id username nickname roles exp;
           data = signing_input claims
       in rbind (hmacSha256 HMAC (current_secret st) data) (\<lambda>signature.
            Inr (data @ ''.'' @ signature)))"

text \<open>With no dot at all, \<^verbatim>\<open>dot1 + 1\<close> wraps to 0 and the second search finds none either.\<close>

definition parseToken :: "string \<Rightarrow> jwt_claims \<Rightarrow> string \<Rightarrow> bool \<times> jwt_claims \<times> string" where
  "parseToken token claims signature =
     (case str_find token ''.'' 0 of
        None \<Rightarrow> (False, claims, signature)
      | Some dot1 \<Rightarrow>
          (case str_find token ''.'' (dot1 + 1) of
             None \<Rightarrow> (False, claims, signature)
           | Some dot2 \<Rightarrow>
               let header_encoded = take dot1 token;
                   payload_encoded = take (dot2 - dot1 - 1) (drop (dot1 + 1) token);
                   signature = drop (dot2 + 1) token;
                   header = base64UrlDecode header_encoded
               in if str_find header ''HS256'' 0 = None then (False, claims, signature)
                  else case parseClaims (base64UrlDecode payload_encoded) claims of
                         (ok, claims') \<Rightarrow> (ok, claims', signature)))"

definition safeDecode :: "string \<Rightarrow> jwt_claims option" where
  "safeDecode token =
     (case parseToken token empty_claims [] of (ok, claims, _) \<Rightarrow> if ok then Some claims else None)"

definition getUserIdFromToken :: "string \<Rightarrow> int" where
  "getUserIdFromToken token = (case safeDecode token of Some c \<Rightarrow> c_user_id c | None \<Rightarrow> 0)"

definition getUsernameFromToken :: "string \<Rightarrow> string" where
  "getUsernameFromToken token = (case safeDecode token of Some c \<Rightarrow> c_username c | None \<Rightarrow> [])"

definition getNicknameFromToken :: "string \<Rightarrow> string" where
  "getNicknameFromToken token = (case safeDecode token of Some c \<Rightarrow> c_nickname c | None \<Rightarrow> [])"

definition getRolesFromToken :: "string \<Rightarrow> string list" where
  "getRolesFromToken token = (case safeDecode token of Some c \<Rightarrow> c_roles c | None \<Rightarrow> [])"

definition getJTIFromToken :: "string \<Rightarrow> string" where
  "getJTIFromToken token = (case safeDecode token of Some c \<Rightarrow> c_jti c | None \<Rightarrow> [])"

definition getExpirationFromToken :: "string \<Rightarrow> int" where
  "getExpirationFromToken token = (case safeDecode token of Some c \<Rightarrow> c_exp c | None \<Rightarrow> 0)"

definition validateTokenStructure :: "jwt_claims \<Rightarrow> bool" where
  "validateTokenStructure c \<longleftrightarrow>
     c_user_id c > 0 \<and> c_username c \<noteq> [] \<and> c_nickname c \<noteq> [] \<and> c_jti c \<noteq> [] \<and> c_iat c > 0 \<and>
     c_exp c > c_iat c"

section \<open>The blacklist\<close>

text \<open>
  The servers with the connection each manager's \<open>getConnection\<close> hands out for the call
  (\<open>None\<close>: a null pointer). The clock is read once for a whole call.
\<close>

record ('h, 'w, 'r, 'v) backends =
  bk_D :: "('h, 'w) driver"
  bk_db :: "'h mysql_connection option"
  bk_R :: "('r, 'v) redis_driver"
  bk_redis :: "'r redis_connection option"

definition blacklist_key :: "string \<Rightarrow> string" where
  "blacklist_key jti = ''jwt_blacklist:'' @ jti"

definition sql_blacklist_insert :: stmt where
  "sql_blacklist_insert =
     Insert ''jwt_blacklist'' [''jti'', ''token'', ''user_id'', ''create_time'', ''expire_time'']"

definition sql_blacklist_select :: stmt where
  "sql_blacklist_select =
     Select (Aggs [(CountAll, None)]) ''jwt_blacklist''
       (Some (AndC (Eq ''jti'' (Qm 1)) (Gt ''expire_time'' (Qm 2)))) None None"

lemma sql_blacklist_text:
  "render sql_blacklist_insert =
     ''INSERT INTO jwt_blacklist (jti, token, user_id, create_time, expire_time) '' @
     ''VALUES (?, ?, ?, ?, ?)''"
  "render sql_blacklist_select =
     ''SELECT COUNT(*) FROM jwt_blacklist WHERE jti = ? AND expire_time > ?''"
  by code_simp+

text \<open>The life time left is passed as an \<^verbatim>\<open>int\<close>.\<close>

definition addToRedisBlacklist ::
    "('h, 'w, 'r, 'v) backends \<Rightarrow> int \<Rightarrow> string \<Rightarrow> int \<Rightarrow> 'v \<Rightarrow> (bool \<times> 'v) res" where
  "addToRedisBlacklist B now jti expire_time v =
     (case bk_redis B of
        None \<Rightarrow> Inr (False, v)
      | Some redis \<Rightarrow>
          rbind (i64_checked (expire_time - now)) (\<lambda>ttl.
            if ttl \<le> 0 then Inr (True, v)
            else Inr (redis_setex (bk_R B) redis (blacklist_key jti) (i32_of ttl) ''1'' v)))"

definition isInRedisBlacklist :: "('h, 'w, 'r, 'v) backends \<Rightarrow> string \<Rightarrow> 'v \<Rightarrow> bool \<times> 'v" where
  "isInRedisBlacklist B jti v =
     (case bk_redis B of
        None \<Rightarrow> (False, v)
      | Some redis \<Rightarrow> redis_exists (bk_R B) redis (blacklist_key jti) v)"

text \<open>An exception of a setter is caught and gives false.\<close>

definition addToMySQLBlacklist ::
    "('h, 'w, 'r, 'v) backends \<Rightarrow> int \<Rightarrow> string \<Rightarrow> string \<Rightarrow> int \<Rightarrow> int \<Rightarrow> 'w \<Rightarrow> bool \<times> 'w" where
  "addToMySQLBlacklist B now jti token user_id expire_time w =
     (case bk_db B of
        None \<Rightarrow> (False, w)
      | Some db \<Rightarrow>
          (case conn_prepareStatement (bk_D B) db sql_blacklist_insert w of
             None \<Rightarrow> (False, w)
           | Some stm \<Rightarrow>
               (case stmt_bind (bk_D B) [BString 1 jti, BString 2 token, BInt64 3 user_id,
                       BInt64 4 now, BInt64 5 expire_time] stm of
                  Inl _ \<Rightarrow> (False, w)
                | Inr stm \<Rightarrow> stmt_execute (bk_D B) stm w)))"

text \<open>\<^verbatim>\<open>return result ? true : false;\<close> tests the pointer of the result set.\<close>

definition isInMySQLBlacklist ::
    "('h, 'w, 'r, 'v) backends \<Rightarrow> int \<Rightarrow> string \<Rightarrow> 'w \<Rightarrow> bool \<times> 'w" where
  "isInMySQLBlacklist B now jti w =
     (case bk_db B of
        None \<Rightarrow> (False, w)
      | Some db \<Rightarrow>
          (case conn_prepareStatement (bk_D B) db sql_blacklist_select w of
             None \<Rightarrow> (False, w)
           | Some stm \<Rightarrow>
               (case stmt_bind (bk_D B) [BString 1 jti, BInt64 2 now] stm of
                  Inl _ \<Rightarrow> (False, w)
                | Inr stm \<Rightarrow>
                    (case stmt_executeQuery (bk_D B) stm w of (rs, w') \<Rightarrow> (rs \<noteq> None, w')))))"

definition addToBlacklist ::
    "('h, 'w, 'r, 'v) backends \<Rightarrow> int \<Rightarrow> string \<Rightarrow> 'w \<times> 'v \<Rightarrow> (bool \<times> 'w \<times> 'v) res" where
  "addToBlacklist B now token s =
     (case safeDecode token of
        None \<Rightarrow> Inr (False, s)
      | Some claims \<Rightarrow>
          rbind (addToRedisBlacklist B now (c_jti claims) (c_exp claims) (snd s)) (\<lambda>(redis_ok, v).
            case addToMySQLBlacklist B now (c_jti claims) token (c_user_id claims) (c_exp claims) (fst s) of
              (mysql_ok, w) \<Rightarrow> Inr (redis_ok \<or> mysql_ok, w, v)))"

definition isInBlacklist ::
    "('h, 'w, 'r, 'v) backends \<Rightarrow> int \<Rightarrow> string \<Rightarrow> 'w \<times> 'v \<Rightarrow> bool \<times> 'w \<times> 'v" where
  "isInBlacklist B now token s =
     (let jti = getJTIFromToken token
      in if jti = [] then (False, s)
         else case isInRedisBlacklist B jti (snd s) of
                (True, v) \<Rightarrow> (True, fst s, v)
              | (False, v) \<Rightarrow> (case isInMySQLBlacklist B now jti (fst s) of (b, w) \<Rightarrow> (b, w, v)))"

section \<open>Verification\<close>

definition verifyToken ::
    "hmac \<Rightarrow> jwt_state \<Rightarrow> ('h, 'w, 'r, 'v) backends \<Rightarrow> int \<Rightarrow> string \<Rightarrow> jwt_claims \<Rightarrow> 'w \<times> 'v \<Rightarrow>
     (bool \<times> jwt_claims \<times> 'w \<times> 'v) res" where
  "verifyToken HMAC st B now token claims s =
     (case isInBlacklist B now token s of
        (True, s') \<Rightarrow> Inr (False, claims, s')
      | (False, s') \<Rightarrow>
          (case parseToken token claims [] of
             (ok, claims, signature) \<Rightarrow>
               if \<not> ok then Inr (False, claims, s')
               else if \<not> validateTokenStructure claims then Inr (False, claims, s')
               else if claims_isExpired now claims then Inr (False, claims, s')
               else
                 let data = (case find_last_idx CHR ''.'' token of
                               Some dot2 \<Rightarrow> take dot2 token | None \<Rightarrow> token)
                 in rbind (hmacSha256 HMAC (current_secret st) data) (\<lambda>expected_signature.
                      if expected_signature = signature then Inr (True, claims, s')
                      else if previous_secret st \<noteq> [] \<and> previous_secret st \<noteq> current_secret st
                      then rbind (hmacSha256 HMAC (previous_secret st) data) (\<lambda>expected_signature.
                             Inr (expected_signature = signature, claims, s'))
                      else Inr (False, claims, s'))))"

text \<open>The new token is made before the old one is blacklisted; the two blacklist calls draw
  connections of their own.\<close>

definition refreshToken ::
    "hmac \<Rightarrow> jwt_state \<Rightarrow> ('h, 'w, 'r, 'v) backends \<Rightarrow> ('h, 'w, 'r, 'v) backends \<Rightarrow> nat list option \<Rightarrow>
     nat list \<Rightarrow> int \<Rightarrow> string \<Rightarrow> int \<Rightarrow> 'w \<times> 'v \<Rightarrow> (string \<times> 'w \<times> 'v) res" where
  "refreshToken HMAC st B B' rand draws now token expires_in s =
     rbind (verifyToken HMAC st B now token empty_claims s) (\<lambda>(ok, claims, s').
       if \<not> ok then Inr ([], s')
       else rbind (generateToken HMAC st rand draws now (c_user_id claims) (c_username claims)
                     (c_nickname claims) (c_roles claims) expires_in) (\<lambda>new_token.
              rbind (addToBlacklist B' now token s') (\<lambda>(_, s''). Inr (new_token, s''))))"

section \<open>Reading back what was written\<close>

lemma str_find_at:
  assumes "find_idx key s = Some n"
  shows "str_find (p @ s) key (length p) = Some (length p + n)"
  using assms by (simp add: str_find_def)

lemma find_idx_first: "c \<notin> set v \<Longrightarrow> find_idx [c] (v @ c # rest) = Some (length v)"
  by (induction v) auto

lemma parse_step_at:
  assumes j: "json = p @ u @ key @ v @ cl # rest"
    and f: "find_idx key (u @ key @ v @ cl # rest) = Some (length u)" and v: "cl \<notin> set v"
    and put: "put v c = Inr c'"
  shows "parse_step json key ([cl] # cls) put (length p, c) = Inr (length (p @ u @ key @ v), c')"
proof -
  have a: "str_find json key (length p) = Some (length p + length u)"
    using str_find_at [OF f] j by simp
  have "str_find ((p @ u @ key) @ v @ cl # rest) [cl] (length (p @ u @ key)) =
      Some (length (p @ u @ key) + length v)"
    by (rule str_find_at) (rule find_idx_first [OF v])
  then have b: "str_find json [cl] (length p + length u + length key) =
      Some (length p + length u + length key + length v)"
    using j by (simp add: add.assoc)
  have "take (length v) (drop (length p + length u + length key) json) = v"
    by (simp add: j)
  with a b put show ?thesis
    by (simp add: parse_step_def span_of_def substr_def j Let_def)
qed

lemma roles_loop_step:
  assumes "dq \<notin> set r"
  shows "roles_loop (p @ quoted r @ rest) (length p) acc =
    roles_loop (p @ quoted r @ rest) (length (p @ quoted r) + 1) (acc @ [r])"
proof -
  let ?s = "p @ dq # r @ dq # rest"
  have a: "str_find ?s [dq] (length p) = Some (length p)"
    using str_find_at [of "[dq]" "dq # r @ dq # rest" 0 p] by simp
  have b: "str_find ?s [dq] (Suc (length p)) = Some (Suc (length p) + length r)"
    using str_find_at [OF find_idx_first [OF assms], of "p @ [dq]"] by simp
  show ?thesis
    by (subst roles_loop.simps) (simp add: quoted_def a b)
qed

lemma roles_loop_text:
  assumes "\<forall>r\<in>set rs. dq \<notin> set r"
  shows "roles_loop (p @ roles_text rs) (length p) acc = acc @ rs"
  using assms
proof (induction rs arbitrary: p acc rule: roles_text.induct)
  case 1
  then show ?case by (simp add: roles_loop.simps)
next
  case (2 r)
  then show ?case using roles_loop_step [of r p "[]" acc] by (simp add: roles_loop.simps)
next
  case (3 r r' rs)
  from 3(2) have "dq \<notin> set r" by simp
  from roles_loop_step [OF this, of p "'','' @ roles_text (r' # rs)" acc]
    3(1) [of "p @ quoted r @ '',''" "acc @ [r]"] 3(2)
  show ?case by simp
qed

text \<open>Values whose text the parser can delimit: no double quote in a string, no closing bracket in a role.\<close>

definition claims_plain :: "jwt_claims \<Rightarrow> bool" where
  "claims_plain c \<longleftrightarrow>
     in_i64 (c_user_id c) \<and> in_i64 (c_iat c) \<and> in_i64 (c_exp c) \<and>
     dq \<notin> set (c_username c) \<and> dq \<notin> set (c_nickname c) \<and> dq \<notin> set (c_jti c) \<and>
     dq \<notin> set (c_issuer c) \<and>
     list_all (\<lambda>r. dq \<notin> set r \<and> CHR '']'' \<notin> set r) (c_roles c)"

lemma roles_text_no_bracket:
  "list_all (\<lambda>r. CHR '']'' \<notin> set r) rs \<Longrightarrow> CHR '']'' \<notin> set (roles_text rs)"
  by (induction rs rule: roles_text.induct) (auto simp: quoted_def dq_def)

text \<open>The key sought stands after the comma that follows a number or a closing quote.\<close>

lemma find_key_number:
  "key = dq # k \<Longrightarrow> find_idx key ('','' @ key @ s) = Some (length '','')"
  using find_idx_here [of key s] by (simp add: dq_def)

lemma find_key_text:
  assumes "key = dq # a # k" and "a \<noteq> CHR '',''"
  shows "find_idx key ([dq, CHR '',''] @ key @ s) = Some (length [dq, CHR '',''])"
  using assms find_idx_here [of key s] by (auto simp: dq_def)

lemma find_key_first:
  "key = dq # k \<Longrightarrow> find_idx key (''{'' @ key @ s) = Some (length ''{'')"
  using find_idx_here [of key s] by (simp add: dq_def)

lemma find_roles_none: "find_idx (key_of ''roles'' @ ''['') [dq, CHR ''}''] = None"
  by code_simp

lemma parse_roles_at:
  assumes plain: "list_all (\<lambda>r. dq \<notin> set r \<and> CHR '']'' \<notin> set r) rs" and x: "c_roles x = []"
  shows "parse_roles
      (p @ dq # (if rs \<noteq> [] then '','' @ quoted ''roles'' @ '':['' @ roles_text rs @ '']'' else []) @ ''}'')
      (Some (length p), x) = x\<lparr>c_roles := rs\<rparr>"
proof (cases "rs = []")
  case True
  have "str_find (p @ [dq, CHR ''}'']) (key_of ''roles'' @ ''['') (length p) = None"
    by (simp add: str_find_def find_roles_none del: find_idx.simps)
  with True x show ?thesis by (simp add: parse_roles_def)
next
  case False
  let ?k = "key_of ''roles'' @ ''[''"
  let ?t = "roles_text rs @ CHR '']'' # ''}''"
  have "find_idx ?k ([dq, CHR '',''] @ ?k @ ?t) = Some (length [dq, CHR '',''])"
    by (rule find_key_text, simp add: key_of_def quoted_def, simp)
  from str_find_at [OF this, of p]
  have a: "str_find (p @ [dq, CHR '',''] @ ?k @ ?t) ?k (length p) = Some (length p + 2)" by simp
  have nb: "CHR '']'' \<notin> set (roles_text rs)"
    using plain by (intro roles_text_no_bracket) (simp add: list_all_iff)
  have len: "length (p @ [dq, CHR '',''] @ ?k) = length p + 2 + 9"
    by (simp add: key_of_def quoted_def)
  from str_find_at [OF find_idx_first [OF nb], of "p @ [dq, CHR '',''] @ ?k" "''}''"]
  have b: "str_find (p @ [dq, CHR '',''] @ ?k @ ?t) '']'' (length p + 2 + 9) =
      Some (length p + 2 + 9 + length (roles_text rs))"
    unfolding len by simp
  have t: "take (length (roles_text rs)) (drop (length p + 2 + 9) (p @ [dq, CHR '',''] @ ?k @ ?t)) = roles_text rs"
    by (simp add: key_of_def quoted_def)
  have "roles_loop (roles_text rs) 0 [] = rs"
    using roles_loop_text [of rs "[]" "[]"] plain by (simp add: list_all_iff)
  with a b t x have "parse_roles (p @ [dq, CHR '',''] @ ?k @ ?t) (Some (length p), x) = x\<lparr>c_roles := rs\<rparr>"
    by (simp only: parse_roles_def prod.case option.case diff_add_inverse)
  with False show ?thesis by (simp add: key_of_def)
qed

text \<open>The text of the claims up to the end of the issuer.\<close>

definition claims_prefix :: "jwt_claims \<Rightarrow> string" where
  "claims_prefix c =
     ''{'' @ (key_of ''sub'' @ [dq]) @ show_int (c_user_id c) @ [dq, CHR '',''] @
     (key_of ''username'' @ [dq]) @ c_username c @ [dq, CHR '',''] @
     (key_of ''nickname'' @ [dq]) @ c_nickname c @ [dq, CHR '',''] @
     (key_of ''jti'' @ [dq]) @ c_jti c @ [dq, CHR '',''] @
     key_of ''iat'' @ show_int (c_iat c) @ '','' @ key_of ''exp'' @ show_int (c_exp c) @ '','' @
     (key_of ''iss'' @ [dq]) @ c_issuer c"

lemma parseClaims_prefix:
  assumes "claims_plain c"
  shows "parseClaims (claims_prefix c @ dq # tail) empty_claims =
    (True, parse_roles (claims_prefix c @ dq # tail) (Some (length (claims_prefix c)), c\<lparr>c_roles := []\<rparr>))"
proof -
  note ok = assms [unfolded claims_plain_def]
  define json where "json = claims_prefix c @ dq # tail"
  let ?k1 = "key_of ''sub'' @ [dq]"
  let ?k2 = "key_of ''username'' @ [dq]"
  let ?k3 = "key_of ''nickname'' @ [dq]"
  let ?k4 = "key_of ''jti'' @ [dq]"
  let ?k5 = "key_of ''iat''"
  let ?k6 = "key_of ''exp''"
  let ?k7 = "key_of ''iss'' @ [dq]"
  let ?p1 = "''{'' @ ?k1 @ show_int (c_user_id c)"
  let ?p2 = "?p1 @ [dq, CHR '',''] @ ?k2 @ c_username c"
  let ?p3 = "?p2 @ [dq, CHR '',''] @ ?k3 @ c_nickname c"
  let ?p4 = "?p3 @ [dq, CHR '',''] @ ?k4 @ c_jti c"
  let ?p5 = "?p4 @ [dq, CHR '',''] @ ?k5 @ show_int (c_iat c)"
  let ?p6 = "?p5 @ '','' @ ?k6 @ show_int (c_exp c)"
  let ?p7 = "?p6 @ '','' @ ?k7 @ c_issuer c"
  let ?r6 = "?k7 @ c_issuer c @ dq # tail"
  let ?r5 = "?k6 @ show_int (c_exp c) @ CHR '','' # ?r6"
  let ?r4 = "CHR '','' # ?k5 @ show_int (c_iat c) @ CHR '','' # ?r5"
  let ?r3 = "CHR '','' # ?k4 @ c_jti c @ dq # ?r4"
  let ?r2 = "CHR '','' # ?k3 @ c_nickname c @ dq # ?r3"
  let ?r1 = "CHR '','' # ?k2 @ c_username c @ dq # ?r2"
  have j1: "json = [] @ ''{'' @ ?k1 @ show_int (c_user_id c) @ dq # ?r1"
    by (simp add: json_def claims_prefix_def)
  have j2: "json = ?p1 @ [dq, CHR '',''] @ ?k2 @ c_username c @ dq # ?r2"
    by (simp add: j1)
  have j3: "json = ?p2 @ [dq, CHR '',''] @ ?k3 @ c_nickname c @ dq # ?r3"
    by (simp add: j1)
  have j4: "json = ?p3 @ [dq, CHR '',''] @ ?k4 @ c_jti c @ dq # ?r4"
    by (simp add: j1)
  have j5: "json = ?p4 @ [dq, CHR '',''] @ ?k5 @ show_int (c_iat c) @ CHR '','' # ?r5"
    by (simp add: j1)
  have j6: "json = ?p5 @ '','' @ ?k6 @ show_int (c_exp c) @ CHR '','' # ?r6"
    by (simp add: j1)
  have j7: "json = ?p6 @ '','' @ ?k7 @ c_issuer c @ dq # tail"
    by (simp add: j1)
  have f1: "find_idx ?k1 (''{'' @ ?k1 @ s) = Some (length ''{'')" for s
    by (rule find_key_first) (simp add: key_of_def quoted_def)
  have ft: "find_idx ?k2 ([dq, CHR '',''] @ ?k2 @ s) = Some (length [dq, CHR '',''])"
    "find_idx ?k3 ([dq, CHR '',''] @ ?k3 @ s) = Some (length [dq, CHR '',''])"
    "find_idx ?k4 ([dq, CHR '',''] @ ?k4 @ s) = Some (length [dq, CHR '',''])"
    "find_idx ?k5 ([dq, CHR '',''] @ ?k5 @ s) = Some (length [dq, CHR '',''])" for s
    by (rule find_key_text, simp add: key_of_def quoted_def, simp)+
  have fn: "find_idx ?k6 ('','' @ ?k6 @ s) = Some (length '','')"
    "find_idx ?k7 ('','' @ ?k7 @ s) = Some (length '','')" for s
    by (rule find_key_number, simp add: key_of_def quoted_def)+
  have dqn: "dq \<notin> set (show_int n)" for n by (simp add: dq_def)
  have s1: "parse_step json ?k1 [[dq]] put_user_id (length ([] :: string), empty_claims) =
      Inr (length ([] @ ?p1), empty_claims\<lparr>c_user_id := c_user_id c\<rparr>)"
    by (rule parse_step_at [OF j1 f1 dqn]) (simp add: put_user_id_def ok)
  have s2: "parse_step json ?k2 [[dq]] put_username (length ?p1, x) =
      Inr (length ?p2, x\<lparr>c_username := c_username c\<rparr>)" for x
    by (rule parse_step_at [OF j2 ft(1)]) (simp_all add: put_username_def ok)
  have s3: "parse_step json ?k3 [[dq]] put_nickname (length ?p2, x) =
      Inr (length ?p3, x\<lparr>c_nickname := c_nickname c\<rparr>)" for x
    by (rule parse_step_at [OF j3 ft(2)]) (simp_all add: put_nickname_def ok)
  have s4: "parse_step json ?k4 [[dq]] put_jti (length ?p3, x) =
      Inr (length ?p4, x\<lparr>c_jti := c_jti c\<rparr>)" for x
    by (rule parse_step_at [OF j4 ft(3)]) (simp_all add: put_jti_def ok)
  have s5: "parse_step json ?k5 ['',''] put_iat (length ?p4, x) =
      Inr (length ?p5, x\<lparr>c_iat := c_iat c\<rparr>)" for x
    by (rule parse_step_at [OF j5 ft(4)]) (simp_all add: put_iat_def ok)
  have s6: "parse_step json ?k6 ['','', ''}''] put_exp (length ?p5, x) =
      Inr (length ?p6, x\<lparr>c_exp := c_exp c\<rparr>)" for x
    by (rule parse_step_at [OF j6 fn(1)]) (simp_all add: put_exp_def ok)
  have i1: "str_find json ?k7 (length ?p6) = Some (length ?p6 + length '','')"
    using str_find_at [OF fn(2), of ?p6 "c_issuer c @ dq # tail"] by (simp only: j7)
  have i2: "str_find ((?p6 @ '','' @ ?k7) @ c_issuer c @ dq # tail) [dq] (length (?p6 @ '','' @ ?k7)) =
      Some (length (?p6 @ '','' @ ?k7) + length (c_issuer c))"
    by (rule str_find_at [OF find_idx_first]) (simp add: ok)
  have k7: "length ?k7 = 7" by (simp add: key_of_def quoted_def)
  have s7: "parse_issuer json (length ?p6, x) = (Some (length ?p7), x\<lparr>c_issuer := c_issuer c\<rparr>)" for x
  proof -
    have pos: "length ?p6 + length '','' + 7 = length (?p6 @ '','' @ ?k7)"
      unfolding k7 [symmetric] by simp
    have j: "json = (?p6 @ '','' @ ?k7) @ c_issuer c @ dq # tail" by (simp add: j7)
    have "take (length (c_issuer c)) (drop (length (?p6 @ '','' @ ?k7)) json) = c_issuer c"
      unfolding j by (simp only: append_eq_conv_conj drop_append) simp
    with i1 i2 [folded j] show ?thesis
      by (simp only: parse_issuer_def pos prod.case option.case diff_add_inverse) simp
  qed
  let ?x = "empty_claims\<lparr>c_user_id := c_user_id c, c_username := c_username c,
      c_nickname := c_nickname c, c_jti := c_jti c, c_iat := c_iat c, c_exp := c_exp c,
      c_issuer := c_issuer c\<rparr>"
  have x: "?x = c\<lparr>c_roles := []\<rparr>" by (simp add: empty_claims_def)
  have p7: "?p7 = claims_prefix c" by (simp add: claims_prefix_def)
  have "parseClaims json empty_claims = (True, parse_roles json (Some (length ?p7), ?x))"
    using s1 by (simp only: parseClaims_def list.size append_Nil parse_bind_simps s2 s3 s4 s5 s6 s7 sum.case)
  then show ?thesis by (simp only: p7 x json_def)
qed

lemma parseClaims_serialize:
  assumes "claims_plain c"
  shows "parseClaims (serializeClaims c) empty_claims = (True, c)"
proof -
  let ?rt = "if c_roles c \<noteq> [] then '','' @ quoted ''roles'' @ '':['' @ roles_text (c_roles c) @ '']'' else []"
  have "serializeClaims c = claims_prefix c @ dq # ?rt @ ''}''"
    by (simp add: serializeClaims_def claims_prefix_def key_of_def quoted_def)
  moreover have "parse_roles (claims_prefix c @ dq # ?rt @ ''}'')
      (Some (length (claims_prefix c)), c\<lparr>c_roles := []\<rparr>) = c\<lparr>c_roles := c_roles c\<rparr>"
    by (subst parse_roles_at) (use assms in \<open>simp_all add: claims_plain_def\<close>)
  ultimately show ?thesis using parseClaims_prefix [OF assms, of "?rt @ ''}''"] by simp
qed

end
