(* ===== verification/JwtProps.thy ===== *)
theory JwtProps
  imports Jwt
begin

text \<open>
  The properties of the tokens: claims and tokens read back as written, a fresh token is accepted
  while it lives, an accepted token carries a signature under one of the two secrets; and what the
  code gives away: the accessors accept unsigned tokens, the MySQL blacklist lists every token, and
  a nickname can write claims.
\<close>

section \<open>Three segments\<close>

definition token_of :: "string \<Rightarrow> string \<Rightarrow> string \<Rightarrow> string" where
  "token_of header payload signature =
     (base64UrlEncode header @ ''.'' @ base64UrlEncode payload) @ ''.'' @ signature"

lemma header_HS256: "str_find jwt_header ''HS256'' 0 \<noteq> None"
  by code_simp

lemma parseToken_of:
  "parseToken (token_of h p sig) claims s0 =
     (if str_find h ''HS256'' 0 = None then (False, claims, sig)
      else case parseClaims p claims of (ok, claims') \<Rightarrow> (ok, claims', sig))"
proof -
  let ?a = "base64UrlEncode h" and ?b = "base64UrlEncode p"
  let ?t = "?a @ CHR ''.'' # ?b @ CHR ''.'' # sig"
  have "str_find ([] @ ?t) ''.'' (length ([] :: string)) = Some (length ([] :: string) + length ?a)"
    by (rule str_find_at [OF find_idx_first]) simp
  then have d1: "str_find ?t ''.'' 0 = Some (length ?a)" by simp
  have "str_find ((?a @ ''.'') @ ?b @ CHR ''.'' # sig) ''.'' (length (?a @ ''.'')) =
      Some (length (?a @ ''.'') + length ?b)"
    by (rule str_find_at [OF find_idx_first]) simp
  then have d2: "str_find ?t ''.'' (length ?a + 1) = Some (length ?a + 1 + length ?b)" by simp
  show ?thesis by (simp add: token_of_def parseToken_def d1 d2 [simplified] Let_def)
qed

lemma safeDecode_of:
  "str_find h ''HS256'' 0 \<noteq> None \<Longrightarrow> parseClaims p empty_claims = (True, c) \<Longrightarrow>
   safeDecode (token_of h p sig) = Some c"
  by (simp add: safeDecode_def parseToken_of)

lemma last_dot_token_of:
  assumes "CHR ''.'' \<notin> set sig"
  shows "find_last_idx CHR ''.'' (token_of h p sig) =
    Some (length (base64UrlEncode h @ ''.'' @ base64UrlEncode p))"
proof -
  have "token_of h p sig = (base64UrlEncode h @ ''.'' @ base64UrlEncode p) @ CHR ''.'' # sig"
    by (simp add: token_of_def)
  then show ?thesis by (simp only: find_last_idx_append [OF assms])
qed

lemma generateToken_Inr:
  assumes "generateToken HMAC st rand draws now u name nick roles expires_in = Inr token"
  shows "\<exists>digest. in_i64 (now + expires_in) \<and>
    HMAC (current_secret st) (signing_input (fresh_claims (generateJTI rand draws) now u name nick
      roles (now + expires_in))) = Some digest \<and>
    token = token_of jwt_header (serializeClaims (fresh_claims (generateJTI rand draws) now u name nick
      roles (now + expires_in))) (base64UrlEncode digest)"
  using assms
  by (auto simp: generateToken_def i64_checked_def Let_def hmacSha256_def token_of_def signing_input_def
      split: if_splits option.splits)

text \<open>Inputs the payload can carry.\<close>

definition plain_user :: "nat list option \<Rightarrow> nat list \<Rightarrow> int \<Rightarrow> int \<Rightarrow> string \<Rightarrow> string \<Rightarrow> string list \<Rightarrow> bool" where
  "plain_user rand draws now u name nick roles \<longleftrightarrow>
     (case rand of None \<Rightarrow> True | Some bs \<Rightarrow> list_all (\<lambda>b. b < 256) bs) \<and> list_all (\<lambda>i. i < 62) draws \<and>
     in_i64 now \<and> in_i64 u \<and> dq \<notin> set name \<and> dq \<notin> set nick \<and>
     list_all (\<lambda>r. dq \<notin> set r \<and> CHR '']'' \<notin> set r) roles"

lemma generateJTI_plain:
  "plain_user rand draws now u name nick roles \<Longrightarrow> dq \<notin> set (generateJTI rand draws)"
  using generateJTI_no_quote [of rand draws] by (auto simp: plain_user_def dq_def list_all_iff split: option.splits)

lemma fresh_claims_plain:
  assumes "plain_user rand draws now u name nick roles" and "in_i64 e"
  shows "claims_plain (fresh_claims (generateJTI rand draws) now u name nick roles e)"
  using assms generateJTI_plain [OF assms(1)]
  by (simp add: claims_plain_def fresh_claims_def plain_user_def dq_def)

lemma safeDecode_fresh:
  assumes "plain_user rand draws now u name nick roles"
    and "generateToken HMAC st rand draws now u name nick roles expires_in = Inr token"
  shows "safeDecode token =
    Some (fresh_claims (generateJTI rand draws) now u name nick roles (now + expires_in))"
  using generateToken_Inr [OF assms(2)] fresh_claims_plain [OF assms(1)]
  by (auto intro!: safeDecode_of parseClaims_serialize simp: header_HS256 [simplified])

section \<open>Properties\<close>

text \<open>C7: \<open>parseClaims\<close> reads back exactly the claims \<open>serializeClaims\<close> wrote, every field and
  every role, when no string holds a double quote and no role a closing bracket.\<close>

theorem claims_roundtrip:
  "claims_plain c \<Longrightarrow> parseClaims (serializeClaims c) empty_claims = (True, c)"
  by (rule parseClaims_serialize)

definition sample_claims :: jwt_claims where
  "sample_claims = \<lparr>c_user_id = 7, c_username = ''ann'', c_nickname = ''A, B'', c_roles = [''admin'', ''x''],
     c_jti = ''ab12'', c_iat = 100, c_exp = 200, c_issuer = ''blog_server''\<rparr>"

theorem claims_roundtrip_witness:
  "parseClaims (serializeClaims sample_claims) empty_claims = (True, sample_claims)"
  by (rule claims_roundtrip) code_simp

text \<open>The accessors read from a generated token what it was generated for: the user's id, name,
  nickname and roles, the token's identifier and the expiry time.\<close>

theorem token_roundtrip:
  assumes "plain_user rand draws now u name nick roles"
    and "generateToken HMAC st rand draws now u name nick roles expires_in = Inr token"
  shows "getUserIdFromToken token = u \<and> getUsernameFromToken token = name \<and>
    getNicknameFromToken token = nick \<and> getRolesFromToken token = roles \<and>
    getJTIFromToken token = generateJTI rand draws \<and>
    getExpirationFromToken token = now + expires_in"
  using safeDecode_fresh [OF assms]
  by (simp add: getUserIdFromToken_def getUsernameFromToken_def getNicknameFromToken_def
      getRolesFromToken_def getJTIFromToken_def getExpirationFromToken_def fresh_claims_def)

definition toy_hmac :: hmac where
  "toy_hmac key data = Some (take 4 key @ show_nat (length data))"

definition sample_jwt :: jwt_state where
  "sample_jwt = jwt_init ''k1k1'' None 0"

theorem token_roundtrip_witness:
  "\<exists>token. generateToken toy_hmac sample_jwt (Some [1, 255]) [] 100 7 ''ann'' ''A'' [''r''] 50 = Inr token \<and>
    getUserIdFromToken token = 7 \<and> getExpirationFromToken token = 150"
proof -
  obtain token where t:
    "generateToken toy_hmac sample_jwt (Some [1, 255]) [] 100 7 ''ann'' ''A'' [''r''] 50 = Inr token"
    by (simp add: generateToken_def i64_checked_def in_i64_def hmacSha256_def toy_hmac_def Let_def)
  have "plain_user (Some [1, 255]) [] 100 7 ''ann'' ''A'' [''r'']" by code_simp
  from token_roundtrip [OF this t] t show ?thesis by auto
qed

text \<open>The key a verifier with state \<open>st'\<close> shares with a signer that used \<open>key\<close>: its current secret, or
  the previous one when that is set and differs.\<close>

definition knows_secret :: "jwt_state \<Rightarrow> string \<Rightarrow> bool" where
  "knows_secret st' key \<longleftrightarrow>
     current_secret st' = key \<or>
     previous_secret st' = key \<and> key \<noteq> [] \<and> key \<noteq> current_secret st'"

lemma str_find_char: "str_find s [ch] pos = Some i \<Longrightarrow> i < length s \<and> s ! i = ch"
  by (auto simp: str_find_def dest!: find_idx_char_Some split: if_splits)

lemma parseToken_dot:
  assumes "parseToken token claims s0 = (True, c, sig)"
  shows "\<exists>n<length token. token ! n = CHR ''.'' \<and> sig = drop (Suc n) token"
proof -
  from assms obtain d1 d2 where "str_find token ''.'' (Suc d1) = Some d2" "sig = drop (Suc d2) token"
    by (auto simp: parseToken_def Let_def split: option.splits if_splits prod.splits)
  with str_find_char [of token "CHR ''.''"] show ?thesis by blast
qed

lemma verifyToken_steps:
  assumes "isInBlacklist B now token s = (False, s')" and "parseToken token claims0 [] = (True, c, sig)"
    and "validateTokenStructure c" "\<not> claims_isExpired now c"
    and "find_last_idx CHR ''.'' token = Some n" and "hmacSha256 HMAC key (take n token) = Inr sig"
    and "HMAC (current_secret st') (take n token) \<noteq> None" and "knows_secret st' key"
  shows "verifyToken HMAC st' B now token claims0 s = Inr (True, c, s')"
proof (cases "current_secret st' = key")
  case True
  with assms show ?thesis by (simp add: verifyToken_def Let_def)
next
  case False
  obtain digest where "HMAC (current_secret st') (take n token) = Some digest" using assms(7) by blast
  with False assms show ?thesis
    by (auto simp: verifyToken_def Let_def knows_secret_def hmacSha256_def [of HMAC "current_secret st'"])
qed

lemma verifyToken_signed:
  assumes dec: "parseClaims p claims0 = (True, c)" and h: "str_find h ''HS256'' 0 \<noteq> None"
    and ok: "validateTokenStructure c" "\<not> claims_isExpired now c"
    and sig: "HMAC key (base64UrlEncode h @ ''.'' @ base64UrlEncode p) = Some digest"
    and total: "\<forall>data. HMAC (current_secret st') data \<noteq> None"
    and key: "knows_secret st' key"
    and bl: "isInBlacklist B now (token_of h p (base64UrlEncode digest)) s = (False, s')"
  shows "verifyToken HMAC st' B now (token_of h p (base64UrlEncode digest)) claims0 s = Inr (True, c, s')"
proof (rule verifyToken_steps [OF bl _ ok _ _ _ key])
  let ?sig = "base64UrlEncode digest" and ?data = "base64UrlEncode h @ ''.'' @ base64UrlEncode p"
  show "parseToken (token_of h p ?sig) claims0 [] = (True, c, ?sig)"
    using h dec by (simp add: parseToken_of)
  show "find_last_idx CHR ''.'' (token_of h p ?sig) = Some (length ?data)"
    by (rule last_dot_token_of) simp
  have "take (length ?data) (token_of h p ?sig) = ?data" by (simp add: token_of_def)
  with sig show "hmacSha256 HMAC key (take (length ?data) (token_of h p ?sig)) = Inr ?sig"
    by (simp only: hmacSha256_def option.case)
  show "HMAC (current_secret st') (take (length ?data) (token_of h p ?sig)) \<noteq> None"
    using total by blast
qed

lemma verifyToken_fresh:
  assumes "plain_user rand draws now u name nick roles"
    and "generateToken HMAC st rand draws now u name nick roles expires_in = Inr token"
    and "0 < u" "name \<noteq> []" "nick \<noteq> []" "0 < now" "0 < expires_in" "generateJTI rand draws \<noteq> []"
    and "later \<le> now + expires_in"
    and "knows_secret st' (current_secret st)" and "\<forall>data. HMAC (current_secret st') data \<noteq> None"
    and "isInBlacklist B later token s = (False, s')"
  shows "verifyToken HMAC st' B later token empty_claims s =
    Inr (True, fresh_claims (generateJTI rand draws) now u name nick roles (now + expires_in), s')"
proof -
  let ?c = "fresh_claims (generateJTI rand draws) now u name nick roles (now + expires_in)"
  obtain digest where d: "in_i64 (now + expires_in)"
    "HMAC (current_secret st) (signing_input ?c) = Some digest"
    and tok: "token = token_of jwt_header (serializeClaims ?c) (base64UrlEncode digest)"
    using generateToken_Inr [OF assms(2)] by blast
  have c: "parseClaims (serializeClaims ?c) empty_claims = (True, ?c)"
    by (rule parseClaims_serialize [OF fresh_claims_plain [OF assms(1) d(1)]])
  have ok: "validateTokenStructure ?c" "\<not> claims_isExpired later ?c"
    using assms by (simp_all add: validateTokenStructure_def claims_isExpired_def fresh_claims_def)
  from verifyToken_signed [where HMAC = HMAC and st' = st' and key = "current_secret st", OF c header_HS256 ok d(2) [unfolded signing_input_def] assms(11,10)] assms(12) tok
  show ?thesis by blast
qed

text \<open>A token is accepted, with exactly its claims, from the second it was made until its expiry
  time, by any verifier that still has the secret it was signed with, current or rotated out
  once, provided the blacklist lookup answers no.\<close>

theorem fresh_token_accepted:
  assumes "plain_user rand draws now u name nick roles"
    and "generateToken HMAC st rand draws now u name nick roles expires_in = Inr token"
    and "0 < u" "name \<noteq> []" "nick \<noteq> []" "0 < now" "0 < expires_in" "generateJTI rand draws \<noteq> []"
    and "later \<le> now + expires_in"
    and "knows_secret st' (current_secret st)" and "\<forall>data. HMAC (current_secret st') data \<noteq> None"
    and "isInBlacklist B later token s = (False, s')"
  shows "verifyToken HMAC st' B later token empty_claims s =
    Inr (True, fresh_claims (generateJTI rand draws) now u name nick roles (now + expires_in), s')"
  by (rule verifyToken_fresh [OF assms])

definition offline :: "(unit, mem, unit, kv) backends" where
  "offline = \<lparr>bk_D = mem_driver, bk_db = None, bk_R = kv_driver, bk_redis = Some kv_conn\<rparr>"

definition sample_world :: "mem \<times> kv" where
  "sample_world =
     (\<lparr>mem_blogs = [], mem_users = [], mem_next = 1, mem_last = 0, mem_down = False\<rparr>,
      \<lparr>kv_map = [], kv_down = False\<rparr>)"

definition sample_token :: string where
  "sample_token = (case generateToken toy_hmac sample_jwt (Some [1, 255]) [] 100 7 ''ann'' ''A'' [''r''] 50 of
     Inr t \<Rightarrow> t | Inl _ \<Rightarrow> [])"

lemma sample_token_made:
  "generateToken toy_hmac sample_jwt (Some [1, 255]) [] 100 7 ''ann'' ''A'' [''r''] 50 = Inr sample_token"
  by (simp add: sample_token_def generateToken_def i64_checked_def in_i64_def hmacSha256_def toy_hmac_def Let_def)

lemma sample_plain: "plain_user (Some [1, 255]) [] 100 7 ''ann'' ''A'' [''r'']"
  by code_simp

lemma sample_not_listed: "isInBlacklist offline t sample_token sample_world = (False, sample_world)"
proof -
  have "isInRedisBlacklist offline j (snd sample_world) = (False, snd sample_world)" for j
    by (simp add: isInRedisBlacklist_def offline_def sample_world_def kv_conn_def redis_init_def
        redis_exists_def redis_simple_def redis_executeCommand_def redis_isConnected_def kv_driver_def
        kv_view_def)
  moreover have "isInMySQLBlacklist offline t j (fst sample_world) = (False, fst sample_world)" for j
    by (simp add: isInMySQLBlacklist_def offline_def)
  ultimately show ?thesis by (simp add: isInBlacklist_def Let_def)
qed

lemma sample_secret: "generateJTI (Some [1, 255]) [] \<noteq> []" "knows_secret sample_jwt (current_secret sample_jwt)"
  "\<forall>data. toy_hmac (current_secret sample_jwt) data \<noteq> None"
  by (simp_all add: knows_secret_def toy_hmac_def generateJTI_def hex02_def)

lemma sample_accepted:
  "verifyToken toy_hmac sample_jwt offline 150 sample_token empty_claims sample_world =
    Inr (True, fresh_claims (generateJTI (Some [1, 255]) []) 100 7 ''ann'' ''A'' [''r''] (100 + 50), sample_world)"
  by (rule verifyToken_fresh [OF sample_plain sample_token_made _ _ _ _ _ sample_secret(1) _ sample_secret(2,3)
        sample_not_listed]) simp_all

theorem fresh_token_accepted_witness:
  "\<exists>c. verifyToken toy_hmac sample_jwt offline 150 sample_token empty_claims sample_world =
    Inr (True, c, sample_world)"
  by (rule exI)
     (rule fresh_token_accepted [OF sample_plain sample_token_made _ _ _ _ _ sample_secret(1) _ sample_secret(2,3)
        sample_not_listed], simp_all)

lemma verifyToken_sound:
  assumes "verifyToken HMAC st B now token empty_claims s = Inr (True, c, s')"
  shows "\<exists>data digest key. token = data @ ''.'' @ base64UrlEncode digest \<and>
    key \<in> {current_secret st, previous_secret st} \<and> HMAC key data = Some digest \<and>
    safeDecode token = Some c \<and> validateTokenStructure c \<and> now \<le> c_exp c \<and>
    isInBlacklist B now token s = (False, s')"
proof -
  obtain sig where bl: "isInBlacklist B now token s = (False, s')"
    and p: "parseToken token empty_claims [] = (True, c, sig)"
    and ok: "validateTokenStructure c" "\<not> claims_isExpired now c"
    and sig: "\<exists>key\<in>{current_secret st, previous_secret st}. hmacSha256 HMAC key
       (case find_last_idx CHR ''.'' token of Some n \<Rightarrow> take n token | None \<Rightarrow> token) = Inr sig"
    using assms
    by (auto simp: verifyToken_def Let_def rbind_eq_Inr split: prod.splits bool.splits if_splits)
  from parseToken_dot [OF p] obtain n where n: "n < length token" "token ! n = CHR ''.''" "sig = drop (Suc n) token"
    by blast
  have split: "token = take n token @ CHR ''.'' # sig" using n id_take_nth_drop by metis
  from sig obtain key digest where k: "key \<in> {current_secret st, previous_secret st}"
    "HMAC key (case find_last_idx CHR ''.'' token of Some n \<Rightarrow> take n token | None \<Rightarrow> token) = Some digest"
    "sig = base64UrlEncode digest"
    by (auto simp: hmacSha256_def split: option.splits)
  have "CHR ''.'' \<notin> set sig" by (simp add: k(3))
  from find_last_idx_append [OF this, of "take n token"] split n(1)
  have "find_last_idx CHR ''.'' token = Some n" by simp
  with k(2) have "HMAC key (take n token) = Some digest" by simp
  with split k(1,3) bl ok p show ?thesis
    by (intro exI [of _ "take n token"] exI [of _ digest] exI [of _ key])
       (simp add: safeDecode_def claims_isExpired_def)
qed

text \<open>C1: an accepted token ends in a signature, without a dot, that one of the two secrets gives
  for all the text before it; its claims are those of its payload, complete, and not yet
  expired; and the blacklist lookup answered no.\<close>

theorem accepted_token_sound:
  assumes "verifyToken HMAC st B now token empty_claims s = Inr (True, c, s')"
  shows "\<exists>data digest key. token = data @ ''.'' @ base64UrlEncode digest \<and>
    key \<in> {current_secret st, previous_secret st} \<and> HMAC key data = Some digest \<and>
    safeDecode token = Some c \<and> validateTokenStructure c \<and> now \<le> c_exp c \<and>
    isInBlacklist B now token s = (False, s')"
  by (rule verifyToken_sound [OF assms])

theorem accepted_token_sound_witness:
  "\<exists>data digest. sample_token = data @ ''.'' @ base64UrlEncode digest \<and>
    toy_hmac (current_secret sample_jwt) data = Some digest"
  using accepted_token_sound [OF sample_accepted]
  by (auto simp: sample_jwt_def jwt_init_def Let_def simp del: append.simps)

text \<open>The Redis connection answers: no error, and \<open>EXISTS\<close> gives a number.\<close>

definition redis_answers :: "('r, 'v) redis_driver \<Rightarrow> 'r redis_connection \<Rightarrow> string \<Rightarrow> 'v \<Rightarrow> bool" where
  "redis_answers R c key v \<longleftrightarrow>
     (case rc_context c of None \<Rightarrow> False | Some h \<Rightarrow> \<not> rds_err R h v \<and>
        (case fst (rds_command R h [''EXISTS'', c_str key] v) of Some (RInteger n) \<Rightarrow> True | _ \<Rightarrow> False))"

lemma redis_exists_stored:
  assumes laws: "redis_laws R view" and ans: "redis_answers R c key v" and st: "view v (c_str key) \<noteq> None"
  shows "fst (redis_exists R c key v)"
proof -
  obtain h where h: "rc_context c = Some h" "\<not> rds_err R h v"
    using ans by (auto simp: redis_answers_def split: option.splits)
  obtain reply v' where r: "rds_command R h [''EXISTS'', c_str key] v = (reply, v')" by fastforce
  with ans h have "\<not> failed reply"
    by (auto simp: redis_answers_def failed_def split: option.splits redis_reply.splits)
  with redis_lawsD(2) [OF laws r] st have "reply = Some (RInteger 1)" by simp
  with r h show ?thesis
    by (simp add: redis_exists_def redis_simple_def redis_executeCommand_def redis_isConnected_def)
qed



section \<open>What the code gives away\<close>

lemma last_dot_unique:
  assumes "a @ CHR ''.'' # b = c @ CHR ''.'' # d" and "CHR ''.'' \<notin> set b" "CHR ''.'' \<notin> set d"
  shows "a = c \<and> b = d"
proof -
  from find_last_idx_append [OF assms(2), of a] find_last_idx_append [OF assms(3), of c] assms(1)
  have "length a = length c" by simp
  with assms(1) show ?thesis by simp
qed

text \<open>A signature that no key made is rejected.\<close>

lemma verifyToken_unsigned:
  assumes "CHR ''.'' \<notin> set sig"
    and "\<forall>key\<in>{current_secret st, previous_secret st}. hmacSha256 HMAC key (signing_input c) \<noteq> Inr sig"
  shows "verifyToken HMAC st B now (signing_input c @ ''.'' @ sig) empty_claims s \<noteq> Inr (True, c', s')"
proof
  assume "verifyToken HMAC st B now (signing_input c @ ''.'' @ sig) empty_claims s = Inr (True, c', s')"
  from verifyToken_sound [OF this] obtain data digest key where
    t: "signing_input c @ ''.'' @ sig = data @ ''.'' @ base64UrlEncode digest"
    and k: "key \<in> {current_secret st, previous_secret st}" "HMAC key data = Some digest"
    by blast
  from t last_dot_unique [of "signing_input c" sig data "base64UrlEncode digest"] assms(1)
  have "data = signing_input c \<and> sig = base64UrlEncode digest" by simp
  with k assms(2) show False by (auto simp: hmacSha256_def)
qed

text \<open>The accessors answer from any well-formed payload, whatever stands in the place of the
  signature and however long ago the token expired: such a token, which \<open>verifyToken\<close> rejects
  for every blacklist and clock, still yields the user's id, names and roles of its
  author's choice.\<close>

theorem accessors_accept_unsigned:
  assumes "claims_plain c" and "CHR ''.'' \<notin> set sig"
    and "\<forall>key\<in>{current_secret st, previous_secret st}. hmacSha256 HMAC key (signing_input c) \<noteq> Inr sig"
  shows "getUserIdFromToken (signing_input c @ ''.'' @ sig) = c_user_id c \<and>
    getUsernameFromToken (signing_input c @ ''.'' @ sig) = c_username c \<and>
    getRolesFromToken (signing_input c @ ''.'' @ sig) = c_roles c \<and>
    (\<forall>c' s'. verifyToken HMAC st B now (signing_input c @ ''.'' @ sig) empty_claims s \<noteq> Inr (True, c', s'))"
proof -
  let ?t = "signing_input c @ ''.'' @ sig"
  have "safeDecode ?t = Some c"
    using safeDecode_of [OF header_HS256 parseClaims_serialize [OF assms(1)], of sig]
    by (simp add: token_of_def signing_input_def)
  moreover have "verifyToken HMAC st B now ?t empty_claims s \<noteq> Inr (True, c', s')" for c' s'
    by (rule verifyToken_unsigned [OF assms(2,3)])
  ultimately show ?thesis
    by (simp add: getUserIdFromToken_def getUsernameFromToken_def getRolesFromToken_def)
qed

theorem accessors_accept_unsigned_witness:
  "getUserIdFromToken (signing_input sample_claims @ ''.'' @ ''forged'') = 7 \<and>
   (\<forall>c' s'. verifyToken toy_hmac sample_jwt offline 5000
      (signing_input sample_claims @ ''.'' @ ''forged'') empty_claims sample_world \<noteq> Inr (True, c', s'))"
proof -
  have p: "claims_plain sample_claims" by code_simp
  have d: "CHR ''.'' \<notin> set ''forged''" by simp
  have "\<forall>key\<in>{current_secret sample_jwt, previous_secret sample_jwt}.
      hmacSha256 toy_hmac key (signing_input sample_claims) \<noteq> Inr ''forged''"
    by code_simp
  from accessors_accept_unsigned [OF p d this, of offline 5000 sample_world]
  have "getUserIdFromToken (signing_input sample_claims @ ''.'' @ ''forged'') = c_user_id sample_claims \<and>
    (\<forall>c' s'. verifyToken toy_hmac sample_jwt offline 5000
      (signing_input sample_claims @ ''.'' @ ''forged'') empty_claims sample_world \<noteq> Inr (True, c', s'))"
    by blast
  moreover have "c_user_id sample_claims = 7" by (simp add: sample_claims_def)
  ultimately show ?thesis by simp
qed

text \<open>When MySQL answers the blacklist query at all, every token with an identifier counts as
  blacklisted, whatever count the query returns: \<open>verifyToken\<close> and \<open>refreshToken\<close> reject even
  a token that was never revoked.\<close>

theorem mysql_blacklist_lists_all:
  assumes "bk_db B = Some db" and "conn_open (bk_D B) db (fst s) = Some h"
    and "drv_prepare (bk_D B) h sql_blacklist_select (fst s) = Some True"
    and "\<forall>i v. drv_set (bk_D B) h sql_blacklist_select i v = Some ()"
    and "\<forall>ps. \<exists>rows w'. drv_executeQuery (bk_D B) h sql_blacklist_select ps (fst s) = (Some (Some rows), w')"
    and "getJTIFromToken token \<noteq> []"
  shows "\<exists>s'. verifyToken HMAC st B now token claims s = Inr (False, claims, s') \<and>
    refreshToken HMAC st B B' rand draws now token expires_in s = Inr ([], s')"
proof -
  have "fst (isInMySQLBlacklist B now (getJTIFromToken token) (fst s))"
    using assms(1-4) assms(5) [rule_format, of "[1 \<mapsto> SStr (getJTIFromToken token), 2 \<mapsto> SInt now]"]
    by (auto simp: isInMySQLBlacklist_def conn_prepareStatement_def stmt_setString_def stmt_setInt64_def
        stmt_set_def stmt_executeQuery_def split: prod.splits)
  then have "fst (isInBlacklist B now token s)"
    using assms(6) by (auto simp: isInBlacklist_def Let_def split: prod.splits bool.splits)
  then obtain s' where "isInBlacklist B now token s = (True, s')"
    by (metis prod.collapse eq_fst_iff)
  then show ?thesis by (simp add: verifyToken_def refreshToken_def)
qed

definition online :: "(unit, mem, unit, kv) backends" where
  "online = offline\<lparr>bk_db := Some \<lparr>m_connection = Some ()\<rparr>\<rparr>"

theorem mysql_blacklist_lists_all_witness:
  "\<exists>s'. verifyToken toy_hmac sample_jwt online 150 sample_token empty_claims sample_world =
    Inr (False, empty_claims, s')"
proof -
  have j: "getJTIFromToken sample_token \<noteq> []"
    using safeDecode_fresh [OF sample_plain sample_token_made]
    by (simp add: getJTIFromToken_def fresh_claims_def generateJTI_def hex02_def)
  have "\<exists>s'. verifyToken toy_hmac sample_jwt online 150 sample_token empty_claims sample_world =
      Inr (False, empty_claims, s') \<and>
    refreshToken toy_hmac sample_jwt online online None [] 150 sample_token 50 sample_world = Inr ([], s')"
    by (rule mysql_blacklist_lists_all [where db = "\<lparr>m_connection = Some ()\<rparr>" and h = "()"])
       (simp_all add: online_def offline_def conn_open_def conn_isClosed_def sample_world_def
          sql_blacklist_select_def j)
  then show ?thesis by blast
qed

text \<open>A nickname that closes its quotes and writes the claims that follow it.\<close>

definition injected :: "string \<Rightarrow> string \<Rightarrow> int \<Rightarrow> string" where
  "injected nick jti exp =
     nick @ [dq, CHR '',''] @ (key_of ''jti'' @ [dq]) @ jti @ [dq, CHR '',''] @
     key_of ''iat'' @ ''1'' @ '','' @ key_of ''exp'' @ show_int exp @ '','' @ (key_of ''iss'' @ [dq])"

lemma serialize_injected:
  "\<exists>tail. serializeClaims (fresh_claims j now u name (injected nick jti e) roles ex) =
    claims_prefix \<lparr>c_user_id = u, c_username = name, c_nickname = nick, c_roles = r, c_jti = jti,
      c_iat = 1, c_exp = e, c_issuer = []\<rparr> @ dq # tail"
proof -
  have "show_int 1 = ''1''" by code_simp
  then show ?thesis
    by (simp add: serializeClaims_def claims_prefix_def fresh_claims_def injected_def key_of_def quoted_def)
qed

lemma parse_roles_keeps:
  "c_exp (parse_roles json (f, c)) = c_exp c" "c_jti (parse_roles json (f, c)) = c_jti c"
  "c_nickname (parse_roles json (f, c)) = c_nickname c" "c_iat (parse_roles json (f, c)) = c_iat c"
  "c_username (parse_roles json (f, c)) = c_username c" "c_user_id (parse_roles json (f, c)) = c_user_id c"
  by (auto simp: parse_roles_def split: option.splits)

text \<open>\<open>serializeClaims\<close> escapes nothing, so a user who may choose the nickname chooses the
  token's identifier and expiry too: the token made for the nickname \<open>injected n j e\<close> is read
  back, and accepted with its genuine signature, with identifier \<open>j\<close> and expiry \<open>e\<close>, whatever
  life time the server asked for.\<close>

theorem nickname_writes_claims:
  assumes "generateToken HMAC st rand draws now u name (injected n j e) roles expires_in = Inr token"
    and "dq \<notin> set name" "dq \<notin> set n" "dq \<notin> set j" "in_i64 u" "in_i64 e"
    and "0 < u" "name \<noteq> []" "n \<noteq> []" "j \<noteq> []" "1 < e" "later \<le> e"
    and "\<forall>data. HMAC (current_secret st) data \<noteq> None"
    and "isInBlacklist B later token s = (False, s')"
  shows "getExpirationFromToken token = e \<and> getJTIFromToken token = j \<and>
    getNicknameFromToken token = n \<and>
    (\<exists>c. c_exp c = e \<and> c_user_id c = u \<and> verifyToken HMAC st B later token empty_claims s = Inr (True, c, s'))"
proof -
  let ?f = "fresh_claims (generateJTI rand draws) now u name (injected n j e) roles (now + expires_in)"
  let ?c = "\<lparr>c_user_id = u, c_username = name, c_nickname = n, c_roles = [], c_jti = j,
      c_iat = 1, c_exp = e, c_issuer = []\<rparr>"
  obtain digest where d: "HMAC (current_secret st) (signing_input ?f) = Some digest"
    and tok: "token = token_of jwt_header (serializeClaims ?f) (base64UrlEncode digest)"
    using generateToken_Inr [OF assms(1)] by blast
  have plain: "claims_plain ?c" using assms by (simp add: claims_plain_def in_i64_def)
  obtain tail where t: "serializeClaims ?f = claims_prefix ?c @ dq # tail"
    using serialize_injected by blast
  obtain json f where p: "parseClaims (serializeClaims ?f) empty_claims = (True, parse_roles json (f, ?c))"
    using parseClaims_prefix [OF plain, of tail] unfolding t by simp
  let ?r = "parse_roles json (f, ?c)"
  have ok: "validateTokenStructure ?r" "\<not> claims_isExpired later ?r"
    using assms by (simp_all add: validateTokenStructure_def claims_isExpired_def parse_roles_keeps)
  have k: "knows_secret st (current_secret st)" by (simp add: knows_secret_def)
  from verifyToken_signed [where HMAC = HMAC and st' = st and key = "current_secret st", OF p header_HS256 ok d [unfolded signing_input_def] assms(13) k] assms(14) tok
  have "verifyToken HMAC st B later token empty_claims s = Inr (True, ?r, s')" by blast
  moreover have "safeDecode token = Some ?r"
    unfolding tok by (rule safeDecode_of [OF header_HS256 p])
  ultimately show ?thesis
    by (auto simp: getExpirationFromToken_def getJTIFromToken_def getNicknameFromToken_def parse_roles_keeps
        intro!: exI [of _ ?r])
qed

lemma injected_made:
  "\<exists>token. generateToken toy_hmac sample_jwt (Some [1, 255]) [] 100 7 ''ann'' (injected ''A'' ''j'' 99999) [] 50 =
    Inr token"
  by (simp add: generateToken_def i64_checked_def in_i64_def hmacSha256_def toy_hmac_def Let_def)

definition nobody :: "(unit, mem, unit, kv) backends" where
  "nobody = offline\<lparr>bk_redis := None\<rparr>"

lemma nobody_lists: "isInBlacklist nobody t token s = (False, s)"
  by (cases s) (simp add: isInBlacklist_def Let_def nobody_def offline_def isInRedisBlacklist_def isInMySQLBlacklist_def)

theorem nickname_writes_claims_witness:
  "\<exists>token. generateToken toy_hmac sample_jwt (Some [1, 255]) [] 100 7 ''ann'' (injected ''A'' ''j'' 99999) [] 50 =
      Inr token \<and> getExpirationFromToken token = 99999"
proof -
  obtain token where t: "generateToken toy_hmac sample_jwt (Some [1, 255]) [] 100 7 ''ann''
      (injected ''A'' ''j'' 99999) [] 50 = Inr token"
    using injected_made by blast
  have "getExpirationFromToken token = 99999 \<and> getJTIFromToken token = ''j'' \<and>
    getNicknameFromToken token = ''A'' \<and>
    (\<exists>c. c_exp c = 99999 \<and> c_user_id c = 7 \<and>
      verifyToken toy_hmac sample_jwt nobody 5000 token empty_claims sample_world = Inr (True, c, sample_world))"
    by (rule nickname_writes_claims [OF t _ _ _ _ _ _ _ _ _ _ _ _ nobody_lists])
       (simp_all add: toy_hmac_def dq_def in_i64_def)
  with t show ?thesis by blast
qed

end
