(* ===== verification/Url.thy ===== *)
theory Url
  imports Prelude
begin

text \<open>
  \<open>StringUtil\<close> of \<^verbatim>\<open>sylar/util.cpp\<close>: URL encoding and decoding, and trimming. The encoder
  and the decoder copy the argument only from the first byte they change on; the lemmas
  \<open>UrlEncode_concat\<close> and \<open>UrlDecode_fun\<close> show what that computes.
\<close>

section \<open>Character tables\<close>

text \<open>\<^verbatim>\<open>uri_chars\<close>: the upper half of the table is zero.\<close>

definition uri_chars :: "nat list" where
  "uri_chars = [0, 0, 0, 0, 0, 0, 0, 0,  0, 0, 0, 0, 0, 0, 0, 0,
  0, 0, 0, 0, 0, 0, 0, 0,  0, 0, 0, 0, 0, 0, 0, 0,
  0, 0, 0, 0, 0, 0, 0, 0,  0, 0, 0, 0, 0, 1, 1, 0,
  1, 1, 1, 1, 1, 1, 1, 1,  1, 1, 0, 0, 0, 1, 0, 0,
  0, 1, 1, 1, 1, 1, 1, 1,  1, 1, 1, 1, 1, 1, 1, 1,
  1, 1, 1, 1, 1, 1, 1, 1,  1, 1, 1, 0, 0, 0, 0, 1,
  0, 1, 1, 1, 1, 1, 1, 1,  1, 1, 1, 1, 1, 1, 1, 1,
  1, 1, 1, 1, 1, 1, 1, 1,  1, 1, 1, 0, 0, 0, 1, 0] @ replicate 128 0"

definition char_is_unreserved :: "char \<Rightarrow> bool" where
  "char_is_unreserved c \<longleftrightarrow> uri_chars ! of_char c \<noteq> 0"

text \<open>\<^verbatim>\<open>isxdigit\<close> in the C locale, and \<^verbatim>\<open>xdigit_chars\<close> on the digits it accepts.\<close>

definition is_xdigit :: "char \<Rightarrow> bool" where
  "is_xdigit c \<longleftrightarrow> (let n = of_char c :: nat in
     48 \<le> n \<and> n \<le> 57 \<or> 65 \<le> n \<and> n \<le> 70 \<or> 97 \<le> n \<and> n \<le> 102)"

definition xdigit_chars :: "char \<Rightarrow> nat" where
  "xdigit_chars c = (let n = of_char c :: nat in
     if 48 \<le> n \<and> n \<le> 57 then n - 48
     else if 65 \<le> n \<and> n \<le> 70 then n - 55
     else if 97 \<le> n \<and> n \<le> 102 then n - 87 else 0)"

definition hexdigits :: string where
  "hexdigits = ''0123456789ABCDEF''"

section \<open>Encoding and decoding\<close>

text \<open>\<open>ss\<close> is the copy under construction, null until a byte has to be changed; \<open>seen\<close> is the
  part of the argument before the cursor.\<close>

definition copied :: "string option \<Rightarrow> string \<Rightarrow> string" where
  "copied ss seen = (case ss of None \<Rightarrow> seen | Some out \<Rightarrow> out)"

definition escaped :: "char \<Rightarrow> string" where
  "escaped c = [CHR ''%'', hexdigits ! (of_char c div 16), hexdigits ! (of_char c mod 16)]"

fun encode_loop :: "bool \<Rightarrow> string option \<Rightarrow> string \<Rightarrow> string \<Rightarrow> string option" where
  "encode_loop space_as_plus ss seen [] = ss"
| "encode_loop space_as_plus ss seen (c # cs) =
     encode_loop space_as_plus
       (if \<not> char_is_unreserved c
        then Some (copied ss seen @ (if c = CHR '' '' \<and> space_as_plus then ''+'' else escaped c))
        else map_option (\<lambda>out. out @ [c]) ss)
       (seen @ [c]) cs"

definition UrlEncode :: "string \<Rightarrow> bool \<Rightarrow> string" where
  "UrlEncode str space_as_plus =
     (case encode_loop space_as_plus None [] str of None \<Rightarrow> str | Some out \<Rightarrow> out)"

text \<open>An escape needs two hexadecimal digits after the percent sign, both before the end.\<close>

fun decode_loop :: "bool \<Rightarrow> string option \<Rightarrow> string \<Rightarrow> string \<Rightarrow> string option" where
  "decode_loop space_as_plus ss seen [] = ss"
| "decode_loop space_as_plus ss seen (c # cs) =
     (if c = CHR ''+'' \<and> space_as_plus
      then decode_loop space_as_plus (Some (copied ss seen @ '' '')) (seen @ [c]) cs
      else if c = CHR ''%''
      then (case cs of
              a # b # rest \<Rightarrow>
                if is_xdigit a \<and> is_xdigit b
                then decode_loop space_as_plus
                       (Some (copied ss seen @ [char_of (16 * xdigit_chars a + xdigit_chars b)]))
                       (seen @ [c, a, b]) rest
                else decode_loop space_as_plus (map_option (\<lambda>out. out @ [c]) ss) (seen @ [c]) cs
            | _ \<Rightarrow> decode_loop space_as_plus (map_option (\<lambda>out. out @ [c]) ss) (seen @ [c]) cs)
      else decode_loop space_as_plus (map_option (\<lambda>out. out @ [c]) ss) (seen @ [c]) cs)"

definition UrlDecode :: "string \<Rightarrow> bool \<Rightarrow> string" where
  "UrlDecode str space_as_plus =
     (case decode_loop space_as_plus None [] str of None \<Rightarrow> str | Some out \<Rightarrow> out)"

declare decode_loop.simps(2) [simp del]

subsection \<open>Reference definitions\<close>

definition encode_char :: "bool \<Rightarrow> char \<Rightarrow> string" where
  "encode_char p c =
     (if char_is_unreserved c then [c] else if c = CHR '' '' \<and> p then ''+'' else escaped c)"

lemma encode_loop_copied:
  "copied (encode_loop p ss seen cs) (seen @ cs) = copied ss seen @ concat (map (encode_char p) cs)"
proof (induction p ss seen cs rule: encode_loop.induct)
  case (2 p ss seen c cs)
  then show ?case by (cases ss) (auto simp: copied_def encode_char_def)
qed simp

lemma UrlEncode_concat: "UrlEncode s p = concat (map (encode_char p) s)"
  using encode_loop_copied [of p None "[]" s] by (simp add: UrlEncode_def copied_def)

fun decode :: "bool \<Rightarrow> string \<Rightarrow> string" where
  "decode p [] = []"
| "decode p (c # cs) =
     (if c = CHR ''+'' \<and> p then CHR '' '' # decode p cs
      else if c = CHR ''%''
      then (case cs of
              a # b # rest \<Rightarrow>
                if is_xdigit a \<and> is_xdigit b
                then char_of (16 * xdigit_chars a + xdigit_chars b) # decode p rest
                else c # decode p cs
            | _ \<Rightarrow> c # decode p cs)
      else c # decode p cs)"

declare decode.simps(2) [simp del]

lemma copied_Some [simp]: "copied (Some out) seen = out"
  by (simp add: copied_def)

lemma copied_push: "copied (map_option (\<lambda>out. out @ [c]) ss) (seen @ [c]) = copied ss seen @ [c]"
  by (cases ss) (simp_all add: copied_def)

text \<open>The escape at the cursor, if there is one: its byte and what follows.\<close>

fun escape_at :: "string \<Rightarrow> (char \<times> char \<times> string) option" where
  "escape_at (a # b # rest) = (if is_xdigit a \<and> is_xdigit b then Some (a, b, rest) else None)"
| "escape_at _ = None"

lemma escape_at_Some: "escape_at cs = Some (a, b, rest) \<longleftrightarrow> cs = a # b # rest \<and> is_xdigit a \<and> is_xdigit b"
  by (induction cs rule: escape_at.induct) auto

lemma decode_loop_cases:
  "decode_loop p ss seen (c # cs) =
     (if c = CHR ''+'' \<and> p then decode_loop p (Some (copied ss seen @ '' '')) (seen @ [c]) cs
      else case (if c = CHR ''%'' then escape_at cs else None) of
        Some (a, b, rest) \<Rightarrow>
          decode_loop p (Some (copied ss seen @ [char_of (16 * xdigit_chars a + xdigit_chars b)]))
            (seen @ [c, a, b]) rest
      | None \<Rightarrow> decode_loop p (map_option (\<lambda>out. out @ [c]) ss) (seen @ [c]) cs)"
  by (cases cs rule: escape_at.cases) (simp_all add: decode_loop.simps(2) [of p ss seen c])

lemma decode_cases:
  "decode p (c # cs) =
     (if c = CHR ''+'' \<and> p then CHR '' '' # decode p cs
      else case (if c = CHR ''%'' then escape_at cs else None) of
        Some (a, b, rest) \<Rightarrow> char_of (16 * xdigit_chars a + xdigit_chars b) # decode p rest
      | None \<Rightarrow> c # decode p cs)"
  by (subst decode.simps(2)) (cases cs rule: escape_at.cases, simp_all)

lemma decode_loop_copied:
  "copied (decode_loop p ss seen cs) (seen @ cs) = copied ss seen @ decode p cs"
proof (induction "length cs" arbitrary: ss seen cs rule: less_induct)
  case less
  show ?case
  proof (cases cs)
    case (Cons c ds)
    have IH: "copied (decode_loop p ss' seen' cs') (seen' @ cs') = copied ss' seen' @ decode p cs'"
      if "length cs' < length cs" for ss' seen' cs' using less that by blast
    show ?thesis
    proof (cases "c = CHR ''+'' \<and> p")
      case True
      with IH [of ds "Some (copied ss seen @ '' '')" "seen @ [c]"] Cons show ?thesis
        by (simp add: decode_loop_cases decode_cases)
    next
      case False
      show ?thesis
      proof (cases "if c = CHR ''%'' then escape_at ds else None")
        case None
        with False IH [of ds "map_option (\<lambda>out. out @ [c]) ss" "seen @ [c]"] Cons show ?thesis
          by (simp only: decode_loop_cases decode_cases copied_push if_False option.case) simp
      next
        case (Some abr)
        then obtain a b rest where abr: "abr = (a, b, rest)" "ds = a # b # rest"
          by (cases abr) (auto simp: escape_at_Some split: if_splits)
        with False Some Cons
          IH [of rest "Some (copied ss seen @ [char_of (16 * xdigit_chars a + xdigit_chars b)])" "seen @ [c, a, b]"]
        show ?thesis
          by (simp only: decode_loop_cases decode_cases if_False option.case prod.case) simp
      qed
    qed
  qed simp
qed

lemma UrlDecode_fun: "UrlDecode s p = decode p s"
  using decode_loop_copied [of p None "[]" s] by (simp add: UrlDecode_def copied_def)

section \<open>Trimming\<close>

text \<open>\<open>find_first_not_of\<close> and \<open>find_last_not_of\<close> with a set of characters.\<close>

definition first_not_of :: "string \<Rightarrow> string \<Rightarrow> nat option" where
  "first_not_of str delimit =
     (let n = length (takeWhile (\<lambda>c. c \<in> set delimit) str)
      in if n < length str then Some n else None)"

definition last_not_of :: "string \<Rightarrow> string \<Rightarrow> nat option" where
  "last_not_of str delimit =
     (case first_not_of (rev str) delimit of None \<Rightarrow> None | Some n \<Rightarrow> Some (length str - 1 - n))"

definition white :: string where
  "white = [CHR '' '', CHR 0x09, CHR 0x0D, CHR 0x0A]"

definition Trim :: "string \<Rightarrow> string \<Rightarrow> string" where
  "Trim str delimit =
     (case first_not_of str delimit of
        None \<Rightarrow> []
      | Some first \<Rightarrow>
          (case last_not_of str delimit of
             None \<Rightarrow> drop first str
           | Some stop \<Rightarrow> take (stop - first + 1) (drop first str)))"

definition TrimLeft :: "string \<Rightarrow> string \<Rightarrow> string" where
  "TrimLeft str delimit = (case first_not_of str delimit of None \<Rightarrow> [] | Some first \<Rightarrow> drop first str)"

definition TrimRight :: "string \<Rightarrow> string \<Rightarrow> string" where
  "TrimRight str delimit = (case last_not_of str delimit of None \<Rightarrow> [] | Some stop \<Rightarrow> take stop str)"

lemma first_not_of_drop:
  "(case first_not_of str d of None \<Rightarrow> [] | Some n \<Rightarrow> drop n str) = dropWhile (\<lambda>c. c \<in> set d) str"
proof -
  have none: "\<not> length (takeWhile P xs) < length xs \<Longrightarrow> dropWhile P xs = []" for P and xs :: string
    by (induction xs) (auto split: if_splits)
  show ?thesis
  proof (cases "length (takeWhile (\<lambda>c. c \<in> set d) str) < length str")
    case True
    then show ?thesis by (simp add: first_not_of_def Let_def) (metis dropWhile_eq_drop)
  next
    case False
    then show ?thesis by (simp only: first_not_of_def Let_def none [OF False]) simp
  qed
qed

lemma TrimLeft_dropWhile: "TrimLeft str d = dropWhile (\<lambda>c. c \<in> set d) str"
  by (simp add: TrimLeft_def first_not_of_drop)

section \<open>Lemmas\<close>

lemma of_char_byte: "(of_char c :: nat) < 256"
  using range_nat_of_char by auto

lemma of_char_nibbles: "(of_char c :: nat) div 16 < 16" "(of_char c :: nat) mod 16 < 16"
  using of_char_byte [of c] by (simp_all add: less_mult_imp_div_less)

lemma hexdigit_value:
  "n < 16 \<Longrightarrow> is_xdigit (hexdigits ! n) \<and> xdigit_chars (hexdigits ! n) = n \<and> hexdigits ! n \<noteq> CHR ''%'' \<and>
     hexdigits ! n \<noteq> CHR ''+'' \<and> hexdigits ! n \<noteq> CHR ''&'' \<and> hexdigits ! n \<noteq> CHR ''=''"
proof -
  assume "n < 16"
  moreover have "list_all (\<lambda>n. is_xdigit (hexdigits ! n) \<and> xdigit_chars (hexdigits ! n) = n \<and>
      hexdigits ! n \<noteq> CHR ''%'' \<and> hexdigits ! n \<noteq> CHR ''+'' \<and> hexdigits ! n \<noteq> CHR ''&'' \<and>
      hexdigits ! n \<noteq> CHR ''='') [0..<16]"
    by code_simp
  ultimately show ?thesis by (simp add: list_all_iff)
qed

lemma reserved_chars [simp]:
  "\<not> char_is_unreserved CHR ''%''" "\<not> char_is_unreserved CHR ''+''" "\<not> char_is_unreserved CHR '' ''"
  "\<not> char_is_unreserved CHR ''&''" "char_is_unreserved CHR ''=''"
  by code_simp+

lemma decode_escaped: "decode p (escaped c @ s) = c # decode p s"
proof -
  from hexdigit_value [OF of_char_nibbles(1)] hexdigit_value [OF of_char_nibbles(2)]
  show ?thesis by (simp add: escaped_def decode_cases)
qed

lemma decode_encode_char:
  "p \<longrightarrow> q \<Longrightarrow> decode q (encode_char p c @ s) = c # decode q s"
proof (cases "char_is_unreserved c")
  case True
  then have "c \<noteq> CHR ''%''" "c \<noteq> CHR ''+''" by auto
  with True show ?thesis by (simp add: encode_char_def decode_cases)
next
  case False
  assume "p \<longrightarrow> q"
  with False show ?thesis
    by (cases "c = CHR '' '' \<and> p") (auto simp: encode_char_def decode_escaped decode_cases)
qed

lemma UrlDecode_UrlEncode: "p \<longrightarrow> q \<Longrightarrow> UrlDecode (UrlEncode s p) q = s"
proof (induction s)
  case (Cons c s)
  then show ?case
    using decode_encode_char [of p q c "UrlEncode s p"] by (simp add: UrlEncode_concat UrlDecode_fun)
qed (simp add: UrlEncode_concat UrlDecode_fun)

text \<open>An encoded text holds no separator of parameters, and no \<^verbatim>\<open>=\<close> that was not there before.\<close>

lemma encode_char_sep:
  "CHR ''&'' \<notin> set (encode_char p c)" "c \<noteq> CHR ''='' \<Longrightarrow> CHR ''='' \<notin> set (encode_char p c)"
proof -
  note h = hexdigit_value [OF of_char_nibbles(1), of c] hexdigit_value [OF of_char_nibbles(2), of c]
  show "CHR ''&'' \<notin> set (encode_char p c)" "c \<noteq> CHR ''='' \<Longrightarrow> CHR ''='' \<notin> set (encode_char p c)"
    using h by (auto simp: encode_char_def escaped_def)
qed

lemma UrlEncode_sep [simp]:
  "CHR ''&'' \<notin> set (UrlEncode s p)" "CHR ''='' \<notin> set s \<Longrightarrow> CHR ''='' \<notin> set (UrlEncode s p)"
  by (auto simp: UrlEncode_concat encode_char_sep(1)) (metis encode_char_sep(2))

section \<open>Properties\<close>

text \<open>Decoding undoes encoding on every byte string, for both treatments of the space as long as
  the decoder reads \<^verbatim>\<open>+\<close> as a space whenever the encoder wrote one so; and an encoded text
  contains no \<^verbatim>\<open>&\<close>, so that it can stand in a query string.\<close>

theorem url_roundtrip:
  "(p \<longrightarrow> q) \<Longrightarrow> UrlDecode (UrlEncode s p) q = s \<and> CHR ''&'' \<notin> set (UrlEncode s p)"
  by (simp add: UrlDecode_UrlEncode)

theorem url_roundtrip_witness:
  "UrlDecode (UrlEncode ''a b&c%'' True) True = ''a b&c%'' \<and> CHR ''&'' \<notin> set (UrlEncode ''a b&c%'' True)"
  by (rule url_roundtrip) simp

text \<open>\<open>Trim\<close> and \<open>TrimLeft\<close> cut exactly the run of delimiters at the ends they name, but
  \<open>TrimRight\<close> cuts one character more: on a text that ends in no delimiter it still drops the
  last character.\<close>

theorem trim_right_drops:
  assumes "c \<notin> set d" and "list_all (\<lambda>x. x \<in> set d) tail"
  shows "TrimRight (s @ [c] @ tail) d = s \<and>
    TrimLeft (tail @ [c] @ s) d = [c] @ s"
proof -
  have "takeWhile (\<lambda>x. x \<in> set d) (rev tail @ c # rev s) = rev tail"
    using assms by (subst takeWhile_append2) (auto simp: list_all_iff)
  then have "first_not_of (rev (s @ [c] @ tail)) d = Some (length tail)"
    by (simp add: first_not_of_def Let_def)
  then have "last_not_of (s @ [c] @ tail) d = Some (length s)" by (simp add: last_not_of_def)
  moreover have "dropWhile (\<lambda>x. x \<in> set d) (tail @ c # s) = c # s"
    using assms by (subst dropWhile_append2) (auto simp: list_all_iff)
  ultimately show ?thesis by (simp add: TrimRight_def TrimLeft_dropWhile)
qed

theorem trim_right_drops_witness: "TrimRight ''abc  '' white = ''ab'' \<and> TrimLeft ''  cab'' white = ''cab''"
  using trim_right_drops [of "CHR ''c''" white "''  ''" "''ab''"] by (simp add: white_def)

end
