(* ===== verification/Http.thy ===== *)
theory Http
  imports OrdMap Url
begin

text \<open>
  HTTP messages (\<^verbatim>\<open>sylar/http/http.cc\<close>, \<^verbatim>\<open>sylar/http/http.h\<close>): methods and statuses, the header map with
  its case-insensitive order, requests with the lazily parsed parameters and cookies, responses, and
  the text of both. The plain setters and getters of the two classes are the fields of the records.
\<close>

section \<open>Methods and statuses\<close>

text \<open>A method is its number in \<^verbatim>\<open>HTTP_METHOD_MAP\<close>; \<^verbatim>\<open>INVALID_METHOD\<close> follows the last.\<close>

definition s_method_string :: "string list" where
  "s_method_string = [
     ''DELETE'', ''GET'', ''HEAD'', ''POST'', ''PUT'', ''CONNECT'', ''OPTIONS'', ''TRACE'',
     ''COPY'', ''LOCK'', ''MKCOL'', ''MOVE'', ''PROPFIND'', ''PROPPATCH'', ''SEARCH'',
     ''UNLOCK'', ''BIND'', ''REBIND'', ''UNBIND'', ''ACL'', ''REPORT'', ''MKACTIVITY'',
     ''CHECKOUT'', ''MERGE'', ''M-SEARCH'', ''NOTIFY'', ''SUBSCRIBE'', ''UNSUBSCRIBE'',
     ''PATCH'', ''PURGE'', ''MKCALENDAR'', ''LINK'', ''UNLINK'', ''SOURCE'']"

definition INVALID_METHOD :: nat where
  "INVALID_METHOD = length s_method_string"

fun index_where :: "('a \<Rightarrow> bool) \<Rightarrow> 'a list \<Rightarrow> nat" where
  "index_where P [] = 0"
| "index_where P (x # xs) = (if P x then 0 else Suc (index_where P xs))"

definition StringToHttpMethod :: "string \<Rightarrow> nat" where
  "StringToHttpMethod m = index_where (\<lambda>name. name = c_str m) s_method_string"

definition CharsToHttpMethod :: "string \<Rightarrow> nat" where
  "CharsToHttpMethod m = index_where (\<lambda>name. prefix name (c_str m)) s_method_string"

definition HttpMethodToString :: "nat \<Rightarrow> string" where
  "HttpMethodToString m = (if m \<ge> length s_method_string then ''<unknown>'' else s_method_string ! m)"

definition http_status_map :: "(nat \<times> string) list" where
  "http_status_map = [
     (100, ''Continue''), (101, ''Switching Protocols''), (102, ''Processing''), (200, ''OK''),
     (201, ''Created''), (202, ''Accepted''), (203, ''Non-Authoritative Information''),
     (204, ''No Content''), (205, ''Reset Content''), (206, ''Partial Content''),
     (207, ''Multi-Status''), (208, ''Already Reported''), (226, ''IM Used''),
     (300, ''Multiple Choices''), (301, ''Moved Permanently''), (302, ''Found''),
     (303, ''See Other''), (304, ''Not Modified''), (305, ''Use Proxy''),
     (307, ''Temporary Redirect''), (308, ''Permanent Redirect''), (400, ''Bad Request''),
     (401, ''Unauthorized''), (402, ''Payment Required''), (403, ''Forbidden''),
     (404, ''Not Found''), (405, ''Method Not Allowed''), (406, ''Not Acceptable''),
     (407, ''Proxy Authentication Required''), (408, ''Request Timeout''), (409, ''Conflict''),
     (410, ''Gone''), (411, ''Length Required''), (412, ''Precondition Failed''),
     (413, ''Payload Too Large''), (414, ''URI Too Long''), (415, ''Unsupported Media Type''),
     (416, ''Range Not Satisfiable''), (417, ''Expectation Failed''),
     (421, ''Misdirected Request''), (422, ''Unprocessable Entity''), (423, ''Locked''),
     (424, ''Failed Dependency''), (426, ''Upgrade Required''), (428, ''Precondition Required''),
     (429, ''Too Many Requests''), (431, ''Request Header Fields Too Large''),
     (451, ''Unavailable For Legal Reasons''), (500, ''Internal Server Error''),
     (501, ''Not Implemented''), (502, ''Bad Gateway''), (503, ''Service Unavailable''),
     (504, ''Gateway Timeout''), (505, ''HTTP Version Not Supported''),
     (506, ''Variant Also Negotiates''), (507, ''Insufficient Storage''),
     (508, ''Loop Detected''), (510, ''Not Extended''),
     (511, ''Network Authentication Required'')]"

definition HttpStatusToString :: "nat \<Rightarrow> string" where
  "HttpStatusToString s = (case map_of http_status_map s of Some msg \<Rightarrow> msg | None \<Rightarrow> ''<unknown>'')"

lemma method_roundtrip:
  "m < INVALID_METHOD \<Longrightarrow>
   StringToHttpMethod (HttpMethodToString m) = m \<and> CharsToHttpMethod (HttpMethodToString m) = m"
proof -
  have "list_all (\<lambda>m. StringToHttpMethod (HttpMethodToString m) = m \<and>
      CharsToHttpMethod (HttpMethodToString m) = m) [0..<INVALID_METHOD]"
    by code_simp
  then show "m < INVALID_METHOD \<Longrightarrow> ?thesis" by (simp add: list_all_iff)
qed

section \<open>The order of header names\<close>

text \<open>\<^verbatim>\<open>strcasecmp\<close> compares lower-case bytes up to the null byte.\<close>

definition case_key :: "string \<Rightarrow> string" where
  "case_key s = map tolower (c_str s)"

definition CaseInsensitiveLess :: "string \<Rightarrow> string \<Rightarrow> bool" where
  "CaseInsensitiveLess lhs rhs \<longleftrightarrow> str_less (case_key lhs) (case_key rhs)"

definition strcasecmp_eq :: "string \<Rightarrow> string \<Rightarrow> bool" where
  "strcasecmp_eq a b \<longleftrightarrow> case_key a = case_key b"

text \<open>\<^verbatim>\<open>strcasestr(haystack, needle) != nullptr\<close>\<close>

definition strcasestr :: "string \<Rightarrow> string \<Rightarrow> bool" where
  "strcasestr haystack needle \<longleftrightarrow> find_idx (case_key needle) (case_key haystack) \<noteq> None"

interpretation nocase: strict_weak_order CaseInsensitiveLess
  unfolding CaseInsensitiveLess_def
  by (rule strict_weak_order_pullback [OF str.strict_total_order_axioms])

lemma nocase_equiv:
  "\<not> CaseInsensitiveLess a b \<and> \<not> CaseInsensitiveLess b a \<longleftrightarrow> strcasecmp_eq a b"
  using str_less_total str_less_irrefl
  by (auto simp: CaseInsensitiveLess_def strcasecmp_eq_def)

type_synonym header_map = "(string \<times> string) list"

definition map_get :: "header_map \<Rightarrow> string \<Rightarrow> string \<Rightarrow> string" where
  "map_get m key def = (case map_find CaseInsensitiveLess key m of None \<Rightarrow> def | Some kv \<Rightarrow> snd kv)"

section \<open>Requests\<close>

record http_request =
  r_method :: nat
  r_version :: nat
  r_close :: bool
  r_websocket :: bool
  r_parserParamFlag :: nat
  r_path :: string
  r_query :: string
  r_fragment :: string
  r_body :: string
  r_headers :: header_map
  r_params :: header_map
  r_cookies :: header_map

definition new_request :: "nat \<Rightarrow> bool \<Rightarrow> http_request" where
  "new_request version close =
     \<lparr>r_method = 1, r_version = version, r_close = close, r_websocket = False,
      r_parserParamFlag = 0, r_path = ''/'', r_query = [], r_fragment = [], r_body = [],
      r_headers = [], r_params = [], r_cookies = []\<rparr>"

definition req_getHeader :: "http_request \<Rightarrow> string \<Rightarrow> string \<Rightarrow> string" where
  "req_getHeader r key def = map_get (r_headers r) key def"

definition req_setHeader :: "string \<Rightarrow> string \<Rightarrow> http_request \<Rightarrow> http_request" where
  "req_setHeader key val r = r\<lparr>r_headers := map_assign CaseInsensitiveLess key val (r_headers r)\<rparr>"

definition req_setParam :: "string \<Rightarrow> string \<Rightarrow> http_request \<Rightarrow> http_request" where
  "req_setParam key val r = r\<lparr>r_params := map_assign CaseInsensitiveLess key val (r_params r)\<rparr>"

definition req_setCookie :: "string \<Rightarrow> string \<Rightarrow> http_request \<Rightarrow> http_request" where
  "req_setCookie key val r = r\<lparr>r_cookies := map_assign CaseInsensitiveLess key val (r_cookies r)\<rparr>"

definition req_delHeader :: "string \<Rightarrow> http_request \<Rightarrow> http_request" where
  "req_delHeader key r = r\<lparr>r_headers := map_erase CaseInsensitiveLess key (r_headers r)\<rparr>"

definition req_delParam :: "string \<Rightarrow> http_request \<Rightarrow> http_request" where
  "req_delParam key r = r\<lparr>r_params := map_erase CaseInsensitiveLess key (r_params r)\<rparr>"

definition req_delCookie :: "string \<Rightarrow> http_request \<Rightarrow> http_request" where
  "req_delCookie key r = r\<lparr>r_cookies := map_erase CaseInsensitiveLess key (r_cookies r)\<rparr>"

definition req_hasHeader :: "http_request \<Rightarrow> string \<Rightarrow> string option" where
  "req_hasHeader r key = map_option snd (map_find CaseInsensitiveLess key (r_headers r))"

subsection \<open>Parameters\<close>

text \<open>
  The macro \<^verbatim>\<open>PARSE_PARAM\<close>, which parses from \<open>pos\<close> on: the key stands before the next \<^verbatim>\<open>=\<close>, the
  value between it and the next separator (\<^verbatim>\<open>&\<close> or \<^verbatim>\<open>;\<close>, never \<^verbatim>\<open>=\<close>), or the end.
\<close>

function parse_param ::
    "char \<Rightarrow> (string \<Rightarrow> string) \<Rightarrow> string \<Rightarrow> nat \<Rightarrow> header_map \<Rightarrow> header_map" where
  "parse_param flag trim str pos m =
     (case str_find str ''='' pos of
        None \<Rightarrow> m
      | Some key \<Rightarrow>
          let name = UrlDecode (trim (take (key - pos) (drop pos str))) True
          in case str_find str [flag] key of
               None \<Rightarrow> map_insert CaseInsensitiveLess name (UrlDecode (drop (key + 1) str) True) m
             | Some stop \<Rightarrow>
                 parse_param flag trim str (stop + 1)
                   (map_insert CaseInsensitiveLess name
                      (UrlDecode (take (stop - key - 1) (drop (key + 1) str)) True) m))"
  by auto
termination
proof (relation "measure (\<lambda>(flag, trim, str, pos, m). length str - pos)")
  fix flag :: char and trim :: "string \<Rightarrow> string" and str :: string and pos :: nat and m :: header_map
    and key name stop
  assume "str_find str ''='' pos = Some key" "str_find str [flag] key = Some stop"
  then have "pos \<le> key" "key \<le> stop" "stop + 1 \<le> length str"
    by (auto simp: str_find_def dest!: find_idx_bound split: if_splits)
  then show "((flag, trim, str, stop + 1, map_insert CaseInsensitiveLess name
      (UrlDecode (take (stop - key - 1) (drop (key + 1) str)) True) m), flag, trim, str, pos, m)
      \<in> measure (\<lambda>(flag, trim, str, pos, m). length str - pos)"
    by simp
qed simp

declare parse_param.simps [simp del]

definition initQueryParam :: "http_request \<Rightarrow> http_request" where
  "initQueryParam r =
     (if odd (r_parserParamFlag r) then r
      else r\<lparr>r_params := parse_param CHR ''&'' (\<lambda>s. s) (r_query r) 0 (r_params r),
             r_parserParamFlag := r_parserParamFlag r + 1\<rparr>)"

definition form_type :: string where
  "form_type = ''application/x-www-form-urlencoded''"

definition initBodyParam :: "http_request \<Rightarrow> http_request" where
  "initBodyParam r =
     (if odd (r_parserParamFlag r div 2) then r
      else
        let r' = (if strcasestr (req_getHeader r ''content-type'' []) form_type
                  then r\<lparr>r_params := parse_param CHR ''&'' (\<lambda>s. s) (r_body r) 0 (r_params r)\<rparr> else r)
        in r'\<lparr>r_parserParamFlag := r_parserParamFlag r' + 2\<rparr>)"

definition initCookies :: "http_request \<Rightarrow> http_request" where
  "initCookies r =
     (if odd (r_parserParamFlag r div 4) then r
      else
        let cookie = req_getHeader r ''cookie'' [];
            r' = (if cookie = [] then r
                  else r\<lparr>r_cookies := parse_param CHR '';'' (\<lambda>s. Trim s white) cookie 0 (r_cookies r)\<rparr>)
        in r'\<lparr>r_parserParamFlag := r_parserParamFlag r' + 4\<rparr>)"

definition initParams :: "http_request \<Rightarrow> http_request" where
  "initParams r = initBodyParam (initQueryParam r)"

definition getParam :: "string \<Rightarrow> string \<Rightarrow> http_request \<Rightarrow> string \<times> http_request" where
  "getParam key def r = (let r' = initParams r in (map_get (r_params r') key def, r'))"

definition hasParam :: "string \<Rightarrow> http_request \<Rightarrow> string option \<times> http_request" where
  "hasParam key r =
     (let r' = initParams r in (map_option snd (map_find CaseInsensitiveLess key (r_params r')), r'))"

definition getCookie :: "string \<Rightarrow> string \<Rightarrow> http_request \<Rightarrow> string \<times> http_request" where
  "getCookie key def r = (let r' = initCookies r in (map_get (r_cookies r') key def, r'))"

definition hasCookie :: "string \<Rightarrow> http_request \<Rightarrow> string option \<times> http_request" where
  "hasCookie key r =
     (let r' = initCookies r in (map_option snd (map_find CaseInsensitiveLess key (r_cookies r')), r'))"

text \<open>\<open>HttpRequest::init\<close>, called when a request is complete.\<close>

definition req_init :: "http_request \<Rightarrow> http_request" where
  "req_init r =
     (let conn = req_getHeader r ''connection'' []
      in if conn = [] then r else r\<lparr>r_close := \<not> strcasecmp_eq conn ''keep-alive''\<rparr>)"

section \<open>Responses\<close>

record http_response =
  p_status :: nat
  p_version :: nat
  p_close :: bool
  p_websocket :: bool
  p_body :: string
  p_reason :: string
  p_headers :: header_map
  p_cookies :: "string list"

definition new_response :: "nat \<Rightarrow> bool \<Rightarrow> http_response" where
  "new_response version close =
     \<lparr>p_status = 200, p_version = version, p_close = close, p_websocket = False, p_body = [],
      p_reason = [], p_headers = [], p_cookies = []\<rparr>"

definition createResponse :: "http_request \<Rightarrow> http_response" where
  "createResponse r = new_response (r_version r) (r_close r)"

definition rsp_getHeader :: "http_response \<Rightarrow> string \<Rightarrow> string \<Rightarrow> string" where
  "rsp_getHeader p key def = map_get (p_headers p) key def"

definition rsp_setHeader :: "string \<Rightarrow> string \<Rightarrow> http_response \<Rightarrow> http_response" where
  "rsp_setHeader key val p = p\<lparr>p_headers := map_assign CaseInsensitiveLess key val (p_headers p)\<rparr>"

definition rsp_delHeader :: "string \<Rightarrow> http_response \<Rightarrow> http_response" where
  "rsp_delHeader key p = p\<lparr>p_headers := map_erase CaseInsensitiveLess key (p_headers p)\<rparr>"

definition setRedirect :: "string \<Rightarrow> http_response \<Rightarrow> http_response" where
  "setRedirect uri p = rsp_setHeader ''Location'' uri (p\<lparr>p_status := 302\<rparr>)"

text \<open>\<open>time2str\<close> is \<open>Time2Str\<close>, the C library's \<^verbatim>\<open>strftime\<close>.\<close>

definition rsp_setCookie ::
    "(int \<Rightarrow> string \<Rightarrow> string) \<Rightarrow> string \<Rightarrow> string \<Rightarrow> int \<Rightarrow> string \<Rightarrow> string \<Rightarrow> bool \<Rightarrow> http_response \<Rightarrow>
     http_response" where
  "rsp_setCookie time2str key val expired path domain secure p =
     (let ss = key @ ''='' @ val @
            (if expired > 0 then '';expires='' @ time2str expired ''%a, %d %b %Y %H:%M:%S'' @ '' GMT'' else []) @
            (if domain \<noteq> [] then '';domain='' @ domain else []) @
            (if path \<noteq> [] then '';path='' @ path else []) @
            (if secure then '';secure'' else [])
      in p\<lparr>p_cookies := p_cookies p @ [ss]\<rparr>)"

section \<open>Text\<close>

definition crlf :: string where
  "crlf = [CHR 0x0D, CHR 0x0A]"

definition header_line :: "string \<times> string \<Rightarrow> string" where
  "header_line kv = fst kv @ '': '' @ snd kv @ crlf"

definition version_text :: "nat \<Rightarrow> string" where
  "version_text v = show_nat (v div 16) @ ''.'' @ show_nat (v mod 16)"

definition connection_line :: "bool \<Rightarrow> string" where
  "connection_line close = ''connection: '' @ (if close then ''close'' else ''keep-alive'') @ crlf"

definition body_text :: "string \<Rightarrow> string" where
  "body_text body =
     (if body \<noteq> [] then ''content-length: '' @ show_nat (length body) @ crlf @ crlf @ body else crlf)"

definition req_dump :: "http_request \<Rightarrow> string" where
  "req_dump r =
     HttpMethodToString (r_method r) @ '' '' @ r_path r @
     (if r_query r = [] then [] else ''?'') @ r_query r @
     (if r_fragment r = [] then [] else ''#'') @ r_fragment r @
     '' HTTP/'' @ version_text (r_version r) @ crlf @
     (if r_websocket r then [] else connection_line (r_close r)) @
     concat (map header_line (filter (\<lambda>kv.
       \<not> (\<not> r_websocket r \<and> strcasecmp_eq (fst kv) ''connection'') \<and>
       \<not> (r_body r \<noteq> [] \<and> strcasecmp_eq (fst kv) ''content-length'')) (r_headers r))) @
     body_text (r_body r)"

definition rsp_dump :: "http_response \<Rightarrow> string" where
  "rsp_dump p =
     ''HTTP/'' @ version_text (p_version p) @ '' '' @ show_nat (p_status p) @ '' '' @
     (if p_reason p = [] then HttpStatusToString (p_status p) else p_reason p) @ crlf @
     concat (map header_line (filter (\<lambda>kv.
       \<not> (\<not> p_websocket p \<and> strcasecmp_eq (fst kv) ''connection'')) (p_headers p))) @
     concat (map (\<lambda>c. ''Set-Cookie: '' @ c @ crlf) (p_cookies p)) @
     (if p_websocket p then [] else connection_line (p_close p)) @
     body_text (p_body p)"

end
