(* ===== verification/HttpProps.thy ===== *)
theory HttpProps
  imports Http
begin

text \<open>
  What the HTTP messages promise: a form-encoded query is read back pair by pair, the first of
  several equal names wins whatever its case, and the query wins over the body; a response whose
  parts hold no carriage return is framed by the first empty line, which stands right before the
  body.
\<close>

section \<open>Form-encoded text\<close>

definition form_pair :: "string \<times> string \<Rightarrow> string" where
  "form_pair kv = UrlEncode (fst kv) True @ ''='' @ UrlEncode (snd kv) True"

fun form_query :: "(string \<times> string) list \<Rightarrow> string" where
  "form_query [] = []"
| "form_query [kv] = form_pair kv"
| "form_query (kv # kw # kvs) = form_pair kv @ ''&'' @ form_query (kw # kvs)"

definition plain_names :: "(string \<times> string) list \<Rightarrow> bool" where
  "plain_names kvs \<longleftrightarrow> list_all (\<lambda>kv. CHR ''='' \<notin> set (fst kv)) kvs"

definition insert_pairs :: "(string \<times> string) list \<Rightarrow> header_map \<Rightarrow> header_map" where
  "insert_pairs kvs m = foldl (\<lambda>m kv. map_insert CaseInsensitiveLess (fst kv) (snd kv) m) m kvs"

lemma UrlDecode_UrlEncode_space [simp]: "UrlDecode (UrlEncode s True) True = s"
  by (rule UrlDecode_UrlEncode) simp

lemma str_find_past:
  assumes "s = p @ u" and "c \<notin> set u"
  shows "str_find s [c] (length p) = None"
  using assms by (simp add: str_find_def)

lemma parse_param_last:
  assumes "CHR ''='' \<notin> set (fst kv)"
  shows "parse_param CHR ''&'' (\<lambda>s. s) (p @ form_pair kv) (length p) m =
    map_insert CaseInsensitiveLess (fst kv) (snd kv) m"
proof -
  let ?k = "UrlEncode (fst kv) True" and ?v = "UrlEncode (snd kv) True"
  have "str_find (p @ form_pair kv) ''='' (length p) = Some (length p + length ?k)"
    by (rule str_find_skip [of _ p ?k _ ?v]) (use assms in \<open>auto simp: form_pair_def\<close>)
  moreover have "str_find (p @ form_pair kv) ''&'' (length p + length ?k) = None"
    using str_find_past [of "p @ form_pair kv" "p @ ?k" "''='' @ ?v" "CHR ''&''"]
    by (simp add: form_pair_def)
  ultimately show ?thesis
    by (subst parse_param.simps) (simp add: form_pair_def)
qed

lemma parse_param_more:
  assumes "CHR ''='' \<notin> set (fst kv)"
  shows "parse_param CHR ''&'' (\<lambda>s. s) (p @ form_pair kv @ ''&'' @ rest) (length p) m =
    parse_param CHR ''&'' (\<lambda>s. s) ((p @ form_pair kv @ ''&'') @ rest)
      (length (p @ form_pair kv @ ''&'')) (map_insert CaseInsensitiveLess (fst kv) (snd kv) m)"
proof -
  let ?k = "UrlEncode (fst kv) True" and ?v = "UrlEncode (snd kv) True"
  let ?s = "p @ form_pair kv @ ''&'' @ rest"
  have "str_find ?s ''='' (length p) = Some (length p + length ?k)"
    by (rule str_find_skip [of _ p ?k _ "?v @ ''&'' @ rest"])
       (use assms in \<open>auto simp: form_pair_def\<close>)
  moreover have "str_find ?s ''&'' (length p + length ?k) =
      Some (length p + length ?k + (length ?v + 1))"
    using str_find_skip [of ?s "p @ ?k" "''='' @ ?v" "''&''" rest "CHR ''&''" "[]"]
    by (simp add: form_pair_def)
  ultimately show ?thesis
    by (subst parse_param.simps) (simp add: form_pair_def add.assoc)
qed

lemma parse_param_form:
  "plain_names kvs \<Longrightarrow>
   parse_param CHR ''&'' (\<lambda>s. s) (p @ form_query kvs) (length p) m = insert_pairs kvs m"
proof (induction kvs arbitrary: p m rule: form_query.induct)
  case 1
  then show ?case
    by (subst parse_param.simps) (simp add: str_find_def insert_pairs_def)
next
  case (2 kv)
  then show ?case
    by (simp add: parse_param_last plain_names_def insert_pairs_def)
next
  case (3 kv kw kvs)
  have "CHR ''='' \<notin> set (fst kv)" "plain_names (kw # kvs)"
    using "3.prems" by (simp_all add: plain_names_def)
  then show ?case
    using parse_param_more [of kv p "form_query (kw # kvs)" m]
      "3.IH" [of "p @ form_pair kv @ ''&''"]
    by (simp add: insert_pairs_def)
qed

section \<open>Look-up by name\<close>

definition first_named :: "string \<Rightarrow> (string \<times> string) list \<Rightarrow> string option" where
  "first_named key kvs = map_option snd (List.find (\<lambda>kv. strcasecmp_eq (fst kv) key) kvs)"

lemma first_named_simps [simp]:
  "first_named key [] = None"
  "first_named key (kv # kvs) = (if strcasecmp_eq (fst kv) key then Some (snd kv) else first_named key kvs)"
  by (simp_all add: first_named_def)

lemma map_find_same_name:
  "strcasecmp_eq a b \<Longrightarrow> map_find CaseInsensitiveLess b m = map_find CaseInsensitiveLess a m"
  by (induction m) (auto simp: CaseInsensitiveLess_def strcasecmp_eq_def)

lemma map_get_value: "map_get m key def = (case map_value CaseInsensitiveLess key m of None \<Rightarrow> def | Some v \<Rightarrow> v)"
  by (simp add: map_get_def map_value_def split: option.split)

lemma insert_pairs_value:
  assumes "ordered_by CaseInsensitiveLess (map fst m)"
  shows "ordered_by CaseInsensitiveLess (map fst (insert_pairs kvs m)) \<and>
    map_value CaseInsensitiveLess key (insert_pairs kvs m) =
      (case map_value CaseInsensitiveLess key m of Some v \<Rightarrow> Some v | None \<Rightarrow> first_named key kvs)"
  using assms
proof (induction kvs arbitrary: m)
  case Nil
  then show ?case by (simp add: insert_pairs_def split: option.split)
next
  case (Cons kv kvs)
  let ?m = "map_insert CaseInsensitiveLess (fst kv) (snd kv) m"
  have o: "ordered_by CaseInsensitiveLess (map fst ?m)"
    by (rule nocase.ordered_map_insert [OF Cons.prems])
  have same: "map_value CaseInsensitiveLess key m = map_value CaseInsensitiveLess (fst kv) m"
    if "strcasecmp_eq (fst kv) key"
    by (simp only: map_value_def map_find_same_name [OF that])
  show ?case
    using Cons.IH [OF o] nocase.map_value_insert [OF Cons.prems, of key "fst kv" "snd kv"]
      nocase_equiv [of "fst kv" key] same
    by (auto simp: insert_pairs_def split: option.split)
qed


section \<open>Framing of a response\<close>

definition no_cr :: "string \<Rightarrow> bool" where
  "no_cr s \<longleftrightarrow> CHR 0x0D \<notin> set s"

lemma no_cr_append [simp]: "no_cr (s @ t) \<longleftrightarrow> no_cr s \<and> no_cr t"
  by (simp add: no_cr_def)

lemma no_cr_Cons [simp]: "no_cr (c # s) \<longleftrightarrow> c \<noteq> CHR 0x0D \<and> no_cr s"
  by (auto simp: no_cr_def)

lemma no_cr_Nil [simp]: "no_cr []"
  by (simp add: no_cr_def)

lemma no_cr_show_nat [simp]: "no_cr (show_nat n)"
proof -
  have "\<not> is_digit CHR 0x0D" by code_simp
  then show ?thesis
    using show_nat_digits [of n] by (auto simp: no_cr_def list_all_iff)
qed

lemma no_cr_HttpStatusToString [simp]: "no_cr (HttpStatusToString n)"
proof -
  have "list_all (\<lambda>kv. no_cr (snd kv)) http_status_map" by (simp add: http_status_map_def)
  then have "no_cr v" if "map_of http_status_map n = Some v" for v
    using map_of_SomeD [OF that] by (auto simp: list_all_iff)
  then show ?thesis by (simp add: HttpStatusToString_def split: option.split)
qed

text \<open>The first empty line of a text made of non-empty lines.\<close>

lemma find_blank_line:
  "list_all (\<lambda>l. l \<noteq> [] \<and> no_cr l) (l0 # ls) \<Longrightarrow>
   find_idx (crlf @ crlf) (concat (map (\<lambda>l. l @ crlf) (l0 # ls)) @ crlf @ body) =
     Some (length (concat (map (\<lambda>l. l @ crlf) (l0 # ls))) - 2)"
proof (induction ls arbitrary: l0)
  case Nil
  then show ?case
    using find_idx_skip [of "crlf @ crlf" "CHR 0x0D" _ l0 "crlf @ crlf @ body"]
      find_idx_here [of "crlf @ crlf" body]
    by (simp add: crlf_def no_cr_def)
next
  case (Cons l1 ls)
  let ?tail = "concat (map (\<lambda>l. l @ crlf) (l1 # ls)) @ crlf @ body"
  obtain c l where l1: "l1 = c # l" "c \<noteq> CHR 0x0D" using Cons.prems by (cases l1) auto
  have "find_idx (crlf @ crlf) (crlf @ ?tail) = map_option (\<lambda>i. 2 + i) (find_idx (crlf @ crlf) ?tail)"
    using l1 by (simp add: crlf_def option.map_comp comp_def)
  then show ?case
    using Cons.IH [of l1] Cons.prems l1
      find_idx_skip [of "crlf @ crlf" "CHR 0x0D" _ l0 "crlf @ ?tail"]
    by (simp add: crlf_def no_cr_def)
qed

definition clean_response :: "http_response \<Rightarrow> bool" where
  "clean_response p \<longleftrightarrow> no_cr (p_reason p) \<and> list_all (\<lambda>kv. no_cr (fst kv) \<and> no_cr (snd kv)) (p_headers p) \<and>
     list_all no_cr (p_cookies p)"

definition status_line :: "http_response \<Rightarrow> string" where
  "status_line p = ''HTTP/'' @ version_text (p_version p) @ '' '' @ show_nat (p_status p) @ '' '' @
     (if p_reason p = [] then HttpStatusToString (p_status p) else p_reason p)"

definition rsp_lines :: "http_response \<Rightarrow> string list" where
  "rsp_lines p =
     map (\<lambda>kv. fst kv @ '': '' @ snd kv) (filter (\<lambda>kv.
       \<not> (\<not> p_websocket p \<and> strcasecmp_eq (fst kv) ''connection'')) (p_headers p)) @
     map (\<lambda>c. ''Set-Cookie: '' @ c) (p_cookies p) @
     (if p_websocket p then [] else [''connection: '' @ (if p_close p then ''close'' else ''keep-alive'')]) @
     (if p_body p = [] then [] else [''content-length: '' @ show_nat (length (p_body p))])"

lemma rsp_dump_lines:
  "rsp_dump p = concat (map (\<lambda>l. l @ crlf) (status_line p # rsp_lines p)) @ crlf @ p_body p"
  by (simp add: rsp_dump_def status_line_def rsp_lines_def header_line_def [abs_def] connection_line_def
      body_text_def comp_def)

lemma rsp_lines_clean:
  "clean_response p \<Longrightarrow> list_all (\<lambda>l. l \<noteq> [] \<and> no_cr l) (status_line p # rsp_lines p)"
  by (auto simp: clean_response_def status_line_def rsp_lines_def version_text_def list_all_iff)

section \<open>Properties\<close>

text \<open>C16: on a request whose parameters were not parsed yet, whose query is a form-encoded list of
  pairs and whose body is one as well if its content type says so (names without \<^verbatim>\<open>=\<close>, values
  arbitrary), \<open>getParam\<close> answers the value of the first pair whose name equals the key whatever
  the case, the query before the body, or the default; a second look-up reads the same request.\<close>

theorem getParam_form:
  assumes "plain_names query" and "plain_names body"
    and "r_parserParamFlag r = 0" and "r_params r = []" and "r_query r = form_query query"
    and form: "if strcasestr (req_getHeader r ''content-type'' []) form_type
      then r_body r = form_query body else body = []"
  shows "fst (getParam key def r) =
      (case first_named key (query @ body) of Some v \<Rightarrow> v | None \<Rightarrow> def) \<and>
    initParams (snd (getParam key def r)) = snd (getParam key def r)"
proof -
  have split: "insert_pairs body (insert_pairs query []) = insert_pairs (query @ body) []"
    by (simp add: insert_pairs_def)
  have params: "r_params (initParams r) = insert_pairs (query @ body) []"
    and flag: "r_parserParamFlag (initParams r) = 3"
    using assms parse_param_form [of query "[]" "[]"] parse_param_form [of body "[]" "insert_pairs query []"]
    by (auto simp: initParams_def initQueryParam_def initBodyParam_def req_getHeader_def split Let_def
        split: if_splits)
  have "initParams (initParams r) = initParams r"
    unfolding initParams_def [of "initParams r"] using flag
    by (simp add: initQueryParam_def initBodyParam_def)
  then show ?thesis
    using insert_pairs_value [where m = "[]" and key = key and kvs = "query @ body"]
    by (simp add: getParam_def Let_def params map_get_value split: option.split)
qed

definition sample_query :: "(string \<times> string) list" where
  "sample_query = [(''page'', ''2''), (''q'', ''a=b & c'')]"

definition sample_body :: "(string \<times> string) list" where
  "sample_body = [(''PAGE'', ''9''), (''size'', ''5'')]"

definition sample_request :: http_request where
  "sample_request = req_setHeader ''Content-Type'' form_type
     ((new_request 17 True)\<lparr>r_query := form_query sample_query, r_body := form_query sample_body\<rparr>)"

theorem getParam_form_witness:
  "fst (getParam ''Page'' ''1'' sample_request) = ''2'' \<and> fst (getParam ''SIZE'' [] sample_request) = ''5''"
proof -
  have "plain_names sample_query" "plain_names sample_body" by code_simp+
  moreover have "r_parserParamFlag sample_request = 0" "r_params sample_request = []"
    "r_query sample_request = form_query sample_query" "r_body sample_request = form_query sample_body"
    "strcasestr (req_getHeader sample_request ''content-type'' []) form_type"
    by code_simp+
  ultimately have "fst (getParam key def sample_request) =
      (case first_named key (sample_query @ sample_body) of Some v \<Rightarrow> v | None \<Rightarrow> def)" for key def
    using getParam_form [of sample_query sample_body sample_request key def] by simp
  moreover have "first_named ''Page'' (sample_query @ sample_body) = Some ''2''"
    "first_named ''SIZE'' (sample_query @ sample_body) = Some ''5''"
    by code_simp+
  ultimately show ?thesis by simp
qed

text \<open>In a response whose reason, headers and cookies hold no carriage return, the first blank
  line ends the header and everything behind it is the body, byte for byte; the body's length is
  announced in the last header line.\<close>

theorem rsp_dump_framed:
  assumes "clean_response p"
  shows "\<exists>n. find_idx (crlf @ crlf) (rsp_dump p) = Some n \<and>
    drop (n + 4) (rsp_dump p) = p_body p \<and>
    take (n + 2) (rsp_dump p) = concat (map (\<lambda>l. l @ crlf) (status_line p # rsp_lines p)) \<and>
    (p_body p \<noteq> [] \<longrightarrow> last (rsp_lines p) = ''content-length: '' @ show_nat (length (p_body p)))"
proof -
  let ?h = "concat (map (\<lambda>l. l @ crlf) (status_line p # rsp_lines p))"
  have two: "length ?h = (length ?h - 2) + 2" by (simp add: crlf_def)
  have dump: "rsp_dump p = ?h @ crlf @ p_body p" by (rule rsp_dump_lines)
  have "find_idx (crlf @ crlf) (rsp_dump p) = Some (length ?h - 2)"
    unfolding dump by (rule find_blank_line [OF rsp_lines_clean [OF assms]])
  moreover have "take (length ?h - 2 + 2) (rsp_dump p) = ?h"
    by (simp only: two [symmetric] dump append_eq_conv_conj) simp
  moreover have "length ?h - 2 + 4 = length (?h @ crlf)"
    using two by (simp add: crlf_def del: list.map concat.simps)
  then have "drop (length ?h - 2 + 4) (rsp_dump p) = p_body p"
    by (simp only: dump append_assoc [symmetric] append_eq_conv_conj) simp
  moreover have "p_body p \<noteq> [] \<longrightarrow> last (rsp_lines p) = ''content-length: '' @ show_nat (length (p_body p))"
    by (simp add: rsp_lines_def)
  ultimately show ?thesis by blast
qed

definition sample_response :: http_response where
  "sample_response = rsp_setHeader ''Content-Type'' ''application/json'' ((new_response 17 False)\<lparr>p_body := ''{}''\<rparr>)"

theorem rsp_dump_framed_witness:
  "\<exists>n. find_idx (crlf @ crlf) (rsp_dump sample_response) = Some n \<and>
    drop (n + 4) (rsp_dump sample_response) = ''{}''"
proof -
  have "clean_response sample_response" "p_body sample_response = ''{}''" by code_simp+
  then show ?thesis using rsp_dump_framed [of sample_response] by auto
qed

end
