(* ===== verification/Servlet.thy ===== *)
theory Servlet
  imports Http
begin

text \<open>
  The servlet dispatcher (\<^verbatim>\<open>sylar/http/servlet.cc\<close>): the exact table \<^verbatim>\<open>m_datas\<close>, the ordered
  list \<^verbatim>\<open>m_globs\<close> of patterns, the default servlet, and the table the blog server registers
  (\<^verbatim>\<open>blog/src/core/server.cc\<close>). The C library's \<^verbatim>\<open>fnmatch\<close> is the parameter \<open>fnm\<close>; a servlet's
  behaviour is of the type variable \<open>'h\<close> until the server runs it (theory \<open>Session\<close>).
  The interface \<open>uri_table\<close> states what the two tables have in common.
\<close>

section \<open>Servlets and creators\<close>

record 'h servlet =
  sv_name :: string
  sv_handle :: 'h

text \<open>A servlet pointer; \<open>None\<close> is the null pointer.\<close>

type_synonym 'h servlet_ptr = "'h servlet option"

text \<open>\<open>HoldServletCreator\<close> hands out the servlet it holds, \<open>ServletCreator<T>\<close> a fresh \<open>T\<close>.\<close>

datatype 'h servlet_creator =
    HoldServletCreator "'h servlet_ptr"
  | ServletCreator "'h servlet" string

fun creator_get :: "'h servlet_creator \<Rightarrow> 'h servlet_ptr" where
  "creator_get (HoldServletCreator slt) = slt"
| "creator_get (ServletCreator slt _) = Some slt"

fun creator_getName :: "'h servlet_creator \<Rightarrow> string res" where
  "creator_getName (HoldServletCreator slt) =
     (case slt of None \<Rightarrow> Inl UndefinedBehaviour | Some s \<Rightarrow> Inr (sv_name s))"
| "creator_getName (ServletCreator _ ty) = Inr ty"

definition FunctionServlet :: "'h \<Rightarrow> 'h servlet" where
  "FunctionServlet cb = \<lparr>sv_name = ''FunctionServlet'', sv_handle = cb\<rparr>"

section \<open>The dispatcher\<close>

record 'h dispatch =
  m_datas :: "string \<Rightarrow> 'h servlet_creator option"
  m_globs :: "(string \<times> 'h servlet_creator) list"
  m_default :: "'h servlet_ptr"

text \<open>\<open>notFound\<close> is what \<^verbatim>\<open>new NotFoundServlet("sylar/1.0")\<close> builds.\<close>

definition new_dispatch :: "'h servlet \<Rightarrow> 'h dispatch" where
  "new_dispatch notFound = \<lparr>m_datas = Map.empty, m_globs = [], m_default = Some notFound\<rparr>"

fun erase_uri :: "string \<Rightarrow> (string \<times> 'c) list \<Rightarrow> (string \<times> 'c) list" where
  "erase_uri uri [] = []"
| "erase_uri uri ((u, c) # globs) = (if u = uri then globs else (u, c) # erase_uri uri globs)"

definition addServletCreator :: "string \<Rightarrow> 'h servlet_creator \<Rightarrow> 'h dispatch \<Rightarrow> 'h dispatch" where
  "addServletCreator uri creator d = d\<lparr>m_datas := (m_datas d)(uri \<mapsto> creator)\<rparr>"

definition addServlet :: "string \<Rightarrow> 'h servlet_ptr \<Rightarrow> 'h dispatch \<Rightarrow> 'h dispatch" where
  "addServlet uri slt d = d\<lparr>m_datas := (m_datas d)(uri \<mapsto> HoldServletCreator slt)\<rparr>"

definition addServlet_cb :: "string \<Rightarrow> 'h \<Rightarrow> 'h dispatch \<Rightarrow> 'h dispatch" where
  "addServlet_cb uri cb d =
     d\<lparr>m_datas := (m_datas d)(uri \<mapsto> HoldServletCreator (Some (FunctionServlet cb)))\<rparr>"

definition addGlobServletCreator :: "string \<Rightarrow> 'h servlet_creator \<Rightarrow> 'h dispatch \<Rightarrow> 'h dispatch" where
  "addGlobServletCreator uri creator d = d\<lparr>m_globs := erase_uri uri (m_globs d) @ [(uri, creator)]\<rparr>"

definition addGlobServlet :: "string \<Rightarrow> 'h servlet_ptr \<Rightarrow> 'h dispatch \<Rightarrow> 'h dispatch" where
  "addGlobServlet uri slt d =
     d\<lparr>m_globs := erase_uri uri (m_globs d) @ [(uri, HoldServletCreator slt)]\<rparr>"

definition addGlobServlet_cb :: "string \<Rightarrow> 'h \<Rightarrow> 'h dispatch \<Rightarrow> 'h dispatch" where
  "addGlobServlet_cb uri cb d = addGlobServlet uri (Some (FunctionServlet cb)) d"

definition delServlet :: "string \<Rightarrow> 'h dispatch \<Rightarrow> 'h dispatch" where
  "delServlet uri d = d\<lparr>m_datas := (m_datas d)(uri := None)\<rparr>"

definition delGlobServlet :: "string \<Rightarrow> 'h dispatch \<Rightarrow> 'h dispatch" where
  "delGlobServlet uri d = d\<lparr>m_globs := erase_uri uri (m_globs d)\<rparr>"

definition setDefault :: "'h servlet_ptr \<Rightarrow> 'h dispatch \<Rightarrow> 'h dispatch" where
  "setDefault v d = d\<lparr>m_default := v\<rparr>"

definition getServlet :: "'h dispatch \<Rightarrow> string \<Rightarrow> 'h servlet_ptr" where
  "getServlet d uri = (case m_datas d uri of None \<Rightarrow> None | Some c \<Rightarrow> creator_get c)"

fun find_glob :: "(string \<Rightarrow> bool) \<Rightarrow> (string \<times> 'c) list \<Rightarrow> 'c option" where
  "find_glob P [] = None"
| "find_glob P ((u, c) # globs) = (if P u then Some c else find_glob P globs)"

definition getGlobServlet :: "'h dispatch \<Rightarrow> string \<Rightarrow> 'h servlet_ptr" where
  "getGlobServlet d uri =
     (case find_glob (\<lambda>u. u = uri) (m_globs d) of None \<Rightarrow> None | Some c \<Rightarrow> creator_get c)"

definition getMatchedServlet ::
    "(string \<Rightarrow> string \<Rightarrow> bool) \<Rightarrow> 'h dispatch \<Rightarrow> string \<Rightarrow> 'h servlet_ptr" where
  "getMatchedServlet fnm d uri =
     (case m_datas d uri of
        Some c \<Rightarrow> creator_get c
      | None \<Rightarrow>
          (case find_glob (\<lambda>u. fnm (c_str u) (c_str uri)) (m_globs d) of
             Some c \<Rightarrow> creator_get c
           | None \<Rightarrow> m_default d))"

text \<open>The listings overwrite the entries of the caller's map.\<close>

definition listAllServletCreator ::
    "'h dispatch \<Rightarrow> (string \<Rightarrow> 'h servlet_creator option) \<Rightarrow> (string \<Rightarrow> 'h servlet_creator option)" where
  "listAllServletCreator d infos = infos ++ m_datas d"

definition listAllGlobServletCreator ::
    "'h dispatch \<Rightarrow> (string \<Rightarrow> 'h servlet_creator option) \<Rightarrow> (string \<Rightarrow> 'h servlet_creator option)" where
  "listAllGlobServletCreator d infos = foldl (\<lambda>m i. m(fst i \<mapsto> snd i)) infos (m_globs d)"

section \<open>The routes of the blog server\<close>

text \<open>
  \<open>registerServlets\<close>: \<open>api\<close> gives, for the name of a servlet class of \<^verbatim>\<open>blog/src/http/servlet\<close>,
  the behaviour of its \<open>handle\<close>; \<open>notFound\<close> is \<^verbatim>\<open>NotFoundServlet("blog_server")\<close>.
\<close>

definition blog_routes :: "(string \<times> string) list" where
  "blog_routes =
     [(''/api/blogs'', ''BlogListServlet''),
      (''/api/blogs/user'', ''BlogListWithUserIdServlet''),
      (''/api/blogs/create'', ''BlogCreateServlet''),
      (''/api/blogs/update'', ''BlogUpdateServlet''),
      (''/api/blogs/delete'', ''BlogDeleteServlet''),
      (''/api/blogs/detail'', ''BlogDetailServlet''),
      (''/api/users/register'', ''UserRegisterServlet''),
      (''/api/users/login'', ''UserLoginServlet''),
      (''/api/users/info'', ''UserInfoServlet''),
      (''/api/users/profile'', ''UserProfileServlet'')]"

text \<open>The name each class gives its base class.\<close>

definition servlet_name :: "string \<Rightarrow> string" where
  "servlet_name c = (if c = ''BlogListWithUserIdServlet'' then ''BlogListWithUserNameServlet'' else c)"

definition registerServlets :: "(string \<Rightarrow> 'h) \<Rightarrow> 'h servlet \<Rightarrow> 'h dispatch \<Rightarrow> 'h dispatch" where
  "registerServlets api notFound d =
     setDefault (Some notFound)
       (foldl (\<lambda>d r. addServlet (fst r) (Some \<lparr>sv_name = servlet_name (snd r), sv_handle = api (snd r)\<rparr>) d) d blog_routes)"

section \<open>Tables keyed by a URI\<close>

datatype 'c table_op = Add string 'c | Del string

fun op_uri :: "'c table_op \<Rightarrow> string" where
  "op_uri (Add u _) = u"
| "op_uri (Del u) = u"

text \<open>What the last operation on a URI left there.\<close>

fun last_op :: "string \<Rightarrow> 'c option \<Rightarrow> 'c table_op list \<Rightarrow> 'c option" where
  "last_op uri v [] = v"
| "last_op uri v (Add u c # ops) = last_op uri (if u = uri then Some c else v) ops"
| "last_op uri v (Del u # ops) = last_op uri (if u = uri then None else v) ops"

fun table_step :: "(string \<Rightarrow> 'c \<Rightarrow> 't \<Rightarrow> 't) \<Rightarrow> (string \<Rightarrow> 't \<Rightarrow> 't) \<Rightarrow> 't \<Rightarrow> 'c table_op \<Rightarrow> 't" where
  "table_step add del t (Add u c) = add u c t"
| "table_step add del t (Del u) = del u t"

locale uri_table =
  fixes ok :: "'t \<Rightarrow> bool"
    and add :: "string \<Rightarrow> 'c \<Rightarrow> 't \<Rightarrow> 't"
    and del :: "string \<Rightarrow> 't \<Rightarrow> 't"
    and get :: "'t \<Rightarrow> string \<Rightarrow> 'c option"
  assumes ok_add: "ok t \<Longrightarrow> ok (add u c t)"
    and ok_del: "ok t \<Longrightarrow> ok (del u t)"
    and get_add: "ok t \<Longrightarrow> get (add u c t) v = (if u = v then Some c else get t v)"
    and get_del: "ok t \<Longrightarrow> get (del u t) v = (if u = v then None else get t v)"
begin

lemma table_run:
  "ok t \<Longrightarrow> ok (foldl (table_step add del) t ops) \<and>
     get (foldl (table_step add del) t ops) uri = last_op uri (get t uri) ops"
proof (induction ops arbitrary: t)
  case (Cons x ops)
  then show ?case
    by (cases x) (simp_all add: ok_add ok_del get_add get_del)
qed simp

end

definition uris_distinct :: "(string \<times> 'c) list \<Rightarrow> bool" where
  "uris_distinct globs \<longleftrightarrow> distinct (map fst globs)"

lemma erase_uri_filter:
  "uris_distinct globs \<Longrightarrow> erase_uri uri globs = filter (\<lambda>x. fst x \<noteq> uri) globs"
proof (induction globs)
  case (Cons x globs)
  obtain u c where x: "x = (u, c)" by fastforce
  have "filter (\<lambda>x. fst x \<noteq> u) globs = globs"
    using Cons.prems x by (intro filter_True) (auto simp: uris_distinct_def rev_image_eqI)
  then show ?case using Cons x by (auto simp: uris_distinct_def)
qed simp

lemma uris_distinct_filter: "uris_distinct globs \<Longrightarrow> uris_distinct (filter P globs)"
  by (simp add: uris_distinct_def distinct_map_filter)

lemma find_glob_filter:
  "find_glob (\<lambda>u. u = v) (filter (\<lambda>x. fst x \<noteq> uri) globs) =
     (if v = uri then None else find_glob (\<lambda>u. u = v) globs)"
  by (induction globs) auto

lemma find_glob_append:
  "find_glob P (xs @ ys) = (case find_glob P xs of None \<Rightarrow> find_glob P ys | Some c \<Rightarrow> Some c)"
  by (induction xs) auto


interpretation exact: uri_table "\<lambda>_. True" addServletCreator delServlet m_datas
  by unfold_locales (auto simp: addServletCreator_def delServlet_def)

interpretation glob: uri_table "\<lambda>d. uris_distinct (m_globs d)" addGlobServletCreator delGlobServlet
  "\<lambda>d uri. find_glob (\<lambda>u. u = uri) (m_globs d)"
proof unfold_locales
  fix t :: "'a dispatch" and u v :: string and c
  assume ok: "uris_distinct (m_globs t)"
  note f = erase_uri_filter [OF ok, of u]
  show "uris_distinct (m_globs (addGlobServletCreator u c t))"
    "uris_distinct (m_globs (delGlobServlet u t))"
    using uris_distinct_filter [OF ok, of "\<lambda>x. fst x \<noteq> u"]
    by (auto simp: addGlobServletCreator_def delGlobServlet_def f uris_distinct_def)
  show "find_glob (\<lambda>u. u = v) (m_globs (addGlobServletCreator u c t)) =
      (if u = v then Some c else find_glob (\<lambda>u. u = v) (m_globs t))"
    by (auto simp: addGlobServletCreator_def f find_glob_append find_glob_filter split: option.split)
  show "find_glob (\<lambda>w. w = v) (m_globs (delGlobServlet u t)) =
      (if u = v then None else find_glob (\<lambda>u. u = v) (m_globs t))"
    by (auto simp: delGlobServlet_def f find_glob_filter)
qed

text \<open>
  The order of the patterns: a pattern stands where its last operation put it.
\<close>

fun live :: "'c table_op list \<Rightarrow> (string \<times> 'c) list" where
  "live [] = []"
| "live (Add u c # ops) = (if u \<in> op_uri ` set ops then live ops else (u, c) # live ops)"
| "live (Del u # ops) = live ops"

lemma live_snoc_Add: "live (ops @ [Add u c]) = filter (\<lambda>x. fst x \<noteq> u) (live ops) @ [(u, c)]"
  by (induction ops rule: live.induct) auto

lemma live_snoc_Del: "live (ops @ [Del u]) = filter (\<lambda>x. fst x \<noteq> u) (live ops)"
  by (induction ops rule: live.induct) auto

lemma glob_live:
  "m_globs d = [] \<Longrightarrow>
   m_globs (foldl (table_step addGlobServletCreator delGlobServlet) d ops) = live ops"
proof (induction ops rule: rev_induct)
  case (snoc x ops)
  have "uris_distinct (m_globs (foldl (table_step addGlobServletCreator delGlobServlet) d ops))"
    using glob.table_run [of d ops] snoc.prems by (simp add: uris_distinct_def)
  with snoc have "uris_distinct (live ops)" by simp
  with snoc show ?case
    by (cases x)
       (simp_all add: addGlobServletCreator_def delGlobServlet_def erase_uri_filter live_snoc_Add live_snoc_Del)
qed simp

lemma find_glob_member: "find_glob P globs = Some c \<Longrightarrow> \<exists>u. (u, c) \<in> set globs \<and> P u"
  by (induction globs) (auto split: if_splits)

lemma find_glob_None: "find_glob P globs = None \<longleftrightarrow> (\<forall>x\<in>set globs. \<not> P (fst x))"
  by (induction globs) (auto split: if_splits)

section \<open>Histories of a dispatcher\<close>

datatype 'h dispatch_op =
    Exact "'h servlet_creator table_op"
  | Glob "'h servlet_creator table_op"
  | Default "'h servlet_ptr"

fun dispatch_step :: "'h dispatch \<Rightarrow> 'h dispatch_op \<Rightarrow> 'h dispatch" where
  "dispatch_step d (Exact x) = table_step addServletCreator delServlet d x"
| "dispatch_step d (Glob x) = table_step addGlobServletCreator delGlobServlet d x"
| "dispatch_step d (Default v) = setDefault v d"

fun exact_ops :: "'h dispatch_op list \<Rightarrow> 'h servlet_creator table_op list" where
  "exact_ops [] = []"
| "exact_ops (Exact x # ops) = x # exact_ops ops"
| "exact_ops (_ # ops) = exact_ops ops"

fun glob_ops :: "'h dispatch_op list \<Rightarrow> 'h servlet_creator table_op list" where
  "glob_ops [] = []"
| "glob_ops (Glob x # ops) = x # glob_ops ops"
| "glob_ops (_ # ops) = glob_ops ops"

fun last_default :: "'h servlet_ptr \<Rightarrow> 'h dispatch_op list \<Rightarrow> 'h servlet_ptr" where
  "last_default v [] = v"
| "last_default v (Default w # ops) = last_default w ops"
| "last_default v (_ # ops) = last_default v ops"

text \<open>An operation touches one of the three fields and reads no other.\<close>

lemma table_step_fields:
  "m_globs (table_step addServletCreator delServlet d x) = m_globs d"
  "m_default (table_step addServletCreator delServlet d x) = m_default d"
  "m_datas (table_step addGlobServletCreator delGlobServlet d y) = m_datas d"
  "m_default (table_step addGlobServletCreator delGlobServlet d y) = m_default d"
  by (cases x; simp add: addServletCreator_def delServlet_def)+
     (cases y; simp add: addGlobServletCreator_def delGlobServlet_def)+

lemma table_step_cong:
  "m_datas d = m_datas d' \<Longrightarrow> m_datas (table_step addServletCreator delServlet d x) =
     m_datas (table_step addServletCreator delServlet d' x)"
  "m_globs d = m_globs d' \<Longrightarrow> m_globs (table_step addGlobServletCreator delGlobServlet d x) =
     m_globs (table_step addGlobServletCreator delGlobServlet d' x)"
  by (cases x; simp add: addServletCreator_def delServlet_def addGlobServletCreator_def delGlobServlet_def)+

lemma foldl_exact_cong:
  "m_datas d = m_datas d' \<Longrightarrow> m_datas (foldl (table_step addServletCreator delServlet) d xs) =
     m_datas (foldl (table_step addServletCreator delServlet) d' xs)"
proof (induction xs arbitrary: d d')
  case (Cons x xs)
  show ?case using Cons.IH [OF table_step_cong(1) [OF Cons.prems, of x]] by simp
qed simp

lemma foldl_glob_cong:
  "m_globs d = m_globs d' \<Longrightarrow> m_globs (foldl (table_step addGlobServletCreator delGlobServlet) d xs) =
     m_globs (foldl (table_step addGlobServletCreator delGlobServlet) d' xs)"
proof (induction xs arbitrary: d d')
  case (Cons x xs)
  show ?case using Cons.IH [OF table_step_cong(2) [OF Cons.prems, of x]] by simp
qed simp

lemma dispatch_run:
  "m_datas (foldl dispatch_step d ops) = m_datas (foldl (table_step addServletCreator delServlet) d (exact_ops ops)) \<and>
   m_globs (foldl dispatch_step d ops) =
     m_globs (foldl (table_step addGlobServletCreator delGlobServlet) d (glob_ops ops)) \<and>
   m_default (foldl dispatch_step d ops) = last_default (m_default d) ops"
proof (induction ops arbitrary: d)
  case (Cons x ops)
  show ?case
  proof (cases x)
    case (Exact y)
    then show ?thesis
      using Cons.IH [of "dispatch_step d x"]
        foldl_glob_cong [of "dispatch_step d x" d "glob_ops ops"]
      by (simp add: table_step_fields)
  next
    case (Glob y)
    then show ?thesis
      using Cons.IH [of "dispatch_step d x"]
        foldl_exact_cong [of "dispatch_step d x" d "exact_ops ops"]
      by (simp add: table_step_fields)
  next
    case (Default v)
    then show ?thesis
      using Cons.IH [of "dispatch_step d x"]
        foldl_exact_cong [of "dispatch_step d x" d "exact_ops ops"]
        foldl_glob_cong [of "dispatch_step d x" d "glob_ops ops"]
      by (simp add: setDefault_def)
  qed
qed simp

section \<open>Properties\<close>

text \<open>C15: after any history of a new dispatcher, a path is served by what the last exact operation
  on it left; without one by the first pattern that matches, in the order of the patterns' last
  registrations; else by the last default set. The patterns are distinct, and the code's
  erase-and-append table is the reference list \<open>live\<close> of the history.\<close>

theorem dispatch_history:
  "getMatchedServlet fnm (foldl dispatch_step (new_dispatch notFound) ops) path =
     (case last_op path None (exact_ops ops) of
        Some c \<Rightarrow> creator_get c
      | None \<Rightarrow>
          (case find_glob (\<lambda>u. fnm (c_str u) (c_str path)) (live (glob_ops ops)) of
             Some c \<Rightarrow> creator_get c
           | None \<Rightarrow> last_default (Some notFound) ops)) \<and>
   m_globs (foldl dispatch_step (new_dispatch notFound) ops) = live (glob_ops ops) \<and>
   uris_distinct (live (glob_ops ops))"
proof -
  let ?d = "new_dispatch notFound"
  have "m_globs ?d = []" "m_datas ?d = Map.empty" "m_default ?d = Some notFound"
    by (simp_all add: new_dispatch_def)
  moreover have "uris_distinct (live (glob_ops ops))"
    using glob.table_run [of ?d "glob_ops ops"] glob_live [of ?d "glob_ops ops"]
    by (simp add: uris_distinct_def new_dispatch_def)
  ultimately show ?thesis
    using dispatch_run [of ?d ops] exact.table_run [of ?d "exact_ops ops" path]
      glob_live [of ?d "glob_ops ops"]
    by (simp add: getMatchedServlet_def cong: option.case_cong)
qed

lemma registered_data:
  "m_datas (foldl (\<lambda>d r. addServlet (fst r) (f r) d) d rs) =
     m_datas d ++ map_of (rev (map (\<lambda>r. (fst r, HoldServletCreator (f r))) rs)) \<and>
   m_globs (foldl (\<lambda>d r. addServlet (fst r) (f r) d) d rs) = m_globs d"
  by (induction rs arbitrary: d) (simp_all add: addServlet_def map_add_def fun_eq_iff split: option.split)

lemma blog_routes_distinct: "distinct (map fst blog_routes)"
  by code_simp

lemma registerServlets_data:
  "m_datas (registerServlets api nf (new_dispatch nf0)) path =
     map_option (\<lambda>c. HoldServletCreator (Some \<lparr>sv_name = servlet_name c, sv_handle = api c\<rparr>)) (map_of blog_routes path)"
proof -
  let ?f = "\<lambda>r :: string \<times> string. HoldServletCreator (Some \<lparr>sv_name = servlet_name (snd r), sv_handle = api (snd r)\<rparr>)"
  let ?rs = "map (\<lambda>r. (fst r, ?f r)) blog_routes"
  have m: "map_of (rev ?rs) = map_of ?rs"
    using blog_routes_distinct
    by (intro map_of_inject_set [THEN iffD2]) (simp_all add: rev_map [symmetric] comp_def)
  have rs: "?rs = map (\<lambda>(k, c). (k, HoldServletCreator (Some \<lparr>sv_name = servlet_name c, sv_handle = api c\<rparr>))) blog_routes"
    by (rule map_cong) auto
  have "map_of ?rs path =
      map_option (\<lambda>c. HoldServletCreator (Some \<lparr>sv_name = servlet_name c, sv_handle = api c\<rparr>)) (map_of blog_routes path)"
    unfolding rs by (simp add: map_of_map)
  with m show ?thesis
    by (simp add: registerServlets_def setDefault_def new_dispatch_def registered_data)
qed

lemma getMatched_blog_routes:
  "getMatchedServlet fnm (registerServlets api notFound (new_dispatch nf)) path =
     (case map_of blog_routes path of
        Some c \<Rightarrow> Some \<lparr>sv_name = servlet_name c, sv_handle = api c\<rparr>
      | None \<Rightarrow> Some notFound) \<and>
   length blog_routes = 10 \<and> distinct (map fst blog_routes) \<and> distinct (map snd blog_routes)"
proof -
  have "length blog_routes = 10 \<and> distinct (map snd blog_routes)" by code_simp
  moreover have "m_globs (registerServlets api notFound (new_dispatch nf)) = []"
    "m_default (registerServlets api notFound (new_dispatch nf)) = Some notFound"
    by (simp_all add: registerServlets_def setDefault_def registered_data new_dispatch_def)
  ultimately show ?thesis
    using blog_routes_distinct
    by (simp add: getMatchedServlet_def registerServlets_data split: option.split)
qed

text \<open>The blog server serves exactly the ten registered paths, each by its own class, whatever
  \<^verbatim>\<open>fnmatch\<close> says; every other path gets the 404 servlet.\<close>

theorem blog_dispatch:
  "getMatchedServlet fnm (registerServlets api notFound (new_dispatch nf)) path =
     (case map_of blog_routes path of
        Some c \<Rightarrow> Some \<lparr>sv_name = servlet_name c, sv_handle = api c\<rparr>
      | None \<Rightarrow> Some notFound) \<and>
   length blog_routes = 10 \<and> distinct (map fst blog_routes) \<and> distinct (map snd blog_routes)"
  by (rule getMatched_blog_routes)

end
