(* ===== verification/Session.thy ===== *)
theory Session
  imports Servlet
begin

text \<open>
  One HTTP connection of the server: the exact-length loops of \<^verbatim>\<open>Stream\<close>, the request and
  response parsers (the callbacks of \<^verbatim>\<open>sylar/http/http_parser.cc\<close> around the vendored
  \<^verbatim>\<open>http_parser\<close> library, a parameter), \<open>HttpSession::recvRequest\<close>, \<open>HttpConnection::recvResponse\<close>
  and \<open>HttpServer::handleClient\<close>, which runs the servlets of the theory \<open>Servlet\<close>. A servlet
  works on a world \<open>'w\<close>; the session argument, which no servlet of the repository uses, is left
  out.
\<close>

section \<open>Reading and writing a fixed number of bytes\<close>

text \<open>
  \<open>wr data s\<close> is \<^verbatim>\<open>write(data, length)\<close>: the result and the new state of the stream.
  \<open>rd n s\<close> is \<^verbatim>\<open>read(buffer, n)\<close>: the result, the bytes put into the buffer, the new state.
\<close>

function write_loop :: "(string \<Rightarrow> 's \<Rightarrow> int \<times> 's) \<Rightarrow> int \<Rightarrow> string \<Rightarrow> 's \<Rightarrow> int \<times> 's" where
  "write_loop wr n0 data s =
     (if data = [] then (n0, s)
      else let (n, s') = wr data s
           in if n \<le> 0 then (n, s') else write_loop wr n0 (drop (nat n) data) s')"
  by auto
termination
  by (relation "measure (\<lambda>(wr, n0, data, s). length data)") auto

definition writeFixSize :: "(string \<Rightarrow> 's \<Rightarrow> int \<times> 's) \<Rightarrow> string \<Rightarrow> 's \<Rightarrow> int \<times> 's" where
  "writeFixSize wr data s = write_loop wr (int (length data)) data s"

function read_loop ::
    "(nat \<Rightarrow> 's \<Rightarrow> int \<times> string \<times> 's) \<Rightarrow> int \<Rightarrow> nat \<Rightarrow> string \<Rightarrow> 's \<Rightarrow> int \<times> string \<times> 's" where
  "read_loop rd n0 left buf s =
     (if left = 0 then (n0, buf, s)
      else let (n, bytes, s') = rd left s
           in if n \<le> 0 then (n, buf, s')
              else read_loop rd n0 (left - nat n) (buf @ bytes) s')"
  by auto
termination
  by (relation "measure (\<lambda>(rd, n0, left, buf, s). left)") auto

definition readFixSize ::
    "(nat \<Rightarrow> 's \<Rightarrow> int \<times> string \<times> 's) \<Rightarrow> nat \<Rightarrow> 's \<Rightarrow> int \<times> string \<times> 's" where
  "readFixSize rd n s = read_loop rd (int n) n [] s"

declare write_loop.simps [simp del] read_loop.simps [simp del]

section \<open>The parser library\<close>

text \<open>What the library reports to its callbacks, with the fields of \<^verbatim>\<open>http_parser\<close> they read.\<close>

datatype parse_event =
    MessageBegin
  | Url string
  | Status nat string
  | HeaderField string
  | HeaderValue string
  | HeadersComplete nat nat nat
  | Body string
  | MessageComplete
  | ChunkHeader
  | ChunkComplete

record url_fields =
  uf_path :: "string option"
  uf_query :: "string option"
  uf_fragment :: "string option"

text \<open>
  The library as a parameter. \<open>lib_events q data\<close> are the callbacks \<^verbatim>\<open>http_parser_execute\<close> makes
  on \<open>data\<close> as long as they return 0; \<open>lib_result q data k\<close> is what it leaves when it made \<open>k\<close>
  of them with that result: the parser, the number of bytes parsed, \<^verbatim>\<open>http_errno\<close> and
  \<^verbatim>\<open>upgrade\<close>. \<open>lib_parse_url\<close> is \<^verbatim>\<open>http_parser_parse_url\<close>.
\<close>

record 'p parser_lib =
  lib_init :: 'p
  lib_events :: "'p \<Rightarrow> string \<Rightarrow> parse_event list"
  lib_result :: "'p \<Rightarrow> string \<Rightarrow> nat \<Rightarrow> 'p \<times> nat \<times> nat \<times> bool"
  lib_parse_url :: "string \<Rightarrow> url_fields option"

definition HPE_UNKNOWN :: int where
  "HPE_UNKNOWN = 32"

section \<open>Request and response parsers\<close>

record ('p, 'd) http_message_parser =
  ps_parser :: 'p
  ps_data :: 'd
  ps_error :: int
  ps_finished :: bool
  ps_field :: string

definition new_request_parser :: "'p parser_lib \<Rightarrow> ('p, http_request) http_message_parser" where
  "new_request_parser lib =
     \<lparr>ps_parser = lib_init lib, ps_data = new_request 17 True, ps_error = 0, ps_finished = False,
      ps_field = []\<rparr>"

definition new_response_parser :: "'p parser_lib \<Rightarrow> ('p, http_response) http_message_parser" where
  "new_response_parser lib =
     \<lparr>ps_parser = lib_init lib, ps_data = new_response 17 True, ps_error = 0, ps_finished = False,
      ps_field = []\<rparr>"

text \<open>\<^verbatim>\<open>setVersion((major << 4) | minor)\<close>, whose parameter is a byte; both are single digits.\<close>

definition version_byte :: "nat \<Rightarrow> nat \<Rightarrow> nat" where
  "version_byte major minor = (16 * major + minor) mod 256"

definition set_fields :: "url_fields \<Rightarrow> http_request \<Rightarrow> http_request" where
  "set_fields u r =
     r\<lparr>r_path := (case uf_path u of Some s \<Rightarrow> s | None \<Rightarrow> r_path r),
       r_query := (case uf_query u of Some s \<Rightarrow> s | None \<Rightarrow> r_query r),
       r_fragment := (case uf_fragment u of Some s \<Rightarrow> s | None \<Rightarrow> r_fragment r)\<rparr>"

text \<open>The callbacks: the value returned to the library and the parser after it.\<close>

fun on_request_cb ::
    "(string \<Rightarrow> url_fields option) \<Rightarrow> parse_event \<Rightarrow> ('p, http_request) http_message_parser \<Rightarrow>
     nat \<times> ('p, http_request) http_message_parser" where
  "on_request_cb parse_url (Url s) p =
     (case parse_url s of
        None \<Rightarrow> (1, p)
      | Some u \<Rightarrow> (0, p\<lparr>ps_data := set_fields u (ps_data p)\<rparr>))"
| "on_request_cb parse_url (HeaderField s) p = (0, p\<lparr>ps_field := s\<rparr>)"
| "on_request_cb parse_url (HeaderValue s) p =
     (0, p\<lparr>ps_data := req_setHeader (ps_field p) s (ps_data p)\<rparr>)"
| "on_request_cb parse_url (HeadersComplete major minor m) p =
     (0, p\<lparr>ps_data := (ps_data p)\<lparr>r_version := version_byte major minor, r_method := m\<rparr>\<rparr>)"
| "on_request_cb parse_url (Body s) p =
     (0, p\<lparr>ps_data := (ps_data p)\<lparr>r_body := r_body (ps_data p) @ s\<rparr>\<rparr>)"
| "on_request_cb parse_url MessageComplete p = (0, p\<lparr>ps_finished := True\<rparr>)"
| "on_request_cb parse_url _ p = (0, p)"

fun on_response_cb ::
    "parse_event \<Rightarrow> ('p, http_response) http_message_parser \<Rightarrow>
     nat \<times> ('p, http_response) http_message_parser" where
  "on_response_cb (Status code s) p = (0, p\<lparr>ps_data := (ps_data p)\<lparr>p_status := code\<rparr>\<rparr>)"
| "on_response_cb (HeaderField s) p = (0, p\<lparr>ps_field := s\<rparr>)"
| "on_response_cb (HeaderValue s) p =
     (0, p\<lparr>ps_data := rsp_setHeader (ps_field p) s (ps_data p)\<rparr>)"
| "on_response_cb (HeadersComplete major minor code) p =
     (0, p\<lparr>ps_data := (ps_data p)\<lparr>p_version := version_byte major minor, p_status := code\<rparr>\<rparr>)"
| "on_response_cb (Body s) p =
     (0, p\<lparr>ps_data := (ps_data p)\<lparr>p_body := p_body (ps_data p) @ s\<rparr>\<rparr>)"
| "on_response_cb MessageComplete p = (0, p\<lparr>ps_finished := True\<rparr>)"
| "on_response_cb _ p = (0, p)"

text \<open>The library's loop over the callbacks, up to the first that does not return 0.\<close>

fun run_callbacks ::
    "(parse_event \<Rightarrow> 'q \<Rightarrow> nat \<times> 'q) \<Rightarrow> nat \<Rightarrow> parse_event list \<Rightarrow> 'q \<Rightarrow> nat \<times> 'q" where
  "run_callbacks cb k [] p = (k, p)"
| "run_callbacks cb k (e # es) p =
     (let (r, p') = cb e p in if r \<noteq> 0 then (k, p') else run_callbacks cb (k + 1) es p')"

text \<open>
  \<open>execute\<close>: the result, what stands at the start of the buffer afterwards, the parser.
\<close>

definition request_execute ::
    "'p parser_lib \<Rightarrow> string \<Rightarrow> ('p, http_request) http_message_parser \<Rightarrow>
     nat \<times> string \<times> ('p, http_request) http_message_parser" where
  "request_execute lib data p =
     (let (k, p1) = run_callbacks (on_request_cb (lib_parse_url lib)) 0 (lib_events lib (ps_parser p) data) p;
          (q, nparsed, errno, upgrade) = lib_result lib (ps_parser p) data k;
          p2 = p1\<lparr>ps_parser := q\<rparr>
      in if upgrade then (nparsed, data, p2\<lparr>ps_error := HPE_UNKNOWN\<rparr>)
         else if errno \<noteq> 0 then (nparsed, data, p2\<lparr>ps_error := int errno\<rparr>)
         else (nparsed, drop nparsed data, p2))"

definition response_execute ::
    "'p parser_lib \<Rightarrow> string \<Rightarrow> ('p, http_response) http_message_parser \<Rightarrow>
     nat \<times> string \<times> ('p, http_response) http_message_parser" where
  "response_execute lib data p =
     (let (k, p1) = run_callbacks on_response_cb 0 (lib_events lib (ps_parser p) data) p;
          (q, nparsed, errno, upgrade) = lib_result lib (ps_parser p) data k;
          p2 = p1\<lparr>ps_parser := q\<rparr>
      in if errno \<noteq> 0 then (nparsed, data, p2\<lparr>ps_error := int errno\<rparr>)
         else (nparsed, drop nparsed data, p2))"

section \<open>Receiving a message\<close>

text \<open>
  The loop of \<open>recvRequest\<close> and \<open>recvResponse\<close>. \<open>reads\<close> are the results of the calls of \<^verbatim>\<open>read\<close>
  to come: the bytes received, or nothing for a result that is not positive (the end of the list
  is the end of the connection). The result is the parser of a complete message, if any, and the
  reads left.
\<close>

fun recv_loop ::
    "(string \<Rightarrow> ('p, 'd) http_message_parser \<Rightarrow> nat \<times> string \<times> ('p, 'd) http_message_parser) \<Rightarrow> nat \<Rightarrow>
     string \<Rightarrow> ('p, 'd) http_message_parser \<Rightarrow> string list \<Rightarrow>
     ('p, 'd) http_message_parser option \<times> string list" where
  "recv_loop exec buff_size pending p [] = (None, [])"
| "recv_loop exec buff_size pending p (chunk # reads) =
     (if chunk = [] then (None, reads)
      else
        let data = pending @ chunk;
            (nparse, rest, p') = exec data p;
            offset = length data - nparse
        in if ps_error p' \<noteq> 0 then (None, reads)
           else if offset = buff_size then (None, reads)
           else if ps_finished p' then (Some p', reads)
           else recv_loop exec buff_size (take offset rest) p' reads)"

definition recvRequest ::
    "'p parser_lib \<Rightarrow> nat \<Rightarrow> string list \<Rightarrow> http_request option \<times> string list" where
  "recvRequest lib buff_size reads =
     (case recv_loop (request_execute lib) buff_size [] (new_request_parser lib) reads of
        (None, reads') \<Rightarrow> (None, reads')
      | (Some p, reads') \<Rightarrow> (Some (req_init (ps_data p)), reads'))"

definition recvResponse ::
    "'p parser_lib \<Rightarrow> nat \<Rightarrow> string list \<Rightarrow> http_response option \<times> string list" where
  "recvResponse lib buff_size reads =
     (case recv_loop (response_execute lib) buff_size [] (new_response_parser lib) reads of
        (None, reads') \<Rightarrow> (None, reads')
      | (Some p, reads') \<Rightarrow> (Some (ps_data p), reads'))"

lemma recv_loop_uses:
  "recv_loop exec buff_size pending p reads = (Some p', reads') \<Longrightarrow> length reads' < length reads"
proof (induction reads arbitrary: pending p)
  case (Cons chunk reads)
  obtain nparse rest q where e: "exec (pending @ chunk) p = (nparse, rest, q)"
    by (metis prod_cases3)
  show ?case
    using Cons.prems Cons.IH [of "take (length (pending @ chunk) - nparse) rest" q]
    by (auto simp: e Let_def split: if_splits)
qed simp

lemma recvRequest_uses:
  "recvRequest lib buff_size reads = (Some r, reads') \<Longrightarrow> length reads' < length reads"
  using recv_loop_uses by (fastforce simp: recvRequest_def split: prod.splits option.splits)

section \<open>Serving a connection\<close>

text \<open>
  What a servlet does: its result or the exception it lets out, and the request (whose parsed
  parameters it fills in), the response and the world it leaves.
\<close>

type_synonym 'w handler =
  "http_request \<Rightarrow> http_response \<Rightarrow> 'w \<Rightarrow> int res \<times> http_request \<times> http_response \<times> 'w"

definition not_found_page :: "string \<Rightarrow> string" where
  "not_found_page nm =
     ''<html><head><title>404 Not Found</title></head><body><center><h1>404 Not Found</h1></center>'' @
     ''<hr><center>'' @ nm @ ''</center></body></html>''"

definition NotFoundServlet :: "string \<Rightarrow> 'w handler servlet" where
  "NotFoundServlet nm =
     \<lparr>sv_name = ''NotFoundServlet'',
      sv_handle = (\<lambda>req rsp w.
        (Inr 0, req,
         (rsp_setHeader ''Content-Type'' ''text/html''
           (rsp_setHeader ''Server'' ''sylar/1.0.0'' (rsp\<lparr>p_status := 404\<rparr>)))\<lparr>p_body := not_found_page nm\<rparr>,
         w))\<rparr>"

definition dispatch_handle ::
    "(string \<Rightarrow> string \<Rightarrow> bool) \<Rightarrow> 'w handler dispatch \<Rightarrow> 'w handler" where
  "dispatch_handle fnm d req rsp w =
     (case getMatchedServlet fnm d (r_path req) of
        None \<Rightarrow> (Inr 0, req, rsp, w)
      | Some slt \<Rightarrow>
          (case sv_handle slt req rsp w of
             (Inl e, st) \<Rightarrow> (Inl e, st)
           | (Inr _, st) \<Rightarrow> (Inr 0, st)))"

record ('p, 'w) http_server =
  hs_lib :: "'p parser_lib"
  hs_buffer_size :: nat
  hs_fnmatch :: "string \<Rightarrow> string \<Rightarrow> bool"
  hs_keepalive :: bool
  hs_name :: string
  hs_dispatch :: "'w handler dispatch"

text \<open>\<open>HttpServer::HttpServer\<close> and \<open>setName\<close>; the name before is \<open>TcpServer\<close>'s.\<close>

definition new_http_server ::
    "'p parser_lib \<Rightarrow> nat \<Rightarrow> (string \<Rightarrow> string \<Rightarrow> bool) \<Rightarrow> bool \<Rightarrow> ('p, 'w) http_server" where
  "new_http_server lib buff_size fnm keepalive =
     \<lparr>hs_lib = lib, hs_buffer_size = buff_size, hs_fnmatch = fnm, hs_keepalive = keepalive,
      hs_name = ''sylar/1.0.0'', hs_dispatch = new_dispatch (NotFoundServlet ''sylar/1.0'')\<rparr>"

definition http_server_setName :: "string \<Rightarrow> ('p, 'w) http_server \<Rightarrow> ('p, 'w) http_server" where
  "http_server_setName v s =
     s\<lparr>hs_name := v, hs_dispatch := setDefault (Some (NotFoundServlet v)) (hs_dispatch s)\<rparr>"

text \<open>One turn of the loop of \<open>handleClient\<close> on a received request: the response sent, or the exception.\<close>

definition answer ::
    "('p, 'w) http_server \<Rightarrow> http_request \<Rightarrow> 'w \<Rightarrow> http_response res \<times> http_request \<times> 'w" where
  "answer s req w =
     (let rsp = rsp_setHeader ''Server'' (hs_name s)
            (new_response (r_version req) (r_close req \<or> \<not> hs_keepalive s))
      in case dispatch_handle (hs_fnmatch s) (hs_dispatch s) req rsp w of
           (Inl e, req', rsp', w') \<Rightarrow> (Inl e, req', w')
         | (Inr _, req', rsp', w') \<Rightarrow> (Inr rsp', req', w'))"

text \<open>
  \<open>handleClient\<close>: what is sent, in order, the exception that leaves it, and the world then. Nothing
  above catches an exception (\<open>Fiber::MainFunc\<close> calls its callback without a handler): the C++
  runtime then terminates the process.
\<close>

function handleClient ::
    "('p, 'w) http_server \<Rightarrow> string list \<Rightarrow> 'w \<Rightarrow> string list \<times> fault option \<times> 'w" where
  "handleClient s reads w =
     (case recvRequest (hs_lib s) (hs_buffer_size s) reads of
        (None, _) \<Rightarrow> ([], None, w)
      | (Some req, reads') \<Rightarrow>
          (case answer s req w of
             (Inl e, req', w') \<Rightarrow> ([], Some e, w')
           | (Inr rsp, req', w') \<Rightarrow>
               if \<not> hs_keepalive s \<or> r_close req' then ([rsp_dump rsp], None, w')
               else let (sent, e, w'') = handleClient s reads' w' in (rsp_dump rsp # sent, e, w'')))"
  by auto
termination
  by (relation "measure (\<lambda>(s, reads, w). length reads)") (auto dest!: sym [of "(Some _, _)"] recvRequest_uses)

declare handleClient.simps [simp del]

section \<open>Lemmas\<close>

lemma run_callbacks_append:
  "run_callbacks cb k (es @ es') p =
     (let (j, q) = run_callbacks cb k es p in if j = k + length es then run_callbacks cb j es' q else (j, q))"
proof (induction es arbitrary: k p)
  case (Cons e es)
  obtain r q where e: "cb e p = (r, q)" by fastforce
  show ?case using Cons.IH [of "k + 1" q] by (simp add: e)
qed simp

text \<open>A header in one piece, and the events of a list of headers.\<close>

definition header_events :: "(string \<times> string) list \<Rightarrow> parse_event list" where
  "header_events hs = concat (map (\<lambda>(k, v). [HeaderField k, HeaderValue v]) hs)"

definition set_headers :: "(string \<times> string) list \<Rightarrow> http_request \<Rightarrow> http_request" where
  "set_headers hs r = foldl (\<lambda>r (k, v). req_setHeader k v r) r hs"

lemma run_header_events:
  "\<exists>field. run_callbacks (on_request_cb pu) k (header_events hs) p =
     (k + length (header_events hs), p\<lparr>ps_field := field, ps_data := set_headers hs (ps_data p)\<rparr>)"
proof (induction hs arbitrary: k p)
  case Nil
  show ?case by (rule exI [of _ "ps_field p"]) (simp add: header_events_def set_headers_def)
next
  case (Cons h hs)
  obtain a v where h: "h = (a, v)" by fastforce
  from Cons.IH [of "k + 2" "p\<lparr>ps_field := a, ps_data := req_setHeader a v (ps_data p)\<rparr>"] h
  show ?case by (auto simp: header_events_def set_headers_def)
qed

lemma run_bodies:
  "run_callbacks (on_request_cb pu) k (map Body bs) p =
     (k + length bs, p\<lparr>ps_data := (ps_data p)\<lparr>r_body := r_body (ps_data p) @ concat bs\<rparr>\<rparr>)"
  by (induction bs arbitrary: k p) simp_all

lemma header_value_set_headers:
  assumes "ordered_by CaseInsensitiveLess (map fst (r_headers r))"
  shows "map_value CaseInsensitiveLess key (r_headers (set_headers hs r)) =
    (case List.find (\<lambda>h. strcasecmp_eq (fst h) key) (rev hs) of
       Some h \<Rightarrow> Some (snd h) | None \<Rightarrow> map_value CaseInsensitiveLess key (r_headers r)) \<and>
    ordered_by CaseInsensitiveLess (map fst (r_headers (set_headers hs r)))"
proof (induction hs rule: rev_induct)
  case Nil
  then show ?case using assms by (simp add: set_headers_def)
next
  case (snoc h hs)
  obtain a v where h: "h = (a, v)" by fastforce
  have "set_headers (hs @ [h]) r = req_setHeader a v (set_headers hs r)"
    by (simp add: set_headers_def h)
  then show ?case
    using snoc nocase.map_value_assign [of "r_headers (set_headers hs r)" key a v]
      nocase.ordered_map_assign [of "r_headers (set_headers hs r)" a v] nocase_equiv [of a key] h
    by (simp add: req_setHeader_def)
qed

section \<open>Properties\<close>

text \<open>When the library reports every part of a request in one piece (the body in any number of
  pieces), the parser ends finished with exactly that request: path, query and fragment of the
  URL, the method, for each name the last value sent under it in any case, the pieces of the
  body in order.\<close>

theorem request_assembled:
  assumes "parse_url u = Some f"
  shows "\<exists>q. run_callbacks (on_request_cb parse_url) 0
      ([MessageBegin, Url u] @ header_events hs @ [HeadersComplete 1 1 m] @ map Body bs @ [MessageComplete])
      (new_request_parser lib) = (length (header_events hs) + length bs + 4, q) \<and>
    ps_finished q \<and> ps_error q = 0 \<and> r_method (ps_data q) = m \<and> r_version (ps_data q) = 17 \<and>
    r_path (ps_data q) = (case uf_path f of Some s \<Rightarrow> s | None \<Rightarrow> ''/'') \<and>
    r_query (ps_data q) = (case uf_query f of Some s \<Rightarrow> s | None \<Rightarrow> []) \<and>
    r_body (ps_data q) = concat bs \<and>
    (\<forall>key. map_value CaseInsensitiveLess key (r_headers (ps_data q)) =
       map_option snd (List.find (\<lambda>h. strcasecmp_eq (fst h) key) (rev hs)))"
proof -
  define d where "d = set_fields f (new_request 17 True)"
  define p where "p = (new_request_parser lib)\<lparr>ps_data := d\<rparr>"
  have p: "ps_data p = d" "ps_error p = 0" by (simp_all add: p_def new_request_parser_def)
  have d: "r_headers d = []" "r_body d = []" "r_path d = (case uf_path f of Some s \<Rightarrow> s | None \<Rightarrow> ''/'')"
    "r_query d = (case uf_query f of Some s \<Rightarrow> s | None \<Rightarrow> [])"
    by (simp_all add: d_def set_fields_def new_request_def cong: option.case_cong)
  have start: "run_callbacks (on_request_cb parse_url) 0 ([MessageBegin, Url u] @ es) (new_request_parser lib) =
      run_callbacks (on_request_cb parse_url) 2 es p" for es
    using assms by (simp add: p_def d_def new_request_parser_def numeral_2_eq_2)
  obtain field where h: "run_callbacks (on_request_cb parse_url) 2 (header_events hs) p =
      (2 + length (header_events hs), p\<lparr>ps_field := field, ps_data := set_headers hs d\<rparr>)"
    using run_header_events p by metis
  have v: "map_value CaseInsensitiveLess key (r_headers (set_headers hs d)) =
      map_option snd (List.find (\<lambda>h. strcasecmp_eq (fst h) key) (rev hs))" for key
    using header_value_set_headers [of d key hs] d(1) by (simp split: option.split)
  have keep: "r_path (set_headers hs r) = r_path r" "r_query (set_headers hs r) = r_query r"
    "r_body (set_headers hs r) = r_body r" for r
    by (induction hs rule: rev_induct) (auto simp: set_headers_def req_setHeader_def)
  show ?thesis
    unfolding start
    by (simp add: run_callbacks_append h run_bodies keep version_byte_def v d p)
qed

definition sample_url :: "string \<Rightarrow> url_fields option" where
  "sample_url s = (if s = ''/a?b'' then Some \<lparr>uf_path = Some ''/a'', uf_query = Some ''b'', uf_fragment = None\<rparr> else None)"

definition sample_lib :: "nat parser_lib" where
  "sample_lib = \<lparr>lib_init = 0, lib_events = (\<lambda>q data. [Url data, HeadersComplete 1 1 1, MessageComplete]),
     lib_result = (\<lambda>q data k. (q, length data, 0, False)), lib_parse_url = sample_url\<rparr>"

theorem request_assembled_witness:
  "\<exists>q. run_callbacks (on_request_cb sample_url) 0
     ([MessageBegin, Url ''/a?b''] @ header_events [(''Host'', ''x'')] @ [HeadersComplete 1 1 3] @
       map Body [''ab'', ''c''] @ [MessageComplete]) (new_request_parser sample_lib) = (8, q) \<and>
     r_path (ps_data q) = ''/a'' \<and> r_body (ps_data q) = ''abc''"
  using request_assembled [of sample_url "''/a?b''" "\<lparr>uf_path = Some ''/a'', uf_query = Some ''b'', uf_fragment = None\<rparr>"
      "[(''Host'', ''x'')]" 3 "[''ab'', ''c'']" sample_lib]
  by (auto simp: sample_url_def header_events_def)

text \<open>The library may report a header name or value in several pieces (when it was split over two
  reads); the parser keeps the last piece only. A header whose name was split is filed under the
  tail of its name, and a split value loses its beginning.\<close>

theorem split_header_truncated:
  "run_callbacks (on_request_cb pu) k (HeaderField a # HeaderField b # HeaderValue v # es) p =
     run_callbacks (on_request_cb pu) (k + 1) (HeaderField b # HeaderValue v # es) p \<and>
   run_callbacks (on_request_cb pu) k [HeaderField key, HeaderValue a, HeaderValue b] p =
     (k + 3, p\<lparr>ps_field := key, ps_data := req_setHeader key b (req_setHeader key a (ps_data p))\<rparr>) \<and>
   (ordered_by CaseInsensitiveLess (map fst (r_headers (ps_data p))) \<longrightarrow>
     map_value CaseInsensitiveLess key (r_headers (req_setHeader key b (req_setHeader key a (ps_data p)))) = Some b)"
  using header_value_set_headers [of "ps_data p" key "[(key, a), (key, b)]"]
  by (simp add: set_headers_def strcasecmp_eq_def)

theorem split_header_truncated_witness:
  "map_value CaseInsensitiveLess ''Cookie'' (r_headers (ps_data (snd (run_callbacks (on_request_cb sample_url) 0
     [HeaderField ''Cookie'', HeaderValue ''tok'', HeaderValue ''en=x''] (new_request_parser sample_lib))))) = Some ''en=x''"
proof -
  have "ordered_by CaseInsensitiveLess (map fst (r_headers (ps_data (new_request_parser sample_lib))))"
    by (simp add: new_request_parser_def new_request_def)
  then show ?thesis
    using split_header_truncated [where key = "''Cookie''" and a = "''tok''" and b = "''en=x''" and
        p = "new_request_parser sample_lib" and pu = sample_url and k = 0]
    by simp
qed

lemma handleClient_single:
  assumes "\<not> hs_keepalive s"
  shows "handleClient s reads w =
    (case fst (recvRequest (hs_lib s) (hs_buffer_size s) reads) of
       None \<Rightarrow> ([], None, w)
     | Some req \<Rightarrow>
         (case dispatch_handle (hs_fnmatch s) (hs_dispatch s) req
              (rsp_setHeader ''Server'' (hs_name s) (new_response (r_version req) True)) w of
            (Inl e, _, _, w') \<Rightarrow> ([], Some e, w')
          | (Inr _, _, rsp, w') \<Rightarrow> ([rsp_dump rsp], None, w')))"
  using assms
  by (subst handleClient.simps)
     (simp add: answer_def Let_def split: prod.split option.split sum.split)

text \<open>The blog server keeps no connection alive: a connection gets at most one response. When a
  request arrives and its servlet returns, the one response that servlet left is sent, marked
  \<^verbatim>\<open>connection: close\<close> unless the servlet changed that; when the servlet throws, nothing is sent
  and the exception goes on to the fiber, which ends the process.\<close>

theorem handleClient_once:
  assumes "\<not> hs_keepalive s"
  shows "handleClient s reads w =
    (case fst (recvRequest (hs_lib s) (hs_buffer_size s) reads) of
       None \<Rightarrow> ([], None, w)
     | Some req \<Rightarrow>
         (case dispatch_handle (hs_fnmatch s) (hs_dispatch s) req
              (rsp_setHeader ''Server'' (hs_name s) (new_response (r_version req) True)) w of
            (Inl e, _, _, w') \<Rightarrow> ([], Some e, w')
          | (Inr _, _, rsp, w') \<Rightarrow> ([rsp_dump rsp], None, w')))"
  by (rule handleClient_single [OF assms])

definition sample_server :: "(nat, nat) http_server" where
  "sample_server = new_http_server sample_lib 4096 (\<lambda>p s. False) False"

theorem handleClient_once_witness:
  "\<exists>page. handleClient sample_server [''/a?b'', ''/a?b''] 5 = ([page], None, 5)"
proof -
  have "\<not> hs_keepalive sample_server" by code_simp
  moreover have "fst (recvRequest (hs_lib sample_server) (hs_buffer_size sample_server) [''/a?b'', ''/a?b'']) =
      Some ((new_request 17 True)\<lparr>r_path := ''/a'', r_query := ''b''\<rparr>)"
    by code_simp
  ultimately show ?thesis
    using handleClient_once [of sample_server "[''/a?b'', ''/a?b'']" 5]
    by (simp add: dispatch_handle_def sample_server_def new_http_server_def getMatchedServlet_def
        new_dispatch_def NotFoundServlet_def)
qed

definition takes_prefix :: "('s \<Rightarrow> string) \<Rightarrow> (string \<Rightarrow> 's \<Rightarrow> int \<times> 's) \<Rightarrow> bool" where
  "takes_prefix sent wr \<longleftrightarrow> (\<forall>data s. data \<noteq> [] \<longrightarrow>
     fst (wr data s) \<le> int (length data) \<and>
     sent (snd (wr data s)) = sent s @ take (nat (fst (wr data s))) data)"

lemma write_loop_prefix:
  "takes_prefix sent wr \<Longrightarrow>
   \<exists>k \<le> length data. sent (snd (write_loop wr n0 data s)) = sent s @ take k data \<and>
     (if k = length data then fst (write_loop wr n0 data s) = n0 else fst (write_loop wr n0 data s) \<le> 0)"
proof (induction wr n0 data s rule: write_loop.induct)
  case (1 wr n0 data s)
  obtain n s' where w: "wr data s = (n, s')" by fastforce
  have law: "n \<le> int (length data)" "sent s' = sent s @ take (nat n) data" if "data \<noteq> []"
    using "1.prems" [unfolded takes_prefix_def, rule_format, OF that, of s] w by simp_all
  let ?rest = "drop (nat n) data"
  consider "data = []" | "data \<noteq> []" "n \<le> 0" | "data \<noteq> []" "0 < n" by linarith
  then show ?case
  proof cases
    case 1
    then show ?thesis by (simp add: write_loop.simps)
  next
    case 2
    then show ?thesis using law w by (intro exI [of _ 0]) (simp add: write_loop.simps)
  next
    case 3
    have "write_loop wr n0 data s = write_loop wr n0 ?rest s'"
      using 3 w by (subst write_loop.simps) simp
    moreover obtain k where k: "k \<le> length ?rest"
      "sent (snd (write_loop wr n0 ?rest s')) = sent s' @ take k ?rest"
      "if k = length ?rest then fst (write_loop wr n0 ?rest s') = n0
       else fst (write_loop wr n0 ?rest s') \<le> 0"
      using "1.IH" [OF 3(1) w [symmetric] refl _ "1.prems"] 3(2) by auto
    moreover have "nat n + k \<le> length data" "nat n + k = length data \<longleftrightarrow> k = length ?rest"
      using k(1) law(1) [OF 3(1)] by auto
    ultimately show ?thesis
      using law(2) [OF 3(1)]
      by (intro exI [of _ "nat n + k"] conjI) (simp_all only: take_add append_assoc)
  qed
qed

text \<open>\<open>writeFixSize\<close> over any socket that takes a prefix of what it is given: the result is the
  full length only if every byte was taken, once and in order; otherwise it is not positive and
  a proper prefix was taken.\<close>

theorem writeFixSize_prefix:
  assumes "takes_prefix sent wr"
  shows "\<exists>k \<le> length data. sent (snd (writeFixSize wr data s)) = sent s @ take k data \<and>
    (if k = length data then fst (writeFixSize wr data s) = int (length data)
     else fst (writeFixSize wr data s) \<le> 0)"
  unfolding writeFixSize_def by (rule write_loop_prefix [OF assms])

text \<open>A socket that takes at most three bytes at a time.\<close>

definition sample_write :: "string \<Rightarrow> string \<Rightarrow> int \<times> string" where
  "sample_write data s = (int (min 3 (length data)), s @ take 3 data)"

theorem writeFixSize_prefix_witness:
  "takes_prefix (\<lambda>s. s) sample_write \<and> writeFixSize sample_write ''hello world'' ''>'' = (11, ''>hello world'')"
proof -
  have law: "takes_prefix (\<lambda>s. s) sample_write"
    by (auto simp: takes_prefix_def sample_write_def min_def)
  moreover have "fst (writeFixSize sample_write ''hello world'' ''>'') = 11"
    by code_simp
  ultimately show ?thesis
    using writeFixSize_prefix [OF law, of "''hello world''" "''>''"]
    by (auto simp: prod_eq_iff split: if_splits)
qed

end
