(* ===== verification/Api.thy ===== *)
theory Api
  imports HttpProps Session BlogService UserService JwtProps
begin

text \<open>
  The REST interface of the blog server: \<open>AuthUtil\<close>, \<open>JsonUtil\<close>, and the \<open>handle\<close> function of each
  of the ten servlets of \<^verbatim>\<open>blog/src/http/servlet\<close>, statement by statement. A servlet is a
  \<open>handler\<close> (theory \<open>Session\<close>) whose world is the database; an exception it does not catch is
  \<open>Inl\<close> in its result, with the request, response and database it leaves.
\<close>

section \<open>The environment of a servlet\<close>

text \<open>
  What a request finds: the JSON library, the database driver, the digests, the signing keys, the
  data access object each service builds, the random source, and the clock: \<open>env_clock k\<close> is the
  \<open>k\<close>-th reading of \<^verbatim>\<open>time(nullptr)\<close> in one request.
\<close>

record ('j, 'h, 'w) api_env =
  env_json :: "'j jsonlib"
  env_D :: "('h, 'w) driver"
  env_MD5 :: "string \<Rightarrow> nat list"
  env_HMAC :: hmac
  env_jwt :: jwt_state
  env_dao :: "'h dao_ptr"
  env_rand :: "nat list option"
  env_draws :: "nat list"
  env_clock :: "nat \<Rightarrow> int"

section \<open>Messages\<close>

text \<open>The texts of the answers, as the UTF-8 bytes of the source files.\<close>

definition bytes :: "nat list \<Rightarrow> string" where
  "bytes ns = map char_of ns"

definition msg_bad_json :: string where
  "msg_bad_json = bytes [230, 151, 160, 230, 149, 136, 231, 154, 132, 74, 83, 79, 78, 230, 149, 176, 230, 141,
     174]"

definition msg_no_credentials :: string where
  "msg_no_credentials = bytes [231, 148, 168, 230, 136, 183, 229, 144, 141, 229, 146, 140, 229, 175, 134, 231, 160,
     129, 228, 184, 141, 232, 131, 189, 228, 184, 186, 231, 169, 186]"

definition msg_username_length :: string where
  "msg_username_length = bytes [231, 148, 168, 230, 136, 183, 229, 144, 141, 233, 149, 191, 229, 186, 166, 229, 191,
     133, 233, 161, 187, 229, 156, 168, 51, 45, 50, 48, 228, 184, 170, 229, 173, 151, 231,
     172, 166, 228, 185, 139, 233, 151, 180]"

definition msg_password_length :: string where
  "msg_password_length = bytes [229, 175, 134, 231, 160, 129, 233, 149, 191, 229, 186, 166, 228, 184, 141, 232, 131,
     189, 229, 176, 145, 228, 186, 142, 54, 228, 184, 170, 229, 173, 151, 231, 172, 166]"

definition msg_register_failed :: string where
  "msg_register_failed = bytes [231, 148, 168, 230, 136, 183, 229, 144, 141, 229, 183, 178, 229, 173, 152, 229, 156,
     168, 230, 136, 150, 230, 179, 168, 229, 134, 140, 229, 164, 177, 232, 180, 165]"

definition msg_registered :: string where
  "msg_registered = bytes [230, 179, 168, 229, 134, 140, 230, 136, 144, 229, 138, 159]"

definition msg_login_failed :: string where
  "msg_login_failed = bytes [231, 148, 168, 230, 136, 183, 229, 144, 141, 230, 136, 150, 229, 175, 134, 231, 160,
     129, 233, 148, 153, 232, 175, 175]"

definition msg_logged_in :: string where
  "msg_logged_in = bytes [231, 153, 187, 229, 189, 149, 230, 136, 144, 229, 138, 159]"

definition msg_not_logged_in :: string where
  "msg_not_logged_in = bytes [232, 175, 183, 229, 133, 136, 231, 153, 187, 229, 189, 149]"

definition msg_no_user :: string where
  "msg_no_user = bytes [231, 148, 168, 230, 136, 183, 228, 184, 141, 229, 173, 152, 229, 156, 168]"

definition msg_update_failed :: string where
  "msg_update_failed = bytes [230, 155, 180, 230, 150, 176, 229, 164, 177, 232, 180, 165]"

definition msg_profile_updated :: string where
  "msg_profile_updated = bytes [232, 181, 132, 230, 150, 153, 230, 155, 180, 230, 150, 176, 230, 136, 144, 229, 138, 159]"

definition msg_no_user_id :: string where
  "msg_no_user_id = bytes [231, 148, 168, 230, 136, 183, 105, 100, 228, 184, 141, 232, 131, 189, 228, 184, 186,
     231, 169, 186]"

definition msg_no_title :: string where
  "msg_no_title = bytes [230, 160, 135, 233, 162, 152, 229, 146, 140, 229, 134, 133, 229, 174, 185, 228, 184,
     141, 232, 131, 189, 228, 184, 186, 231, 169, 186]"

definition msg_created :: string where
  "msg_created = bytes [229, 141, 154, 229, 174, 162, 229, 136, 155, 229, 187, 186, 230, 136, 144, 229, 138, 159]"

definition msg_no_blog_id :: string where
  "msg_no_blog_id = bytes [229, 141, 154, 229, 174, 162, 73, 68, 228, 184, 141, 232, 131, 189, 228, 184, 186, 231,
     169, 186]"

definition msg_no_blog :: string where
  "msg_no_blog = bytes [229, 141, 154, 229, 174, 162, 228, 184, 141, 229, 173, 152, 229, 156, 168]"

definition msg_not_author :: string where
  "msg_not_author = bytes [230, 151, 160, 230, 157, 131, 228, 191, 174, 230, 148, 185, 230, 173, 164, 229, 141,
     154, 229, 174, 162]"

definition msg_updated :: string where
  "msg_updated = bytes [229, 141, 154, 229, 174, 162, 230, 155, 180, 230, 150, 176, 230, 136, 144, 229, 138, 159]"

definition msg_not_deleted :: string where
  "msg_not_deleted = bytes [229, 141, 154, 229, 174, 162, 228, 184, 141, 229, 173, 152, 229, 156, 168, 230, 136,
     150, 230, 151, 160, 230, 157, 131, 233, 153, 144, 229, 136, 160, 233, 153, 164]"

definition msg_deleted :: string where
  "msg_deleted = bytes [229, 141, 154, 229, 174, 162, 229, 136, 160, 233, 153, 164, 230, 136, 144, 229, 138, 159]"

section \<open>AuthUtil and JsonUtil\<close>

definition getCurrentToken :: "http_request \<Rightarrow> string" where
  "getCurrentToken request =
     (let auth_header = req_getHeader request ''Authorization'' [] in
      if auth_header = [] then
        let auth_header = req_getHeader request ''Cookie'' [] in
        (case str_find auth_header ''token='' 0 of
           None \<Rightarrow> []
         | Some k \<Rightarrow>
             let start = k + 6 in
             (case str_find auth_header '';'' start of
                None \<Rightarrow> drop start auth_header
              | Some stop \<Rightarrow> take (stop - start) (drop start auth_header)))
      else if str_find auth_header ''Bearer '' 0 = Some 0 then drop 7 auth_header
      else auth_header)"

definition JsonUtil_parse :: "'j jsonlib \<Rightarrow> string \<Rightarrow> 'j option" where
  "JsonUtil_parse J str = (if str = [] then None else parseFromStream J str)"

definition JsonUtil_toString :: "'j jsonlib \<Rightarrow> 'j \<Rightarrow> string" where
  "JsonUtil_toString J json = writeString J json"

section \<open>Answers\<close>

text \<open>The three lines every answer ends in, without and with the status line before them.\<close>

definition reply :: "'j jsonlib \<Rightarrow> int \<Rightarrow> string \<Rightarrow> 'j \<Rightarrow> http_response \<Rightarrow> http_response" where
  "reply J code message data response =
     rsp_setHeader ''Content-Type'' ''application/json''
       (response\<lparr>p_body := JsonUtil_toString J
          (api_toJson J \<lparr>api_code = code, api_message = message, api_data = data\<rparr>)\<rparr>)"

definition refuse :: "'j jsonlib \<Rightarrow> nat \<Rightarrow> string \<Rightarrow> http_response \<Rightarrow> http_response" where
  "refuse J status message response = reply J (int status) message (jnull J) (response\<lparr>p_status := status\<rparr>)"

type_synonym 'w outcome = "int res \<times> http_request \<times> http_response \<times> 'w"

definition finish :: "http_request \<Rightarrow> http_response \<Rightarrow> 'w \<Rightarrow> 'w outcome" where
  "finish request response w = (Inr 0, request, response, w)"

text \<open>An expression that may throw, and the rest of the function.\<close>

definition attempt ::
    "'a res \<Rightarrow> http_request \<Rightarrow> http_response \<Rightarrow> 'w \<Rightarrow> ('a \<Rightarrow> 'w outcome) \<Rightarrow> 'w outcome" where
  "attempt m request response w rest =
     (case m of Inl e \<Rightarrow> (Inl e, request, response, w) | Inr x \<Rightarrow> rest x)"

text \<open>\<^verbatim>\<open>json[key].asString()\<close>\<close>

definition string_of :: "'j jsonlib \<Rightarrow> 'j \<Rightarrow> string \<Rightarrow> string res" where
  "string_of J json key = rbind (jget J json key) (asString J)"

text \<open>\<^verbatim>\<open>std::stoi(request->getParam(key, def))\<close>, with the request whose parameters are parsed.\<close>

definition int_param ::
    "(string \<Rightarrow> int res) \<Rightarrow> string \<Rightarrow> string \<Rightarrow> http_request \<Rightarrow> int res \<times> http_request" where
  "int_param conv key def request = (case getParam key def request of (s, request') \<Rightarrow> (conv s, request'))"

definition page_data :: "'j jsonlib \<Rightarrow> blog list \<Rightarrow> 'j" where
  "page_data J blogs = foldl (\<lambda>data b. jappend J data (blog_toJson J b)) (jarray J) blogs"

definition login_data :: "'j jsonlib \<Rightarrow> string \<Rightarrow> user \<Rightarrow> 'j" where
  "login_data J token u =
     jset J (jset J (jnull J) ''token'' (jstr J token)) ''user'' (user_toJson J False u)"

text \<open>\<^verbatim>\<open>JWTUtil::generateToken(id, username, nickname)\<close> with its default arguments.\<close>

definition token_for :: "('j, 'h, 'w) api_env \<Rightarrow> int \<Rightarrow> user \<Rightarrow> string res" where
  "token_for E now u =
     generateToken (env_HMAC E) (env_jwt E) (env_rand E) (env_draws E) now (u_id u) (u_username u)
       (u_nickname u) [] (3600 * 24)"

section \<open>User servlets\<close>

definition UserRegister_handle :: "('j, 'h, 'w) api_env \<Rightarrow> 'w handler" where
  "UserRegister_handle E request response w =
     (let J = env_json E in
      case JsonUtil_parse J (r_body request) of
        None \<Rightarrow> finish request (refuse J 400 msg_bad_json response) w
      | Some json \<Rightarrow>
          attempt (string_of J json ''username'') request response w (\<lambda>username.
          attempt (string_of J json ''password'') request response w (\<lambda>password.
          attempt (string_of J json ''nickname'') request response w (\<lambda>nickname.
          attempt (string_of J json ''email'') request response w (\<lambda>email.
            if username = [] \<or> password = []
            then finish request (refuse J 400 msg_no_credentials response) w
            else if length username < 3 \<or> length username > 20
            then finish request (refuse J 400 msg_username_length response) w
            else if length password < 6
            then finish request (refuse J 400 msg_password_length response) w
            else
              (case registerUser (env_D E) (env_MD5 E) (env_dao E) (env_clock E 0) username password
                   nickname email w of
                 (result, w) \<Rightarrow>
                   if u_id result = 0
                   then finish request (refuse J 400 msg_register_failed response) w
                   else
                     attempt (token_for E (env_clock E 1) result) request response w (\<lambda>token.
                       finish request (reply J 200 msg_registered (login_data J token result) response) w)))))))"

definition UserLogin_handle :: "('j, 'h, 'w) api_env \<Rightarrow> 'w handler" where
  "UserLogin_handle E request response w =
     (let J = env_json E in
      case JsonUtil_parse J (r_body request) of
        None \<Rightarrow> finish request (refuse J 400 msg_bad_json response) w
      | Some json \<Rightarrow>
          attempt (string_of J json ''username'') request response w (\<lambda>username.
          attempt (string_of J json ''password'') request response w (\<lambda>password.
            if username = [] \<or> password = []
            then finish request (refuse J 400 msg_no_credentials response) w
            else
              (case login (env_D E) (env_MD5 E) (env_dao E) username password w of
                 (user, w) \<Rightarrow>
                   if u_id user = 0
                   then finish request (refuse J 401 msg_login_failed response) w
                   else
                     attempt (token_for E (env_clock E 0) user) request response w (\<lambda>token.
                       finish request (reply J 200 msg_logged_in (login_data J token user) response) w)))))"

definition show_user :: "('j, 'h, 'w) api_env \<Rightarrow> int \<Rightarrow> 'w handler" where
  "show_user E user_id request response w =
     (let J = env_json E in
      case getUserById (env_D E) (env_dao E) user_id w of
        (user, w) \<Rightarrow>
          if u_id user = 0 then finish request (refuse J 404 msg_no_user response) w
          else finish request (reply J 200 ''success'' (user_toJson J False user) response) w)"

definition UserInfo_handle :: "('j, 'h, 'w) api_env \<Rightarrow> 'w handler" where
  "UserInfo_handle E request response w =
     (let J = env_json E; userid = getUserIdFromToken (getCurrentToken request) in
      if userid = 0 then finish request (refuse J 401 msg_not_logged_in response) w
      else
        (case getParam ''user_id'' [] request of
           (user_id_str, request) \<Rightarrow>
             if user_id_str \<noteq> []
             then attempt (stol user_id_str) request response w (\<lambda>target_user_id.
                    show_user E target_user_id request response w)
             else show_user E userid request response w))"

definition profile_of_json :: "'j jsonlib \<Rightarrow> int \<Rightarrow> string \<Rightarrow> 'j \<Rightarrow> user res" where
  "profile_of_json J userid username json =
     rbind (set_if_member J json ''nickname'' (asString J) (\<lambda>x u. u\<lparr>u_nickname := x\<rparr>)
              (new_user\<lparr>u_id := userid, u_username := username\<rparr>)) (\<lambda>u.
     rbind (set_if_member J json ''email'' (asString J) (\<lambda>x u. u\<lparr>u_email := x\<rparr>) u) (\<lambda>u.
     rbind (set_if_member J json ''avatar'' (asString J) (\<lambda>x u. u\<lparr>u_avatar := x\<rparr>) u) (\<lambda>u.
     set_if_member J json ''bio'' (asString J) (\<lambda>x u. u\<lparr>u_bio := x\<rparr>) u)))"

definition UserProfile_handle :: "('j, 'h, 'w) api_env \<Rightarrow> 'w handler" where
  "UserProfile_handle E request response w =
     (let J = env_json E; token = getCurrentToken request; userid = getUserIdFromToken token;
          username = getUsernameFromToken token in
      if userid = 0 then finish request (refuse J 401 msg_not_logged_in response) w
      else
        (case JsonUtil_parse J (r_body request) of
           None \<Rightarrow> finish request (refuse J 400 msg_bad_json response) w
         | Some json \<Rightarrow>
             attempt (profile_of_json J userid username json) request response w (\<lambda>updated_user.
               (case updateUser (env_D E) (env_dao E) (env_clock E 0) updated_user w of
                  (success, w) \<Rightarrow>
                    if \<not> success then finish request (refuse J 500 msg_update_failed response) w
                    else finish request
                      (reply J 200 msg_profile_updated (user_toJson J False updated_user) response) w))))"

section \<open>Blog servlets\<close>

definition BlogList_handle :: "('j, 'h, 'w) api_env \<Rightarrow> 'w handler" where
  "BlogList_handle E request response w =
     (let J = env_json E in
      case int_param stoi ''page'' ''1'' request of (r, request) \<Rightarrow>
        attempt r request response w (\<lambda>page.
      case int_param stoi ''page_size'' ''20'' request of (r, request) \<Rightarrow>
        attempt r request response w (\<lambda>page_size.
      case int_param stoi ''status'' ''1'' request of (r, request) \<Rightarrow>
        attempt r request response w (\<lambda>status.
      case getBlogList (env_D E) (env_dao E) page page_size status w of (r, w) \<Rightarrow>
        attempt r request response w (\<lambda>blogs.
          finish request (reply J 200 ''success'' (page_data J blogs) response) w)))))"

definition BlogListWithUserId_handle :: "('j, 'h, 'w) api_env \<Rightarrow> 'w handler" where
  "BlogListWithUserId_handle E request response w =
     (let J = env_json E in
      case int_param stoi ''page'' ''1'' request of (r, request) \<Rightarrow>
        attempt r request response w (\<lambda>page.
      case int_param stoi ''page_size'' ''20'' request of (r, request) \<Rightarrow>
        attempt r request response w (\<lambda>page_size.
      case int_param stoi ''user_id'' ''0'' request of (r, request) \<Rightarrow>
        attempt r request response w (\<lambda>user_id.
      if user_id = 0 then finish request (refuse J 400 msg_no_user_id response) w
      else
        (case getUserBlogs (env_D E) (env_dao E) user_id page page_size w of (r, w) \<Rightarrow>
          attempt r request response w (\<lambda>blogs.
            finish request (reply J 200 ''success'' (page_data J blogs) response) w))))))"

text \<open>The summary is made of the first hundred bytes.\<close>

definition with_summary :: "blog \<Rightarrow> blog" where
  "with_summary b =
     (if b_summary b = [] \<and> length (b_content b) > 100
      then b\<lparr>b_summary := take 100 (b_content b) @ ''...''\<rparr> else b)"

definition BlogCreate_handle :: "('j, 'h, 'w) api_env \<Rightarrow> 'w handler" where
  "BlogCreate_handle E request response w =
     (let J = env_json E; token = getCurrentToken request; userid = getUserIdFromToken token;
          nickname = getNicknameFromToken token in
      if userid = 0 then finish request (refuse J 401 msg_not_logged_in response) w
      else
        (case JsonUtil_parse J (r_body request) of
           None \<Rightarrow> finish request (refuse J 400 msg_bad_json response) w
         | Some json \<Rightarrow>
             attempt (rbind (isMember J json ''title'') (\<lambda>t. if t then isMember J json ''content'' else Inr False))
               request response w (\<lambda>both.
               if \<not> both then finish request (refuse J 400 msg_no_title response) w
               else
                 attempt (blog_fromJson J (env_clock E 0) json) request response w (\<lambda>blog.
                   (case createBlog (env_D E) (env_dao E) (env_clock E 1)
                        (with_summary (blog\<lparr>b_author_id := userid, b_author_name := nickname\<rparr>)) w of
                      (created, w) \<Rightarrow>
                        finish request (reply J 200 msg_created (blog_toJson J created) response) w)))))"

definition BlogUpdate_handle :: "('j, 'h, 'w) api_env \<Rightarrow> 'w handler" where
  "BlogUpdate_handle E request response w =
     (let J = env_json E; userid = getUserIdFromToken (getCurrentToken request) in
      if userid = 0 then finish request (refuse J 401 msg_not_logged_in response) w
      else
        (case JsonUtil_parse J (r_body request) of
           None \<Rightarrow> finish request (refuse J 400 msg_bad_json response) w
         | Some json \<Rightarrow>
             attempt (isMember J json ''id'') request response w (\<lambda>has_id.
               if \<not> has_id then finish request (refuse J 400 msg_no_blog_id response) w
               else
                 attempt (rbind (jget J json ''id'') (asInt64 J)) request response w (\<lambda>i.
                   (case getBlog (env_D E) (env_dao E) i w of
                      (existing_blog, w) \<Rightarrow>
                        if b_id existing_blog = 0
                        then finish request (refuse J 404 msg_no_blog response) w
                        else if b_author_id existing_blog \<noteq> userid
                        then finish request (refuse J 403 msg_not_author response) w
                        else
                          attempt (blog_fromJson J (env_clock E 0) json) request response w (\<lambda>blog.
                            (case updateBlog (env_D E) (env_dao E) (env_clock E 1) (env_clock E 2)
                                 (blog\<lparr>b_id := b_id existing_blog, b_author_id := b_author_id existing_blog,
                                    b_author_name := b_author_name existing_blog\<rparr>) w of
                               (success, w) \<Rightarrow>
                                 if \<not> success
                                 then finish request (refuse J 500 msg_update_failed response) w
                                 else finish request (reply J 200 msg_updated (jnull J) response) w)))))))"

definition BlogDelete_handle :: "('j, 'h, 'w) api_env \<Rightarrow> 'w handler" where
  "BlogDelete_handle E request response w =
     (let J = env_json E; userid = getUserIdFromToken (getCurrentToken request) in
      if userid = 0 then finish request (refuse J 401 msg_not_logged_in response) w
      else
        (case int_param stol ''id'' ''0'' request of (r, request) \<Rightarrow>
          attempt r request response w (\<lambda>blog_id.
            if blog_id = 0 then finish request (refuse J 400 msg_no_blog_id response) w
            else
              (case deleteBlog (env_D E) (env_dao E) (env_clock E 0) blog_id userid w of
                 (success, w) \<Rightarrow>
                   if \<not> success then finish request (refuse J 404 msg_not_deleted response) w
                   else finish request (reply J 200 msg_deleted (jnull J) response) w))))"

definition BlogDetail_handle :: "('j, 'h, 'w) api_env \<Rightarrow> 'w handler" where
  "BlogDetail_handle E request response w =
     (let J = env_json E in
      case int_param stol ''id'' ''0'' request of (r, request) \<Rightarrow>
        attempt r request response w (\<lambda>blog_id.
          if blog_id = 0 then finish request (refuse J 400 msg_no_blog_id response) w
          else
            (case getBlog (env_D E) (env_dao E) blog_id w of
               (blog, w) \<Rightarrow>
                 if b_id blog = 0 then finish request (refuse J 404 msg_no_blog response) w
                 else
                   (case increaseViewCount (env_D E) (env_dao E) (env_clock E 0) blog_id w of
                      (_, w) \<Rightarrow> finish request (reply J 200 ''success'' (blog_toJson J blog) response) w))))"

section \<open>The server\<close>

text \<open>The behaviour of each registered class, and the server \<open>BlogServer::init\<close> sets up.\<close>

definition api_handlers :: "('j, 'h, 'w) api_env \<Rightarrow> string \<Rightarrow> 'w handler" where
  "api_handlers E c =
     (if c = ''BlogListServlet'' then BlogList_handle E
      else if c = ''BlogListWithUserIdServlet'' then BlogListWithUserId_handle E
      else if c = ''BlogCreateServlet'' then BlogCreate_handle E
      else if c = ''BlogUpdateServlet'' then BlogUpdate_handle E
      else if c = ''BlogDeleteServlet'' then BlogDelete_handle E
      else if c = ''BlogDetailServlet'' then BlogDetail_handle E
      else if c = ''UserRegisterServlet'' then UserRegister_handle E
      else if c = ''UserLoginServlet'' then UserLogin_handle E
      else if c = ''UserInfoServlet'' then UserInfo_handle E
      else UserProfile_handle E)"

definition blog_server ::
    "'p parser_lib \<Rightarrow> nat \<Rightarrow> (string \<Rightarrow> string \<Rightarrow> bool) \<Rightarrow> ('j, 'h, 'w) api_env \<Rightarrow> ('p, 'w) http_server" where
  "blog_server lib buff_size fnm E =
     (let s = new_http_server lib buff_size fnm False
      in s\<lparr>hs_dispatch := registerServlets (api_handlers E) (NotFoundServlet ''blog_server'') (hs_dispatch s)\<rparr>)"

end
