(* ===== verification/ApiProps.thy ===== *)
theory ApiProps
  imports Api
begin

text \<open>
  What the REST interface guarantees and where it does not: who is turned away, whose blogs a
  request can change, what a forged token can do, what a failed creation is answered, and which
  requests end the process.
\<close>

section \<open>Lemmas\<close>

lemma initParams_path [simp]: "r_path (initParams r) = r_path r"
  by (simp add: initParams_def initQueryParam_def initBodyParam_def Let_def)

lemma initParams_headers [simp]: "r_headers (initParams r) = r_headers r"
  by (simp add: initParams_def initQueryParam_def initBodyParam_def Let_def)

lemma attempt_simps [simp]:
  "attempt (Inl e) request response w rest = (Inl e, request, response, w)"
  "attempt (Inr x) request response w rest = rest x"
  by (simp_all add: attempt_def)

lemma int_param_eq:
  "int_param conv key def request = (conv (fst (getParam key def request)), snd (getParam key def request))"
  by (simp add: int_param_def split: prod.split)

definition world_of :: "'w outcome \<Rightarrow> 'w" where
  "world_of out = snd (snd (snd out))"

definition response_of :: "'w outcome \<Rightarrow> http_response" where
  "response_of out = fst (snd (snd out))"

lemma outcome_simps [simp]:
  "world_of (r, q, p, w) = w" "response_of (r, q, p, w) = p"
  "world_of (finish q p w) = w" "response_of (finish q p w) = p" "fst (finish q p w) = Inr 0"
  by (simp_all add: world_of_def response_of_def finish_def)

lemma world_of_attempt:
  "world_of (attempt m q p w rest) = (case m of Inl e \<Rightarrow> w | Inr x \<Rightarrow> world_of (rest x))"
  by (simp add: attempt_def split: sum.split)

lemma reply_status [simp]: "p_status (reply J code msg data p) = p_status p"
  by (simp add: reply_def rsp_setHeader_def)

lemma refuse_status [simp]: "p_status (refuse J st msg p) = st"
  by (simp add: refuse_def)

definition logged_in :: "http_request \<Rightarrow> bool" where
  "logged_in request \<longleftrightarrow> getUserIdFromToken (getCurrentToken request) \<noteq> 0"

definition guarded_handlers :: "('j, 'h, 'w) api_env \<Rightarrow> 'w handler list" where
  "guarded_handlers E =
     [BlogCreate_handle E, BlogUpdate_handle E, BlogDelete_handle E, UserInfo_handle E, UserProfile_handle E]"

text \<open>What a step on one blog of a user does to the table.\<close>

definition own_blog_step :: "int \<Rightarrow> blog list \<Rightarrow> blog list \<Rightarrow> bool" where
  "own_blog_step u bs bs' \<longleftrightarrow>
     bs' = bs \<or> (\<exists>b\<in>set bs. \<exists>f. b_author_id b = u \<and> live_blog b \<and> bs' = on_blog (b_id b) f bs)"

lemma own_blog_stepI:
  assumes "blog_step i f bs bs'" and "bs' \<noteq> bs \<Longrightarrow> \<exists>b\<in>set bs. b_id b = i \<and> b_author_id b = u \<and> live_blog b"
  shows "own_blog_step u bs bs'"
  using assms unfolding blog_step_def own_blog_step_def by blast

lemma getBlog_outcome:
  assumes laws: "mysql_laws D view" and ok: "db_ok (view w)" and run: "getBlog D dao i w = (b, w')"
  shows "view w' = view w \<and>
    (b = new_blog \<or> b \<in> set (stored_blogs (view w)) \<and> b_id b = i \<and> live_blog b)"
proof (cases "dao = None \<or> i \<le> 0")
  case True
  with run show ?thesis by (auto simp: getBlog_def split: option.splits if_splits)
next
  case False
  then obtain c where "dao = Some c" "\<not> i \<le> 0" by auto
  with run have "BlogDao_findById D c i w = (b, w')" by (simp add: getBlog_def)
  from BlogDao_findById_outcome [OF laws ok this] show ?thesis .
qed

lemma BlogDelete_world:
  "world_of (BlogDelete_handle E request response w) =
     (if \<not> logged_in request then w
      else case stol (fst (getParam ''id'' ''0'' request)) of
             Inl e \<Rightarrow> w
           | Inr i \<Rightarrow> if i = 0 then w
               else snd (deleteBlog (env_D E) (env_dao E) (env_clock E 0) i
                 (getUserIdFromToken (getCurrentToken request)) w))"
  by (simp add: BlogDelete_handle_def logged_in_def Let_def int_param_eq world_of_attempt
      split: sum.split prod.split)

lemma BlogDelete_owned:
  assumes laws: "mysql_laws (env_D E) view" and ok: "db_ok (view w)"
  shows "own_blog_step (getUserIdFromToken (getCurrentToken request)) (stored_blogs (view w))
    (stored_blogs (view (world_of (BlogDelete_handle E request response w))))"
proof -
  have "own_blog_step u (stored_blogs (view w)) (stored_blogs (view (snd (deleteBlog (env_D E) dao now i u w))))"
    for dao now i u
  proof -
    obtain r w' where run: "deleteBlog (env_D E) dao now i u w = (r, w')" by fastforce
    with deleteBlog_step [OF laws ok run] show ?thesis by (auto intro: own_blog_stepI)
  qed
  moreover have "own_blog_step u bs bs" for u bs by (simp add: own_blog_step_def)
  ultimately show ?thesis by (simp add: BlogDelete_world split: sum.split)
qed

lemma BlogUpdate_owned:
  assumes laws: "mysql_laws (env_D E) view" and ok: "db_ok (view w)"
  shows "own_blog_step (getUserIdFromToken (getCurrentToken request)) (stored_blogs (view w))
    (stored_blogs (view (world_of (BlogUpdate_handle E request response w))))"
proof -
  let ?J = "env_json E" and ?u = "getUserIdFromToken (getCurrentToken request)"
  have same: "own_blog_step u bs bs" for u bs by (simp add: own_blog_step_def)
  have upd: "own_blog_step ?u (stored_blogs (view w)) (stored_blogs (view (snd
      (updateBlog (env_D E) (env_dao E) t1 t2 (blog\<lparr>b_id := b_id b, b_author_id := b_author_id b,
         b_author_name := b_author_name b\<rparr>) w1))))"
    if g: "getBlog (env_D E) (env_dao E) i w = (b, w1)" and nz: "b_id b \<noteq> 0" and mine: "b_author_id b = ?u"
    for i b w1 t1 t2 blog
  proof -
    from getBlog_outcome [OF laws ok g] nz have b: "b \<in> set (stored_blogs (view w))" "live_blog b"
      and v: "view w1 = view w" by auto
    obtain r w' where run: "updateBlog (env_D E) (env_dao E) t1 t2 (blog\<lparr>b_id := b_id b,
        b_author_id := b_author_id b, b_author_name := b_author_name b\<rparr>) w1 = (r, w')" by fastforce
    have "db_ok (view w1)" using v ok by simp
    note st = updateBlog_step [OF laws this run]
    have "own_blog_step ?u (stored_blogs (view w1)) (stored_blogs (view w'))"
      by (rule own_blog_stepI [OF conjunct1 [OF conjunct2 [OF st]]]) (use b mine v in auto)
    then show ?thesis using v by (simp only: run snd_conv)
  qed
  have kept: "view w1 = view w" if "getBlog (env_D E) (env_dao E) i w = (b, w1)" for i b w1
    using getBlog_outcome [OF laws ok that] by simp
  show ?thesis
    by (auto simp: BlogUpdate_handle_def Let_def world_of_attempt same kept
        split: option.split sum.split prod.split dest: kept)
       (metis upd kept same snd_conv)+
qed

lemma blog_server_dispatch:
  "dispatch_handle fnm (hs_dispatch (blog_server lib buff_size fnm E)) req rsp w =
     (case sv_handle (case map_of blog_routes (r_path req) of
          Some c \<Rightarrow> \<lparr>sv_name = servlet_name c, sv_handle = api_handlers E c\<rparr>
        | None \<Rightarrow> NotFoundServlet ''blog_server'') req rsp w of
        (Inl e, st) \<Rightarrow> (Inl e, st) | (Inr _, st) \<Rightarrow> (Inr 0, st))"
  using getMatched_blog_routes [of fnm "api_handlers E" "NotFoundServlet ''blog_server''"
      "NotFoundServlet ''sylar/1.0''" "r_path req"]
  by (simp add: dispatch_handle_def blog_server_def new_http_server_def Let_def split: option.split)

text \<open>The server on a connection on which one request arrives.\<close>

lemma blog_server_client:
  assumes "recvRequest lib buff_size reads = (Some req, reads')"
    and "map_of blog_routes (r_path req) = Some c"
    and "api_handlers E c req (rsp_setHeader ''Server'' ''sylar/1.0.0'' (new_response (r_version req) True)) w =
      (r, req', rsp', w')"
  shows "handleClient (blog_server lib buff_size fnm E) reads w =
    (case r of Inl e \<Rightarrow> ([], Some e, w') | Inr _ \<Rightarrow> ([rsp_dump rsp'], None, w'))"
proof -
  have s: "\<not> hs_keepalive (blog_server lib buff_size fnm E)" "hs_lib (blog_server lib buff_size fnm E) = lib"
    "hs_buffer_size (blog_server lib buff_size fnm E) = buff_size"
    "hs_fnmatch (blog_server lib buff_size fnm E) = fnm"
    "hs_name (blog_server lib buff_size fnm E) = ''sylar/1.0.0''"
    by (simp_all add: blog_server_def new_http_server_def Let_def)
  show ?thesis
    unfolding handleClient_single [OF s(1)]
    using assms by (cases r) (simp_all add: s blog_server_dispatch)
qed

lemma blog_server_throws:
  assumes "recvRequest lib buff_size reads = (Some req, reads')"
    and "map_of blog_routes (r_path req) = Some c"
    and "\<And>rsp. api_handlers E c req rsp w = (Inl e, req', rsp, w)"
  shows "handleClient (blog_server lib buff_size fnm E) reads w = ([], Some e, w)"
  using blog_server_client [OF assms] by simp

section \<open>Requests with a token\<close>

definition with_token :: "string \<Rightarrow> string \<Rightarrow> http_request" where
  "with_token token query =
     (req_setHeader ''Authorization'' (''Bearer '' @ token) (new_request 17 True))\<lparr>r_query := query\<rparr>"

lemma with_token_headers: "r_headers (with_token token query) = [(''Authorization'', ''Bearer '' @ token)]"
  by (simp add: with_token_def req_setHeader_def new_request_def)

text \<open>The header \<^verbatim>\<open>Authorization: Bearer <token>\<close> hands the token over.\<close>

lemma getCurrentToken_bearer:
  assumes "req_getHeader request ''Authorization'' [] = ''Bearer '' @ token"
  shows "getCurrentToken request = token"
  using assms find_idx_here [of "''Bearer ''" token]
  by (simp add: getCurrentToken_def str_find_def)

lemma getCurrentToken_with_token: "getCurrentToken (with_token token query) = token"
  by (rule getCurrentToken_bearer)
     (simp add: req_getHeader_def map_get_def with_token_headers nocase.lt_irrefl)

lemma getParam_with_token:
  "fst (getParam key def (with_token token query)) =
     map_get (parse_param CHR ''&'' (\<lambda>s. s) query 0 []) key def"
proof -
  have "map_find CaseInsensitiveLess ''content-type'' [(''Authorization'', v)] = None" for v :: string
  proof -
    have "CaseInsensitiveLess ''Authorization'' ''content-type''" "\<not> CaseInsensitiveLess ''content-type'' ''Authorization''"
      by code_simp+
    then show ?thesis by simp
  qed
  then have "req_getHeader (with_token token query\<lparr>r_params := ps, r_parserParamFlag := k\<rparr>) ''content-type'' [] = []"
    for ps k by (simp add: req_getHeader_def map_get_def with_token_headers)
  moreover have "\<not> strcasestr [] form_type" by code_simp
  ultimately show ?thesis
    by (simp add: getParam_def initParams_def initQueryParam_def initBodyParam_def Let_def)
       (simp add: with_token_def req_setHeader_def new_request_def)
qed

text \<open>A token of any claims, with any text in place of the signature.\<close>

definition unsigned :: "jwt_claims \<Rightarrow> string \<Rightarrow> string" where
  "unsigned c sig = signing_input c @ ''.'' @ sig"

lemma safeDecode_unsigned: "claims_plain c \<Longrightarrow> safeDecode (unsigned c sig) = Some c"
  using safeDecode_of [OF header_HS256 parseClaims_serialize [of c], of sig]
  by (simp add: unsigned_def token_of_def signing_input_def)

definition author_token :: string where
  "author_token = unsigned sample_claims ''forged''"

lemma author_token_user: "getUserIdFromToken author_token = 7"
proof -
  have "claims_plain sample_claims" by code_simp
  then show ?thesis
    by (simp add: author_token_def getUserIdFromToken_def safeDecode_unsigned) (simp add: sample_claims_def)
qed

section \<open>Properties\<close>

text \<open>Without a decodable token nothing happens: each of the five servlets that ask for a user
  answers 401, returns normally, and leaves the database and the request as they were.\<close>

theorem no_token_no_effect:
  assumes "safeDecode (getCurrentToken request) = None"
  shows "\<forall>h\<in>set (guarded_handlers E).
    h request response w = (Inr 0, request, refuse (env_json E) 401 msg_not_logged_in response, w)"
  using assms
  by (simp add: guarded_handlers_def getUserIdFromToken_def BlogCreate_handle_def BlogUpdate_handle_def
      BlogDelete_handle_def UserInfo_handle_def UserProfile_handle_def Let_def finish_def)

definition sample_env :: "jval \<Rightarrow> (jval, unit, mem) api_env" where
  "sample_env body =
     \<lparr>env_json = jval_lib\<lparr>parseFromStream := (\<lambda>s. Some body)\<rparr>, env_D = mem_driver, env_MD5 = toy_digest,
      env_HMAC = toy_hmac, env_jwt = sample_jwt, env_dao = sample_dao, env_rand = Some [1, 255],
      env_draws = [], env_clock = (\<lambda>k. 100 + int k)\<rparr>"

theorem no_token_no_effect_witness:
  "fst (BlogDelete_handle (sample_env JNull) (new_request 17 True) (new_response 17 True) sample_db) = Inr 0 \<and>
   p_status (response_of (BlogDelete_handle (sample_env JNull) (new_request 17 True) (new_response 17 True) sample_db)) = 401 \<and>
   world_of (BlogDelete_handle (sample_env JNull) (new_request 17 True) (new_response 17 True) sample_db) = sample_db"
proof -
  have "safeDecode (getCurrentToken (new_request 17 True)) = None" by code_simp
  from no_token_no_effect [OF this, of "sample_env JNull" "new_response 17 True" sample_db] show ?thesis
    by (simp add: guarded_handlers_def)
qed

text \<open>C12: with the token's user \<open>u\<close>, the update and delete servlets change no blog but one, live
  before, whose stored author is \<open>u\<close>; every other blog stays as it was, whatever the body says
  and however the call ends.\<close>

theorem blog_writes_owned:
  assumes laws: "mysql_laws (env_D E) view" and ok: "db_ok (view w)"
    and h: "h \<in> {BlogUpdate_handle E, BlogDelete_handle E}"
  shows "own_blog_step (getUserIdFromToken (getCurrentToken request)) (stored_blogs (view w))
    (stored_blogs (view (world_of (h request response w))))"
  using h BlogDelete_owned [OF laws ok] BlogUpdate_owned [OF laws ok] by auto

theorem blog_writes_owned_witness:
  "\<exists>w'. world_of (BlogDelete_handle (sample_env JNull) (with_token author_token ''id=2'') (new_response 17 True) sample_db) = w' \<and>
     map b_status (stored_blogs (mem_view sample_db)) = [1, 0] \<and>
     map b_status (stored_blogs (mem_view w')) = [1, 2] \<and>
     own_blog_step 7 (stored_blogs (mem_view sample_db)) (stored_blogs (mem_view w'))"
proof -
  let ?r = "with_token author_token ''id=2''"
  let ?w = "world_of (BlogDelete_handle (sample_env JNull) ?r (new_response 17 True) sample_db)"
  have laws: "mysql_laws (env_D (sample_env JNull)) mem_view" by (simp add: sample_env_def mem_laws)
  have u: "getUserIdFromToken (getCurrentToken ?r) = 7"
    by (simp add: getCurrentToken_with_token author_token_user)
  have "stol (fst (getParam ''id'' ''0'' ?r)) = Inr 2"
    unfolding getParam_with_token by code_simp
  then have w: "?w = snd (deleteBlog mem_driver sample_dao 100 2 7 sample_db)"
    by (simp add: BlogDelete_world logged_in_def u) (simp add: sample_env_def)
  have "map b_status (stored_blogs (mem_view sample_db)) = [1, 0]" by code_simp
  moreover have "map b_status (stored_blogs (mem_view ?w)) = [1, 2]" unfolding w by code_simp
  ultimately show ?thesis
    using blog_writes_owned [where view = mem_view and w = sample_db and request = ?r and response = "new_response 17 True"
        and h = "BlogDelete_handle (sample_env JNull)", OF laws sample_ok] u by simp
qed

text \<open>C11: a forged token is as good as a real one. Whoever writes the user id \<open>u\<close> of an author into
  claims of his own, signs them with nothing, and sends them to the delete servlet, has the
  server run \<open>deleteBlog\<close> on behalf of \<open>u\<close>, at any time and under any keys, though
  \<open>verifyToken\<close> rejects that very token.\<close>

theorem forged_token_deletes:
  assumes "claims_plain c" and "c_user_id c \<noteq> 0"
    and sig: "CHR ''.'' \<notin> set sig"
      "\<forall>key\<in>{current_secret (env_jwt E), previous_secret (env_jwt E)}.
        hmacSha256 (env_HMAC E) key (signing_input c) \<noteq> Inr sig"
    and "req_getHeader request ''Authorization'' [] = ''Bearer '' @ unsigned c sig"
    and "stol (fst (getParam ''id'' ''0'' request)) = Inr i" and "i \<noteq> 0"
  shows "world_of (BlogDelete_handle E request response w) =
      snd (deleteBlog (env_D E) (env_dao E) (env_clock E 0) i (c_user_id c) w) \<and>
    (\<forall>B now s c' s'. verifyToken (env_HMAC E) (env_jwt E) B now (unsigned c sig) empty_claims s \<noteq> Inr (True, c', s'))"
proof -
  have "getUserIdFromToken (getCurrentToken request) = c_user_id c"
    using getCurrentToken_bearer [OF assms(5)] safeDecode_unsigned [OF assms(1)]
    by (simp add: getUserIdFromToken_def)
  then show ?thesis
    using assms(2,6,7) by (simp add: BlogDelete_world logged_in_def)
      (unfold unsigned_def, intro allI, rule verifyToken_unsigned [OF sig])
qed

theorem forged_token_deletes_witness:
  "map b_status (stored_blogs (mem_view (world_of
     (BlogDelete_handle (sample_env JNull) (with_token author_token ''id=2'') (new_response 17 True) sample_db)))) = [1, 2]"
proof -
  let ?r = "with_token author_token ''id=2''" and ?E = "sample_env JNull"
  have c: "claims_plain sample_claims" "c_user_id sample_claims \<noteq> 0" "CHR ''.'' \<notin> set ''forged''"
    by code_simp+
  have k: "\<forall>key\<in>{current_secret (env_jwt ?E), previous_secret (env_jwt ?E)}.
      hmacSha256 (env_HMAC ?E) key (signing_input sample_claims) \<noteq> Inr ''forged''"
    by code_simp
  have h: "req_getHeader ?r ''Authorization'' [] = ''Bearer '' @ unsigned sample_claims ''forged''"
    by (simp add: req_getHeader_def map_get_def with_token_headers nocase.lt_irrefl author_token_def)
  have p: "stol (fst (getParam ''id'' ''0'' ?r)) = Inr 2" unfolding getParam_with_token by code_simp
  have u: "c_user_id sample_claims = 7" by (simp add: sample_claims_def)
  have "world_of (BlogDelete_handle ?E ?r (new_response 17 True) sample_db) =
      snd (deleteBlog (env_D ?E) (env_dao ?E) (env_clock ?E 0) 2 7 sample_db)"
    using forged_token_deletes [OF c k h p, of "new_response 17 True" sample_db, THEN conjunct1] u by simp
  moreover have "map b_status (stored_blogs (mem_view
      (snd (deleteBlog (env_D ?E) (env_dao ?E) (env_clock ?E 0) 2 7 sample_db)))) = [1, 2]"
    by code_simp
  ultimately show ?thesis by simp
qed

definition first_number :: "(string \<times> string) list" where
  "first_number = [(''/api/blogs'', ''page''), (''/api/blogs/user'', ''page''), (''/api/blogs/detail'', ''id'')]"


definition number_lib :: "nat parser_lib" where
  "number_lib = sample_lib\<lparr>lib_parse_url :=
     (\<lambda>u. Some \<lparr>uf_path = Some ''/api/blogs'', uf_query = Some ''page=x'', uf_fragment = None\<rparr>)\<rparr>"



definition login_body :: jval where
  "login_body = JObj [(''username'', JStr ''eve''), (''password'', JStr ''secret'')]"

definition eve_db :: mem where
  "eve_db = snd (registerUser mem_driver toy_digest sample_udao 50 ''eve'' ''secret'' [] [] sample_udb)"


text \<open>The create servlet answers 200 with the message of success when nothing was created: a title
  or content that is present but empty, or a missing data access object, gives the JSON of an
  empty blog with id 0, and the database is as before.\<close>

theorem create_reports_success:
  assumes "logged_in request" and "JsonUtil_parse (env_json E) (r_body request) = Some json"
    and "isMember (env_json E) json ''title'' = Inr True" and "isMember (env_json E) json ''content'' = Inr True"
    and "blog_fromJson (env_json E) (env_clock E 0) json = Inr b"
    and "env_dao E = None \<or> b_title b = [] \<or> b_content b = []"
  shows "BlogCreate_handle E request response w =
    (Inr 0, request, reply (env_json E) 200 msg_created (blog_toJson (env_json E) new_blog) response, w)"
proof -
  have "createBlog (env_D E) (env_dao E) now (with_summary (b\<lparr>b_author_id := u, b_author_name := n\<rparr>)) w = (new_blog, w)"
    for now u n
    using assms(6) by (auto simp: createBlog_def with_summary_def split: option.split)
  then show ?thesis
    using assms by (simp add: BlogCreate_handle_def logged_in_def Let_def finish_def)
qed

definition empty_title :: jval where
  "empty_title = JObj [(''title'', JStr []), (''content'', JStr ''text'')]"

theorem create_reports_success_witness:
  "p_status (response_of (BlogCreate_handle (sample_env empty_title)
     ((with_token author_token [])\<lparr>r_body := ''{}''\<rparr>) (new_response 17 True) sample_db)) = 200 \<and>
   world_of (BlogCreate_handle (sample_env empty_title)
     ((with_token author_token [])\<lparr>r_body := ''{}''\<rparr>) (new_response 17 True) sample_db) = sample_db"
proof -
  let ?E = "sample_env empty_title" and ?r = "(with_token author_token [])\<lparr>r_body := ''{}''\<rparr>"
  have "req_getHeader ?r ''Authorization'' [] = ''Bearer '' @ author_token"
    by (simp add: req_getHeader_def map_get_def with_token_headers nocase.lt_irrefl)
  then have l: "logged_in ?r" by (simp add: logged_in_def getCurrentToken_bearer author_token_user)
  have m: "JsonUtil_parse (env_json ?E) (r_body ?r) = Some empty_title"
    by (simp add: JsonUtil_parse_def sample_env_def)
  have t: "isMember (env_json ?E) empty_title ''title'' = Inr True"
    "isMember (env_json ?E) empty_title ''content'' = Inr True" by code_simp+
  have b: "blog_fromJson (env_json ?E) (env_clock ?E 0) empty_title =
      Inr (new_blog\<lparr>b_content := ''text'', b_created_at := 100, b_updated_at := 100\<rparr>)" by code_simp
  have "env_dao ?E = None \<or> b_title (new_blog\<lparr>b_content := ''text'', b_created_at := 100, b_updated_at := 100\<rparr>) = [] \<or>
      b_content (new_blog\<lparr>b_content := ''text'', b_created_at := 100, b_updated_at := 100\<rparr>) = []"
    by (simp add: new_blog_def)
  then have "BlogCreate_handle ?E ?r (new_response 17 True) sample_db = (Inr 0, ?r,
      reply (env_json ?E) 200 msg_created (blog_toJson (env_json ?E) new_blog) (new_response 17 True), sample_db)"
    by (rule create_reports_success [OF l m t b])
  then show ?thesis by (simp add: new_response_def)
qed

text \<open>Editing a profile erases what the request does not mention: with a body that gives a nickname
  only, the mail address, the avatar and the biography of the stored user become empty.\<close>

theorem profile_erases:
  assumes laws: "mysql_laws (env_D E) view" and ok: "db_ok (view w)" and json: "json_laws (env_json E) obj"
    and "logged_in request" and "JsonUtil_parse (env_json E) (r_body request) = Some j"
    and "obj j = Some [''nickname'' \<mapsto> jstr (env_json E) nick]"
  shows "user_step (i32_of (getUserIdFromToken (getCurrentToken request)))
    (\<lambda>x. x\<lparr>u_nickname := nick, u_email := [], u_avatar := [], u_bio := [], u_updated_at := env_clock E 0\<rparr>)
    (stored_users (view w)) (stored_users (view (world_of (UserProfile_handle E request response w))))"
proof -
  let ?J = "env_json E" and ?i = "getUserIdFromToken (getCurrentToken request)"
    and ?n = "getUsernameFromToken (getCurrentToken request)"
  let ?u = "new_user\<lparr>u_id := ?i, u_username := ?n, u_nickname := nick\<rparr>"
  have set: "set_if_member ?J j ''nickname'' (asString ?J) f x = Inr (f nick x)" for f and x :: user
    by (rule set_if_member_present [OF json assms(6), where v = "jstr ?J nick"]) (simp, rule json_lawsD(7) [OF json])
  have unset: "set_if_member ?J j key (asString ?J) f x = Inr x" if "key \<noteq> ''nickname''" for key f and x :: user
    by (rule set_if_member_absent [OF json assms(6)]) (use that in simp)
  have p: "profile_of_json ?J ?i ?n j = Inr ?u"
    by (simp add: profile_of_json_def set unset)
  obtain r w' where u: "updateUser (env_D E) (env_dao E) (env_clock E 0) ?u w = (r, w')" by fastforce
  have "world_of (UserProfile_handle E request response w) = w'"
    using assms(4,5) p u by (simp add: UserProfile_handle_def logged_in_def Let_def)
  then show ?thesis using updateUser_outcome [OF laws ok u] by (simp add: new_user_def)
qed

definition nickname_only :: jval where
  "nickname_only = JObj [(''nickname'', JStr ''neo'')]"

definition ann_token :: string where
  "ann_token = unsigned (sample_claims\<lparr>c_user_id := 1\<rparr>) ''forged''"

theorem profile_erases_witness:
  "user_step 1 (\<lambda>x. x\<lparr>u_nickname := ''neo'', u_email := [], u_avatar := [], u_bio := [], u_updated_at := 100\<rparr>)
    (stored_users (mem_view sample_udb)) (stored_users (mem_view (world_of (UserProfile_handle (sample_env nickname_only)
      ((with_token ann_token [])\<lparr>r_body := ''{}''\<rparr>) (new_response 17 True) sample_udb))))"
proof -
  let ?E = "sample_env nickname_only" and ?q = "(with_token ann_token [])\<lparr>r_body := ''{}''\<rparr>"
  have laws: "mysql_laws (env_D ?E) mem_view" by (simp add: sample_env_def mem_laws)
  have json: "json_laws (env_json ?E) jval_obj"
    using jval_lib_laws by (simp add: sample_env_def json_laws_def)
  have "claims_plain (sample_claims\<lparr>c_user_id := 1\<rparr>)" by code_simp
  then have "getUserIdFromToken ann_token = 1"
    by (simp add: ann_token_def getUserIdFromToken_def safeDecode_unsigned)
  moreover have "req_getHeader ?q ''Authorization'' [] = ''Bearer '' @ ann_token"
    by (simp add: req_getHeader_def map_get_def with_token_headers nocase.lt_irrefl)
  ultimately have u: "getUserIdFromToken (getCurrentToken ?q) = 1" by (simp add: getCurrentToken_bearer)
  then have l: "logged_in ?q" by (simp add: logged_in_def)
  have j: "JsonUtil_parse (env_json ?E) (r_body ?q) = Some nickname_only"
    by (simp add: JsonUtil_parse_def sample_env_def)
  have o: "jval_obj nickname_only = Some [''nickname'' \<mapsto> jstr (env_json ?E) ''neo'']"
    by (simp add: nickname_only_def sample_env_def jval_lib_def fun_eq_iff)
  have i: "i32_of 1 = 1" by code_simp
  from profile_erases [where view = mem_view and w = sample_udb, OF laws sample_udb_ok json l j o, of "new_response 17 True"] u i
  show ?thesis by (simp add: sample_env_def)
qed

text \<open>The detail servlet needs no token. For an id it either answers 404 and leaves the blogs as they
  are, or serves a stored blog of that id that is not deleted, a draft as well as a published one,
  and adds one view to that blog at most.\<close>

theorem detail_serves_anyone:
  assumes laws: "mysql_laws (env_D E) view" and ok: "db_ok (view w)"
    and param: "stol (fst (getParam ''id'' ''0'' request)) = Inr i" and "i \<noteq> 0"
    and out: "out = BlogDetail_handle E request response w"
  shows "response_of out = refuse (env_json E) 404 msg_no_blog response \<and>
      stored_blogs (view (world_of out)) = stored_blogs (view w) \<or>
    (\<exists>b\<in>set (stored_blogs (view w)). b_id b = i \<and> live_blog b \<and>
      response_of out = reply (env_json E) 200 ''success'' (blog_toJson (env_json E) b) response \<and>
      blog_step i (\<lambda>b. b\<lparr>b_view_count := b_view_count b + 1, b_updated_at := env_clock E 0\<rparr>)
        (stored_blogs (view w)) (stored_blogs (view (world_of out))))"
proof -
  obtain b w1 where g: "getBlog (env_D E) (env_dao E) i w = (b, w1)" by fastforce
  note found = getBlog_outcome [OF laws ok g]
  show ?thesis
  proof (cases "b_id b = 0")
    case True
    then show ?thesis using g found assms(4) param by (simp add: out BlogDetail_handle_def Let_def int_param_eq)
  next
    case False
    obtain q w2 where v: "increaseViewCount (env_D E) (env_dao E) (env_clock E 0) i w1 = (q, w2)" by fastforce
    have "db_ok (view w1)" using found ok by simp
    from increaseViewCount_step [OF laws this v] False g found assms(4) param v show ?thesis
      by (auto simp: out BlogDetail_handle_def Let_def int_param_eq)
  qed
qed

theorem detail_serves_anyone_witness:
  "map b_view_count (stored_blogs (mem_view (world_of (BlogDetail_handle (sample_env JNull) (with_token [] ''id=2'')
     (new_response 17 True) sample_db)))) = [4, 1] \<and>
   (\<exists>b\<in>set (stored_blogs (mem_view sample_db)). b_id b = 2 \<and> b_status b = STATUS_DRAFT \<and>
     response_of (BlogDetail_handle (sample_env JNull) (with_token [] ''id=2'') (new_response 17 True) sample_db) =
       reply (env_json (sample_env JNull)) 200 ''success'' (blog_toJson (env_json (sample_env JNull)) b) (new_response 17 True))"
proof -
  let ?E = "sample_env JNull" and ?q = "with_token [] ''id=2''"
  let ?out = "BlogDetail_handle ?E ?q (new_response 17 True) sample_db"
  have laws: "mysql_laws (env_D ?E) mem_view" by (simp add: sample_env_def mem_laws)
  have p: "stol (fst (getParam ''id'' ''0'' ?q)) = Inr 2" unfolding getParam_with_token by code_simp
  have v: "map b_view_count (stored_blogs (mem_view (world_of ?out))) = [4, 1]" by code_simp
  have "map b_view_count (stored_blogs (mem_view sample_db)) = [4, 0]" by code_simp
  with v have "stored_blogs (mem_view (world_of ?out)) \<noteq> stored_blogs (mem_view sample_db)" by auto
  moreover have "b_status b = STATUS_DRAFT" if "b \<in> set (stored_blogs (mem_view sample_db))" "b_id b = 2" for b
  proof -
    have "list_all (\<lambda>b. b_id b = 2 \<longrightarrow> b_status b = STATUS_DRAFT) (stored_blogs (mem_view sample_db))" by code_simp
    with that show ?thesis by (auto simp: list_all_iff)
  qed
  ultimately show ?thesis
    using detail_serves_anyone [where view = mem_view and w = sample_db, OF laws sample_ok p _ refl, of "new_response 17 True"] v
    by auto
qed

end
