(* ===== verification/Pool.thy ===== *)
theory Pool
  imports Prelude
begin

text \<open>
  Several callers of one connection pool. \<open>interleave step\<close> lets any one of them take a step, in any
  order; a connection is named by a number, \<open>fresh p\<close> is the next name not used yet. The
  interface \<open>handout\<close> is what a pool must promise of a single step, whoever takes it, so that no
  connection is ever in two hands; both pools of the sources provide it.
\<close>

inductive interleave ::
    "('p \<Rightarrow> 't \<Rightarrow> 'p \<Rightarrow> 't \<Rightarrow> bool) \<Rightarrow> 'p \<times> 't list \<Rightarrow> 'p \<times> 't list \<Rightarrow> bool" for step where
  turn: "step p t p' t' \<Longrightarrow> interleave step (p, xs @ t # ys) (p', xs @ t' # ys)"

inductive reachable ::
    "('p \<Rightarrow> 't \<Rightarrow> 'p \<Rightarrow> 't \<Rightarrow> bool) \<Rightarrow> 'p \<times> 't list \<Rightarrow> 'p \<times> 't list \<Rightarrow> bool" for step where
  start: "reachable step s s"
| more: "reachable step s s' \<Longrightarrow> interleave step s' s'' \<Longrightarrow> reachable step s s''"

inductive_cases interleaveE: "interleave step s s'"

lemma reachable_one: "interleave step s s' \<Longrightarrow> reachable step s s'"
  by (rule reachable.more [OF reachable.start])

lemma reachable_turn:
  "reachable step s (p, xs @ t # ys) \<Longrightarrow> step p t p' t' \<Longrightarrow> reachable step s (p', xs @ t' # ys)"
  by (rule reachable.more [OF _ interleave.turn])

lemma reachable_length: "reachable step s s' \<Longrightarrow> length (snd s') = length (snd s)"
  by (induction rule: reachable.induct) (auto elim: interleaveE)

text \<open>A schedule names the caller that moves next; \<open>mv a\<close> is the move it makes.\<close>

fun play :: "('a \<Rightarrow> 'p \<Rightarrow> 't \<Rightarrow> 'p \<times> 't) \<Rightarrow> (nat \<times> 'a) list \<Rightarrow> 'p \<times> 't list \<Rightarrow> 'p \<times> 't list" where
  "play mv [] s = s"
| "play mv ((i, a) # es) (p, ts) = (case mv a p (ts ! i) of (p', t') \<Rightarrow> play mv es (p', ts[i := t']))"

lemma play_reachable:
  assumes move: "\<And>a p t. step p t (fst (mv a p t)) (snd (mv a p t))"
  shows "list_all (\<lambda>e. fst e < length ts) es \<Longrightarrow> reachable step s (p, ts) \<Longrightarrow> reachable step s (play mv es (p, ts))"
proof (induction es arbitrary: p ts)
  case (Cons e es)
  obtain i a where e: "e = (i, a)" by fastforce
  obtain p' t' where m: "mv a p (ts ! i) = (p', t')" by fastforce
  have i: "i < length ts" using Cons.prems(1) e by simp
  have "step p (ts ! i) p' t'" using move [of p "ts ! i" a] m by simp
  then have "reachable step s (p', ts[i := t'])"
    using reachable_turn [of step s p "take i ts" "ts ! i" "drop (Suc i) ts"] Cons.prems(2)
    by (metis id_take_nth_drop [OF i] upd_conv_take_nth_drop [OF i])
  with Cons.IH [of "ts[i := t']" p'] Cons.prems(1) m e show ?case by simp
qed simp

locale handout =
  fixes step :: "'p \<Rightarrow> 't \<Rightarrow> 'p \<Rightarrow> 't \<Rightarrow> bool"
    and idle :: "'p \<Rightarrow> nat list"
    and own :: "'t \<Rightarrow> nat list"
    and fresh :: "'p \<Rightarrow> nat"
  assumes fresh_mono: "step p t p' t' \<Longrightarrow> fresh p \<le> fresh p'"
    and conns: "step p t p' t' \<Longrightarrow> set (idle p') \<union> set (own t') \<subseteq> set (idle p) \<union> set (own t) \<union> {fresh p..<fresh p'}"
    and apart: "step p t p' t' \<Longrightarrow> distinct (idle p @ own t) \<Longrightarrow>
      \<forall>c\<in>set (idle p) \<union> set (own t). c < fresh p \<Longrightarrow> distinct (idle p' @ own t')"
begin

definition exclusive :: "'p \<times> 't list \<Rightarrow> bool" where
  "exclusive s \<longleftrightarrow> distinct (idle (fst s) @ concat (map own (snd s))) \<and>
     (\<forall>c\<in>set (idle (fst s)) \<union> set (concat (map own (snd s))). c < fresh (fst s))"

lemma exclusive_split:
  "exclusive (p, xs @ t # ys) \<longleftrightarrow>
     distinct (idle p @ own t) \<and> (\<forall>c\<in>set (idle p) \<union> set (own t). c < fresh p) \<and>
     distinct (concat (map own xs) @ concat (map own ys)) \<and>
     (\<forall>c\<in>set (concat (map own xs)) \<union> set (concat (map own ys)). c < fresh p) \<and>
     (set (idle p) \<union> set (own t)) \<inter> (set (concat (map own xs)) \<union> set (concat (map own ys))) = {}"
  by (auto simp: exclusive_def)

lemma exclusive_step:
  assumes "interleave step s s'" and "exclusive s"
  shows "exclusive s'"
  using assms
proof cases
  case (turn p t p' t' xs ys)
  note old = assms(2) [unfolded turn(1) exclusive_split]
  note c = conns [OF turn(3)] and m = fresh_mono [OF turn(3)]
  let ?rest = "set (concat (map own xs)) \<union> set (concat (map own ys))"
  have below: "\<forall>c\<in>?rest. c < fresh p" and off: "(set (idle p) \<union> set (own t)) \<inter> ?rest = {}"
    and here: "\<forall>c\<in>set (idle p) \<union> set (own t). c < fresh p"
    using old by auto
  have "distinct (idle p' @ own t')" using apart [OF turn(3)] old by auto
  moreover have new: "x \<in> set (idle p) \<union> set (own t) \<or> fresh p \<le> x \<and> x < fresh p'"
    if "x \<in> set (idle p') \<union> set (own t')" for x
    using subsetD [OF c that] by auto
  then have "\<forall>c\<in>set (idle p') \<union> set (own t'). c < fresh p'"
    using here m by (meson less_le_trans)
  moreover have "\<forall>c\<in>?rest. c < fresh p'" using below m by (meson less_le_trans)
  moreover have "(set (idle p') \<union> set (own t')) \<inter> ?rest = {}"
    using new off below by (meson disjoint_iff not_le)
  ultimately show ?thesis using old unfolding turn(2) exclusive_split by blast
qed

lemma exclusive_reachable: "reachable step s s' \<Longrightarrow> exclusive s \<Longrightarrow> exclusive s'"
  by (induction rule: reachable.induct) (auto intro: exclusive_step)

text \<open>Two callers never own the same connection, and what a caller owns is not idle.\<close>

lemma exclusive_owners:
  assumes "exclusive (p, ts)" and "i < length ts" and "j < length ts" and "i \<noteq> j"
  shows "set (own (ts ! i)) \<inter> set (own (ts ! j)) = {}"
  using assms
proof (induction i j rule: linorder_wlog)
  case (le i j)
  let ?xs = "take i ts" and ?ys = "drop (Suc i) ts"
  have ts: "ts = ?xs @ ts ! i # ?ys" using le.prems(2) by (rule id_take_nth_drop)
  have "own (ts ! j) \<in> set (map own ?ys)"
    using le by (auto simp: set_conv_nth intro!: image_eqI [of _ _ "ts ! j"] exI [of _ "j - Suc i"])
  then have "set (own (ts ! j)) \<subseteq> set (concat (map own ?ys))" by auto
  moreover have "exclusive (p, ?xs @ ts ! i # ?ys)" using le.prems(1) ts by metis
  ultimately show ?case unfolding exclusive_split by blast
qed (auto simp: Int_commute)

lemma exclusive_idle:
  "exclusive (p, ts) \<Longrightarrow> t \<in> set ts \<Longrightarrow> set (idle p) \<inter> set (own t) = {}"
  by (auto simp: exclusive_def)

end

end
