(* ===== verification/MysqlPool.thy ===== *)
theory MysqlPool
  imports Pool CryptoUtil
begin

text \<open>
  \<open>MySQLConnectionPool\<close>, \<open>MySQLStatementCache\<close> and \<open>MySQLManager\<close> of
  \<^verbatim>\<open>sylar/db/mysql_connector.cc\<close>. \<open>getConnection\<close> takes and gives up the pool's lock several times:
  it is a program counter whose steps are the stretches under one lock and the blocking calls
  between them, so that other callers run in between. The outcome of a blocking call (connect,
  reconnect) is the argument \<open>ok\<close> of the step.
\<close>

section \<open>The pool\<close>

text \<open>\<open>mp_closed c\<close> is what \<^verbatim>\<open>c->isClosed()\<close> answers.\<close>

record mysql_pool =
  mp_idle :: "nat list"
  mp_active :: "nat list"
  mp_closed :: "nat \<Rightarrow> bool"
  mp_fresh :: nat
  mp_max :: nat
  mp_min :: nat
  mp_running :: bool

text \<open>\<open>createConnection\<close>, which only the constructor calls, without a lock.\<close>

definition mysql_createConnection :: "bool \<Rightarrow> mysql_pool \<Rightarrow> bool \<times> mysql_pool" where
  "mysql_createConnection ok P =
     (let c = mp_fresh P; P = P\<lparr>mp_fresh := c + 1\<rparr>
      in if ok then (True, P\<lparr>mp_idle := mp_idle P @ [c], mp_closed := (mp_closed P)(c := False)\<rparr>)
         else (False, P))"

text \<open>The constructor: one attempt for each connection of the minimum, failures are logged.\<close>

definition new_mysql_pool :: "nat \<Rightarrow> nat \<Rightarrow> (nat \<Rightarrow> bool) \<Rightarrow> mysql_pool" where
  "new_mysql_pool maxc minc ok =
     foldl (\<lambda>P i. snd (mysql_createConnection (ok i) P))
       \<lparr>mp_idle = [], mp_active = [], mp_closed = (\<lambda>_. True), mp_fresh = 0, mp_max = maxc, mp_min = minc,
        mp_running = True\<rparr> [0..<minc]"

text \<open>
  A caller: outside the pool, somewhere in \<open>getConnection\<close>, at its end with a null pointer, or
  holding a connection. \<open>MTake\<close> stands before the first write lock, \<open>MCheck\<close> has popped a connection and tests
  it without a lock, \<open>MPush\<close> is about to list it as active; \<open>MCount\<close> and \<open>MReserve\<close> are the two tests of the
  limit, \<open>MConnect\<close> connects without a lock, \<open>MPushNew\<close> is about to list the new connection.
\<close>

datatype mysql_caller =
    MFree | MStart | MTake | MCheck nat | MPush nat | MCount | MReserve | MConnect nat | MPushNew nat
  | MNull | MHold nat

definition mp_total :: "mysql_pool \<Rightarrow> nat" where
  "mp_total P = length (mp_active P) + length (mp_idle P)"

fun mysql_getConnection :: "bool \<Rightarrow> mysql_pool \<Rightarrow> mysql_caller \<Rightarrow> mysql_pool \<times> mysql_caller" where
  "mysql_getConnection ok P MStart = (P, if mp_idle P \<noteq> [] then MTake else MCount)"
| "mysql_getConnection ok P MTake =
     (if mp_idle P \<noteq> [] then (P\<lparr>mp_idle := butlast (mp_idle P)\<rparr>, MCheck (last (mp_idle P)))
      else (P, MCount))"
| "mysql_getConnection ok P (MCheck c) =
     (if mp_closed P c then
        (if ok then (P\<lparr>mp_closed := (mp_closed P)(c := False)\<rparr>, MPush c) else (P, MNull))
      else (P, MPush c))"
| "mysql_getConnection ok P (MPush c) = (P\<lparr>mp_active := mp_active P @ [c]\<rparr>, MHold c)"
| "mysql_getConnection ok P MCount = (P, if mp_total P < mp_max P then MReserve else MNull)"
| "mysql_getConnection ok P MReserve =
     (if mp_total P < mp_max P then (P\<lparr>mp_fresh := mp_fresh P + 1\<rparr>, MConnect (mp_fresh P)) else (P, MNull))"
| "mysql_getConnection ok P (MConnect c) =
     (if ok then (P\<lparr>mp_closed := (mp_closed P)(c := False)\<rparr>, MPushNew c) else (P, MNull))"
| "mysql_getConnection ok P (MPushNew c) = (P\<lparr>mp_active := mp_active P @ [c]\<rparr>, MHold c)"
| "mysql_getConnection ok P t = (P, t)"

definition mysql_returnConnection :: "nat \<Rightarrow> mysql_pool \<Rightarrow> mysql_pool" where
  "mysql_returnConnection c P =
     (let P = P\<lparr>mp_active := remove1 c (mp_active P)\<rparr>
      in if \<not> mp_closed P c \<and> length (mp_idle P) < mp_max P then P\<lparr>mp_idle := mp_idle P @ [c]\<rparr>
         else P\<lparr>mp_closed := (mp_closed P)(c := True)\<rparr>)"

definition close_conns :: "nat list \<Rightarrow> mysql_pool \<Rightarrow> mysql_pool" where
  "close_conns cs P = P\<lparr>mp_closed := (\<lambda>c. c \<in> set cs \<or> mp_closed P c)\<rparr>"

definition mysql_closeAll :: "mysql_pool \<Rightarrow> mysql_pool" where
  "mysql_closeAll P =
     (close_conns (mp_active P @ mp_idle P) (P\<lparr>mp_running := False\<rparr>))\<lparr>mp_active := [], mp_idle := []\<rparr>"

definition mysql_cleanupIdleConnections :: "mysql_pool \<Rightarrow> mysql_pool" where
  "mysql_cleanupIdleConnections P =
     (if \<not> mp_running P then P
      else let n = length (mp_idle P) - mp_min P
           in (close_conns (take n (mp_idle P)) P)\<lparr>mp_idle := drop n (mp_idle P)\<rparr>)"

definition mysql_getActiveCount :: "mysql_pool \<Rightarrow> nat" where
  "mysql_getActiveCount P = length (mp_active P)"

definition mysql_getIdleCount :: "mysql_pool \<Rightarrow> nat" where
  "mysql_getIdleCount P = length (mp_idle P)"

definition mysql_getTotalCount :: "mysql_pool \<Rightarrow> nat" where
  "mysql_getTotalCount P = length (mp_active P) + length (mp_idle P)"

text \<open>What can happen next to a caller and the pool, the timer and the server's closing a
  connection included. A caller gives back what it holds, once.\<close>

inductive mysql_step :: "mysql_pool \<Rightarrow> mysql_caller \<Rightarrow> mysql_pool \<Rightarrow> mysql_caller \<Rightarrow> bool" where
  call: "mysql_step P MFree P MStart"
| get: "mysql_getConnection ok P t = (P', t') \<Longrightarrow> mysql_step P t P' t'"
| null: "mysql_step P MNull P MFree"
| give: "mysql_step P (MHold c) (mysql_returnConnection c P) MFree"
| cleanup: "mysql_step P t (mysql_cleanupIdleConnections P) t"
| closeAll: "mysql_step P t (mysql_closeAll P) t"
| drop: "mysql_step P t (P\<lparr>mp_closed := (mp_closed P)(c := True)\<rparr>) t"

inductive_cases mysql_stepE: "mysql_step P t P' t'"

fun mysql_own :: "mysql_caller \<Rightarrow> nat list" where
  "mysql_own (MCheck c) = [c]"
| "mysql_own (MPush c) = [c]"
| "mysql_own (MConnect c) = [c]"
| "mysql_own (MPushNew c) = [c]"
| "mysql_own (MHold c) = [c]"
| "mysql_own _ = []"

lemmas mysql_pool_defs = mysql_returnConnection_def mysql_cleanupIdleConnections_def mysql_closeAll_def
  close_conns_def Let_def

lemma mysql_get_conns:
  assumes "mysql_getConnection ok P t = (P', t')"
  shows "mp_fresh P \<le> mp_fresh P' \<and>
    set (mp_idle P') \<union> set (mysql_own t') \<subseteq> set (mp_idle P) \<union> set (mysql_own t) \<union> {mp_fresh P..<mp_fresh P'} \<and>
    (distinct (mp_idle P @ mysql_own t) \<longrightarrow> (\<forall>c\<in>set (mp_idle P) \<union> set (mysql_own t). c < mp_fresh P) \<longrightarrow>
      distinct (mp_idle P' @ mysql_own t'))"
proof (cases t)
  case MTake
  show ?thesis
  proof (cases "mp_idle P" rule: rev_cases)
    case Nil
    with assms MTake show ?thesis by auto
  next
    case (snoc cs c)
    with assms MTake show ?thesis by auto
  qed
qed (use assms in \<open>auto split: if_splits\<close>)

lemma mysql_step_conns:
  assumes "mysql_step P t P' t'"
  shows "mp_fresh P \<le> mp_fresh P' \<and>
    set (mp_idle P') \<union> set (mysql_own t') \<subseteq> set (mp_idle P) \<union> set (mysql_own t) \<union> {mp_fresh P..<mp_fresh P'} \<and>
    (distinct (mp_idle P @ mysql_own t) \<longrightarrow> (\<forall>c\<in>set (mp_idle P) \<union> set (mysql_own t). c < mp_fresh P) \<longrightarrow>
      distinct (mp_idle P' @ mysql_own t'))"
  using assms
proof cases
  case cleanup
  then show ?thesis by (auto simp: mysql_pool_defs dest: in_set_dropD in_set_takeD)
next
  case (get ok)
  from mysql_get_conns [OF this] show ?thesis .
qed (auto simp: mysql_pool_defs)

interpretation mysql: handout mysql_step mp_idle mysql_own mp_fresh
  by unfold_locales (use mysql_step_conns in blast)+

section \<open>The limit\<close>

text \<open>Callers with a connection that no list counts.\<close>

fun in_flight :: "mysql_caller \<Rightarrow> nat" where
  "in_flight (MCheck c) = 1"
| "in_flight (MPush c) = 1"
| "in_flight (MConnect c) = 1"
| "in_flight (MPushNew c) = 1"
| "in_flight _ = 0"

lemma in_flight_le: "in_flight t \<le> 1"
  by (cases t) simp_all

lemma sum_in_flight_le: "sum_list (map in_flight ts) \<le> length ts"
proof (induction ts)
  case (Cons t ts)
  then show ?case using in_flight_le [of t] by simp
qed simp

text \<open>A held connection is listed as active, or was closed.\<close>

definition accounted :: "mysql_pool \<Rightarrow> mysql_caller \<Rightarrow> bool" where
  "accounted P t \<longleftrightarrow> (\<forall>c. t = MHold c \<longrightarrow> c \<in> set (mp_active P) \<or> mp_closed P c)"

definition within_limit :: "mysql_pool \<times> mysql_caller list \<Rightarrow> bool" where
  "within_limit s \<longleftrightarrow> mysql.exclusive s \<and> (\<forall>t\<in>set (snd s). accounted (fst s) t) \<and>
     mp_total (fst s) + sum_list (map in_flight (snd s)) \<le> mp_max (fst s) + (length (snd s) - 1)"

text \<open>What a step of one caller does to the count, and to what other callers hold.\<close>

lemma mysql_step_count:
  assumes "mysql_step P t P' t'" and "accounted P t"
    and room: "rest \<le> n" and "mp_total P + in_flight t + rest \<le> mp_max P + n"
  shows "mp_total P' + in_flight t' + rest \<le> mp_max P' + n \<and> accounted P' t'"
  using assms(1)
proof cases
  case (get ok)
  show ?thesis
  proof (cases t)
    case MTake
    then show ?thesis using get assms(4)
      by (cases "mp_idle P" rule: rev_cases) (auto simp: mp_total_def accounted_def)
  next
    case MReserve
    then show ?thesis using get assms(4) room by (auto simp: mp_total_def accounted_def split: if_splits)
  qed (use get assms(2,4) in \<open>auto simp: mp_total_def accounted_def split: if_splits\<close>)
next
  case (give c)
  have "c \<in> set (mp_active P) \<Longrightarrow> Suc (length (remove1 c (mp_active P))) = length (mp_active P)"
    by (metis One_nat_def Suc_pred length_pos_if_in_set length_remove1)
  moreover have "length (remove1 c (mp_active P)) \<le> length (mp_active P)" by (simp add: length_remove1)
  moreover have "c \<in> set (mp_active P) \<or> mp_closed P c" using assms(2) give(1) by (simp add: accounted_def)
  ultimately show ?thesis using assms(4) give
    by (auto simp: mp_total_def accounted_def mysql_pool_defs)
qed (use assms(2,4) in \<open>auto simp: mp_total_def accounted_def mysql_pool_defs\<close>)

lemma mysql_step_others:
  assumes "mysql_step P t P' t'" and "accounted P u" and "set (mysql_own t) \<inter> set (mysql_own u) = {}"
    and "\<forall>c\<in>set (mysql_own u). c < mp_fresh P"
  shows "accounted P' u"
  using assms(1)
proof cases
  case (get ok)
  then show ?thesis using assms(2-4)
    by (cases t) (auto simp: accounted_def split: if_splits)
next
  case (give c)
  then show ?thesis using assms(2,3)
    by (auto simp: accounted_def mysql_pool_defs in_set_remove1)
qed (use assms(2) in \<open>auto simp: accounted_def mysql_pool_defs\<close>)

lemma within_limit_step:
  assumes "interleave mysql_step s s'" and "within_limit s"
  shows "within_limit s'"
  using assms
proof cases
  case (turn P t P' t' xs ys)
  let ?rest = "sum_list (map in_flight xs) + sum_list (map in_flight ys)"
  note old = assms(2) [unfolded within_limit_def turn(1) fst_conv snd_conv]
  have "mysql.exclusive s'" using mysql.exclusive_step [OF assms(1)] assms(2) by (simp add: within_limit_def)
  moreover have "?rest \<le> length xs + length ys"
    using sum_in_flight_le [of xs] sum_in_flight_le [of ys] by simp
  then have "mp_total P' + in_flight t' + ?rest \<le> mp_max P' + (length xs + length ys) \<and> accounted P' t'"
    using mysql_step_count [OF turn(3), of ?rest "length xs + length ys"] old by simp
  moreover have "accounted P' u" if u: "u \<in> set xs \<union> set ys" for u
  proof (rule mysql_step_others [OF turn(3)])
    show "accounted P u" using old u by auto
    have e: "mysql.exclusive (P, xs @ t # ys)" using old by blast
    show "set (mysql_own t) \<inter> set (mysql_own u) = {}"
      using e [unfolded mysql.exclusive_split] u by fastforce
    show "\<forall>c\<in>set (mysql_own u). c < mp_fresh P"
      using e [unfolded mysql.exclusive_split] u by fastforce
  qed
  ultimately show ?thesis unfolding within_limit_def turn(2) by auto
qed

lemma within_limit_reachable: "reachable mysql_step s s' \<Longrightarrow> within_limit s \<Longrightarrow> within_limit s'"
  by (induction rule: reachable.induct) (auto intro: within_limit_step)

text \<open>The pool as the constructor leaves it, and the callers before their first call.\<close>

lemma create_loop:
  "distinct (mp_idle P) \<Longrightarrow> \<forall>c\<in>set (mp_idle P). c < mp_fresh P \<Longrightarrow>
   Q = foldl (\<lambda>P i. snd (mysql_createConnection (ok i) P)) P ks \<Longrightarrow>
   distinct (mp_idle Q) \<and> (\<forall>c\<in>set (mp_idle Q). c < mp_fresh Q) \<and>
     length (mp_idle Q) \<le> length (mp_idle P) + length ks \<and> mp_active Q = mp_active P \<and> mp_max Q = mp_max P"
proof (induction ks arbitrary: P)
  case (Cons i ks)
  let ?P = "snd (mysql_createConnection (ok i) P)"
  have "distinct (mp_idle ?P)" "\<forall>c\<in>set (mp_idle ?P). c < mp_fresh ?P"
    "length (mp_idle ?P) \<le> Suc (length (mp_idle P))" "mp_active ?P = mp_active P" "mp_max ?P = mp_max P"
    using Cons.prems(1,2) by (auto simp: mysql_createConnection_def Let_def)
  with Cons.IH [of ?P] Cons.prems(3) show ?case by simp
qed simp

lemma new_mysql_pool_state:
  "distinct (mp_idle (new_mysql_pool maxc minc ok)) \<and>
   (\<forall>c\<in>set (mp_idle (new_mysql_pool maxc minc ok)). c < mp_fresh (new_mysql_pool maxc minc ok)) \<and>
   length (mp_idle (new_mysql_pool maxc minc ok)) \<le> minc \<and> mp_active (new_mysql_pool maxc minc ok) = [] \<and>
   mp_max (new_mysql_pool maxc minc ok) = maxc"
  using create_loop [OF _ _ refl, where P = "\<lparr>mp_idle = [], mp_active = [], mp_closed = (\<lambda>_. True), mp_fresh = 0,
      mp_max = maxc, mp_min = minc, mp_running = True\<rparr>" and ok = ok and ks = "[0..<minc]"]
  unfolding new_mysql_pool_def by simp

lemma mysql_callers_start: "concat (map mysql_own (replicate n MFree)) = []" "sum_list (map in_flight (replicate n MFree)) = 0"
  by (induction n) simp_all

lemma new_mysql_pool_exclusive: "mysql.exclusive (new_mysql_pool maxc minc ok, replicate n MFree)"
  using new_mysql_pool_state [of maxc minc ok] by (simp add: mysql.exclusive_def mysql_callers_start)

lemma new_mysql_pool_within:
  "minc \<le> maxc \<Longrightarrow> within_limit (new_mysql_pool maxc minc ok, replicate n MFree)"
  using new_mysql_pool_state [of maxc minc ok] new_mysql_pool_exclusive [of maxc minc ok n]
  by (auto simp: within_limit_def accounted_def mysql_callers_start mp_total_def sum_list_replicate)

text \<open>How many steps of its own a call can still take.\<close>

fun mysql_left :: "mysql_caller \<Rightarrow> nat" where
  "mysql_left MStart = 6"
| "mysql_left MTake = 5"
| "mysql_left MCount = 4"
| "mysql_left MReserve = 3"
| "mysql_left (MConnect c) = 2"
| "mysql_left (MPushNew c) = 1"
| "mysql_left (MCheck c) = 2"
| "mysql_left (MPush c) = 1"
| "mysql_left _ = 0"

lemma mysql_left_less:
  "mysql_left t \<noteq> 0 \<Longrightarrow> mysql_left (snd (mysql_getConnection ok P t)) < mysql_left t"
  by (cases t) auto

text \<open>The call run against a pool that is a different one at every step.\<close>

primrec mysql_run :: "nat \<Rightarrow> (nat \<Rightarrow> bool) \<Rightarrow> (nat \<Rightarrow> mysql_pool) \<Rightarrow> mysql_caller \<Rightarrow> mysql_caller" where
  "mysql_run 0 ok P t = t"
| "mysql_run (Suc n) ok P t = snd (mysql_getConnection (ok n) (P n) (mysql_run n ok P t))"

lemma mysql_run_left: "mysql_left (mysql_run n ok P t) \<le> mysql_left t - n"
proof (induction n)
  case (Suc n)
  show ?case
  proof (cases "mysql_left (mysql_run n ok P t) = 0")
    case True
    then have "mysql_run (Suc n) ok P t = mysql_run n ok P t" by (cases "mysql_run n ok P t") simp_all
    with True show ?thesis by simp
  next
    case False
    then show ?thesis using mysql_left_less [OF False, of "ok n" "P n"] Suc by simp
  qed
qed simp

lemma mysql_run_not_free: "t \<noteq> MFree \<Longrightarrow> mysql_run n ok P t \<noteq> MFree"
proof (induction n)
  case (Suc n)
  then show ?case by (cases "mysql_run n ok P t") (auto split: if_splits)
qed simp

section \<open>The statement cache\<close>

text \<open>
  \<open>key conn sql\<close> is the pair of the connection's address and the digest of the text, under which
  the cache keeps the statements given back; \<open>prep\<close> is \<^verbatim>\<open>conn->prepareStatement(sql)\<close>.
\<close>

type_synonym 's stmt_cache = "nat \<times> string \<Rightarrow> 's list option"

definition cache_key :: "(string \<Rightarrow> nat list) \<Rightarrow> nat \<Rightarrow> string \<Rightarrow> nat \<times> string" where
  "cache_key MD5 conn sql = (conn, md5 MD5 sql)"

definition cache_list :: "'s stmt_cache \<Rightarrow> nat \<times> string \<Rightarrow> 's list" where
  "cache_list cache key = (case cache key of Some l \<Rightarrow> l | None \<Rightarrow> [])"

definition cache_getStatement ::
    "(string \<Rightarrow> nat list) \<Rightarrow> (string \<Rightarrow> 's option) \<Rightarrow> nat option \<Rightarrow> string \<Rightarrow> 's stmt_cache \<Rightarrow>
     's option \<times> 's stmt_cache" where
  "cache_getStatement MD5 prep conn sql cache =
     (case conn of
        None \<Rightarrow> (None, cache)
      | Some c \<Rightarrow>
          let key = cache_key MD5 c sql; l = cache_list cache key
          in if l \<noteq> [] then (Some (last l), cache(key \<mapsto> butlast l))
             else (prep sql, cache(key \<mapsto> l)))"

definition cache_returnStatement ::
    "(string \<Rightarrow> nat list) \<Rightarrow> nat option \<Rightarrow> string \<Rightarrow> 's option \<Rightarrow> 's stmt_cache \<Rightarrow> 's stmt_cache" where
  "cache_returnStatement MD5 conn sql stm cache =
     (case (conn, stm) of
        (Some c, Some st) \<Rightarrow>
          let key = cache_key MD5 c sql; l = cache_list cache key
          in cache(key \<mapsto> (if length l < 10 then l @ [st] else l))
      | _ \<Rightarrow> cache)"

definition cache_clearConnection :: "nat option \<Rightarrow> 's stmt_cache \<Rightarrow> 's stmt_cache" where
  "cache_clearConnection conn cache =
     (case conn of None \<Rightarrow> cache | Some c \<Rightarrow> (\<lambda>key. if fst key = c then None else cache key))"

definition cache_clear :: "'s stmt_cache \<Rightarrow> 's stmt_cache" where
  "cache_clear cache = Map.empty"

section \<open>The manager\<close>

type_synonym 'p manager = "string \<Rightarrow> 'p option"

definition mgr_addPool :: "string \<Rightarrow> 'p \<Rightarrow> 'p manager \<Rightarrow> bool \<times> 'p manager" where
  "mgr_addPool name pool pools =
     (if pools name \<noteq> None then (False, pools) else (True, pools(name \<mapsto> pool)))"

definition mgr_getPool :: "string \<Rightarrow> 'p manager \<Rightarrow> 'p option" where
  "mgr_getPool name pools = pools name"

text \<open>\<open>get\<close> is the pool's own \<open>getConnection\<close>.\<close>

definition mgr_getConnection :: "('p \<Rightarrow> 'c option \<times> 'p) \<Rightarrow> string \<Rightarrow> 'p manager \<Rightarrow> 'c option \<times> 'p manager" where
  "mgr_getConnection get name pools =
     (case mgr_getPool name pools of
        None \<Rightarrow> (None, pools)
      | Some p \<Rightarrow> (case get p of (c, p') \<Rightarrow> (c, pools(name \<mapsto> p'))))"

section \<open>Properties\<close>

text \<open>C17: a connection is never in two hands. However any number of callers, the cleanup timer,
  \<open>closeAll\<close> and the server interleave, starting from the pool its constructor builds, two callers never hold the same
  connection, and what a caller holds is not offered as idle.\<close>

theorem mysql_pool_exclusive:
  assumes "reachable mysql_step (new_mysql_pool maxc minc ok, replicate n MFree) (P, ts)"
    and "i < length ts" and "ts ! i = MHold c"
  shows "c \<notin> set (mp_idle P) \<and> distinct (mp_idle P) \<and> (\<forall>j<length ts. j \<noteq> i \<longrightarrow> ts ! j \<noteq> MHold c)"
proof -
  have e: "mysql.exclusive (P, ts)"
    by (rule mysql.exclusive_reachable [OF assms(1) new_mysql_pool_exclusive])
  have "ts ! j \<noteq> MHold c" if "j < length ts" "j \<noteq> i" for j
    using mysql.exclusive_owners [OF e that(1) assms(2) that(2)] assms(3) by auto
  moreover have "c \<notin> set (mp_idle P)"
    using mysql.exclusive_idle [OF e nth_mem [OF assms(2)]] assms(3) by auto
  ultimately show ?thesis using e by (auto simp: mysql.exclusive_def)
qed

text \<open>One caller after another: the first takes the idle connection, the second connects its own.\<close>

definition two_callers :: "mysql_pool \<times> mysql_caller list" where
  "two_callers = (new_mysql_pool 2 1 (\<lambda>i. True), replicate 2 MFree)"

text \<open>The next step of a caller; \<open>ok\<close> is how its blocking call ends.\<close>

definition mysql_move :: "bool \<Rightarrow> mysql_pool \<Rightarrow> mysql_caller \<Rightarrow> mysql_pool \<times> mysql_caller" where
  "mysql_move ok P t = (if t = MFree then (P, MStart) else mysql_getConnection ok P t)"

lemma mysql_move_step: "mysql_step P t (fst (mysql_move ok P t)) (snd (mysql_move ok P t))"
  by (cases "t = MFree") (auto simp: mysql_move_def intro: mysql_step.call mysql_step.get [OF prod.collapse [symmetric]])

lemmas mysql_play_from = play_reachable [where step = mysql_step and mv = mysql_move, OF mysql_move_step _ reachable.start]

theorem mysql_pool_exclusive_witness:
  "\<exists>P. reachable mysql_step two_callers (P, [MHold 0, MFree]) \<and> 0 \<notin> set (mp_idle P) \<and> mp_active P = [0]"
proof -
  let ?s = "play mysql_move [(0, True), (0, True), (0, True), (0, True), (0, True)] two_callers"
  have "reachable mysql_step two_callers ?s"
    unfolding two_callers_def by (rule mysql_play_from) simp
  moreover have "snd ?s = [MHold 0, MFree]" "mp_active (fst ?s) = [0]" by code_simp+
  ultimately have h: "reachable mysql_step (new_mysql_pool 2 1 (\<lambda>i. True), replicate 2 MFree) (fst ?s, [MHold 0, MFree])"
    and a: "mp_active (fst ?s) = [0]"
    by (metis prod.collapse two_callers_def)+
  from mysql_pool_exclusive [OF h, of 0 0] h a show ?thesis
    by (intro exI [of _ "fst ?s"]) (simp add: two_callers_def)
qed

text \<open>The limit holds up to the callers at work. A pool whose minimum does not exceed its maximum
  lists at most as many connections as the maximum and the callers but one together; with a
  single caller the maximum is kept.\<close>

theorem mysql_pool_bound:
  assumes "minc \<le> maxc" and "reachable mysql_step (new_mysql_pool maxc minc ok, replicate n MFree) (P, ts)"
  shows "mysql_getTotalCount P \<le> mp_max P + (n - 1)"
proof -
  have "within_limit (P, ts)"
    by (rule within_limit_reachable [OF assms(2) new_mysql_pool_within [OF assms(1)]])
  then show ?thesis
    using reachable_length [OF assms(2)] by (simp add: within_limit_def mysql_getTotalCount_def mp_total_def)
qed

theorem mysql_pool_bound_witness:
  "mysql_getTotalCount (new_mysql_pool 3 2 (\<lambda>i. True)) \<le> 3"
proof -
  have "reachable mysql_step (new_mysql_pool 3 2 (\<lambda>i. True), replicate 1 MFree)
      (new_mysql_pool 3 2 (\<lambda>i. True), replicate 1 MFree)" by (rule reachable.start)
  from mysql_pool_bound [OF _ this] new_mysql_pool_state [of 3 2 "\<lambda>i. True"] show ?thesis by simp
qed

text \<open>With two callers the maximum is exceeded: both pass the test of the limit before either
  lists its connection, and a pool of at most one connection hands out two.\<close>

theorem mysql_pool_overrun:
  "\<exists>P. reachable mysql_step (new_mysql_pool 1 0 ok, replicate 2 MFree) (P, [MHold 0, MHold 1]) \<and>
     mp_max P = 1 \<and> mysql_getTotalCount P = 2"
proof -
  define P0 where "P0 = new_mysql_pool 1 0 ok"
  let ?s = "(P0, [MFree, MFree])"
  let ?es = "[(0, True), (0, True), (0, True), (0, True), (1, True), (1, True), (1, True), (1, True), (1, True), (1, True),
    (0, True), (0, True)]"
  have P0: "P0 = \<lparr>mp_idle = [], mp_active = [], mp_closed = (\<lambda>_. True), mp_fresh = 0, mp_max = 1, mp_min = 0,
      mp_running = True\<rparr>"
    by (simp add: P0_def new_mysql_pool_def)
  have "reachable mysql_step ?s (play mysql_move ?es ?s)" by (rule mysql_play_from) simp
  moreover have "snd (play mysql_move ?es ?s) = [MHold 0, MHold 1]" "mp_max (fst (play mysql_move ?es ?s)) = 1"
    "mysql_getTotalCount (fst (play mysql_move ?es ?s)) = 2"
    unfolding P0 by code_simp+
  ultimately show ?thesis
    by (intro exI [of _ "fst (play mysql_move ?es ?s)"]) (metis P0_def numeral_2_eq_2 prod.collapse replicate_0 replicate_Suc)
qed

text \<open>\<open>getConnection\<close> always comes back: whatever the other callers, the timer and the server do
  to the pool between its steps, after six steps of its own it holds a connection or returns a
  null pointer.\<close>

theorem mysql_getConnection_ends:
  "mysql_run 6 ok P MStart = MNull \<or> (\<exists>c. mysql_run 6 ok P MStart = MHold c)"
  using mysql_run_left [of 6 ok P MStart] mysql_run_not_free [of MStart 6 ok P]
  by (cases "mysql_run 6 ok P MStart") simp_all

end
