(* ===== verification/RedisPool.thy ===== *)
theory RedisPool
  imports Pool
begin

text \<open>
  \<open>RedisConnectionPool\<close> and \<open>RedisManager\<close> of \<^verbatim>\<open>sylar/db/redis_connector.cc\<close>, as steps of
  callers that hold the lock for a stretch each (compare \<open>MysqlPool\<close>). \<open>rp_seq\<close> counts the changes of
  the deque of active connections: an iterator into it is valid as long as the count is that of
  its making. A caller that asks for the write lock while it holds the read lock waits for itself;
  \<open>rp_stuck\<close> says that this has happened: no write lock is granted any more, read locks are.
\<close>

section \<open>The pool\<close>

record redis_pool =
  rp_idle :: "nat list"
  rp_active :: "nat list"
  rp_closed :: "nat \<Rightarrow> bool"
  rp_fresh :: nat
  rp_max :: nat
  rp_min :: nat
  rp_seq :: nat
  rp_stuck :: bool

text \<open>
  A caller. In \<open>getConnection\<close>: \<open>RTake\<close> before the first write lock, \<open>RTotal\<close> at the test of the
  limit when the idle connection was lost to another caller, \<open>RConnect\<close> in \<open>createConnection\<close>,
  \<open>RPushIdle\<close> before its write lock, \<open>RTakeNew\<close> before the write lock behind it, \<open>RWait k\<close> in
  the waiting loop with \<open>k\<close> sleeps left, \<open>RLast\<close> before the last write lock. In
  \<open>returnConnection\<close>: \<open>RReturn\<close> at its start, \<open>RErase c n\<close> with an iterator made at count \<open>n\<close>,
  \<open>RPutBack\<close> before the last lock. In the cleanup: \<open>RPing\<close> with the connections still to ping and
  the healthy ones, \<open>RRefill\<close> and \<open>RRefillPush\<close> creating a missing connection. \<open>RStuck\<close> waits for
  itself, \<open>RBroken\<close> is undefined behaviour.
\<close>

datatype redis_caller =
    RFree | RStart | RTake | RTotal | RCreate | RConnect nat | RPushIdle nat | RTakeNew
  | RWait nat | RLast | RNull | RHold nat
  | RReturn nat | RErase nat nat | RPutBack nat
  | RPing "nat list" "nat list" | RRefill nat | RRefillPush nat
  | RStuck nat | RBroken nat

definition rp_total :: "redis_pool \<Rightarrow> nat" where
  "rp_total P = length (rp_active P) + length (rp_idle P)"

text \<open>A stretch under the write lock.\<close>

definition locked :: "redis_pool \<Rightarrow> redis_caller \<Rightarrow> redis_pool \<times> redis_caller \<Rightarrow> redis_pool \<times> redis_caller" where
  "locked P t r = (if rp_stuck P then (P, t) else r)"

text \<open>The four lines that take the first idle connection under the write lock.\<close>

definition take_idle :: "redis_caller \<Rightarrow> redis_pool \<Rightarrow> redis_pool \<times> redis_caller" where
  "take_idle otherwise P =
     (case rp_idle P of
        [] \<Rightarrow> (P, otherwise)
      | c # cs \<Rightarrow> (P\<lparr>rp_idle := cs, rp_active := rp_active P @ [c], rp_seq := rp_seq P + 1\<rparr>, RHold c))"

fun redis_createConnection :: "bool \<Rightarrow> redis_pool \<Rightarrow> redis_caller \<Rightarrow> redis_pool \<times> redis_caller" where
  "redis_createConnection ok P RCreate = (P\<lparr>rp_fresh := rp_fresh P + 1\<rparr>, RConnect (rp_fresh P))"
| "redis_createConnection ok P (RConnect c) =
     (if ok then (P\<lparr>rp_closed := (rp_closed P)(c := False)\<rparr>, RPushIdle c) else (P, RWait 10))"
| "redis_createConnection ok P (RPushIdle c) =
     locked P (RPushIdle c) (P\<lparr>rp_idle := rp_idle P @ [c]\<rparr>, RTakeNew)"
| "redis_createConnection ok P t = (P, t)"

fun redis_getConnection :: "bool \<Rightarrow> redis_pool \<Rightarrow> redis_caller \<Rightarrow> redis_pool \<times> redis_caller" where
  "redis_getConnection ok P RStart =
     (P, if rp_idle P \<noteq> [] then RTake else if rp_total P < rp_max P then RCreate else RWait 9)"
| "redis_getConnection ok P RTake = locked P RTake (take_idle RTotal P)"
| "redis_getConnection ok P RTotal = (P, if rp_total P < rp_max P then RCreate else RWait 10)"
| "redis_getConnection ok P RTakeNew = locked P RTakeNew (take_idle (RWait 10) P)"
| "redis_getConnection ok P (RWait k) =
     (P, if rp_idle P \<noteq> [] then RLast else if k = 0 then RNull else RWait (k - 1))"
| "redis_getConnection ok P RLast = locked P RLast (take_idle RNull P)"
| "redis_getConnection ok P t = redis_createConnection ok P t"

fun redis_returnConnection :: "redis_pool \<Rightarrow> redis_caller \<Rightarrow> redis_pool \<times> redis_caller" where
  "redis_returnConnection P (RReturn c) =
     (if c \<in> set (rp_active P) then (P, RErase c (rp_seq P))
      else if \<not> rp_closed P c then (P\<lparr>rp_stuck := True\<rparr>, RStuck c)
      else (P, RFree))"
| "redis_returnConnection P (RErase c n) =
     locked P (RErase c n)
       (if rp_seq P = n
        then (P\<lparr>rp_active := remove1 c (rp_active P), rp_seq := rp_seq P + 1\<rparr>, RPutBack c)
        else (P, RBroken c))"
| "redis_returnConnection P (RPutBack c) =
     (if rp_closed P c then (P, RFree)
      else locked P (RPutBack c) (P\<lparr>rp_idle := rp_idle P @ [c]\<rparr>, RFree))"
| "redis_returnConnection P t = (P, t)"

definition redis_close_conns :: "nat list \<Rightarrow> redis_pool \<Rightarrow> redis_pool" where
  "redis_close_conns cs P = P\<lparr>rp_closed := (\<lambda>c. c \<in> set cs \<or> rp_closed P c)\<rparr>"

definition redis_closeAll :: "redis_pool \<Rightarrow> redis_pool" where
  "redis_closeAll P =
     (redis_close_conns (rp_idle P @ rp_active P) P)\<lparr>rp_idle := [], rp_active := [], rp_seq := rp_seq P + 1\<rparr>"

text \<open>The loop of the third part that puts the healthy connections back.\<close>

fun put_healthy :: "nat list \<Rightarrow> redis_pool \<Rightarrow> redis_pool" where
  "put_healthy [] P = P"
| "put_healthy (c # cs) P =
     put_healthy cs
       (if rp_total P < rp_max P then P\<lparr>rp_idle := rp_idle P @ [c]\<rparr> else redis_close_conns [c] P)"

definition refill :: "redis_pool \<Rightarrow> redis_pool \<times> redis_caller" where
  "refill P =
     (if length (rp_idle P) < rp_min P then (P\<lparr>rp_fresh := rp_fresh P + 1\<rparr>, RRefill (rp_fresh P)) else (P, RFree))"

fun redis_cleanup :: "bool \<Rightarrow> redis_pool \<Rightarrow> redis_caller \<Rightarrow> redis_pool \<times> redis_caller" where
  "redis_cleanup ok P RFree =
     locked P RFree (P\<lparr>rp_idle := []\<rparr>, if rp_idle P = [] then RFree else RPing (rp_idle P) [])"
| "redis_cleanup ok P (RPing (c # cs) hs) =
     (if ok then (P, RPing cs (hs @ [c])) else (redis_close_conns [c] P, RPing cs hs))"
| "redis_cleanup ok P (RPing [] hs) = locked P (RPing [] hs) (refill (put_healthy hs P))"
| "redis_cleanup ok P (RRefill c) =
     (if ok then (P\<lparr>rp_closed := (rp_closed P)(c := False)\<rparr>, RRefillPush c) else (P, RFree))"
| "redis_cleanup ok P (RRefillPush c) =
     locked P (RRefillPush c) (P\<lparr>rp_idle := rp_idle P @ [c]\<rparr>, RPing [] [])"
| "redis_cleanup ok P t = (P, t)"

definition redis_getActiveCount :: "redis_pool \<Rightarrow> nat" where
  "redis_getActiveCount P = length (rp_active P)"

definition redis_getIdleCount :: "redis_pool \<Rightarrow> nat" where
  "redis_getIdleCount P = length (rp_idle P)"

definition redis_getTotalCount :: "redis_pool \<Rightarrow> nat" where
  "redis_getTotalCount P = length (rp_active P) + length (rp_idle P)"

text \<open>\<open>createConnection\<close> as the constructor calls it, with no other caller around.\<close>

definition redis_open :: "bool \<Rightarrow> redis_pool \<Rightarrow> redis_pool" where
  "redis_open ok P =
     (let c = rp_fresh P; P = P\<lparr>rp_fresh := c + 1\<rparr>
      in if ok then P\<lparr>rp_idle := rp_idle P @ [c], rp_closed := (rp_closed P)(c := False)\<rparr> else P)"

text \<open>The constructor; \<open>ok i\<close> is the outcome of the \<open>i\<close>-th attempt to connect.\<close>

definition new_redis_pool :: "nat \<Rightarrow> nat \<Rightarrow> (nat \<Rightarrow> bool) \<Rightarrow> redis_pool" where
  "new_redis_pool maxc minc ok =
     foldl (\<lambda>P i. redis_open (ok i) P)
       \<lparr>rp_idle = [], rp_active = [], rp_closed = (\<lambda>_. True), rp_fresh = 0, rp_max = maxc, rp_min = minc,
        rp_seq = 0, rp_stuck = False\<rparr> [0..<minc]"

text \<open>\<open>RedisManager::Init\<close> hands over the two sizes of the configuration in this order.\<close>

record redis_conf =
  pool_min_size :: nat
  pool_max_size :: nat

definition redis_init_pool :: "redis_conf \<Rightarrow> (nat \<Rightarrow> bool) \<Rightarrow> redis_pool" where
  "redis_init_pool conf ok = new_redis_pool (pool_min_size conf) (pool_max_size conf) ok"

section \<open>Steps\<close>

inductive redis_step :: "redis_pool \<Rightarrow> redis_caller \<Rightarrow> redis_pool \<Rightarrow> redis_caller \<Rightarrow> bool" where
  call: "redis_step P RFree P RStart"
| get: "redis_getConnection ok P t = (P', t') \<Longrightarrow> redis_step P t P' t'"
| null: "redis_step P RNull P RFree"
| give: "redis_step P (RHold c) P (RReturn c)"
| return: "redis_returnConnection P t = (P', t') \<Longrightarrow> redis_step P t P' t'"
| cleanup: "redis_cleanup ok P t = (P', t') \<Longrightarrow> redis_step P t P' t'"
| closeAll: "redis_step P t (fst (locked P t (redis_closeAll P, t))) t"
| drop: "redis_step P t (P\<lparr>rp_closed := (rp_closed P)(c := True)\<rparr>) t"

inductive_cases redis_stepE: "redis_step P t P' t'"

fun redis_own :: "redis_caller \<Rightarrow> nat list" where
  "redis_own (RConnect c) = [c]"
| "redis_own (RPushIdle c) = [c]"
| "redis_own (RHold c) = [c]"
| "redis_own (RReturn c) = [c]"
| "redis_own (RErase c n) = [c]"
| "redis_own (RPutBack c) = [c]"
| "redis_own (RPing cs hs) = cs @ hs"
| "redis_own (RRefill c) = [c]"
| "redis_own (RRefillPush c) = [c]"
| "redis_own (RStuck c) = [c]"
| "redis_own (RBroken c) = [c]"
| "redis_own _ = []"

text \<open>What the interface \<open>handout\<close> asks of one step, as a relation of the two ends.\<close>

definition moved :: "redis_pool \<Rightarrow> redis_caller \<Rightarrow> redis_pool \<Rightarrow> redis_caller \<Rightarrow> bool" where
  "moved P t P' t' \<longleftrightarrow> rp_fresh P \<le> rp_fresh P' \<and>
    set (rp_idle P') \<union> set (redis_own t') \<subseteq> set (rp_idle P) \<union> set (redis_own t) \<union> {rp_fresh P..<rp_fresh P'} \<and>
    (distinct (rp_idle P @ redis_own t) \<longrightarrow> (\<forall>c\<in>set (rp_idle P) \<union> set (redis_own t). c < rp_fresh P) \<longrightarrow>
      distinct (rp_idle P' @ redis_own t'))"

lemma moved_same: "moved P t P t"
  by (simp add: moved_def)

lemma locked_moved: "locked P t r = (P', t') \<Longrightarrow> (r = (P', t') \<Longrightarrow> moved P t P' t') \<Longrightarrow> moved P t P' t'"
  by (auto simp: locked_def moved_same split: if_splits)

lemma take_idle_moved:
  "redis_own t = [] \<Longrightarrow> redis_own t0 = [] \<Longrightarrow> locked P t (take_idle t0 P) = (P', t') \<Longrightarrow> moved P t P' t'"
  by (cases "rp_idle P") (auto simp: locked_def take_idle_def moved_def split: if_splits)

lemma redis_create_moved: "redis_createConnection ok P t = (P', t') \<Longrightarrow> moved P t P' t'"
  by (cases t) (auto simp: locked_def moved_def split: if_splits)

lemma redis_get_moved:
  assumes "redis_getConnection ok P t = (P', t')"
  shows "moved P t P' t'"
proof (cases t)
  case RTake
  with assms show ?thesis using take_idle_moved [of t RTotal P P' t'] by simp
next
  case RTakeNew
  with assms show ?thesis using take_idle_moved [of t "RWait 10" P P' t'] by simp
next
  case RLast
  with assms show ?thesis using take_idle_moved [of t RNull P P' t'] by simp
qed (use assms redis_create_moved [of ok P t P' t'] in \<open>auto simp: moved_def split: if_splits\<close>)

lemma redis_return_moved: "redis_returnConnection P t = (P', t') \<Longrightarrow> moved P t P' t'"
  by (cases t) (auto simp: locked_def moved_def split: if_splits)

lemma put_healthy_parts:
  "rp_fresh (put_healthy hs P) = rp_fresh P \<and> rp_min (put_healthy hs P) = rp_min P \<and>
   (\<exists>ks. rp_idle (put_healthy hs P) = rp_idle P @ ks \<and> set ks \<subseteq> set hs \<and> (distinct hs \<longrightarrow> distinct ks))"
proof (induction hs arbitrary: P)
  case (Cons c hs)
  let ?P = "if rp_total P < rp_max P then P\<lparr>rp_idle := rp_idle P @ [c]\<rparr> else redis_close_conns [c] P"
  obtain ks where "rp_idle (put_healthy hs ?P) = rp_idle ?P @ ks" "set ks \<subseteq> set hs" "distinct hs \<longrightarrow> distinct ks"
    using Cons.IH [of ?P] by blast
  moreover have "rp_idle ?P = rp_idle P @ (if rp_total P < rp_max P then [c] else [])"
    by (simp add: redis_close_conns_def)
  moreover have "rp_fresh ?P = rp_fresh P" "rp_min ?P = rp_min P" by (simp_all add: redis_close_conns_def)
  ultimately show ?case
    using Cons.IH [of ?P]
    by (simp only: put_healthy.simps append_assoc, intro conjI exI [of _ "(if rp_total P < rp_max P then [c] else []) @ ks"]) auto
qed simp

lemma refill_moved:
  assumes "refill Q = (P', t')" and "rp_fresh Q = rp_fresh P" and "set (rp_idle Q) \<subseteq> set (rp_idle P) \<union> set (redis_own t)"
    and "distinct (rp_idle P @ redis_own t) \<longrightarrow> distinct (rp_idle Q)"
  shows "moved P t P' t'"
  using assms by (fastforce simp: refill_def moved_def split: if_splits)

lemma put_healthy_moved:
  assumes "refill (put_healthy hs P) = (P', t')"
  shows "moved P (RPing [] hs) P' t'"
proof -
  obtain ks where ks: "rp_idle (put_healthy hs P) = rp_idle P @ ks" "set ks \<subseteq> set hs" "distinct hs \<longrightarrow> distinct ks"
    and f: "rp_fresh (put_healthy hs P) = rp_fresh P"
    using put_healthy_parts [of hs P] by blast
  show ?thesis
  proof (rule refill_moved [OF assms f])
    show "set (rp_idle (put_healthy hs P)) \<subseteq> set (rp_idle P) \<union> set (redis_own (RPing [] hs))"
      using ks(1,2) by auto
    show "distinct (rp_idle P @ redis_own (RPing [] hs)) \<longrightarrow> distinct (rp_idle (put_healthy hs P))"
      using ks by auto
  qed
qed

lemma redis_cleanup_moved:
  assumes "redis_cleanup ok P t = (P', t')"
  shows "moved P t P' t'"
proof (cases t)
  case (RPing cs hs)
  show ?thesis
  proof (cases cs)
    case Nil
    have "locked P (RPing [] hs) (refill (put_healthy hs P)) = (P', t')" using assms RPing Nil by simp
    then show ?thesis unfolding RPing Nil by (rule locked_moved) (rule put_healthy_moved)
  next
    case (Cons c ks)
    then show ?thesis using assms RPing by (auto simp: moved_def redis_close_conns_def split: if_splits)
  qed
qed (use assms in \<open>auto simp: locked_def moved_def split: if_splits\<close>)

lemma redis_step_moved: "redis_step P t P' t' \<Longrightarrow> moved P t P' t'"
proof (induction rule: redis_step.induct)
  case (closeAll P t)
  then show ?case by (auto simp: moved_def locked_def redis_closeAll_def redis_close_conns_def)
qed (auto intro: redis_get_moved redis_return_moved redis_cleanup_moved, auto simp: moved_def)

interpretation redis: handout redis_step rp_idle redis_own rp_fresh
  by unfold_locales (use redis_step_moved in \<open>auto simp: moved_def\<close>)

lemma redis_callers_start: "concat (map redis_own (replicate n RFree)) = []"
  by (induction n) simp_all

lemma redis_create_loop:
  "distinct (rp_idle P) \<Longrightarrow> \<forall>c\<in>set (rp_idle P). c < rp_fresh P \<Longrightarrow>
   Q = foldl (\<lambda>P i. redis_open (ok i) P) P ks \<Longrightarrow>
   distinct (rp_idle Q) \<and> (\<forall>c\<in>set (rp_idle Q). c < rp_fresh Q) \<and> rp_max Q = rp_max P \<and>
   rp_active Q = rp_active P \<and>
   length (rp_idle Q) = length (rp_idle P) + length (filter ok ks)"
proof (induction ks arbitrary: P)
  case (Cons i ks)
  have "distinct (rp_idle (redis_open (ok i) P))" "\<forall>c\<in>set (rp_idle (redis_open (ok i) P)). c < rp_fresh (redis_open (ok i) P)"
    "rp_max (redis_open (ok i) P) = rp_max P" "rp_active (redis_open (ok i) P) = rp_active P"
    "length (rp_idle (redis_open (ok i) P)) = length (rp_idle P) + (if ok i then 1 else 0)"
    using Cons.prems(1,2) by (auto simp: redis_open_def Let_def)
  with Cons.IH [of "redis_open (ok i) P"] Cons.prems(3) show ?case by simp
qed simp

lemma new_redis_pool_state:
  assumes "Q = new_redis_pool maxc minc ok"
  shows "distinct (rp_idle Q) \<and> (\<forall>c\<in>set (rp_idle Q). c < rp_fresh Q) \<and> rp_max Q = maxc \<and> rp_active Q = [] \<and>
    length (rp_idle Q) = length (filter ok [0..<minc])"
  using redis_create_loop [OF _ _ assms [unfolded new_redis_pool_def]] by simp

lemma new_redis_pool_exclusive: "redis.exclusive (new_redis_pool maxc minc ok, replicate n RFree)"
  using new_redis_pool_state [OF refl, of maxc minc ok] by (simp add: redis.exclusive_def redis_callers_start)

text \<open>How many steps of its own a call can still take.\<close>

fun redis_left :: "redis_caller \<Rightarrow> nat" where
  "redis_left RStart = 19"
| "redis_left RTake = 18"
| "redis_left RTotal = 17"
| "redis_left RCreate = 16"
| "redis_left (RConnect c) = 15"
| "redis_left (RPushIdle c) = 14"
| "redis_left RTakeNew = 13"
| "redis_left (RWait k) = k + 2"
| "redis_left RLast = 1"
| "redis_left _ = 0"

text \<open>The states of a call of \<open>getConnection\<close>.\<close>

definition in_get :: "redis_caller \<Rightarrow> bool" where
  "in_get t \<longleftrightarrow> redis_left t \<noteq> 0 \<or> t = RNull \<or> (\<exists>c. t = RHold c)"

lemma redis_get_left:
  "\<not> rp_stuck P \<Longrightarrow> in_get t \<Longrightarrow> redis_left t \<noteq> 0 \<Longrightarrow>
   redis_left (snd (redis_getConnection ok P t)) < redis_left t \<and> in_get (snd (redis_getConnection ok P t))"
  by (cases t) (auto simp: locked_def take_idle_def in_get_def split: list.splits)

primrec redis_run :: "nat \<Rightarrow> (nat \<Rightarrow> bool) \<Rightarrow> (nat \<Rightarrow> redis_pool) \<Rightarrow> redis_caller \<Rightarrow> redis_caller" where
  "redis_run 0 ok P t = t"
| "redis_run (Suc n) ok P t = snd (redis_getConnection (ok n) (P n) (redis_run n ok P t))"

lemma redis_run_left:
  "\<forall>k<n. \<not> rp_stuck (P k) \<Longrightarrow> in_get t \<Longrightarrow>
   redis_left (redis_run n ok P t) \<le> redis_left t - n \<and> in_get (redis_run n ok P t)"
proof (induction n)
  case (Suc n)
  then have IH: "redis_left (redis_run n ok P t) \<le> redis_left t - n" "in_get (redis_run n ok P t)" by simp_all
  show ?case
  proof (cases "redis_left (redis_run n ok P t) = 0")
    case True
    then have "redis_run (Suc n) ok P t = redis_run n ok P t"
      using IH(2) by (auto simp: in_get_def)
    with True IH(2) show ?thesis by simp
  next
    case False
    have "\<not> rp_stuck (P n)" using Suc.prems(1) by simp
    from redis_get_left [OF this IH(2) False, of "ok n"]
    have "redis_left (redis_run (Suc n) ok P t) < redis_left (redis_run n ok P t)" "in_get (redis_run (Suc n) ok P t)"
      by simp_all
    with IH(1) show ?thesis by linarith
  qed
qed simp

section \<open>A stuck pool\<close>

text \<open>With the write lock lost, no step changes the two lists or gives anyone a connection.\<close>

definition frozen :: "nat list \<Rightarrow> nat list \<Rightarrow> redis_pool \<Rightarrow> bool" where
  "frozen idle active P \<longleftrightarrow> rp_stuck P \<and> rp_idle P = idle \<and> rp_active P = active"

lemma redis_step_frozen:
  assumes "redis_step P t P' t'" and "frozen is as P"
  shows "frozen is as P' \<and> (t' = RHold c \<longrightarrow> t = RHold c)"
  using assms(1)
proof cases
  case (get ok)
  then show ?thesis using assms(2) by (cases t) (auto simp: frozen_def locked_def split: if_splits)
next
  case return
  then show ?thesis using assms(2) by (cases t) (auto simp: frozen_def locked_def split: if_splits)
next
  case (cleanup ok)
  show ?thesis
  proof (cases t)
    case (RPing cs hs)
    then show ?thesis using assms(2) cleanup
      by (cases cs) (auto simp: frozen_def locked_def redis_close_conns_def split: if_splits)
  qed (use assms(2) cleanup in \<open>auto simp: frozen_def locked_def split: if_splits\<close>)
qed (use assms(2) in \<open>auto simp: frozen_def locked_def\<close>)

lemma reachable_frozen:
  "reachable redis_step s s' \<Longrightarrow> frozen is as (fst s) \<Longrightarrow>
   frozen is as (fst s') \<and> (\<forall>c. RHold c \<in> set (snd s') \<longrightarrow> RHold c \<in> set (snd s))"
proof (induction rule: reachable.induct)
  case (more s s' s'')
  from more.hyps(2) show ?case
  proof cases
    case (turn P t P' t' xs ys)
    then show ?thesis using more.IH [OF more.prems] redis_step_frozen [OF turn(3)] by fastforce
  qed
qed simp

section \<open>Properties\<close>

text \<open>The next step of a caller that takes a connection and gives it back; \<open>ok\<close> is how its blocking
  call ends.\<close>

definition redis_move :: "bool \<Rightarrow> redis_pool \<Rightarrow> redis_caller \<Rightarrow> redis_pool \<times> redis_caller" where
  "redis_move ok P t =
     (case t of
        RFree \<Rightarrow> (P, RStart)
      | RNull \<Rightarrow> (P, RFree)
      | RHold c \<Rightarrow> (P, RReturn c)
      | RReturn c \<Rightarrow> redis_returnConnection P t
      | RErase c n \<Rightarrow> redis_returnConnection P t
      | RPutBack c \<Rightarrow> redis_returnConnection P t
      | _ \<Rightarrow> redis_getConnection ok P t)"

lemma redis_move_step: "redis_step P t (fst (redis_move ok P t)) (snd (redis_move ok P t))"
  by (cases t)
    (auto simp only: redis_move_def redis_caller.case fst_conv snd_conv
      intro: redis_step.call redis_step.null redis_step.give redis_step.return [OF prod.collapse [symmetric]]
        redis_step.get [OF prod.collapse [symmetric]])

lemmas redis_play_from = play_reachable [where step = redis_step and mv = redis_move, OF redis_move_step _ reachable.start]

text \<open>A Redis connection is never in two hands: however callers, the cleanup with its pings outside
  the lock, \<open>closeAll\<close> and the server interleave, what one caller holds is not idle, and no other caller
  holds it or is still giving it back.\<close>

theorem redis_pool_exclusive:
  assumes "reachable redis_step (new_redis_pool maxc minc ok, replicate n RFree) (P, ts)"
    and "i < length ts" and "ts ! i = RHold c"
  shows "c \<notin> set (rp_idle P) \<and> distinct (rp_idle P) \<and> (\<forall>j<length ts. j \<noteq> i \<longrightarrow> c \<notin> set (redis_own (ts ! j)))"
proof -
  have e: "redis.exclusive (P, ts)"
    by (rule redis.exclusive_reachable [OF assms(1) new_redis_pool_exclusive])
  have "c \<notin> set (redis_own (ts ! j))" if "j < length ts" "j \<noteq> i" for j
    using redis.exclusive_owners [OF e that(1) assms(2) that(2)] assms(3) by auto
  moreover have "c \<notin> set (rp_idle P)"
    using redis.exclusive_idle [OF e nth_mem [OF assms(2)]] assms(3) by auto
  ultimately show ?thesis using e by (auto simp: redis.exclusive_def)
qed

text \<open>Two callers of a pool with two connections.\<close>

definition redis_two :: "redis_pool \<times> redis_caller list" where
  "redis_two = (new_redis_pool 2 2 (\<lambda>i. True), replicate 2 RFree)"

theorem redis_pool_exclusive_witness:
  "\<exists>P. reachable redis_step redis_two (P, [RHold 0, RHold 1]) \<and> 0 \<notin> set (rp_idle P) \<and> rp_active P = [0, 1]"
proof -
  let ?s = "play redis_move [(0, True), (0, True), (1, True), (0, True), (1, True), (1, True)] redis_two"
  have "reachable redis_step redis_two ?s"
    unfolding redis_two_def by (rule redis_play_from) simp
  moreover have "snd ?s = [RHold 0, RHold 1]" "rp_active (fst ?s) = [0, 1]" by code_simp+
  ultimately have h: "reachable redis_step (new_redis_pool 2 2 (\<lambda>i. True), replicate 2 RFree) (fst ?s, [RHold 0, RHold 1])"
    and a: "rp_active (fst ?s) = [0, 1]"
    by (metis prod.collapse redis_two_def)+
  from redis_pool_exclusive [OF h, of 0 0] h a show ?thesis
    by (intro exI [of _ "fst ?s"]) (simp add: redis_two_def)
qed

text \<open>Two callers who give their connections back at the same time can run into undefined
  behaviour: \<open>returnConnection\<close> finds its entry of the deque under the read lock and erases it under
  the write lock, and the other caller erases in between, which invalidates the iterator.\<close>

theorem redis_return_broken:
  "\<exists>P. reachable redis_step redis_two (P, [RPutBack 0, RBroken 1])"
proof -
  let ?s = "play redis_move [(0, True), (0, True), (1, True), (0, True), (1, True), (1, True),
    (0, True), (1, True), (0, True), (1, True), (0, True), (1, True)] redis_two"
  have "reachable redis_step redis_two ?s"
    unfolding redis_two_def by (rule redis_play_from) simp
  moreover have "snd ?s = [RPutBack 0, RBroken 1]" by code_simp
  ultimately show ?thesis by (metis prod.collapse)
qed



text \<open>C19: \<open>getConnection\<close> comes back as long as the pool is not stuck: after at most nineteen steps of its
  own, ten of them sleeps, it holds a connection or returns a null pointer, whatever the other callers do
  to the pool in between.\<close>

theorem redis_getConnection_ends:
  assumes "\<forall>k<19. \<not> rp_stuck (P k)"
  shows "redis_run 19 ok P RStart = RNull \<or> (\<exists>c. redis_run 19 ok P RStart = RHold c)"
proof -
  have "in_get RStart" by (simp add: in_get_def)
  from redis_run_left [OF assms this, of ok] show ?thesis by (auto simp: in_get_def)
qed

theorem redis_getConnection_ends_witness:
  "redis_run 19 (\<lambda>_. True) (\<lambda>_. new_redis_pool 0 0 (\<lambda>i. True)) RStart = RNull"
proof -
  have a: "\<forall>k<19. \<not> rp_stuck (new_redis_pool 0 0 (\<lambda>i. True))" by (simp add: new_redis_pool_def)
  have b: "redis_run 19 (\<lambda>_. True) (\<lambda>_. new_redis_pool 0 0 (\<lambda>i. True)) RStart \<noteq> RHold c" for c
    by (simp add: eval_nat_numeral new_redis_pool_def rp_total_def)
  from redis_getConnection_ends [OF a, of "\<lambda>_. True"] b show ?thesis by blast
qed

text \<open>The configured sizes arrive in each other's place. The pool that \<open>RedisManager::Init\<close> builds opens
  the configured maximum of connections at once and takes the configured minimum for its limit, so a sound
  configuration gives a pool above its limit from the start, which connects no more once its idle
  connections are out.\<close>

theorem redis_init_swapped:
  "rp_max (redis_init_pool conf (\<lambda>i. True)) = pool_min_size conf \<and>
   redis_getTotalCount (redis_init_pool conf (\<lambda>i. True)) = pool_max_size conf"
  using new_redis_pool_state [OF refl, of "pool_min_size conf" "pool_max_size conf" "\<lambda>i. True"]
  by (simp add: redis_init_pool_def redis_getTotalCount_def)

end
