(* ===== verification/ByteArray.thy ===== *)
theory ByteArray
  imports Base64Url
begin

text \<open>
  \<open>ByteArray\<close> of \<^verbatim>\<open>sylar/bytearray.cc\<close>: a growing buffer kept as a chain of nodes of \<open>m_baseSize\<close> bytes,
  with one position for reading and writing. A node is its list of bytes, a pointer to a node its index in
  the chain, the null pointer \<open>None\<close>. Sizes are \<open>nat\<close>: buffers stay far below \<open>2 ^ 53\<close>, where \<^verbatim>\<open>size_t\<close> does not
  wrap and the floating-point quotient of \<open>addCapacity\<close> rounds up exactly; the base size is positive.
\<close>

section \<open>State\<close>

text \<open>\<^verbatim>\<open>new char[s]\<close> is not initialized: \<open>ba_junk k\<close> is what the memory behind offset \<open>k\<close> of the chain holds
  before the first write.\<close>

record byte_array =
  ba_base :: nat
  ba_pos :: nat
  ba_cap :: nat
  ba_size :: nat
  ba_little :: bool
  ba_nodes :: "byte list list"
  ba_cur :: "nat option"
  ba_junk :: "nat \<Rightarrow> byte"

definition new_node :: "nat \<Rightarrow> (nat \<Rightarrow> byte) \<Rightarrow> nat \<Rightarrow> byte list" where
  "new_node base junk k = map (\<lambda>j. junk (k * base + j)) [0..<base]"

definition new_byte_array :: "nat \<Rightarrow> (nat \<Rightarrow> byte) \<Rightarrow> byte_array" where
  "new_byte_array base junk =
     \<lparr>ba_base = base, ba_pos = 0, ba_cap = base, ba_size = 0, ba_little = False,
      ba_nodes = [new_node base junk 0], ba_cur = Some 0, ba_junk = junk\<rparr>"

definition getReadSize :: "byte_array \<Rightarrow> nat" where
  "getReadSize B = ba_size B - ba_pos B"

definition getCapacity :: "byte_array \<Rightarrow> nat" where
  "getCapacity B = ba_cap B - ba_pos B"

definition ba_clear :: "byte_array \<Rightarrow> byte_array" where
  "ba_clear B =
     B\<lparr>ba_pos := 0, ba_size := 0, ba_cap := ba_base B, ba_nodes := take 1 (ba_nodes B), ba_cur := Some 0\<rparr>"

definition next_node :: "byte list list \<Rightarrow> nat \<Rightarrow> nat option" where
  "next_node nodes i = (if i + 1 < length nodes then Some (i + 1) else None)"

text \<open>How many nodes a pointer has before it: what its loops use up.\<close>

definition nodes_left :: "byte list list \<Rightarrow> nat option \<Rightarrow> nat" where
  "nodes_left nodes cur = (case cur of None \<Rightarrow> 0 | Some i \<Rightarrow> Suc (length nodes - i))"

lemma nodes_left_next: "nodes_left nodes (next_node nodes i) < nodes_left nodes (Some i)"
  by (auto simp: nodes_left_def next_node_def)

section \<open>Capacity and position\<close>

definition addCapacity :: "nat \<Rightarrow> byte_array \<Rightarrow> byte_array" where
  "addCapacity sz B =
     (if sz = 0 then B
      else let old_cap = getCapacity B
           in if sz \<le> old_cap then B
              else let k = (sz - old_cap + ba_base B - 1) div ba_base B; n = length (ba_nodes B)
                   in B\<lparr>ba_nodes := ba_nodes B @ map (new_node (ba_base B) (ba_junk B)) [n..<n + k],
                        ba_cap := ba_cap B + k * ba_base B,
                        ba_cur := if old_cap = 0 then Some n else ba_cur B\<rparr>)"

fun seek :: "byte list list \<Rightarrow> nat \<Rightarrow> nat \<Rightarrow> nat option res" where
  "seek [] i v = Inl UndefinedBehaviour"
| "seek (n # ns) i v =
     (if length n < v then seek ns (i + 1) (v - length n)
      else Inr (if v = length n then (if ns = [] then None else Some (i + 1)) else Some i))"

definition setPosition :: "nat \<Rightarrow> byte_array \<Rightarrow> byte_array res" where
  "setPosition v B =
     (if ba_cap B < v then Inl OutOfRange
      else rbind (seek (ba_nodes B) 0 v) (\<lambda>cur.
        Inr (B\<lparr>ba_pos := v, ba_size := max (ba_size B) v, ba_cur := cur\<rparr>)))"

section \<open>Writing and reading bytes\<close>

text \<open>\<^verbatim>\<open>memcpy\<close> into a node.\<close>

definition overwrite :: "nat \<Rightarrow> 'a list \<Rightarrow> 'a list \<Rightarrow> 'a list" where
  "overwrite p bs xs = take p xs @ bs @ drop (p + length bs) xs"

function write_nodes ::
    "nat option \<Rightarrow> nat \<Rightarrow> byte list \<Rightarrow> byte list list \<Rightarrow> (byte list list \<times> nat option) res" where
  "write_nodes cur npos bs nodes =
     (if bs = [] then Inr (nodes, cur)
      else case cur of
        None \<Rightarrow> Inl UndefinedBehaviour
      | Some i \<Rightarrow>
          let node = nodes ! i; ncap = length node - npos
          in if length bs \<le> ncap
             then Inr (nodes[i := overwrite npos bs node],
                       if length node = npos + length bs then next_node nodes i else cur)
             else write_nodes (next_node nodes i) 0 (drop ncap bs)
                    (nodes[i := overwrite npos (take ncap bs) node]))"
  by pat_completeness auto

termination
  by (relation "measure (\<lambda>(cur, npos, bs, nodes). nodes_left nodes cur)")
    (auto simp: nodes_left_def next_node_def)

definition ba_write :: "byte list \<Rightarrow> byte_array \<Rightarrow> byte_array res" where
  "ba_write bs B =
     (if bs = [] then Inr B
      else let B = addCapacity (length bs) B
           in rbind (write_nodes (ba_cur B) (ba_pos B mod ba_base B) bs (ba_nodes B)) (\<lambda>(nodes, cur).
             let p = ba_pos B + length bs
             in Inr (B\<lparr>ba_nodes := nodes, ba_cur := cur, ba_pos := p, ba_size := max (ba_size B) p\<rparr>)))"

function read_nodes :: "nat option \<Rightarrow> nat \<Rightarrow> nat \<Rightarrow> byte list list \<Rightarrow> (byte list \<times> nat option) res" where
  "read_nodes cur npos sz nodes =
     (if sz = 0 then Inr ([], cur)
      else case cur of
        None \<Rightarrow> Inl UndefinedBehaviour
      | Some i \<Rightarrow>
          let node = nodes ! i; ncap = length node - npos
          in if sz \<le> ncap
             then Inr (take sz (drop npos node), if length node = npos + sz then next_node nodes i else cur)
             else rbind (read_nodes (next_node nodes i) 0 (sz - ncap) nodes) (\<lambda>(bs, cur).
               Inr (drop npos node @ bs, cur)))"
  by pat_completeness auto

termination
  by (relation "measure (\<lambda>(cur, npos, sz, nodes). nodes_left nodes cur)")
    (auto simp: nodes_left_def next_node_def)

text \<open>\<^verbatim>\<open>m_cur->size\<close> is read before the loop, also when there is nothing to copy.\<close>

definition ba_read :: "nat \<Rightarrow> byte_array \<Rightarrow> (byte list \<times> byte_array) res" where
  "ba_read sz B =
     (if getReadSize B < sz then Inl OutOfRange
      else if ba_cur B = None then Inl UndefinedBehaviour
      else rbind (read_nodes (ba_cur B) (ba_pos B mod ba_base B) sz (ba_nodes B)) (\<lambda>(bs, cur).
        Inr (bs, B\<lparr>ba_pos := ba_pos B + sz, ba_cur := cur\<rparr>)))"

text \<open>The overload with a position of its own starts in the current node all the same; its test is
  the unsigned difference.\<close>

definition ba_read_at :: "nat \<Rightarrow> nat \<Rightarrow> byte_array \<Rightarrow> byte list res" where
  "ba_read_at sz position B =
     (if (int (ba_size B) - int position) mod 2 ^ 64 < int sz then Inl OutOfRange
      else if ba_cur B = None then Inl UndefinedBehaviour
      else rbind (read_nodes (ba_cur B) (position mod ba_base B) sz (ba_nodes B)) (\<lambda>(bs, cur). Inr bs))"

section \<open>Fixed-width integers\<close>

definition setIsLittleEndian :: "bool \<Rightarrow> byte_array \<Rightarrow> byte_array" where
  "setIsLittleEndian val B = B\<lparr>ba_little := val\<rparr>"

definition isLittleEndian :: "byte_array \<Rightarrow> bool" where
  "isLittleEndian B = ba_little B"

text \<open>A value in the memory of the host, which is little-endian.\<close>

definition le_bytes :: "'a::len word \<Rightarrow> byte list" where
  "le_bytes w = map (\<lambda>i. ucast (drop_bit (8 * i) w)) [0..<LENGTH('a) div 8]"

fun le_word :: "byte list \<Rightarrow> 'a::len word" where
  "le_word [] = 0"
| "le_word (b # bs) = ucast b OR push_bit 8 (le_word bs)"

definition byteswap :: "'a::len word \<Rightarrow> 'a word" where
  "byteswap w = le_word (rev (le_bytes w))"

text \<open>\<open>writeFint16\<close> to \<open>writeFuint64\<close> are one body at four widths; a signed value is its word.\<close>

definition writeFuint8 :: "byte \<Rightarrow> byte_array \<Rightarrow> byte_array res" where
  "writeFuint8 v B = ba_write [v] B"

definition writeFuint :: "'a::len word \<Rightarrow> byte_array \<Rightarrow> byte_array res" where
  "writeFuint v B = ba_write (le_bytes (if ba_little B then v else byteswap v)) B"

definition readFuint8 :: "byte_array \<Rightarrow> (byte \<times> byte_array) res" where
  "readFuint8 B = rbind (ba_read 1 B) (\<lambda>(bs, B). Inr (hd bs, B))"

definition readFuint :: "byte_array \<Rightarrow> ('a::len word \<times> byte_array) res" where
  "readFuint B =
     rbind (ba_read (LENGTH('a) div 8) B) (\<lambda>(bs, B').
       Inr (if ba_little B then le_word bs else byteswap (le_word bs), B'))"

section \<open>Variable-length integers\<close>

definition EncodeZigzag32 :: "int \<Rightarrow> 32 word res" where
  "EncodeZigzag32 v =
     (if v < 0 then rbind (i32_checked (- v)) (\<lambda>n. Inr (of_int n * 2 - 1))
      else rbind (i32_checked (v * 2)) (\<lambda>n. Inr (of_int n)))"

definition EncodeZigzag64 :: "int \<Rightarrow> 64 word res" where
  "EncodeZigzag64 v =
     (if v < 0 then rbind (i64_checked (- v)) (\<lambda>n. Inr (of_int n * 2 - 1))
      else rbind (i64_checked (v * 2)) (\<lambda>n. Inr (of_int n)))"

definition DecodeZigzag32 :: "32 word \<Rightarrow> int" where
  "DecodeZigzag32 v = sint (drop_bit 1 v XOR - (v AND 1))"

definition DecodeZigzag64 :: "64 word \<Rightarrow> int" where
  "DecodeZigzag64 v = sint (drop_bit 1 v XOR - (v AND 1))"

lemma drop7_less32: "(0x80 :: 32 word) \<le> v \<Longrightarrow> unat (drop_bit 7 v) < unat v"
  by (simp add: drop_bit_eq_div word_le_nat_alt unat_div)

function varint32 :: "32 word \<Rightarrow> byte list" where
  "varint32 v =
     (if 0x80 \<le> v then ucast ((v AND 0x7F) OR 0x80) # varint32 (drop_bit 7 v) else [ucast v])"
  by pat_completeness auto

termination
  by (relation "measure unat") (simp_all add: drop7_less32)

lemma drop7_less64: "(0x80 :: 64 word) \<le> v \<Longrightarrow> unat (drop_bit 7 v) < unat v"
  by (simp add: drop_bit_eq_div word_le_nat_alt unat_div)

function varint64 :: "64 word \<Rightarrow> byte list" where
  "varint64 v =
     (if 0x80 \<le> v then ucast ((v AND 0x7F) OR 0x80) # varint64 (drop_bit 7 v) else [ucast v])"
  by pat_completeness auto

termination
  by (relation "measure unat") (simp_all add: drop7_less64)

declare varint32.simps [simp del] varint64.simps [simp del] write_nodes.simps [simp del] read_nodes.simps [simp del]

definition writeUint32 :: "32 word \<Rightarrow> byte_array \<Rightarrow> byte_array res" where
  "writeUint32 v B = ba_write (varint32 v) B"

definition writeInt32 :: "int \<Rightarrow> byte_array \<Rightarrow> byte_array res" where
  "writeInt32 v B = rbind (EncodeZigzag32 v) (\<lambda>w. writeUint32 w B)"

definition writeUint64 :: "64 word \<Rightarrow> byte_array \<Rightarrow> byte_array res" where
  "writeUint64 v B = ba_write (varint64 v) B"

definition writeInt64 :: "int \<Rightarrow> byte_array \<Rightarrow> byte_array res" where
  "writeInt64 v B = rbind (EncodeZigzag64 v) (\<lambda>w. writeUint64 w B)"

text \<open>The loop of \<open>readUint32\<close> and \<open>readUint64\<close>, with its counter \<open>i\<close>.\<close>

function read_varint :: "nat \<Rightarrow> 'a::len word \<Rightarrow> byte_array \<Rightarrow> ('a word \<times> byte_array) res" where
  "read_varint i r B =
     (if i < LENGTH('a)
      then rbind (readFuint8 B) (\<lambda>(b, B').
        if b < 0x80 then Inr (r OR push_bit i (ucast b), B')
        else read_varint (i + 7) (r OR push_bit i (ucast (b AND 0x7F))) B')
      else Inr (r, B))"
  by pat_completeness auto

termination
  by (relation "measure (\<lambda>(i, r, B). LENGTH('a) - i)") auto

declare read_varint.simps [simp del]

definition readUint32 :: "byte_array \<Rightarrow> (32 word \<times> byte_array) res" where
  "readUint32 B = read_varint 0 0 B"

definition readInt32 :: "byte_array \<Rightarrow> (int \<times> byte_array) res" where
  "readInt32 B = rbind (readUint32 B) (\<lambda>(w, B). Inr (DecodeZigzag32 w, B))"

definition readUint64 :: "byte_array \<Rightarrow> (64 word \<times> byte_array) res" where
  "readUint64 B = read_varint 0 0 B"

definition readInt64 :: "byte_array \<Rightarrow> (int \<times> byte_array) res" where
  "readInt64 B = rbind (readUint64 B) (\<lambda>(w, B). Inr (DecodeZigzag64 w, B))"

section \<open>Strings\<close>

text \<open>\<open>size()\<close> is cut to the width of the length field.\<close>

definition write_string :: "string \<Rightarrow> byte_array \<Rightarrow> byte_array res" where
  "write_string s B = ba_write (map byte_of s) B"

definition read_string :: "nat \<Rightarrow> byte_array \<Rightarrow> (string \<times> byte_array) res" where
  "read_string n B = rbind (ba_read n B) (\<lambda>(bs, B). Inr (map char_at bs, B))"

definition writeStringF16 :: "string \<Rightarrow> byte_array \<Rightarrow> byte_array res" where
  "writeStringF16 s B = rbind (writeFuint (of_nat (length s) :: 16 word) B) (write_string s)"

definition writeStringF32 :: "string \<Rightarrow> byte_array \<Rightarrow> byte_array res" where
  "writeStringF32 s B = rbind (writeFuint (of_nat (length s) :: 32 word) B) (write_string s)"

definition writeStringF64 :: "string \<Rightarrow> byte_array \<Rightarrow> byte_array res" where
  "writeStringF64 s B = rbind (writeFuint (of_nat (length s) :: 64 word) B) (write_string s)"

definition writeStringVint :: "string \<Rightarrow> byte_array \<Rightarrow> byte_array res" where
  "writeStringVint s B = rbind (writeUint64 (of_nat (length s)) B) (write_string s)"

definition writeStringWithoutLength :: "string \<Rightarrow> byte_array \<Rightarrow> byte_array res" where
  "writeStringWithoutLength s B = write_string s B"

definition readStringF16 :: "byte_array \<Rightarrow> (string \<times> byte_array) res" where
  "readStringF16 B = rbind (readFuint B) (\<lambda>(n :: 16 word, B). read_string (unat n) B)"

definition readStringF32 :: "byte_array \<Rightarrow> (string \<times> byte_array) res" where
  "readStringF32 B = rbind (readFuint B) (\<lambda>(n :: 32 word, B). read_string (unat n) B)"

definition readStringF64 :: "byte_array \<Rightarrow> (string \<times> byte_array) res" where
  "readStringF64 B = rbind (readFuint B) (\<lambda>(n :: 64 word, B). read_string (unat n) B)"

definition readStringVint :: "byte_array \<Rightarrow> (string \<times> byte_array) res" where
  "readStringVint B = rbind (readUint64 B) (\<lambda>(n, B). read_string (unat n) B)"

definition ba_toString :: "byte_array \<Rightarrow> string res" where
  "ba_toString B =
     (if getReadSize B = 0 then Inr []
      else rbind (ba_read_at (getReadSize B) (ba_pos B) B) (\<lambda>bs. Inr (map char_at bs)))"

definition hex_nibble :: "nat \<Rightarrow> char" where
  "hex_nibble n = (if n < 10 then char_of (48 + n) else char_of (87 + n))"

definition hex_cell :: "nat \<Rightarrow> char \<Rightarrow> string" where
  "hex_cell i c =
     (if 0 < i \<and> i mod 32 = 0 then [CHR 0x0A] else []) @
     [hex_nibble (of_char c div 16), hex_nibble (of_char c mod 16), CHR '' '']"

definition ba_toHexString :: "byte_array \<Rightarrow> string res" where
  "ba_toHexString B =
     rbind (ba_toString B) (\<lambda>str. Inr (concat (map (\<lambda>i. hex_cell i (str ! i)) [0..<length str])))"

section \<open>Buffers\<close>

text \<open>An \<open>iovec\<close>: the node it points into, the offset there, the length.\<close>

type_synonym iovec = "nat \<times> nat \<times> nat"

function iov_loop :: "nat option \<Rightarrow> nat \<Rightarrow> nat \<Rightarrow> byte list list \<Rightarrow> iovec list res" where
  "iov_loop cur npos len nodes =
     (if len = 0 then Inr []
      else case cur of
        None \<Rightarrow> Inl UndefinedBehaviour
      | Some i \<Rightarrow>
          let ncap = length (nodes ! i) - npos
          in if len \<le> ncap then Inr [(i, npos, len)]
             else rbind (iov_loop (next_node nodes i) 0 (len - ncap) nodes) (\<lambda>vs. Inr ((i, npos, ncap) # vs)))"
  by pat_completeness auto

termination
  by (relation "measure (\<lambda>(cur, npos, len, nodes). nodes_left nodes cur)")
    (auto simp: nodes_left_def next_node_def)

declare iov_loop.simps [simp del]

definition getReadBuffers :: "nat \<Rightarrow> byte_array \<Rightarrow> (nat \<times> iovec list) res" where
  "getReadBuffers len B =
     (let len = min len (getReadSize B)
      in if len = 0 then Inr (0, [])
         else rbind (iov_loop (ba_cur B) (ba_pos B mod ba_base B) len (ba_nodes B)) (\<lambda>vs. Inr (len, vs)))"

definition getReadBuffers_at :: "nat \<Rightarrow> nat \<Rightarrow> byte_array \<Rightarrow> (nat \<times> iovec list) res" where
  "getReadBuffers_at len position B =
     (let len = min len (getReadSize B); k = position div ba_base B
      in if len = 0 then Inr (0, [])
         else if length (ba_nodes B) \<le> k then Inl UndefinedBehaviour
         else rbind (iov_loop (Some k) (position mod ba_base B) len (ba_nodes B)) (\<lambda>vs. Inr (len, vs)))"

definition getWriteBuffers :: "nat \<Rightarrow> byte_array \<Rightarrow> (nat \<times> iovec list \<times> byte_array) res" where
  "getWriteBuffers len B =
     (if len = 0 then Inr (0, [], B)
      else let B = addCapacity len B
           in rbind (iov_loop (ba_cur B) (ba_pos B mod ba_base B) len (ba_nodes B)) (\<lambda>vs. Inr (len, vs, B)))"

text \<open>The bytes an \<open>iovec\<close> stands for, and the chain after bytes were received into a list of them.\<close>

definition iov_bytes :: "byte list list \<Rightarrow> iovec \<Rightarrow> byte list" where
  "iov_bytes nodes = (\<lambda>(i, off, len). take len (drop off (nodes ! i)))"

fun iov_fill :: "iovec list \<Rightarrow> byte list \<Rightarrow> byte list list \<Rightarrow> byte list list" where
  "iov_fill [] bs nodes = nodes"
| "iov_fill ((i, off, len) # vs) bs nodes =
     iov_fill vs (drop len bs) (nodes[i := overwrite off (take len bs) (nodes ! i)])"

section \<open>Files\<close>

text \<open>\<open>writeToFile\<close>: the bytes that reach the file. \<^verbatim>\<open>len\<close> is signed and may be negative or run past
  the node, which is undefined behaviour.\<close>

function file_loop :: "int \<Rightarrow> int \<Rightarrow> nat option \<Rightarrow> byte_array \<Rightarrow> byte list res" where
  "file_loop read_size pos cur B =
     (if read_size \<le> 0 then Inr []
      else case cur of
        None \<Rightarrow> Inl UndefinedBehaviour
      | Some i \<Rightarrow>
          let diff = pos mod int (ba_base B);
              len = (if int (ba_base B) < read_size then int (ba_base B) else read_size) - diff
          in if len < 0 then Inl UndefinedBehaviour
             else rbind (file_loop (read_size - len) (pos + len) (next_node (ba_nodes B) i) B) (\<lambda>bs.
               Inr (take (nat len) (drop (nat diff) (ba_nodes B ! i)) @ bs)))"
  by pat_completeness auto

termination
  by (relation "measure (\<lambda>(read_size, pos, cur, B). nodes_left (ba_nodes B) cur)")
    (auto simp: nodes_left_def next_node_def)

declare file_loop.simps [simp del]

definition writeToFile :: "byte_array \<Rightarrow> byte list res" where
  "writeToFile B = file_loop (int (getReadSize B)) (int (ba_pos B)) (ba_cur B) B"

text \<open>\<open>readFromFile\<close> of a file that opens: pieces of \<open>m_baseSize\<close> bytes; a piece shorter than that is the last.\<close>

function readFromFile :: "byte list \<Rightarrow> byte_array \<Rightarrow> byte_array res" where
  "readFromFile content B =
     (if ba_base B = 0 then Inl UndefinedBehaviour
      else if length content < ba_base B then ba_write content B
      else rbind (ba_write (take (ba_base B) content) B) (readFromFile (drop (ba_base B) content)))"
  by pat_completeness auto

termination
  by (relation "measure (\<lambda>(content, B). length content)") auto

declare readFromFile.simps [simp del]

section \<open>Streams\<close>

text \<open>
  \<open>SocketStream\<close> reads into and writes from a \<open>ByteArray\<close> without copying. The socket is a parameter: \<open>recv\<close>
  is told how many bytes the buffers hold and answers its return value and the bytes received, \<open>send\<close> is given
  the bytes. The address of the first element of an empty vector is undefined.
\<close>

definition sock_read ::
    "(nat \<Rightarrow> 's \<Rightarrow> int \<times> byte list \<times> 's) \<Rightarrow> bool \<Rightarrow> nat \<Rightarrow> byte_array \<Rightarrow> 's \<Rightarrow> (int \<times> byte_array \<times> 's) res" where
  "sock_read recv connected len B s =
     (if \<not> connected then Inr (- 1, B, s)
      else rbind (getWriteBuffers len B) (\<lambda>(n, iovs, B).
        if iovs = [] then Inl UndefinedBehaviour
        else case recv len s of
          (rt, bs, s) \<Rightarrow>
            let B = B\<lparr>ba_nodes := iov_fill iovs bs (ba_nodes B)\<rparr>
            in if 0 < rt then rbind (setPosition (ba_pos B + nat rt) B) (\<lambda>B. Inr (rt, B, s))
               else Inr (rt, B, s)))"

definition sock_write ::
    "(byte list \<Rightarrow> 's \<Rightarrow> int \<times> 's) \<Rightarrow> bool \<Rightarrow> nat \<Rightarrow> byte_array \<Rightarrow> 's \<Rightarrow> (int \<times> byte_array \<times> 's) res" where
  "sock_write send connected len B s =
     (if \<not> connected then Inr (- 1, B, s)
      else rbind (getReadBuffers len B) (\<lambda>(n, iovs).
        if iovs = [] then Inl UndefinedBehaviour
        else case send (concat (map (iov_bytes (ba_nodes B)) iovs)) s of
          (rt, s) \<Rightarrow>
            if 0 < rt then rbind (setPosition (ba_pos B + nat rt) B) (\<lambda>B. Inr (rt, B, s))
            else Inr (rt, B, s)))"

text \<open>The loop of \<open>Stream::readFixSize\<close> and \<open>Stream::writeFixSize\<close> on a \<open>ByteArray\<close>.\<close>

function fix_loop ::
    "(nat \<Rightarrow> byte_array \<Rightarrow> 's \<Rightarrow> (int \<times> byte_array \<times> 's) res) \<Rightarrow> int \<Rightarrow> nat \<Rightarrow> byte_array \<Rightarrow> 's \<Rightarrow>
     (int \<times> byte_array \<times> 's) res" where
  "fix_loop io n0 left B s =
     (if left = 0 then Inr (n0, B, s)
      else rbind (io left B s) (\<lambda>(n, B', s').
        if n \<le> 0 then Inr (n, B', s') else fix_loop io n0 (left - nat n) B' s'))"
  by pat_completeness auto

termination
  by (relation "measure (\<lambda>(io, n0, left, B, s). left)") auto

declare fix_loop.simps [simp del]

definition readFixSize_ba ::
    "(nat \<Rightarrow> 's \<Rightarrow> int \<times> byte list \<times> 's) \<Rightarrow> bool \<Rightarrow> nat \<Rightarrow> byte_array \<Rightarrow> 's \<Rightarrow> (int \<times> byte_array \<times> 's) res" where
  "readFixSize_ba recv connected len B s = fix_loop (sock_read recv connected) (int len) len B s"

definition writeFixSize_ba ::
    "(byte list \<Rightarrow> 's \<Rightarrow> int \<times> 's) \<Rightarrow> bool \<Rightarrow> nat \<Rightarrow> byte_array \<Rightarrow> 's \<Rightarrow> (int \<times> byte_array \<times> 's) res" where
  "writeFixSize_ba send connected len B s = fix_loop (sock_write send connected) (int len) len B s"

end
