(* ===== verification/ByteArrayProps.thy ===== *)
theory ByteArrayProps
  imports ByteArray
begin

text \<open>
  \<open>ByteArray\<close> implements a flat array with a position: the well-formedness \<open>ba_wf\<close> of the chain, the
  contents \<open>ba_data\<close> it stands for, and refinement of every operation; then the round trips of integers and
  strings, and where the code is undefined.
\<close>

section \<open>The abstraction\<close>

definition uniform :: "nat \<Rightarrow> byte list list \<Rightarrow> bool" where
  "uniform base nodes \<longleftrightarrow> (\<forall>n\<in>set nodes. length n = base)"

text \<open>The node a position lies in.\<close>

definition node_ptr :: "nat \<Rightarrow> nat \<Rightarrow> nat \<Rightarrow> nat option" where
  "node_ptr base n p = (if p < base * n then Some (p div base) else None)"

definition ba_wf :: "byte_array \<Rightarrow> bool" where
  "ba_wf B \<longleftrightarrow> 0 < ba_base B \<and> ba_nodes B \<noteq> [] \<and> uniform (ba_base B) (ba_nodes B) \<and>
     ba_cap B = ba_base B * length (ba_nodes B) \<and> ba_pos B \<le> ba_size B \<and> ba_size B \<le> ba_cap B \<and>
     ba_cur B = node_ptr (ba_base B) (length (ba_nodes B)) (ba_pos B)"

definition ba_data :: "byte_array \<Rightarrow> byte list" where
  "ba_data B = take (ba_size B) (concat (ba_nodes B))"

text \<open>What is left to read.\<close>

definition rest :: "byte_array \<Rightarrow> byte list" where
  "rest B = drop (ba_pos B) (ba_data B)"

definition at_pos :: "nat \<Rightarrow> byte_array \<Rightarrow> byte_array" where
  "at_pos p B = B\<lparr>ba_pos := p, ba_cur := node_ptr (ba_base B) (length (ba_nodes B)) p\<rparr>"

lemma length_concat_uniform: "uniform base nodes \<Longrightarrow> length (concat nodes) = base * length nodes"
  by (induction nodes) (auto simp: uniform_def)

lemma length_ba_data [simp]: "ba_wf B \<Longrightarrow> length (ba_data B) = ba_size B"
  by (simp add: ba_data_def ba_wf_def length_concat_uniform [of "ba_base B"])

lemma length_rest: "ba_wf B \<Longrightarrow> length (rest B) = getReadSize B"
  by (simp add: rest_def getReadSize_def)

lemma at_pos_wf: "ba_wf B \<Longrightarrow> p \<le> ba_size B \<Longrightarrow> ba_wf (at_pos p B) \<and> ba_data (at_pos p B) = ba_data B"
  by (simp add: ba_wf_def at_pos_def ba_data_def)

lemma at_pos_fields [simp]:
  "ba_pos (at_pos p B) = p" "ba_size (at_pos p B) = ba_size B" "ba_base (at_pos p B) = ba_base B"
  "ba_little (at_pos p B) = ba_little B" "ba_cap (at_pos p B) = ba_cap B" "at_pos q (at_pos p B) = at_pos q B"
  "ba_nodes (at_pos p B) = ba_nodes B" "ba_data (at_pos p B) = ba_data B"
  by (simp_all add: at_pos_def ba_data_def)

lemma rest_at_pos: "rest (at_pos p B) = drop p (ba_data B)"
  by (simp add: rest_def)

section \<open>Nodes\<close>

lemma length_overwrite [simp]: "p + length bs \<le> length xs \<Longrightarrow> length (overwrite p bs xs) = length xs"
  by (simp add: overwrite_def)

lemma overwrite_Nil [simp]: "overwrite p [] xs = xs"
  by (simp add: overwrite_def)

lemma overwrite_append:
  "p + length a + length b \<le> length xs \<Longrightarrow> overwrite (p + length a) b (overwrite p a xs) = overwrite p (a @ b) xs"
  by (simp add: overwrite_def ac_simps)

lemma overwrite_skip: "overwrite (length a + p) bs (a @ xs) = a @ overwrite p bs xs"
  by (simp add: overwrite_def add.assoc)

lemma overwrite_front: "p + length bs \<le> length a \<Longrightarrow> overwrite p bs (a @ xs) = overwrite p bs a @ xs"
  by (simp add: overwrite_def)

lemma take_overwrite: "p + length bs \<le> n \<Longrightarrow> n \<le> length xs \<Longrightarrow> take n (overwrite p bs xs) = overwrite p bs (take n xs)"
  by (cases "n = p") (auto simp: overwrite_def take_drop)

lemma take_drop_split: "m \<le> n \<Longrightarrow> take m (drop p xs) @ take (n - m) (drop (p + m) xs) = take n (drop p xs)"
  using take_add [of m "n - m" "drop p xs"] by (simp add: add.commute)

lemma concat_update:
  "uniform base nodes \<Longrightarrow> i < length nodes \<Longrightarrow> npos + length bs \<le> base \<Longrightarrow>
   concat (nodes[i := overwrite npos bs (nodes ! i)]) = overwrite (i * base + npos) bs (concat nodes)"
proof (induction nodes arbitrary: i)
  case (Cons n ns)
  then have n: "length n = base" and u: "uniform base ns" by (simp_all add: uniform_def)
  show ?case
  proof (cases i)
    case 0
    then show ?thesis using Cons.prems(3) n by (simp add: overwrite_front)
  next
    case (Suc j)
    then have "concat ((n # ns)[i := overwrite npos bs ((n # ns) ! i)]) = n @ overwrite (j * base + npos) bs (concat ns)"
      using Cons.IH [OF u, of j] Cons.prems by simp
    also have "\<dots> = overwrite (i * base + npos) bs (concat (n # ns))"
      using Suc n overwrite_skip [of n "j * base + npos" bs "concat ns"] by (simp add: ac_simps)
    finally show ?thesis .
  qed
qed simp

lemma take_node:
  "uniform base nodes \<Longrightarrow> i < length nodes \<Longrightarrow> npos + k \<le> base \<Longrightarrow>
   take k (drop npos (nodes ! i)) = take k (drop (i * base + npos) (concat nodes))"
proof (induction nodes arbitrary: i)
  case (Cons n ns)
  then have n: "length n = base" and u: "uniform base ns" by (simp_all add: uniform_def)
  show ?case
  proof (cases i)
    case (Suc j)
    then have "drop (i * base + npos) (concat (n # ns)) = drop (j * base + npos) (concat ns)"
      using n by (simp add: ac_simps)
    then show ?thesis using Cons.IH [OF u, of j] Cons.prems Suc by simp
  qed (use Cons.prems n in simp)
qed simp

lemma uniform_update: "uniform base nodes \<Longrightarrow> length n = base \<Longrightarrow> uniform base (nodes[i := n])"
  using set_update_subset_insert [of nodes i n] by (auto simp: uniform_def)

lemma node_ptr_here:
  assumes "0 < base" and "p < base * n"
  shows "node_ptr base n p = Some (p div base)" and "p div base < n"
    and "p = p div base * base + p mod base"
  using assms by (auto simp: node_ptr_def less_mult_imp_div_less mult.commute)

text \<open>Past the end of a node the pointer is the next one.\<close>

lemma node_ptr_next:
  assumes "0 < base" and "p mod base + k = base"
  shows "next_node nodes (p div base) = node_ptr base (length nodes) (p + k)" and "(p + k) mod base = 0"
proof -
  have "p + k = p div base * base + base"
    using assms(2) div_mult_mod_eq [of p base] by linarith
  then have e: "p + k = base * (p div base + 1)" by (simp add: mult.commute)
  show "(p + k) mod base = 0" unfolding e by simp
  show "next_node nodes (p div base) = node_ptr base (length nodes) (p + k)"
    unfolding e next_node_def node_ptr_def using assms(1)
    by (simp only: mult_less_cancel1 nonzero_mult_div_cancel_left) simp
qed

lemma node_ptr_same:
  assumes "0 < base" and "p < base * n" and "p mod base + k < base"
  shows "node_ptr base n (p + k) = Some (p div base)"
proof -
  have e: "p + k = base * (p div base) + (p mod base + k)" by simp
  have "(p + k) div base = p div base"
  proof (rule div_nat_eqI)
    show "base * (p div base) \<le> p + k" using e by linarith
    show "p + k < base * Suc (p div base)" using e assms(3) unfolding mult_Suc_right by linarith
  qed
  moreover have "p div base < n" using assms(1,2) by (simp add: less_mult_imp_div_less mult.commute)
  then have "base * Suc (p div base) \<le> base * n" by (intro mult_le_mono2) simp
  then have "p + k < base * n" using e assms(3) unfolding mult_Suc_right by linarith
  ultimately show ?thesis by (simp add: node_ptr_def)
qed

lemma write_nodes_spec:
  "0 < base \<Longrightarrow> uniform base nodes \<Longrightarrow> p + length bs \<le> base * length nodes \<Longrightarrow>
   \<exists>nodes'. write_nodes (node_ptr base (length nodes) p) (p mod base) bs nodes =
       Inr (nodes', node_ptr base (length nodes) (p + length bs)) \<and>
     uniform base nodes' \<and> length nodes' = length nodes \<and> concat nodes' = overwrite p bs (concat nodes)"
proof (induction bs arbitrary: p nodes rule: length_induct)
  case (1 bs)
  show ?case
  proof (cases "bs = []")
    case True
    then show ?thesis using 1(3) by (simp add: write_nodes.simps)
  next
    case False
    let ?i = "p div base" and ?npos = "p mod base"
    define ncap where "ncap = base - ?npos"
    have p: "p < base * length nodes" using 1(4) False by (cases bs) auto
    note here = node_ptr_here [OF 1(2) p]
    have ncap: "0 < ncap" "?npos + ncap = base" using 1(2) by (simp_all add: ncap_def)
    have node: "length (nodes ! ?i) = base" using 1(3) here(2) by (simp add: uniform_def)
    show ?thesis
    proof (cases "length bs \<le> ncap")
      case True
      have "(base = ?npos + length bs \<longrightarrow> next_node nodes ?i = node_ptr base (length nodes) (p + length bs)) \<and>
          (base \<noteq> ?npos + length bs \<longrightarrow> Some ?i = node_ptr base (length nodes) (p + length bs))"
        using node_ptr_next(1) [OF 1(2), of p "length bs"] node_ptr_same [OF 1(2) p, of "length bs"] True ncap(2) by auto
      then show ?thesis
        using True False here node ncap uniform_update [OF 1(3), of "overwrite ?npos bs (nodes ! ?i)" ?i]
          concat_update [OF 1(3) here(2), of ?npos bs]
        by (subst write_nodes.simps) (simp add: ncap_def [symmetric])
    next
      case False
      let ?a = "take ncap bs" and ?b = "drop ncap bs"
      let ?nodes = "nodes[?i := overwrite ?npos ?a (nodes ! ?i)]"
      have a: "length ?a = ncap" "length ?b < length bs" "p + ncap + length ?b = p + length bs"
        using False ncap(1) by auto
      have u: "uniform base ?nodes"
        using uniform_update [OF 1(3)] node a(1) ncap(2) by simp
      have step: "write_nodes (node_ptr base (length nodes) p) ?npos bs nodes =
          write_nodes (node_ptr base (length ?nodes) (p + ncap)) ((p + ncap) mod base) ?b ?nodes"
        using False \<open>bs \<noteq> []\<close> here node node_ptr_next(1) [OF 1(2) ncap(2), of nodes] node_ptr_next(2) [OF 1(2) ncap(2)]
        by (subst write_nodes.simps) (simp add: ncap_def [symmetric])
      have "p + ncap + length ?b \<le> base * length ?nodes" using a(3) 1(4) by simp
      from 1(1) [rule_format, OF a(2) 1(2) u this] obtain nodes'
        where n: "write_nodes (node_ptr base (length ?nodes) (p + ncap)) ((p + ncap) mod base) ?b ?nodes =
            Inr (nodes', node_ptr base (length ?nodes) (p + ncap + length ?b))" "uniform base nodes'"
          "length nodes' = length ?nodes" "concat nodes' = overwrite (p + ncap) ?b (concat ?nodes)"
        by blast
      have "concat ?nodes = overwrite p ?a (concat nodes)"
        using concat_update [OF 1(3) here(2), of ?npos ?a] a(1) ncap(2) here(3) by simp
      then have "concat nodes' = overwrite p bs (concat nodes)"
        using n(4) overwrite_append [of p ?a ?b "concat nodes"] a 1(4) length_concat_uniform [OF 1(3)] by simp
      with n step a(3) show ?thesis by auto
    qed
  qed
qed

lemma read_nodes_spec:
  "0 < base \<Longrightarrow> uniform base nodes \<Longrightarrow> p + k \<le> base * length nodes \<Longrightarrow>
   read_nodes (node_ptr base (length nodes) p) (p mod base) k nodes =
     Inr (take k (drop p (concat nodes)), node_ptr base (length nodes) (p + k))"
proof (induction k arbitrary: p rule: less_induct)
  case (less k)
  show ?case
  proof (cases "k = 0")
    case True
    then show ?thesis by (simp add: read_nodes.simps)
  next
    case False
    let ?i = "p div base" and ?npos = "p mod base"
    define ncap where "ncap = base - ?npos"
    have p: "p < base * length nodes" using less.prems(3) False by simp
    note here = node_ptr_here [OF less.prems(1) p]
    have ncap: "0 < ncap" "?npos + ncap = base" using less.prems(1) by (simp_all add: ncap_def)
    have node: "length (nodes ! ?i) = base" using less.prems(2) here(2) by (simp add: uniform_def)
    show ?thesis
    proof (cases "k \<le> ncap")
      case True
      have "(base = ?npos + k \<longrightarrow> next_node nodes ?i = node_ptr base (length nodes) (p + k)) \<and>
          (base \<noteq> ?npos + k \<longrightarrow> Some ?i = node_ptr base (length nodes) (p + k))"
        using node_ptr_next(1) [OF less.prems(1), of p k] node_ptr_same [OF less.prems(1) p, of k] True ncap(2) by auto
      then show ?thesis
        using True False here node ncap take_node [OF less.prems(2) here(2), of ?npos k]
        by (subst read_nodes.simps) (simp add: ncap_def [symmetric])
    next
      case False
      have k: "k - ncap < k" "p + ncap + (k - ncap) = p + k" using False ncap(1) by auto
      have "p + ncap + (k - ncap) \<le> base * length nodes" using k(2) less.prems(3) by simp
      note IH = less.IH [OF k(1) less.prems(1,2) this]
      have "drop ?npos (nodes ! ?i) = take ncap (drop p (concat nodes))"
        using take_node [OF less.prems(2) here(2), of ?npos ncap] node ncap(2) here(3) by simp
      then have "drop ?npos (nodes ! ?i) @ take (k - ncap) (drop (p + ncap) (concat nodes)) = take k (drop p (concat nodes))"
        using False take_drop_split [of ncap k p "concat nodes"] by simp
      then show ?thesis
        using False \<open>k \<noteq> 0\<close> here node IH k(2) node_ptr_next(1) [OF less.prems(1) ncap(2), of nodes] node_ptr_next(2) [OF less.prems(1) ncap(2)]
        by (subst read_nodes.simps) (simp add: ncap_def [symmetric])
    qed
  qed
qed

section \<open>Refinement of the operations\<close>

lemma new_node_length [simp]: "length (new_node base junk k) = base"
  by (simp add: new_node_def)

lemma new_byte_array_wf: "0 < base \<Longrightarrow> ba_wf (new_byte_array base junk) \<and> ba_data (new_byte_array base junk) = []"
  by (simp add: ba_wf_def new_byte_array_def uniform_def node_ptr_def ba_data_def)

text \<open>How many nodes are missing.\<close>

lemma nodes_needed:
  assumes "0 < base" and "(d + base - 1) div base = (k :: nat)"
  shows "d \<le> k * base"
proof -
  have "d + base - 1 < k * base + base"
    using div_less_iff_less_mult [OF assms(1), of "d + base - 1" "Suc k"] assms(2) by simp
  then show ?thesis using assms(1) by linarith
qed

lemma addCapacity_spec:
  assumes "ba_wf B" and "B' = addCapacity sz B"
  shows "ba_wf B' \<and> ba_pos B' = ba_pos B \<and> ba_size B' = ba_size B \<and> ba_base B' = ba_base B \<and>
    ba_little B' = ba_little B \<and> ba_pos B + sz \<le> ba_cap B' \<and> ba_data B' = ba_data B \<and>
    (\<exists>more. ba_nodes B' = ba_nodes B @ more)"
proof (cases "sz \<le> getCapacity B")
  case True
  then show ?thesis using assms by (auto simp: addCapacity_def getCapacity_def ba_wf_def)
next
  case False
  define k where "k = (sz - getCapacity B + ba_base B - 1) div ba_base B"
  let ?n = "length (ba_nodes B)"
  let ?more = "map (new_node (ba_base B) (ba_junk B)) [?n..<?n + k]"
  have B': "B' = B\<lparr>ba_nodes := ba_nodes B @ ?more, ba_cap := ba_cap B + k * ba_base B,
      ba_cur := if getCapacity B = 0 then Some ?n else ba_cur B\<rparr>"
    using False assms(2) by (auto simp: addCapacity_def Let_def k_def)
  have base: "0 < ba_base B" "ba_pos B \<le> ba_cap B" "ba_cap B = ba_base B * ?n" using assms(1) by (auto simp: ba_wf_def)
  have need: "sz - getCapacity B \<le> k * ba_base B" using nodes_needed [OF base(1), of "sz - getCapacity B" k] k_def by simp
  then have k: "0 < k" using False by (cases k) auto
  have room: "ba_pos B + sz \<le> ba_cap B'" using need base(2) B' by (simp add: getCapacity_def)
  have cur: "ba_cur B' = node_ptr (ba_base B) (?n + k) (ba_pos B)"
  proof (cases "getCapacity B = 0")
    case True
    then have "ba_pos B = ba_base B * ?n" using base by (simp add: getCapacity_def)
    then show ?thesis using True B' k base(1) by (simp add: node_ptr_def)
  next
    case False
    then have "ba_pos B < ba_base B * ?n" using base by (simp add: getCapacity_def)
    moreover from this have "ba_pos B < ba_base B * (?n + k)" by (simp add: add_mult_distrib2)
    ultimately show ?thesis using assms(1) B' False by (simp add: ba_wf_def node_ptr_def)
  qed
  have "ba_wf B'" using assms(1) B' cur by (auto simp: ba_wf_def uniform_def add_mult_distrib2 mult.commute)
  moreover have "ba_data B' = ba_data B"
    using assms(1) B' length_concat_uniform [of "ba_base B" "ba_nodes B"] by (simp add: ba_data_def ba_wf_def)
  ultimately show ?thesis using room B' by auto
qed

lemma take_max_overwrite:
  assumes "p \<le> n" and "n \<le> length xs" and "p + length bs \<le> length xs"
  shows "take (max n (p + length bs)) (overwrite p bs xs) = overwrite p bs (take n xs)"
proof -
  have "take (max n (p + length bs)) (overwrite p bs xs) = overwrite p bs (take (max n (p + length bs)) xs)"
    using assms by (intro take_overwrite) auto
  also have "\<dots> = overwrite p bs (take n xs)"
    using assms unfolding overwrite_def by (simp add: min_def max_def)
  finally show ?thesis .
qed

lemma ba_write_spec:
  assumes "ba_wf B"
  obtains B' where "ba_write bs B = Inr B'" and "ba_wf B'" and "ba_pos B' = ba_pos B + length bs"
    and "ba_data B' = overwrite (ba_pos B) bs (ba_data B)" and "ba_little B' = ba_little B" and "ba_base B' = ba_base B"
proof (cases "bs = []")
  case True
  then show ?thesis using that [of B] assms by (simp add: ba_write_def overwrite_def)
next
  case False
  define C where "C = addCapacity (length bs) B"
  note c = addCapacity_spec [OF assms C_def]
  have wf: "0 < ba_base C" "uniform (ba_base C) (ba_nodes C)" "ba_pos C + length bs \<le> ba_base C * length (ba_nodes C)"
    using c by (auto simp: ba_wf_def)
  obtain nodes' where n: "write_nodes (node_ptr (ba_base C) (length (ba_nodes C)) (ba_pos C)) (ba_pos C mod ba_base C) bs (ba_nodes C) =
      Inr (nodes', node_ptr (ba_base C) (length (ba_nodes C)) (ba_pos C + length bs))"
    "uniform (ba_base C) nodes'" "length nodes' = length (ba_nodes C)" "concat nodes' = overwrite (ba_pos C) bs (concat (ba_nodes C))"
    using write_nodes_spec [OF wf] by blast
  define p where "p = ba_pos B + length bs"
  define B' where "B' = C\<lparr>ba_nodes := nodes', ba_cur := node_ptr (ba_base C) (length (ba_nodes C)) p, ba_pos := p,
      ba_size := max (ba_size C) p\<rparr>"
  have cur: "ba_cur C = node_ptr (ba_base C) (length (ba_nodes C)) (ba_pos C)" using c by (simp add: ba_wf_def)
  have "ba_write bs B = Inr B'"
    using False n(1) cur c by (simp add: ba_write_def C_def [symmetric] B'_def p_def Let_def)
  moreover have "ba_wf B'"
    using c n wf by (auto simp: ba_wf_def B'_def p_def)
  moreover have "ba_data B' = overwrite (ba_pos B) bs (ba_data B)"
  proof -
    have len: "length (concat (ba_nodes C)) = ba_cap C" using c wf(2) length_concat_uniform by (auto simp: ba_wf_def)
    have sz: "ba_size B \<le> ba_cap C" "ba_pos B \<le> ba_size B" "p \<le> ba_cap C" using c assms by (auto simp: ba_wf_def p_def)
    have d: "ba_data B = take (ba_size B) (concat (ba_nodes C))" using c by (metis ba_data_def)
    have "ba_data B' = take (max (ba_size B) p) (overwrite (ba_pos B) bs (concat (ba_nodes C)))"
      using c n(4) by (simp add: ba_data_def B'_def)
    also have "\<dots> = overwrite (ba_pos B) bs (ba_data B)"
      using sz len unfolding d p_def by (intro take_max_overwrite) auto
    finally show ?thesis .
  qed
  ultimately show ?thesis using that [of B'] c by (simp add: B'_def p_def)
qed

lemma ba_read_spec:
  assumes "ba_wf B"
  shows "ba_read k B =
    (if getReadSize B < k then Inl OutOfRange
     else if ba_pos B = ba_cap B then Inl UndefinedBehaviour
     else Inr (take k (rest B), at_pos (ba_pos B + k) B))"
proof (cases "getReadSize B < k \<or> ba_pos B = ba_cap B")
  case True
  then show ?thesis using assms by (auto simp: ba_read_def ba_wf_def node_ptr_def)
next
  case False
  have wf: "0 < ba_base B" "uniform (ba_base B) (ba_nodes B)" "ba_pos B + k \<le> ba_base B * length (ba_nodes B)"
    and cur: "ba_cur B = node_ptr (ba_base B) (length (ba_nodes B)) (ba_pos B)"
    using False assms by (auto simp: ba_wf_def getReadSize_def)
  have "ba_cur B \<noteq> None" using False assms by (simp add: ba_wf_def node_ptr_def)
  moreover have "take k (rest B) = take k (drop (ba_pos B) (concat (ba_nodes B)))"
    using False assms by (simp add: rest_def ba_data_def drop_take getReadSize_def)
  ultimately show ?thesis
    using False read_nodes_spec [OF wf] cur by (simp add: ba_read_def at_pos_def)
qed

text \<open>Reading what is there, at least one byte.\<close>

lemma ba_read_some:
  assumes "ba_wf B" and "0 < k" and "k \<le> length (rest B)"
  shows "ba_read k B = Inr (take k (rest B), at_pos (ba_pos B + k) B) \<and> ba_wf (at_pos (ba_pos B + k) B) \<and>
    rest (at_pos (ba_pos B + k) B) = drop k (rest B)"
proof -
  have "k \<le> getReadSize B" using assms(1,3) by (simp add: length_rest)
  then have "\<not> getReadSize B < k" "ba_pos B \<noteq> ba_cap B" "ba_pos B + k \<le> ba_size B"
    using assms(1,2) by (auto simp: getReadSize_def ba_wf_def)
  then show ?thesis
    using ba_read_spec [OF assms(1), of k] at_pos_wf [OF assms(1)] by (auto simp: rest_def add.commute)
qed

lemma seek_spec:
  "0 < base \<Longrightarrow> uniform base nodes \<Longrightarrow> v \<le> base * length nodes \<Longrightarrow> nodes \<noteq> [] \<Longrightarrow>
   seek nodes i v = Inr (map_option (\<lambda>k. i + k) (node_ptr base (length nodes) v))"
proof (induction nodes arbitrary: i v)
  case (Cons n ns)
  have n: "length n = base" and u: "uniform base ns" using Cons.prems by (auto simp: uniform_def)
  show ?case
  proof (cases "base < v")
    case True
    then have ns: "ns \<noteq> []" "v - base \<le> base * length ns" using Cons.prems by auto
    have "node_ptr base (Suc (length ns)) v = map_option Suc (node_ptr base (length ns) (v - base))"
      using True Cons.prems(1) by (auto simp: node_ptr_def le_div_geq)
    then show ?thesis using Cons.IH [OF Cons.prems(1) u ns(2,1), of "i + 1"] True n
      by (simp add: option.map_comp comp_def)
  next
    case False
    then show ?thesis using Cons.prems n by (auto simp: node_ptr_def)
  qed
qed simp

lemma setPosition_spec:
  assumes "ba_wf B" and "v \<le> ba_size B"
  shows "setPosition v B = Inr (at_pos v B)"
proof -
  have "v \<le> ba_base B * length (ba_nodes B)" using assms by (auto simp: ba_wf_def)
  then show ?thesis
    using assms seek_spec [of "ba_base B" "ba_nodes B" v 0]
    by (auto simp: setPosition_def at_pos_def ba_wf_def max_def option.map_ident)
qed

section \<open>Integers\<close>

lemma bit_le_word:
  "bit (le_word bs :: 'a::len word) n \<longleftrightarrow> n < LENGTH('a) \<and> n div 8 < length bs \<and> bit (bs ! (n div 8)) (n mod 8)"
proof (induction bs arbitrary: n)
  case (Cons b bs)
  show ?case
  proof (cases "n < 8")
    case True
    then show ?thesis by (auto simp: bit_simps)
  next
    case False
    then have "n div 8 = Suc ((n - 8) div 8)" "n mod 8 = (n - 8) mod 8" by (simp_all add: le_div_geq le_mod_geq)
    moreover have "\<not> bit b n" using False by (auto dest: bit_imp_le_length)
    ultimately show ?thesis using Cons.IH [of "n - 8"] False by (auto simp: bit_simps)
  qed
qed simp

lemma length_le_bytes [simp]: "length (le_bytes (w :: 'a::len word)) = LENGTH('a) div 8"
  by (simp add: le_bytes_def)

lemma le_word_le_bytes:
  fixes w :: "'a::len word"
  assumes "8 dvd LENGTH('a)"
  shows "le_word (le_bytes w) = w"
proof (rule bit_word_eqI)
  fix n assume n: "n < LENGTH('a)"
  then have "n div 8 < LENGTH('a) div 8" using assms by (auto elim!: dvdE)
  then show "bit (le_word (le_bytes w) :: 'a word) n = bit w n"
    using n by (simp add: bit_le_word le_bytes_def bit_simps)
qed

lemma le_bytes_le_word:
  assumes "length bs * 8 = LENGTH('a::len)"
  shows "le_bytes (le_word bs :: 'a word) = bs"
proof (rule nth_equalityI)
  have L: "LENGTH('a) div 8 = length bs" using assms by simp
  show "length (le_bytes (le_word bs :: 'a word)) = length bs" using L by simp
  fix i assume "i < length (le_bytes (le_word bs :: 'a word))"
  then have i: "i < length bs" using L by simp
  show "le_bytes (le_word bs :: 'a word) ! i = bs ! i"
  proof (rule bit_word_eqI)
    fix n assume n: "n < LENGTH(8)"
    then have "8 * i + n < LENGTH('a)" "(8 * i + n) div 8 = i" "(8 * i + n) mod 8 = n" using i assms by simp_all
    then show "bit (le_bytes (le_word bs :: 'a word) ! i) n = bit (bs ! i) n"
      using i L n by (simp add: le_bytes_def bit_simps bit_le_word)
  qed
qed

lemma byteswap_byteswap: "8 dvd LENGTH('a) \<Longrightarrow> byteswap (byteswap (w :: 'a::len word)) = w"
  by (simp add: byteswap_def le_bytes_le_word le_word_le_bytes)

text \<open>The bytes of a variable-length integer, on numbers.\<close>

fun enc7 :: "nat \<Rightarrow> byte list" where
  "enc7 n = (if 128 \<le> n then of_nat (n mod 128 + 128) # enc7 (n div 128) else [of_nat n])"

declare enc7.simps [simp del]

lemma take_or_push: "take_bit k m OR push_bit k 1 = take_bit k m + push_bit k (1 :: nat)"
  by (rule disjunctive_add [symmetric]) (auto simp: bit_simps)

lemma and_or_7F: "ucast ((v AND 0x7F) OR 0x80) = (of_nat (unat v mod 128 + 128) :: byte)"
  if "7 < LENGTH('a)" for v :: "'a::len word"
proof -
  have m: "(0x7F :: 'a word) = mask 7" "(0x80 :: 'a word) = push_bit 7 1" by (simp_all add: mask_eq_exp_minus_1)
  have "ucast ((v AND 0x7F) OR 0x80) = (take_bit 7 (ucast v) OR push_bit 7 1 :: byte)"
    unfolding m using that by (intro bit_word_eqI) (auto simp: bit_simps)
  also have "take_bit 7 (ucast v) = (of_nat (take_bit 7 (unat v)) :: byte)"
    using that by (intro bit_word_eqI) (auto simp: bit_simps)
  also have "\<dots> OR push_bit 7 1 = of_nat (take_bit 7 (unat v) OR push_bit 7 1)"
    by (simp only: of_nat_or_eq push_bit_of_nat [symmetric] of_nat_1)
  also have "take_bit 7 (unat v) OR push_bit 7 1 = unat v mod 128 + 128"
    unfolding take_or_push by (simp add: take_bit_eq_mod)
  finally show ?thesis .
qed

lemma varint32_enc7: "varint32 v = enc7 (unat v)"
proof (induction v rule: varint32.induct)
  case (1 v)
  then show ?case
    by (subst varint32.simps, subst enc7.simps)
      (simp add: and_or_7F word_le_nat_alt drop_bit_eq_div unat_div)
qed

lemma varint64_enc7: "varint64 v = enc7 (unat v)"
proof (induction v rule: varint64.induct)
  case (1 v)
  then show ?case
    by (subst varint64.simps, subst enc7.simps)
      (simp add: and_or_7F word_le_nat_alt drop_bit_eq_div unat_div)
qed

lemma enc7_length: "n < 128 ^ Suc k \<Longrightarrow> length (enc7 n) \<le> Suc k"
proof (induction k arbitrary: n)
  case (Suc k)
  have "n div 128 < 128 ^ Suc k" using Suc.prems by (simp add: div_less_iff_less_mult)
  then show ?case using Suc.IH [of "n div 128"] by (subst enc7.simps) auto
qed (simp add: enc7.simps)

lemma enc7_not_Nil: "enc7 n \<noteq> []"
  by (subst enc7.simps) simp

lemma nat_split7: "(n mod 128) OR push_bit 7 (n div 128) = (n :: nat)"
proof -
  have "take_bit 7 n OR push_bit 7 (drop_bit 7 n) = n"
  proof (rule bit_eqI)
    fix m
    show "bit (take_bit 7 n OR push_bit 7 (drop_bit 7 n)) m = bit n m"
      by (cases "m < 7") (simp_all add: bit_simps)
  qed
  then show ?thesis by (simp add: take_bit_eq_mod drop_bit_eq_div)
qed

lemma push_split7:
  "push_bit i (of_nat (n mod 128)) OR push_bit (i + 7) (of_nat (n div 128)) = (push_bit i (of_nat n) :: 'a::len word)"
proof -
  have "push_bit i (of_nat (n mod 128)) OR push_bit (i + 7) (of_nat (n div 128)) =
      (of_nat (push_bit i ((n mod 128) OR push_bit 7 (n div 128))) :: 'a word)"
    by (simp only: of_nat_or_eq push_bit_of_nat push_bit_or push_bit_push_bit)
  then show ?thesis by (simp only: nat_split7 push_bit_of_nat)
qed

lemma readFuint8_rest:
  assumes "ba_wf B" and "rest B = b # r"
  shows "readFuint8 B = Inr (b, at_pos (ba_pos B + 1) B) \<and> ba_wf (at_pos (ba_pos B + 1) B) \<and>
    rest (at_pos (ba_pos B + 1) B) = r"
  using ba_read_some [OF assms(1), of 1] assms(2) by (simp add: readFuint8_def)

lemma read_varint_enc7:
  fixes acc :: "'a::len word"
  assumes "ba_wf B" and "rest B = enc7 n @ r" and "i < LENGTH('a)" and "n < 2 ^ (LENGTH('a) - i)"
  shows "read_varint i acc B = Inr (acc OR push_bit i (of_nat n), at_pos (ba_pos B + length (enc7 n)) B)"
  using assms
proof (induction n arbitrary: B i acc rule: enc7.induct)
  case (1 n)
  show ?case
  proof (cases "128 \<le> n")
    case True
    define b :: byte where "b = of_nat (n mod 128 + 128)"
    have e: "enc7 n = b # enc7 (n div 128)" using True by (simp add: enc7.simps [of n] b_def)
    have ub: "unat b = n mod 128 + 128"
      by (simp add: b_def unat_of_nat take_bit_eq_mod del: of_nat_add)
    have "\<not> b < 0x80" using ub by (simp add: word_less_nat_alt)
    have "b AND 0x7F = take_bit 7 b" by (simp add: take_bit_eq_mask mask_eq_exp_minus_1)
    then have "unat (b AND 0x7F) = n mod 128" using ub by (simp add: take_bit_eq_mod unat_mod)
    then have low: "(ucast (b AND 0x7F) :: 'a word) = of_nat (n mod 128)" by (metis of_nat_unat)
    note b = readFuint8_rest [OF 1(2), of b "enc7 (n div 128) @ r"]
    have rb: "rest B = b # enc7 (n div 128) @ r" using 1(3) e by simp
    have i: "7 < LENGTH('a) - i"
    proof (rule ccontr)
      assume "\<not> ?thesis"
      then have "(2 :: nat) ^ (LENGTH('a) - i) \<le> 2 ^ 7" by (intro power_increasing) auto
      then show False using True 1(5) by simp
    qed
    have "n div 128 < 2 ^ (LENGTH('a) - (i + 7))"
    proof -
      have "LENGTH('a) - i = (LENGTH('a) - (i + 7)) + 7" using i by simp
      then have "(2 :: nat) ^ (LENGTH('a) - i) = 2 ^ (LENGTH('a) - (i + 7)) * 2 ^ 7" by (metis power_add)
      then show ?thesis using 1(5) by (simp add: div_less_iff_less_mult)
    qed
    with 1(1) [OF True, of "at_pos (ba_pos B + 1) B" "i + 7" "acc OR push_bit i (of_nat (n mod 128))"] b rb i
    have "read_varint (i + 7) (acc OR push_bit i (of_nat (n mod 128))) (at_pos (ba_pos B + 1) B) =
        Inr ((acc OR push_bit i (of_nat (n mod 128))) OR push_bit (i + 7) (of_nat (n div 128)),
          at_pos (ba_pos B + length (enc7 n)) B)"
      using e by simp
    moreover have "(acc OR push_bit i (of_nat (n mod 128))) OR push_bit (i + 7) (of_nat (n div 128)) = acc OR push_bit i (of_nat n)"
      by (simp only: or.assoc push_split7)
    ultimately show ?thesis
      using b rb \<open>\<not> b < 0x80\<close> low 1(4) by (subst read_varint.simps) simp
  next
    case False
    then have e: "enc7 n = [of_nat n]" by (simp add: enc7.simps [of n])
    have u: "unat (of_nat n :: byte) = n" using False by (simp add: unat_of_nat take_bit_eq_mod)
    then have "(of_nat n :: byte) < 0x80" using False by (simp add: word_less_nat_alt)
    moreover have "(ucast (of_nat n :: byte) :: 'a word) = of_nat n" using u by (metis of_nat_unat)
    ultimately show ?thesis
      using readFuint8_rest [OF 1(2), of "of_nat n" r] 1(3,4) e by (subst read_varint.simps) simp
  qed
qed

section \<open>Reading back\<close>

text \<open>What is left of a write, whatever calls it was made of.\<close>

definition written :: "byte list \<Rightarrow> byte_array \<Rightarrow> byte_array \<Rightarrow> bool" where
  "written bs B B' \<longleftrightarrow> ba_wf B' \<and> ba_pos B' = ba_pos B + length bs \<and> ba_little B' = ba_little B \<and>
     ba_base B' = ba_base B \<and> ba_data B' = overwrite (ba_pos B) bs (ba_data B)"

lemma ba_write_written: "ba_wf B \<Longrightarrow> \<exists>B'. ba_write bs B = Inr B' \<and> written bs B B'"
  by (rule ba_write_spec [of B bs]) (auto simp: written_def)

lemma overwrite_extend:
  assumes "p \<le> length xs"
  shows "overwrite (p + length a) b (overwrite p a xs) = overwrite p (a @ b) xs"
proof -
  have "overwrite p a xs = (take p xs @ a) @ drop (p + length a) xs" by (simp add: overwrite_def)
  moreover have "length (take p xs @ a) = p + length a" using assms by simp
  ultimately have "overwrite (p + length a) b (overwrite p a xs) =
      (take p xs @ a) @ overwrite 0 b (drop (p + length a) xs)"
    using overwrite_skip [of "take p xs @ a" 0 b "drop (p + length a) xs"] by simp
  then show ?thesis by (simp add: overwrite_def ac_simps)
qed

lemma written_append:
  assumes "ba_wf B" and "written a B B1" and "written b B1 B2"
  shows "written (a @ b) B B2"
proof -
  have "ba_pos B \<le> length (ba_data B)" using assms(1) by (simp add: ba_wf_def)
  then show ?thesis using assms(2,3) by (simp add: written_def overwrite_extend)
qed

text \<open>Two writes, one after the other.\<close>

lemma two_writes:
  assumes "ba_wf B" and "w B = ba_write a B"
  obtains B' where "rbind (w B) (ba_write b) = Inr B'" and "written (a @ b) B B'"
proof -
  obtain B1 where 1: "ba_write a B = Inr B1" "written a B B1" using ba_write_written [OF assms(1)] by blast
  obtain B2 where 2: "ba_write b B1 = Inr B2" "written b B1 B2"
    using ba_write_written [of B1 b] 1(2) by (auto simp: written_def)
  show ?thesis using that [of B2] 1(1) 2(1) assms written_append [OF assms(1) 1(2) 2(2)] by simp
qed

lemma written_back:
  assumes "ba_wf B" and "written bs B B'"
  shows "setPosition (ba_pos B) B' = Inr (at_pos (ba_pos B) B')" and "ba_wf (at_pos (ba_pos B) B')"
    and "rest (at_pos (ba_pos B) B') = bs @ drop (length bs) (rest B)"
proof -
  have p: "ba_pos B \<le> length (ba_data B)" "ba_pos B \<le> ba_size B'" and wf: "ba_wf B'"
    using assms by (auto simp: ba_wf_def written_def)
  show "rest (at_pos (ba_pos B) B') = bs @ drop (length bs) (rest B)"
    using p assms(2) by (simp add: rest_at_pos overwrite_def rest_def written_def add.commute)
  show "setPosition (ba_pos B) B' = Inr (at_pos (ba_pos B) B')" by (rule setPosition_spec [OF wf p(2)])
  show "ba_wf (at_pos (ba_pos B) B')" using at_pos_wf [OF wf p(2)] by blast
qed

text \<open>\<open>reads_back w r v B\<close>: \<open>v\<close> is written by \<open>w\<close> at the position of \<open>B\<close>, and \<open>r\<close> from that position on gives it
  back and stops where the writing stopped.\<close>

definition reads_back ::
    "('a \<Rightarrow> byte_array \<Rightarrow> byte_array res) \<Rightarrow> (byte_array \<Rightarrow> ('a \<times> byte_array) res) \<Rightarrow> 'a \<Rightarrow> byte_array \<Rightarrow> bool" where
  "reads_back w r v B \<longleftrightarrow>
     (\<exists>B' C D. w v B = Inr B' \<and> setPosition (ba_pos B) B' = Inr C \<and> r C = Inr (v, D) \<and> ba_pos D = ba_pos B')"

lemma reads_backI:
  assumes "ba_wf B"
    and w: "w v B = Inr B'" "written bs B B'"
    and r: "\<And>C r'. ba_wf C \<Longrightarrow> rest C = bs @ r' \<Longrightarrow> ba_little C = ba_little B \<Longrightarrow> ba_pos C = ba_pos B \<Longrightarrow>
      r C = Inr (v, at_pos (ba_pos B + length bs) C)"
  shows "reads_back w r v B"
proof -
  note wb = written_back [OF assms(1) w(2)]
  have "r (at_pos (ba_pos B) B') = Inr (v, at_pos (ba_pos B + length bs) (at_pos (ba_pos B) B'))"
    using wb w(2) by (intro r) (auto simp: written_def)
  with wb w show ?thesis unfolding reads_back_def by (auto simp: written_def)
qed

text \<open>The same for a single write.\<close>

lemma reads_back_write:
  assumes "ba_wf B"
    and w: "w v B = ba_write bs B"
    and r: "\<And>C r'. ba_wf C \<Longrightarrow> rest C = bs @ r' \<Longrightarrow> ba_little C = ba_little B \<Longrightarrow> ba_pos C = ba_pos B \<Longrightarrow>
      r C = Inr (v, at_pos (ba_pos B + length bs) C)"
  shows "reads_back w r v B"
proof -
  obtain B' where "ba_write bs B = Inr B'" "written bs B B'" using ba_write_written [OF assms(1)] by blast
  with w show ?thesis by (intro reads_backI [OF assms(1) _ _ r]) auto
qed

lemma readFuint_back:
  fixes v :: "'a::len word"
  assumes "8 dvd LENGTH('a)" and "ba_wf B"
  shows "reads_back writeFuint readFuint v B"
proof (rule reads_back_write [OF assms(2)])
  let ?bs = "le_bytes (if ba_little B then v else byteswap v)"
  show "writeFuint v B = ba_write ?bs B" by (simp add: writeFuint_def)
  fix C r
  assume C: "ba_wf C" "rest C = ?bs @ r" "ba_little C = ba_little B" "ba_pos C = ba_pos B"
  have n: "0 < LENGTH('a) div 8" using assms(1) dvd_imp_le [OF assms(1)] by (simp add: div_greater_zero_iff)
  have l: "length ?bs = LENGTH('a) div 8" by simp
  have "LENGTH('a) div 8 \<le> length (rest C)" using C(2) l by (simp only: length_append)
  from ba_read_some [OF C(1) n this] C(2) l
  have "ba_read (LENGTH('a) div 8) C = Inr (?bs, at_pos (ba_pos C + LENGTH('a) div 8) C)"
    by (simp only: append_eq_conv_conj) (simp del: length_le_bytes)
  then show "readFuint C = Inr (v, at_pos (ba_pos B + length ?bs) C)"
    using C(3,4) l by (cases "ba_little B") (simp_all add: readFuint_def le_word_le_bytes [OF assms(1)] byteswap_byteswap [OF assms(1)])
qed

lemma unat32: "unat (v :: 32 word) < 2 ^ 32" and unat64: "unat (w :: 64 word) < 2 ^ 64"
  using unsigned_less [where ?'a = nat, of v] unsigned_less [where ?'a = nat, of w] by simp_all

lemma readUint_back:
  assumes "ba_wf B"
  shows "reads_back writeUint32 readUint32 v B" and "reads_back writeUint64 readUint64 w B"
proof -
  show "reads_back writeUint32 readUint32 v B"
  proof (rule reads_back_write [OF assms])
    show "writeUint32 v B = ba_write (enc7 (unat v)) B" by (simp add: writeUint32_def varint32_enc7)
    fix C r assume "ba_wf C" "rest C = enc7 (unat v) @ r" "ba_pos C = ba_pos B"
    then show "readUint32 C = Inr (v, at_pos (ba_pos B + length (enc7 (unat v))) C)"
      using read_varint_enc7 [of C "unat v" r 0 "0 :: 32 word"] unat32 [of v] by (simp add: readUint32_def)
  qed
  show "reads_back writeUint64 readUint64 w B"
  proof (rule reads_back_write [OF assms])
    show "writeUint64 w B = ba_write (enc7 (unat w)) B" by (simp add: writeUint64_def varint64_enc7)
    fix C r assume "ba_wf C" "rest C = enc7 (unat w) @ r" "ba_pos C = ba_pos B"
    then show "readUint64 C = Inr (w, at_pos (ba_pos B + length (enc7 (unat w))) C)"
      using read_varint_enc7 [of C "unat w" r 0 "0 :: 64 word"] unat64 [of w] by (simp add: readUint64_def)
  qed
qed

section \<open>Zigzag\<close>

text \<open>The decoder on an even and on an odd word.\<close>

lemma zigzag_word:
  fixes w :: "'a::len word"
  shows "unat w = 2 * k \<Longrightarrow> drop_bit 1 w XOR - (w AND 1) = of_nat k"
    and "unat w = 2 * k + 1 \<Longrightarrow> drop_bit 1 w XOR - (w AND 1) = NOT (of_nat k)"
proof -
  have "unat (drop_bit 1 w) = unat w div 2" using unat_drop_bit_eq [of 1 w] by (simp add: drop_bit_eq_div)
  moreover have "word_of_nat (unat (drop_bit 1 w)) = drop_bit 1 w" by simp
  ultimately have d: "drop_bit 1 w = of_nat (unat w div 2)" by simp
  have "unat (w AND 1) = unat w AND unat (1 :: 'a word)" by (simp only: unsigned_and_eq)
  also have "\<dots> = unat w mod 2" by (simp add: and_one_eq)
  finally have "unat (w AND 1) = unat w mod 2" .
  moreover have "word_of_nat (unat (w AND 1)) = w AND 1" by simp
  ultimately have a: "w AND 1 = of_nat (unat w mod 2)" by simp
  show "unat w = 2 * k \<Longrightarrow> drop_bit 1 w XOR - (w AND 1) = of_nat k" using d a by simp
  show "unat w = 2 * k + 1 \<Longrightarrow> drop_bit 1 w XOR - (w AND 1) = NOT (of_nat k)" using d a by simp
qed

lemma sint_in_range:
  assumes "- (2 ^ (LENGTH('a) - 1)) \<le> x" and "x < 2 ^ (LENGTH('a) - 1)"
  shows "sint (of_int x :: 'a::len word) = x"
  using assms by (simp add: signed_of_int signed_take_bit_int_eq_self)

lemma zigzag_decode:
  fixes w :: "'a::len word"
  assumes "- (2 ^ (LENGTH('a) - 1)) < v" and "v < 2 ^ (LENGTH('a) - 1)"
    and "uint w = (if v < 0 then 2 * (- v) - 1 else 2 * v)"
  shows "sint (drop_bit 1 w XOR - (w AND 1)) = v"
proof (cases "v < 0")
  case True
  have "unat w = 2 * nat (- v - 1) + 1" using assms(3) True by (simp add: unat_eq_nat_uint)
  then have "drop_bit 1 w XOR - (w AND 1) = NOT (of_int (- v - 1))"
    using zigzag_word(2) [of w "nat (- v - 1)"] True by simp
  also have "NOT (of_int (- v - 1)) = (of_int v :: 'a word)" by (simp add: not_eq_complement)
  finally show ?thesis using sint_in_range [where 'a = 'a, of v] assms(1,2) by simp
next
  case False
  have "unat w = 2 * nat v" using assms(3) False by (simp add: unat_eq_nat_uint)
  then have "drop_bit 1 w XOR - (w AND 1) = of_int v"
    using zigzag_word(1) [of w "nat v"] False by simp
  then show ?thesis using sint_in_range [where 'a = 'a, of v] assms(1,2) by simp
qed

lemma zigzag32:
  assumes "- (2 ^ 31) < v" and "v < 2 ^ 30"
  obtains w where "EncodeZigzag32 v = Inr w" and "DecodeZigzag32 w = v"
proof (cases "v < 0")
  case True
  let ?w = "of_int (- v) * 2 - 1 :: 32 word"
  have "?w = of_int (2 * (- v) - 1)" by simp
  then have "uint ?w = 2 * (- v) - 1" using assms True by (simp only: uint_word_of_int) simp
  then have "DecodeZigzag32 ?w = v"
    unfolding DecodeZigzag32_def using assms True by (intro zigzag_decode) simp_all
  moreover have "EncodeZigzag32 v = Inr ?w" using assms True by (simp add: EncodeZigzag32_def i32_checked_def in_i32_def)
  ultimately show ?thesis using that by blast
next
  case False
  let ?w = "of_int (v * 2) :: 32 word"
  have "uint ?w = 2 * v" using assms False by (simp only: uint_word_of_int) simp
  then have "DecodeZigzag32 ?w = v"
    unfolding DecodeZigzag32_def using assms False by (intro zigzag_decode) simp_all
  moreover have "EncodeZigzag32 v = Inr ?w" using assms False by (simp add: EncodeZigzag32_def i32_checked_def in_i32_def)
  ultimately show ?thesis using that by blast
qed

lemma zigzag64:
  assumes "- (2 ^ 63) < v" and "v < 2 ^ 62"
  obtains w where "EncodeZigzag64 v = Inr w" and "DecodeZigzag64 w = v"
proof (cases "v < 0")
  case True
  let ?w = "of_int (- v) * 2 - 1 :: 64 word"
  have "?w = of_int (2 * (- v) - 1)" by simp
  then have "uint ?w = 2 * (- v) - 1" using assms True by (simp only: uint_word_of_int) simp
  then have "DecodeZigzag64 ?w = v"
    unfolding DecodeZigzag64_def using assms True by (intro zigzag_decode) simp_all
  moreover have "EncodeZigzag64 v = Inr ?w" using assms True by (simp add: EncodeZigzag64_def i64_checked_def in_i64_def)
  ultimately show ?thesis using that by blast
next
  case False
  let ?w = "of_int (v * 2) :: 64 word"
  have "uint ?w = 2 * v" using assms False by (simp only: uint_word_of_int) simp
  then have "DecodeZigzag64 ?w = v"
    unfolding DecodeZigzag64_def using assms False by (intro zigzag_decode) simp_all
  moreover have "EncodeZigzag64 v = Inr ?w" using assms False by (simp add: EncodeZigzag64_def i64_checked_def in_i64_def)
  ultimately show ?thesis using that by blast
qed

section \<open>Strings\<close>

lemma rest_take:
  "ba_wf C \<Longrightarrow> rest C = bs @ r \<Longrightarrow> bs \<noteq> [] \<Longrightarrow>
   ba_read (length bs) C = Inr (bs, at_pos (ba_pos C + length bs) C) \<and> ba_wf (at_pos (ba_pos C + length bs) C) \<and>
     rest (at_pos (ba_pos C + length bs) C) = r"
  using ba_read_some [of C "length bs"] by simp

text \<open>A length field followed by the text: written by \<open>writeFuint\<close> or \<open>writeUint64\<close>, read by its counterpart.\<close>

lemma read_string_rest:
  assumes "ba_wf C" and "rest C = map byte_of s @ r" and "s \<noteq> []"
  shows "read_string (length s) C = Inr (s, at_pos (ba_pos C + length s) C)"
  using rest_take [OF assms(1,2)] assms(3) by (simp add: read_string_def comp_def)

lemma readFuint_rest:
  fixes v :: "'a::len word"
  assumes "8 dvd LENGTH('a)" and "ba_wf C" and "rest C = le_bytes (if ba_little C then v else byteswap v) @ r"
  shows "readFuint C = Inr (v, at_pos (ba_pos C + LENGTH('a) div 8) C) \<and> ba_wf (at_pos (ba_pos C + LENGTH('a) div 8) C) \<and>
    rest (at_pos (ba_pos C + LENGTH('a) div 8) C) = r"
proof -
  let ?bs = "le_bytes (if ba_little C then v else byteswap v)"
  have l: "length ?bs = LENGTH('a) div 8" by simp
  have "?bs \<noteq> []" using l assms(1) dvd_imp_le [OF assms(1)] by (simp add: div_greater_zero_iff flip: length_greater_0_conv)
  from rest_take [OF assms(2,3) this, unfolded l] show ?thesis
    by (cases "ba_little C") (simp_all add: readFuint_def le_word_le_bytes [OF assms(1)] byteswap_byteswap [OF assms(1)])
qed

lemma readUint64_rest:
  assumes "ba_wf C" and "rest C = enc7 (unat v) @ r"
  shows "readUint64 C = Inr (v, at_pos (ba_pos C + length (enc7 (unat v))) C) \<and>
    ba_wf (at_pos (ba_pos C + length (enc7 (unat v))) C) \<and> rest (at_pos (ba_pos C + length (enc7 (unat v))) C) = r"
  using read_varint_enc7 [OF assms, of 0 "0 :: 64 word"] rest_take [OF assms enc7_not_Nil] unat64 [of v]
  by (simp add: readUint64_def)

lemma length16: "n < 2 ^ 16 \<Longrightarrow> unat (of_nat n :: 16 word) = n"
  and length32: "n < 2 ^ 32 \<Longrightarrow> unat (of_nat n :: 32 word) = n"
  and length64: "n < 2 ^ 64 \<Longrightarrow> unat (of_nat n :: 64 word) = n"
  by (simp_all add: unat_of_nat take_bit_nat_eq_self)

lemma fixed_string_back:
  assumes "ba_wf B" and "s \<noteq> []" and d: "8 dvd LENGTH('a::len)"
    and u: "unat (of_nat (length s) :: 'a word) = length s"
  shows "reads_back (\<lambda>s B. rbind (writeFuint (of_nat (length s) :: 'a word) B) (write_string s))
    (\<lambda>B. rbind (readFuint B) (\<lambda>(n :: 'a word, B). read_string (unat n) B)) s B"
proof -
  let ?v = "of_nat (length s) :: 'a word"
  let ?n = "le_bytes (if ba_little B then ?v else byteswap ?v)"
  have "writeFuint ?v B = ba_write ?n B" by (simp add: writeFuint_def)
  from two_writes [of B "writeFuint ?v", OF assms(1) this] obtain B'
    where w: "rbind (writeFuint ?v B) (ba_write (map byte_of s)) = Inr B'" "written (?n @ map byte_of s) B B'" by blast
  show ?thesis
  proof (rule reads_backI [OF assms(1) _ w(2)])
    show "rbind (writeFuint (of_nat (length s) :: 'a word) B) (write_string s) = Inr B'"
      using w(1) by (simp add: write_string_def [abs_def])
    fix C r assume C: "ba_wf C" "rest C = (?n @ map byte_of s) @ r" "ba_little C = ba_little B" "ba_pos C = ba_pos B"
    have "rest C = le_bytes (if ba_little C then ?v else byteswap ?v) @ map byte_of s @ r" using C(2,3) by simp
    note h = readFuint_rest [OF d C(1) this]
    have "readFuint C = Inr (?v, at_pos (ba_pos C + LENGTH('a) div 8) C)" using h by blast
    moreover have "read_string (length s) (at_pos (ba_pos C + LENGTH('a) div 8) C) =
        Inr (s, at_pos (ba_pos C + LENGTH('a) div 8 + length s) C)"
      using read_string_rest [of "at_pos (ba_pos C + LENGTH('a) div 8) C" s r] h assms(2) by simp
    ultimately show "rbind (readFuint C) (\<lambda>(n :: 'a word, B). read_string (unat n) B) =
        Inr (s, at_pos (ba_pos B + length (?n @ map byte_of s)) C)"
      using u C(4) by (simp add: add.assoc)
  qed
qed

lemma string_back:
  assumes "ba_wf B" and "s \<noteq> []"
  shows "length s < 2 ^ 16 \<Longrightarrow> reads_back writeStringF16 readStringF16 s B"
    and "length s < 2 ^ 32 \<Longrightarrow> reads_back writeStringF32 readStringF32 s B"
    and "length s < 2 ^ 64 \<Longrightarrow> reads_back writeStringF64 readStringF64 s B"
    and "length s < 2 ^ 64 \<Longrightarrow> reads_back writeStringVint readStringVint s B"
proof -
  show "length s < 2 ^ 16 \<Longrightarrow> reads_back writeStringF16 readStringF16 s B"
    using fixed_string_back [where 'a = 16, OF assms]
    by (simp add: length16 writeStringF16_def [abs_def] readStringF16_def [abs_def])
  show "length s < 2 ^ 32 \<Longrightarrow> reads_back writeStringF32 readStringF32 s B"
    using fixed_string_back [where 'a = 32, OF assms]
    by (simp add: length32 writeStringF32_def [abs_def] readStringF32_def [abs_def])
  show "length s < 2 ^ 64 \<Longrightarrow> reads_back writeStringF64 readStringF64 s B"
    using fixed_string_back [where 'a = 64, OF assms]
    by (simp add: length64 writeStringF64_def [abs_def] readStringF64_def [abs_def])
  assume L: "length s < 2 ^ 64"
  let ?v = "of_nat (length s) :: 64 word"
  let ?n = "enc7 (unat ?v)"
  have "writeUint64 ?v B = ba_write ?n B" by (simp add: writeUint64_def varint64_enc7)
  from two_writes [of B "writeUint64 ?v", OF assms(1) this] obtain B'
    where w: "rbind (writeUint64 ?v B) (ba_write (map byte_of s)) = Inr B'" "written (?n @ map byte_of s) B B'" by blast
  show "reads_back writeStringVint readStringVint s B"
  proof (rule reads_backI [OF assms(1) _ w(2)])
    show "writeStringVint s B = Inr B'" using w(1) by (simp add: writeStringVint_def write_string_def [abs_def])
    fix C r assume C: "ba_wf C" "rest C = (?n @ map byte_of s) @ r" "ba_pos C = ba_pos B"
    have "rest C = ?n @ map byte_of s @ r" using C(2) by simp
    note h = readUint64_rest [OF C(1) this]
    have "read_string (length s) (at_pos (ba_pos C + length ?n) C) = Inr (s, at_pos (ba_pos C + length ?n + length s) C)"
      using read_string_rest [of "at_pos (ba_pos C + length ?n) C" s r] h assms(2) by simp
    with h C(3) L show "readStringVint C = Inr (s, at_pos (ba_pos B + length (?n @ map byte_of s)) C)"
      by (simp add: readStringVint_def length64 add.assoc)
  qed
qed

section \<open>Buffers\<close>

text \<open>A list of buffers that covers \<open>n\<close> bytes from position \<open>p\<close> on.\<close>

fun tiles :: "nat \<Rightarrow> nat \<Rightarrow> iovec list \<Rightarrow> nat \<Rightarrow> bool" where
  "tiles base p [] n \<longleftrightarrow> n = 0"
| "tiles base p ((i, off, len) # vs) n \<longleftrightarrow>
     i = p div base \<and> off = p mod base \<and> off + len \<le> base \<and> len \<le> n \<and> tiles base (p + len) vs (n - len)"

lemma iov_loop_tiles:
  "0 < base \<Longrightarrow> uniform base nodes \<Longrightarrow> p + n \<le> base * length nodes \<Longrightarrow>
   \<exists>vs. iov_loop (node_ptr base (length nodes) p) (p mod base) n nodes = Inr vs \<and> tiles base p vs n \<and> (n \<noteq> 0 \<longrightarrow> vs \<noteq> [])"
proof (induction n arbitrary: p rule: less_induct)
  case (less n)
  show ?case
  proof (cases "n = 0")
    case True
    then show ?thesis by (simp add: iov_loop.simps)
  next
    case False
    define ncap where "ncap = base - p mod base"
    have p: "p < base * length nodes" using less.prems(3) False by simp
    note here = node_ptr_here [OF less.prems(1) p]
    have ncap: "0 < ncap" "p mod base + ncap = base" using less.prems(1) by (simp_all add: ncap_def)
    have node: "length (nodes ! (p div base)) = base" using less.prems(2) here(2) by (simp add: uniform_def)
    show ?thesis
    proof (cases "n \<le> ncap")
      case True
      then show ?thesis using here(1) node ncap False by (subst iov_loop.simps) (simp add: ncap_def [symmetric])
    next
      case False
      have n: "n - ncap < n" "p + ncap + (n - ncap) \<le> base * length nodes" using False ncap(1) less.prems(3) by auto
      obtain vs where "iov_loop (node_ptr base (length nodes) (p + ncap)) ((p + ncap) mod base) (n - ncap) nodes = Inr vs"
        "tiles base (p + ncap) vs (n - ncap)" using less.IH [OF n(1) less.prems(1,2) n(2)] by blast
      then show ?thesis
        using here(1) node ncap False \<open>n \<noteq> 0\<close> node_ptr_next(1) [OF less.prems(1) ncap(2), of nodes]
          node_ptr_next(2) [OF less.prems(1) ncap(2)]
        by (subst iov_loop.simps) (simp add: ncap_def [symmetric])
    qed
  qed
qed

lemma tiles_bytes:
  "uniform base nodes \<Longrightarrow> 0 < base \<Longrightarrow> p + n \<le> base * length nodes \<Longrightarrow> tiles base p vs n \<Longrightarrow>
   concat (map (iov_bytes nodes) vs) = take n (drop p (concat nodes))"
proof (induction vs arbitrary: p n)
  case (Cons v vs)
  obtain i off len where v: "v = (i, off, len)" by (cases v) auto
  show ?case
  proof (cases "len = 0")
    case True
    then show ?thesis using Cons v by (auto simp: iov_bytes_def)
  next
    case False
    with Cons.prems v have t: "i = p div base" "off = p mod base" "off + len \<le> base" "len \<le> n" "tiles base (p + len) vs (n - len)"
      and p: "p < base * length nodes" by auto
    have "take len (drop off (nodes ! i)) = take len (drop p (concat nodes))"
      using take_node [OF Cons.prems(1) node_ptr_here(2) [OF Cons.prems(2) p] t(3) [unfolded t(2)]] node_ptr_here(3) [OF Cons.prems(2) p] t
      by simp
    moreover have "concat (map (iov_bytes nodes) vs) = take (n - len) (drop (p + len) (concat nodes))"
      using Cons.IH [OF Cons.prems(1,2) _ t(5)] Cons.prems(3) t(4) by simp
    ultimately show ?thesis using v t(4) take_drop_split [OF t(4), of p "concat nodes"] by (simp add: iov_bytes_def)
  qed
qed simp

lemma tiles_fill:
  "uniform base nodes \<Longrightarrow> 0 < base \<Longrightarrow> p + n \<le> base * length nodes \<Longrightarrow> tiles base p vs n \<Longrightarrow> length bs \<le> n \<Longrightarrow>
   uniform base (iov_fill vs bs nodes) \<and> length (iov_fill vs bs nodes) = length nodes \<and>
   concat (iov_fill vs bs nodes) = overwrite p bs (concat nodes)"
proof (induction vs arbitrary: p n bs nodes)
  case (Cons v vs)
  obtain i off len where v: "v = (i, off, len)" by (cases v) auto
  let ?a = "take len bs" and ?b = "drop len bs"
  let ?nodes = "nodes[i := overwrite off ?a (nodes ! i)]"
  have t: "i = p div base" "off = p mod base" "off + len \<le> base" "len \<le> n" "tiles base (p + len) vs (n - len)"
    using Cons.prems v by auto
  show ?case
  proof (cases "p < base * length nodes")
    case False
    then have n: "n = 0" "base * length nodes \<le> p" using Cons.prems(3) by auto
    then have "bs = []" "len = 0" using Cons.prems(5) t(4) by auto
    moreover have "length nodes \<le> i" using n(2) t(1) Cons.prems(2)
      by (simp add: less_eq_div_iff_mult_less_eq mult.commute)
    ultimately show ?thesis using Cons.IH [of nodes p 0 "[]"] Cons.prems(1-3) v t n by simp
  next
    case True
    note here = node_ptr_here [OF Cons.prems(2) True]
    have node: "length (nodes ! i) = base" using Cons.prems(1) here(2) t(1) by (simp add: uniform_def)
    have a: "off + length ?a \<le> base" using t(3) by simp
    have u: "uniform base ?nodes" using uniform_update [OF Cons.prems(1)] node a by simp
    have c: "concat ?nodes = overwrite p ?a (concat nodes)"
      using concat_update [OF Cons.prems(1) here(2) a [unfolded t(2)]] t here(3) by simp
    have "p + len + (n - len) \<le> base * length ?nodes" "length ?b \<le> n - len" using Cons.prems t(4) by auto
    from Cons.IH [OF u Cons.prems(2) this(1) t(5) this(2)]
    have IH: "uniform base (iov_fill vs ?b ?nodes)" "length (iov_fill vs ?b ?nodes) = length nodes"
      "concat (iov_fill vs ?b ?nodes) = overwrite (p + len) ?b (overwrite p ?a (concat nodes))"
      unfolding c by auto
    have "overwrite (p + len) ?b (overwrite p ?a (concat nodes)) = overwrite p bs (concat nodes)"
    proof (cases "length bs \<le> len")
      case False
      then show ?thesis using overwrite_append [of p ?a ?b "concat nodes"] Cons.prems(3,5) length_concat_uniform [OF Cons.prems(1)]
        by simp
    qed simp
    with IH v show ?thesis by simp
  qed
qed simp

lemma setPosition_any:
  assumes "ba_wf B" and "v \<le> ba_cap B"
  shows "setPosition v B =
    Inr (B\<lparr>ba_pos := v, ba_size := max (ba_size B) v, ba_cur := node_ptr (ba_base B) (length (ba_nodes B)) v\<rparr>)"
  using assms seek_spec [of "ba_base B" "ba_nodes B" v 0]
  by (auto simp: setPosition_def ba_wf_def option.map_ident)

lemma sock_read_written:
  assumes "ba_wf B" and "0 < len" and r: "recv len s = (rt, bs, s')"
    and "rt \<le> int len" and "length bs = nat rt"
  obtains B' where "sock_read recv True len B s = Inr (rt, B', s')" and "written bs B B'"
proof -
  define C where "C = addCapacity len B"
  note c = addCapacity_spec [OF assms(1) C_def]
  have wf: "ba_wf C" and room: "ba_pos C + len \<le> ba_base C * length (ba_nodes C)" using c by (auto simp: ba_wf_def)
  have b: "0 < ba_base C" "uniform (ba_base C) (ba_nodes C)" using wf by (auto simp: ba_wf_def)
  obtain vs where vs: "iov_loop (node_ptr (ba_base C) (length (ba_nodes C)) (ba_pos C)) (ba_pos C mod ba_base C) len (ba_nodes C) = Inr vs"
    "tiles (ba_base C) (ba_pos C) vs len" "vs \<noteq> []"
    using iov_loop_tiles [OF b room] assms(2) by blast
  have "ba_cur C = node_ptr (ba_base C) (length (ba_nodes C)) (ba_pos C)" using wf by (simp add: ba_wf_def)
  then have g: "getWriteBuffers len B = Inr (len, vs, C)"
    using assms(2) vs(1) by (simp add: getWriteBuffers_def C_def [symmetric] Let_def)
  have l: "length bs \<le> len" using assms(4,5) by simp
  note f = tiles_fill [OF b(2,1) room vs(2) l]
  define D where "D = C\<lparr>ba_nodes := iov_fill vs bs (ba_nodes C)\<rparr>"
  have ne: "ba_nodes C \<noteq> []" using wf by (simp add: ba_wf_def)
  then have "iov_fill vs bs (ba_nodes C) \<noteq> []" using f by (metis length_0_conv)
  then have wfD: "ba_wf D" using wf f by (simp add: ba_wf_def D_def)
  have lc: "length (concat (ba_nodes C)) = ba_cap C" using wf length_concat_uniform [OF b(2)] by (simp add: ba_wf_def)
  have sz: "ba_pos C \<le> ba_size C" "ba_size C \<le> ba_cap C" "ba_pos C + length bs \<le> ba_cap C"
    using wf room l by (auto simp: ba_wf_def)
  have data: "take (max (ba_size C) (ba_pos C + length bs)) (concat (ba_nodes D)) = overwrite (ba_pos B) bs (ba_data B)"
  proof -
    have d: "take (ba_size C) (concat (ba_nodes C)) = ba_data B" using c by (metis ba_data_def)
    have "take (max (ba_size C) (ba_pos C + length bs)) (overwrite (ba_pos C) bs (concat (ba_nodes C))) =
        overwrite (ba_pos C) bs (take (ba_size C) (concat (ba_nodes C)))"
      by (rule take_max_overwrite) (use sz lc in simp_all)
    then show ?thesis unfolding d using f c by (simp add: D_def)
  qed
  show ?thesis
  proof (cases "0 < rt")
    case True
    let ?v = "ba_pos B + nat rt"
    let ?B' = "D\<lparr>ba_pos := ?v, ba_size := max (ba_size D) ?v, ba_cur := node_ptr (ba_base D) (length (ba_nodes D)) ?v\<rparr>"
    have v: "?v \<le> ba_cap D" "ba_pos D = ba_pos B" using sz c assms(5) by (auto simp: D_def)
    have "sock_read recv True len B s = Inr (rt, ?B', s')"
      using g vs(3) r True setPosition_any [OF wfD v(1)] v(2) c by (simp add: sock_read_def D_def [symmetric] Let_def)
    moreover have "written bs B ?B'"
      using wfD v data c assms(5) by (simp add: written_def ba_wf_def ba_data_def D_def)
    ultimately show ?thesis by (rule that)
  next
    case False
    then have "bs = []" using assms(5) by simp
    moreover have "max (ba_size C) (ba_pos C) = ba_size C" using sz(1) by simp
    ultimately have "written bs B D" using wfD data c by (simp add: written_def ba_data_def D_def)
    moreover have "sock_read recv True len B s = Inr (rt, D, s')"
      using g vs(3) r False by (simp add: sock_read_def D_def [symmetric] Let_def)
    ultimately show ?thesis by (rule that [rotated])
  qed
qed

section \<open>Files\<close>

text \<open>From an aligned position every piece is a whole node or the rest.\<close>

lemma file_loop_aligned:
  "0 < base \<Longrightarrow> uniform base nodes \<Longrightarrow> base * k + n \<le> base * length nodes \<Longrightarrow> ba_base B = base \<Longrightarrow> ba_nodes B = nodes \<Longrightarrow>
   file_loop (int n) (int (base * k)) (node_ptr base (length nodes) (base * k)) B =
     Inr (take n (drop (base * k) (concat nodes)))"
proof (induction n arbitrary: k rule: less_induct)
  case (less n)
  show ?case
  proof (cases "n = 0")
    case True
    then show ?thesis by (simp add: file_loop.simps)
  next
    case False
    have p: "base * k < base * length nodes" using less.prems(3) False by linarith
    then have k: "k < length nodes" "node_ptr base (length nodes) (base * k) = Some k"
      using less.prems(1) by (simp_all add: node_ptr_def)
    have node: "length (nodes ! k) = base" using less.prems(2) k(1) by (simp add: uniform_def)
    define len where "len = min n base"
    have len: "0 < len" "len \<le> n" "len \<le> base" using False less.prems(1) by (auto simp: len_def)
    have nx: "next_node nodes k = node_ptr base (length nodes) (base * Suc k)"
      using less.prems(1) by (simp add: next_node_def node_ptr_def del: mult_Suc_right)
    have piece: "take len (nodes ! k) = take len (drop (base * k) (concat nodes))"
      using take_node [OF less.prems(2) k(1), of 0 len] len(3) by (simp add: mult.commute)
    have more: "file_loop (int (n - len)) (int (base * k + len)) (next_node nodes k) B =
        Inr (take (n - len) (drop (base * k + len) (concat nodes)))"
    proof (cases "n \<le> base")
      case True
      then show ?thesis by (simp add: len_def file_loop.simps)
    next
      case False
      then have "len = base" "base * k + len = base * Suc k" by (simp_all add: len_def)
      moreover have "n - base < n" "base * Suc k + (n - base) \<le> base * length nodes"
        using False less.prems(1,3) by simp_all
      ultimately show ?thesis using less.IH [of "n - base" "Suc k"] less.prems nx by (simp add: ac_simps)
    qed
    have "file_loop (int n) (int (base * k)) (Some k) B =
        rbind (file_loop (int n - int len) (int (base * k) + int len) (next_node nodes k) B)
          (\<lambda>bs. Inr (take len (nodes ! k) @ bs))"
    proof -
      have d: "int (base * k) mod int base = 0" by simp
      have l: "base < n \<Longrightarrow> len = base" "\<not> base < n \<Longrightarrow> len = n" by (simp_all add: len_def)
      show ?thesis
        by (subst file_loop.simps, cases "base < n")
          (use False in \<open>simp_all add: less.prems(4,5) Let_def d l del: of_nat_mult\<close>)
    qed
    moreover have "int n - int len = int (n - len)" using len(2) by (simp add: of_nat_diff)
    moreover have "int (base * k) + int len = int (base * k + len)" by simp
    moreover have "take len (drop (base * k) (concat nodes)) @ take (n - len) (drop (base * k + len) (concat nodes)) =
        take n (drop (base * k) (concat nodes))"
      by (rule take_drop_split [OF len(2)])
    ultimately show ?thesis unfolding k(2) by (simp only: more piece rbind_Inr)
  qed
qed

lemma writeToFile_aligned:
  assumes "ba_wf B" and "ba_base B dvd ba_pos B"
  shows "writeToFile B = Inr (rest B)"
proof -
  obtain k where k: "ba_pos B = ba_base B * k" using assms(2) by blast
  have wf: "0 < ba_base B" "uniform (ba_base B) (ba_nodes B)" "ba_base B * k + getReadSize B \<le> ba_base B * length (ba_nodes B)"
    and cur: "ba_cur B = node_ptr (ba_base B) (length (ba_nodes B)) (ba_base B * k)"
    using assms(1) k by (auto simp: ba_wf_def getReadSize_def)
  have "rest B = take (getReadSize B) (drop (ba_base B * k) (concat (ba_nodes B)))"
    using k by (simp add: rest_def ba_data_def drop_take getReadSize_def)
  then show ?thesis
    using file_loop_aligned [OF wf refl refl] cur k by (simp add: writeToFile_def)
qed

lemma writeToFile_misaligned:
  assumes "0 < getReadSize B" and "getReadSize B < ba_pos B mod ba_base B" and "getReadSize B \<le> ba_base B"
  shows "writeToFile B = Inl UndefinedBehaviour"
  using assms unfolding writeToFile_def
  by (subst file_loop.simps) (auto simp: Let_def split: option.splits simp flip: of_nat_mod)

lemma readFromFile_written:
  "ba_wf B \<Longrightarrow> \<exists>B'. readFromFile content B = Inr B' \<and> written content B B'"
proof (induction content B rule: readFromFile.induct)
  case (1 content B)
  have b: "ba_base B \<noteq> 0" using 1(2) by (simp add: ba_wf_def)
  show ?case
  proof (cases "length content < ba_base B")
    case True
    then show ?thesis using b ba_write_written [OF 1(2), of content] by (subst readFromFile.simps) simp
  next
    case False
    obtain B1 where w: "ba_write (take (ba_base B) content) B = Inr B1" "written (take (ba_base B) content) B B1"
      using ba_write_written [OF 1(2)] by blast
    then have "ba_wf B1" by (simp add: written_def)
    from 1(1) [OF b False w(1) this] obtain B2
      where r: "readFromFile (drop (ba_base B) content) B1 = Inr B2" "written (drop (ba_base B) content) B1 B2" by blast
    then show ?thesis
      using b False w written_append [OF 1(2) w(2) r(2)] by (subst readFromFile.simps) simp
  qed
qed

section \<open>Properties\<close>

text \<open>C20: a \<open>ByteArray\<close> behaves as one flat array with a position. Whatever its node size, a write never fails and
  replaces or extends the contents at the position, a read gives the bytes at the position and moves on or
  throws when fewer are left, \<open>setPosition\<close> moves within the contents; all three keep the chain well
  formed. Only at the very end of the allocated nodes a read, even of nothing, is undefined.\<close>

theorem byte_array_refines:
  assumes "ba_wf B"
  shows "(\<exists>B'. ba_write bs B = Inr B' \<and> ba_wf B' \<and> ba_pos B' = ba_pos B + length bs \<and>
      ba_data B' = take (ba_pos B) (ba_data B) @ bs @ drop (ba_pos B + length bs) (ba_data B)) \<and>
    ba_read k B =
      (if length (ba_data B) < ba_pos B + k then Inl OutOfRange
       else if ba_pos B = ba_cap B then Inl UndefinedBehaviour
       else Inr (take k (drop (ba_pos B) (ba_data B)), at_pos (ba_pos B + k) B)) \<and>
    (p \<le> length (ba_data B) \<longrightarrow>
      setPosition p B = Inr (at_pos p B) \<and> ba_wf (at_pos p B) \<and> ba_data (at_pos p B) = ba_data B)"
proof (intro conjI impI)
  show "\<exists>B'. ba_write bs B = Inr B' \<and> ba_wf B' \<and> ba_pos B' = ba_pos B + length bs \<and>
      ba_data B' = take (ba_pos B) (ba_data B) @ bs @ drop (ba_pos B + length bs) (ba_data B)"
    using ba_write_written [OF assms, of bs] by (auto simp: written_def overwrite_def)
  have "ba_pos B \<le> ba_size B" using assms by (simp add: ba_wf_def)
  then show "ba_read k B =
      (if length (ba_data B) < ba_pos B + k then Inl OutOfRange
       else if ba_pos B = ba_cap B then Inl UndefinedBehaviour
       else Inr (take k (drop (ba_pos B) (ba_data B)), at_pos (ba_pos B + k) B))"
    using ba_read_spec [OF assms, of k] assms by (auto simp: getReadSize_def rest_def)
  assume "p \<le> length (ba_data B)"
  then have "p \<le> ba_size B" using assms by simp
  then show "setPosition p B = Inr (at_pos p B)" "ba_wf (at_pos p B)" "ba_data (at_pos p B) = ba_data B"
    using setPosition_spec [OF assms] at_pos_wf [OF assms] by blast+
qed

text \<open>Nodes of two bytes, and three bytes already in them.\<close>

definition small_array :: byte_array where
  "small_array = (case ba_write [1, 2, 3] (new_byte_array 2 (\<lambda>_. 0)) of Inr B \<Rightarrow> B)"

lemma small_array_wf: "ba_wf small_array" "ba_data small_array = [1, 2, 3]" "ba_pos small_array = 3"
proof -
  have "ba_wf (new_byte_array 2 (\<lambda>_. 0))" "ba_data (new_byte_array 2 (\<lambda>_. 0)) = []" "ba_pos (new_byte_array 2 (\<lambda>_. 0)) = 0"
    using new_byte_array_wf [of 2] by (simp_all add: new_byte_array_def)
  with ba_write_written [of "new_byte_array 2 (\<lambda>_. 0)" "[1, 2, 3]"]
  show "ba_wf small_array" "ba_data small_array = [1, 2, 3]" "ba_pos small_array = 3"
    by (auto simp: small_array_def written_def overwrite_def)
qed

theorem byte_array_refines_witness:
  "\<exists>B'. ba_write [4, 5] small_array = Inr B' \<and> ba_data B' = [1, 2, 3, 4, 5]"
  using byte_array_refines [OF small_array_wf(1), of "[4, 5]" 0 0] small_array_wf(2,3) by auto



text \<open>A text that is not empty and whose size fits the length field is read back, with a length of 16, 32 or 64
  bits or of variable length.\<close>

theorem strings_read_back:
  assumes "ba_wf B" and "s \<noteq> []" and "length s < 2 ^ 16"
  shows "reads_back writeStringF16 readStringF16 s B \<and> reads_back writeStringF32 readStringF32 s B \<and>
    reads_back writeStringF64 readStringF64 s B \<and> reads_back writeStringVint readStringVint s B"
proof -
  have "length s < 2 ^ 32" "length s < 2 ^ 64" using assms(3) by simp_all
  then show ?thesis using string_back [OF assms(1,2)] assms(3) by blast
qed

theorem strings_read_back_witness:
  "reads_back writeStringVint readStringVint ''blog'' small_array"
  using strings_read_back [OF small_array_wf(1), of "''blog''"] by simp

text \<open>Where \<open>ByteArray\<close> is undefined. A signed variable-length integer from half the range on cannot be
  written, for the sign is folded in by a signed multiplication; and an empty text that ends where the nodes
  end can be written but not read.\<close>

theorem byte_array_undefined:
  "(2 ^ 30 \<le> i \<and> i < 2 ^ 31 \<longrightarrow> writeInt32 i B = Inl UndefinedBehaviour) \<and>
   (\<exists>B' C. writeStringF16 [] (new_byte_array 2 junk) = Inr B' \<and> setPosition 0 B' = Inr C \<and>
      readStringF16 C = Inl UndefinedBehaviour)"
proof (intro conjI impI)
  assume "2 ^ 30 \<le> i \<and> i < 2 ^ 31"
  then show "writeInt32 i B = Inl UndefinedBehaviour"
    by (simp add: writeInt32_def EncodeZigzag32_def i32_checked_def in_i32_def)
next
  let ?B = "new_byte_array 2 junk"
  have wf: "ba_wf ?B" "ba_data ?B = []" "ba_pos ?B = 0" "\<not> ba_little ?B" "ba_base ?B = 2"
    using new_byte_array_wf [of 2] by (simp_all add: new_byte_array_def)
  let ?n = "le_bytes (byteswap (0 :: 16 word))"
  have l: "length ?n = 2" by simp
  define B' where "B' = ?B\<lparr>ba_nodes := [?n], ba_pos := 2, ba_size := 2, ba_cur := None\<rparr>"
  have "ba_write ?n ?B = Inr B'"
    using l by (cases ?n) (auto simp: ba_write_def addCapacity_def getCapacity_def new_byte_array_def write_nodes.simps
      overwrite_def next_node_def B'_def Let_def new_node_def)
  then have w: "writeStringF16 [] ?B = Inr B'"
    using wf(4) by (simp add: writeStringF16_def writeFuint_def write_string_def ba_write_def)
  have wfB: "ba_wf B'" using l by (simp add: ba_wf_def B'_def new_byte_array_def uniform_def node_ptr_def)
  have p: "setPosition 0 B' = Inr (at_pos 0 B')" and wfC: "ba_wf (at_pos 0 B')"
    using setPosition_spec [OF wfB, of 0] at_pos_wf [OF wfB, of 0] by simp_all
  have "rest (at_pos 0 B') = ?n" using l by (simp add: rest_at_pos ba_data_def B'_def new_byte_array_def)
  moreover have "\<not> ba_little (at_pos 0 B')" by (simp add: B'_def new_byte_array_def)
  ultimately have "readFuint (at_pos 0 B') = Inr (0 :: 16 word, at_pos 2 B')" "ba_wf (at_pos 2 B')"
    using readFuint_rest [of "at_pos 0 B'" "0 :: 16 word" "[]"] wfC by (simp_all flip: numeral_2_eq_2)
  moreover have "ba_read 0 (at_pos 2 B') = Inl UndefinedBehaviour"
    by (simp add: ba_read_def at_pos_def B'_def new_byte_array_def node_ptr_def)
  ultimately have "readStringF16 (at_pos 0 B') = Inl UndefinedBehaviour"
    by (simp add: readStringF16_def read_string_def)
  with w p show "\<exists>B' C. writeStringF16 [] ?B = Inr B' \<and> setPosition 0 B' = Inr C \<and> readStringF16 C = Inl UndefinedBehaviour"
    by blast
qed

theorem byte_array_undefined_witness: "writeInt32 (2 ^ 30) small_array = Inl UndefinedBehaviour"
  using byte_array_undefined [of "2 ^ 30" small_array] by simp

text \<open>Saving a buffer. From a position at the start of a node \<open>writeToFile\<close> writes what is left to read, and
  \<open>readFromFile\<close> appends the whole file; from a position further inside its node than there are bytes left the
  count handed to the stream is negative.\<close>

theorem byte_array_files:
  assumes "ba_wf B"
  shows "(\<exists>B'. readFromFile content B = Inr B' \<and> written content B B') \<and>
    (ba_base B dvd ba_pos B \<longrightarrow> writeToFile B = Inr (rest B)) \<and>
    (0 < length (rest B) \<and> length (rest B) < ba_pos B mod ba_base B \<longrightarrow> writeToFile B = Inl UndefinedBehaviour)"
proof (intro conjI impI)
  show "\<exists>B'. readFromFile content B = Inr B' \<and> written content B B'" by (rule readFromFile_written [OF assms])
  show "ba_base B dvd ba_pos B \<Longrightarrow> writeToFile B = Inr (rest B)" by (rule writeToFile_aligned [OF assms])
  have "ba_pos B mod ba_base B < ba_base B" using assms by (simp add: ba_wf_def)
  moreover assume "0 < length (rest B) \<and> length (rest B) < ba_pos B mod ba_base B"
  ultimately show "writeToFile B = Inl UndefinedBehaviour"
    using writeToFile_misaligned [of B] length_rest [OF assms] by simp
qed

theorem byte_array_files_witness: "writeToFile (at_pos 0 small_array) = Inr [1, 2, 3]"
proof -
  have "ba_wf (at_pos 0 small_array)" using at_pos_wf [OF small_array_wf(1), of 0] by simp
  from byte_array_files [OF this] show ?thesis by (simp add: rest_at_pos small_array_wf(2))
qed

text \<open>What the socket layer promises of a receive into buffers of \<open>len\<close> bytes, with \<open>got\<close> the bytes received
  so far.\<close>

definition recv_law :: "('s \<Rightarrow> byte list) \<Rightarrow> (nat \<Rightarrow> 's \<Rightarrow> int \<times> byte list \<times> 's) \<Rightarrow> bool" where
  "recv_law got recv \<longleftrightarrow>
     (\<forall>len s. case recv len s of (rt, bs, s') \<Rightarrow> rt \<le> int len \<and> length bs = nat rt \<and> got s' = got s @ bs)"

lemma fix_loop_written:
  assumes law: "recv_law got recv"
  shows "ba_wf B \<Longrightarrow> \<exists>n B' s' bs. fix_loop (sock_read recv True) n0 left B s = Inr (n, B', s') \<and> written bs B B' \<and>
    got s' = got s @ bs \<and> (length bs = left \<and> n = n0 \<or> length bs < left \<and> n \<le> 0)"
proof (induction left arbitrary: B s rule: less_induct)
  case (less left)
  show ?case
  proof (cases "left = 0")
    case True
    then show ?thesis using less.prems by (auto simp: fix_loop.simps written_def intro!: exI [of _ "[]"])
  next
    case False
    obtain rt bs s1 where r: "recv left s = (rt, bs, s1)" by (metis prod_cases3)
    then have l: "rt \<le> int left" "length bs = nat rt" "got s1 = got s @ bs"
      using law [unfolded recv_law_def, rule_format, of left s] by auto
    obtain B1 where b: "sock_read recv True left B s = Inr (rt, B1, s1)" "written bs B B1"
      using sock_read_written [of B left recv s rt bs s1] less.prems False r l(1,2) by auto
    show ?thesis
    proof (cases "rt \<le> 0")
      case True
      then show ?thesis using False b l by (subst fix_loop.simps) auto
    next
      case rt: False
      then have lt: "left - nat rt < left" using False by simp
      have "ba_wf B1" using b(2) by (simp add: written_def)
      from less.IH [OF lt this, of s1] obtain n B2 s2 bs2
        where i: "fix_loop (sock_read recv True) n0 (left - nat rt) B1 s1 = Inr (n, B2, s2)" "written bs2 B1 B2"
          "got s2 = got s1 @ bs2" "length bs2 = left - nat rt \<and> n = n0 \<or> length bs2 < left - nat rt \<and> n \<le> 0" by blast
      have "fix_loop (sock_read recv True) n0 left B s = Inr (n, B2, s2)"
        using False rt b(1) i(1) by (subst fix_loop.simps) simp
      moreover have "length (bs @ bs2) = left \<and> n = n0 \<or> length (bs @ bs2) < left \<and> n \<le> 0"
        using i(4) l(1,2) rt by auto
      ultimately show ?thesis
        using written_append [OF less.prems b(2) i(2)] i(3) l(3) by (intro exI [of _ n] exI [of _ B2] exI [of _ s2] exI [of _ "bs @ bs2"]) simp
    qed
  qed
qed

text \<open>Receiving into a buffer loses nothing and overruns nothing: whatever pieces the socket delivers,
  \<open>readFixSize\<close> leaves exactly the bytes received at the position of the buffer, and either all that were
  asked for have come or its result is not positive.\<close>

theorem socket_fills_buffer:
  assumes "recv_law got recv" and "ba_wf B"
  shows "\<exists>n B' s' bs. readFixSize_ba recv True len B s = Inr (n, B', s') \<and> written bs B B' \<and> got s' = got s @ bs \<and>
    (length bs = len \<and> n = int len \<or> length bs < len \<and> n \<le> 0)"
  unfolding readFixSize_ba_def by (rule fix_loop_written [OF assms])

text \<open>A socket with seven bytes to come, at most three at a time.\<close>

definition trickle :: "nat \<Rightarrow> byte list \<times> byte list \<Rightarrow> int \<times> byte list \<times> byte list \<times> byte list" where
  "trickle len s =
     (case s of (past, coming) \<Rightarrow>
        let k = min len (min 3 (length coming)) in (int k, take k coming, past @ take k coming, drop k coming))"

theorem socket_fills_buffer_witness:
  "\<exists>B'. readFixSize_ba trickle True 5 small_array ([], [1, 2, 3, 4, 5, 6, 7]) = Inr (5, B', [1, 2, 3, 4, 5], [6, 7]) \<and>
     ba_data B' = [1, 2, 3, 1, 2, 3, 4, 5]"
proof -
  have "recv_law fst trickle" by (auto simp: recv_law_def trickle_def Let_def)
  from socket_fills_buffer [OF this small_array_wf(1), of 5 "([], [1, 2, 3, 4, 5, 6, 7])"]
  obtain n B' s' bs where r: "readFixSize_ba trickle True 5 small_array ([], [1, 2, 3, 4, 5, 6, 7]) = Inr (n, B', s')"
    "written bs small_array B'" "fst s' = bs" by auto
  moreover have "map_sum id (\<lambda>(n, B, s). (n, s)) (readFixSize_ba trickle True 5 small_array ([], [1, 2, 3, 4, 5, 6, 7])) =
      Inr (5, [1, 2, 3, 4, 5], [6, 7])" by code_simp
  ultimately show ?thesis using small_array_wf(2,3) by (auto simp: written_def overwrite_def)
qed

end
