(* ===== verification/Timer.thy ===== *)
theory Timer
  imports OrdMap "HOL-Library.Word"
begin

unbundle bit_operations_syntax

text \<open>
  \<open>Timer\<close> and \<open>TimerManager\<close> of \<^verbatim>\<open>sylar/timer.cc\<close>. A timer lives at an address in a store, the set of
  timers is the list of their addresses in the order of \<open>Timer::Comparator\<close>, which looks into the store. Times
  are 64-bit milliseconds; \<open>now\<close> is what \<open>GetElapsedMS\<close> answers to the call, \<open>a\<close> and \<open>b\<close> are the addresses at which the
  call allocates. The operations hold the write lock from their first access on, so they are single steps;
  only the clock is read before it.
\<close>

section \<open>State\<close>

record 'cb timer =
  t_recurring :: bool
  t_ms :: "64 word"
  t_next :: "64 word"
  t_cb :: "'cb option"

record 'cb timer_manager =
  tm_store :: "nat \<Rightarrow> 'cb timer"
  tm_timers :: "nat list"
  tm_tickled :: bool
  tm_previous :: "64 word"

text \<open>\<open>Timer::Comparator\<close> on shared pointers, \<open>None\<close> the null pointer.\<close>

definition Comparator :: "(nat \<Rightarrow> 'cb timer) \<Rightarrow> nat option \<Rightarrow> nat option \<Rightarrow> bool" where
  "Comparator st lhs rhs =
     (case (lhs, rhs) of
        (None, None) \<Rightarrow> False
      | (None, Some b) \<Rightarrow> True
      | (Some a, None) \<Rightarrow> False
      | (Some a, Some b) \<Rightarrow>
          if t_next (st a) < t_next (st b) then True
          else if t_next (st b) < t_next (st a) then False
          else a < b)"

lemma Comparator_simps:
  "\<not> Comparator st x None"
  "Comparator st None (Some b)"
  "Comparator st (Some a) (Some b) \<longleftrightarrow> t_next (st a) < t_next (st b) \<or> t_next (st a) = t_next (st b) \<and> a < b"
  by (auto simp: Comparator_def split: option.split)

lemma lex_trans:
  fixes u v w :: "'a::linorder" and a b c :: nat
  shows "u < v \<or> u = v \<and> a < b \<Longrightarrow> v < w \<or> v = w \<and> b < c \<Longrightarrow> u < w \<or> u = w \<and> a < c"
  by (elim disjE) auto

lemma Comparator_trans: "Comparator st x y \<Longrightarrow> Comparator st y z \<Longrightarrow> Comparator st x z"
  by (cases x; cases y; cases z) (simp_all add: Comparator_simps, rule lex_trans)

interpretation pointers: strict_total_order "Comparator st" for st
proof (rule strict_total_orderI)
  fix x y z :: "nat option"
  show "\<not> Comparator st x x" by (cases x) (simp_all add: Comparator_simps)
  show "Comparator st x y \<Longrightarrow> Comparator st y z \<Longrightarrow> Comparator st x z" by (rule Comparator_trans)
  show "x \<noteq> y \<Longrightarrow> Comparator st x y \<or> Comparator st y x"
    by (cases x; cases y) (auto simp: Comparator_simps)
qed

text \<open>The same on timers that exist.\<close>

definition before :: "(nat \<Rightarrow> 'cb timer) \<Rightarrow> nat \<Rightarrow> nat \<Rightarrow> bool" where
  "before st a b = Comparator st (Some a) (Some b)"

interpretation timers: strict_total_order "before st" for st
proof (rule strict_total_orderI)
  fix x y z :: nat
  show "\<not> before st x x" unfolding before_def by (rule pointers.lt_irrefl)
  show "before st x y \<Longrightarrow> before st y z \<Longrightarrow> before st x z" unfolding before_def by (rule pointers.lt_trans)
  show "x \<noteq> y \<Longrightarrow> before st x y \<or> before st y x" unfolding before_def by (rule pointers.total) simp
qed

section \<open>Operations\<close>

definition new_timer_manager :: "64 word \<Rightarrow> 'cb timer_manager" where
  "new_timer_manager now =
     \<lparr>tm_store = (\<lambda>_. \<lparr>t_recurring = False, t_ms = 0, t_next = 0, t_cb = None\<rparr>), tm_timers = [], tm_tickled = False,
      tm_previous = now\<rparr>"

definition new_timer :: "64 word \<Rightarrow> 'cb \<Rightarrow> bool \<Rightarrow> 64 word \<Rightarrow> 'cb timer" where
  "new_timer ms cb recurring now = \<lparr>t_recurring = recurring, t_ms = ms, t_next = now + ms, t_cb = Some cb\<rparr>"

definition new_now_timer :: "64 word \<Rightarrow> 'cb timer" where
  "new_now_timer next_time = \<lparr>t_recurring = False, t_ms = 0, t_next = next_time, t_cb = None\<rparr>"

definition put_timer :: "nat \<Rightarrow> 'cb timer \<Rightarrow> 'cb timer_manager \<Rightarrow> 'cb timer_manager" where
  "put_timer a t M = M\<lparr>tm_store := (tm_store M)(a := t)\<rparr>"

text \<open>The protected \<open>addTimer\<close>: the second component says whether \<open>onTimerInsertedAtFront\<close> is called.\<close>

definition insert_timer :: "nat \<Rightarrow> 'cb timer_manager \<Rightarrow> 'cb timer_manager \<times> bool" where
  "insert_timer a M =
     (let ts = set_insert (before (tm_store M)) a (tm_timers M);
          at_front = (hd ts = a \<and> \<not> tm_tickled M)
      in (M\<lparr>tm_timers := ts, tm_tickled := (at_front \<or> tm_tickled M)\<rparr>, at_front))"

definition addTimer :: "nat \<Rightarrow> 64 word \<Rightarrow> 'cb \<Rightarrow> bool \<Rightarrow> 64 word \<Rightarrow> 'cb timer_manager \<Rightarrow> 'cb timer_manager \<times> bool" where
  "addTimer a ms cb recurring now M = insert_timer a (put_timer a (new_timer ms cb recurring now) M)"

text \<open>\<open>OnTimer\<close> runs the callback if the guarded object still exists.\<close>

definition OnTimer :: "('w \<Rightarrow> bool) \<Rightarrow> ('w \<Rightarrow> 'w) \<Rightarrow> 'w \<Rightarrow> 'w" where
  "OnTimer alive cb w = (if alive w then cb w else w)"

definition addConditionTimer ::
    "nat \<Rightarrow> 64 word \<Rightarrow> ('w \<Rightarrow> 'w) \<Rightarrow> ('w \<Rightarrow> bool) \<Rightarrow> bool \<Rightarrow> 64 word \<Rightarrow> ('w \<Rightarrow> 'w) timer_manager \<Rightarrow>
     ('w \<Rightarrow> 'w) timer_manager \<times> bool" where
  "addConditionTimer a ms cb alive recurring now M = addTimer a ms (OnTimer alive cb) recurring now M"

text \<open>Erasing the iterator \<^verbatim>\<open>end()\<close> is undefined.\<close>

definition cancel :: "nat \<Rightarrow> 'cb timer_manager \<Rightarrow> (bool \<times> 'cb timer_manager) res" where
  "cancel a M =
     (if t_cb (tm_store M a) \<noteq> None then
        let M = put_timer a ((tm_store M a)\<lparr>t_cb := None\<rparr>) M; lt = before (tm_store M)
        in case set_find lt a (tm_timers M) of
             None \<Rightarrow> Inl UndefinedBehaviour
           | Some _ \<Rightarrow> Inr (True, M\<lparr>tm_timers := set_erase lt a (tm_timers M)\<rparr>)
      else Inr (False, M))"

definition refresh :: "nat \<Rightarrow> 64 word \<Rightarrow> 'cb timer_manager \<Rightarrow> bool \<times> 'cb timer_manager" where
  "refresh a now M =
     (if t_cb (tm_store M a) = None then (False, M)
      else case set_find (before (tm_store M)) a (tm_timers M) of
        None \<Rightarrow> (False, M)
      | Some _ \<Rightarrow>
          let ts = set_erase (before (tm_store M)) a (tm_timers M);
              t = tm_store M a;
              M = put_timer a (t\<lparr>t_next := now + t_ms t\<rparr>) M
          in (True, M\<lparr>tm_timers := set_insert (before (tm_store M)) a ts\<rparr>))"

definition reset :: "nat \<Rightarrow> 64 word \<Rightarrow> bool \<Rightarrow> 64 word \<Rightarrow> 'cb timer_manager \<Rightarrow> bool \<times> 'cb timer_manager \<times> bool" where
  "reset a ms from_now now M =
     (let t = tm_store M a
      in if ms = t_ms t \<and> \<not> from_now then (True, M, False)
         else if t_cb t = None then (False, M, False)
         else case set_find (before (tm_store M)) a (tm_timers M) of
           None \<Rightarrow> (False, M, False)
         | Some _ \<Rightarrow>
             let ts = set_erase (before (tm_store M)) a (tm_timers M);
                 begin_time = (if from_now then now else t_next t - t_ms t);
                 M = put_timer a (t\<lparr>t_ms := ms, t_next := begin_time + ms\<rparr>) (M\<lparr>tm_timers := ts\<rparr>)
             in case insert_timer a M of (M, front) \<Rightarrow> (True, M, front))"

definition getNextTimer :: "64 word \<Rightarrow> 'cb timer_manager \<Rightarrow> 64 word \<times> 'cb timer_manager" where
  "getNextTimer now M =
     (let M = M\<lparr>tm_tickled := False\<rparr>
      in (case tm_timers M of
            [] \<Rightarrow> NOT 0
          | a # _ \<Rightarrow> let n = t_next (tm_store M a) in if n \<le> now then 0 else n - now, M))"

definition hasTimer :: "'cb timer_manager \<Rightarrow> bool" where
  "hasTimer M \<longleftrightarrow> tm_timers M \<noteq> []"

definition detectClockRollover :: "64 word \<Rightarrow> 'cb timer_manager \<Rightarrow> bool \<times> 'cb timer_manager" where
  "detectClockRollover now M =
     (now < tm_previous M \<and> now < tm_previous M - 60 * 60 * 1000, M\<lparr>tm_previous := now\<rparr>)"

text \<open>\<^verbatim>\<open>lower_bound(now_timer)\<close>, with the temporary timer at \<open>b\<close>, and the loop behind it.\<close>

definition expired_prefix :: "nat \<Rightarrow> 64 word \<Rightarrow> 'cb timer_manager \<Rightarrow> nat list" where
  "expired_prefix b now M =
     (let st = (tm_store M)(b := new_now_timer now);
          below = takeWhile (\<lambda>a. before st a b) (tm_timers M);
          rest = drop (length below) (tm_timers M)
      in below @ takeWhile (\<lambda>a. t_next (st a) = now) rest)"

definition fire :: "64 word \<Rightarrow> 'cb timer_manager \<Rightarrow> nat \<Rightarrow> 'cb timer_manager" where
  "fire now M a =
     (let t = tm_store M a
      in if t_recurring t
         then let M = put_timer a (t\<lparr>t_next := now + t_ms t\<rparr>) M
              in M\<lparr>tm_timers := set_insert (before (tm_store M)) a (tm_timers M)\<rparr>
         else put_timer a (t\<lparr>t_cb := None\<rparr>) M)"

definition listExpiredCb :: "nat \<Rightarrow> 64 word \<Rightarrow> 'cb timer_manager \<Rightarrow> 'cb option list \<times> 'cb timer_manager" where
  "listExpiredCb b now M =
     (case tm_timers M of
        [] \<Rightarrow> ([], M)
      | first # _ \<Rightarrow>
          case detectClockRollover now M of (rollover, M) \<Rightarrow>
            if \<not> rollover \<and> now < t_next (tm_store M first) then ([], M)
            else let expired = (if rollover then tm_timers M else expired_prefix b now M);
                     cbs = map (\<lambda>a. t_cb (tm_store M a)) expired
                 in (cbs, foldl (fire now) (M\<lparr>tm_timers := drop (length expired) (tm_timers M)\<rparr>) expired))"

section \<open>Well-formed managers\<close>

text \<open>The set is ordered, and it holds exactly the timers that still have a callback.\<close>

definition tm_wf :: "'cb timer_manager \<Rightarrow> bool" where
  "tm_wf M \<longleftrightarrow> ordered_by (before (tm_store M)) (tm_timers M) \<and>
     (\<forall>a. a \<in> set (tm_timers M) \<longleftrightarrow> t_cb (tm_store M a) \<noteq> None)"

lemma before_eq: "before st a b \<longleftrightarrow> t_next (st a) < t_next (st b) \<or> t_next (st a) = t_next (st b) \<and> a < b"
  by (simp add: before_def Comparator_simps)

text \<open>The order of a set does not depend on timers outside it.\<close>

lemma ordered_by_store:
  assumes "\<And>a. a \<in> set ts \<Longrightarrow> t_next (st' a) = t_next (st a)"
  shows "ordered_by (before st') ts = ordered_by (before st) ts"
  using assms by (induction ts) (auto simp: before_eq)

lemma ordered_by_put: "a \<notin> set ts \<Longrightarrow> ordered_by (before (st(a := t))) ts = ordered_by (before st) ts"
  by (rule ordered_by_store) auto

lemma tm_store_put [simp]: "tm_store (put_timer a t M) = (tm_store M)(a := t)"
  and tm_timers_put [simp]: "tm_timers (put_timer a t M) = tm_timers M"
  by (simp_all add: put_timer_def)

lemma tm_wf_member: "tm_wf M \<Longrightarrow> a \<in> set (tm_timers M) \<longleftrightarrow> t_cb (tm_store M a) \<noteq> None"
  by (simp add: tm_wf_def)

lemma new_timer_manager_wf: "tm_wf (new_timer_manager now)"
  by (simp add: tm_wf_def new_timer_manager_def)

text \<open>Inserting a timer that is not in the set yet.\<close>

lemma wf_put_insert:
  assumes o: "ordered_by (before (tm_store M)) ts" and new: "a \<notin> set ts" and t: "t_cb t \<noteq> None"
    and others: "\<And>x. x \<noteq> a \<Longrightarrow> x \<in> set ts \<longleftrightarrow> t_cb (tm_store M x) \<noteq> None"
  shows "tm_wf (put_timer a t M\<lparr>tm_timers := set_insert (before ((tm_store M)(a := t))) a ts\<rparr>)"
proof -
  have "ordered_by (before ((tm_store M)(a := t))) ts" using o new by (simp add: ordered_by_put)
  then have "ordered_by (before ((tm_store M)(a := t))) (set_insert (before ((tm_store M)(a := t))) a ts)"
    by (rule timers.ordered_set_insert)
  moreover have "set (set_insert (before ((tm_store M)(a := t))) a ts) = insert a (set ts)"
    by (rule timers.set_set_insert)
  ultimately show ?thesis using t others by (auto simp: tm_wf_def put_timer_def)
qed

lemma addTimer_wf:
  assumes "tm_wf M" and "t_cb (tm_store M a) = None"
  shows "tm_wf (fst (addTimer a ms cb recurring now M))"
proof -
  let ?t = "new_timer ms cb recurring now"
  have "tm_wf (put_timer a ?t M\<lparr>tm_timers := set_insert (before ((tm_store M)(a := ?t))) a (tm_timers M)\<rparr>)"
    by (rule wf_put_insert) (use assms in \<open>auto simp: tm_wf_def new_timer_def\<close>)
  then show ?thesis by (simp add: addTimer_def insert_timer_def Let_def tm_wf_def put_timer_def)
qed

lemma cancel_wf:
  assumes "tm_wf M"
  obtains r M' where "cancel a M = Inr (r, M')" and "tm_wf M'" and "t_cb (tm_store M' a) = None"
    and "r \<longleftrightarrow> t_cb (tm_store M a) \<noteq> None" and "set (tm_timers M') = set (tm_timers M) - {a}"
proof (cases "t_cb (tm_store M a) = None")
  case True
  then show ?thesis using that [of False M] assms by (auto simp: cancel_def tm_wf_def)
next
  case False
  define st where "st = (tm_store M)(a := (tm_store M a)\<lparr>t_cb := None\<rparr>)"
  have o: "ordered_by (before st) (tm_timers M)"
    using assms unfolding tm_wf_def st_def by (subst ordered_by_store [of _ _ "tm_store M"]) auto
  have "a \<in> set (tm_timers M)" using assms False by (simp add: tm_wf_member)
  then have f: "set_find (before st) a (tm_timers M) = Some a" using timers.set_find_iff [OF o] by simp
  have s: "set (set_erase (before st) a (tm_timers M)) = set (tm_timers M) - {a}" by (rule timers.set_set_erase [OF o])
  let ?M = "put_timer a ((tm_store M a)\<lparr>t_cb := None\<rparr>) M\<lparr>tm_timers := set_erase (before st) a (tm_timers M)\<rparr>"
  have "cancel a M = Inr (True, ?M)" using False f by (simp add: cancel_def st_def [symmetric] Let_def)
  moreover have "tm_wf ?M"
    using timers.ordered_set_erase [OF o, of a] s assms by (auto simp: tm_wf_def put_timer_def st_def)
  ultimately show ?thesis using that [of True ?M] False s by (simp add: put_timer_def)
qed

lemma refresh_wf:
  assumes "tm_wf M"
  shows "tm_wf (snd (refresh a now M))"
proof (cases "t_cb (tm_store M a) = None")
  case False
  have o: "ordered_by (before (tm_store M)) (tm_timers M)" using assms by (simp add: tm_wf_def)
  let ?ts = "set_erase (before (tm_store M)) a (tm_timers M)"
  have s: "set ?ts = set (tm_timers M) - {a}" by (rule timers.set_set_erase [OF o])
  have "tm_wf (put_timer a t M\<lparr>tm_timers := set_insert (before ((tm_store M)(a := t))) a ?ts\<rparr>)" if "t_cb t \<noteq> None" for t
    by (rule wf_put_insert) (use assms that s timers.ordered_set_erase [OF o, of a] in \<open>auto simp: tm_wf_def\<close>)
  then show ?thesis using False assms by (auto simp: refresh_def Let_def split: option.splits)
qed (use assms in \<open>simp add: refresh_def\<close>)

lemma reset_wf:
  assumes "tm_wf M"
  shows "tm_wf (fst (snd (reset a ms from_now now M)))"
proof (cases "t_cb (tm_store M a) = None")
  case False
  have o: "ordered_by (before (tm_store M)) (tm_timers M)" using assms by (simp add: tm_wf_def)
  let ?ts = "set_erase (before (tm_store M)) a (tm_timers M)"
  have s: "set ?ts = set (tm_timers M) - {a}" by (rule timers.set_set_erase [OF o])
  have "tm_wf (put_timer a t M\<lparr>tm_timers := set_insert (before ((tm_store M)(a := t))) a ?ts\<rparr>)" if "t_cb t \<noteq> None" for t
    by (rule wf_put_insert) (use assms that s timers.ordered_set_erase [OF o, of a] in \<open>auto simp: tm_wf_def\<close>)
  then have "tm_wf (fst (insert_timer a (put_timer a t (M\<lparr>tm_timers := ?ts\<rparr>))))" if "t_cb t \<noteq> None" for t
    using that by (simp add: insert_timer_def Let_def tm_wf_def put_timer_def)
  then show ?thesis using False assms by (auto simp: reset_def Let_def split: option.splits prod.splits)
qed (use assms in \<open>simp add: reset_def Let_def\<close>)

section \<open>Expiry\<close>

lemma ordered_nexts: "ordered_by (before st) ts \<Longrightarrow> sorted (map (\<lambda>a. t_next (st a)) ts)"
  by (induction ts) (auto simp: before_eq)

lemma takeWhile_due:
  fixes n :: "'a \<Rightarrow> 'b::linorder"
  shows "sorted (map n ts) \<Longrightarrow> takeWhile (\<lambda>a. n a \<le> now) ts = filter (\<lambda>a. n a \<le> now) ts"
proof (induction ts)
  case (Cons a ts)
  show ?case
  proof (cases "n a \<le> now")
    case False
    then have "\<not> n y \<le> now" if "y \<in> set (a # ts)" for y using that Cons.prems by (auto dest: order_trans)
    then have "filter (\<lambda>a. n a \<le> now) (a # ts) = []" by (intro filter_False) blast
    then show ?thesis using False by simp
  qed (use Cons in simp)
qed simp

lemma dropWhile_due:
  fixes n :: "'a \<Rightarrow> 'b::linorder"
  shows "sorted (map n ts) \<Longrightarrow> dropWhile (\<lambda>a. n a \<le> now) ts = filter (\<lambda>a. now < n a) ts"
proof (induction ts)
  case (Cons a ts)
  show ?case
  proof (cases "n a \<le> now")
    case True
    then show ?thesis using Cons by (simp add: not_less)
  next
    case False
    then have "now < n y" if "y \<in> set (a # ts)" for y using that Cons.prems by (auto dest: less_le_trans)
    then have "filter (\<lambda>a. now < n a) (a # ts) = a # ts" by (intro filter_True) blast
    then show ?thesis using False by simp
  qed
qed simp

text \<open>\<open>lower_bound\<close> and the loop over the equal times together find the timers that are due.\<close>

lemma lower_bound_due:
  fixes n :: "nat \<Rightarrow> 'b::linorder"
  assumes "sorted (map n ts)" and P: "\<And>a. a \<in> set ts \<Longrightarrow> P a \<longleftrightarrow> n a < now \<or> n a = now \<and> a < b"
  shows "takeWhile P ts @ takeWhile (\<lambda>a. n a = now) (drop (length (takeWhile P ts)) ts) = filter (\<lambda>a. n a \<le> now) ts"
  using assms
proof (induction ts)
  case (Cons a ts)
  show ?case
  proof (cases "P a")
    case True
    then have "n a \<le> now" using Cons.prems(2) [of a] by auto
    then show ?thesis using True Cons by simp
  next
    case False
    then have "now \<le> n a" using Cons.prems(2) [of a] by auto
    then have "now \<le> n y" if "y \<in> set (a # ts)" for y using that Cons.prems(1) by (auto dest: order_trans)
    then have "n y = now \<longleftrightarrow> n y \<le> now" if "y \<in> set (a # ts)" for y using that by fastforce
    then have "takeWhile (\<lambda>a. n a = now) (a # ts) = takeWhile (\<lambda>a. n a \<le> now) (a # ts)" by (intro takeWhile_cong) auto
    then show ?thesis using False takeWhile_due [OF Cons.prems(1)] by simp
  qed
qed simp

lemma expired_prefix_due:
  assumes "tm_wf M" and "b \<notin> set (tm_timers M)"
  shows "expired_prefix b now M = filter (\<lambda>a. t_next (tm_store M a) \<le> now) (tm_timers M)"
    and "drop (length (expired_prefix b now M)) (tm_timers M) = filter (\<lambda>a. now < t_next (tm_store M a)) (tm_timers M)"
proof -
  let ?st = "(tm_store M)(b := new_now_timer now)"
  have o: "ordered_by (before ?st) (tm_timers M)" using assms by (simp add: ordered_by_put tm_wf_def)
  have "before ?st a b \<longleftrightarrow> t_next (?st a) < now \<or> t_next (?st a) = now \<and> a < b" for a
    by (simp add: before_eq new_now_timer_def)
  from lower_bound_due [OF ordered_nexts [OF o] this]
  have "expired_prefix b now M = filter (\<lambda>a. t_next (?st a) \<le> now) (tm_timers M)"
    by (simp add: expired_prefix_def Let_def)
  also have "\<dots> = filter (\<lambda>a. t_next (tm_store M a) \<le> now) (tm_timers M)"
    using assms(2) by (intro filter_cong) auto
  finally show e: "expired_prefix b now M = filter (\<lambda>a. t_next (tm_store M a) \<le> now) (tm_timers M)" .
  have srt: "sorted (map (\<lambda>a. t_next (tm_store M a)) (tm_timers M))"
    using assms(1) by (intro ordered_nexts) (simp add: tm_wf_def)
  have "drop (length (expired_prefix b now M)) (tm_timers M) = dropWhile (\<lambda>a. t_next (tm_store M a) \<le> now) (tm_timers M)"
    unfolding e takeWhile_due [OF srt, symmetric] by (rule dropWhile_eq_drop [symmetric])
  also have "\<dots> = filter (\<lambda>a. now < t_next (tm_store M a)) (tm_timers M)"
    by (rule dropWhile_due [OF srt])
  finally show "drop (length (expired_prefix b now M)) (tm_timers M) = filter (\<lambda>a. now < t_next (tm_store M a)) (tm_timers M)" .
qed

text \<open>What the loop over the expired timers leaves.\<close>

definition fired :: "64 word \<Rightarrow> 'cb timer \<Rightarrow> 'cb timer" where
  "fired now t = (if t_recurring t then t\<lparr>t_next := now + t_ms t\<rparr> else t\<lparr>t_cb := None\<rparr>)"

lemma fire_loop:
  "ordered_by (before (tm_store M)) (tm_timers M) \<Longrightarrow> distinct es \<Longrightarrow> set es \<inter> set (tm_timers M) = {} \<Longrightarrow>
   M' = foldl (fire now) M es \<Longrightarrow>
   ordered_by (before (tm_store M')) (tm_timers M') \<and>
   set (tm_timers M') = set (tm_timers M) \<union> {a \<in> set es. t_recurring (tm_store M a)} \<and>
   tm_store M' = (\<lambda>a. if a \<in> set es then fired now (tm_store M a) else tm_store M a) \<and>
   tm_previous M' = tm_previous M \<and> tm_tickled M' = tm_tickled M"
proof (induction es arbitrary: M)
  case (Cons e es)
  let ?M = "fire now M e"
  have st: "tm_store ?M = (tm_store M)(e := fired now (tm_store M e))"
    and ts: "tm_timers ?M = (if t_recurring (tm_store M e) then set_insert (before (tm_store ?M)) e (tm_timers M) else tm_timers M)"
    and kept: "tm_previous ?M = tm_previous M" "tm_tickled ?M = tm_tickled M"
    by (simp_all add: fire_def fired_def Let_def put_timer_def)
  have "ordered_by (before (tm_store ?M)) (tm_timers M)"
    unfolding st using Cons.prems(1,3) by (subst ordered_by_put) auto
  then have o: "ordered_by (before (tm_store ?M)) (tm_timers ?M)"
    unfolding ts by (simp add: timers.ordered_set_insert)
  have s: "set (tm_timers ?M) = set (tm_timers M) \<union> (if t_recurring (tm_store M e) then {e} else {})"
    unfolding ts by (simp add: timers.set_set_insert)
  have d: "distinct es" "set es \<inter> set (tm_timers ?M) = {}" using Cons.prems(2,3) s by auto
  have m: "M' = foldl (fire now) ?M es" using Cons.prems(4) by simp
  note IH = Cons.IH [OF o d m]
  have e: "e \<notin> set es" using Cons.prems(2) by simp
  then have "{a \<in> set es. t_recurring (tm_store ?M a)} = {a \<in> set es. t_recurring (tm_store M a)}"
    unfolding st by auto
  then show ?case using IH s kept e st by (auto simp: fun_eq_iff)
qed simp

text \<open>The effect of \<open>listExpiredCb\<close>: \<open>es\<close> are the timers it takes.\<close>

definition takes :: "nat list \<Rightarrow> 64 word \<Rightarrow> 'cb timer_manager \<Rightarrow> 'cb option list \<Rightarrow> 'cb timer_manager \<Rightarrow> bool" where
  "takes es now M cbs M' \<longleftrightarrow>
     cbs = map (\<lambda>a. t_cb (tm_store M a)) es \<and> tm_wf M' \<and>
     set (tm_timers M') = {a \<in> set (tm_timers M). a \<notin> set es \<or> t_recurring (tm_store M a)} \<and>
     (\<forall>a. tm_store M' a = (if a \<in> set es then fired now (tm_store M a) else tm_store M a))"

lemma listExpiredCb_takes:
  assumes "tm_wf M" and "b \<notin> set (tm_timers M)" and "listExpiredCb b now M = (cbs, M')"
  shows "takes (if tm_timers M \<noteq> [] \<and> fst (detectClockRollover now M) then tm_timers M
      else filter (\<lambda>a. t_next (tm_store M a) \<le> now) (tm_timers M)) now M cbs M'"
proof (cases "tm_timers M")
  case Nil
  then show ?thesis using assms(1,3) by (simp add: listExpiredCb_def takes_def)
next
  case (Cons first more)
  define R where "R = fst (detectClockRollover now M)"
  define D where "D = M\<lparr>tm_previous := now\<rparr>"
  have roll: "detectClockRollover now M = (R, D)" by (simp add: R_def D_def detectClockRollover_def)
  have wf: "tm_wf D" and b: "b \<notin> set (tm_timers D)" using assms(1,2) by (simp_all add: tm_wf_def D_def)
  define es where "es = (if R then tm_timers D else expired_prefix b now D)"
  have es: "es = (if R then tm_timers M else filter (\<lambda>a. t_next (tm_store M a) \<le> now) (tm_timers M))"
    using expired_prefix_due(1) [OF wf b] by (simp add: es_def D_def)
  have left: "drop (length es) (tm_timers D) = (if R then [] else filter (\<lambda>a. now < t_next (tm_store M a)) (tm_timers M))"
    using expired_prefix_due(2) [OF wf b] by (simp add: es_def D_def)
  have srt: "ordered_by (before (tm_store M)) (tm_timers M)" using assms(1) by (simp add: tm_wf_def)
  have d: "distinct (tm_timers M)" by (rule timers.ordered_by_distinct [OF srt])
  have call: "listExpiredCb b now M =
      (if \<not> R \<and> now < t_next (tm_store D first) then ([], D)
       else (map (\<lambda>a. t_cb (tm_store D a)) es, foldl (fire now) (D\<lparr>tm_timers := drop (length es) (tm_timers D)\<rparr>) es))"
    unfolding listExpiredCb_def Cons list.case roll prod.case es_def Let_def by (rule refl)
  have "takes es now M cbs M'"
  proof (cases "\<not> R \<and> now < t_next (tm_store M first)")
    case True
    have "\<forall>a\<in>set (tm_timers M). now < t_next (tm_store M a)"
      using True ordered_nexts [OF srt] Cons by (auto dest: less_le_trans)
    then have "es = []" using True by (auto simp: es filter_empty_conv)
    moreover have "cbs = [] \<and> M' = D" using True assms(3) call by (simp add: D_def)
    ultimately show ?thesis using wf by (simp add: takes_def D_def)
  next
    case False
    let ?N = "D\<lparr>tm_timers := drop (length es) (tm_timers D)\<rparr>"
    have m: "M' = foldl (fire now) ?N es" and c: "cbs = map (\<lambda>a. t_cb (tm_store M a)) es"
      using False assms(3) call by (auto simp: D_def)
    have o: "ordered_by (before (tm_store ?N)) (tm_timers ?N)"
      using srt left by (simp add: D_def ordered_by_def sorted_wrt_filter)
    have "distinct es" "set es \<inter> set (tm_timers ?N) = {}" using d left by (auto simp: es)
    note loop = fire_loop [OF o this m]
    have n: "tm_store ?N = tm_store M" "tm_timers ?N = drop (length es) (tm_timers D)" by (simp_all add: D_def)
    have f: "ordered_by (before (tm_store M')) (tm_timers M')"
      "set (tm_timers M') = set (drop (length es) (tm_timers D)) \<union> {a \<in> set es. t_recurring (tm_store M a)}"
      "tm_store M' = (\<lambda>a. if a \<in> set es then fired now (tm_store M a) else tm_store M a)"
      using loop unfolding n by blast+
    have s: "set (tm_timers M') = {a \<in> set (tm_timers M). a \<notin> set es \<or> t_recurring (tm_store M a)}"
      unfolding f(2) left by (auto simp: es)
    have "tm_wf M'" unfolding tm_wf_def s using f(1,3) assms(1) by (auto simp: tm_wf_def fired_def es)
    then show ?thesis using c s f(3) by (simp add: takes_def)
  qed
  then show ?thesis using Cons by (simp add: es R_def)
qed

section \<open>Runs\<close>

text \<open>The calls a program makes, each with the answer of the clock; \<open>alloc\<close> is the allocator. The clock need
  not be monotonic.\<close>

datatype 'cb timer_call =
    Add "64 word" 'cb bool
  | Cancel nat
  | Refresh nat
  | Reset nat "64 word" bool
  | Next
  | Expired

definition timer_call :: "('cb timer_manager \<Rightarrow> nat) \<Rightarrow> 'cb timer_call \<times> 64 word \<Rightarrow> 'cb timer_manager \<Rightarrow> 'cb timer_manager res" where
  "timer_call alloc = (\<lambda>(c, now) M.
     case c of
       Add ms cb recurring \<Rightarrow> Inr (fst (addTimer (alloc M) ms cb recurring now M))
     | Cancel a \<Rightarrow> rbind (cancel a M) (\<lambda>(r, M). Inr M)
     | Refresh a \<Rightarrow> Inr (snd (refresh a now M))
     | Reset a ms from_now \<Rightarrow> Inr (fst (snd (reset a ms from_now now M)))
     | Next \<Rightarrow> Inr (snd (getNextTimer now M))
     | Expired \<Rightarrow> Inr (snd (listExpiredCb (alloc M) now M)))"

fun timer_run :: "('cb timer_manager \<Rightarrow> nat) \<Rightarrow> ('cb timer_call \<times> 64 word) list \<Rightarrow> 'cb timer_manager \<Rightarrow> 'cb timer_manager res" where
  "timer_run alloc [] M = Inr M"
| "timer_run alloc (c # cs) M = rbind (timer_call alloc c M) (timer_run alloc cs)"

text \<open>The allocator never hands out the address of a timer that is still waiting.\<close>

definition alloc_law :: "('cb timer_manager \<Rightarrow> nat) \<Rightarrow> bool" where
  "alloc_law alloc \<longleftrightarrow> (\<forall>M. tm_wf M \<longrightarrow> alloc M \<notin> set (tm_timers M))"

lemma timer_call_wf:
  assumes "alloc_law alloc" and "tm_wf M"
  obtains M' where "timer_call alloc c M = Inr M'" and "tm_wf M'"
proof -
  obtain k now where c: "c = (k, now)" by fastforce
  have new: "alloc M \<notin> set (tm_timers M)" using assms by (simp add: alloc_law_def)
  have "\<exists>M'. timer_call alloc c M = Inr M' \<and> tm_wf M'"
  proof (cases k)
    case (Add ms cb recurring)
    have "t_cb (tm_store M (alloc M)) = None" using new tm_wf_member [OF assms(2)] by blast
    then show ?thesis using addTimer_wf [OF assms(2)] Add c by (simp add: timer_call_def)
  next
    case (Cancel a)
    obtain r M' where "cancel a M = Inr (r, M')" "tm_wf M'" by (rule cancel_wf [OF assms(2), of a])
    then show ?thesis using Cancel c by (simp add: timer_call_def)
  next
    case Expired
    obtain cbs M' where l: "listExpiredCb (alloc M) now M = (cbs, M')" by fastforce
    have "tm_wf M'" using listExpiredCb_takes [OF assms(2) new l] unfolding takes_def by blast
    then show ?thesis using Expired c l by (simp add: timer_call_def)
  next
    case Next
    have "tm_wf (M\<lparr>tm_tickled := False\<rparr>)" using assms(2) by (simp add: tm_wf_def)
    then show ?thesis using Next c by (simp add: timer_call_def getNextTimer_def Let_def)
  qed (use c refresh_wf [OF assms(2)] reset_wf [OF assms(2)] in \<open>simp_all add: timer_call_def\<close>)
  then show ?thesis using that by blast
qed

text \<open>An allocator: one past the sum of the addresses in the set.\<close>

definition next_address :: "'cb timer_manager \<Rightarrow> nat" where
  "next_address M = Suc (sum_list (tm_timers M))"

lemma next_address_law: "alloc_law next_address"
proof -
  have "Suc (sum_list ts) \<notin> set ts" for ts :: "nat list"
    using member_le_sum_list [of "Suc (sum_list ts)" ts] by auto
  then show ?thesis by (simp add: alloc_law_def next_address_def)
qed

section \<open>Properties\<close>

text \<open>C22: the set of timers stays in order. Whatever calls a program makes, whatever the clock answers, no call
  erases an iterator that was not found, the timers are ordered by their time and then their address, and the
  set holds exactly the timers that still have a callback.\<close>

theorem timer_set_kept:
  assumes "alloc_law alloc"
  shows "\<exists>M. timer_run alloc cs (new_timer_manager start) = Inr M \<and> tm_wf M"
proof -
  have "tm_wf N \<Longrightarrow> \<exists>M. timer_run alloc cs N = Inr M \<and> tm_wf M" for N
  proof (induction cs arbitrary: N)
    case (Cons c cs)
    obtain N' where "timer_call alloc c N = Inr N'" "tm_wf N'" by (rule timer_call_wf [OF assms Cons.prems])
    then show ?case using Cons.IH by simp
  qed simp
  then show ?thesis using new_timer_manager_wf by blast
qed

theorem timer_set_kept_witness:
  "\<exists>M :: nat timer_manager. timer_run next_address [(Add 50 7 True, 10), (Add 20 8 False, 11), (Refresh 1, 12), (Expired, 40)]
     (new_timer_manager 0) = Inr M \<and> tm_wf M"
  by (rule timer_set_kept [OF next_address_law])



text \<open>No timer is slept through. The answer of \<open>getNextTimer\<close> is zero exactly when a timer is due, the greatest
  64-bit number when there is none, and otherwise the time to the earliest one.\<close>

theorem next_timer_earliest:
  assumes "tm_wf M" and "tm_timers M \<noteq> []"
  shows "(fst (getNextTimer now M) = 0 \<longleftrightarrow> (\<exists>a\<in>set (tm_timers M). t_next (tm_store M a) \<le> now)) \<and>
    (fst (getNextTimer now M) \<noteq> 0 \<longrightarrow>
      (\<exists>a\<in>set (tm_timers M). t_next (tm_store M a) = now + fst (getNextTimer now M)) \<and>
      (\<forall>a\<in>set (tm_timers M). now + fst (getNextTimer now M) \<le> t_next (tm_store M a)))"
proof -
  obtain a ts where M: "tm_timers M = a # ts" using assms(2) by (cases "tm_timers M") auto
  have "ordered_by (before (tm_store M)) (tm_timers M)" using assms(1) by (simp add: tm_wf_def)
  from ordered_nexts [OF this] M have least: "\<forall>x\<in>set (tm_timers M). t_next (tm_store M a) \<le> t_next (tm_store M x)" by auto
  let ?n = "t_next (tm_store M a)"
  have r: "fst (getNextTimer now M) = (if ?n \<le> now then 0 else ?n - now)" using M by (simp add: getNextTimer_def Let_def)
  have "?n - now \<noteq> 0" if "\<not> ?n \<le> now" using that by auto
  then show ?thesis using least M unfolding r by (auto intro: order_trans)
qed

theorem next_timer_earliest_witness:
  "fst (getNextTimer 15 (fst (addTimer 1 50 (7 :: nat) True 10 (new_timer_manager 0)))) = 45"
proof -
  let ?M = "fst (addTimer 1 50 (7 :: nat) True 10 (new_timer_manager 0))"
  have wf: "tm_wf ?M" by (rule addTimer_wf [OF new_timer_manager_wf]) (simp add: new_timer_manager_def)
  have ts: "tm_timers ?M = [1]" "t_next (tm_store ?M 1) = 60"
    by (simp_all add: addTimer_def insert_timer_def put_timer_def new_timer_manager_def new_timer_def Let_def)
  have "fst (getNextTimer 15 ?M) \<noteq> 0" using next_timer_earliest [OF wf, of 15] ts by simp
  with next_timer_earliest [OF wf, of 15] ts have "fst (getNextTimer 15 ?M) = 60 - 15" by (simp add: eq_diff_eq add.commute)
  then show ?thesis by simp
qed

text \<open>In the first hour after the machine has started a late call fires every timer. \<open>listExpiredCb\<close> reads the
  clock before it takes the lock; if another thread was in between and the clock shows less than an hour, the
  subtraction of an hour wraps around and the clock seems to have fallen back: a timer of a minute fires after one
  millisecond.\<close>

theorem early_rollover:
  "\<exists>M M' :: 'cb timer_manager. M = fst (addTimer 1 60000 cb False 1000 (new_timer_manager 1000)) \<and>
     listExpiredCb 2 1002 M = ([], M') \<and> fst (listExpiredCb 2 1001 M') = [Some cb] \<and>
     t_next (tm_store M 1) = 61000"
proof -
  let ?M = "fst (addTimer 1 60000 cb False 1000 (new_timer_manager 1000))"
  have M: "tm_timers ?M = [1]" "tm_store ?M 1 = new_timer 60000 cb False 1000" "tm_previous ?M = 1000"
    by (simp_all add: addTimer_def insert_timer_def put_timer_def new_timer_manager_def Let_def)
  have 1: "listExpiredCb 2 1002 ?M = ([], ?M\<lparr>tm_previous := 1002\<rparr>)"
    using M by (simp add: listExpiredCb_def detectClockRollover_def new_timer_def)
  have "fst (listExpiredCb 2 1001 (?M\<lparr>tm_previous := 1002\<rparr>)) = [Some cb]"
    using M by (simp add: listExpiredCb_def detectClockRollover_def new_timer_def Let_def)
  then show ?thesis using 1 M by (auto simp: new_timer_def)
qed

end
