(* ===== verification/Scheduler.thy ===== *)
theory Scheduler
  imports Pool
begin

text \<open>
  \<open>Fiber\<close> (\<^verbatim>\<open>sylar/fiber.cc\<close>) and \<open>Scheduler\<close> (\<^verbatim>\<open>sylar/scheduler.cc\<close>): worker threads that take tasks from a
  shared queue and switch to fibers. A worker is a program counter in \<open>Scheduler::run\<close>; a step is what it does
  under the queue's lock, or between two switches of context. What a fiber does while it runs is up to it: it
  may schedule tasks, yield, or finish. \<^verbatim>\<open>swapcontext\<close> is modelled by one bit per fiber: whether its context has
  been saved since it last ran. A failed assertion ends the worker in \<open>WAbort\<close>.
\<close>

section \<open>Fibers\<close>

datatype fiber_state = READY | RUNNING | TERM_STATE

record fiber =
  f_state :: fiber_state
  f_saved :: bool

definition new_fiber :: fiber where
  "new_fiber = \<lparr>f_state = READY, f_saved = True\<rparr>"

text \<open>\<open>resume\<close> up to the switch into the fiber; \<open>None\<close> is the failed assertion.\<close>

definition Fiber_resume :: "fiber \<Rightarrow> fiber option" where
  "Fiber_resume f =
     (if f_state f \<noteq> TERM_STATE \<and> f_state f \<noteq> RUNNING then Some \<lparr>f_state = RUNNING, f_saved = False\<rparr> else None)"

text \<open>\<open>yield\<close> up to the switch, and the switch itself.\<close>

definition Fiber_yield :: "fiber \<Rightarrow> fiber option" where
  "Fiber_yield f =
     (if f_state f = RUNNING \<or> f_state f = TERM_STATE
      then Some (if f_state f \<noteq> TERM_STATE then f\<lparr>f_state := READY\<rparr> else f) else None)"

definition Fiber_swap_out :: "fiber \<Rightarrow> fiber" where
  "Fiber_swap_out f = f\<lparr>f_saved := True\<rparr>"

text \<open>\<open>MainFunc\<close> behind the callback.\<close>

definition Fiber_finish :: "fiber \<Rightarrow> fiber option" where
  "Fiber_finish f = Fiber_yield (f\<lparr>f_state := TERM_STATE\<rparr>)"

definition Fiber_reset :: "fiber \<Rightarrow> fiber option" where
  "Fiber_reset f = (if f_state f = TERM_STATE then Some new_fiber else None)"

section \<open>The scheduler\<close>

text \<open>A task is a fiber or a callback, perhaps bound to a thread (\<open>- 1\<close>: any). A callback is a number.\<close>

record sched_task =
  k_fiber :: "nat option"
  k_cb :: "nat option"
  k_thread :: int

text \<open>\<open>sc_claimed\<close> is what callers of \<open>schedule\<close> have to keep track of: the fibers that are queued, or taken from the
  queue and not running yet.\<close>

record scheduler =
  sc_tasks :: "sched_task list"
  sc_active :: nat
  sc_idle :: nat
  sc_stopping :: bool
  sc_fibers :: "nat \<Rightarrow> fiber"
  sc_fresh :: nat
  sc_claimed :: "nat set"

definition new_scheduler :: scheduler where
  "new_scheduler =
     \<lparr>sc_tasks = [], sc_active = 0, sc_idle = 0, sc_stopping = False, sc_fibers = (\<lambda>_. new_fiber), sc_fresh = 0,
      sc_claimed = {}\<rparr>"

definition claim :: "sched_task \<Rightarrow> nat set" where
  "claim k = set_option (k_fiber k)"

definition scheduleNoLock :: "sched_task \<Rightarrow> scheduler \<Rightarrow> bool \<times> scheduler" where
  "scheduleNoLock k S =
     (sc_tasks S = [],
      if k_fiber k \<noteq> None \<or> k_cb k \<noteq> None
      then S\<lparr>sc_tasks := sc_tasks S @ [k], sc_claimed := sc_claimed S \<union> claim k\<rparr> else S)"

definition sc_stopping_now :: "scheduler \<Rightarrow> bool" where
  "sc_stopping_now S \<longleftrightarrow> sc_stopping S \<and> sc_tasks S = [] \<and> sc_active S = 0"

definition sc_stop :: "scheduler \<Rightarrow> scheduler" where
  "sc_stop S = (if sc_stopping_now S then S else S\<lparr>sc_stopping := True\<rparr>)"

text \<open>The loop over the queue: the tasks passed over, the task found, the tasks behind it, and whether one was passed
  over for another thread.\<close>

fun pick_task ::
    "(nat \<Rightarrow> fiber) \<Rightarrow> int \<Rightarrow> sched_task list \<Rightarrow> sched_task list \<times> sched_task option \<times> sched_task list \<times> bool" where
  "pick_task fibers tid [] = ([], None, [], False)"
| "pick_task fibers tid (k # ks) =
     (if k_thread k \<noteq> - 1 \<and> k_thread k \<noteq> tid then
        (case pick_task fibers tid ks of (pre, r, post, _) \<Rightarrow> (k # pre, r, post, True))
      else if \<exists>f. k_fiber k = Some f \<and> f_state (fibers f) = RUNNING then
        (case pick_task fibers tid ks of (pre, r, post, other) \<Rightarrow> (k # pre, r, post, other))
      else ([], Some k, ks, False))"

definition take_task :: "int \<Rightarrow> scheduler \<Rightarrow> scheduler \<times> sched_task option \<times> bool" where
  "take_task tid S =
     (case pick_task (sc_fibers S) tid (sc_tasks S) of
        (pre, None, post, other) \<Rightarrow> (S, None, other)
      | (pre, Some k, post, other) \<Rightarrow>
          (S\<lparr>sc_tasks := pre @ post, sc_active := sc_active S + 1\<rparr>, Some k, other \<or> post \<noteq> []))"

text \<open>
  A worker. \<open>WLoop\<close> stands at the top of the loop, \<open>WGot\<close> holds a task, \<open>WRun\<close> has switched to a fiber, \<open>WSwap\<close> is in
  \<open>yield\<close> of that fiber before its context is saved, \<open>WBack\<close> is back in \<open>run\<close> with the count still to be decremented, \<open>WIdle\<close> runs
  the idle fiber. The flag says that the idle fiber has finished.
\<close>

datatype wpc =
    WLoop bool | WGot sched_task bool | WRun nat bool | WSwap nat bool | WBack bool | WIdle bool | WExit | WAbort

text \<open>Switching to a fiber: \<open>None\<close> when an assertion fails. A context that is not saved is still in use by the worker
  that is leaving it.\<close>

definition switch_to :: "nat \<Rightarrow> bool \<Rightarrow> scheduler \<Rightarrow> scheduler \<times> wpc" where
  "switch_to f term S =
     (case Fiber_resume (sc_fibers S f) of
        None \<Rightarrow> (S, WAbort)
      | Some fb \<Rightarrow> (S\<lparr>sc_fibers := (sc_fibers S)(f := fb)\<rparr>, WRun f term))"

fun run_step :: "int \<Rightarrow> scheduler \<Rightarrow> wpc \<Rightarrow> scheduler \<times> wpc" where
  "run_step tid S (WLoop term) =
     (case take_task tid S of
        (S, Some k, tickle) \<Rightarrow> (S, WGot k term)
      | (S, None, tickle) \<Rightarrow> if term then (S, WExit) else (S\<lparr>sc_idle := sc_idle S + 1\<rparr>, WIdle term))"
| "run_step tid S (WGot k term) =
     (case k_fiber k of
        Some f \<Rightarrow> switch_to f term (S\<lparr>sc_claimed := sc_claimed S - {f}\<rparr>)
      | None \<Rightarrow>
          let f = sc_fresh S
          in switch_to f term (S\<lparr>sc_fresh := f + 1, sc_fibers := (sc_fibers S)(f := new_fiber)\<rparr>))"
| "run_step tid S (WSwap f term) =
     (S\<lparr>sc_fibers := (sc_fibers S)(f := Fiber_swap_out (sc_fibers S f))\<rparr>, WBack term)"
| "run_step tid S (WBack term) = (S\<lparr>sc_active := sc_active S - 1\<rparr>, WLoop term)"
| "run_step tid S (WIdle term) = (S\<lparr>sc_idle := sc_idle S - 1\<rparr>, WLoop (sc_stopping_now S))"
| "run_step tid S w = (S, w)"

text \<open>What the running fiber does.\<close>

definition fiber_yields :: "nat \<Rightarrow> bool \<Rightarrow> scheduler \<Rightarrow> scheduler \<times> wpc" where
  "fiber_yields f term S =
     (case Fiber_yield (sc_fibers S f) of
        None \<Rightarrow> (S, WAbort)
      | Some fb \<Rightarrow> (S\<lparr>sc_fibers := (sc_fibers S)(f := fb)\<rparr>, WSwap f term))"

definition fiber_finishes :: "nat \<Rightarrow> bool \<Rightarrow> scheduler \<Rightarrow> scheduler \<times> wpc" where
  "fiber_finishes f term S =
     (case Fiber_finish (sc_fibers S f) of
        None \<Rightarrow> (S, WAbort)
      | Some fb \<Rightarrow> (S\<lparr>sc_fibers := (sc_fibers S)(f := fb)\<rparr>, WSwap f term))"

text \<open>
  The steps of a worker with its thread number. With \<open>disc\<close> callers keep to the discipline that a fiber is
  scheduled only while it is not claimed; it has to exist already.
\<close>

definition may_schedule :: "bool \<Rightarrow> sched_task \<Rightarrow> scheduler \<Rightarrow> bool" where
  "may_schedule disc k S \<longleftrightarrow>
     (\<forall>f\<in>claim k. f < sc_fresh S) \<and> (disc \<longrightarrow> claim k \<inter> sc_claimed S = {})"

inductive sched_step :: "bool \<Rightarrow> scheduler \<Rightarrow> int \<times> wpc \<Rightarrow> scheduler \<Rightarrow> int \<times> wpc \<Rightarrow> bool" for disc where
  run: "run_step tid S w = (S', w') \<Longrightarrow> sched_step disc S (tid, w) S' (tid, w')"
| yield: "fiber_yields f b S = (S', w') \<Longrightarrow> sched_step disc S (tid, WRun f b) S' (tid, w')"
| finish: "fiber_finishes f b S = (S', w') \<Longrightarrow> sched_step disc S (tid, WRun f b) S' (tid, w')"
| schedule: "may_schedule disc k S \<Longrightarrow> w = WRun f b \<or> w = WIdle b \<Longrightarrow>
    sched_step disc S (tid, w) (snd (scheduleNoLock k S)) (tid, w)"
| stop: "sched_step disc S (tid, w) (sc_stop S) (tid, w)"

inductive_cases sched_stepE: "sched_step disc S w S' w'"

section \<open>Invariants\<close>

fun busy :: "wpc \<Rightarrow> nat" where
  "busy (WGot k b) = 1"
| "busy (WRun f b) = 1"
| "busy (WSwap f b) = 1"
| "busy (WBack b) = 1"
| "busy WAbort = 1"
| "busy _ = 0"

fun taken :: "wpc \<Rightarrow> sched_task list" where
  "taken (WGot k b) = [k]"
| "taken _ = []"

fun runs :: "wpc \<Rightarrow> nat list" where
  "runs (WRun f b) = [f]"
| "runs _ = []"

definition fibers_of :: "sched_task list \<Rightarrow> nat list" where
  "fibers_of ks = List.map_filter k_fiber ks"

lemma fibers_of_simps [simp]:
  "fibers_of [] = []"
  "fibers_of (k # ks) = (case k_fiber k of None \<Rightarrow> fibers_of ks | Some f \<Rightarrow> f # fibers_of ks)"
  "fibers_of (ks @ ks') = fibers_of ks @ fibers_of ks'"
  by (simp_all add: fibers_of_def map_filter_def split: option.split)

text \<open>
  The invariant of one worker \<open>w\<close> beside the others, whose claimed fibers are \<open>K\<close> and whose running ones \<open>R\<close>: the fibers
  claimed by the queue and the workers are distinct and on record, the running ones are distinct and in state
  \<open>RUNNING\<close>, those taken are not.
\<close>

definition beside :: "nat list \<Rightarrow> nat list \<Rightarrow> scheduler \<Rightarrow> wpc \<Rightarrow> bool" where
  "beside K R S w \<longleftrightarrow>
     distinct (fibers_of (sc_tasks S) @ fibers_of (taken w) @ K) \<and>
     set (fibers_of (sc_tasks S) @ fibers_of (taken w) @ K) = sc_claimed S \<and>
     distinct (runs w @ R) \<and> (\<forall>f\<in>set (runs w @ R). f_state (sc_fibers S f) = RUNNING \<and> f < sc_fresh S) \<and>
     (\<forall>f\<in>set (fibers_of (taken w) @ K). f_state (sc_fibers S f) \<noteq> RUNNING) \<and>
     (\<forall>f\<in>sc_claimed S. f < sc_fresh S)"

definition all_taken :: "(int \<times> wpc) list \<Rightarrow> nat list" where
  "all_taken ws = fibers_of (concat (map (\<lambda>w. taken (snd w)) ws))"

definition all_runs :: "(int \<times> wpc) list \<Rightarrow> nat list" where
  "all_runs ws = concat (map (\<lambda>w. runs (snd w)) ws)"

definition sched_inv :: "scheduler \<times> (int \<times> wpc) list \<Rightarrow> bool" where
  "sched_inv s \<longleftrightarrow>
     distinct (fibers_of (sc_tasks (fst s)) @ all_taken (snd s)) \<and>
     set (fibers_of (sc_tasks (fst s)) @ all_taken (snd s)) = sc_claimed (fst s) \<and>
     distinct (all_runs (snd s)) \<and>
     (\<forall>f\<in>set (all_runs (snd s)). f_state (sc_fibers (fst s) f) = RUNNING \<and> f < sc_fresh (fst s)) \<and>
     (\<forall>f\<in>set (all_taken (snd s)). f_state (sc_fibers (fst s) f) \<noteq> RUNNING) \<and>
     (\<forall>f\<in>sc_claimed (fst s). f < sc_fresh (fst s))"

lemma sched_inv_split:
  "sched_inv (S, xs @ (tid, w) # ys) \<longleftrightarrow> beside (all_taken xs @ all_taken ys) (all_runs xs @ all_runs ys) S w"
proof -
  have t: "all_taken (xs @ (tid, w) # ys) = all_taken xs @ fibers_of (taken w) @ all_taken ys"
    and r: "all_runs (xs @ (tid, w) # ys) = all_runs xs @ runs w @ all_runs ys"
    by (simp_all add: all_taken_def all_runs_def)
  have d: "distinct (a @ b @ c @ d) = distinct (a @ c @ b @ d)" "distinct (b @ c @ d) = distinct (c @ b @ d)"
    and s: "set (a @ b @ c @ d) = set (a @ c @ b @ d)" "set (b @ c @ d) = set (c @ b @ d)" for a b c d :: "nat list"
    by auto
  show ?thesis
    unfolding sched_inv_def beside_def fst_conv snd_conv t r d [where b = "all_taken xs"] d(2) [where b = "all_runs xs"]
      s [where b = "all_taken xs"] s(2) [where b = "all_runs xs"] by (rule refl)
qed

text \<open>What no worker claims or runs may change.\<close>

lemma beside_frame:
  assumes "beside K R S w" and "sc_tasks S' = sc_tasks S" and "sc_claimed S' = sc_claimed S" and "sc_fresh S \<le> sc_fresh S'"
    and same: "\<And>f. f < sc_fresh S \<Longrightarrow> sc_fibers S' f = sc_fibers S f"
  shows "beside K R S' w"
proof -
  note b = assms(1) [unfolded beside_def]
  have lt: "f < sc_fresh S" if "f \<in> set (runs w @ R) \<union> set (fibers_of (taken w) @ K) \<union> sc_claimed S" for f
    using b that by auto
  show ?thesis unfolding beside_def assms(2,3)
  proof (intro conjI ballI)
    fix f
    show "f \<in> set (runs w @ R) \<Longrightarrow> f_state (sc_fibers S' f) = RUNNING" using b lt [of f] same [of f] by simp
    show "f \<in> set (runs w @ R) \<Longrightarrow> f < sc_fresh S'" using lt [of f] assms(4) by simp
    show "f \<in> set (fibers_of (taken w) @ K) \<Longrightarrow> f_state (sc_fibers S' f) \<noteq> RUNNING" using b lt [of f] same [of f] by simp
    show "f \<in> sc_claimed S \<Longrightarrow> f < sc_fresh S'" using lt [of f] assms(4) by simp
  qed (use b in blast)+
qed

lemma pick_split:
  "pick_task fibers tid ks = (pre, r, post, other) \<Longrightarrow>
   (case r of None \<Rightarrow> pre = ks | Some k \<Rightarrow> ks = pre @ k # post \<and> (k_thread k = - 1 \<or> k_thread k = tid) \<and>
      (\<forall>f. k_fiber k = Some f \<longrightarrow> f_state (fibers f) \<noteq> RUNNING))"
proof (induction ks arbitrary: pre r post other)
  case (Cons k ks)
  then show ?case by (auto split: if_splits prod.splits option.splits)
qed auto

lemma beside_got:
  assumes "beside K R S (WLoop b)" and "take_task tid S = (S', Some k, tickle)"
  shows "beside K R S' (WGot k b)"
proof -
  obtain pre post other where p: "pick_task (sc_fibers S) tid (sc_tasks S) = (pre, Some k, post, other)"
    and S': "S' = S\<lparr>sc_tasks := pre @ post, sc_active := sc_active S + 1\<rparr>"
    using assms(2) by (auto simp: take_task_def split: prod.splits option.splits)
  have "sc_tasks S = pre @ k # post" "\<forall>f. k_fiber k = Some f \<longrightarrow> f_state (sc_fibers S f) \<noteq> RUNNING"
    using pick_split [OF p] by auto
  then show ?thesis using assms(1) unfolding beside_def S' by (auto split: option.splits)
qed

text \<open>What \<open>pick_task\<close> looks for.\<close>

definition eligible :: "(nat \<Rightarrow> fiber) \<Rightarrow> int \<Rightarrow> sched_task \<Rightarrow> bool" where
  "eligible fibers tid k \<longleftrightarrow>
     (k_thread k = - 1 \<or> k_thread k = tid) \<and> \<not> (\<exists>f. k_fiber k = Some f \<and> f_state (fibers f) = RUNNING)"

definition for_others :: "int \<Rightarrow> sched_task \<Rightarrow> bool" where
  "for_others tid k \<longleftrightarrow> k_thread k \<noteq> - 1 \<and> k_thread k \<noteq> tid"

lemma pick_first:
  "pick_task fibers tid ks =
     (takeWhile (\<lambda>k. \<not> eligible fibers tid k) ks,
      (case dropWhile (\<lambda>k. \<not> eligible fibers tid k) ks of [] \<Rightarrow> None | k # _ \<Rightarrow> Some k),
      tl (dropWhile (\<lambda>k. \<not> eligible fibers tid k) ks),
      list_ex (for_others tid) (takeWhile (\<lambda>k. \<not> eligible fibers tid k) ks))"
  by (induction ks) (auto simp: eligible_def for_others_def)

text \<open>Switching to a fiber nobody else claims or runs.\<close>

lemma beside_switch:
  assumes "beside K R S w" and "runs w = []" and "f \<notin> set K" and "f \<notin> set R" and "f < sc_fresh S"
    and "taken w = []" and "switch_to f b S = (S', w')"
  shows "beside K R S' w'"
  using assms by (auto simp: beside_def switch_to_def Fiber_resume_def split: option.splits if_splits)

lemma run_step_beside:
  assumes "beside K R S w" and "run_step tid S w = (S', w')"
  shows "beside K R S' w'"
proof (cases w)
  case (WLoop b)
  obtain T r tickle where t: "take_task tid S = (T, r, tickle)" by (metis prod_cases3)
  show ?thesis
  proof (cases r)
    case None
    then have "T = S" using t by (auto simp: take_task_def split: prod.splits option.splits)
    then show ?thesis using assms WLoop t None by (auto simp: beside_def split: if_splits)
  next
    case (Some k)
    then show ?thesis using beside_got [of K R S b tid T k tickle] assms WLoop t by simp
  qed
next
  case (WGot k b)
  show ?thesis
  proof (cases "k_fiber k")
    case None
    let ?f = "sc_fresh S"
    let ?T = "S\<lparr>sc_fresh := ?f + 1, sc_fibers := (sc_fibers S)(?f := new_fiber)\<rparr>"
    have "\<forall>f\<in>sc_claimed S. f < ?f" "\<forall>f\<in>set R. f < ?f" "set K \<subseteq> sc_claimed S"
      using assms(1) unfolding beside_def by auto
    then have fresh: "?f \<notin> set K" "?f \<notin> set R" by auto
    have "beside K R S (WBack b)" using assms(1) WGot None by (auto simp: beside_def)
    then have "beside K R ?T (WBack b)" by (rule beside_frame) simp_all
    then show ?thesis
      by (rule beside_switch) (use assms(2) WGot None fresh in \<open>simp_all add: Let_def\<close>)
  next
    case (Some f)
    let ?T = "S\<lparr>sc_claimed := sc_claimed S - {f}\<rparr>"
    have f: "f \<notin> set K" "f \<notin> set R" "f < sc_fresh S"
      using assms(1) WGot Some unfolding beside_def by auto
    have "beside K R ?T (WBack b)" using assms(1) WGot Some unfolding beside_def by auto
    then show ?thesis by (rule beside_switch) (use assms(2) WGot Some f in simp_all)
  qed
next
  case (WSwap f b)
  then show ?thesis using assms by (auto simp: beside_def Fiber_swap_out_def split: if_splits)
qed (use assms in \<open>auto simp: beside_def\<close>)

lemma sched_step_beside:
  assumes "sched_step True S (tid, w) S' (tid', w')" and "beside K R S w"
  shows "beside K R S' w'"
  using assms(1)
proof cases
  case run
  then show ?thesis using run_step_beside [OF assms(2)] by simp
next
  case (yield f b)
  then show ?thesis using assms(2)
    by (auto simp: fiber_yields_def Fiber_yield_def beside_def split: option.splits if_splits)
next
  case (finish f b)
  then show ?thesis using assms(2)
    by (auto simp: fiber_finishes_def Fiber_finish_def Fiber_yield_def beside_def split: option.splits if_splits)
next
  case (schedule k f b)
  have "beside K R (snd (scheduleNoLock k S)) w"
    using assms(2) schedule(4)
    by (auto simp: scheduleNoLock_def may_schedule_def claim_def beside_def split: option.splits)
  then show ?thesis using schedule by simp
next
  case stop
  then show ?thesis using assms(2) by (auto simp: sc_stop_def beside_def)
qed

lemma sched_inv_step: "interleave (sched_step True) s s' \<Longrightarrow> sched_inv s \<Longrightarrow> sched_inv s'"
proof (induction rule: interleave.induct)
  case (turn S t S' t' xs ys)
  obtain tid w tid' w' where t: "t = (tid, w)" "t' = (tid', w')" by (cases t; cases t')
  show ?case using turn.prems unfolding t sched_inv_split by (rule sched_step_beside [OF turn.hyps [unfolded t]])
qed

lemma sched_inv_reachable: "reachable (sched_step True) s s' \<Longrightarrow> sched_inv s \<Longrightarrow> sched_inv s'"
  by (induction rule: reachable.induct) (auto intro: sched_inv_step)

text \<open>The count of active workers.\<close>

lemma switch_to_busy: "switch_to f b S = (S', w) \<Longrightarrow> sc_active S' = sc_active S \<and> busy w = 1"
  by (auto simp: switch_to_def split: option.splits)

lemma run_step_busy:
  assumes "run_step tid S w = (S', w')" and "busy w \<le> sc_active S"
  shows "sc_active S' + busy w = sc_active S + busy w'"
proof (cases w)
  case (WLoop b)
  then show ?thesis using assms
    by (auto simp: take_task_def split: prod.splits option.splits if_splits)
next
  case (WGot k b)
  then show ?thesis using assms(1) by (auto simp: Let_def split: option.splits dest!: switch_to_busy)
qed (use assms in auto)

lemma sched_step_busy:
  assumes "sched_step disc S (tid, w) S' (tid', w')" and "busy w \<le> sc_active S"
  shows "sc_active S' + busy w = sc_active S + busy w'"
  using assms(1)
proof cases
  case run
  then show ?thesis using run_step_busy assms(2) by blast
next
  case (schedule k f b)
  then show ?thesis by (auto simp: scheduleNoLock_def)
qed (auto simp: fiber_yields_def fiber_finishes_def sc_stop_def split: option.splits)

definition active_counted :: "scheduler \<times> (int \<times> wpc) list \<Rightarrow> bool" where
  "active_counted s \<longleftrightarrow> sc_active (fst s) = sum_list (map (\<lambda>w. busy (snd w)) (snd s))"

lemma active_counted_reachable:
  "reachable (sched_step disc) s s' \<Longrightarrow> active_counted s \<Longrightarrow> active_counted s'"
proof (induction rule: reachable.induct)
  case (more s s' s'')
  from more.hyps(2) show ?case
  proof cases
    case (turn S t S' t' xs ys)
    obtain tid w tid' w' where t: "t = (tid, w)" "t' = (tid', w')" by (cases t; cases t')
    have c: "sc_active S = sum_list (map (\<lambda>w. busy (snd w)) xs) + busy w + sum_list (map (\<lambda>w. busy (snd w)) ys)"
      using more.IH [OF more.prems] turn(1) t by (simp add: active_counted_def)
    then have "sc_active S' + busy w = sc_active S + busy w'"
      using sched_step_busy [OF turn(3) [unfolded t]] by simp
    then show ?thesis using c turn(2) t by (simp add: active_counted_def)
  qed
qed

text \<open>The threads keep their numbers, and a task bound to a thread is taken by that thread only.\<close>

definition bound_right :: "int \<times> wpc \<Rightarrow> bool" where
  "bound_right w \<longleftrightarrow> (\<forall>k\<in>set (taken (snd w)). k_thread k = - 1 \<or> k_thread k = fst w)"

lemma switch_to_taken: "switch_to f b S = (S', w) \<Longrightarrow> taken w = []"
  by (auto simp: switch_to_def split: option.splits)

lemma run_step_bound:
  assumes "run_step tid S w = (S', w')"
  shows "bound_right (tid, w')"
proof (cases w)
  case (WLoop b)
  obtain T r tickle where t: "take_task tid S = (T, r, tickle)" by (metis prod_cases3)
  show ?thesis
  proof (cases r)
    case (Some k)
    obtain pre post other where "pick_task (sc_fibers S) tid (sc_tasks S) = (pre, Some k, post, other)"
      using t Some by (auto simp: take_task_def split: prod.splits option.splits)
    from pick_split [OF this] show ?thesis using assms WLoop t Some by (auto simp: bound_right_def)
  qed (use assms WLoop t in \<open>auto simp: bound_right_def split: if_splits\<close>)
next
  case (WGot k b)
  then have "taken w' = []" using assms by (auto simp: Let_def split: option.splits dest!: switch_to_taken)
  then show ?thesis by (simp add: bound_right_def)
qed (use assms in \<open>auto simp: bound_right_def\<close>)

lemma sched_step_bound:
  assumes "sched_step disc S t S' t'" and "bound_right t"
  shows "bound_right t' \<and> fst t' = fst t"
  using assms(1)
proof cases
  case (run tid w w')
  then show ?thesis using run_step_bound by simp
qed (use assms(2) in \<open>auto simp: fiber_yields_def fiber_finishes_def bound_right_def split: option.splits\<close>)

lemma bound_reachable:
  "reachable (sched_step disc) s s' \<Longrightarrow> \<forall>w\<in>set (snd s). bound_right w \<Longrightarrow>
   (\<forall>w\<in>set (snd s'). bound_right w) \<and> map fst (snd s') = map fst (snd s)"
proof (induction rule: reachable.induct)
  case (more s s' s'')
  from more.hyps(2) show ?case
  proof cases
    case (turn S t S' t' xs ys)
    then show ?thesis using more.IH [OF more.prems] sched_step_bound [OF turn(3)] by auto
  qed
qed simp

text \<open>The idle fiber has finished only if \<open>stop\<close> was called.\<close>

fun terminated :: "wpc \<Rightarrow> bool" where
  "terminated (WLoop b) = b"
| "terminated (WGot k b) = b"
| "terminated (WRun f b) = b"
| "terminated (WSwap f b) = b"
| "terminated (WBack b) = b"
| "terminated (WIdle b) = b"
| "terminated WExit = True"
| "terminated WAbort = False"

lemma switch_to_stopping:
  "switch_to f b S = (S', w) \<Longrightarrow> sc_stopping S' = sc_stopping S \<and> (terminated w \<longrightarrow> b)"
  by (auto simp: switch_to_def split: option.splits)

lemma run_step_stopping:
  assumes "run_step tid S w = (S', w')"
  shows "sc_stopping S' = sc_stopping S \<and> (terminated w' \<longrightarrow> terminated w \<or> sc_stopping S)"
proof (cases w)
  case (WLoop b)
  then show ?thesis using assms by (auto simp: take_task_def split: prod.splits option.splits if_splits)
next
  case (WGot k b)
  then show ?thesis using assms by (auto simp: Let_def split: option.splits dest!: switch_to_stopping)
qed (use assms in \<open>auto simp: sc_stopping_now_def\<close>)

lemma sched_step_stopping:
  assumes "sched_step disc S t S' t'"
  shows "(sc_stopping S \<longrightarrow> sc_stopping S') \<and> (terminated (snd t') \<longrightarrow> terminated (snd t) \<or> sc_stopping S)"
  using assms
proof cases
  case (run w w' tid)
  then show ?thesis using run_step_stopping by simp
next
  case (schedule k w f b tid)
  then show ?thesis by (auto simp: scheduleNoLock_def)
qed (auto simp: fiber_yields_def fiber_finishes_def sc_stop_def split: option.splits)

definition stop_called :: "scheduler \<times> (int \<times> wpc) list \<Rightarrow> bool" where
  "stop_called s \<longleftrightarrow> (\<forall>w\<in>set (snd s). terminated (snd w) \<longrightarrow> sc_stopping (fst s))"

lemma stop_called_reachable: "reachable (sched_step disc) s s' \<Longrightarrow> stop_called s \<Longrightarrow> stop_called s'"
proof (induction rule: reachable.induct)
  case (more s s' s'')
  from more.hyps(2) show ?case
  proof cases
    case (turn S t S' t' xs ys)
    then show ?thesis using more.IH [OF more.prems] sched_step_stopping [OF turn(3)] by (auto simp: stop_called_def)
  qed
qed

text \<open>The workers as \<open>start\<close> creates them.\<close>

definition workers :: "int list \<Rightarrow> (int \<times> wpc) list" where
  "workers tids = map (\<lambda>t. (t, WLoop False)) tids"

lemma workers_start:
  "sched_inv (new_scheduler, workers tids)" "active_counted (new_scheduler, workers tids)"
  "\<forall>w\<in>set (workers tids). bound_right w" "map fst (workers tids) = tids" "stop_called (new_scheduler, workers tids)"
proof -
  have c: "concat (map (\<lambda>t. []) tids) = []" "sum_list (map (\<lambda>t. 0 :: nat) tids) = 0" by (induction tids) simp_all
  show "sched_inv (new_scheduler, workers tids)" "active_counted (new_scheduler, workers tids)"
    "\<forall>w\<in>set (workers tids). bound_right w" "map fst (workers tids) = tids" "stop_called (new_scheduler, workers tids)"
    by (simp_all add: sched_inv_def active_counted_def stop_called_def bound_right_def workers_def new_scheduler_def all_taken_def
      all_runs_def comp_def c)
qed

section \<open>Properties\<close>


text \<open>What a worker does next in a schedule: \<open>Move\<close> follows the code, the others are choices of the fiber that runs.\<close>

datatype sched_move = Move | Yield | Finish | Plan sched_task

definition sched_mv :: "sched_move \<Rightarrow> scheduler \<Rightarrow> int \<times> wpc \<Rightarrow> scheduler \<times> int \<times> wpc" where
  "sched_mv a S t =
     (case (a, snd t) of
        (Yield, WRun f b) \<Rightarrow> (case fiber_yields f b S of (S', w') \<Rightarrow> (S', fst t, w'))
      | (Finish, WRun f b) \<Rightarrow> (case fiber_finishes f b S of (S', w') \<Rightarrow> (S', fst t, w'))
      | (Plan k, WRun f b) \<Rightarrow> if may_schedule True k S then (snd (scheduleNoLock k S), t) else (S, t)
      | (Plan k, WIdle b) \<Rightarrow>
          if may_schedule True k S then (snd (scheduleNoLock k S), t)
          else (case run_step (fst t) S (snd t) of (S', w') \<Rightarrow> (S', fst t, w'))
      | _ \<Rightarrow> (case run_step (fst t) S (snd t) of (S', w') \<Rightarrow> (S', fst t, w')))"

lemma sched_mv_step: "sched_step True S t (fst (sched_mv a S t)) (snd (sched_mv a S t))"
proof -
  obtain tid w where t: "t = (tid, w)" by (cases t)
  obtain T v where m: "run_step tid S w = (T, v)" by fastforce
  then have r: "sched_step True S (tid, w) T (tid, v)" by (rule sched_step.run)
  have n: "sched_step True S (tid, w) S (tid, w)" if "w = WRun f b" for f b
    using sched_step.run [of tid S w S w True] that by simp
  note simps = sched_mv_def t
  show ?thesis
  proof (cases a)
    case Move
    then have "sched_mv a S t = (T, tid, v)" using m by (cases w) (simp_all add: simps del: run_step.simps)
    then show ?thesis using r t by simp
  next
    case Yield
    then show ?thesis using r m
      by (cases w) (auto simp: simps simp del: run_step.simps split: prod.splits intro: sched_step.yield)
  next
    case Finish
    then show ?thesis using r m
      by (cases w) (auto simp: simps simp del: run_step.simps split: prod.splits intro: sched_step.finish)
  next
    case (Plan k)
    have p: "sched_step True S (tid, w) (snd (scheduleNoLock k S)) (tid, w)"
      if "may_schedule True k S" "w = WRun f b \<or> w = WIdle b" for f b using that by (rule sched_step.schedule)
    show ?thesis
    proof (cases "may_schedule True k S")
      case True
      then show ?thesis using Plan r m p by (cases w) (auto simp: simps simp del: run_step.simps split: prod.splits)
    next
      case False
      then show ?thesis using Plan r m n by (cases w) (auto simp: simps simp del: run_step.simps split: prod.splits)
    qed
  qed
qed

lemmas play_sched = play_reachable [where mv = sched_mv and step = "sched_step True", OF sched_mv_step]

text \<open>Two threads each run a callback.\<close>

definition two_callbacks :: "(nat \<times> sched_move) list" where
  "two_callbacks =
     (let cb = \<lparr>k_fiber = None, k_cb = Some 0, k_thread = - 1\<rparr>
      in [(0, Move), (0, Plan cb), (0, Plan cb), (0, Move), (0, Move), (0, Move), (1, Move), (1, Move)])"

definition schedule_of :: "(nat \<times> sched_move) list \<Rightarrow> scheduler \<times> (int \<times> wpc) list" where
  "schedule_of es = play sched_mv es (new_scheduler, workers [1, 2])"

lemma schedule_of_reachable:
  assumes "list_all (\<lambda>e. fst e < 2) es"
  shows "reachable (sched_step True) (new_scheduler, workers [1, 2]) (schedule_of es)"
  unfolding schedule_of_def by (rule play_sched) (use assms in \<open>simp_all add: workers_def reachable.start numeral_2_eq_2\<close>)

lemmas sched_moves = sched_mv_def take_task_def switch_to_def Fiber_resume_def fiber_yields_def Fiber_yield_def
  fiber_finishes_def Fiber_finish_def Fiber_swap_out_def scheduleNoLock_def may_schedule_def claim_def sc_stopping_now_def
  new_scheduler_def new_fiber_def workers_def

lemma two_callbacks_end:
  "snd (snd (schedule_of two_callbacks) ! 0) = WRun 0 False" "snd (snd (schedule_of two_callbacks) ! 1) = WRun 1 False"
  "length (snd (schedule_of two_callbacks)) = 2"
  by (simp_all add: schedule_of_def two_callbacks_def Let_def sched_moves)


text \<open>C25: the scheduler's count of active threads is exact, whatever the threads do and however fibers are scheduled: it is
  the number of threads between taking a task and being back from it (a thread stopped by an assertion keeps its count). So
  \<open>stopping\<close> answers true only when the queue is empty and no thread has a task, and a thread's idle fiber finishes,
  and the thread leaves \<open>run\<close>, only after \<open>stop\<close>.\<close>

theorem sched_stops_when_quiet:
  assumes "reachable (sched_step disc) (new_scheduler, workers tids) (S, ws)"
  shows "sc_active S = sum_list (map (\<lambda>w. busy (snd w)) ws) \<and>
    (sc_stopping_now S \<longrightarrow> sc_tasks S = [] \<and> (\<forall>w\<in>set ws. busy (snd w) = 0)) \<and>
    (\<forall>w\<in>set ws. terminated (snd w) \<longrightarrow> sc_stopping S)"
proof -
  have c: "sc_active S = sum_list (map (\<lambda>w. busy (snd w)) ws)"
    using active_counted_reachable [OF assms workers_start(2)] by (simp add: active_counted_def)
  moreover have "stop_called (S, ws)" by (rule stop_called_reachable [OF assms workers_start(5)])
  ultimately show ?thesis by (simp add: sc_stopping_now_def stop_called_def)
qed

theorem sched_stops_when_quiet_witness:
  "\<exists>S ws. reachable (sched_step True) (new_scheduler, workers [1, 2]) (S, ws) \<and> snd (ws ! 0) = WRun 0 False \<and>
     snd (ws ! 1) = WRun 1 False \<and> sc_active S = sum_list (map (\<lambda>w. busy (snd w)) ws) \<and> \<not> sc_stopping_now S"
proof -
  obtain S ws where s: "schedule_of two_callbacks = (S, ws)" by fastforce
  have r: "reachable (sched_step True) (new_scheduler, workers [1, 2]) (S, ws)"
    unfolding s [symmetric] by (rule schedule_of_reachable) (simp add: two_callbacks_def Let_def)
  note e = two_callbacks_end [unfolded s snd_conv]
  have "ws ! 0 \<in> set ws" using e(3) by simp
  then have "\<not> (\<forall>w\<in>set ws. busy (snd w) = 0)" using e(1) by (metis busy.simps(2) zero_neq_one)
  with sched_stops_when_quiet [OF r] e r show ?thesis by blast
qed

text \<open>The pass over the queue takes the first task that is for any thread or this one and whose fiber is not running; the
  tasks before it and behind it keep their order, and nothing is taken when there is no such task. Other threads are woken
  when a task of another thread was passed over or tasks are left behind.\<close>

theorem take_task_first:
  "take_task tid S =
     (case dropWhile (\<lambda>k. \<not> eligible (sc_fibers S) tid k) (sc_tasks S) of
        [] \<Rightarrow> (S, None, list_ex (for_others tid) (sc_tasks S))
      | k # post \<Rightarrow>
          (let pre = takeWhile (\<lambda>k. \<not> eligible (sc_fibers S) tid k) (sc_tasks S)
           in (S\<lparr>sc_tasks := pre @ post, sc_active := sc_active S + 1\<rparr>, Some k,
               if post = [] then list_ex (for_others tid) pre else True)))"
proof (cases "dropWhile (\<lambda>k. \<not> eligible (sc_fibers S) tid k) (sc_tasks S)")
  case Nil
  then have all: "takeWhile (\<lambda>k. \<not> eligible (sc_fibers S) tid k) (sc_tasks S) = sc_tasks S"
    by (simp add: dropWhile_eq_Nil_conv takeWhile_eq_all_conv)
  then show ?thesis using Nil by (simp add: take_task_def pick_first all del: dropWhile_eq_Nil_conv)
qed (simp add: take_task_def pick_first Let_def)

text \<open>
  A fiber that waits for an event: it has itself scheduled and yields. The other thread takes the task as soon as the
  state is \<open>READY\<close>.
\<close>

definition yield_run :: "(nat \<times> sched_move) list" where
  "yield_run =
     (let cb = \<lparr>k_fiber = None, k_cb = Some 0, k_thread = - 1\<rparr>; self = \<lparr>k_fiber = Some 0, k_cb = None, k_thread = - 1\<rparr>
      in [(0, Move), (0, Plan cb), (0, Move), (0, Move), (0, Move), (0, Plan self), (0, Yield), (1, Move), (1, Move)])"

text \<open>A yielding fiber can be resumed too early. \<open>yield\<close> sets the state to \<open>READY\<close> before \<^verbatim>\<open>swapcontext\<close> saves the
  context, and the pass over the queue looks at the state only: with one fiber that schedules itself once and yields, the
  second thread can be running the fiber while the first has not left it.\<close>

theorem yield_resumed_early:
  "\<exists>S ws. reachable (sched_step True) (new_scheduler, workers [1, 2]) (S, ws) \<and> snd (ws ! 0) = WSwap 0 False \<and>
     snd (ws ! 1) = WRun 0 False"
proof -
  have r: "reachable (sched_step True) (new_scheduler, workers [1, 2]) (schedule_of yield_run)"
    by (rule schedule_of_reachable) (simp add: yield_run_def Let_def)
  have "snd (snd (schedule_of yield_run) ! 0) = WSwap 0 False" "snd (snd (schedule_of yield_run) ! 1) = WRun 0 False"
    by (simp_all add: schedule_of_def yield_run_def Let_def sched_moves)
  with r show ?thesis by (metis prod.collapse)
qed

end
