(* ===== verification/IOManager.thy ===== *)
theory IOManager
  imports Scheduler Timer
begin

text \<open>
  \<open>IOManager\<close> of \<^verbatim>\<open>sylar/iomanager.cc\<close>: a scheduler with timers that waits in \<^verbatim>\<open>epoll\<close> when it has no task. Each
  descriptor has a context (an address in a store) with the events it waits for and whom to schedule. The
  operations on one context hold its mutex and are single steps; \<open>addEvent\<close> may first have to extend the table of contexts, which is a
  step of its own. Whether a call of \<^verbatim>\<open>epoll_ctl\<close> succeeds is an argument (\<open>ok\<close>), what \<^verbatim>\<open>epoll_wait\<close> reports too;
  \<open>io_epoll\<close> records what the successful calls have asked for.
\<close>

unbundle bit_operations_syntax

section \<open>State\<close>

definition READ :: "32 word" where [simp]: "READ = 1"
definition WRITE :: "32 word" where [simp]: "WRITE = 4"

abbreviation EPOLLIN :: "32 word" where "EPOLLIN \<equiv> 1"
abbreviation EPOLLOUT :: "32 word" where "EPOLLOUT \<equiv> 4"
abbreviation EPOLLERR :: "32 word" where "EPOLLERR \<equiv> 8"
abbreviation EPOLLHUP :: "32 word" where "EPOLLHUP \<equiv> 16"
abbreviation EPOLLET :: "32 word" where "EPOLLET \<equiv> 0x80000000"

record event_context =
  ec_scheduler :: bool
  ec_fiber :: "nat option"
  ec_cb :: "nat option"

record fd_context =
  fc_read :: event_context
  fc_write :: event_context
  fc_fd :: nat
  fc_events :: "32 word"

record io_manager =
  io_sched :: scheduler
  io_timers :: "nat timer_manager"
  io_store :: "nat \<Rightarrow> fd_context"
  io_fresh :: nat
  io_fds :: "nat list"
  io_pending :: "64 word"
  io_epoll :: "int \<Rightarrow> (32 word \<times> nat) option"
  io_pipe :: nat

definition resetEventContext :: event_context where
  "resetEventContext = \<lparr>ec_scheduler = False, ec_fiber = None, ec_cb = None\<rparr>"

definition new_fd_context :: "nat \<Rightarrow> fd_context" where
  "new_fd_context i = \<lparr>fc_read = resetEventContext, fc_write = resetEventContext, fc_fd = i, fc_events = 0\<rparr>"

section \<open>Scheduling\<close>

definition tickle :: "io_manager \<Rightarrow> io_manager" where
  "tickle M = (if sc_idle (io_sched M) > 0 then M\<lparr>io_pipe := io_pipe M + 1\<rparr> else M)"

definition schedule :: "sched_task \<Rightarrow> io_manager \<Rightarrow> io_manager" where
  "schedule k M =
     (case scheduleNoLock k (io_sched M) of
        (need_tickle, S) \<Rightarrow> let M = M\<lparr>io_sched := S\<rparr> in if need_tickle then tickle M else M)"

section \<open>Contexts\<close>

text \<open>\<open>getEventContext\<close> returns a reference: what reads and writes the part of the context. \<open>None\<close> is the failed assertion.\<close>

datatype side = ReadSide | WriteSide

definition getEventContext :: "32 word \<Rightarrow> side option" where
  "getEventContext ev = (if ev = READ then Some ReadSide else if ev = WRITE then Some WriteSide else None)"

fun part :: "side \<Rightarrow> fd_context \<Rightarrow> event_context" where
  "part ReadSide c = fc_read c"
| "part WriteSide c = fc_write c"

fun set_part :: "side \<Rightarrow> event_context \<Rightarrow> fd_context \<Rightarrow> fd_context" where
  "set_part ReadSide e c = c\<lparr>fc_read := e\<rparr>"
| "set_part WriteSide e c = c\<lparr>fc_write := e\<rparr>"

definition put_ctx :: "nat \<Rightarrow> fd_context \<Rightarrow> io_manager \<Rightarrow> io_manager" where
  "put_ctx a c M = M\<lparr>io_store := (io_store M)(a := c)\<rparr>"

definition ctx_task :: "event_context \<Rightarrow> sched_task" where
  "ctx_task e =
     (if ec_cb e \<noteq> None then \<lparr>k_fiber = None, k_cb = ec_cb e, k_thread = - 1\<rparr>
      else \<lparr>k_fiber = ec_fiber e, k_cb = None, k_thread = - 1\<rparr>)"

definition triggerEvent :: "32 word \<Rightarrow> nat \<Rightarrow> io_manager \<Rightarrow> io_manager res" where
  "triggerEvent ev a M =
     (let c = io_store M a
      in if fc_events c AND ev = 0 then Inl AssertionFailure
         else case getEventContext ev of
           None \<Rightarrow> Inl AssertionFailure
         | Some s \<Rightarrow>
             if \<not> ec_scheduler (part s c) then Inl UndefinedBehaviour
             else Inr (put_ctx a (set_part s resetEventContext (c\<lparr>fc_events := fc_events c AND NOT ev\<rparr>))
                    (schedule (ctx_task (part s c)) M)))"

definition contextResize :: "nat \<Rightarrow> io_manager \<Rightarrow> io_manager" where
  "contextResize n M =
     (let old = length (io_fds M); k = n - old; f = io_fresh M
      in M\<lparr>io_fds := take n (io_fds M) @ [f ..< f + k], io_fresh := f + k,
          io_store := (\<lambda>a. if f \<le> a \<and> a < f + k then new_fd_context (old + (a - f)) else io_store M a)\<rparr>)"

definition new_io_manager :: "64 word \<Rightarrow> io_manager" where
  "new_io_manager now =
     contextResize 32
       \<lparr>io_sched = new_scheduler, io_timers = new_timer_manager now, io_store = (\<lambda>_. new_fd_context 0), io_fresh = 0, io_fds = [],
        io_pending = 0, io_epoll = (\<lambda>_. None), io_pipe = 0\<rparr>"

section \<open>Adding and removing events\<close>

definition epoll_ctl :: "int \<Rightarrow> 32 word \<Rightarrow> nat \<Rightarrow> io_manager \<Rightarrow> io_manager" where
  "epoll_ctl fd evs a M =
     M\<lparr>io_epoll := (io_epoll M)(fd := if evs = 0 then None else Some (EPOLLET OR evs, a))\<rparr>"

text \<open>The look-up under the read lock, and the extension under the write lock.\<close>

definition fd_lookup :: "int \<Rightarrow> io_manager \<Rightarrow> nat option res" where
  "fd_lookup fd M =
     (if int (length (io_fds M)) > fd then if fd < 0 then Inl UndefinedBehaviour else Inr (Some (io_fds M ! nat fd))
      else Inr None)"

definition fd_grow :: "int \<Rightarrow> io_manager \<Rightarrow> (nat \<times> io_manager) res" where
  "fd_grow fd M =
     (let M = contextResize (nat (fd + fd div 2)) M
      in if nat fd < length (io_fds M) then Inr (io_fds M ! nat fd, M) else Inl UndefinedBehaviour)"

definition add_to_ctx ::
    "nat \<Rightarrow> int \<Rightarrow> 32 word \<Rightarrow> nat option \<Rightarrow> nat \<Rightarrow> bool \<Rightarrow> io_manager \<Rightarrow> (int \<times> io_manager) res" where
  "add_to_ctx a fd ev cb cur ok M =
     (let c = io_store M a
      in if fc_events c AND ev \<noteq> 0 then Inl AssertionFailure
         else if \<not> ok then Inr (- 1, M)
         else
           let M = epoll_ctl fd (fc_events c OR ev) a M;
               M = M\<lparr>io_pending := io_pending M + 1\<rparr>;
               c = c\<lparr>fc_events := fc_events c OR ev\<rparr>
           in case getEventContext ev of
             None \<Rightarrow> Inl AssertionFailure
           | Some s \<Rightarrow>
               if ec_scheduler (part s c) \<or> ec_fiber (part s c) \<noteq> None \<or> ec_cb (part s c) \<noteq> None then Inl AssertionFailure
               else if cb \<noteq> None then
                 Inr (0, put_ctx a (set_part s ((part s c)\<lparr>ec_scheduler := True, ec_cb := cb\<rparr>) c) M)
               else if f_state (sc_fibers (io_sched M) cur) = RUNNING then
                 Inr (0, put_ctx a (set_part s ((part s c)\<lparr>ec_scheduler := True, ec_fiber := Some cur\<rparr>) c) M)
               else Inl AssertionFailure)"

definition addEvent ::
    "int \<Rightarrow> 32 word \<Rightarrow> nat option \<Rightarrow> nat \<Rightarrow> bool \<Rightarrow> io_manager \<Rightarrow> (int \<times> io_manager) res" where
  "addEvent fd ev cb cur ok M =
     rbind (fd_lookup fd M) (\<lambda>r.
       case r of
         Some a \<Rightarrow> add_to_ctx a fd ev cb cur ok M
       | None \<Rightarrow> rbind (fd_grow fd M) (\<lambda>(a, M). add_to_ctx a fd ev cb cur ok M))"

definition delEvent :: "int \<Rightarrow> 32 word \<Rightarrow> bool \<Rightarrow> io_manager \<Rightarrow> (bool \<times> io_manager) res" where
  "delEvent fd ev ok M =
     rbind (fd_lookup fd M) (\<lambda>r.
       case r of
         None \<Rightarrow> Inr (False, M)
       | Some a \<Rightarrow>
           let c = io_store M a; new_events = fc_events c AND NOT ev
           in if fc_events c AND ev = 0 then Inr (False, M)
              else if \<not> ok then Inr (False, M)
              else
                let M = epoll_ctl fd new_events a M; M = M\<lparr>io_pending := io_pending M - 1\<rparr>
                in case getEventContext ev of
                  None \<Rightarrow> Inl AssertionFailure
                | Some s \<Rightarrow> Inr (True, put_ctx a (set_part s resetEventContext (c\<lparr>fc_events := new_events\<rparr>)) M))"

definition cancelEvent :: "int \<Rightarrow> 32 word \<Rightarrow> bool \<Rightarrow> io_manager \<Rightarrow> (bool \<times> io_manager) res" where
  "cancelEvent fd ev ok M =
     rbind (fd_lookup fd M) (\<lambda>r.
       case r of
         None \<Rightarrow> Inr (False, M)
       | Some a \<Rightarrow>
           let c = io_store M a
           in if fc_events c AND ev = 0 then Inr (False, M)
              else if \<not> ok then Inr (False, M)
              else rbind (triggerEvent ev a (epoll_ctl fd (fc_events c AND NOT ev) a M)) (\<lambda>M.
                     Inr (True, M\<lparr>io_pending := io_pending M - 1\<rparr>)))"

text \<open>Triggering one of the two events if it is among \<open>evs\<close>, as \<open>cancelAll\<close> and \<open>idle\<close> do.\<close>

definition trigger_counted :: "bool \<Rightarrow> 32 word \<Rightarrow> nat \<Rightarrow> io_manager \<Rightarrow> io_manager res" where
  "trigger_counted wanted ev a M =
     (if wanted then rbind (triggerEvent ev a M) (\<lambda>M. Inr (M\<lparr>io_pending := io_pending M - 1\<rparr>)) else Inr M)"

definition cancelAll :: "int \<Rightarrow> bool \<Rightarrow> io_manager \<Rightarrow> (bool \<times> io_manager) res" where
  "cancelAll fd ok M =
     rbind (fd_lookup fd M) (\<lambda>r.
       case r of
         None \<Rightarrow> Inr (False, M)
       | Some a \<Rightarrow>
           if fc_events (io_store M a) = 0 then Inr (False, M)
           else if \<not> ok then Inr (False, M)
           else
             rbind (trigger_counted (fc_events (io_store M a) AND READ \<noteq> 0) READ a (epoll_ctl fd 0 a M)) (\<lambda>M.
             rbind (trigger_counted (fc_events (io_store M a) AND WRITE \<noteq> 0) WRITE a M) (\<lambda>M.
             if fc_events (io_store M a) = 0 then Inr (True, M) else Inl AssertionFailure)))"

section \<open>The idle fiber\<close>

definition io_stopping :: "64 word \<Rightarrow> io_manager \<Rightarrow> bool \<times> 64 word \<times> io_manager" where
  "io_stopping now M =
     (case getNextTimer now (io_timers M) of
        (timeout, T) \<Rightarrow>
          (timeout = NOT 0 \<and> io_pending M = 0 \<and> sc_stopping_now (io_sched M), timeout, M\<lparr>io_timers := T\<rparr>))"

text \<open>The assignment to \<open>next_timeout\<close> and its conversion for \<^verbatim>\<open>epoll_wait\<close>.\<close>

definition int_of_u64 :: "64 word \<Rightarrow> int" where
  "int_of_u64 t = sint (ucast t :: 32 word)"

definition wait_time :: "64 word \<Rightarrow> 64 word" where
  "wait_time t = (if t \<noteq> NOT 0 then word_of_int (min (int_of_u64 t) 5000) else 5000)"

fun epoll_waits :: "nat \<Rightarrow> 64 word \<Rightarrow> int list" where
  "epoll_waits 0 t = [int_of_u64 (wait_time t)]"
| "epoll_waits (Suc interrupts) t = int_of_u64 (wait_time t) # epoll_waits interrupts (wait_time t)"

definition handle_event :: "nat \<Rightarrow> 32 word \<Rightarrow> bool \<Rightarrow> io_manager \<Rightarrow> io_manager res" where
  "handle_event a evs ok M =
     (let c = io_store M a;
          evs = (if evs AND (EPOLLERR OR EPOLLHUP) \<noteq> 0 then evs OR ((EPOLLIN OR EPOLLOUT) AND fc_events c) else evs);
          real_events = (if evs AND EPOLLIN \<noteq> 0 then READ else 0) OR (if evs AND EPOLLOUT \<noteq> 0 then WRITE else 0)
      in if fc_events c AND real_events = 0 then Inr M
         else if \<not> ok then Inr M
         else
           rbind (trigger_counted (real_events AND READ \<noteq> 0) READ a
                    (epoll_ctl (int (fc_fd c)) (fc_events c AND NOT real_events) a M))
             (trigger_counted (real_events AND WRITE \<noteq> 0) WRITE a))"

text \<open>What \<^verbatim>\<open>epoll_wait\<close> reports: the pipe of \<open>tickle\<close>, or a context and its events, here with the success of the \<^verbatim>\<open>epoll_ctl\<close> to come.\<close>

datatype report = Tickled | Ready nat "32 word" bool

fun handle_reports :: "report list \<Rightarrow> io_manager \<Rightarrow> io_manager res" where
  "handle_reports [] M = Inr M"
| "handle_reports (Tickled # rs) M = handle_reports rs (M\<lparr>io_pipe := 0\<rparr>)"
| "handle_reports (Ready a evs ok # rs) M = rbind (handle_event a evs ok M) (handle_reports rs)"

definition cb_task :: "nat option \<Rightarrow> sched_task" where
  "cb_task cb = \<lparr>k_fiber = None, k_cb = cb, k_thread = - 1\<rparr>"

text \<open>One pass of the loop, up to the \<open>yield\<close>. The flag says that the loop is left.\<close>

definition idle_pass ::
    "64 word \<Rightarrow> nat \<Rightarrow> 64 word \<Rightarrow> nat \<Rightarrow> report list \<Rightarrow> io_manager \<Rightarrow> (bool \<times> int list \<times> io_manager) res" where
  "idle_pass now interrupts later b reports M =
     (case io_stopping now M of
        (True, _, M) \<Rightarrow> Inr (True, [], M)
      | (False, next_timeout, M) \<Rightarrow>
          (case listExpiredCb b later (io_timers M) of
             (cbs, T) \<Rightarrow>
               rbind (handle_reports reports (fold (schedule \<circ> cb_task) cbs (M\<lparr>io_timers := T\<rparr>)))
                 (\<lambda>M. Inr (False, epoll_waits interrupts next_timeout, M))))"

section \<open>Invariant\<close>

text \<open>A part of a context is filled exactly when its event is registered.\<close>

definition filled :: "event_context \<Rightarrow> bool" where
  "filled e \<longleftrightarrow> ec_scheduler e \<and> (ec_fiber e = None) \<noteq> (ec_cb e = None)"

definition part_ok :: "bool \<Rightarrow> event_context \<Rightarrow> bool" where
  "part_ok registered e \<longleftrightarrow> (if registered then filled e else e = resetEventContext)"

definition ctx_ok :: "nat \<Rightarrow> fd_context \<Rightarrow> bool" where
  "ctx_ok a c \<longleftrightarrow> fc_fd c = a \<and> fc_events c \<in> {0, 1, 4, 5} \<and> part_ok (fc_events c \<in> {1, 5}) (fc_read c) \<and>
     part_ok (fc_events c \<in> {4, 5}) (fc_write c)"

definition n_events :: "fd_context \<Rightarrow> nat" where
  "n_events c = of_bool (fc_events c \<in> {1, 5}) + of_bool (fc_events c \<in> {4, 5})"

definition interest :: "nat \<Rightarrow> fd_context \<Rightarrow> (32 word \<times> nat) option" where
  "interest a c = (if fc_events c = 0 then None else Some (EPOLLET OR fc_events c, a))"

definition io_ok :: "io_manager \<Rightarrow> bool" where
  "io_ok M \<longleftrightarrow> io_fds M = [0 ..< io_fresh M] \<and> 32 \<le> io_fresh M \<and>
     (\<forall>a<io_fresh M. ctx_ok a (io_store M a) \<and> io_epoll M (int a) = interest a (io_store M a)) \<and>
     (\<forall>fd. fd < 0 \<or> int (io_fresh M) \<le> fd \<longrightarrow> io_epoll M fd = None) \<and>
     io_pending M = of_nat (\<Sum>a<io_fresh M. n_events (io_store M a))"

lemma events_cases:
  "(w :: 32 word) \<in> {0, 1, 4, 5} \<longleftrightarrow> w = 0 \<or> w = 1 \<or> w = 4 \<or> w = 5"
  by simp

text \<open>The step of one context: everything else stays.\<close>

definition ctx_step :: "nat \<Rightarrow> fd_context \<Rightarrow> io_manager \<Rightarrow> io_manager \<Rightarrow> bool" where
  "ctx_step a c M M' \<longleftrightarrow> io_fds M' = io_fds M \<and> io_fresh M' = io_fresh M \<and> io_store M' = (io_store M)(a := c) \<and>
     io_epoll M' = (io_epoll M)(int a := interest a c) \<and>
     io_pending M' = io_pending M + of_nat (n_events c) - of_nat (n_events (io_store M a))"

lemma ctx_step_ok:
  assumes "io_ok M" and "a < io_fresh M" and "ctx_ok a c" and "ctx_step a c M M'"
  shows "io_ok M'"
proof -
  let ?n = "\<lambda>M. \<Sum>x<io_fresh M. n_events (io_store M x)"
  have "?n M' + n_events (io_store M a) = ?n M + n_events c"
  proof -
    have "?n M = n_events (io_store M a) + (\<Sum>x\<in>{..<io_fresh M} - {a}. n_events (io_store M x))"
      using assms(2) by (intro sum.remove) auto
    moreover have "?n M' = n_events c + (\<Sum>x\<in>{..<io_fresh M} - {a}. n_events (io_store M' x))"
      using assms(2,4) by (simp add: ctx_step_def sum.remove [of "{..<io_fresh M}" a])
    moreover have "(\<Sum>x\<in>{..<io_fresh M} - {a}. n_events (io_store M' x)) =
        (\<Sum>x\<in>{..<io_fresh M} - {a}. n_events (io_store M x))"
      using assms(4) by (intro sum.cong) (auto simp: ctx_step_def)
    ultimately show ?thesis by simp
  qed
  then have "of_nat (?n M') + of_nat (n_events (io_store M a)) = (of_nat (?n M) + of_nat (n_events c) :: 64 word)"
    by (metis of_nat_add)
  then have "of_nat (?n M') = (of_nat (?n M) + of_nat (n_events c) - of_nat (n_events (io_store M a)) :: 64 word)"
    by (simp add: eq_diff_eq)
  moreover have "io_pending M = of_nat (?n M)" using assms(1) by (simp add: io_ok_def)
  ultimately have "io_pending M' = of_nat (?n M')" using assms(4) by (simp add: ctx_step_def)
  then show ?thesis using assms unfolding io_ok_def ctx_step_def by auto
qed

text \<open>Scheduling does not touch the contexts.\<close>

lemma schedule_frame [simp]:
  "io_fds (schedule k M) = io_fds M" "io_fresh (schedule k M) = io_fresh M" "io_store (schedule k M) = io_store M"
  "io_epoll (schedule k M) = io_epoll M" "io_pending (schedule k M) = io_pending M"
  "io_timers (schedule k M) = io_timers M"
  by (simp_all add: schedule_def tickle_def Let_def split: prod.split)

definition same_contexts :: "io_manager \<Rightarrow> io_manager \<Rightarrow> bool" where
  "same_contexts M M' \<longleftrightarrow> io_fds M' = io_fds M \<and> io_fresh M' = io_fresh M \<and> io_store M' = io_store M \<and>
     io_epoll M' = io_epoll M \<and> io_pending M' = io_pending M"

lemma same_contexts_ok: "io_ok M \<Longrightarrow> same_contexts M M' \<Longrightarrow> io_ok M'"
  by (simp add: io_ok_def same_contexts_def)

lemma fold_schedule_frame: "same_contexts M (fold (schedule \<circ> cb_task) cbs M)"
proof (induction cbs arbitrary: M)
  case (Cons cb cbs)
  then show ?case using Cons [of "schedule (cb_task cb) M"] by (simp add: same_contexts_def)
qed (simp add: same_contexts_def)

section \<open>Operations on a context\<close>

fun side_of :: "32 word \<Rightarrow> side" where
  "side_of ev = (if ev = 1 then ReadSide else WriteSide)"

definition drop_event :: "32 word \<Rightarrow> fd_context \<Rightarrow> fd_context" where
  "drop_event ev c = set_part (side_of ev) resetEventContext (c\<lparr>fc_events := fc_events c AND NOT ev\<rparr>)"

lemma getEventContext_side: "ev \<in> {1, 4} \<Longrightarrow> getEventContext ev = Some (side_of ev)"
  by (auto simp: getEventContext_def)

lemma getEventContext_Some: "getEventContext ev = Some s \<longleftrightarrow> ev \<in> {1, 4} \<and> s = side_of ev"
  by (auto simp: getEventContext_def)

lemma drop_event_ok:
  assumes "ctx_ok a c" and "ev \<in> {1, 4}" and "fc_events c AND ev \<noteq> 0"
  shows "ctx_ok a (drop_event ev c)" "n_events c = n_events (drop_event ev c) + 1"
    "fc_events (drop_event ev c) = fc_events c AND NOT ev" "filled (part (side_of ev) c)"
  using assms by (auto simp: ctx_ok_def drop_event_def n_events_def part_ok_def)

lemma drop_event_fd [simp]: "fc_fd (drop_event ev c) = fc_fd c"
  by (simp add: drop_event_def)

lemma filled_task: "filled e \<Longrightarrow> k_fiber (ctx_task e) \<noteq> None \<or> k_cb (ctx_task e) \<noteq> None"
  by (auto simp: filled_def ctx_task_def)

lemma schedule_tasks:
  "k_fiber k \<noteq> None \<or> k_cb k \<noteq> None \<Longrightarrow> sc_tasks (io_sched (schedule k M)) = sc_tasks (io_sched M) @ [k]"
  by (auto simp: schedule_def scheduleNoLock_def tickle_def Let_def)

text \<open>What \<open>trigger_counted\<close> does when the event it triggers is registered.\<close>

definition triggered :: "bool \<Rightarrow> 32 word \<Rightarrow> nat \<Rightarrow> io_manager \<Rightarrow> io_manager \<Rightarrow> bool" where
  "triggered wanted ev a M M' \<longleftrightarrow>
     io_fds M' = io_fds M \<and> io_fresh M' = io_fresh M \<and> io_epoll M' = io_epoll M \<and> io_timers M' = io_timers M \<and>
     io_store M' = (if wanted then (io_store M)(a := drop_event ev (io_store M a)) else io_store M) \<and>
     io_pending M' = io_pending M - of_bool wanted \<and>
     sc_tasks (io_sched M') = sc_tasks (io_sched M) @ (if wanted then [ctx_task (part (side_of ev) (io_store M a))] else [])"

lemma trigger_counted_spec:
  assumes "ctx_ok a (io_store M a)" and "ev \<in> {1, 4}" and "wanted \<Longrightarrow> fc_events (io_store M a) AND ev \<noteq> 0"
  obtains M' where "trigger_counted wanted ev a M = Inr M'" and "triggered wanted ev a M M'"
proof (cases wanted)
  case True
  let ?c = "io_store M a" and ?s = "side_of ev"
  note d = drop_event_ok [OF assms(1,2) assms(3) [OF True]]
  have t: "triggerEvent ev a M = Inr (put_ctx a (drop_event ev ?c) (schedule (ctx_task (part ?s ?c)) M))"
    using assms(3) [OF True] d(4) by (simp add: triggerEvent_def Let_def getEventContext_side [OF assms(2)] filled_def drop_event_def)
  define T where "T = schedule (ctx_task (part ?s ?c)) M"
  have T: "sc_tasks (io_sched T) = sc_tasks (io_sched M) @ [ctx_task (part ?s ?c)]"
    unfolding T_def by (rule schedule_tasks [OF filled_task [OF d(4)]])
  define M' where "M' = put_ctx a (drop_event ev ?c) T\<lparr>io_pending := io_pending T - 1\<rparr>"
  have "trigger_counted wanted ev a M = Inr M'"
    using True t by (simp add: trigger_counted_def M'_def T_def put_ctx_def)
  moreover have "triggered wanted ev a M M'"
    using True T by (simp add: triggered_def M'_def put_ctx_def) (simp add: T_def)
  ultimately show ?thesis by (rule that)
qed (use that [of M] in \<open>simp add: trigger_counted_def triggered_def\<close>)

text \<open>A registered event that is not there any more fails the assertion.\<close>

lemma trigger_counted_gone:
  "fc_events (io_store M a) AND ev = 0 \<Longrightarrow> trigger_counted True ev a M = Inl AssertionFailure"
  by (simp add: trigger_counted_def triggerEvent_def Let_def)

lemma epoll_ctl_fields [simp]:
  "io_fds (epoll_ctl fd evs a M) = io_fds M" "io_fresh (epoll_ctl fd evs a M) = io_fresh M"
  "io_store (epoll_ctl fd evs a M) = io_store M" "io_pending (epoll_ctl fd evs a M) = io_pending M"
  "io_timers (epoll_ctl fd evs a M) = io_timers M" "io_sched (epoll_ctl fd evs a M) = io_sched M"
  "io_epoll (epoll_ctl fd evs a M) = (io_epoll M)(fd := if evs = 0 then None else Some (EPOLLET OR evs, a))"
  by (simp_all add: epoll_ctl_def)

text \<open>Dropping the events among \<open>r\<close>: what \<open>cancelAll\<close> and the idle fiber do once \<^verbatim>\<open>epoll_ctl\<close> has succeeded.\<close>

definition drop_events :: "32 word \<Rightarrow> fd_context \<Rightarrow> fd_context" where
  "drop_events r c =
     (let c = (if r AND 1 \<noteq> 0 then drop_event 1 c else c) in if r AND 4 \<noteq> 0 then drop_event 4 c else c)"

definition tasks_of :: "32 word \<Rightarrow> fd_context \<Rightarrow> sched_task list" where
  "tasks_of r c =
     (if r AND 1 \<noteq> 0 then [ctx_task (fc_read c)] else []) @ (if r AND 4 \<noteq> 0 then [ctx_task (fc_write c)] else [])"

lemma drop_events_ok:
  assumes "ctx_ok a c" and "r \<in> {0, 1, 4, 5}" and "r AND NOT (fc_events c) = 0"
  shows "ctx_ok a (drop_events r c) \<and> fc_events (drop_events r c) = fc_events c AND NOT r \<and>
    n_events c = n_events (drop_events r c) + of_bool (r \<in> {1, 5}) + of_bool (r \<in> {4, 5})"
  using assms by (auto simp: ctx_ok_def drop_events_def drop_event_def n_events_def part_ok_def)

lemma trigger_two:
  assumes "ctx_ok a (io_store M a)" and "r \<in> {0, 1, 4, 5}" and "r AND NOT (fc_events (io_store M a)) = 0"
  obtains M' where
    "rbind (trigger_counted (r AND READ \<noteq> 0) READ a M) (trigger_counted (r AND WRITE \<noteq> 0) WRITE a) = Inr M'"
    and "io_fds M' = io_fds M \<and> io_fresh M' = io_fresh M \<and> io_epoll M' = io_epoll M \<and> io_timers M' = io_timers M"
    and "io_store M' = (io_store M)(a := drop_events r (io_store M a))"
    and "io_pending M' = io_pending M + of_nat (n_events (drop_events r (io_store M a))) - of_nat (n_events (io_store M a))"
    and "sc_tasks (io_sched M') = sc_tasks (io_sched M) @ tasks_of r (io_store M a)"
proof -
  let ?c = "io_store M a"
  have r: "r AND 1 \<noteq> 0 \<longrightarrow> fc_events ?c AND 1 \<noteq> 0" "r AND 4 \<noteq> 0 \<longrightarrow> fc_events ?c AND 4 \<noteq> 0"
    using assms unfolding ctx_ok_def by auto
  obtain N where n: "trigger_counted (r AND READ \<noteq> 0) READ a M = Inr N" "triggered (r AND 1 \<noteq> 0) 1 a M N"
    using trigger_counted_spec [of a M 1 "r AND 1 \<noteq> 0"] assms(1) r(1) by auto
  define d where "d = (if r AND 1 \<noteq> 0 then drop_event 1 ?c else ?c)"
  have d: "io_store N a = d" "io_store N = (io_store M)(a := d)" using n(2) by (auto simp: triggered_def d_def)
  have dr: "d = drop_events (r AND 1) ?c" by (simp add: d_def drop_events_def Let_def and.assoc)
  have "ctx_ok a d" "fc_events d AND 4 = fc_events ?c AND 4" "fc_write d = fc_write ?c"
    using assms by (auto simp: d_def ctx_ok_def drop_event_def part_ok_def)
  then obtain M' where m: "trigger_counted (r AND WRITE \<noteq> 0) WRITE a N = Inr M'" "triggered (r AND 4 \<noteq> 0) 4 a N M'"
    using trigger_counted_spec [of a N 4 "r AND 4 \<noteq> 0"] r(2) d(1) by auto
  have e: "drop_events r ?c = (if r AND 4 \<noteq> 0 then drop_event 4 d else d)" by (simp add: drop_events_def d_def Let_def)
  have cnt: "n_events ?c = n_events (drop_events r ?c) + of_bool (r \<in> {1, 5}) + of_bool (r \<in> {4, 5})"
    using drop_events_ok [OF assms] by simp
  show ?thesis
  proof (rule that)
    show "rbind (trigger_counted (r AND READ \<noteq> 0) READ a M) (trigger_counted (r AND WRITE \<noteq> 0) WRITE a) = Inr M'"
      using n(1) m(1) by simp
    show "io_fds M' = io_fds M \<and> io_fresh M' = io_fresh M \<and> io_epoll M' = io_epoll M \<and> io_timers M' = io_timers M"
      using n(2) m(2) by (simp add: triggered_def)
    show "io_store M' = (io_store M)(a := drop_events r ?c)"
      using m(2) d e by (auto simp: triggered_def)
    have "io_pending M' = io_pending M - of_bool (r AND 1 \<noteq> 0) - of_bool (r AND 4 \<noteq> 0)"
      using n(2) m(2) by (simp add: triggered_def)
    then show "io_pending M' = io_pending M + of_nat (n_events (drop_events r ?c)) - of_nat (n_events ?c)"
      unfolding cnt using assms(2) by auto
    show "sc_tasks (io_sched M') = sc_tasks (io_sched M) @ tasks_of r ?c"
      using n(2) m(2) d(1) \<open>fc_write d = fc_write ?c\<close> by (simp add: triggered_def tasks_of_def)
  qed
qed

text \<open>The context that a descriptor has in a table that has not lost any.\<close>

lemma fd_lookup_ok:
  assumes "io_ok M" and "fd_lookup fd M = Inr r"
  shows "(case r of None \<Rightarrow> int (io_fresh M) \<le> fd | Some a \<Rightarrow> fd = int a \<and> a < io_fresh M)"
  using assms by (auto simp: fd_lookup_def io_ok_def split: if_splits)

lemma io_ok_ctx: "io_ok M \<Longrightarrow> a < io_fresh M \<Longrightarrow> ctx_ok a (io_store M a) \<and> io_epoll M (int a) = interest a (io_store M a)"
  by (simp add: io_ok_def)

lemma contextResize_ok:
  assumes "io_ok M" and "io_fresh M \<le> n"
  shows "io_ok (contextResize n M)" "io_fresh (contextResize n M) = n"
proof -
  let ?N = "contextResize n M"
  have l: "length (io_fds M) = io_fresh M" "io_fds M = [0 ..< io_fresh M]" using assms(1) by (simp_all add: io_ok_def)
  show fresh: "io_fresh ?N = n" using assms(2) l(1) by (simp add: contextResize_def Let_def)
  have fds: "io_fds ?N = [0 ..< n]"
    using assms(2) l upt_add_eq_append [of 0 "io_fresh M" "n - io_fresh M"] by (simp add: contextResize_def Let_def)
  have st: "io_store ?N a = (if a < io_fresh M then io_store M a else new_fd_context a)" if "a < n" for a
    using that assms(2) l(1) by (auto simp: contextResize_def Let_def)
  have rest: "io_epoll ?N = io_epoll M" "io_pending ?N = io_pending M" by (simp_all add: contextResize_def Let_def)
  have "(\<Sum>a<n. n_events (io_store ?N a)) = (\<Sum>a<io_fresh M. n_events (io_store M a))"
  proof -
    have "(\<Sum>a<n. n_events (io_store ?N a)) = (\<Sum>a\<in>{..<io_fresh M} \<union> {io_fresh M..<n}. n_events (io_store ?N a))"
      using assms(2) by (intro sum.cong) auto
    also have "\<dots> = (\<Sum>a<io_fresh M. n_events (io_store ?N a)) + (\<Sum>a\<in>{io_fresh M..<n}. n_events (io_store ?N a))"
      by (intro sum.union_disjoint) auto
    also have "(\<Sum>a\<in>{io_fresh M..<n}. n_events (io_store ?N a)) = 0"
      using st by (intro sum.neutral) (simp add: n_events_def new_fd_context_def)
    finally show ?thesis using st assms(2) by simp
  qed
  moreover have "ctx_ok a (io_store ?N a) \<and> io_epoll ?N (int a) = interest a (io_store ?N a)" if "a < n" for a
  proof (cases "a < io_fresh M")
    case True
    then show ?thesis using io_ok_ctx [OF assms(1) True] st [OF that] rest(1) by simp
  next
    case False
    then have "io_epoll M (int a) = None" using assms(1) by (simp add: io_ok_def)
    then show ?thesis using False st [OF that] rest(1)
      by (simp add: ctx_ok_def part_ok_def new_fd_context_def interest_def)
  qed
  ultimately show "io_ok ?N" using assms fresh fds rest unfolding io_ok_def by auto
qed

section \<open>Any sequence of calls\<close>

lemma fill_event_ok:
  assumes "ctx_ok a c" and "ev \<in> {1, 4}" and "fc_events c AND ev = 0" and "filled e"
  shows "ctx_ok a (set_part (side_of ev) e (c\<lparr>fc_events := fc_events c OR ev\<rparr>)) \<and>
    n_events (set_part (side_of ev) e (c\<lparr>fc_events := fc_events c OR ev\<rparr>)) = n_events c + 1 \<and>
    fc_events (set_part (side_of ev) e (c\<lparr>fc_events := fc_events c OR ev\<rparr>)) = fc_events c OR ev"
proof -
  have "fc_events c = 0 \<and> ev = 1 \<or> fc_events c = 0 \<and> ev = 4 \<or> fc_events c = 1 \<and> ev = 4 \<or> fc_events c = 4 \<and> ev = 1"
    using assms(1-3) by (auto simp: ctx_ok_def)
  then show ?thesis using assms(1,4) by (elim disjE) (simp_all add: ctx_ok_def part_ok_def n_events_def)
qed

lemma add_to_ctx_ok:
  assumes "io_ok M" and "a < io_fresh M" and "add_to_ctx a (int a) ev cb cur ok M = Inr (rt, M')"
  shows "io_ok M'"
proof -
  let ?c = "io_store M a"
  note c = io_ok_ctx [OF assms(1,2)]
  show ?thesis
  proof (cases "ok \<and> fc_events ?c AND ev = 0")
    case True
    then obtain s where s: "getEventContext ev = Some s"
      using assms(3) by (auto simp: add_to_ctx_def Let_def split: option.splits if_splits)
    then have ev: "ev \<in> {1, 4}" "s = side_of ev" by (simp_all add: getEventContext_Some)
    have empty: "part s ?c = resetEventContext" using c True ev by (auto simp: ctx_ok_def part_ok_def)
    obtain f k where k: "(f = None) \<noteq> (k = None)" and
      M': "M' = put_ctx a (set_part s \<lparr>ec_scheduler = True, ec_fiber = f, ec_cb = k\<rparr> (?c\<lparr>fc_events := fc_events ?c OR ev\<rparr>))
        ((epoll_ctl (int a) (fc_events ?c OR ev) a M)\<lparr>io_pending := io_pending M + 1\<rparr>)"
    proof (cases cb)
      case None
      then show ?thesis using assms(3) True s empty ev
        by (intro that [of "Some cur" None]) (auto simp: add_to_ctx_def Let_def resetEventContext_def split: if_splits)
    next
      case (Some k)
      then show ?thesis using assms(3) True s empty ev
        by (intro that [of None cb]) (auto simp: add_to_ctx_def Let_def resetEventContext_def split: if_splits)
    qed
    define d where "d = set_part s \<lparr>ec_scheduler = True, ec_fiber = f, ec_cb = k\<rparr> (?c\<lparr>fc_events := fc_events ?c OR ev\<rparr>)"
    have fk: "filled \<lparr>ec_scheduler = True, ec_fiber = f, ec_cb = k\<rparr>" using k by (simp add: filled_def)
    have d: "ctx_ok a d \<and> n_events d = n_events ?c + 1 \<and> fc_events d = fc_events ?c OR ev"
      unfolding d_def ev(2) by (rule fill_event_ok) (use c True ev fk in simp_all)
    have "fc_events d \<noteq> 0" using d ev c by (auto simp: ctx_ok_def)
    then have "ctx_step a d M M'" using d unfolding M' d_def [symmetric]
      by (simp add: ctx_step_def put_ctx_def interest_def)
    then show ?thesis by (rule ctx_step_ok [OF assms(1,2) conjunct1 [OF d]])
  next
    case False
    then have "M' = M" using assms(3) by (auto simp: add_to_ctx_def Let_def split: if_splits)
    then show ?thesis using assms(1) by simp
  qed
qed

lemma addEvent_ok:
  assumes "io_ok M" and "addEvent fd ev cb cur ok M = Inr (rt, M')"
  shows "io_ok M'"
proof -
  obtain r where r: "fd_lookup fd M = Inr r" using assms(2) by (auto simp: addEvent_def rbind_eq_Inr)
  show ?thesis
  proof (cases r)
    case (Some a)
    then have "fd = int a" "a < io_fresh M" using fd_lookup_ok [OF assms(1) r] by simp_all
    then show ?thesis using add_to_ctx_ok [OF assms(1)] assms(2) r Some by (simp add: addEvent_def)
  next
    case None
    then have fd: "int (io_fresh M) \<le> fd" using fd_lookup_ok [OF assms(1) r] by simp
    define n where "n = nat (fd + fd div 2)"
    have n: "io_fresh M \<le> n" using fd by (simp add: n_def le_nat_iff)
    define N where "N = contextResize n M"
    have N: "io_ok N" "io_fresh N = n" unfolding N_def by (rule contextResize_ok [OF assms(1) n])+
    have "32 \<le> io_fresh M" using assms(1) by (simp add: io_ok_def)
    then have lt: "nat fd < n" using fd unfolding n_def by linarith
    have g: "fd_grow fd M = Inr (nat fd, N)"
      using N lt unfolding fd_grow_def Let_def n_def [symmetric] N_def [symmetric] by (simp add: io_ok_def)
    have "add_to_ctx (nat fd) (int (nat fd)) ev cb cur ok N = Inr (rt, M')"
      using assms(2) r None g fd by (simp add: addEvent_def)
    then show ?thesis using add_to_ctx_ok [OF N(1)] lt N(2) by simp
  qed
qed

lemma drop_step:
  assumes "ctx_ok a (io_store M a)" and "ev \<in> {1, 4}" and "fc_events (io_store M a) AND ev \<noteq> 0"
    and "io_fds M' = io_fds M" and "io_fresh M' = io_fresh M"
    and "io_store M' = (io_store M)(a := drop_event ev (io_store M a))"
    and "io_epoll M' = (io_epoll (epoll_ctl (int a) (fc_events (io_store M a) AND NOT ev) a M))"
    and "io_pending M' = io_pending M - 1"
  shows "ctx_step a (drop_event ev (io_store M a)) M M'"
  using drop_event_ok [OF assms(1-3)] assms(4-) by (simp add: ctx_step_def interest_def)

lemma delEvent_ok:
  assumes "io_ok M" and "delEvent fd ev ok M = Inr (b, M')"
  shows "io_ok M'"
proof -
  obtain r where r: "fd_lookup fd M = Inr r" using assms(2) by (auto simp: delEvent_def rbind_eq_Inr)
  show ?thesis
  proof (cases r)
    case (Some a)
    then have a: "fd = int a" "a < io_fresh M" using fd_lookup_ok [OF assms(1) r] by simp_all
    note c = io_ok_ctx [OF assms(1) a(2)]
    show ?thesis
    proof (cases "fc_events (io_store M a) AND ev \<noteq> 0 \<and> ok")
      case True
      then have ev: "ev \<in> {1, 4}" using assms(2) r Some by (auto simp: delEvent_def Let_def getEventContext_def split: if_splits)
      then have "ctx_step a (drop_event ev (io_store M a)) M M'"
        by (rule drop_step [OF conjunct1 [OF c]])
          (use assms(2) r Some True ev a in
            \<open>auto simp: delEvent_def Let_def getEventContext_side put_ctx_def drop_event_def simp del: side_of.simps\<close>)
      then show ?thesis using ctx_step_ok [OF assms(1) a(2)] drop_event_ok(1) c ev True by blast
    next
      case False
      then show ?thesis using assms r Some by (auto simp: delEvent_def Let_def split: if_splits)
    qed
  qed (use assms r in \<open>auto simp: delEvent_def\<close>)
qed

lemma cancelEvent_ok:
  assumes "io_ok M" and "cancelEvent fd ev ok M = Inr (b, M')"
  shows "io_ok M'"
proof -
  obtain r where r: "fd_lookup fd M = Inr r" using assms(2) by (auto simp: cancelEvent_def rbind_eq_Inr)
  show ?thesis
  proof (cases r)
    case (Some a)
    then have a: "fd = int a" "a < io_fresh M" using fd_lookup_ok [OF assms(1) r] by simp_all
    note c = io_ok_ctx [OF assms(1) a(2)]
    let ?E = "epoll_ctl (int a) (fc_events (io_store M a) AND NOT ev) a M"
    show ?thesis
    proof (cases "fc_events (io_store M a) AND ev \<noteq> 0 \<and> ok")
      case True
      then obtain N where t: "triggerEvent ev a ?E = Inr N" and M': "M' = N\<lparr>io_pending := io_pending N - 1\<rparr>"
        using assms(2) r Some a by (auto simp: cancelEvent_def Let_def rbind_eq_Inr)
      then have ev: "ev \<in> {1, 4}" by (auto simp: triggerEvent_def Let_def getEventContext_def split: if_splits)
      have tc: "trigger_counted True ev a ?E = Inr M'" using t M' by (simp add: trigger_counted_def)
      obtain N' where "trigger_counted True ev a ?E = Inr N'" "triggered True ev a ?E N'"
        using trigger_counted_spec [of a ?E ev True] c ev True by auto
      then have "triggered True ev a ?E M'" using tc by simp
      then have "ctx_step a (drop_event ev (io_store M a)) M M'"
        by (intro drop_step [OF conjunct1 [OF c] ev]) (use True in \<open>simp_all add: triggered_def\<close>)
      then show ?thesis using ctx_step_ok [OF assms(1) a(2)] drop_event_ok(1) c ev True by blast
    next
      case False
      then show ?thesis using assms r Some by (auto simp: cancelEvent_def Let_def split: if_splits)
    qed
  qed (use assms r in \<open>auto simp: cancelEvent_def\<close>)
qed

lemma two_step:
  assumes "io_ok M" and "a < io_fresh M" and "r \<in> {0, 1, 4, 5}" and "r AND NOT (fc_events (io_store M a)) = 0"
    and t: "rbind (trigger_counted (r AND READ \<noteq> 0) READ a (epoll_ctl (int a) (fc_events (io_store M a) AND NOT r) a M))
      (trigger_counted (r AND WRITE \<noteq> 0) WRITE a) = Inr M'"
  shows "io_ok M'" "io_store M' = (io_store M)(a := drop_events r (io_store M a))"
    "sc_tasks (io_sched M') = sc_tasks (io_sched M) @ tasks_of r (io_store M a)"
proof -
  let ?c = "io_store M a" and ?E = "epoll_ctl (int a) (fc_events (io_store M a) AND NOT r) a M"
  have c: "ctx_ok a ?c" using io_ok_ctx [OF assms(1,2)] by blast
  obtain N where n: "rbind (trigger_counted (r AND READ \<noteq> 0) READ a ?E) (trigger_counted (r AND WRITE \<noteq> 0) WRITE a) = Inr N"
    and frame: "io_fds N = io_fds ?E \<and> io_fresh N = io_fresh ?E \<and> io_epoll N = io_epoll ?E \<and> io_timers N = io_timers ?E"
    and st: "io_store N = (io_store ?E)(a := drop_events r (io_store ?E a))"
    and pend: "io_pending N = io_pending ?E + of_nat (n_events (drop_events r (io_store ?E a))) - of_nat (n_events (io_store ?E a))"
    and tasks: "sc_tasks (io_sched N) = sc_tasks (io_sched ?E) @ tasks_of r (io_store ?E a)"
    using trigger_two [of a ?E r] c assms(3,4) by (simp del: epoll_ctl_fields(7)) blast
  have N: "N = M'" using n t by simp
  note d = drop_events_ok [OF c assms(3,4)]
  have "ctx_step a (drop_events r ?c) M M'"
    using frame st pend d unfolding N by (simp add: ctx_step_def interest_def)
  then show "io_ok M'" using ctx_step_ok [OF assms(1,2)] d by blast
  show "io_store M' = (io_store M)(a := drop_events r ?c)" using st N by simp
  show "sc_tasks (io_sched M') = sc_tasks (io_sched M) @ tasks_of r ?c" using tasks N by simp
qed

lemma rbind_test: "rbind m (\<lambda>M. if P M then Inr (True, M) else Inl e) = Inr (b, M') \<longleftrightarrow> m = Inr M' \<and> P M' \<and> b"
  by (auto simp: rbind_eq_Inr)

lemma cancelAll_ok:
  assumes "io_ok M" and "cancelAll fd ok M = Inr (b, M')"
  shows "io_ok M'"
proof -
  obtain r where r: "fd_lookup fd M = Inr r" using assms(2) by (auto simp: cancelAll_def rbind_eq_Inr)
  show ?thesis
  proof (cases r)
    case (Some a)
    then have a: "fd = int a" "a < io_fresh M" using fd_lookup_ok [OF assms(1) r] by simp_all
    let ?e = "fc_events (io_store M a)"
    have c: "ctx_ok a (io_store M a)" using io_ok_ctx [OF assms(1) a(2)] by blast
    show ?thesis
    proof (cases "?e \<noteq> 0 \<and> ok")
      case True
      let ?E = "epoll_ctl (int a) (?e AND NOT ?e) a M"
      obtain N where n: "trigger_counted (?e AND READ \<noteq> 0) READ a ?E = Inr N"
        and w: "trigger_counted (fc_events (io_store N a) AND WRITE \<noteq> 0) WRITE a N = Inr M'"
        using assms(2) r Some a True by (auto simp: cancelAll_def rbind_eq_Inr split: if_splits)
      obtain N' where "trigger_counted (?e AND READ \<noteq> 0) READ a ?E = Inr N'" "triggered (?e AND READ \<noteq> 0) 1 a ?E N'"
        using trigger_counted_spec [of a ?E 1 "?e AND READ \<noteq> 0"] c by auto
      then have "triggered (?e AND READ \<noteq> 0) 1 a ?E N" using n by simp
      then have "fc_events (io_store N a) AND WRITE = ?e AND WRITE"
        by (auto simp: triggered_def drop_event_def and.assoc)
      then have "rbind (trigger_counted (?e AND READ \<noteq> 0) READ a ?E) (trigger_counted (?e AND WRITE \<noteq> 0) WRITE a) = Inr M'"
        using n w by simp
      then show ?thesis by (rule two_step(1) [OF assms(1) a(2), rotated 2]) (use c in \<open>auto simp: ctx_ok_def\<close>)
    next
      case False
      then show ?thesis using assms r Some by (auto simp: cancelAll_def split: if_splits)
    qed
  qed (use assms r in \<open>auto simp: cancelAll_def\<close>)
qed

text \<open>The events that a report stands for.\<close>

definition real_events :: "32 word \<Rightarrow> fd_context \<Rightarrow> 32 word" where
  "real_events evs c =
     (let evs = (if evs AND (EPOLLERR OR EPOLLHUP) \<noteq> 0 then evs OR ((EPOLLIN OR EPOLLOUT) AND fc_events c) else evs)
      in (if evs AND EPOLLIN \<noteq> 0 then READ else 0) OR (if evs AND EPOLLOUT \<noteq> 0 then WRITE else 0))"

lemma real_events_range: "real_events evs c \<in> {0, 1, 4, 5}"
  by (simp add: real_events_def Let_def)

lemma handle_event_real:
  "handle_event a evs ok M =
     (let c = io_store M a; r = real_events evs c
      in if fc_events c AND r = 0 \<or> \<not> ok then Inr M
         else rbind (trigger_counted (r AND READ \<noteq> 0) READ a (epoll_ctl (int (fc_fd c)) (fc_events c AND NOT r) a M))
           (trigger_counted (r AND WRITE \<noteq> 0) WRITE a))"
  by (simp add: handle_event_def real_events_def Let_def)

lemma handle_event_cases:
  assumes "io_ok M" and "a < io_fresh M"
  obtains (none) "fc_events (io_store M a) AND real_events evs (io_store M a) = 0 \<or> \<not> ok" "handle_event a evs ok M = Inr M"
  | (fires) M' where "ok" "real_events evs (io_store M a) AND NOT (fc_events (io_store M a)) = 0"
      "handle_event a evs ok M = Inr M'" "io_ok M'"
      "io_store M' = (io_store M)(a := drop_events (real_events evs (io_store M a)) (io_store M a))"
      "sc_tasks (io_sched M') = sc_tasks (io_sched M) @ tasks_of (real_events evs (io_store M a)) (io_store M a)"
  | (stale) "ok" "fc_events (io_store M a) AND real_events evs (io_store M a) \<noteq> 0"
      "real_events evs (io_store M a) AND NOT (fc_events (io_store M a)) \<noteq> 0"
      "handle_event a evs ok M = Inl AssertionFailure"
proof -
  let ?c = "io_store M a" and ?r = "real_events evs (io_store M a)"
  have c: "ctx_ok a ?c" using io_ok_ctx [OF assms] by blast
  then have fd: "fc_fd ?c = a" by (simp add: ctx_ok_def)
  let ?E = "epoll_ctl (int a) (fc_events ?c AND NOT ?r) a M"
  let ?two = "rbind (trigger_counted (?r AND READ \<noteq> 0) READ a ?E) (trigger_counted (?r AND WRITE \<noteq> 0) WRITE a)"
  consider "fc_events ?c AND ?r = 0 \<or> \<not> ok" | "ok" "fc_events ?c AND ?r \<noteq> 0" "?r AND NOT (fc_events ?c) = 0"
    | "ok" "fc_events ?c AND ?r \<noteq> 0" "?r AND NOT (fc_events ?c) \<noteq> 0" by blast
  then show ?thesis
  proof cases
    case 1
    then show ?thesis by (intro none) (auto simp: handle_event_real Let_def)
  next
    case 2
    have h: "handle_event a evs ok M = ?two" using 2 fd by (simp add: handle_event_real Let_def)
    obtain M' where m: "?two = Inr M'" using trigger_two [of a ?E ?r] c real_events_range 2(3) by (metis epoll_ctl_fields(3))
    show ?thesis using 2 h m two_step [OF assms real_events_range 2(3) m] by (intro fires [of M']) simp_all
  next
    case 3
    have h: "handle_event a evs ok M = ?two" using 3 fd by (simp add: handle_event_real Let_def)
    have e: "?r = 5 \<and> (fc_events ?c = 1 \<or> fc_events ?c = 4)" using 3 real_events_range [of evs ?c] c by (auto simp: ctx_ok_def)
    have "?two = Inl AssertionFailure"
    proof (cases "fc_events ?c = 4")
      case True
      then show ?thesis using e trigger_counted_gone [of ?E a READ] by simp
    next
      case False
      obtain N where n: "trigger_counted (?r AND READ \<noteq> 0) READ a ?E = Inr N" "triggered (?r AND READ \<noteq> 0) 1 a ?E N"
        using trigger_counted_spec [of a ?E 1 "?r AND READ \<noteq> 0"] c e False by auto
      have "fc_events (io_store N a) AND WRITE = 0" using n(2) e False by (simp add: triggered_def drop_event_def)
      from trigger_counted_gone [OF this] show ?thesis using n(1) e by simp
    qed
    then show ?thesis using 3 h by (intro stale) simp_all
  qed
qed

lemma trigger_counted_fresh: "trigger_counted w ev a M = Inr M' \<Longrightarrow> io_fresh M' = io_fresh M"
  by (auto simp: trigger_counted_def triggerEvent_def Let_def put_ctx_def split: if_splits option.splits)

lemma handle_event_ok:
  assumes "io_ok M" and "a < io_fresh M" and "handle_event a evs ok M = Inr M'"
  shows "io_ok M' \<and> io_fresh M' = io_fresh M"
proof -
  define c r where "c = io_store M a" and "r = real_events evs c"
  define E where "E = epoll_ctl (int (fc_fd c)) (fc_events c AND NOT r) a M"
  have h: "handle_event a evs ok M = (if fc_events c AND r = 0 \<or> \<not> ok then Inr M
      else rbind (trigger_counted (r AND READ \<noteq> 0) READ a E) (trigger_counted (r AND WRITE \<noteq> 0) WRITE a))"
    by (simp add: handle_event_real Let_def c_def r_def E_def)
  have "io_fresh M' = io_fresh M"
  proof (cases "fc_events c AND r = 0 \<or> \<not> ok")
    case True
    then show ?thesis using assms(3) h by simp
  next
    case False
    then obtain N where "trigger_counted (r AND READ \<noteq> 0) READ a E = Inr N" "trigger_counted (r AND WRITE \<noteq> 0) WRITE a N = Inr M'"
      using assms(3) h unfolding rbind_def by (simp split: sum.splits)
    then have "io_fresh M' = io_fresh E" using trigger_counted_fresh by metis
    then show ?thesis by (simp add: E_def)
  qed
  moreover have "io_ok M'"
  proof (cases rule: handle_event_cases [OF assms(1,2), of evs ok])
    case 1
    then show ?thesis using assms(1,3) by simp
  next
    case (2 N)
    then show ?thesis using assms(3) by simp
  next
    case 3
    then show ?thesis using assms(3) by simp
  qed
  ultimately show ?thesis by simp
qed

definition known :: "nat \<Rightarrow> report \<Rightarrow> bool" where
  "known n r = (case r of Tickled \<Rightarrow> True | Ready a evs ok \<Rightarrow> a < n)"

lemma handle_reports_ok:
  "io_ok M \<Longrightarrow> list_all (known (io_fresh M)) rs \<Longrightarrow> handle_reports rs M = Inr M' \<Longrightarrow> io_ok M'"
proof (induction rs arbitrary: M)
  case (Cons r rs)
  show ?case
  proof (cases r)
    case Tickled
    have "io_ok (M\<lparr>io_pipe := 0\<rparr>)" using Cons.prems(1) by (simp add: io_ok_def)
    then show ?thesis using Cons.IH [of "M\<lparr>io_pipe := 0\<rparr>"] Cons.prems Tickled by simp
  next
    case (Ready a evs ok)
    then obtain N where n: "handle_event a evs ok M = Inr N" "handle_reports rs N = Inr M'"
      using Cons.prems(3) by (auto simp: rbind_eq_Inr)
    have "io_ok N \<and> io_fresh N = io_fresh M"
      using handle_event_ok [OF Cons.prems(1) _ n(1)] Cons.prems(2) Ready by (simp add: known_def)
    then show ?thesis using Cons.IH [of N] Cons.prems(2) n(2) by simp
  qed
qed simp

lemma idle_pass_ok:
  assumes "io_ok M" and "list_all (known (io_fresh M)) reports" and "idle_pass now n later b reports M = Inr (q, ts, M')"
  shows "io_ok M'"
proof -
  obtain s t N where s: "io_stopping now M = (s, t, N)" by (metis prod_cases3)
  then have N: "same_contexts M N" by (auto simp: io_stopping_def same_contexts_def split: prod.splits)
  show ?thesis
  proof (cases s)
    case True
    then show ?thesis using assms(3) s same_contexts_ok [OF assms(1) N] by (simp add: idle_pass_def)
  next
    case False
    obtain cbs T where l: "listExpiredCb b later (io_timers N) = (cbs, T)" by fastforce
    define P where "P = fold (schedule \<circ> cb_task) cbs (N\<lparr>io_timers := T\<rparr>)"
    have "same_contexts M P"
      using N fold_schedule_frame [of "N\<lparr>io_timers := T\<rparr>" cbs] by (simp add: same_contexts_def P_def)
    then have P: "io_ok P" "io_fresh P = io_fresh M" using same_contexts_ok [OF assms(1)] by (simp_all add: same_contexts_def)
    have "handle_reports reports P = Inr M'"
      using assms(3) s False l by (auto simp: idle_pass_def P_def rbind_eq_Inr)
    then show ?thesis using handle_reports_ok [OF P(1)] P(2) assms(2) by simp
  qed
qed

text \<open>The calls of the threads, in the order of their steps. In between, \<open>Others\<close> changes the queue and the timers at will.\<close>

datatype io_call =
    AddEvent int "32 word" "nat option" nat bool
  | DelEvent int "32 word" bool
  | CancelEvent int "32 word" bool
  | CancelAll int bool
  | IdlePass "64 word" nat "64 word" nat "report list"
  | Others scheduler "nat timer_manager"

fun io_step :: "io_call \<Rightarrow> io_manager \<Rightarrow> io_manager res" where
  "io_step (AddEvent fd ev cb cur ok) M = rbind (addEvent fd ev cb cur ok M) (\<lambda>(_, M). Inr M)"
| "io_step (DelEvent fd ev ok) M = rbind (delEvent fd ev ok M) (\<lambda>(_, M). Inr M)"
| "io_step (CancelEvent fd ev ok) M = rbind (cancelEvent fd ev ok M) (\<lambda>(_, M). Inr M)"
| "io_step (CancelAll fd ok) M = rbind (cancelAll fd ok M) (\<lambda>(_, M). Inr M)"
| "io_step (IdlePass now n later b rs) M =
     (if list_all (known (io_fresh M)) rs then rbind (idle_pass now n later b rs M) (\<lambda>(_, _, M). Inr M) else Inr M)"
| "io_step (Others S T) M = Inr (M\<lparr>io_sched := S, io_timers := T\<rparr>)"

fun io_run :: "io_call list \<Rightarrow> io_manager \<Rightarrow> io_manager res" where
  "io_run [] M = Inr M"
| "io_run (k # ks) M = rbind (io_step k M) (io_run ks)"

lemma io_step_ok:
  assumes "io_ok M" and "io_step k M = Inr M'"
  shows "io_ok M'"
proof (cases k)
  case (AddEvent fd ev cb cur ok)
  then show ?thesis using addEvent_ok [OF assms(1)] assms(2) by (auto simp: rbind_eq_Inr)
next
  case (DelEvent fd ev ok)
  then show ?thesis using delEvent_ok [OF assms(1)] assms(2) by (auto simp: rbind_eq_Inr)
next
  case (CancelEvent fd ev ok)
  then show ?thesis using cancelEvent_ok [OF assms(1)] assms(2) by (auto simp: rbind_eq_Inr)
next
  case (CancelAll fd ok)
  then show ?thesis using cancelAll_ok [OF assms(1)] assms(2) by (auto simp: rbind_eq_Inr)
next
  case (IdlePass now n later b rs)
  then show ?thesis using idle_pass_ok [OF assms(1)] assms by (auto simp: rbind_eq_Inr split: if_splits)
next
  case (Others S T)
  then show ?thesis using same_contexts_ok [OF assms(1), of M'] assms(2) by (auto simp: same_contexts_def)
qed

lemma io_run_ok: "io_ok M \<Longrightarrow> io_run ks M = Inr M' \<Longrightarrow> io_ok M'"
  by (induction ks arbitrary: M) (auto simp: rbind_eq_Inr dest: io_step_ok)

lemma new_io_manager_ok: "io_ok (new_io_manager now)"
  by (simp add: io_ok_def new_io_manager_def contextResize_def ctx_ok_def part_ok_def new_fd_context_def interest_def n_events_def)

text \<open>The conversions of the wait.\<close>

lemma int_of_u64_bits: "int_of_u64 t = signed_take_bit 31 (uint t)"
  unfolding int_of_u64_def by transfer (simp add: signed_take_bit_take_bit)

lemma int_of_u64_of_int: "- (2 ^ 31) \<le> k \<Longrightarrow> k < 2 ^ 31 \<Longrightarrow> int_of_u64 (word_of_int k) = k"
  by (simp add: int_of_u64_bits uint_word_of_int_eq signed_take_bit_take_bit signed_take_bit_int_eq_self)

lemma int_of_u64_wrap:
  assumes "2 ^ 31 \<le> uint t" and "uint t < 2 ^ 32"
  shows "int_of_u64 t = uint t - 2 ^ 32"
proof -
  have "take_bit 32 (uint t) = take_bit 32 (uint t - 2 ^ 32)" by (simp add: take_bit_eq_mod)
  then have "signed_take_bit 31 (uint t) = signed_take_bit 31 (uint t - 2 ^ 32)"
    by (subst signed_take_bit_eq_iff_take_bit_eq) simp
  also have "\<dots> = uint t - 2 ^ 32" using assms by (intro signed_take_bit_int_eq_self) simp_all
  finally show ?thesis by (simp add: int_of_u64_bits)
qed

lemma small_int_not_max:
  assumes "- (2 ^ 31) \<le> k" and "k < 2 ^ 31" and "k \<noteq> - 1"
  shows "word_of_int k \<noteq> (NOT 0 :: 64 word)"
proof
  assume "word_of_int k = (NOT 0 :: 64 word)"
  then have "int_of_u64 (word_of_int k) = int_of_u64 (word_of_int (- 1))" by simp
  then show False using assms int_of_u64_of_int [of k] int_of_u64_of_int [of "- 1"] by simp
qed

section \<open>Properties\<close>


text \<open>A run: fiber 0 is running; it waits to read descriptor 3, a callback waits to write descriptor 40, then both are served.\<close>

definition one_running :: scheduler where
  "one_running = new_scheduler\<lparr>sc_fibers := (\<lambda>_. \<lparr>f_state = RUNNING, f_saved = False\<rparr>), sc_fresh := 1\<rparr>"

definition two_waiting :: "io_call list" where
  "two_waiting =
     [Others one_running (new_timer_manager 0), AddEvent 3 1 None 0 True, AddEvent 40 4 (Some 7) 0 True]"

definition waiting :: io_manager where
  "waiting = (case io_run two_waiting (new_io_manager 0) of Inr M \<Rightarrow> M | Inl _ \<Rightarrow> new_io_manager 0)"

lemmas io_evals = new_io_manager_def contextResize_def new_fd_context_def resetEventContext_def addEvent_def fd_lookup_def fd_grow_def
  add_to_ctx_def epoll_ctl_def put_ctx_def getEventContext_def one_running_def new_scheduler_def
  nth_append

lemma waiting_run: "io_run two_waiting (new_io_manager 0) = Inr waiting"
  by (simp add: waiting_def two_waiting_def io_evals Let_def)

lemma waiting_state:
  "io_fresh waiting = 60" "fc_events (io_store waiting 3) = 1" "ec_fiber (fc_read (io_store waiting 3)) = Some 0"
  "ec_cb (fc_read (io_store waiting 3)) = None" "fc_events (io_store waiting 40) = 4" "io_pending waiting = 2"
  "sc_tasks (io_sched waiting) = []"
  by (simp_all add: waiting_def two_waiting_def io_evals Let_def)




text \<open>A report can be stale. The fiber that waited to read gives up (\<open>delEvent\<close>) after \<^verbatim>\<open>epoll_wait\<close> has reported
  the descriptor as readable and writable and before the report is served: the idle fiber then triggers the event that is gone
  and the assertion in \<open>triggerEvent\<close> ends the process.\<close>

theorem stale_report_aborts:
  "\<exists>M M'. io_run (two_waiting @ [AddEvent 3 4 (Some 8) 0 True]) (new_io_manager 0) = Inr M \<and>
     returns (handle_event 3 5 True M) \<and> delEvent 3 1 True M = Inr (True, M') \<and>
     handle_event 3 5 True M' = Inl AssertionFailure"
  by (simp add: two_waiting_def io_evals Let_def delEvent_def handle_event_def trigger_counted_def triggerEvent_def
    schedule_def scheduleNoLock_def tickle_def ctx_task_def)

text \<open>Two threads that extend the table at the same time. Both find it too small and give the read lock up; the one with the
  larger descriptor goes first, and then the other cuts the table back. The first event stays registered with \<^verbatim>\<open>epoll\<close> and counted,
  but it can neither be deleted nor cancelled, and adding it again asks \<^verbatim>\<open>epoll\<close> to add a descriptor it has.\<close>

theorem table_cut_back:
  "\<exists>M N a a' A. M = new_io_manager 0 \<and> fd_lookup 100 M = Inr None \<and> fd_lookup 40 M = Inr None \<and>
     fd_grow 100 M = Inr (a, N) \<and> add_to_ctx a 100 1 (Some 7) 0 True N = Inr (0, A) \<and>
     (\<exists>N' B. fd_grow 40 A = Inr (a', N') \<and> add_to_ctx a' 40 1 (Some 8) 0 True N' = Inr (0, B) \<and>
       io_epoll B 100 = Some (EPOLLET OR 1, a) \<and> io_pending B = 2 \<and>
       cancelEvent 100 1 True B = Inr (False, B) \<and> delEvent 100 1 True B = Inr (False, B))"
  by (simp add: io_evals Let_def cancelEvent_def delEvent_def)

text \<open>How long the idle fiber waits. Up to 24.8 days ahead the wait is the time to the next timer, at most five seconds, as
  often as the wait is interrupted. A timer that is due between 24.8 and 49.7 days ahead makes the wait negative, which
  blocks \<^verbatim>\<open>epoll_wait\<close> without limit instead of at most five seconds.\<close>

theorem idle_wait_time:
  assumes "t = NOT 0 \<or> uint t < 2 ^ 32 - 1"
  shows "epoll_waits n t =
    replicate (Suc n) (if t = NOT 0 then 5000 else if uint t < 2 ^ 31 then min (uint t) 5000 else uint t - 2 ^ 32)"
proof -
  define k where "k = (if t = NOT 0 then 5000 else if uint t < 2 ^ 31 then min (uint t) 5000 else uint t - 2 ^ 32)"
  have pos: "0 \<le> uint t" by simp
  have range: "- (2 ^ 31) \<le> k \<and> k < 2 ^ 31 \<and> k \<noteq> - 1 \<and> k \<le> 5000"
  proof -
    define u where "u = uint t"
    have "0 \<le> u" "t = NOT 0 \<or> u < 2 ^ 32 - 1" using assms by (simp_all add: u_def)
    then show ?thesis unfolding k_def u_def [symmetric] by (auto simp: min_def)
  qed
  then have k: "int_of_u64 (word_of_int k) = k" by (intro int_of_u64_of_int) simp_all
  have w: "wait_time t = word_of_int k"
  proof (cases "t = NOT 0")
    case False
    have "int_of_u64 t = uint t" if "uint t < 2 ^ 31" using int_of_u64_of_int [of "uint t"] that pos by simp
    moreover have "int_of_u64 t = uint t - 2 ^ 32" if "\<not> uint t < 2 ^ 31" using int_of_u64_wrap [of t] that assms False by simp
    ultimately have "min (int_of_u64 t) 5000 = k" using False range
      by (cases "uint t < 2 ^ 31") (simp_all add: k_def)
    then show ?thesis using False by (simp add: wait_time_def)
  qed (simp add: wait_time_def k_def)
  have "word_of_int k \<noteq> (NOT 0 :: 64 word)" using range by (intro small_int_not_max) simp_all
  then have again: "wait_time (word_of_int k) = word_of_int k" using range by (simp add: wait_time_def k)
  have "epoll_waits n (word_of_int k) = replicate (Suc n) k" for n by (induction n) (simp_all add: again k)
  then show ?thesis unfolding k_def [symmetric] by (cases n) (simp_all add: w k)
qed

theorem idle_wait_time_witness:
  "epoll_waits 0 2592000000 = [- 1702967296] \<and> epoll_waits (Suc (Suc 0)) 20 = [20, 20, 20]"
proof -
  have "epoll_waits 0 2592000000 = [- 1702967296]" by (subst idle_wait_time) simp_all
  moreover have "epoll_waits (Suc (Suc 0)) 20 = [20, 20, 20]" by (subst idle_wait_time) simp_all
  ultimately show ?thesis ..
qed

text \<open>The IO manager stops only when nothing is left: no timer, no task, no active thread, and no descriptor with a registered
  event, so nobody is left waiting. (\<open>now\<close> is past the first millisecond since the start, and fewer than \<open>2 ^ 62\<close>
  descriptors are known.)\<close>

theorem io_stops_when_quiet:
  assumes "io_run ks (new_io_manager start) = Inr M" and "io_fresh M < 2 ^ 62" and "0 < now" and "io_stopping now M = (True, t, N)"
  shows "tm_timers (io_timers M) = [] \<and> sc_tasks (io_sched M) = [] \<and> sc_active (io_sched M) = 0 \<and> sc_stopping (io_sched M) \<and>
    (\<forall>a<io_fresh M. fc_events (io_store M a) = 0)"
proof -
  have ok: "io_ok M" by (rule io_run_ok [OF new_io_manager_ok assms(1)])
  obtain T where g: "getNextTimer now (io_timers M) = (NOT 0, T)" and p: "io_pending M = 0" and s: "sc_stopping_now (io_sched M)"
    using assms(4) by (auto simp: io_stopping_def split: prod.splits)
  have "tm_timers (io_timers M) = []"
  proof (rule ccontr)
    assume "tm_timers (io_timers M) \<noteq> []"
    then obtain a ts where "tm_timers (io_timers M) = a # ts" by (cases "tm_timers (io_timers M)") auto
    then obtain n where e: "(if n \<le> now then 0 else n - now) = (NOT 0 :: 64 word)" using g by (auto simp: getNextTimer_def Let_def)
    then have n: "now < n" "n - now = (NOT 0 :: 64 word)" by (simp_all split: if_splits)
    have "n = now + (NOT 0)" using n(2) by (simp add: algebra_simps)
    then have "n = now - 1" by simp
    moreover have "unat (now - 1) < unat now"
      using assms(3) unat_minus_one [of now] by (metis word_gt_0 unat_gt_0 diff_less zero_less_one)
    ultimately show False using n(1) by (simp add: word_less_nat_alt)
  qed
  moreover have "fc_events (io_store M a) = 0" if "a < io_fresh M" for a
  proof -
    define s where "s = (\<Sum>a<io_fresh M. n_events (io_store M a))"
    have "s \<le> (\<Sum>a<io_fresh M. 2)" unfolding s_def by (intro sum_mono) (simp add: n_events_def)
    then have "s < 2 ^ 64" using assms(2) by simp
    moreover have "(of_nat s :: 64 word) = 0" using p ok unfolding io_ok_def s_def by (metis (no_types))
    ultimately have "s = 0" by (auto simp: word_of_nat_eq_0_iff dest!: dvd_imp_le)
    then have "n_events (io_store M a) = 0" using that by (simp add: s_def)
    then show ?thesis using io_ok_ctx [OF ok that] by (auto simp: ctx_ok_def n_events_def split: if_splits)
  qed
  ultimately show ?thesis using s by (simp add: sc_stopping_now_def)
qed

definition all_quiet :: "io_call list" where
  "all_quiet = [Others (sc_stop new_scheduler) (new_timer_manager 0)]"

theorem io_stops_when_quiet_witness:
  "\<exists>M t N. io_run all_quiet (new_io_manager 0) = Inr M \<and> io_stopping 5 M = (True, t, N) \<and> fc_events (io_store M 31) = 0"
proof -
  define M where "M = new_io_manager 0\<lparr>io_sched := sc_stop new_scheduler, io_timers := new_timer_manager 0\<rparr>"
  have r: "io_run all_quiet (new_io_manager 0) = Inr M" by (simp add: all_quiet_def M_def)
  have f: "io_fresh M = 32" by (simp add: M_def new_io_manager_def contextResize_def)
  obtain t N where s: "io_stopping 5 M = (True, t, N)"
    by (simp add: M_def io_stopping_def getNextTimer_def new_timer_manager_def new_io_manager_def contextResize_def sc_stop_def
      sc_stopping_now_def new_scheduler_def Let_def)
  have "fc_events (io_store M 31) = 0" using io_stops_when_quiet [OF r _ _ s] f by simp
  with r s show ?thesis by blast
qed

end
