(* ===== verification/Address.thy ===== *)
theory Address
  imports OrdMap ByteArrayProps
begin

text \<open>
  The addresses of \<^verbatim>\<open>sylar/address.cc\<close>: the \<^verbatim>\<open>sockaddr\<close> structures field by field, as a little-endian host has them
  in memory, the order on addresses, the subnets, their text, and how a text is split into node and service for the resolver. The
  resolver itself and \<^verbatim>\<open>inet_pton\<close> are arguments.
\<close>

unbundle bit_operations_syntax

section \<open>Address structures\<close>

definition AF_UNSPEC :: "16 word" where "AF_UNSPEC = 0"
definition AF_UNIX :: "16 word" where "AF_UNIX = 1"
definition AF_INET :: "16 word" where "AF_INET = 2"
definition AF_INET6 :: "16 word" where "AF_INET6 = 10"

record sockaddr_in =
  sin_family :: "16 word"
  sin_port :: "16 word"
  s_addr :: "32 word"
  sin_zero :: "byte list"

record sockaddr_in6 =
  sin6_family :: "16 word"
  sin6_port :: "16 word"
  sin6_flowinfo :: "32 word"
  s6_addr :: "byte list"
  sin6_scope_id :: "32 word"

record sockaddr_un =
  sun_family :: "16 word"
  sun_path :: string
  sun_length :: nat

record sockaddr_any =
  sa_family :: "16 word"
  sa_data :: "byte list"

datatype address =
    IPv4 sockaddr_in
  | IPv6 sockaddr_in6
  | Unix sockaddr_un
  | Unknown sockaddr_any

definition byteswapOnLittleEndian :: "'a::len word \<Rightarrow> 'a word" where
  "byteswapOnLittleEndian t = byteswap t"

definition IPv4Address :: "32 word \<Rightarrow> 16 word \<Rightarrow> sockaddr_in" where
  "IPv4Address a port =
     \<lparr>sin_family = AF_INET, sin_port = byteswapOnLittleEndian port, s_addr = byteswapOnLittleEndian a, sin_zero = replicate 8 0\<rparr>"

definition IPv6Address :: "byte list \<Rightarrow> 16 word \<Rightarrow> sockaddr_in6" where
  "IPv6Address a port =
     \<lparr>sin6_family = AF_INET6, sin6_port = byteswapOnLittleEndian port, sin6_flowinfo = 0, s6_addr = a, sin6_scope_id = 0\<rparr>"

definition new_IPv6Address :: sockaddr_in6 where
  "new_IPv6Address =
     \<lparr>sin6_family = AF_INET6, sin6_port = 0, sin6_flowinfo = 0, s6_addr = replicate 16 0, sin6_scope_id = 0\<rparr>"

definition new_UnixAddress :: sockaddr_un where
  "new_UnixAddress = \<lparr>sun_family = AF_UNIX, sun_path = replicate 108 (CHR 0x00), sun_length = 2 + 107\<rparr>"

definition UnixAddress :: "string \<Rightarrow> sockaddr_un res" where
  "UnixAddress path =
     (let n = length path + 1;
          n = (if path \<noteq> [] \<and> hd path = CHR 0x00 then n - 1 else n)
      in if n > 108 then Inl (Thrown ''path too long'')
         else Inr \<lparr>sun_family = AF_UNIX, sun_path = take n (path @ [CHR 0x00]) @ replicate (108 - n) (CHR 0x00), sun_length = n + 2\<rparr>)"

definition setAddrLen :: "nat \<Rightarrow> sockaddr_un \<Rightarrow> sockaddr_un" where
  "setAddrLen v a = a\<lparr>sun_length := v\<rparr>"

definition UnknownAddress :: "16 word \<Rightarrow> sockaddr_any" where
  "UnknownAddress family = \<lparr>sa_family = family, sa_data = replicate 14 0\<rparr>"

section \<open>Memory and order\<close>

fun getAddr :: "address \<Rightarrow> byte list" where
  "getAddr (IPv4 a) = le_bytes (sin_family a) @ le_bytes (sin_port a) @ le_bytes (s_addr a) @ sin_zero a"
| "getAddr (IPv6 a) =
     le_bytes (sin6_family a) @ le_bytes (sin6_port a) @ le_bytes (sin6_flowinfo a) @ s6_addr a @ le_bytes (sin6_scope_id a)"
| "getAddr (Unix a) = le_bytes (sun_family a) @ map byte_of (sun_path a)"
| "getAddr (Unknown a) = le_bytes (sa_family a) @ sa_data a"

fun getAddrLen :: "address \<Rightarrow> nat" where
  "getAddrLen (IPv4 a) = 16"
| "getAddrLen (IPv6 a) = 28"
| "getAddrLen (Unix a) = sun_length a"
| "getAddrLen (Unknown a) = 16"

definition getFamily :: "address \<Rightarrow> 16 word" where
  "getFamily a = le_word (take 2 (getAddr a))"

text \<open>\<^verbatim>\<open>memcmp\<close> on as many bytes: the sign of the first difference.\<close>

fun memcmp :: "byte list \<Rightarrow> byte list \<Rightarrow> int" where
  "memcmp (x # xs) (y # ys) = (if x < y then - 1 else if y < x then 1 else memcmp xs ys)"
| "memcmp _ _ = 0"

definition address_less :: "address \<Rightarrow> address \<Rightarrow> bool" where
  "address_less a b =
     (let minlen = min (getAddrLen a) (getAddrLen b); result = memcmp (take minlen (getAddr a)) (take minlen (getAddr b))
      in if result < 0 then True else if result > 0 then False else getAddrLen a < getAddrLen b)"

definition address_equal :: "address \<Rightarrow> address \<Rightarrow> bool" where
  "address_equal a b \<longleftrightarrow>
     getAddrLen a = getAddrLen b \<and> memcmp (take (getAddrLen a) (getAddr a)) (take (getAddrLen a) (getAddr b)) = 0"

definition address_differs :: "address \<Rightarrow> address \<Rightarrow> bool" where
  "address_differs a b \<longleftrightarrow> \<not> address_equal a b"

text \<open>\<open>Address::Create\<close> from what a system call has filled in, read as the structure of its family.\<close>

definition address_create :: "byte list \<Rightarrow> address" where
  "address_create m =
     (let f = le_word (take 2 m)
      in if f = AF_INET then
           IPv4 \<lparr>sin_family = f, sin_port = le_word (take 2 (drop 2 m)), s_addr = le_word (take 4 (drop 4 m)), sin_zero = take 8 (drop 8 m)\<rparr>
         else if f = AF_INET6 then
           IPv6 \<lparr>sin6_family = f, sin6_port = le_word (take 2 (drop 2 m)), sin6_flowinfo = le_word (take 4 (drop 4 m)),
             s6_addr = take 16 (drop 8 m), sin6_scope_id = le_word (take 4 (drop 24 m))\<rparr>
         else Unknown \<lparr>sa_family = f, sa_data = take 14 (drop 2 m)\<rparr>)"

section \<open>Subnets\<close>

text \<open>\<open>CreateMask\<close> shifts an \<^verbatim>\<open>int\<close>: by its width, or so that subtracting one overflows, is undefined.\<close>

definition CreateMask :: "nat \<Rightarrow> 'a::len word res" where
  "CreateMask bits =
     (if bits \<le> LENGTH('a) \<and> LENGTH('a) - bits < 31 then Inr (push_bit (LENGTH('a) - bits) 1 - 1) else Inl UndefinedBehaviour)"

function CountBytes :: "'a::len word \<Rightarrow> nat" where
  "CountBytes value = (if value = 0 then 0 else CountBytes (value AND (value - 1)) + 1)"
  by auto
termination
proof (relation "measure unat")
  fix v :: "'a word" assume "v \<noteq> 0"
  then have "unat (v - 1) < unat v" using unat_minus_one [of v] by (simp add: unat_gt_0)
  moreover have "v AND (v - 1) \<le> v - 1" by (rule word_and_le1)
  ultimately show "(v AND (v - 1), v) \<in> measure unat" by (simp add: word_le_nat_alt)
qed simp

declare CountBytes.simps [simp del]

definition v4_broadcastAddress :: "nat \<Rightarrow> sockaddr_in \<Rightarrow> sockaddr_in option res" where
  "v4_broadcastAddress prefix_len a =
     (if prefix_len > 32 then Inr None
      else rbind (CreateMask prefix_len) (\<lambda>m. Inr (Some (a\<lparr>s_addr := s_addr a OR byteswapOnLittleEndian m\<rparr>))))"

definition v4_networkAddress :: "nat \<Rightarrow> sockaddr_in \<Rightarrow> sockaddr_in option res" where
  "v4_networkAddress prefix_len a =
     (if prefix_len > 32 then Inr None
      else rbind (CreateMask prefix_len) (\<lambda>m. Inr (Some (a\<lparr>s_addr := s_addr a AND byteswapOnLittleEndian (NOT m)\<rparr>))))"

definition v4_subnetMask :: "nat \<Rightarrow> sockaddr_in res" where
  "v4_subnetMask prefix_len =
     rbind (CreateMask prefix_len) (\<lambda>m.
       Inr \<lparr>sin_family = AF_INET, sin_port = 0, s_addr = NOT (byteswapOnLittleEndian m), sin_zero = replicate 8 0\<rparr>)"

text \<open>Writing the byte \<open>i\<close> of an IPv6 address, and the bytes from \<open>i\<close> on.\<close>

definition set_byte :: "nat \<Rightarrow> (byte \<Rightarrow> byte) \<Rightarrow> byte list \<Rightarrow> byte list res" where
  "set_byte i f bs = (if i < length bs then Inr (bs[i := f (bs ! i)]) else Inl UndefinedBehaviour)"

definition fill_from :: "nat \<Rightarrow> byte \<Rightarrow> byte list \<Rightarrow> byte list" where
  "fill_from i v bs = take i bs @ replicate (length bs - i) v"

definition v6_broadcastAddress :: "nat \<Rightarrow> sockaddr_in6 \<Rightarrow> sockaddr_in6 res" where
  "v6_broadcastAddress prefix_len a =
     rbind (CreateMask (prefix_len mod 8)) (\<lambda>m.
     rbind (set_byte (prefix_len div 8) (\<lambda>b. b OR m) (s6_addr a)) (\<lambda>bs.
     Inr (a\<lparr>s6_addr := fill_from (prefix_len div 8 + 1) 0xff bs\<rparr>)))"

definition v6_networkAddress :: "nat \<Rightarrow> sockaddr_in6 \<Rightarrow> sockaddr_in6 res" where
  "v6_networkAddress prefix_len a =
     rbind (CreateMask (prefix_len mod 8)) (\<lambda>m.
     rbind (set_byte (prefix_len div 8) (\<lambda>b. b AND m) (s6_addr a)) (\<lambda>bs.
     Inr (a\<lparr>s6_addr := fill_from (prefix_len div 8 + 1) 0x00 bs\<rparr>)))"

definition v6_subnetMask :: "nat \<Rightarrow> sockaddr_in6 res" where
  "v6_subnetMask prefix_len =
     rbind (CreateMask (prefix_len mod 8)) (\<lambda>m.
     rbind (set_byte (prefix_len div 8) (\<lambda>_. NOT m) (replicate 16 0)) (\<lambda>bs.
     Inr (new_IPv6Address\<lparr>s6_addr := replicate (prefix_len div 8) 0xff @ drop (prefix_len div 8) bs\<rparr>)))"

definition v4_getPort :: "sockaddr_in \<Rightarrow> 32 word" where
  "v4_getPort a = ucast (byteswapOnLittleEndian (sin_port a))"

definition v4_setPort :: "16 word \<Rightarrow> sockaddr_in \<Rightarrow> sockaddr_in" where
  "v4_setPort v a = a\<lparr>sin_port := byteswapOnLittleEndian v\<rparr>"

definition v6_getPort :: "sockaddr_in6 \<Rightarrow> 32 word" where
  "v6_getPort a = ucast (byteswapOnLittleEndian (sin6_port a))"

definition v6_setPort :: "16 word \<Rightarrow> sockaddr_in6 \<Rightarrow> sockaddr_in6" where
  "v6_setPort v a = a\<lparr>sin6_port := byteswapOnLittleEndian v\<rparr>"

section \<open>Text\<close>

definition show_word :: "'a::len word \<Rightarrow> string" where
  "show_word w = show_nat (unat w)"

definition v4_insert :: "sockaddr_in \<Rightarrow> string" where
  "v4_insert a =
     (let addr = byteswapOnLittleEndian (s_addr a)
      in show_word (drop_bit 24 addr AND 0xff) @ ''.'' @ show_word (drop_bit 16 addr AND 0xff) @ ''.'' @
         show_word (drop_bit 8 addr AND 0xff) @ ''.'' @ show_word (addr AND 0xff) @ '':'' @
         show_word (byteswapOnLittleEndian (sin_port a)))"

definition hex_char :: "nat \<Rightarrow> char" where
  "hex_char n = (if n < 10 then char_of (48 + n) else char_of (87 + n))"

fun show_hex :: "nat \<Rightarrow> string" where
  "show_hex n = (if n < 16 then [hex_char n] else show_hex (n div 16) @ [hex_char (n mod 16)])"

declare show_hex.simps [simp del]

text \<open>The eight groups of an IPv6 address, as the pointer \<^verbatim>\<open>uint16_t *\<close> reads them, and the loop over them from \<open>i\<close> on.\<close>

definition v6_groups :: "sockaddr_in6 \<Rightarrow> 16 word list" where
  "v6_groups a = map (\<lambda>i. le_word [s6_addr a ! (2 * i), s6_addr a ! (2 * i + 1)]) [0..<8]"

definition show_group :: "16 word \<Rightarrow> string" where
  "show_group g = show_hex (unat (byteswapOnLittleEndian g))"

fun group_loop :: "16 word list \<Rightarrow> nat list \<Rightarrow> bool \<Rightarrow> string \<times> bool" where
  "group_loop addr [] used_zeros = ('''', used_zeros)"
| "group_loop addr (i # is) used_zeros =
     (if addr ! i = 0 \<and> \<not> used_zeros then group_loop addr is used_zeros
      else
        (let gap = (i \<noteq> 0 \<and> addr ! (i - 1) = 0 \<and> \<not> used_zeros);
             used_zeros = (gap \<or> used_zeros)
         in case group_loop addr is used_zeros of
              (s, u) \<Rightarrow>
                ((if gap then '':'' else '''') @ (if i \<noteq> 0 then '':'' else '''') @ show_group (addr ! i) @ s, u)))"

definition v6_insert :: "sockaddr_in6 \<Rightarrow> string" where
  "v6_insert a =
     (let addr = v6_groups a
      in case group_loop addr [0..<8] False of
           (s, used_zeros) \<Rightarrow>
             ''['' @ s @ (if \<not> used_zeros \<and> addr ! 7 = 0 then ''::'' else '''') @ '']:'' @
             show_word (byteswapOnLittleEndian (sin6_port a)))"

definition unix_getPath :: "sockaddr_un \<Rightarrow> string" where
  "unix_getPath a =
     (if sun_length a > 2 \<and> hd (sun_path a) = CHR 0x00
      then CHR 0x5C # CHR ''0'' # take (sun_length a - 3) (tl (sun_path a)) else c_str (sun_path a))"

fun address_insert :: "address \<Rightarrow> string" where
  "address_insert (IPv4 a) = v4_insert a"
| "address_insert (IPv6 a) = v6_insert a"
| "address_insert (Unix a) = unix_getPath a"
| "address_insert (Unknown a) = ''[UnknownAddress family='' @ show_word (sa_family a) @ '']''"

section \<open>Looking up\<close>

text \<open>The split of \<open>Lookup\<close>: the node and the service passed to the resolver.\<close>

definition lookup_split :: "string \<Rightarrow> string \<times> string option" where
  "lookup_split host =
     (let v6 = (if host \<noteq> [] \<and> hd host = CHR ''['' then find_idx '']'' (tl host) else None);
          (node, service) =
            (case v6 of
               None \<Rightarrow> ('''', None)
             | Some i \<Rightarrow>
                 (take i (tl host),
                  if take 1 (drop (i + 2) host) = '':'' then Some (drop (i + 3) host) else None));
          (node, service) =
            (if node = '''' then
               (case find_idx '':'' host of
                  None \<Rightarrow> (node, None)
                | Some i \<Rightarrow>
                    if find_idx '':'' (drop (i + 1) host) = None then (take i host, Some (drop (i + 1) host))
                    else (node, Some (drop i host)))
             else (node, service))
      in (if node = '''' then host else node, service))"

text \<open>The resolver \<open>G\<close> gets C strings and answers with the addresses, or \<open>None\<close> for an error.\<close>

type_synonym resolver = "string \<Rightarrow> string option \<Rightarrow> byte list list option"

definition address_lookup :: "resolver \<Rightarrow> string \<Rightarrow> address list option" where
  "address_lookup G host =
     (case lookup_split host of
        (node, service) \<Rightarrow>
          (case G (c_str node) (map_option c_str service) of
             None \<Rightarrow> None
           | Some ms \<Rightarrow> (case ms of [] \<Rightarrow> None | _ \<Rightarrow> Some (map address_create ms))))"

definition LookupAny :: "resolver \<Rightarrow> string \<Rightarrow> address option" where
  "LookupAny G host = map_option hd (address_lookup G host)"

fun is_ip :: "address \<Rightarrow> bool" where
  "is_ip (IPv4 a) = True"
| "is_ip (IPv6 a) = True"
| "is_ip _ = False"

definition LookupAnyIPAddress :: "resolver \<Rightarrow> string \<Rightarrow> address option" where
  "LookupAnyIPAddress G host =
     (case address_lookup G host of None \<Rightarrow> None | Some as \<Rightarrow> List.find is_ip as)"

fun setPort :: "16 word \<Rightarrow> address \<Rightarrow> address" where
  "setPort p (IPv4 a) = IPv4 (v4_setPort p a)"
| "setPort p (IPv6 a) = IPv6 (v6_setPort p a)"
| "setPort p a = a"

definition IPAddress_Create :: "(string \<Rightarrow> byte list option) \<Rightarrow> string \<Rightarrow> 16 word \<Rightarrow> address option" where
  "IPAddress_Create G text port =
     (case G text of
        None \<Rightarrow> None
      | Some m \<Rightarrow> (let a = address_create m in if is_ip a then Some (setPort port a) else None))"

definition IPv4Address_Create :: "(string \<Rightarrow> 32 word option) \<Rightarrow> string \<Rightarrow> 16 word \<Rightarrow> sockaddr_in option" where
  "IPv4Address_Create pton text port =
     map_option (\<lambda>w. (IPv4Address 0 0)\<lparr>sin_port := byteswapOnLittleEndian port, s_addr := w\<rparr>) (pton text)"

definition IPv6Address_Create :: "(string \<Rightarrow> byte list option) \<Rightarrow> string \<Rightarrow> 16 word \<Rightarrow> sockaddr_in6 option" where
  "IPv6Address_Create pton text port =
     map_option (\<lambda>bs. new_IPv6Address\<lparr>sin6_port := byteswapOnLittleEndian port, s6_addr := bs\<rparr>) (pton text)"

text \<open>The interfaces: their name, the memory of the address, which may be missing, and of the mask.\<close>

type_synonym interface = "string \<times> byte list option \<times> byte list"

fun interface_entry :: "byte list \<Rightarrow> byte list \<Rightarrow> (address \<times> 32 word) option" where
  "interface_entry m netmask =
     (let f = (le_word (take 2 m) :: 16 word)
      in if f = AF_INET then Some (address_create m, of_nat (CountBytes (le_word (take 4 (drop 4 netmask)) :: 32 word)))
         else if f = AF_INET6 then
           Some (address_create m, of_nat (sum_list (map CountBytes (take 16 (drop 8 netmask)))))
         else None)"

fun interface_loop ::
    "16 word \<Rightarrow> interface list \<Rightarrow> (string \<times> address \<times> 32 word) list res" where
  "interface_loop family [] = Inr []"
| "interface_loop family ((name, None, netmask) # is) = Inl UndefinedBehaviour"
| "interface_loop family ((name, Some m, netmask) # is) =
     (if family \<noteq> AF_UNSPEC \<and> family \<noteq> le_word (take 2 m) then interface_loop family is
      else
        rbind (interface_loop family is) (\<lambda>rs.
          Inr (case interface_entry m netmask of None \<Rightarrow> rs | Some e \<Rightarrow> (name, e) # rs)))"

definition GetInterfaceAddresses :: "16 word \<Rightarrow> string \<Rightarrow> interface list option \<Rightarrow> (address \<times> 32 word) list option res" where
  "GetInterfaceAddresses family iface ifs =
     (if iface = '''' \<or> iface = ''*'' then
        Inr (Some ((if family = AF_INET \<or> family = AF_UNSPEC then [(IPv4 (IPv4Address 0 0), 0)] else []) @
                   (if family = AF_INET6 \<or> family = AF_UNSPEC then [(IPv6 new_IPv6Address, 0)] else [])))
      else
        (case ifs of
           None \<Rightarrow> Inr None
         | Some ifs \<Rightarrow>
             rbind (interface_loop family ifs) (\<lambda>rs.
               Inr (let es = map snd (filter (\<lambda>r. fst r = iface) rs) in if es = [] then None else Some es))))"

end
