(* ===== verification/AddressProps.thy ===== *)
theory AddressProps
  imports Address
begin

text \<open>
  The addresses: the order is the order of their memory, subnets bit by bit, the text of an IPv6 address against a
  reference, the text of a path, and what is passed to the resolver.
\<close>

section \<open>The order\<close>

fun addr_wf :: "address \<Rightarrow> bool" where
  "addr_wf (IPv4 a) \<longleftrightarrow> length (sin_zero a) = 8"
| "addr_wf (IPv6 a) \<longleftrightarrow> length (s6_addr a) = 16"
| "addr_wf (Unix a) \<longleftrightarrow> length (sun_path a) = 108 \<and> sun_length a \<le> 110"
| "addr_wf (Unknown a) \<longleftrightarrow> length (sa_data a) = 14"

definition addr_mem :: "address \<Rightarrow> byte list" where
  "addr_mem a = take (getAddrLen a) (getAddr a)"

lemma length_addr_mem: "addr_wf a \<Longrightarrow> length (addr_mem a) = getAddrLen a"
  by (cases a) (auto simp: addr_mem_def min_def)

text \<open>The order of byte strings, a prefix first.\<close>

fun mem_less :: "byte list \<Rightarrow> byte list \<Rightarrow> bool" where
  "mem_less xs [] = False"
| "mem_less [] (y # ys) = True"
| "mem_less (x # xs) (y # ys) = (x < y \<or> x = y \<and> mem_less xs ys)"

interpretation mem: strict_total_order mem_less
proof (rule strict_total_orderI)
  show "\<not> mem_less x x" for x by (induction x) simp_all
  show "mem_less x y \<Longrightarrow> mem_less y z \<Longrightarrow> mem_less x z" for x y z
  proof (induction x y arbitrary: z rule: mem_less.induct)
    case (2 y ys)
    then show ?case by (cases z) auto
  next
    case (3 x xs y ys)
    then show ?case by (cases z) auto
  qed simp
  show "x \<noteq> y \<Longrightarrow> mem_less x y \<or> mem_less y x" for x y
    by (induction x y rule: mem_less.induct) (auto simp: neq_Nil_conv)
qed

lemma memcmp_take: "memcmp (take (min (length xs) (length ys)) xs) (take (min (length xs) (length ys)) ys) = memcmp xs ys"
  by (induction xs ys rule: memcmp.induct) simp_all

lemma memcmp_less: "memcmp xs ys < 0 \<or> memcmp xs ys = 0 \<and> length xs < length ys \<longleftrightarrow> mem_less xs ys"
  by (induction xs ys rule: mem_less.induct) auto

lemma memcmp_equal: "length xs = length ys \<Longrightarrow> memcmp xs ys = 0 \<longleftrightarrow> xs = ys"
  by (induction xs ys rule: memcmp.induct) auto

lemma address_less_mem:
  assumes "addr_wf a" and "addr_wf b"
  shows "address_less a b \<longleftrightarrow> mem_less (addr_mem a) (addr_mem b)"
proof -
  let ?m = "min (getAddrLen a) (getAddrLen b)"
  have l: "length (addr_mem a) = getAddrLen a" "length (addr_mem b) = getAddrLen b" using length_addr_mem assms by blast+
  have "take ?m (getAddr a) = take ?m (addr_mem a)" "take ?m (getAddr b) = take ?m (addr_mem b)"
    by (simp_all add: addr_mem_def min_def)
  then have c: "memcmp (take ?m (getAddr a)) (take ?m (getAddr b)) = memcmp (addr_mem a) (addr_mem b)"
    using memcmp_take [of "addr_mem a" "addr_mem b"] l by simp
  show ?thesis
    unfolding address_less_def Let_def c memcmp_less [symmetric] l by auto
qed

lemma address_equal_mem:
  assumes "addr_wf a" and "addr_wf b"
  shows "address_equal a b \<longleftrightarrow> addr_mem a = addr_mem b"
proof (cases "getAddrLen a = getAddrLen b")
  case True
  then have "length (addr_mem a) = length (addr_mem b)" using length_addr_mem assms by metis
  then show ?thesis using True memcmp_equal [of "addr_mem a" "addr_mem b"] by (simp add: address_equal_def) (simp add: addr_mem_def)
next
  case False
  then have "addr_mem a \<noteq> addr_mem b" using length_addr_mem assms by metis
  then show ?thesis using False by (simp add: address_equal_def)
qed

text \<open>The order of addresses is the order of the bytes that \<open>getAddr\<close> and \<open>getAddrLen\<close> hand to the system, whatever the families: it is
  transitive, two addresses are equal exactly when they have the same bytes, and otherwise exactly one comes first. So it may order a set or
  a map.\<close>

theorem address_order:
  assumes "addr_wf a" and "addr_wf b" and "addr_wf c"
  shows "\<not> address_less a a \<and> (if address_less a b then if address_less b c then address_less a c else True else True) \<and>
    (address_equal a b \<longleftrightarrow> addr_mem a = addr_mem b) \<and>
    (if address_equal a b then \<not> address_less a b \<and> \<not> address_less b a else address_less a b \<noteq> address_less b a)"
  unfolding address_less_mem [OF assms(1,1)] address_less_mem [OF assms(1,2)] address_less_mem [OF assms(2,3)]
    address_less_mem [OF assms(1,3)] address_less_mem [OF assms(2,1)] address_equal_mem [OF assms(1,2)]
  using mem.lt_irrefl [of "addr_mem a"] mem.lt_irrefl [of "addr_mem b"] mem.lt_trans [of "addr_mem a" "addr_mem b" "addr_mem c"] mem.lt_asym [of "addr_mem a" "addr_mem b"]
    mem.total [of "addr_mem a" "addr_mem b"] by auto

section \<open>Bytes in network order\<close>

lemma bit_le_bytes: "i < LENGTH('a::len) div 8 \<Longrightarrow> bit (le_bytes (w :: 'a word) ! i) n \<longleftrightarrow> n < 8 \<and> bit w (8 * i + n)"
  by (auto simp: le_bytes_def bit_simps dest: bit_imp_le_length)

lemma bit_byteswap:
  fixes w :: "'a::len word"
  assumes "8 dvd LENGTH('a)" and "n < LENGTH('a)"
  shows "bit (byteswap w) n \<longleftrightarrow> bit w (8 * (LENGTH('a) div 8 - 1 - n div 8) + n mod 8)"
proof -
  have n: "n div 8 < LENGTH('a) div 8" using assms by (auto elim!: dvdE)
  then have "bit (byteswap w) n \<longleftrightarrow> bit (le_bytes w ! (LENGTH('a) div 8 - 1 - n div 8)) (n mod 8)"
    using assms(2) by (simp add: byteswap_def bit_le_word rev_nth)
  then show ?thesis using n by (simp add: bit_le_bytes)
qed

lemma byteswap_ops:
  fixes v w :: "'a::len word"
  assumes "8 dvd LENGTH('a)"
  shows "byteswap (v AND w) = byteswap v AND byteswap w" "byteswap (v OR w) = byteswap v OR byteswap w"
    "byteswap (NOT w) = NOT (byteswap w)"
proof -
  have r: "8 * (LENGTH('a) div 8 - Suc (n div 8)) + n mod 8 < LENGTH('a)" if "n < LENGTH('a)" for n
  proof -
    have "n div 8 < LENGTH('a) div 8" using assms that by (auto elim!: dvdE)
    then show ?thesis using assms by (auto elim!: dvdE)
  qed
  show "byteswap (v AND w) = byteswap v AND byteswap w" "byteswap (v OR w) = byteswap v OR byteswap w"
    "byteswap (NOT w) = NOT (byteswap w)"
    by (rule bit_word_eqI; simp add: bit_byteswap [OF assms] bit_simps r)+
qed

section \<open>Subnets\<close>

text \<open>The address in the order of the host, as it is read.\<close>

definition host_addr :: "sockaddr_in \<Rightarrow> 32 word" where
  "host_addr a = byteswapOnLittleEndian (s_addr a)"

lemma CreateMask_mask:
  assumes "2 \<le> p" and "p \<le> 32"
  shows "CreateMask p = Inr (mask (32 - p) :: 32 word)"
  using assms by (simp add: CreateMask_def mask_eq_exp_minus_1 push_bit_eq_mult)

lemma low_bits_cleared:
  fixes h :: "'a::len word"
  shows "unat (h AND NOT (mask n)) = unat h - unat h mod 2 ^ n"
proof -
  have "h AND NOT (mask n) = push_bit n (drop_bit n h)" by (rule bit_word_eqI) (auto simp: bit_simps)
  then have "h AND NOT (mask n) = h - take_bit n h" using bits_ident [of n h] by (metis add_diff_cancel_right')
  moreover have t: "unat (take_bit n h) = unat h mod 2 ^ n" by (simp only: unsigned_take_bit_eq) (rule take_bit_eq_mod)
  moreover have "take_bit n h \<le> h" by (simp add: word_le_nat_alt t)
  ultimately show ?thesis by (simp add: unat_sub)
qed

lemma low_bits_set:
  fixes h :: "32 word"
  assumes "n \<le> 32"
  shows "unat (h OR mask n) = unat h - unat h mod 2 ^ n + (2 ^ n - 1)"
proof -
  have "h OR mask n = (h AND NOT (mask n)) OR mask n" by (rule bit_word_eqI) (auto simp: bit_simps)
  also have "\<dots> = (h AND NOT (mask n)) + mask n"
    by (rule disjunctive_add_eq_or [symmetric]) (rule bit_word_eqI, auto simp: bit_simps)
  finally have o: "h OR mask n = (h AND NOT (mask n)) + mask n" .
  have "(mask n :: 32 word) = of_nat (mask n)" by (rule of_nat_mask_eq [symmetric])
  then have "unat (mask n :: 32 word) = take_bit 32 (mask n)" by (simp only: unsigned_of_nat) simp
  also have "take_bit 32 (mask n) = (mask n :: nat)" using assms by (simp only: take_bit_of_mask) (simp add: min_def)
  finally have m: "unat (mask n :: 32 word) = 2 ^ n - 1" by (simp add: mask_eq_exp_minus_1)
  have "unat h - unat h mod 2 ^ n = unat h div 2 ^ n * 2 ^ n" by (metis minus_mod_eq_div_mult)
  moreover have "unat h div 2 ^ n < 2 ^ (32 - n)"
    using assms unsigned_less [of h, where ?'a = nat] by (simp add: less_mult_imp_div_less flip: power_add)
  ultimately have "unat h - unat h mod 2 ^ n + 2 ^ n \<le> 2 ^ (32 - n) * 2 ^ n"
    by (metis Suc_leI add.commute mult_Suc mult_le_mono1)
  then have "unat (h AND NOT (mask n)) + unat (mask n :: 32 word) < 2 ^ 32"
    using assms by (simp add: low_bits_cleared m flip: power_add)
  then show ?thesis by (simp add: o unat_plus_simple [THEN iffD1] unat_word_ariths low_bits_cleared m)
qed

lemma host_addr_update [simp]: "host_addr (a\<lparr>s_addr := w\<rparr>) = byteswap w"
  by (simp add: host_addr_def byteswapOnLittleEndian_def)

text \<open>The subnet of an IPv4 address with a prefix of 2 to 32 bits. Read as numbers, the network address rounds the address down to a multiple
  of the size \<open>2 ^ (32 - p)\<close> of the subnet, the broadcast address is the last one of it, the mask leaves out the size; port and family
  stay. (Prefixes of 0 and 1 shift or subtract out of the range of \<^verbatim>\<open>int\<close>.)\<close>

theorem v4_subnets:
  assumes "2 \<le> p" and "p \<le> 32"
  shows "\<exists>net bc sm. v4_networkAddress p a = Inr (Some net) \<and> v4_broadcastAddress p a = Inr (Some bc) \<and> v4_subnetMask p = Inr sm \<and>
    unat (host_addr net) = unat (host_addr a) - unat (host_addr a) mod 2 ^ (32 - p) \<and>
    unat (host_addr bc) = unat (host_addr net) + (2 ^ (32 - p) - 1) \<and>
    unat (host_addr sm) = 2 ^ 32 - 2 ^ (32 - p) \<and>
    net = a\<lparr>s_addr := s_addr net\<rparr> \<and> bc = a\<lparr>s_addr := s_addr bc\<rparr>"
proof -
  let ?m = "mask (32 - p) :: 32 word" and ?h = "byteswap (s_addr a)"
  define net where "net = a\<lparr>s_addr := s_addr a AND byteswap (NOT ?m)\<rparr>"
  define bc where "bc = a\<lparr>s_addr := s_addr a OR byteswap ?m\<rparr>"
  define sm where "sm = \<lparr>sin_family = AF_INET, sin_port = 0, s_addr = NOT (byteswap ?m), sin_zero = replicate 8 0\<rparr>"
  have d: "8 dvd LENGTH(32)" by simp
  have host: "host_addr net = ?h AND NOT ?m" "host_addr bc = ?h OR ?m" "host_addr sm = NOT ?m"
    by (simp_all add: net_def bc_def sm_def host_addr_def byteswapOnLittleEndian_def byteswap_ops [OF d] byteswap_byteswap [OF d])
  have "unat (NOT ?m) = unat (NOT 0 :: 32 word) - unat (NOT 0 :: 32 word) mod 2 ^ (32 - p)"
    using low_bits_cleared [of "NOT 0 :: 32 word" "32 - p"] by simp
  also have "\<dots> = 2 ^ 32 - 2 ^ (32 - p)"
  proof -
    have "(2 ^ 32 - 1) mod 2 ^ (32 - p) = (2 ^ (32 - p) - 1 :: nat)"
      using mask_mod_exp [of 32 "32 - p", where ?'a = nat] by (simp add: min_def)
    then show ?thesis by (simp add: unsigned_minus_1_eq_mask mask_eq_exp_minus_1)
  qed
  finally have s: "unat (NOT ?m) = 2 ^ 32 - 2 ^ (32 - p)" .
  have "v4_networkAddress p a = Inr (Some net)" "v4_broadcastAddress p a = Inr (Some bc)" "v4_subnetMask p = Inr sm"
    using assms by (simp_all add: v4_networkAddress_def v4_broadcastAddress_def v4_subnetMask_def CreateMask_mask net_def bc_def sm_def
      byteswapOnLittleEndian_def)
  moreover have "net = a\<lparr>s_addr := s_addr net\<rparr>" "bc = a\<lparr>s_addr := s_addr bc\<rparr>" by (simp_all add: net_def bc_def)
  moreover have "unat (host_addr net) = unat (host_addr a) - unat (host_addr a) mod 2 ^ (32 - p)"
    unfolding host by (simp add: low_bits_cleared host_addr_def byteswapOnLittleEndian_def)
  moreover have "unat (host_addr bc) = unat (host_addr net) + (2 ^ (32 - p) - 1)"
    unfolding host by (subst low_bits_set) (simp_all add: low_bits_cleared)
  moreover have "unat (host_addr sm) = 2 ^ 32 - 2 ^ (32 - p)" unfolding host by (rule s)
  ultimately show ?thesis by blast
qed

theorem v4_subnets_witness:
  "\<exists>net. v4_networkAddress 24 (IPv4Address 0xC0A80137 80) = Inr (Some net) \<and> unat (host_addr net) = 0xC0A80100"
proof -
  have h: "host_addr (IPv4Address 0xC0A80137 80) = 0xC0A80137"
    by (simp add: host_addr_def IPv4Address_def byteswapOnLittleEndian_def byteswap_byteswap)
  have "2 \<le> (24 :: nat)" "(24 :: nat) \<le> 32" by simp_all
  from v4_subnets [OF this, of "IPv4Address 0xC0A80137 80"] show ?thesis unfolding h by auto
qed

text \<open>Prefixes of no bit or one bit have no defined subnet.\<close>

theorem v4_prefix_undefined:
  "v4_networkAddress 0 a = Inl UndefinedBehaviour \<and> v4_networkAddress 1 a = Inl UndefinedBehaviour \<and>
   v4_broadcastAddress 0 a = Inl UndefinedBehaviour \<and> v4_subnetMask 33 = Inl UndefinedBehaviour"
  by (simp add: v4_networkAddress_def v4_broadcastAddress_def v4_subnetMask_def CreateMask_def)

text \<open>The bits of an IPv6 address from the left.\<close>

definition v6_bit :: "sockaddr_in6 \<Rightarrow> nat \<Rightarrow> bool" where
  "v6_bit a i \<longleftrightarrow> bit (s6_addr a ! (i div 8)) (7 - i mod 8)"

lemma CreateMask_byte: "k < 8 \<Longrightarrow> CreateMask k = Inr (mask (8 - k) :: byte)"
  by (simp add: CreateMask_def mask_eq_exp_minus_1 push_bit_eq_mult)

lemma fill_bits:
  assumes "length bs = 16" and "j < 16" and "q < 16"
  shows "fill_from (Suc j) v (bs[j := b]) ! q = (if q < j then bs ! q else if q = j then b else v)"
  using assms by (auto simp: fill_from_def nth_append nth_list_update)

lemma same_byte: "i div 8 = p div 8 \<Longrightarrow> i < p \<longleftrightarrow> i mod 8 < p mod (8 :: nat)"
  by (metis div_mod_decomp add_less_cancel_left mult.commute)

text \<open>The subnet of an IPv6 address with a prefix of less than 128 bits, bit by bit. The broadcast address and the mask are as they should
  be. The network address is not: in the byte where the prefix ends, the bits of the prefix are cleared and those of the host are kept,
  so it is right only when they happen to agree.\<close>

theorem v6_subnets:
  assumes "length (s6_addr a) = 16" and "p < 128"
  shows "\<exists>net bc sm. v6_networkAddress p a = Inr net \<and> v6_broadcastAddress p a = Inr bc \<and> v6_subnetMask p = Inr sm \<and>
    (\<forall>i<128. v6_bit bc i = (if i < p then v6_bit a i else True) \<and> v6_bit sm i = (i < p) \<and>
      v6_bit net i = (if i div 8 < p div 8 then v6_bit a i else if i div 8 = p div 8 then p \<le> i \<and> v6_bit a i else False))"
proof -
  let ?k = "p mod 8" and ?j = "p div 8"
  have k: "?k < 8" and j: "?j < 16" using assms(2) by simp_all
  let ?m = "mask (8 - ?k) :: byte" and ?bs = "s6_addr a"
  define net where "net = a\<lparr>s6_addr := fill_from (?j + 1) 0 (?bs[?j := ?bs ! ?j AND ?m])\<rparr>"
  define bc where "bc = a\<lparr>s6_addr := fill_from (?j + 1) 0xff (?bs[?j := ?bs ! ?j OR ?m])\<rparr>"
  define sm where "sm = new_IPv6Address\<lparr>s6_addr := replicate ?j 0xff @ drop ?j ((replicate 16 0)[?j := NOT ?m])\<rparr>"
  have eqs: "v6_networkAddress p a = Inr net" "v6_broadcastAddress p a = Inr bc" "v6_subnetMask p = Inr sm"
    using assms(1) j by (simp_all add: v6_networkAddress_def v6_broadcastAddress_def v6_subnetMask_def CreateMask_byte [OF k] set_byte_def
      net_def bc_def sm_def)
  have bits: "v6_bit bc i = (if i < p then v6_bit a i else True) \<and> v6_bit sm i = (i < p) \<and>
      v6_bit net i = (if i div 8 < p div 8 then v6_bit a i else if i div 8 = p div 8 then p \<le> i \<and> v6_bit a i else False)"
    if i: "i < 128" for i
  proof -
    have q: "i div 8 < 16" using i by simp
    note f = fill_bits [OF assms(1) j q]
    have s: "s6_addr sm ! (i div 8) = (if i div 8 < ?j then 0xff else if i div 8 = ?j then NOT ?m else 0)"
      using j q by (auto simp: sm_def nth_append nth_list_update)
    have "(0xff :: byte) = NOT 0" by simp
    then have ff: "bit (0xff :: byte) (7 - i mod 8)" by (simp only: bit_simps) simp
    consider "i div 8 < ?j" | "i div 8 = ?j" | "?j < i div 8" by linarith
    then show ?thesis
    proof cases
      case 1
      then have "i < p" by (metis div_le_mono linorder_not_le)
      then show ?thesis using 1 s ff by (simp add: v6_bit_def net_def bc_def f)
    next
      case 2
      have lt: "i < p \<longleftrightarrow> i mod 8 < ?k" by (rule same_byte [OF 2])
      have "i mod 8 < 8" by simp
      then have m: "7 - i mod 8 < 8 - ?k \<longleftrightarrow> \<not> i mod 8 < ?k" using k by linarith
      show ?thesis using lt by (auto simp: v6_bit_def net_def bc_def 2 f [unfolded 2] s [unfolded 2] m bit_simps)
    next
      case 3
      then have "p < i" by (metis div_le_mono linorder_not_le less_or_eq_imp_le)
      then show ?thesis using 3 s ff by (simp add: v6_bit_def net_def bc_def f)
    qed
  qed
  show ?thesis using eqs bits by blast
qed

theorem v6_subnets_witness:
  "\<exists>net. v6_networkAddress 33 (IPv6Address (replicate 16 0xff) 0) = Inr net \<and> \<not> v6_bit net 32 \<and> v6_bit net 33"
proof -
  let ?a = "IPv6Address (replicate 16 0xff) 0"
  have "length (s6_addr ?a) = 16" "(33 :: nat) < 128" by (simp_all add: IPv6Address_def)
  from v6_subnets [OF this] obtain net where n: "v6_networkAddress 33 ?a = Inr net"
    and b: "\<forall>i<128. v6_bit net i = (if i div 8 < 33 div 8 then v6_bit ?a i else if i div 8 = 33 div 8 then 33 \<le> i \<and> v6_bit ?a i else False)"
    by blast
  have "v6_bit ?a 33" by (simp add: v6_bit_def IPv6Address_def)
  then show ?thesis using n b [rule_format, of 32] b [rule_format, of 33] by auto
qed

section \<open>Counting bits\<close>

definition pop :: "'a::len word \<Rightarrow> nat" where
  "pop w = card {n. n < LENGTH('a) \<and> bit w n}"

text \<open>Subtracting one flips the bits up to the lowest one that is set.\<close>

lemma drop_lowest_bit:
  fixes w :: "'a::len word"
  assumes "w \<noteq> 0"
  obtains k where "k < LENGTH('a)" "bit w k" "\<And>n. bit (w AND (w - 1)) n \<longleftrightarrow> bit w n \<and> n \<noteq> k"
proof -
  define k where "k = (LEAST n. bit w n)"
  have ex: "\<exists>n. bit w n" using assms by (metis bit_eq_iff bit_0_eq bot_apply bot_bool_def)
  then have bk: "bit w k" unfolding k_def by (rule LeastI_ex)
  then have lt: "k < LENGTH('a)" by (rule bit_imp_le_length)
  have low: "\<not> bit w n" if "n < k" for n using that not_less_Least unfolding k_def by blast
  define v where "v = w AND NOT (push_bit k 1)"
  have w: "w = v + push_bit k 1"
  proof -
    have "v + push_bit k 1 = v OR push_bit k 1"
      by (rule disjunctive_add_eq_or) (rule bit_word_eqI, auto simp: v_def bit_simps)
    also have "\<dots> = w" by (rule bit_word_eqI) (use bk in \<open>auto simp: v_def bit_simps bit_1_iff\<close>)
    finally show ?thesis ..
  qed
  have "w - 1 = v + mask k" unfolding w by (simp add: mask_eq_exp_minus_1 push_bit_eq_mult)
  also have "\<dots> = v OR mask k"
    by (rule disjunctive_add_eq_or) (rule bit_word_eqI, use low in \<open>auto simp: v_def bit_simps\<close>)
  finally have m: "w - 1 = v OR mask k" .
  have "bit (w AND (w - 1)) n \<longleftrightarrow> bit w n \<and> n \<noteq> k" for n
    unfolding m using low [of n] by (auto simp: v_def bit_simps bit_1_iff dest: bit_imp_le_length)
  with lt bk show ?thesis by (rule that)
qed

text \<open>The loop that counts the bits of a netmask ends and counts the bits that are set, so the length of a prefix is read off right.\<close>

theorem CountBytes_pop: "CountBytes w = pop w"
proof (induction w rule: CountBytes.induct)
  case (1 w)
  show ?case
  proof (cases "w = 0")
    case True
    then show ?thesis by (simp add: CountBytes.simps pop_def)
  next
    case False
    then obtain k where k: "k < LENGTH('a)" "bit w k" "\<And>n. bit (w AND (w - 1)) n \<longleftrightarrow> bit w n \<and> n \<noteq> k"
      using drop_lowest_bit [of w] by blast
    have "{n. n < LENGTH('a) \<and> bit w n} = insert k {n. n < LENGTH('a) \<and> bit (w AND (w - 1)) n}" using k by auto
    then have "pop w = Suc (pop (w AND (w - 1)))" by (simp add: pop_def k(3))
    then show ?thesis using 1 False by (subst CountBytes.simps) simp
  qed
qed

section \<open>Text\<close>

fun joined :: "string list \<Rightarrow> string" where
  "joined [] = ''''"
| "joined [x] = x"
| "joined (x # xs) = x @ '':'' @ joined xs"

text \<open>The text of RFC 4291 with the first run of zeros left out.\<close>

definition v6_text :: "16 word list \<Rightarrow> string" where
  "v6_text gs =
     (let pre = takeWhile (\<lambda>g. g \<noteq> 0) gs; rest = dropWhile (\<lambda>g. g \<noteq> 0) gs
      in if rest = [] then joined (map show_group gs)
         else joined (map show_group pre) @ ''::'' @ joined (map show_group (dropWhile (\<lambda>g. g = 0) rest)))"

text \<open>The loop on the list of groups, with what it knows of the group before.\<close>

fun groups_loop :: "bool \<Rightarrow> bool \<Rightarrow> 16 word list \<Rightarrow> bool \<Rightarrow> string \<times> bool" where
  "groups_loop first zero [] used = ('''', used)"
| "groups_loop first zero (g # gs) used =
     (if g = 0 \<and> \<not> used then groups_loop False True gs used
      else
        (let gap = (\<not> first \<and> zero \<and> \<not> used)
         in case groups_loop False (g = 0) gs (gap \<or> used) of
              (s, u) \<Rightarrow> ((if gap then '':'' else '''') @ (if first then '''' else '':'') @ show_group g @ s, u)))"

lemma group_loop_list:
  "k \<le> length addr \<Longrightarrow>
   group_loop addr [k..<length addr] used = groups_loop (k = 0) (k \<noteq> 0 \<and> addr ! (k - 1) = 0) (drop k addr) used"
proof (induction "length addr - k" arbitrary: k used)
  case (Suc n)
  then have lt: "k < length addr" by simp
  have IH: "group_loop addr [Suc k..<length addr] u = groups_loop False (addr ! k = 0) (drop (Suc k) addr) u" for u
    using Suc.hyps(1) [of "Suc k" u] Suc.hyps(2) lt by simp
  show ?case using lt IH by (simp add: upt_conv_Cons Cons_nth_drop_Suc [symmetric] Let_def)
qed simp

lemma joined_Cons: "joined (x # xs) = x @ (if xs = [] then '''' else '':'' @ joined xs)"
  by (cases xs) simp_all

lemma colon_joined: "concat (map (\<lambda>g. CHR '':'' # show_group g) gs) = (if gs = [] then '''' else '':'' @ joined (map show_group gs))"
  by (induction gs) (simp_all add: joined_Cons)

lemma groups_used: "groups_loop False z gs True = (concat (map (\<lambda>g. CHR '':'' # show_group g) gs), True)"
  by (induction gs arbitrary: z) simp_all

lemma groups_zeros:
  "groups_loop False True gs False =
     (let rest = dropWhile (\<lambda>g. g = 0) gs in if rest = [] then ('''', False) else (''::'' @ joined (map show_group rest), True))"
  by (induction gs) (simp_all add: Let_def groups_used colon_joined joined_Cons)

lemma groups_pre:
  "groups_loop first False gs False =
     (let pre = takeWhile (\<lambda>g. g \<noteq> 0) gs; rest = dropWhile (\<lambda>g. g \<noteq> 0) gs;
          s = (if pre = [] then '''' else (if first then '''' else '':'') @ joined (map show_group pre))
      in case groups_loop (first \<and> pre = []) False rest False of (t, u) \<Rightarrow> (s @ t, u))"
proof (induction gs arbitrary: first)
  case (Cons g gs)
  show ?case
  proof (cases "g = 0")
    case False
    then show ?thesis using Cons [of False] by (simp add: Let_def joined_Cons split: prod.split)
  qed (simp add: Let_def)
qed simp

lemma length_v6_groups: "length (v6_groups a) = 8"
  by (simp add: v6_groups_def)

lemma dropWhile_head: "dropWhile P xs = y # ys \<Longrightarrow> \<not> P y"
  by (induction xs) (auto split: if_splits)

lemma last_zero:
  assumes "dropWhile (\<lambda>g. g \<noteq> 0) gs = z # zs" and "dropWhile (\<lambda>g. g = 0) zs = []"
  shows "last gs = (0 :: 16 word)"
proof -
  have "gs = takeWhile (\<lambda>g. g \<noteq> 0) gs @ z # zs" using assms(1) by (metis takeWhile_dropWhile_id)
  moreover have "\<forall>g\<in>set (z # zs). g = 0" using assms dropWhile_head [OF assms(1)] by (auto simp: dropWhile_eq_Nil_conv)
  ultimately show ?thesis by (metis last_append last_in_set list.distinct(1))
qed

lemma all_nonzero: "dropWhile (\<lambda>g. g \<noteq> 0) gs = [] \<Longrightarrow> gs \<noteq> [] \<Longrightarrow> last gs \<noteq> (0 :: 16 word)"
  by (auto simp: dropWhile_eq_Nil_conv)

text \<open>The text of an IPv6 address. The loop with its two flags writes what RFC 4291 asks for: the groups in hexadecimal between
  colons, with the first run of zero groups, wherever it stands and also at the end, written as a double colon and all later
  groups written out.\<close>

theorem v6_insert_text:
  "v6_insert a = ''['' @ v6_text (v6_groups a) @ '']:'' @ show_word (byteswapOnLittleEndian (sin6_port a))"
proof -
  define gs where "gs = v6_groups a"
  have len: "length gs = 8" by (simp add: gs_def length_v6_groups)
  then have ne: "gs \<noteq> []" by auto
  then have l7: "gs ! 7 = last gs" using len by (simp add: last_conv_nth)
  have loop: "group_loop gs [0..<8] False = groups_loop True False gs False"
    using group_loop_list [of 0 gs False] len by simp
  define pre where "pre = takeWhile (\<lambda>g. g \<noteq> 0) gs"
  have tx: "(case groups_loop True False gs False of (s, u) \<Rightarrow> s @ (if \<not> u \<and> gs ! 7 = 0 then ''::'' else '''')) = v6_text gs"
  proof (cases "dropWhile (\<lambda>g. g \<noteq> 0) gs")
    case Nil
    then have "pre = gs" unfolding pre_def by (simp add: dropWhile_eq_Nil_conv takeWhile_eq_all_conv)
    then show ?thesis using Nil all_nonzero [OF Nil ne] ne l7
      by (simp add: groups_pre [of True gs] Let_def v6_text_def pre_def [symmetric] del: dropWhile_eq_Nil_conv)
  next
    case (Cons z zs)
    then have z: "z = 0" using dropWhile_head [OF Cons] by simp
    show ?thesis
    proof (cases "dropWhile (\<lambda>g. g = 0) zs = []")
      case True
      then show ?thesis using Cons z last_zero [OF Cons True] l7
        by (simp add: groups_pre [of True gs] groups_zeros Let_def v6_text_def pre_def [symmetric] del: dropWhile_eq_Nil_conv)
    next
      case False
      then show ?thesis using Cons z
        by (simp add: groups_pre [of True gs] groups_zeros Let_def v6_text_def pre_def [symmetric] del: dropWhile_eq_Nil_conv)
    qed
  qed
  show ?thesis
    unfolding v6_insert_def Let_def gs_def [symmetric] loop tx [symmetric] by (simp split: prod.split)
qed

section \<open>Paths\<close>

text \<open>The address of a path gives the path back: a path without null bytes of at most 107 bytes as it is, and an abstract name with its
  leading null byte shown as \<open>\0\<close>, whatever bytes it has; anything longer throws. (The empty path shows as \<open>\0\<close>, too.)\<close>

theorem unix_path_back:
  "case UnixAddress path of
     Inl e \<Rightarrow> length path + (if path \<noteq> [] \<and> hd path = CHR 0x00 then 0 else 1) > 108
   | Inr a \<Rightarrow> unix_getPath a = (if path = [] \<or> hd path = CHR 0x00 then CHR 0x5C # CHR ''0'' # tl path else c_str path) \<and>
       length (sun_path a) = 108 \<and> sun_length a \<le> 110"
proof (cases "path = [] \<or> hd path = CHR 0x00")
  case True
  then consider "path = []" | cs where "path = CHR 0x00 # cs" by (cases path) auto
  then show ?thesis by cases (simp_all add: UnixAddress_def unix_getPath_def Let_def)
next
  case False
  have c: "c_str (path @ CHR 0x00 # zs) = c_str path" for zs
  proof (cases "CHR 0x00 \<in> set path")
    case True
    then show ?thesis by (simp add: c_str_def takeWhile_append1)
  next
    case False
    then have "\<forall>c\<in>set path. c \<noteq> CHR 0x00" by auto
    then show ?thesis by (simp add: c_str_def takeWhile_append2 takeWhile_eq_all_conv [THEN iffD2])
  qed
  then show ?thesis using False c by (auto simp: UnixAddress_def unix_getPath_def Let_def c_str_def hd_append)
qed

section \<open>Looking up\<close>

lemma find_idx_colon: "CHR '':'' \<notin> set h \<Longrightarrow> find_idx '':'' (h @ CHR '':'' # s) = Some (length h)"
  by (induction h) auto

lemma find_idx_none: "c \<notin> set h \<Longrightarrow> find_idx [c] h = None"
  by (induction h) auto

lemma find_idx_bracket: "CHR '']'' \<notin> set h \<Longrightarrow> find_idx '']'' (h @ CHR '']'' # s) = Some (length h)"
  by (induction h) auto

text \<open>How \<open>Lookup\<close> splits a host. A name or IPv4 address with a port is split at the colon, without one it is passed on alone, an
  IPv6 address in brackets loses them, with or without a port. But an IPv6 address without brackets is passed on with a service
  that starts at its first colon, which no resolver knows.\<close>

theorem lookup_split_cases:
  assumes "CHR '':'' \<notin> set name" and "CHR '':'' \<notin> set port" and "name \<noteq> ''''" and "hd name \<noteq> CHR ''[''"
    and "CHR '']'' \<notin> set v6" and "v6 \<noteq> ''''"
  shows "lookup_split (name @ '':'' @ port) = (name, Some port) \<and> lookup_split name = (name, None) \<and>
    lookup_split (''['' @ v6 @ '']:'' @ port) = (v6, Some port) \<and> lookup_split (''['' @ v6 @ '']'') = (v6, None) \<and>
    lookup_split (name @ '':'' @ port @ '':'' @ behind) = (name @ '':'' @ port @ '':'' @ behind, Some ('':'' @ port @ '':'' @ behind))"
proof -
  have n: "hd (name @ x) = hd name" "name @ x \<noteq> ''''" for x using assms(3) by simp_all
  have d: "drop (length v6 + 3) (CHR ''['' # v6 @ CHR '']'' # CHR '':'' # port) = port" by (simp add: numeral_3_eq_3)
  have two: "find_idx '':'' (port @ CHR '':'' # behind) = Some (length port)" by (rule find_idx_colon [OF assms(2)])
  show ?thesis using assms n two d
    by (simp add: lookup_split_def Let_def find_idx_colon find_idx_none find_idx_bracket)
qed

theorem lookup_split_cases_witness:
  "lookup_split ''localhost:80'' = (''localhost'', Some ''80'') \<and> lookup_split ''[::1]:80'' = (''::1'', Some ''80'') \<and>
   lookup_split ''fe80::1'' = (''fe80::1'', Some ''::1'')"
  using lookup_split_cases [of "''localhost''" "''80''" "''::1''" "''''"] lookup_split_cases [of "''fe80''" "''''" "''::1''" "''1''"] by simp

end
