(* ===== verification/Hook.thy ===== *)
theory Hook
  imports IOManager
begin

text \<open>
  The interposed system calls of \<^verbatim>\<open>sylar/hook.cc\<close> and their table of descriptors (\<^verbatim>\<open>sylar/fd_manager.cc\<close>). A socket is put
  into non-blocking mode behind the program's back; a call that would block waits in the IO manager instead. What the real system calls
  answer is an argument; the status flags that the kernel keeps are modelled after the manual page of \<^verbatim>\<open>fcntl\<close>.
\<close>

unbundle bit_operations_syntax

section \<open>The table of descriptors\<close>

definition O_NONBLOCK :: "32 word" where "O_NONBLOCK = 0x800"

record fd_ctx =
  fx_init :: bool
  fx_socket :: bool
  fx_sysNonblock :: bool
  fx_userNonblock :: bool
  fx_closed :: bool
  fx_fd :: int
  fx_recvTimeout :: "64 word"
  fx_sendTimeout :: "64 word"

record hook_state =
  hk_enable :: bool
  hk_datas :: "fd_ctx option list"
  hk_flags :: "int \<Rightarrow> 32 word"

definition new_hook_state :: hook_state where
  "new_hook_state = \<lparr>hk_enable = True, hk_datas = replicate 64 None, hk_flags = (\<lambda>_. 2)\<rparr>"

text \<open>\<open>fcntl(F_SETFL)\<close> changes \<open>O_APPEND\<close>, \<open>O_ASYNC\<close>, \<open>O_DIRECT\<close>, \<open>O_NOATIME\<close> and \<open>O_NONBLOCK\<close> only.\<close>

definition settable :: "32 word" where "settable = 0x46C00"

definition kernel_setfl :: "32 word \<Rightarrow> 32 word \<Rightarrow> 32 word" where
  "kernel_setfl old arg = (old AND NOT settable) OR (arg AND settable)"

definition fcntl_f_setfl :: "int \<Rightarrow> 32 word \<Rightarrow> hook_state \<Rightarrow> hook_state" where
  "fcntl_f_setfl fd arg S = S\<lparr>hk_flags := (hk_flags S)(fd := kernel_setfl (hk_flags S fd) arg)\<rparr>"

text \<open>\<open>FdCtx::init\<close>; \<open>st\<close> is what \<^verbatim>\<open>fstat\<close> says: whether the descriptor is a socket, \<open>None\<close> an error.\<close>

definition new_fd_ctx :: "int \<Rightarrow> bool option \<Rightarrow> hook_state \<Rightarrow> fd_ctx \<times> hook_state" where
  "new_fd_ctx fd st S =
     (let c = \<lparr>fx_init = (st \<noteq> None), fx_socket = (st = Some True), fx_sysNonblock = (st = Some True), fx_userNonblock = False,
            fx_closed = False, fx_fd = fd, fx_recvTimeout = NOT 0, fx_sendTimeout = NOT 0\<rparr>
      in (c, if fx_socket c \<and> hk_flags S fd AND O_NONBLOCK = 0 then fcntl_f_setfl fd (hk_flags S fd OR O_NONBLOCK) S else S))"

definition setTimeout :: "bool \<Rightarrow> 64 word \<Rightarrow> fd_ctx \<Rightarrow> fd_ctx" where
  "setTimeout rcv v c = (if rcv then c\<lparr>fx_recvTimeout := v\<rparr> else c\<lparr>fx_sendTimeout := v\<rparr>)"

definition getTimeout :: "bool \<Rightarrow> fd_ctx \<Rightarrow> 64 word" where
  "getTimeout rcv c = (if rcv then fx_recvTimeout c else fx_sendTimeout c)"

definition put_fd :: "int \<Rightarrow> fd_ctx option \<Rightarrow> hook_state \<Rightarrow> hook_state" where
  "put_fd fd c S = S\<lparr>hk_datas := (hk_datas S)[nat fd := c]\<rparr>"

definition FdMgr_get :: "int \<Rightarrow> bool \<Rightarrow> bool option \<Rightarrow> hook_state \<Rightarrow> (fd_ctx option \<times> hook_state) res" where
  "FdMgr_get fd auto_create st S =
     (if fd = - 1 then Inr (None, S)
      else if fd < 0 then Inl UndefinedBehaviour
      else if nat fd < length (hk_datas S) \<and> (hk_datas S ! nat fd \<noteq> None \<or> \<not> auto_create) then Inr (hk_datas S ! nat fd, S)
      else if \<not> auto_create then Inr (None, S)
      else
        (case new_fd_ctx fd st S of
           (c, S) \<Rightarrow>
             let S = (if nat fd \<ge> length (hk_datas S)
                      then S\<lparr>hk_datas := hk_datas S @ replicate (nat (fd + fd div 2) - length (hk_datas S)) None\<rparr> else S)
             in Inr (Some c, put_fd fd (Some c) S)))"

definition FdMgr_del :: "int \<Rightarrow> hook_state \<Rightarrow> hook_state res" where
  "FdMgr_del fd S =
     (if int (length (hk_datas S)) \<le> fd then Inr S
      else if fd < 0 then Inl UndefinedBehaviour else Inr (put_fd fd None S))"

section \<open>Descriptors\<close>

text \<open>\<open>socket\<close> and \<open>accept\<close>: the kernel hands out \<open>fd\<close> with the status flags \<open>fl\<close>.\<close>

definition hook_socket :: "int \<Rightarrow> 32 word \<Rightarrow> bool option \<Rightarrow> hook_state \<Rightarrow> (int \<times> hook_state) res" where
  "hook_socket fd fl st S =
     (let S = (if fd = - 1 then S else S\<lparr>hk_flags := (hk_flags S)(fd := fl)\<rparr>)
      in if \<not> hk_enable S then Inr (fd, S)
         else if fd = - 1 then Inr (fd, S)
         else rbind (FdMgr_get fd True st S) (\<lambda>(_, S). Inr (fd, S)))"

text \<open>\<open>close\<close>; whether the thread runs an IO manager is the presence of \<open>M\<close>. The answer of \<open>cancelAll\<close> is not looked at.\<close>

definition hook_close ::
    "int \<Rightarrow> bool \<Rightarrow> io_manager option \<Rightarrow> hook_state \<Rightarrow> (io_manager option \<times> hook_state) res" where
  "hook_close fd ok iom S =
     (if \<not> hk_enable S then Inr (iom, S)
      else
        rbind (FdMgr_get fd False None S) (\<lambda>(ctx, S).
          if ctx = None then Inr (iom, S)
          else
            rbind (case iom of None \<Rightarrow> Inr None | Some M \<Rightarrow> rbind (cancelAll fd ok M) (\<lambda>(_, M). Inr (Some M))) (\<lambda>iom.
            rbind (FdMgr_del fd S) (\<lambda>S. Inr (iom, S)))))"

definition hook_setfl :: "int \<Rightarrow> 32 word \<Rightarrow> hook_state \<Rightarrow> hook_state res" where
  "hook_setfl fd arg S =
     rbind (FdMgr_get fd False None S) (\<lambda>(ctx, S).
       case ctx of
         None \<Rightarrow> Inr (fcntl_f_setfl fd arg S)
       | Some c \<Rightarrow>
           if fx_closed c \<or> \<not> fx_socket c then Inr (fcntl_f_setfl fd arg S)
           else
             let S = put_fd fd (Some (c\<lparr>fx_userNonblock := (arg AND O_NONBLOCK \<noteq> 0)\<rparr>)) S;
                 arg = (if fx_sysNonblock c then arg OR O_NONBLOCK else arg AND NOT O_NONBLOCK)
             in Inr (fcntl_f_setfl fd arg S))"

definition hook_getfl :: "int \<Rightarrow> hook_state \<Rightarrow> 32 word res" where
  "hook_getfl fd S =
     rbind (FdMgr_get fd False None S) (\<lambda>(ctx, S).
       let arg = hk_flags S fd
       in case ctx of
            None \<Rightarrow> Inr arg
          | Some c \<Rightarrow>
              if fx_closed c \<or> \<not> fx_socket c then Inr arg
              else Inr (if fx_userNonblock c then arg OR O_NONBLOCK else arg AND NOT O_NONBLOCK))"

text \<open>\<open>ioctl(FIONBIO)\<close>: the kernel sets its flag to the value.\<close>

definition hook_fionbio :: "int \<Rightarrow> bool \<Rightarrow> hook_state \<Rightarrow> hook_state res" where
  "hook_fionbio fd v S =
     rbind (FdMgr_get fd False None S) (\<lambda>(ctx, S).
       let S = (case ctx of
                  None \<Rightarrow> S
                | Some c \<Rightarrow> if fx_closed c \<or> \<not> fx_socket c then S else put_fd fd (Some (c\<lparr>fx_userNonblock := v\<rparr>)) S)
       in Inr (S\<lparr>hk_flags := (hk_flags S)(fd := if v then hk_flags S fd OR O_NONBLOCK else hk_flags S fd AND NOT O_NONBLOCK)\<rparr>))"

text \<open>\<open>setsockopt\<close> with \<open>SO_RCVTIMEO\<close> or \<open>SO_SNDTIMEO\<close> and a \<^verbatim>\<open>timeval\<close>.\<close>

definition timeval_ms :: "int \<Rightarrow> int \<Rightarrow> 64 word" where
  "timeval_ms sec usec = word_of_int (sec * 1000 + usec div 1000)"

definition hook_settimeo :: "int \<Rightarrow> bool \<Rightarrow> int \<Rightarrow> int \<Rightarrow> hook_state \<Rightarrow> hook_state res" where
  "hook_settimeo fd rcv sec usec S =
     (if \<not> hk_enable S then Inr S
      else
        rbind (FdMgr_get fd False None S) (\<lambda>(ctx, S).
          case ctx of None \<Rightarrow> Inr S | Some c \<Rightarrow> Inr (put_fd fd (Some (setTimeout rcv (timeval_ms sec usec) c)) S)))"

section \<open>Calls that may wait\<close>

definition EINTR :: int where "EINTR = 4"
definition EBADF :: int where "EBADF = 9"
definition EAGAIN :: int where "EAGAIN = 11"
definition EINPROGRESS :: int where "EINPROGRESS = 115"
definition ETIMEDOUT :: int where "ETIMEDOUT = 110"

text \<open>A system call answers a value and \<^verbatim>\<open>errno\<close>. The attempts up to the first that no signal interrupts.\<close>

fun first_attempt :: "(int \<times> int) list \<Rightarrow> (int \<times> int) option" where
  "first_attempt [] = None"
| "first_attempt (r # rs) = (if fst r = - 1 \<and> snd r = EINTR then first_attempt rs else Some r)"

text \<open>
  One round of \<open>do_io\<close> as the surroundings decide it: the attempts, the time, whether \<^verbatim>\<open>epoll_ctl\<close> succeeds
  and the \<^verbatim>\<open>errno\<close> it leaves otherwise, the state of the IO manager when the fiber runs again, and what the timer's callback has
  left in \<open>tinfo\<close>. \<open>alloc\<close> says where the timer is allocated.
\<close>

record turn =
  tn_results :: "(int \<times> int) list"
  tn_now :: "64 word"
  tn_ok :: bool
  tn_errno :: int
  tn_after :: io_manager
  tn_cancelled :: int

definition arm_timer :: "nat \<Rightarrow> 64 word \<Rightarrow> nat \<Rightarrow> 64 word \<Rightarrow> io_manager \<Rightarrow> io_manager" where
  "arm_timer a to cb now M =
     (if to \<noteq> NOT 0 then
        (case addTimer a to cb False now (io_timers M) of
           (T, at_front) \<Rightarrow> let M = M\<lparr>io_timers := T\<rparr> in if at_front then tickle M else M)
      else M)"

definition disarm_timer :: "nat \<Rightarrow> 64 word \<Rightarrow> io_manager \<Rightarrow> io_manager res" where
  "disarm_timer a to M =
     (if to \<noteq> NOT 0 then rbind (cancel a (io_timers M)) (\<lambda>(_, T). Inr (M\<lparr>io_timers := T\<rparr>)) else Inr M)"

text \<open>The timer's callback, when \<open>tinfo\<close> still exists: it runs once, and cancels the event.\<close>

definition timer_callback :: "int \<Rightarrow> 32 word \<Rightarrow> bool \<Rightarrow> int \<Rightarrow> io_manager \<Rightarrow> (int \<times> io_manager) res" where
  "timer_callback fd ev ok cancelled M =
     (if cancelled \<noteq> 0 then Inr (cancelled, M) else rbind (cancelEvent fd ev ok M) (\<lambda>(_, M). Inr (ETIMEDOUT, M)))"

text \<open>The loop from \<open>retry\<close> on; \<open>None\<close> when the rounds are used up and the call has not returned.\<close>

fun do_io_loop ::
    "(nat timer_manager \<Rightarrow> nat) \<Rightarrow> int \<Rightarrow> 32 word \<Rightarrow> nat \<Rightarrow> nat \<Rightarrow> 64 word \<Rightarrow> turn list \<Rightarrow> io_manager \<Rightarrow> (int \<times> int \<times> io_manager) option res" where
  "do_io_loop alloc fd ev cur cb to [] M = Inr None"
| "do_io_loop alloc fd ev cur cb to (t # ts) M =
     (case first_attempt (tn_results t) of
        None \<Rightarrow> Inr None
      | Some (n, err) \<Rightarrow>
          if n = - 1 \<and> err = EAGAIN then
            let a = alloc (io_timers M)
            in rbind (addEvent fd ev None cur (tn_ok t) (arm_timer a to cb (tn_now t) M)) (\<lambda>(rt, M).
              if rt \<noteq> 0 then rbind (disarm_timer a to M) (\<lambda>M. Inr (Some (- 1, tn_errno t, M)))
              else
                rbind (disarm_timer a to (tn_after t)) (\<lambda>M.
                  if tn_cancelled t \<noteq> 0 then Inr (Some (- 1, tn_cancelled t, M))
                  else do_io_loop alloc fd ev cur cb to ts M))
          else Inr (Some (n, err, M)))"

definition do_io ::
    "(nat timer_manager \<Rightarrow> nat) \<Rightarrow> int \<Rightarrow> 32 word \<Rightarrow> bool \<Rightarrow> nat \<Rightarrow> nat \<Rightarrow> (int \<times> int) \<Rightarrow> turn list \<Rightarrow> hook_state \<Rightarrow> io_manager \<Rightarrow>
     (int \<times> int \<times> io_manager) option res" where
  "do_io alloc fd ev rcv cur cb direct ts S M =
     (if \<not> hk_enable S then Inr (Some (fst direct, snd direct, M))
      else
        rbind (FdMgr_get fd False None S) (\<lambda>(ctx, S).
          case ctx of
            None \<Rightarrow> Inr (Some (fst direct, snd direct, M))
          | Some c \<Rightarrow>
              if fx_closed c then Inr (Some (- 1, EBADF, M))
              else if \<not> fx_socket c \<or> fx_userNonblock c then Inr (Some (fst direct, snd direct, M))
              else do_io_loop alloc fd ev cur cb (getTimeout rcv c) ts M))"

text \<open>\<open>connect_with_timeout\<close>: one round, then the socket is asked for its error.\<close>

definition hook_connect ::
    "(nat timer_manager \<Rightarrow> nat) \<Rightarrow> int \<Rightarrow> nat \<Rightarrow> nat \<Rightarrow> 64 word \<Rightarrow> (int \<times> int) \<Rightarrow> turn \<Rightarrow> (int \<times> int) \<Rightarrow> hook_state \<Rightarrow> io_manager \<Rightarrow> (int \<times> int \<times> io_manager) res" where
  "hook_connect alloc fd cur cb to direct t so_error S M =
     (if \<not> hk_enable S then Inr (fst direct, snd direct, M)
      else
        rbind (FdMgr_get fd False None S) (\<lambda>(ctx, S).
          case ctx of
            None \<Rightarrow> Inr (- 1, EBADF, M)
          | Some c \<Rightarrow>
              if fx_closed c then Inr (- 1, EBADF, M)
              else if \<not> fx_socket c \<or> fx_userNonblock c then Inr (fst direct, snd direct, M)
              else if fst direct = 0 then Inr (0, snd direct, M)
              else if fst direct \<noteq> - 1 \<or> snd direct \<noteq> EINPROGRESS then Inr (fst direct, snd direct, M)
              else
                let a = alloc (io_timers M)
                in rbind (addEvent fd WRITE None cur (tn_ok t) (arm_timer a to cb (tn_now t) M)) (\<lambda>(rt, M).
                  rbind (disarm_timer a to (if rt = 0 then tn_after t else M)) (\<lambda>M.
                    if rt = 0 \<and> tn_cancelled t \<noteq> 0 then Inr (- 1, tn_cancelled t, M)
                    else if fst so_error = - 1 then Inr (- 1, tn_errno t, M)
                    else if snd so_error = 0 then Inr (0, tn_errno t, M)
                    else Inr (- 1, snd so_error, M)))))"

text \<open>The milliseconds that the sleeping calls arm their timers with.\<close>

definition sleep_ms :: "32 word \<Rightarrow> 64 word" where
  "sleep_ms seconds = ucast (seconds * 1000)"

definition usleep_ms :: "32 word \<Rightarrow> 64 word" where
  "usleep_ms usec = ucast (usec div 1000)"

definition nanosleep_ms :: "int \<Rightarrow> int \<Rightarrow> 64 word" where
  "nanosleep_ms sec nsec = scast (word_of_int (sec * 1000 + nsec div 1000 div 1000) :: 32 word)"

end
