(* ===== verification/HookProps.thy ===== *)
theory HookProps
  imports Hook
begin

text \<open>The interposed calls: what the program sees of the flags, that sockets never block a thread, and what a call that waits answers.\<close>

section \<open>Flags\<close>

text \<open>A context, and the flags as the program sees them.\<close>

definition ctx_at :: "hook_state \<Rightarrow> int \<Rightarrow> fd_ctx option" where
  "ctx_at S fd = (if 0 \<le> fd \<and> nat fd < length (hk_datas S) then hk_datas S ! nat fd else None)"

definition seen_flags :: "hook_state \<Rightarrow> int \<Rightarrow> 32 word" where
  "seen_flags S fd =
     (case ctx_at S fd of
        None \<Rightarrow> hk_flags S fd
      | Some c \<Rightarrow>
          if fx_socket c then (hk_flags S fd AND NOT O_NONBLOCK) OR (if fx_userNonblock c then O_NONBLOCK else 0)
          else hk_flags S fd)"

text \<open>Every socket on record is in non-blocking mode, and nothing is marked closed.\<close>

definition hook_ok :: "hook_state \<Rightarrow> bool" where
  "hook_ok S \<longleftrightarrow>
     (\<forall>fd c. ctx_at S fd = Some c \<longrightarrow> \<not> fx_closed c \<and> fx_sysNonblock c = fx_socket c \<and>
        (fx_socket c \<longrightarrow> bit (hk_flags S fd) 11)) \<and> 64 \<le> length (hk_datas S)"

lemma O_NONBLOCK_bit: "bit O_NONBLOCK n \<longleftrightarrow> n = 11"
proof -
  have "O_NONBLOCK = push_bit 11 1" by (simp add: O_NONBLOCK_def push_bit_eq_mult)
  then have "bit O_NONBLOCK n = bit (push_bit 11 1 :: 32 word) n" by (rule arg_cong)
  also have "\<dots> \<longleftrightarrow> n = 11" by (simp only: bit_push_bit_iff bit_1_iff) auto
  finally show ?thesis .
qed

lemma settable_NONBLOCK: "bit settable 11"
proof (rule ccontr)
  assume "\<not> bit settable 11"
  then have "settable AND O_NONBLOCK = 0" by (intro bit_word_eqI) (auto simp: bit_and_iff O_NONBLOCK_bit)
  then show False by (simp add: settable_def O_NONBLOCK_def)
qed

lemma and_NONBLOCK: "w AND O_NONBLOCK \<noteq> 0 \<longleftrightarrow> bit w 11"
proof -
  have "w AND O_NONBLOCK = (if bit w 11 then O_NONBLOCK else 0)"
    by (rule bit_word_eqI) (auto simp: bit_and_iff O_NONBLOCK_bit)
  moreover have "O_NONBLOCK \<noteq> 0" by (simp add: O_NONBLOCK_def)
  ultimately show ?thesis by simp
qed

lemma bit_kernel_setfl: "n < 32 \<Longrightarrow> bit (kernel_setfl old arg) n \<longleftrightarrow> (if bit settable n then bit arg n else bit old n)"
  by (auto simp: kernel_setfl_def bit_simps)

lemma get_plain:
  "0 \<le> fd \<Longrightarrow> FdMgr_get fd False st S = Inr (ctx_at S fd, S)"
  by (auto simp: FdMgr_get_def ctx_at_def)

lemma ctx_at_put:
  "0 \<le> fd \<Longrightarrow> nat fd < length (hk_datas S) \<Longrightarrow> ctx_at (put_fd fd c S) fd' = (if fd' = fd then c else ctx_at S fd')"
  by (auto simp: ctx_at_def put_fd_def nth_list_update)

lemma hk_flags_put [simp]: "hk_flags (put_fd fd c S) = hk_flags S"
  by (simp add: put_fd_def)

lemma hk_enable_put [simp]: "hk_enable (put_fd fd c S) = hk_enable S" "hk_enable (fcntl_f_setfl fd arg S) = hk_enable S"
  by (simp_all add: put_fd_def fcntl_f_setfl_def)

lemma length_put [simp]: "length (hk_datas (put_fd fd c S)) = length (hk_datas S)"
  by (simp add: put_fd_def)

lemma setfl_fields [simp]:
  "hk_datas (fcntl_f_setfl fd arg S) = hk_datas S" "ctx_at (fcntl_f_setfl fd arg S) = ctx_at S"
  "hk_flags (fcntl_f_setfl fd arg S) = (hk_flags S)(fd := kernel_setfl (hk_flags S fd) arg)"
  by (simp_all add: fcntl_f_setfl_def ctx_at_def fun_eq_iff)

lemma ctx_at_Some: "ctx_at S fd = Some c \<Longrightarrow> 0 \<le> fd \<and> nat fd < length (hk_datas S)"
  by (simp add: ctx_at_def split: if_splits)

lemma hook_flags_kept:
  assumes "hook_ok S" and "0 \<le> fd"
  shows "hook_getfl fd S = Inr (seen_flags S fd) \<and>
    (\<exists>S'. hook_setfl fd arg S = Inr S' \<and> hook_ok S' \<and>
      seen_flags S' = (seen_flags S)(fd := kernel_setfl (seen_flags S fd) arg))"
proof (cases "ctx_at S fd")
  case None
  have "hook_ok (fcntl_f_setfl fd arg S)" using assms(1) None by (auto simp: hook_ok_def)
  then show ?thesis using assms(2) None
    by (simp add: hook_getfl_def hook_setfl_def get_plain seen_flags_def Let_def fun_eq_iff split: option.split)
next
  case (Some c)
  note i = ctx_at_Some [OF Some]
  have c: "\<not> fx_closed c" "fx_sysNonblock c = fx_socket c" "fx_socket c \<longrightarrow> bit (hk_flags S fd) 11"
    using assms(1) Some unfolding hook_ok_def by blast+
  show ?thesis
  proof (cases "fx_socket c")
    case False
    have "hook_ok (fcntl_f_setfl fd arg S)" using assms(1) Some False by (auto simp: hook_ok_def)
    then show ?thesis using assms(2) Some False
      by (simp add: hook_getfl_def hook_setfl_def get_plain seen_flags_def Let_def fun_eq_iff split: option.split)
  next
    case True
    let ?c = "c\<lparr>fx_userNonblock := (arg AND O_NONBLOCK \<noteq> 0)\<rparr>"
    define S' where "S' = fcntl_f_setfl fd (arg OR O_NONBLOCK) (put_fd fd (Some ?c) S)"
    have S': "hook_setfl fd arg S = Inr S'"
      using assms(2) Some True c by (simp add: hook_setfl_def get_plain Let_def S'_def)
    have at: "ctx_at S' fd' = (if fd' = fd then Some ?c else ctx_at S fd')" for fd'
      using ctx_at_put [OF conjunct1 [OF i] conjunct2 [OF i]] by (simp add: S'_def)
    have fl: "hk_flags S' = (hk_flags S)(fd := kernel_setfl (hk_flags S fd) (arg OR O_NONBLOCK))" by (simp add: S'_def)
    have b: "bit (kernel_setfl (hk_flags S fd) (arg OR O_NONBLOCK)) 11"
      by (simp add: bit_kernel_setfl settable_NONBLOCK bit_or_iff O_NONBLOCK_bit)
    have ok: "hook_ok S'"
      using assms(1) c b True unfolding hook_ok_def at fl by (auto simp: S'_def)
    have seen: "seen_flags S' fd = kernel_setfl (seen_flags S fd) arg"
    proof (rule bit_word_eqI)
      fix n assume n: "n < LENGTH(32)"
      have "seen_flags S' fd = (kernel_setfl (hk_flags S fd) (arg OR O_NONBLOCK) AND NOT O_NONBLOCK) OR (if bit arg 11 then O_NONBLOCK else 0)"
        using at fl True by (simp add: seen_flags_def and_NONBLOCK)
      then show "bit (seen_flags S' fd) n = bit (kernel_setfl (seen_flags S fd) arg) n"
        using n Some True settable_NONBLOCK
        by (cases "n = 11") (auto simp: seen_flags_def bit_simps bit_kernel_setfl O_NONBLOCK_bit)
    qed
    have "seen_flags S' = (seen_flags S)(fd := kernel_setfl (seen_flags S fd) arg)"
    proof (rule ext)
      fix fd'
      show "seen_flags S' fd' = ((seen_flags S)(fd := kernel_setfl (seen_flags S fd) arg)) fd'"
        using seen by (cases "fd' = fd") (simp_all add: seen_flags_def at fl split: option.split)
    qed
    moreover have "hook_getfl fd S = Inr (seen_flags S fd)"
    proof -
      have "hk_flags S fd OR O_NONBLOCK = (hk_flags S fd AND NOT O_NONBLOCK) OR O_NONBLOCK"
        by (rule bit_word_eqI) (auto simp: bit_simps)
      then show ?thesis using assms(2) Some True c by (simp add: hook_getfl_def get_plain Let_def seen_flags_def)
    qed
    ultimately show ?thesis using S' ok by blast
  qed
qed

section \<open>Sockets never block a thread\<close>

text \<open>What programs do with descriptors while the interposition is on. The kernel hands out only descriptors that are not open, so closing and
  opening go through the calls below.\<close>

datatype fd_call = NewSocket int "32 word" "bool option" | CloseFd int | SetFlags int "32 word" | SetTimeout int bool int int

fun fd_step :: "fd_call \<Rightarrow> hook_state \<Rightarrow> hook_state res" where
  "fd_step (NewSocket fd fl st) S =
     (if 0 \<le> fd \<and> ctx_at S fd = None then rbind (hook_socket fd fl st S) (\<lambda>(_, S). Inr S) else Inr S)"
| "fd_step (CloseFd fd) S = (if 0 \<le> fd then rbind (hook_close fd True None S) (\<lambda>(_, S). Inr S) else Inr S)"
| "fd_step (SetFlags fd arg) S = (if 0 \<le> fd then hook_setfl fd arg S else Inr S)"
| "fd_step (SetTimeout fd rcv sec usec) S = (if 0 \<le> fd then hook_settimeo fd rcv sec usec S else Inr S)"

fun fd_run :: "fd_call list \<Rightarrow> hook_state \<Rightarrow> hook_state res" where
  "fd_run [] S = Inr S"
| "fd_run (k # ks) S = rbind (fd_step k S) (fd_run ks)"

lemma get_create:
  assumes "hook_ok S" and "0 \<le> fd" and "ctx_at S fd = None"
  obtains c S' where "FdMgr_get fd True st S = Inr (Some c, S')" and "hook_ok S'" and "hk_enable S' = hk_enable S"
proof -
  obtain c T where n: "new_fd_ctx fd st S = (c, T)" by fastforce
  have c: "\<not> fx_closed c" "fx_sysNonblock c = fx_socket c" and T: "hk_datas T = hk_datas S" "hk_enable T = hk_enable S"
    and fl: "\<And>fd'. fd' \<noteq> fd \<Longrightarrow> hk_flags T fd' = hk_flags S fd'"
    using n by (auto simp: new_fd_ctx_def Let_def split: if_splits)
  have b: "bit (hk_flags T fd) 11" if "fx_socket c"
    using n that and_NONBLOCK [of "hk_flags S fd"]
    by (auto simp: new_fd_ctx_def Let_def bit_kernel_setfl settable_NONBLOCK bit_or_iff O_NONBLOCK_bit split: if_splits)
  define D where "D = (if length (hk_datas S) \<le> nat fd
    then hk_datas S @ replicate (nat (fd + fd div 2) - length (hk_datas S)) None else hk_datas S)"
  have l: "64 \<le> length (hk_datas S)" using assms(1) by (simp add: hook_ok_def)
  have lt: "nat fd < length D" "length (hk_datas S) \<le> length D" using l assms(2) by (auto simp: D_def)
  have Dn: "D ! n = (if n < length (hk_datas S) then hk_datas S ! n else None)" if "n < length D" for n
    using that by (auto simp: D_def nth_append intro!: nth_replicate split: if_splits)
  define S' where "S' = put_fd fd (Some c) (T\<lparr>hk_datas := D\<rparr>)"
  have tu: "T\<lparr>hk_datas := hk_datas S\<rparr> = T" using T(1) by (cases T) simp
  have "FdMgr_get fd True st S = Inr (Some c, S')"
    using assms(2,3) n T by (auto simp: tu FdMgr_get_def ctx_at_def S'_def D_def Let_def not_less split: if_splits)
  moreover have at: "ctx_at S' fd' = (if fd' = fd then Some c else ctx_at S fd')" for fd'
    using lt assms(2) by (auto simp: S'_def ctx_at_def put_fd_def nth_list_update Dn split: if_splits)
  have "hook_ok S'" unfolding hook_ok_def
  proof (intro conjI allI impI)
    fix fd' d assume d: "ctx_at S' fd' = Some d"
    have old: "\<not> fx_closed d \<and> fx_sysNonblock d = fx_socket d \<and> (fx_socket d \<longrightarrow> bit (hk_flags S fd') 11)" if "fd' \<noteq> fd"
      using assms(1) d at [of fd'] that by (auto simp: hook_ok_def)
    show "\<not> fx_closed d" "fx_sysNonblock d = fx_socket d" using d at [of fd'] c old by (auto split: if_splits)
    show "bit (hk_flags S' fd') 11" if "fx_socket d"
      using d at [of fd'] b old fl [of fd'] that by (cases "fd' = fd") (auto simp: S'_def)
  qed (use l lt in \<open>simp add: S'_def\<close>)
  moreover have "hk_enable S' = hk_enable S" by (simp add: S'_def T)
  ultimately show ?thesis by (rule that)
qed

lemma put_ok:
  assumes "hook_ok S" and "ctx_at S fd = Some c"
    and "case d of None \<Rightarrow> True | Some d \<Rightarrow> fx_closed d = fx_closed c \<and> fx_sysNonblock d = fx_sysNonblock c \<and> fx_socket d = fx_socket c"
  shows "hook_ok (put_fd fd d S)"
proof -
  note i = ctx_at_Some [OF assms(2)]
  have c: "\<not> fx_closed c \<and> fx_sysNonblock c = fx_socket c \<and> (fx_socket c \<longrightarrow> bit (hk_flags S fd) 11)"
    using assms(1,2) unfolding hook_ok_def by blast
  show ?thesis using assms(1,3) c unfolding hook_ok_def ctx_at_put [OF conjunct1 [OF i] conjunct2 [OF i]]
    by (auto split: if_splits)
qed

lemma fd_step_ok:
  assumes "hook_ok S" and "hk_enable S"
  obtains S' where "fd_step k S = Inr S'" and "hook_ok S'" and "hk_enable S'"
proof (cases k)
  case (NewSocket fd fl st)
  show ?thesis
  proof (cases "0 \<le> fd \<and> ctx_at S fd = None")
    case True
    let ?T = "S\<lparr>hk_flags := (hk_flags S)(fd := fl)\<rparr>"
    have at: "ctx_at ?T = ctx_at S" by (simp add: ctx_at_def fun_eq_iff)
    have "hook_ok ?T" using assms(1) True unfolding hook_ok_def at by auto
    then obtain c S' where "FdMgr_get fd True st ?T = Inr (Some c, S')" "hook_ok S'" "hk_enable S' = hk_enable ?T"
      using get_create [of ?T fd st] True at by (metis fun_cong)
    then show ?thesis using that [of S'] True NewSocket assms(2) by (simp add: hook_socket_def Let_def)
  next
    case False
    then show ?thesis using NewSocket assms by (intro that [of S]) auto
  qed
next
  case (CloseFd fd)
  show ?thesis
  proof (cases "0 \<le> fd")
    case True
    show ?thesis
    proof (cases "ctx_at S fd")
      case None
      then show ?thesis using that [of S] True CloseFd assms by (simp add: hook_close_def get_plain)
    next
      case (Some c)
      note i = ctx_at_Some [OF Some]
      have "FdMgr_del fd S = Inr (put_fd fd None S)" using i True by (simp add: FdMgr_del_def)
      moreover have "hook_ok (put_fd fd None S)" by (rule put_ok [OF assms(1) Some]) simp
      ultimately show ?thesis using that [of "put_fd fd None S"] True Some CloseFd assms(2)
        by (simp add: hook_close_def get_plain)
    qed
  qed (use that [of S] CloseFd assms in simp)
next
  case (SetFlags fd arg)
  show ?thesis
  proof (cases "0 \<le> fd")
    case True
    then obtain S' where s: "hook_setfl fd arg S = Inr S'" "hook_ok S'" using hook_flags_kept [OF assms(1), of fd arg] by blast
    have "hk_enable S' = hk_enable S"
      using s(1) True by (auto simp: hook_setfl_def get_plain Let_def split: option.splits if_splits)
    then show ?thesis using that [of S'] s True SetFlags assms(2) by simp
  qed (use that [of S] SetFlags assms in simp)
next
  case (SetTimeout fd rcv sec usec)
  show ?thesis
  proof (cases "0 \<le> fd")
    case True
    show ?thesis
    proof (cases "ctx_at S fd")
      case None
      then show ?thesis using that [of S] True SetTimeout assms by (simp add: hook_settimeo_def get_plain)
    next
      case (Some c)
      let ?d = "setTimeout rcv (timeval_ms sec usec) c"
      have "hook_ok (put_fd fd (Some ?d) S)" by (rule put_ok [OF assms(1) Some]) (simp add: setTimeout_def)
      then show ?thesis using that [of "put_fd fd (Some ?d) S"] True Some SetTimeout assms(2)
        by (simp add: hook_settimeo_def get_plain)
    qed
  qed (use that [of S] SetTimeout assms in simp)
qed

lemma fd_run_ok:
  "hook_ok S \<Longrightarrow> hk_enable S \<Longrightarrow> \<exists>S'. fd_run ks S = Inr S' \<and> hook_ok S' \<and> hk_enable S'"
proof (induction ks arbitrary: S)
  case (Cons k ks)
  obtain T where "fd_step k S = Inr T" "hook_ok T" "hk_enable T" by (rule fd_step_ok [OF Cons.prems])
  then show ?case using Cons.IH by simp
qed simp

lemma new_hook_state_ok: "hook_ok new_hook_state" "hk_enable new_hook_state"
  by (simp_all add: hook_ok_def new_hook_state_def ctx_at_def nth_Cons')


lemma one_socket_run:
  "fd_run [NewSocket 5 2 (Some True)] new_hook_state =
     Inr (put_fd 5 (Some \<lparr>fx_init = True, fx_socket = True, fx_sysNonblock = True, fx_userNonblock = False, fx_closed = False,
        fx_fd = 5, fx_recvTimeout = NOT 0, fx_sendTimeout = NOT 0\<rparr>) (new_hook_state\<lparr>hk_flags := (\<lambda>_. 2)(5 := 0x802)\<rparr>))"
proof -
  have "ctx_at new_hook_state 5 = None" by (simp add: ctx_at_def new_hook_state_def nth_Cons')
  moreover have "kernel_setfl 2 (2 OR O_NONBLOCK) = 0x802" by (simp add: kernel_setfl_def settable_def O_NONBLOCK_def)
  ultimately show ?thesis
    by (simp add: hook_socket_def FdMgr_get_def new_fd_ctx_def Let_def new_hook_state_def fcntl_f_setfl_def O_NONBLOCK_def put_fd_def
      nth_Cons')
qed


text \<open>No thread is blocked by a socket. After any history of descriptors opened, closed and configured while the interposition is on, no call
  is undefined and every socket on record is in non-blocking mode in the kernel, whatever the program has asked for.\<close>

theorem sockets_never_block:
  "\<exists>S. fd_run ks new_hook_state = Inr S \<and>
     {fd. \<exists>c. ctx_at S fd = Some c \<and> fx_socket c} \<subseteq> {fd. bit (hk_flags S fd) 11}"
  using fd_run_ok [OF new_hook_state_ok, of ks] unfolding hook_ok_def by blast

text \<open>Two ways out of it. \<open>ioctl(FIONBIO)\<close> clears the mode in the kernel, unlike \<open>fcntl\<close>; and a descriptor closed by a thread without the
  interposition leaves its context behind, so the next socket with the same number stays in blocking mode and keeps the old settings.\<close>

theorem sockets_may_block:
  "(\<exists>S S' c. fd_run [NewSocket 5 2 (Some True)] new_hook_state = Inr S \<and> hook_fionbio 5 False S = Inr S' \<and>
      ctx_at S' 5 = Some c \<and> fx_sysNonblock c \<and> \<not> fx_userNonblock c \<and> hk_flags S' 5 AND O_NONBLOCK = 0) \<and>
   (\<exists>S S' S'' c. fd_run [NewSocket 5 2 (Some True), SetFlags 5 0x800] new_hook_state = Inr S \<and>
      hook_close 5 True None (S\<lparr>hk_enable := False\<rparr>) = Inr (None, S') \<and>
      hook_socket 5 2 (Some True) (S'\<lparr>hk_enable := True\<rparr>) = Inr (5, S'') \<and>
      ctx_at S'' 5 = Some c \<and> fx_sysNonblock c \<and> fx_userNonblock c \<and> hk_flags S'' 5 AND O_NONBLOCK = 0)"
proof -
  obtain S where S: "fd_run [NewSocket 5 2 (Some True)] new_hook_state = Inr S" using one_socket_run by blast
  note e = one_socket_run [unfolded S, simplified]
  have two: "fd_run [NewSocket 5 2 (Some True), SetFlags 5 0x800] new_hook_state = fd_run [SetFlags 5 0x800] S"
    using S by (auto simp: rbind_eq_Inr)
  show ?thesis unfolding S two
    by (simp add: e hook_fionbio_def hook_setfl_def hook_close_def hook_socket_def FdMgr_get_def ctx_at_def put_fd_def new_hook_state_def
      fcntl_f_setfl_def Let_def O_NONBLOCK_def kernel_setfl_def settable_def)
qed

section \<open>Calls that wait\<close>

definition turn_ok :: "turn \<Rightarrow> bool" where
  "turn_ok t \<longleftrightarrow> io_ok (tn_after t) \<and> tm_wf (io_timers (tn_after t)) \<and> tn_cancelled t \<in> {0, ETIMEDOUT} \<and>
     tn_errno t \<notin> {EINTR, EAGAIN}"

lemma attempt_done: "first_attempt rs = Some (n, e) \<Longrightarrow> \<not> (n = - 1 \<and> e = EINTR)"
  by (induction rs) (auto split: if_splits)

lemma addEvent_timers:
  assumes "addEvent fd ev cb cur ok M = Inr (rt, M')"
  shows "io_timers M' = io_timers M"
proof -
  have a: "io_timers M' = io_timers M" if "add_to_ctx a fd ev cb cur ok M = Inr (rt, M')" for a M
    using that by (auto simp: add_to_ctx_def Let_def put_ctx_def split: if_splits option.splits)
  have g: "io_timers N = io_timers M" if "fd_grow fd M = Inr (a, N)" for a N
    using that by (auto simp: fd_grow_def Let_def contextResize_def split: if_splits)
  obtain r where r: "fd_lookup fd M = Inr r" using assms by (auto simp: addEvent_def rbind_eq_Inr)
  show ?thesis
  proof (cases r)
    case (Some x)
    then show ?thesis using assms r a by (simp add: addEvent_def)
  next
    case None
    then obtain x N where "fd_grow fd M = Inr (x, N)" "add_to_ctx x fd ev cb cur ok N = Inr (rt, M')"
      using assms r by (auto simp: addEvent_def rbind_eq_Inr)
    then show ?thesis using a g by metis
  qed
qed

lemma arm_timer_ok:
  assumes "io_ok M" and "tm_wf (io_timers M)" and "t_cb (tm_store (io_timers M) a) = None"
  shows "io_ok (arm_timer a to cb now M)" "tm_wf (io_timers (arm_timer a to cb now M))"
proof -
  obtain T f where t: "addTimer a to cb False now (io_timers M) = (T, f)" by fastforce
  have "tm_wf T" using addTimer_wf [OF assms(2,3), of to cb False now] t by simp
  moreover have "same_contexts M (arm_timer a to cb now M)"
    using t by (simp add: arm_timer_def same_contexts_def tickle_def Let_def)
  ultimately show "io_ok (arm_timer a to cb now M)" "tm_wf (io_timers (arm_timer a to cb now M))"
    using assms(2) t same_contexts_ok [OF assms(1)] by (simp_all add: arm_timer_def tickle_def Let_def)
qed

lemma disarm_timer_ok:
  assumes "io_ok M" and "tm_wf (io_timers M)"
  obtains M' where "disarm_timer a to M = Inr M'" and "io_ok M'" and "tm_wf (io_timers M')"
    and "to = NOT 0 \<or> a \<notin> set (tm_timers (io_timers M'))"
proof (cases "to = NOT 0")
  case True
  then show ?thesis using that [of M] assms by (simp add: disarm_timer_def)
next
  case False
  obtain r T where c: "cancel a (io_timers M) = Inr (r, T)" "tm_wf T" "set (tm_timers T) = set (tm_timers (io_timers M)) - {a}"
    by (rule cancel_wf [OF assms(2), of a]) blast
  have "io_ok (M\<lparr>io_timers := T\<rparr>)" by (rule same_contexts_ok [OF assms(1)]) (simp add: same_contexts_def)
  then show ?thesis using that [of "M\<lparr>io_timers := T\<rparr>"] c False by (simp add: disarm_timer_def)
qed

lemma do_io_loop_ok:
  assumes "alloc_law alloc"
  shows "list_all turn_ok ts \<Longrightarrow> io_ok M \<Longrightarrow> tm_wf (io_timers M) \<Longrightarrow>
    do_io_loop alloc fd ev cur cb to ts M = Inr (Some (n, e, M')) \<Longrightarrow>
    io_ok M' \<and> tm_wf (io_timers M') \<and> \<not> (n = - 1 \<and> e \<in> {EINTR, EAGAIN})"
proof (induction ts arbitrary: M)
  case (Cons t ts)
  have t: "turn_ok t" using Cons.prems(1) by simp
  obtain n1 e1 where a: "first_attempt (tn_results t) = Some (n1, e1)" using Cons.prems(4) by (auto split: option.splits)
  show ?case
  proof (cases "n1 = - 1 \<and> e1 = EAGAIN")
    case False
    then have "n = n1" "e = e1" "M' = M" using Cons.prems(4) a by auto
    then show ?thesis using Cons.prems(2,3) False attempt_done [OF a] by auto
  next
    case True
    define x where "x = alloc (io_timers M)"
    have x: "t_cb (tm_store (io_timers M) x) = None" using assms Cons.prems(3) tm_wf_member [OF Cons.prems(3)] by (auto simp: alloc_law_def x_def)
    define A where "A = arm_timer x to cb (tn_now t) M"
    have A: "io_ok A" "tm_wf (io_timers A)" unfolding A_def by (rule arm_timer_ok [OF Cons.prems(2,3) x])+
    obtain rt N where N: "addEvent fd ev None cur (tn_ok t) A = Inr (rt, N)"
      using Cons.prems(4) a True by (auto simp: Let_def A_def x_def rbind_eq_Inr)
    have Nok: "io_ok N" "tm_wf (io_timers N)" using addEvent_ok [OF A(1) N] addEvent_timers [OF N] A(2) by simp_all
    show ?thesis
    proof (cases "rt = 0")
      case False
      obtain D where "disarm_timer x to N = Inr D" "io_ok D" "tm_wf (io_timers D)" by (rule disarm_timer_ok [OF Nok])
      moreover from this have "n = - 1 \<and> e = tn_errno t \<and> M' = D"
        using Cons.prems(4) a True N False by (simp add: Let_def A_def [symmetric] x_def [symmetric])
      ultimately show ?thesis using t by (simp add: turn_ok_def)
    next
      case rt: True
      have "io_ok (tn_after t)" "tm_wf (io_timers (tn_after t))" using t by (simp_all add: turn_ok_def)
      then obtain D where D: "disarm_timer x to (tn_after t) = Inr D" "io_ok D" "tm_wf (io_timers D)" by (rule disarm_timer_ok)
      have go: "(if tn_cancelled t \<noteq> 0 then Inr (Some (- 1, tn_cancelled t, D)) else do_io_loop alloc fd ev cur cb to ts D) =
          Inr (Some (n, e, M'))"
        using Cons.prems(4) a True N rt D(1) by (simp add: Let_def A_def [symmetric] x_def [symmetric])
      show ?thesis
      proof (cases "tn_cancelled t = 0")
        case True
        then show ?thesis using go Cons.IH [of D] Cons.prems(1) D by simp
      next
        case False
        then show ?thesis using go D t by (auto simp: turn_ok_def ETIMEDOUT_def EINTR_def EAGAIN_def)
      qed
    qed
  qed
qed simp

text \<open>C31: a call on a blocking socket looks blocking to the program. Whatever the rounds of waiting bring, if \<open>do_io\<close> returns it does not report an
  interruption or that it would block, and it leaves the bookkeeping of events and timers in order. (\<^verbatim>\<open>epoll_ctl\<close> does not fail with these two
  errors, and in between the other threads keep the IO manager in order.)\<close>

theorem do_io_looks_blocking:
  assumes "alloc_law alloc" and "list_all turn_ok ts" and "io_ok M" and "tm_wf (io_timers M)" and "hk_enable S" and "hook_ok S"
    and "ctx_at S fd = Some c" and "fx_socket c" and "\<not> fx_userNonblock c"
    and "do_io alloc fd ev rcv cur cb direct ts S M = Inr (Some (n, e, M'))"
  shows "\<not> (n = - 1 \<and> e \<in> {EINTR, EAGAIN}) \<and> io_ok M' \<and> tm_wf (io_timers M')"
proof -
  have "\<not> fx_closed c" using assms(6,7) by (auto simp: hook_ok_def)
  moreover have "0 \<le> fd" using ctx_at_Some [OF assms(7)] by simp
  ultimately have "do_io_loop alloc fd ev cur cb (getTimeout rcv c) ts M = Inr (Some (n, e, M'))"
    using assms(5,7-) by (simp add: do_io_def get_plain)
  from do_io_loop_ok [OF assms(1-4) this] show ?thesis by blast
qed

text \<open>A read of descriptor 5 that is told to try again once and then gets 3 bytes.\<close>

definition one_wait :: "turn list" where
  "one_wait =
     [\<lparr>tn_results = [(- 1, EINTR), (- 1, EAGAIN)], tn_now = 0, tn_ok = True, tn_errno = 0, tn_after = new_io_manager 0, tn_cancelled = 0\<rparr>,
      \<lparr>tn_results = [(3, 0)], tn_now = 0, tn_ok = True, tn_errno = 0, tn_after = new_io_manager 0, tn_cancelled = 0\<rparr>]"

theorem do_io_looks_blocking_witness:
  "\<exists>S M M' n e. do_io next_address 5 READ True 0 9 (0, 0) one_wait S M = Inr (Some (n, e, M')) \<and>
     \<not> (n = - 1 \<and> e \<in> {EINTR, EAGAIN}) \<and> io_ok M'"
proof -
  obtain S where S: "fd_run [NewSocket 5 2 (Some True)] new_hook_state = Inr S" using one_socket_run by blast
  note e = one_socket_run [unfolded S, simplified]
  obtain c where c: "ctx_at S 5 = Some c" "fx_socket c" "\<not> fx_userNonblock c" "getTimeout True c = NOT 0"
    by (simp add: e ctx_at_def put_fd_def new_hook_state_def getTimeout_def)
  have ok: "hook_ok S" "hk_enable S" using fd_run_ok [OF new_hook_state_ok, of "[NewSocket 5 2 (Some True)]"] S by auto
  define M where "M = new_io_manager 0\<lparr>io_sched := one_running\<rparr>"
  have mok: "io_ok M" by (rule same_contexts_ok [OF new_io_manager_ok [of 0]]) (simp add: M_def same_contexts_def)
  have wf: "tm_wf (io_timers (new_io_manager now))" for now
    by (simp add: new_io_manager_def contextResize_def Let_def new_timer_manager_wf)
  then have mwf: "tm_wf (io_timers M)" by (simp add: M_def)
  have turns: "list_all turn_ok one_wait" using wf new_io_manager_ok
    by (simp add: one_wait_def turn_ok_def EINTR_def EAGAIN_def)
  obtain rt N where add: "addEvent 5 READ None 0 True M = Inr (0, N)"
    by (simp add: M_def addEvent_def fd_lookup_def add_to_ctx_def Let_def new_io_manager_def contextResize_def new_fd_context_def
      resetEventContext_def epoll_ctl_def put_ctx_def getEventContext_def one_running_def)
  have r: "do_io next_address 5 READ True 0 9 (0, 0) one_wait S M = Inr (Some (3, 0, new_io_manager 0))"
    using c ok add by (simp add: do_io_def get_plain one_wait_def arm_timer_def disarm_timer_def EINTR_def EAGAIN_def hook_ok_def Let_def
      del: READ_def)
  from do_io_looks_blocking [OF next_address_law turns mok mwf ok(2,1) c(1-3) r] r show ?thesis by blast
qed

text \<open>A timeout can be lost. The timer is set before the event is registered; if it fires in between, its callback finds no event to cancel, the event is
  registered afterwards, and the fiber then waits with no timer left: only the peer can wake it.\<close>

theorem timeout_lost:
  "\<exists>M M' N. M = new_io_manager 0\<lparr>io_sched := one_running\<rparr> \<and> timer_callback 5 READ True 0 M = Inr (ETIMEDOUT, M') \<and>
     addEvent 5 READ None 0 True M' = Inr (0, N) \<and> fc_events (io_store N 5) = READ \<and> tm_timers (io_timers N) = [] \<and>
     timer_callback 5 READ True ETIMEDOUT N = Inr (ETIMEDOUT, N)"
  by (simp add: timer_callback_def cancelEvent_def addEvent_def fd_lookup_def add_to_ctx_def Let_def new_io_manager_def contextResize_def
    new_fd_context_def resetEventContext_def epoll_ctl_def put_ctx_def getEventContext_def one_running_def new_timer_manager_def
    ETIMEDOUT_def)

lemma unat_widened: "unat (ucast (w :: 32 word) :: 64 word) = unat w"
proof -
  have "unat w < 2 ^ 64" using unsigned_less [of w, where ?'a = nat] by simp
  then show ?thesis by (simp add: unsigned_ucast_eq take_bit_nat_eq_self)
qed

text \<open>How long the sleeping calls sleep. \<open>sleep\<close> is exact up to 4294967 seconds (49.7 days) and then falls short by multiples of that;
  \<open>usleep\<close> rounds down to milliseconds, so less than one does not sleep at all.\<close>

theorem sleep_times:
  "unat (sleep_ms s) = unat s * 1000 mod 2 ^ 32 \<and> unat (usleep_ms u) = unat u div 1000 \<and>
   unat (sleep_ms 4294967) = 4294967000 \<and> unat (sleep_ms 4294968) = 704 \<and> usleep_ms 999 = 0"
proof -
  have "unat (sleep_ms s) = unat (s * 1000)" by (simp add: sleep_ms_def unat_widened)
  moreover have "unat (s * 1000) = unat s * 1000 mod 2 ^ 32" by (simp add: unat_word_ariths)
  moreover have "unat (usleep_ms u) = unat (u div 1000)" by (simp add: usleep_ms_def unat_widened)
  moreover have "unat (u div 1000) = unat u div 1000" by (simp add: unat_div)
  ultimately show ?thesis by (simp add: sleep_ms_def usleep_ms_def)
qed

text \<open>Switching a timeout off makes every wait fail. The program asks for no timeout with a \<^verbatim>\<open>timeval\<close> of zero; the table then keeps a
  timeout of zero milliseconds, for which \<open>do_io\<close> arms a timer that is due at once.\<close>

theorem zero_timeout_expires:
  "getTimeout rcv (setTimeout rcv (timeval_ms 0 0) c) = 0 \<and>
   t_next (tm_store (io_timers (arm_timer a 0 cb now M)) a) = now"
  by (simp add: getTimeout_def setTimeout_def timeval_ms_def arm_timer_def addTimer_def insert_timer_def put_timer_def new_timer_def
    Let_def tickle_def)

end
