(* ===== verification/HttpClient.thy ===== *)
theory HttpClient
  imports Session Address Pool
begin

text \<open>
  The HTTP client: \<open>Uri\<close> (\<^verbatim>\<open>sylar/uri.cc\<close>), \<open>HttpConnection\<close> and \<open>HttpConnectionPool\<close> (\<^verbatim>\<open>sylar/http/http_connection.cc\<close>).
  The library that takes a URL apart, the resolver and the socket calls are arguments; a connection is what its
  stream answers to writes and reads. A call of the pool is a program counter, as for the database pools.
\<close>

section \<open>URIs\<close>

record uri =
  u_scheme :: string
  u_userinfo :: string
  u_host :: string
  u_port :: int
  u_path :: string
  u_query :: string
  u_fragment :: string

text \<open>The fields that the library finds, \<open>None\<close> those not in \<open>field_set\<close>.\<close>

record url_parts =
  up_schema :: "string option"
  up_userinfo :: "string option"
  up_host :: "string option"
  up_port :: "string option"
  up_path :: "string option"
  up_query :: "string option"
  up_fragment :: "string option"

definition given :: "string option \<Rightarrow> string" where
  "given x = (case x of None \<Rightarrow> [] | Some s \<Rightarrow> s)"

definition new_uri :: uri where
  "new_uri = \<lparr>u_scheme = [], u_userinfo = [], u_host = [], u_port = 0, u_path = [], u_query = [], u_fragment = []\<rparr>"

definition Uri_Create :: "(string \<Rightarrow> url_parts option) \<Rightarrow> string \<Rightarrow> uri option res" where
  "Uri_Create parse_url urlstr =
     (case parse_url urlstr of
        None \<Rightarrow> Inr None
      | Some p \<Rightarrow>
          let scheme = given (up_schema p)
          in rbind
               (case up_port p of
                  Some s \<Rightarrow> stoi s
                | None \<Rightarrow> Inr (if scheme = ''http'' \<or> scheme = ''ws'' then 80 else if scheme = ''https'' then 443 else 0))
               (\<lambda>port. Inr (Some \<lparr>u_scheme = scheme, u_userinfo = given (up_userinfo p), u_host = given (up_host p),
                  u_port = port, u_path = given (up_path p), u_query = given (up_query p),
                  u_fragment = given (up_fragment p)\<rparr>)))"

definition uri_getPort :: "uri \<Rightarrow> int" where
  "uri_getPort u =
     (if u_port u \<noteq> 0 then u_port u
      else if u_scheme u = ''http'' \<or> u_scheme u = ''ws'' then 80
      else if u_scheme u = ''https'' \<or> u_scheme u = ''wss'' then 443
      else u_port u)"

definition uri_getPath :: "uri \<Rightarrow> string" where
  "uri_getPath u = (if u_path u = [] then ''/'' else u_path u)"

definition isDefaultPort :: "uri \<Rightarrow> bool" where
  "isDefaultPort u =
     (if u_scheme u = ''http'' \<or> u_scheme u = ''ws'' then u_port u = 80
      else if u_scheme u = ''https'' then u_port u = 443 else False)"

definition marked :: "string \<Rightarrow> string \<Rightarrow> string" where
  "marked mark s = (if s = [] then [] else mark) @ s"

definition uri_toString :: "uri \<Rightarrow> string" where
  "uri_toString u =
     u_scheme u @ ''://'' @ u_userinfo u @ (if u_userinfo u = [] then [] else ''@'') @ u_host u @
     (if isDefaultPort u then [] else '':'' @ show_int (u_port u)) @ uri_getPath u @ marked ''?'' (u_query u) @ marked ''#'' (u_fragment u)"

definition createAddress :: "resolver \<Rightarrow> uri \<Rightarrow> address option" where
  "createAddress G u = map_option (setPort (word_of_int (uri_getPort u))) (LookupAnyIPAddress G (u_host u))"

section \<open>Requests\<close>

datatype http_error =
    OK_RESULT
  | INVALID_URL
  | INVALID_HOST
  | CONNECT_FAIL
  | SEND_CLOSE_BY_PEER
  | SEND_SOCKET_ERROR
  | TIMEOUT
  | CREATE_SOCKET_ERROR
  | POOL_GET_CONNECTION
  | POOL_INVALID_CONNECTION

record http_result =
  hr_result :: http_error
  hr_response :: "http_response option"
  hr_error :: string

fun error_code :: "http_error \<Rightarrow> nat" where
  "error_code OK_RESULT = 0"
| "error_code INVALID_URL = 1"
| "error_code INVALID_HOST = 2"
| "error_code CONNECT_FAIL = 3"
| "error_code SEND_CLOSE_BY_PEER = 4"
| "error_code SEND_SOCKET_ERROR = 5"
| "error_code TIMEOUT = 6"
| "error_code CREATE_SOCKET_ERROR = 7"
| "error_code POOL_GET_CONNECTION = 8"
| "error_code POOL_INVALID_CONNECTION = 9"

definition HttpResult_toString :: "http_result \<Rightarrow> string" where
  "HttpResult_toString r =
     ''[HttpResult result='' @ show_nat (error_code (hr_result r)) @ '' error='' @ hr_error r @ '' response='' @
     (case hr_response r of None \<Rightarrow> ''nullptr'' | Some rsp \<Rightarrow> rsp_dump rsp) @ '']''"

definition failure :: "http_error \<Rightarrow> string \<Rightarrow> http_result" where
  "failure e msg = \<lparr>hr_result = e, hr_response = None, hr_error = msg\<rparr>"

text \<open>The loop over the headers, a sorted map; a name or value is compared up to its first null byte.\<close>

fun add_headers :: "(string \<times> string) list \<Rightarrow> bool \<Rightarrow> http_request \<Rightarrow> bool \<times> http_request" where
  "add_headers [] has_host req = (has_host, req)"
| "add_headers ((k, v) # hs) has_host req =
     (if strcasecmp_eq (c_str k) ''connection'' then
        add_headers hs has_host (if strcasecmp_eq (c_str v) ''keep-alive'' then req\<lparr>r_close := False\<rparr> else req)
      else
        add_headers hs (if \<not> has_host \<and> strcasecmp_eq (c_str k) ''host'' then v \<noteq> [] else has_host) (req_setHeader k v req))"

definition build_request ::
    "nat \<Rightarrow> string \<Rightarrow> string \<Rightarrow> string \<Rightarrow> (string \<times> string) list \<Rightarrow> string \<Rightarrow> string \<Rightarrow> http_request" where
  "build_request method path query fragment headers host body =
     (let req = (new_request 0x11 True)\<lparr>r_path := path, r_query := query, r_fragment := fragment, r_method := method\<rparr>
      in case add_headers headers False req of
           (has_host, req) \<Rightarrow> (if has_host then req else req_setHeader ''Host'' host req)\<lparr>r_body := body\<rparr>)"

text \<open>
  A stream: \<open>cn_write\<close> is one call of \<open>write\<close>, \<open>cn_state\<close> what it acts on, \<open>cn_reads\<close> what the calls of \<open>read\<close> bring.
\<close>

record 's stream =
  cn_write :: "string \<Rightarrow> 's \<Rightarrow> int \<times> 's"
  cn_state :: 's
  cn_reads :: "string list"

text \<open>The socket calls of a request: whether \<^verbatim>\<open>CreateTCP\<close> and \<^verbatim>\<open>connect\<close> succeed, the stream, and the error number and text of
  a failure.\<close>

record 's network =
  nw_resolver :: resolver
  nw_socket :: bool
  nw_connect :: bool
  nw_stream :: "'s stream"
  nw_errno :: "nat \<times> string"

definition sendRequest :: "http_request \<Rightarrow> 's stream \<Rightarrow> int \<times> 's" where
  "sendRequest req cn = writeFixSize (cn_write cn) (req_dump req) (cn_state cn)"

definition errno_text :: "'s network \<Rightarrow> string" where
  "errno_text N = show_nat (fst (nw_errno N)) @ '' errstr='' @ snd (nw_errno N)"

text \<open>Sending and receiving on a connection, common to both ways of asking.\<close>

definition exchange ::
    "'p parser_lib \<Rightarrow> nat \<Rightarrow> 's network \<Rightarrow> http_request \<Rightarrow> string \<Rightarrow> nat \<Rightarrow> http_result" where
  "exchange lib buff_size N req peer timeout_ms =
     (let rt = fst (sendRequest req (nw_stream N))
      in if rt = 0 then failure SEND_CLOSE_BY_PEER (''send request closed by peer: '' @ peer)
         else if rt < 0 then failure SEND_SOCKET_ERROR (''send request socket error errno='' @ errno_text N)
         else
           (case fst (recvResponse lib buff_size (cn_reads (nw_stream N))) of
              None \<Rightarrow> failure TIMEOUT (''recv response timeout: '' @ peer @ '' timeout_ms:'' @ show_nat timeout_ms)
            | Some rsp \<Rightarrow> \<lparr>hr_result = OK_RESULT, hr_response = Some rsp, hr_error = ''ok''\<rparr>))"

definition DoRequest_req ::
    "'p parser_lib \<Rightarrow> nat \<Rightarrow> 's network \<Rightarrow> http_request \<Rightarrow> uri \<Rightarrow> nat \<Rightarrow> http_result" where
  "DoRequest_req lib buff_size N req u timeout_ms =
     (case createAddress (nw_resolver N) u of
        None \<Rightarrow> failure INVALID_HOST (''invalid host: '' @ u_host u)
      | Some addr \<Rightarrow>
          if \<not> nw_socket N then
            failure CREATE_SOCKET_ERROR (''create socket fail: '' @ address_insert addr @ '' errno='' @ errno_text N)
          else if \<not> nw_connect N then failure CONNECT_FAIL (''connect fail: '' @ address_insert addr)
          else exchange lib buff_size N req (address_insert addr) timeout_ms)"

definition DoRequest_uri ::
    "'p parser_lib \<Rightarrow> nat \<Rightarrow> 's network \<Rightarrow> nat \<Rightarrow> uri \<Rightarrow> nat \<Rightarrow> (string \<times> string) list \<Rightarrow> string \<Rightarrow> http_result" where
  "DoRequest_uri lib buff_size N method u timeout_ms headers body =
     DoRequest_req lib buff_size N
       (build_request method (uri_getPath u) (u_query u) (u_fragment u) headers (u_host u) body) u timeout_ms"

definition DoRequest ::
    "'p parser_lib \<Rightarrow> nat \<Rightarrow> 's network \<Rightarrow> (string \<Rightarrow> url_parts option) \<Rightarrow> nat \<Rightarrow> string \<Rightarrow> nat \<Rightarrow> (string \<times> string) list \<Rightarrow> string \<Rightarrow>
     http_result res" where
  "DoRequest lib buff_size N parse_url method url timeout_ms headers body =
     rbind (Uri_Create parse_url url) (\<lambda>u.
       case u of
         None \<Rightarrow> Inr (failure INVALID_URL (''invalid url: '' @ url))
       | Some u \<Rightarrow> Inr (DoRequest_uri lib buff_size N method u timeout_ms headers body))"

definition GET :: nat where "GET = 1"
definition POST :: nat where "POST = 3"

definition DoGet where "DoGet lib buff_size N parse_url = DoRequest lib buff_size N parse_url GET"
definition DoPost where "DoPost lib buff_size N parse_url = DoRequest lib buff_size N parse_url POST"

section \<open>The pool\<close>

record http_pool =
  hp_host :: string
  hp_vhost :: string
  hp_port :: nat
  hp_maxAliveTime :: nat
  hp_maxRequest :: nat
  hp_conns :: "nat list"
  hp_total :: int
  hp_createTime :: "nat \<Rightarrow> nat"
  hp_request :: "nat \<Rightarrow> nat"
  hp_fresh :: nat

definition new_http_pool :: "string \<Rightarrow> string \<Rightarrow> nat \<Rightarrow> nat \<Rightarrow> nat \<Rightarrow> http_pool" where
  "new_http_pool host vhost port max_alive_time max_request =
     \<lparr>hp_host = host, hp_vhost = vhost, hp_port = port, hp_maxAliveTime = max_alive_time, hp_maxRequest = max_request,
      hp_conns = [], hp_total = 0, hp_createTime = (\<lambda>_. 0), hp_request = (\<lambda>_. 0), hp_fresh = 0\<rparr>"

text \<open>The loop under the lock: the connections found unfit, the one found, those behind it.\<close>

fun http_search :: "(nat \<Rightarrow> bool) \<Rightarrow> nat \<Rightarrow> http_pool \<Rightarrow> nat list \<Rightarrow> nat list \<times> nat option \<times> nat list" where
  "http_search connected now_ms P [] = ([], None, [])"
| "http_search connected now_ms P (c # cs) =
     (if \<not> connected c \<or> hp_createTime P c + hp_maxAliveTime P > now_ms then
        (case http_search connected now_ms P cs of (bad, r, cs) \<Rightarrow> (c # bad, r, cs))
      else ([], Some c, cs))"

text \<open>A caller: \<open>HSearched\<close> has given the lock up, \<open>HHolds\<close> has a connection, \<open>HFailed\<close> got none.\<close>

datatype http_caller = HFree | HSearched "nat list" "nat option" | HHolds nat | HFailed

definition http_take :: "(nat \<Rightarrow> bool) \<Rightarrow> nat \<Rightarrow> http_pool \<Rightarrow> http_pool \<times> http_caller" where
  "http_take connected now_ms P =
     (case http_search connected now_ms P (hp_conns P) of
        (bad, r, cs) \<Rightarrow> (P\<lparr>hp_conns := cs\<rparr>, HSearched bad r))"

definition http_connect :: "bool \<Rightarrow> nat list \<Rightarrow> nat option \<Rightarrow> http_pool \<Rightarrow> http_pool \<times> http_caller" where
  "http_connect success bad r P =
     (let P = P\<lparr>hp_total := hp_total P - int (length bad)\<rparr>
      in case r of
           Some c \<Rightarrow> (P, HHolds c)
         | None \<Rightarrow>
             if success then (P\<lparr>hp_fresh := hp_fresh P + 1, hp_total := hp_total P + 1\<rparr>, HHolds (hp_fresh P)) else (P, HFailed))"

definition ReleasePtr :: "(nat \<Rightarrow> bool) \<Rightarrow> nat \<Rightarrow> nat \<Rightarrow> http_pool \<Rightarrow> http_pool \<times> http_caller" where
  "ReleasePtr connected now_ms c P =
     (let P = P\<lparr>hp_request := (hp_request P)(c := hp_request P c + 1)\<rparr>
      in if \<not> connected c \<or> hp_createTime P c + hp_maxAliveTime P \<ge> now_ms \<or> hp_request P c \<ge> hp_maxRequest P
         then (P\<lparr>hp_total := hp_total P - 1\<rparr>, HFree)
         else (P\<lparr>hp_conns := hp_conns P @ [c]\<rparr>, HFree))"

inductive http_step :: "http_pool \<Rightarrow> http_caller \<Rightarrow> http_pool \<Rightarrow> http_caller \<Rightarrow> bool" where
  take: "http_take connected now P = (P', t) \<Longrightarrow> http_step P HFree P' t"
| connect: "http_connect success bad r P = (P', t) \<Longrightarrow> http_step P (HSearched bad r) P' t"
| release: "ReleasePtr connected now c P = (P', t) \<Longrightarrow> http_step P (HHolds c) P' t"
| give_up: "http_step P HFailed P HFree"

inductive_cases http_stepE: "http_step P t P' t'"

text \<open>\<open>doRequest\<close> of the pool: the connection it got, if any, with the network of that connection.\<close>

definition pool_doRequest_req ::
    "'p parser_lib \<Rightarrow> nat \<Rightarrow> http_pool \<Rightarrow> 's network option \<Rightarrow> bool \<Rightarrow> string \<Rightarrow> http_request \<Rightarrow> nat \<Rightarrow> http_result" where
  "pool_doRequest_req lib buff_size P conn has_socket peer req timeout_ms =
     (let where_to = ''pool host:'' @ hp_host P @ '' port:'' @ show_nat (hp_port P)
      in case conn of
           None \<Rightarrow> failure POOL_GET_CONNECTION where_to
         | Some N \<Rightarrow>
             if \<not> has_socket then failure POOL_INVALID_CONNECTION where_to
             else exchange lib buff_size N req peer timeout_ms)"

definition pool_request ::
    "http_pool \<Rightarrow> nat \<Rightarrow> string \<Rightarrow> (string \<times> string) list \<Rightarrow> string \<Rightarrow> http_request" where
  "pool_request P method url headers body =
     build_request method url [] [] headers (if hp_vhost P = [] then hp_host P else hp_vhost P) body"

definition pool_uri_text :: "uri \<Rightarrow> string" where
  "pool_uri_text u = uri_getPath u @ marked ''?'' (u_query u) @ marked ''#'' (u_fragment u)"

end
