(* ===== verification/HttpClientProps.thy ===== *)
theory HttpClientProps
  imports HttpClient
begin

text \<open>
  The HTTP client: what its pool of connections guarantees whatever its callers do and what it does not, what a
  result says about what was sent, the header that names the host, and the text of a URI.
\<close>

section \<open>The pool provides the interface\<close>

fun http_own :: "http_caller \<Rightarrow> nat list" where
  "http_own (HSearched bad r) = bad @ (case r of None \<Rightarrow> [] | Some c \<Rightarrow> [c])"
| "http_own (HHolds c) = [c]"
| "http_own _ = []"

lemma http_search_parts:
  "http_search connected now P cs = (bad, r, cs') \<Longrightarrow> cs = http_own (HSearched bad r) @ cs'"
  by (induction cs arbitrary: bad) (auto split: if_splits prod.splits)

lemma http_take_parts:
  assumes "http_take connected now P = (P', t)"
  obtains cs where "P' = P\<lparr>hp_conns := cs\<rparr>" and "hp_conns P = http_own t @ cs"
  using assms http_search_parts by (auto simp: http_take_def split: prod.splits)

lemmas http_pool_defs = http_connect_def ReleasePtr_def Let_def

lemma http_step_conns:
  assumes "http_step P t P' t'"
  shows "hp_fresh P \<le> hp_fresh P' \<and>
    set (hp_conns P') \<union> set (http_own t') \<subseteq> set (hp_conns P) \<union> set (http_own t) \<union> {hp_fresh P..<hp_fresh P'} \<and>
    (distinct (hp_conns P @ http_own t) \<longrightarrow> (\<forall>c\<in>set (hp_conns P) \<union> set (http_own t). c < hp_fresh P) \<longrightarrow>
      distinct (hp_conns P' @ http_own t'))"
  using assms
proof cases
  case (take connected now)
  from this(2) show ?thesis by (rule http_take_parts) (use take(1) in auto)
qed (auto simp: http_pool_defs split: if_splits option.splits)

interpretation http: handout http_step hp_conns http_own hp_fresh
  by unfold_locales (use http_step_conns in blast)+

section \<open>The invariant\<close>

definition open_conns :: "http_pool \<times> http_caller list \<Rightarrow> int" where
  "open_conns s = int (length (hp_conns (fst s))) + sum_list (map (\<lambda>t. int (length (http_own t))) (snd s))"

definition pool_inv :: "http_pool \<Rightarrow> http_pool \<times> http_caller list \<Rightarrow> bool" where
  "pool_inv P0 s \<longleftrightarrow> http.exclusive s \<and> hp_total (fst s) = open_conns s \<and> hp_createTime (fst s) = (\<lambda>_. 0) \<and>
     (\<forall>c\<in>set (hp_conns (fst s)). hp_request (fst s) c < hp_maxRequest P0) \<and>
     hp_maxRequest (fst s) = hp_maxRequest P0 \<and> hp_maxAliveTime (fst s) = hp_maxAliveTime P0"

lemma http_step_total:
  assumes "http_step P t P' t'"
  shows "hp_total P' - int (length (hp_conns P')) - int (length (http_own t')) =
    hp_total P - int (length (hp_conns P)) - int (length (http_own t))"
  using assms
proof cases
  case (take connected now)
  from this(2) show ?thesis by (rule http_take_parts) (use take(1) in simp)
qed (auto simp: http_pool_defs split: if_splits option.splits)

lemma http_step_settings:
  assumes "http_step P t P' t'"
  shows "hp_createTime P' = hp_createTime P \<and> hp_maxRequest P' = hp_maxRequest P \<and>
    hp_maxAliveTime P' = hp_maxAliveTime P \<and>
    (distinct (hp_conns P @ http_own t) \<longrightarrow> (\<forall>c\<in>set (hp_conns P). hp_request P c < hp_maxRequest P) \<longrightarrow>
      (\<forall>c\<in>set (hp_conns P'). hp_request P' c < hp_maxRequest P))"
  using assms
proof cases
  case (take connected now)
  from this(2) show ?thesis by (rule http_take_parts) (use take(1) in auto)
qed (auto simp: http_pool_defs split: if_splits option.splits)

lemma pool_inv_step:
  assumes "interleave http_step s s'" and inv: "pool_inv P0 s"
  shows "pool_inv P0 s'"
  using assms(1)
proof cases
  case (turn P t P' t' xs ys)
  have "http.exclusive s'" using http.exclusive_step assms by (auto simp: pool_inv_def)
  moreover have "distinct (hp_conns P @ http_own t)"
    using inv http.exclusive_split turn(1) by (auto simp: pool_inv_def)
  ultimately show ?thesis
    using http_step_total [OF turn(3)] http_step_settings [OF turn(3)] inv
    by (auto simp: pool_inv_def turn(1,2) open_conns_def)
qed

lemma pool_inv_reachable: "reachable http_step s s' \<Longrightarrow> pool_inv P0 s \<Longrightarrow> pool_inv P0 s'"
  by (induction rule: reachable.induct) (auto intro: pool_inv_step)

lemma http_callers_start: "concat (map http_own (replicate n HFree)) = []"
  by (induction n) simp_all

lemma http_callers_own: "sum_list (map (\<lambda>t. int (length (http_own t))) (replicate n HFree)) = 0"
  by (induction n) simp_all

lemma new_http_pool_inv:
  assumes "P0 = new_http_pool host vhost port max_alive_time max_request"
  shows "pool_inv P0 (P0, replicate n HFree)"
  unfolding pool_inv_def http.exclusive_def open_conns_def fst_conv snd_conv http_callers_own http_callers_start
  by (simp add: assms new_http_pool_def)

text \<open>Every reachable state of a pool that starts empty satisfies the invariant.\<close>

lemmas http_pool_inv = pool_inv_reachable [OF _ new_http_pool_inv [OF refl]]

text \<open>What a caller does next; the arguments are the outcome of the calls it makes.\<close>

definition http_move :: "(nat \<Rightarrow> bool) \<times> nat \<times> bool \<Rightarrow> http_pool \<Rightarrow> http_caller \<Rightarrow> http_pool \<times> http_caller" where
  "http_move e P t =
     (case e of (connected, now, success) \<Rightarrow>
        case t of
          HFree \<Rightarrow> http_take connected now P
        | HSearched bad r \<Rightarrow> http_connect success bad r P
        | HHolds c \<Rightarrow> ReleasePtr connected now c P
        | HFailed \<Rightarrow> (P, HFree))"

lemma http_move_step: "http_step P t (fst (http_move e P t)) (snd (http_move e P t))"
  by (cases t)
    (auto simp: http_move_def split: prod.splits
      intro: http_step.take http_step.connect http_step.release http_step.give_up)

lemmas http_play_from = play_reachable [where step = http_step and mv = http_move, OF http_move_step _ reachable.start]

section \<open>Headers of a request\<close>

lemma c_str_idem: "c_str (c_str s) = c_str s"
  by (simp add: c_str_def takeWhile_idem)

lemma strcasecmp_c_str [simp]: "strcasecmp_eq (c_str a) b = strcasecmp_eq a b"
  by (simp add: strcasecmp_eq_def case_key_def c_str_idem)

lemma set_headers_simps [simp]:
  "set_headers [] r = r"
  "set_headers (h # hs) r = set_headers hs (req_setHeader (fst h) (snd h) r)"
  by (simp_all add: set_headers_def split_def)

lemma req_setHeader_close [simp]:
  "req_setHeader k v (r\<lparr>r_close := b\<rparr>) = (req_setHeader k v r)\<lparr>r_close := b\<rparr>" "r_close (req_setHeader k v r) = r_close r"
  by (simp_all add: req_setHeader_def)

lemma set_headers_close [simp]:
  "set_headers hs (r\<lparr>r_close := b\<rparr>) = (set_headers hs r)\<lparr>r_close := b\<rparr>" "r_close (set_headers hs r) = r_close r"
  by (induction hs arbitrary: r) simp_all

lemma host_not_connection:
  "strcasecmp_eq k ''host'' \<Longrightarrow> \<not> strcasecmp_eq k ''connection''"
proof -
  have "case_key ''host'' \<noteq> case_key ''connection''" by code_simp
  then show "strcasecmp_eq k ''host'' \<Longrightarrow> \<not> strcasecmp_eq k ''connection''" by (simp add: strcasecmp_eq_def)
qed

lemma add_headers_eq:
  "add_headers hs b req =
     (b \<or> list_ex (\<lambda>h. strcasecmp_eq (fst h) ''host'' \<and> snd h \<noteq> []) hs,
      (set_headers (filter (\<lambda>h. \<not> strcasecmp_eq (fst h) ''connection'') hs) req)
        \<lparr>r_close := r_close req \<and>
           \<not> list_ex (\<lambda>h. strcasecmp_eq (fst h) ''connection'' \<and> strcasecmp_eq (snd h) ''keep-alive'') hs\<rparr>)"
proof (induction hs b req rule: add_headers.induct)
  case (2 k v hs b req)
  then show ?case
    using host_not_connection [of k] by auto
qed simp

lemma find_filter: "List.find P (filter Q xs) = List.find (\<lambda>x. P x \<and> Q x) xs"
  by (induction xs) auto

text \<open>The request that the client builds: every header given is sent except \<^verbatim>\<open>connection\<close>, which only says
  whether the connection is kept; where none of the headers names the host, the host asked for is named.\<close>

theorem request_headers:
  "ordered_by CaseInsensitiveLess (map fst (r_headers (build_request method path query fragment headers host body))) \<and>
   map_value CaseInsensitiveLess name (r_headers (build_request method path query fragment headers host body)) =
     (if strcasecmp_eq name ''host'' \<and> \<not> list_ex (\<lambda>h. strcasecmp_eq (fst h) ''host'' \<and> snd h \<noteq> []) headers
      then Some host
      else map_option snd (List.find (\<lambda>h. strcasecmp_eq (fst h) name \<and> \<not> strcasecmp_eq (fst h) ''connection'') (rev headers))) \<and>
   r_close (build_request method path query fragment headers host body) =
     (\<not> list_ex (\<lambda>h. strcasecmp_eq (fst h) ''connection'' \<and> strcasecmp_eq (snd h) ''keep-alive'') headers)"
proof -
  let ?own = "filter (\<lambda>h. \<not> strcasecmp_eq (fst h) ''connection'') headers"
  let ?given = "list_ex (\<lambda>h. strcasecmp_eq (fst h) ''host'' \<and> snd h \<noteq> []) headers"
  define base where "base = (new_request 0x11 True)\<lparr>r_path := path, r_query := query, r_fragment := fragment, r_method := method\<rparr>"
  define H where "H = r_headers (set_headers ?own base)"
  have base: "r_headers base = []" "r_close base" by (simp_all add: base_def new_request_def)
  have "r_headers (build_request method path query fragment headers host body) =
      (if ?given then H else map_assign CaseInsensitiveLess ''Host'' host H)"
    "r_close (build_request method path query fragment headers host body) =
      (\<not> list_ex (\<lambda>h. strcasecmp_eq (fst h) ''connection'' \<and> strcasecmp_eq (snd h) ''keep-alive'') headers)"
    by (simp_all add: build_request_def add_headers_eq H_def base_def [symmetric] base Let_def req_setHeader_def)
  moreover have "map_value CaseInsensitiveLess k H =
      map_option snd (List.find (\<lambda>h. strcasecmp_eq (fst h) k \<and> \<not> strcasecmp_eq (fst h) ''connection'') (rev headers))"
    and ordered: "ordered_by CaseInsensitiveLess (map fst H)" for k
    using header_value_set_headers [of base k ?own]
    by (simp_all add: base H_def rev_filter find_filter split: option.splits)
  moreover have "strcasecmp_eq ''Host'' name \<longleftrightarrow> strcasecmp_eq name ''host''"
    by (simp add: strcasecmp_eq_def, code_simp) auto
  ultimately show ?thesis
    using nocase.map_value_assign [OF ordered, of name "''Host''" host] nocase_equiv [of "''Host''" name]
      nocase.ordered_map_assign [OF ordered, of "''Host''" host]
    by auto
qed

section \<open>What a result says\<close>

lemma exchange_answered:
  assumes "takes_prefix sent (cn_write (nw_stream N))"
  shows "if hr_result (exchange lib buff_size N req peer ms) = OK_RESULT then
     sent (snd (sendRequest req (nw_stream N))) = sent (cn_state (nw_stream N)) @ req_dump req \<and>
     (\<exists>rsp. hr_response (exchange lib buff_size N req peer ms) = Some rsp \<and>
       fst (recvResponse lib buff_size (cn_reads (nw_stream N))) = Some rsp)
     else hr_response (exchange lib buff_size N req peer ms) = None"
  using write_loop_prefix [OF assms, of "req_dump req" "int (length (req_dump req))" "cn_state (nw_stream N)"]
  by (auto simp: exchange_def failure_def sendRequest_def writeFixSize_def Let_def split: option.splits if_splits)

text \<open>C33: a request that was answered was sent whole: the URL was taken apart, its host found and connected to, every
  byte of the request was taken by the socket, once and in order, and the response is what the stream brought; any
  other outcome is an error with no response.\<close>

theorem answered_means_sent:
  assumes "takes_prefix sent (cn_write (nw_stream N))"
    and "DoRequest lib buff_size N parse_url method url timeout_ms headers body = Inr r"
  shows "if hr_result r = OK_RESULT then
     \<exists>u addr rsp. Uri_Create parse_url url = Inr (Some u) \<and> createAddress (nw_resolver N) u = Some addr \<and>
       nw_socket N \<and> nw_connect N \<and> hr_response r = Some rsp \<and>
       sent (snd (sendRequest (build_request method (uri_getPath u) (u_query u) (u_fragment u) headers (u_host u) body)
           (nw_stream N))) =
         sent (cn_state (nw_stream N)) @
         req_dump (build_request method (uri_getPath u) (u_query u) (u_fragment u) headers (u_host u) body) \<and>
       fst (recvResponse lib buff_size (cn_reads (nw_stream N))) = Some rsp
     else hr_response r = None"
proof -
  consider "hr_response r = None" "hr_result r \<noteq> OK_RESULT"
    | u addr where "Uri_Create parse_url url = Inr (Some u)" "createAddress (nw_resolver N) u = Some addr"
        "nw_socket N" "nw_connect N"
        "r = exchange lib buff_size N
          (build_request method (uri_getPath u) (u_query u) (u_fragment u) headers (u_host u) body)
          (address_insert addr) timeout_ms"
    using assms(2)
    by (auto simp: DoRequest_def DoRequest_uri_def DoRequest_req_def failure_def rbind_def
        split: option.splits sum.splits if_splits)
  then show ?thesis
  proof cases
    case 1
    then show ?thesis by simp
  next
    case 2
    then show ?thesis
      using exchange_answered [OF assms(1), of lib buff_size _ "address_insert addr" timeout_ms]
      by (simp only: 2(5)) (metis (no_types, lifting) "2"(1) "2"(2) "2"(3) "2"(4))
  qed
qed

text \<open>A network on which everything succeeds; the response has no body.\<close>

definition sample_network :: "string network" where
  "sample_network =
     \<lparr>nw_resolver = (\<lambda>_ _. Some [[2, 0, 0, 0, 127, 0, 0, 1, 0, 0, 0, 0, 0, 0, 0, 0]]), nw_socket = True, nw_connect = True,
      nw_stream = \<lparr>cn_write = sample_write, cn_state = [], cn_reads = [''HTTP/1.1 204 No Content'']\<rparr>, nw_errno = (0, [])\<rparr>"

definition response_lib :: "nat parser_lib" where
  "response_lib = sample_lib\<lparr>lib_events := (\<lambda>q data. [Status 204 ''No Content'', HeadersComplete 1 1 204, MessageComplete])\<rparr>"

definition http_parts :: url_parts where
  "http_parts = \<lparr>up_schema = Some ''http'', up_userinfo = None, up_host = Some ''h'', up_port = None,
     up_path = None, up_query = None, up_fragment = None\<rparr>"

theorem answered_means_sent_witness:
  "\<exists>r. DoRequest response_lib 4096 sample_network (\<lambda>_. Some http_parts) GET ''http://h'' 1000 [] [] = Inr r \<and>
     hr_result r = OK_RESULT \<and> map_option p_status (hr_response r) = Some 204"
proof -
  let ?d = "DoRequest response_lib 4096 sample_network (\<lambda>_. Some http_parts) GET ''http://h'' 1000 [] []"
  have "(case ?d of Inr r \<Rightarrow> hr_result r = OK_RESULT \<and> map_option p_status (hr_response r) = Some 204 | Inl _ \<Rightarrow> False)"
    by code_simp
  then obtain r where r: "?d = Inr r" "hr_result r = OK_RESULT" "map_option p_status (hr_response r) = Some 204"
    by (cases ?d) auto
  have "takes_prefix (\<lambda>s. s) (cn_write (nw_stream sample_network))"
    by (auto simp: takes_prefix_def sample_network_def sample_write_def min_def)
  from answered_means_sent [OF this r(1)] r show ?thesis by auto
qed

section \<open>The pool of connections\<close>

text \<open>C32: in every state that callers of the pool can reach together, no connection is in two hands or both held and
  idle, the count is that of the open connections, and no idle connection has served the full number of requests.\<close>

theorem http_pool_sound:
  assumes "reachable http_step (new_http_pool host vhost port max_alive_time max_request, replicate n HFree) (P, ts)"
  shows "distinct (hp_conns P @ concat (map http_own ts)) \<and>
    hp_total P = int (length (hp_conns P @ concat (map http_own ts))) \<and>
    list_all (\<lambda>c. hp_request P c < max_request) (hp_conns P)"
proof -
  have "int (length (concat (map http_own us))) = sum_list (map (\<lambda>t. int (length (http_own t))) us)" for us
    by (induction us) simp_all
  then show ?thesis
    using http_pool_inv [OF assms]
    by (simp add: pool_inv_def http.exclusive_def open_conns_def new_http_pool_def list_all_iff)
qed

text \<open>One caller connects, uses the connection and gives it back; the other finds it.\<close>

definition http_sample_run :: "http_pool \<times> http_caller list" where
  "http_sample_run =
     play http_move [(0, (\<lambda>_. True, 5000, True)), (0, (\<lambda>_. True, 5000, True)), (0, (\<lambda>_. True, 5000, True)),
        (1, (\<lambda>_. True, 6000, True))] (new_http_pool ''h'' [] 80 1000 2, replicate 2 HFree)"

theorem http_pool_sound_witness:
  "reachable http_step (new_http_pool ''h'' [] 80 1000 2, replicate 2 HFree) http_sample_run \<and>
   snd http_sample_run = [HFree, HSearched [] (Some 0)] \<and> hp_total (fst http_sample_run) = 1"
proof -
  have r: "reachable http_step (new_http_pool ''h'' [] 80 1000 2, replicate 2 HFree) http_sample_run"
    unfolding http_sample_run_def by (rule http_play_from) simp
  have t: "snd http_sample_run = [HFree, HSearched [] (Some 0)]" "hp_conns (fst http_sample_run) = []"
    by code_simp+
  from r have "reachable http_step (new_http_pool ''h'' [] 80 1000 2, replicate 2 HFree) (fst http_sample_run, snd http_sample_run)"
    by simp
  from http_pool_sound [OF this] r t show ?thesis by simp
qed

text \<open>The age of a connection is never used up: with the clock past every \<open>max_alive_time\<close> of 32 bits an idle
  connection that is still open is handed out, and one that is given back with requests left is kept, however long it
  has been open, since no code sets the time of its creation.\<close>

theorem connections_never_expire:
  assumes "reachable http_step (new_http_pool host vhost port max_alive_time max_request, replicate n HFree) (P, ts)"
    and "max_alive_time < now" and "connected c"
  shows "http_take connected now (P\<lparr>hp_conns := c # cs\<rparr>) = (P\<lparr>hp_conns := cs\<rparr>, HSearched [] (Some c)) \<and>
    hp_conns (fst (ReleasePtr connected now c P)) =
      hp_conns P @ (if Suc (hp_request P c) < max_request then [c] else [])"
  using http_pool_inv [OF assms(1)] assms(2,3)
  by (auto simp: pool_inv_def http_take_def ReleasePtr_def Let_def new_http_pool_def)

theorem connections_never_expire_witness:
  "http_take (\<lambda>_. True) 10 ((new_http_pool ''h'' [] 80 1 2)\<lparr>hp_conns := [7]\<rparr>) =
     ((new_http_pool ''h'' [] 80 1 2)\<lparr>hp_conns := []\<rparr>, HSearched [] (Some 7)) \<and>
   hp_conns (fst (ReleasePtr (\<lambda>_. True) 10 7 (new_http_pool ''h'' [] 80 1 2))) = [7]"
  using connections_never_expire [OF reachable.start, where now = 10 and max_alive_time = 1 and connected = "\<lambda>_. True"
      and c = 7 and host = "''h''" and vhost = "[]" and port = 80 and max_request = 2 and cs = "[]"]
  by (simp add: new_http_pool_def)

section \<open>URIs\<close>

text \<open>A URL that names no port: the port to connect to is that of the scheme for all of \<^verbatim>\<open>http\<close>, \<^verbatim>\<open>ws\<close>,
  \<^verbatim>\<open>https\<close> and \<^verbatim>\<open>wss\<close>, but printed again the URI of any scheme other than the first three, \<^verbatim>\<open>wss\<close> included,
  names port 0.\<close>

theorem port_from_scheme:
  assumes "Uri_Create parse_url urlstr = Inr (Some u)" and "parse_url urlstr = Some p" and "up_port p = None"
  shows "uri_getPort u =
      (if u_scheme u \<in> {''http'', ''ws''} then 80 else if u_scheme u \<in> {''https'', ''wss''} then 443 else 0) \<and>
    uri_toString u = u_scheme u @ ''://'' @ u_userinfo u @ (if u_userinfo u = [] then [] else ''@'') @ u_host u @
      (if u_scheme u \<in> {''http'', ''ws'', ''https''} then [] else '':0'') @ uri_getPath u @ marked ''?'' (u_query u) @
      marked ''#'' (u_fragment u)"
proof -
  have "u_port u =
      (if u_scheme u = ''http'' \<or> u_scheme u = ''ws'' then 80 else if u_scheme u = ''https'' then 443 else 0)"
    using assms by (auto simp: Uri_Create_def Let_def)
  then consider "u_port u = 80" "u_scheme u = ''http'' \<or> u_scheme u = ''ws''"
    | "u_port u = 443" "u_scheme u = ''https''"
    | "u_port u = 0" "u_scheme u \<notin> {''http'', ''ws'', ''https''}"
    by (auto split: if_splits)
  then show ?thesis
    by cases (auto simp: uri_getPort_def uri_toString_def isDefaultPort_def show_int_def show_nat.simps digit_char_def)
qed

text \<open>What the library answers for \<^verbatim>\<open>wss://h/chat\<close>.\<close>

definition wss_parts :: url_parts where
  "wss_parts = \<lparr>up_schema = Some ''wss'', up_userinfo = None, up_host = Some ''h'', up_port = None,
     up_path = Some ''/chat'', up_query = None, up_fragment = None\<rparr>"

theorem port_from_scheme_witness:
  "\<exists>u. Uri_Create (\<lambda>_. Some wss_parts) ''wss://h/chat'' = Inr (Some u) \<and> uri_getPort u = 443 \<and>
     uri_toString u = ''wss://h:0/chat''"
proof -
  obtain u where u: "Uri_Create (\<lambda>_. Some wss_parts) ''wss://h/chat'' = Inr (Some u)"
    and f: "u_scheme u = ''wss''" "u_userinfo u = []" "u_host u = ''h''" "u_path u = ''/chat''" "u_query u = []"
      "u_fragment u = []"
    by (simp add: Uri_Create_def wss_parts_def given_def)
  have "uri_toString u = ''wss://h:0/chat'' \<and> uri_getPort u = 443"
    using port_from_scheme [OF u refl] by (simp add: f wss_parts_def uri_getPath_def marked_def)
  with u show ?thesis by blast
qed

end
