(* ===== verification/Yaml.thy ===== *)
theory Yaml
  imports Prelude "HOL-Library.Countable"
begin

text \<open>
  YAML nodes as values, and the library \<^verbatim>\<open>yaml-cpp\<close> as a parameter: reading and writing of texts, and what its nodes
  answer when they are not of the kind asked for. \<open>yaml_laws\<close> is what its documentation says.
\<close>

datatype yaml = YNull | YScalar string | YSeq "yaml list" | YMap "(yaml \<times> yaml) list"

instance yaml :: countable
  by countable_datatype

text \<open>
  \<open>y_get n k\<close> is \<^verbatim>\<open>n[k]\<close>, \<open>None\<close> when the result is not defined; \<open>y_elems n\<close> are \<^verbatim>\<open>n[0]\<close> up to the size of \<open>n\<close>, an
  \<open>Inl\<close> where the use of the result throws; \<open>y_string\<close> is \<^verbatim>\<open>as<std::string>()\<close>.
\<close>

record yaml_lib =
  y_load :: "string \<Rightarrow> yaml res"
  y_emit :: "yaml \<Rightarrow> string"
  y_get :: "yaml \<Rightarrow> string \<Rightarrow> yaml option res"
  y_elems :: "yaml \<Rightarrow> yaml res list"
  y_string :: "yaml \<Rightarrow> string res"

text \<open>The value under a key, \<^verbatim>\<open>n[k] = v\<close> and \<^verbatim>\<open>n.push_back(v)\<close>, which turn a null node into a map or a sequence.\<close>

fun yaml_find :: "string \<Rightarrow> (yaml \<times> yaml) list \<Rightarrow> yaml option" where
  "yaml_find k [] = None"
| "yaml_find k ((a, b) # m) = (if a = YScalar k then Some b else yaml_find k m)"

fun yaml_put :: "string \<Rightarrow> yaml \<Rightarrow> (yaml \<times> yaml) list \<Rightarrow> (yaml \<times> yaml) list" where
  "yaml_put k v [] = [(YScalar k, v)]"
| "yaml_put k v ((a, b) # m) = (if a = YScalar k then (a, v) # m else (a, b) # yaml_put k v m)"

fun yaml_set :: "yaml \<Rightarrow> string \<Rightarrow> yaml \<Rightarrow> yaml" where
  "yaml_set (YMap m) k v = YMap (yaml_put k v m)"
| "yaml_set n k v = YMap [(YScalar k, v)]"

fun yaml_push :: "yaml \<Rightarrow> yaml \<Rightarrow> yaml" where
  "yaml_push (YSeq xs) v = YSeq (xs @ [v])"
| "yaml_push n v = YSeq [v]"

text \<open>\<^verbatim>\<open>Scalar()\<close>, the empty string for a node that is not a scalar.\<close>

fun yaml_scalar :: "yaml \<Rightarrow> string" where
  "yaml_scalar (YScalar s) = s"
| "yaml_scalar _ = []"

definition yaml_laws :: "yaml_lib \<Rightarrow> bool" where
  "yaml_laws Y \<longleftrightarrow>
     (\<forall>n. y_load Y (y_emit Y n) = Inr n) \<and> (\<forall>m k. y_get Y (YMap m) k = Inr (yaml_find k m)) \<and>
     (\<forall>xs. y_elems Y (YSeq xs) = map Inr xs) \<and> (\<forall>s. y_string Y (YScalar s) = Inr s)"

lemma yaml_lawsD:
  assumes "yaml_laws Y"
  shows "y_load Y (y_emit Y n) = Inr n"
    and "y_get Y (YMap m) k = Inr (yaml_find k m)"
    and "y_elems Y (YSeq xs) = map Inr xs"
    and "y_string Y (YScalar s) = Inr s"
  using assms by (simp_all add: yaml_laws_def)

text \<open>An instance, in which the text of a node is its number in unary.\<close>

fun yaml_get :: "yaml \<Rightarrow> string \<Rightarrow> yaml option res" where
  "yaml_get (YMap m) k = Inr (yaml_find k m)"
| "yaml_get YNull k = Inr None"
| "yaml_get n k = Inl (Thrown ''BadSubscript'')"

fun yaml_elems :: "yaml \<Rightarrow> yaml res list" where
  "yaml_elems (YSeq xs) = map Inr xs"
| "yaml_elems (YMap m) = map (\<lambda>_. Inl (Thrown ''InvalidNode'')) m"
| "yaml_elems n = []"

fun yaml_string :: "yaml \<Rightarrow> string res" where
  "yaml_string (YScalar s) = Inr s"
| "yaml_string n = Inl (Thrown ''BadConversion'')"

definition yaml_values :: yaml_lib where
  "yaml_values =
     \<lparr>y_load = (\<lambda>s. Inr (from_nat (length s))), y_emit = (\<lambda>n. replicate (to_nat n) CHR ''1''), y_get = yaml_get,
      y_elems = yaml_elems, y_string = yaml_string\<rparr>"

lemma yaml_values_laws: "yaml_laws yaml_values"
  by (simp add: yaml_laws_def yaml_values_def)

end
