(* ===== verification/Log.thy ===== *)
theory Log
  imports OrdMap Yaml
begin

text \<open>
  The log module (\<^verbatim>\<open>sylar/log.h\<close>, \<^verbatim>\<open>sylar/log.cpp\<close>): levels, events, the parser of format patterns, the appenders,
  loggers and their manager. Appenders are shared pointers: a logger lists their names, \<open>lg_store\<close> is what the names
  stand for. What is written is a list of texts, each with where it goes. \<^verbatim>\<open>strftime\<close> is an argument, and so are the
  outcomes of opening a file and of writing to it.
\<close>

section \<open>Levels\<close>

datatype log_level = FATAL | ALERT | CRIT | ERROR | WARN | NOTICE | INFO | DEBUG | NOTSET

fun level_value :: "log_level \<Rightarrow> nat" where
  "level_value FATAL = 0"
| "level_value ALERT = 100"
| "level_value CRIT = 200"
| "level_value ERROR = 300"
| "level_value WARN = 400"
| "level_value NOTICE = 500"
| "level_value INFO = 600"
| "level_value DEBUG = 700"
| "level_value NOTSET = 800"

fun LogLevel_ToString :: "log_level \<Rightarrow> string" where
  "LogLevel_ToString FATAL = ''FATAL''"
| "LogLevel_ToString ALERT = ''ALERT''"
| "LogLevel_ToString CRIT = ''CRIT''"
| "LogLevel_ToString ERROR = ''ERROR''"
| "LogLevel_ToString WARN = ''WARN''"
| "LogLevel_ToString NOTICE = ''NOTICE''"
| "LogLevel_ToString INFO = ''INFO''"
| "LogLevel_ToString DEBUG = ''DEBUG''"
| "LogLevel_ToString NOTSET = ''NOTSET''"

definition level_names :: "(string \<times> log_level) list" where
  "level_names =
     [(''fatal'', FATAL), (''alert'', ALERT), (''crit'', CRIT), (''error'', ERROR), (''warn'', WARN), (''notice'', NOTICE),
      (''info'', INFO), (''debug'', DEBUG), (''FATAL'', FATAL), (''ALERT'', ALERT), (''CRIT'', CRIT), (''ERROR'', ERROR),
      (''WARN'', WARN), (''NOTICE'', NOTICE), (''INFO'', INFO), (''DEBUG'', DEBUG)]"

definition LogLevel_FromString :: "string \<Rightarrow> log_level" where
  "LogLevel_FromString str = (case map_of level_names str of Some l \<Rightarrow> l | None \<Rightarrow> NOTSET)"

section \<open>Events and format items\<close>

record log_event =
  le_level :: log_level
  le_content :: string
  le_file :: string
  le_line :: int
  le_elapse :: int
  le_threadId :: nat
  le_fiberId :: nat
  le_time :: nat
  le_threadName :: string
  le_loggerName :: string

datatype format_item =
    MessageItem
  | LevelItem
  | ElapseItem
  | LoggerNameItem
  | ThreadIdItem
  | FiberIdItem
  | ThreadNameItem
  | DateTimeItem string
  | FileNameItem
  | LineItem
  | NewLineItem
  | StringItem string
  | TabItem
  | PercentItem

definition new_DateTimeItem :: "string \<Rightarrow> format_item" where
  "new_DateTimeItem fmt = DateTimeItem (if fmt = [] then ''%Y-%m-%d %H:%M:%S'' else fmt)"

text \<open>
  \<open>strftime fmt t\<close> is the expansion of the C string \<open>fmt\<close> for local time \<open>t\<close>. The buffer has 64 bytes: when the
  expansion and its null byte do not fit, its contents are undefined and are printed all the same.
\<close>

fun item_format :: "(string \<Rightarrow> nat \<Rightarrow> string) \<Rightarrow> log_event \<Rightarrow> format_item \<Rightarrow> string res" where
  "item_format strftime e MessageItem = Inr (le_content e)"
| "item_format strftime e LevelItem = Inr (LogLevel_ToString (le_level e))"
| "item_format strftime e ElapseItem = Inr (show_int (le_elapse e))"
| "item_format strftime e LoggerNameItem = Inr (le_loggerName e)"
| "item_format strftime e ThreadIdItem = Inr (show_nat (le_threadId e))"
| "item_format strftime e FiberIdItem = Inr (show_nat (le_fiberId e))"
| "item_format strftime e ThreadNameItem = Inr (le_threadName e)"
| "item_format strftime e (DateTimeItem fmt) =
     (let text = strftime (c_str fmt) (le_time e)
      in if length text < 64 then Inr (c_str text) else Inl UndefinedBehaviour)"
| "item_format strftime e FileNameItem = Inr (le_file e)"
| "item_format strftime e LineItem = Inr (show_int (le_line e))"
| "item_format strftime e NewLineItem = Inr [CHR 0x0A]"
| "item_format strftime e (StringItem s) = Inr s"
| "item_format strftime e TabItem = Inr [CHR 0x09]"
| "item_format strftime e PercentItem = Inr ''%''"

section \<open>Patterns\<close>

text \<open>
  The scan of a pattern: the text left, whether plain text is being read, the plain text so far, the date format so
  far, and the pieces found: plain ones with 0, conversions with 1. \<open>Inr None\<close> is the error of a brace that is not
  closed. After a \<^verbatim>\<open>%d\<close> at the end of the pattern the index passes the terminating null byte.
\<close>

type_synonym pieces = "(nat \<times> string) list"

definition keep_text :: "string \<Rightarrow> pieces \<Rightarrow> pieces" where
  "keep_text tmp ps = (if tmp = [] then ps else ps @ [(0, tmp)])"

function scan :: "string \<Rightarrow> bool \<Rightarrow> string \<Rightarrow> string \<Rightarrow> pieces \<Rightarrow> (string \<times> string \<times> pieces) option res" where
  "scan [] parsing_string tmp dateformat ps = Inr (Some (tmp, dateformat, ps))"
| "scan (c # cs) parsing_string tmp dateformat ps =
     (if c = CHR ''%'' then
        if parsing_string then scan cs False [] dateformat (keep_text tmp ps)
        else scan cs True tmp dateformat (ps @ [(1, [c])])
      else if parsing_string then scan cs True (tmp @ [c]) dateformat ps
      else
        let ps = ps @ [(1, [c])]
        in if c \<noteq> CHR ''d'' then scan cs True tmp dateformat ps
           else case cs of
               [] \<Rightarrow> Inl UndefinedBehaviour
             | d # ds \<Rightarrow>
                 if d \<noteq> CHR ''{'' then scan cs True tmp dateformat ps
                 else
                   let dateformat = dateformat @ takeWhile (\<lambda>x. x \<noteq> CHR ''}'') ds;
                       left = dropWhile (\<lambda>x. x \<noteq> CHR ''}'') ds
                   in if left = [] then Inr None else scan (tl left) True tmp dateformat ps)"
  by pat_completeness auto
termination
proof (relation "measure (\<lambda>(cs, _). length cs)")
  show "wf (measure (\<lambda>(cs :: string, _ :: bool \<times> string \<times> string \<times> pieces). length cs))" by simp
qed (auto simp: less_Suc_eq_le intro!: le_SucI diff_le_self [THEN le_trans] length_dropWhile_le)

declare scan.simps [simp del]

text \<open>The table of the conversions other than \<^verbatim>\<open>%d\<close>.\<close>

definition format_items :: "(char \<times> format_item) list" where
  "format_items =
     [(CHR ''m'', MessageItem), (CHR ''p'', LevelItem), (CHR ''c'', LoggerNameItem), (CHR ''r'', ElapseItem),
      (CHR ''f'', FileNameItem), (CHR ''l'', LineItem), (CHR ''t'', ThreadIdItem), (CHR ''F'', FiberIdItem),
      (CHR ''N'', ThreadNameItem), (CHR ''%'', PercentItem), (CHR ''T'', TabItem), (CHR ''n'', NewLineItem)]"

text \<open>The loop over the pieces; an unknown conversion ends it, the items so far are kept.\<close>

fun make_items :: "string \<Rightarrow> pieces \<Rightarrow> format_item list \<times> bool" where
  "make_items dateformat [] = ([], False)"
| "make_items dateformat ((k, s) # ps) =
     (if k = 0 then (case make_items dateformat ps of (is, err) \<Rightarrow> (StringItem s # is, err))
      else if s = ''d'' then (case make_items dateformat ps of (is, err) \<Rightarrow> (new_DateTimeItem dateformat # is, err))
      else
        (case List.find (\<lambda>e. [fst e] = s) format_items of
           None \<Rightarrow> ([], True)
         | Some e \<Rightarrow> (case make_items dateformat ps of (is, err) \<Rightarrow> (snd e # is, err))))"

record log_formatter =
  lf_pattern :: string
  lf_items :: "format_item list"
  lf_error :: bool

definition LogFormatter :: "string \<Rightarrow> log_formatter res" where
  "LogFormatter pattern =
     rbind (scan pattern True [] [] []) (\<lambda>r.
       case r of
         None \<Rightarrow> Inr \<lparr>lf_pattern = pattern, lf_items = [], lf_error = True\<rparr>
       | Some (tmp, dateformat, ps) \<Rightarrow>
           (case make_items dateformat (keep_text tmp ps) of
              (is, err) \<Rightarrow> Inr \<lparr>lf_pattern = pattern, lf_items = is, lf_error = err\<rparr>))"

definition default_pattern :: string where
  "default_pattern = ''%d{%Y-%m-%d %H:%M:%S} [%rms]%T%t%T%N%T%F%T[%p]%T[%c]%T%f:%l%T%m%n''"

fun format_all :: "(string \<Rightarrow> nat \<Rightarrow> string) \<Rightarrow> log_event \<Rightarrow> format_item list \<Rightarrow> string res" where
  "format_all strftime e [] = Inr []"
| "format_all strftime e (i # is) =
     rbind (item_format strftime e i) (\<lambda>s. rbind (format_all strftime e is) (\<lambda>r. Inr (s @ r)))"

definition formatter_format :: "(string \<Rightarrow> nat \<Rightarrow> string) \<Rightarrow> log_formatter \<Rightarrow> log_event \<Rightarrow> string res" where
  "formatter_format strftime f e = format_all strftime e (lf_items f)"

section \<open>Appenders\<close>

datatype sink = ToStdout | ToFile string

text \<open>
  An appender. Of the stream of a file: whether the file is open, whether the stream is good.
\<close>

record appender =
  ap_sink :: sink
  ap_formatter :: "log_formatter option"
  ap_default :: log_formatter
  ap_open :: bool
  ap_good :: bool
  ap_lastTime :: nat
  ap_reopenError :: bool

definition setFormatter :: "log_formatter \<Rightarrow> appender \<Rightarrow> appender" where
  "setFormatter f a = a\<lparr>ap_formatter := Some f\<rparr>"

definition getFormatter :: "appender \<Rightarrow> log_formatter" where
  "getFormatter a = (case ap_formatter a of Some f \<Rightarrow> f | None \<Rightarrow> ap_default a)"

definition StdoutLogAppender :: "appender res" where
  "StdoutLogAppender =
     rbind (LogFormatter default_pattern) (\<lambda>f.
       Inr \<lparr>ap_sink = ToStdout, ap_formatter = None, ap_default = f, ap_open = False, ap_good = True,
            ap_lastTime = 0, ap_reopenError = False\<rparr>)"

text \<open>
  \<open>reopen\<close>, where \<open>opens\<close> says whether the file can be opened now. A stream that is not good is not closed, and
  opening one that is still open fails; a successful open makes the stream good.
\<close>

definition reopen :: "bool \<Rightarrow> appender \<Rightarrow> appender" where
  "reopen opens a =
     (let a = (if ap_good a then a\<lparr>ap_good := ap_open a, ap_open := False\<rparr> else a);
          a = (if opens \<and> \<not> ap_open a then a\<lparr>ap_open := True, ap_good := True\<rparr> else a\<lparr>ap_good := False\<rparr>)
      in a\<lparr>ap_reopenError := \<not> ap_good a\<rparr>)"

definition FileLogAppender :: "bool \<Rightarrow> string \<Rightarrow> (appender \<times> (sink \<times> string) list) res" where
  "FileLogAppender opens file =
     rbind (LogFormatter default_pattern) (\<lambda>f.
       let a = reopen opens \<lparr>ap_sink = ToFile file, ap_formatter = None, ap_default = f, ap_open = False, ap_good = True,
         ap_lastTime = 0, ap_reopenError = False\<rparr>
       in Inr (a, if ap_reopenError a then [(ToStdout, ''reopen file '' @ file @ '' error'' @ [CHR 0x0A])] else []))"

text \<open>
  Writing to a stream. \<open>fails\<close> is \<open>None\<close> when all is written, and otherwise how many bytes are before the stream goes
  bad. Nothing is written to a stream that is not good.
\<close>

definition format_error :: "sink \<times> string" where
  "format_error = (ToStdout, ''[ERROR] FileLogAppender::log() format error'' @ [CHR 0x0A])"

definition write_stream :: "nat option \<Rightarrow> string \<Rightarrow> appender \<Rightarrow> appender \<times> (sink \<times> string) list" where
  "write_stream fails s a =
     (if \<not> ap_good a then (a, [format_error])
      else case fails of
          None \<Rightarrow> (a, [(ap_sink a, s)])
        | Some k \<Rightarrow> (a\<lparr>ap_good := False\<rparr>, [(ap_sink a, take k s), format_error]))"

definition reopen_when_due :: "bool \<Rightarrow> string \<Rightarrow> nat \<Rightarrow> appender \<Rightarrow> appender \<times> (sink \<times> string) list" where
  "reopen_when_due opens file now a =
     (if now \<ge> ap_lastTime a + 3 then
        let a = reopen opens a
        in (a\<lparr>ap_lastTime := now\<rparr>,
            if ap_reopenError a then [(ToStdout, ''reopen file '' @ file @ '' error'' @ [CHR 0x0A])] else [])
      else (a, []))"

text \<open>The two overrides of \<open>LogAppender::log\<close>.\<close>

definition appender_log ::
    "(string \<Rightarrow> nat \<Rightarrow> string) \<Rightarrow> bool \<times> nat option \<Rightarrow> log_event \<Rightarrow> appender \<Rightarrow> (appender \<times> (sink \<times> string) list) res" where
  "appender_log strftime outcome e a =
     (case ap_sink a of
        ToStdout \<Rightarrow> rbind (formatter_format strftime (getFormatter a) e) (\<lambda>s. Inr (a, [(ToStdout, s)]))
      | ToFile file \<Rightarrow>
          (case reopen_when_due (fst outcome) file (le_time e) a of
             (a, out) \<Rightarrow>
               if ap_reopenError a then Inr (a, out)
               else rbind (formatter_format strftime (getFormatter a) e) (\<lambda>s.
                 case write_stream (snd outcome) s a of (a, out') \<Rightarrow> Inr (a, out @ out'))))"

text \<open>\<open>toYamlString\<close>: that of the console takes the pattern of a formatter that need not be set.\<close>

definition appender_toYamlString :: "yaml_lib \<Rightarrow> appender \<Rightarrow> string res" where
  "appender_toYamlString Y a =
     (case ap_sink a of
        ToStdout \<Rightarrow>
          (case ap_formatter a of
             None \<Rightarrow> Inl UndefinedBehaviour
           | Some f \<Rightarrow> Inr (y_emit Y (yaml_set (yaml_set YNull ''type'' (YScalar ''StdoutLogAppender''))
               ''pattern'' (YScalar (lf_pattern f)))))
      | ToFile file \<Rightarrow>
          Inr (y_emit Y (yaml_set (yaml_set (yaml_set YNull ''type'' (YScalar ''FileLogAppender''))
            ''file'' (YScalar file)) ''pattern'' (YScalar (lf_pattern (getFormatter a))))))"

section \<open>Loggers\<close>

record logger =
  lo_name :: string
  lo_level :: log_level
  lo_appenders :: "nat list"
  lo_createTime :: nat

definition new_logger :: "string \<Rightarrow> nat \<Rightarrow> logger" where
  "new_logger name now = \<lparr>lo_name = name, lo_level = INFO, lo_appenders = [], lo_createTime = now\<rparr>"

definition addAppender :: "nat \<Rightarrow> logger \<Rightarrow> logger" where
  "addAppender i l = l\<lparr>lo_appenders := lo_appenders l @ [i]\<rparr>"

definition delAppender :: "nat \<Rightarrow> logger \<Rightarrow> logger" where
  "delAppender i l = l\<lparr>lo_appenders := remove1 i (lo_appenders l)\<rparr>"

definition clearAppenders :: "logger \<Rightarrow> logger" where
  "clearAppenders l = l\<lparr>lo_appenders := []\<rparr>"

definition setLevel :: "log_level \<Rightarrow> logger \<Rightarrow> logger" where
  "setLevel lv l = l\<lparr>lo_level := lv\<rparr>"

text \<open>All appenders, and the loggers of the manager by name, as the map of the manager iterates them.\<close>

record log_system =
  lg_store :: "nat \<Rightarrow> appender"
  lg_fresh :: nat
  lg_loggers :: "(string \<times> logger) list"

text \<open>The loop of \<open>Logger::log\<close> over the appenders; \<open>outcome i\<close> is that of the calls of appender \<open>i\<close>.\<close>

fun log_all ::
    "(string \<Rightarrow> nat \<Rightarrow> string) \<Rightarrow> (nat \<Rightarrow> bool \<times> nat option) \<Rightarrow> log_event \<Rightarrow> nat list \<Rightarrow> log_system \<Rightarrow>
     (log_system \<times> (sink \<times> string) list) res" where
  "log_all strftime outcome e [] L = Inr (L, [])"
| "log_all strftime outcome e (i # is) L =
     rbind (appender_log strftime (outcome i) e (lg_store L i)) (\<lambda>(a, out).
     rbind (log_all strftime outcome e is (L\<lparr>lg_store := (lg_store L)(i := a)\<rparr>)) (\<lambda>(L, out').
       Inr (L, out @ out')))"

definition Logger_log ::
    "(string \<Rightarrow> nat \<Rightarrow> string) \<Rightarrow> (nat \<Rightarrow> bool \<times> nat option) \<Rightarrow> log_event \<Rightarrow> logger \<Rightarrow> log_system \<Rightarrow>
     (log_system \<times> (sink \<times> string) list) res" where
  "Logger_log strftime outcome e l L =
     (if level_value (le_level e) \<le> level_value (lo_level l) then log_all strftime outcome e (lo_appenders l) L
      else Inr (L, []))"

text \<open>The macro \<^verbatim>\<open>SYLAR_LOG_LEVEL\<close>: below the level of the logger no event is made.\<close>

definition SYLAR_LOG_LEVEL ::
    "(string \<Rightarrow> nat \<Rightarrow> string) \<Rightarrow> (nat \<Rightarrow> bool \<times> nat option) \<Rightarrow> logger \<Rightarrow> log_level \<Rightarrow> log_event \<Rightarrow> log_system \<Rightarrow>
     (log_system \<times> (sink \<times> string) list) res" where
  "SYLAR_LOG_LEVEL strftime outcome l level e L =
     (if level_value level \<le> level_value (lo_level l)
      then Logger_log strftime outcome (e\<lparr>le_level := level, le_loggerName := lo_name l\<rparr>) l L
      else Inr (L, []))"

fun yaml_appenders :: "yaml_lib \<Rightarrow> log_system \<Rightarrow> nat list \<Rightarrow> yaml \<Rightarrow> yaml res" where
  "yaml_appenders Y L [] n = Inr n"
| "yaml_appenders Y L (i # is) n =
     rbind (appender_toYamlString Y (lg_store L i)) (\<lambda>s. rbind (y_load Y s) (\<lambda>v. yaml_appenders Y L is (yaml_push n v)))"

text \<open>With no appender the key \<^verbatim>\<open>appenders\<close> is never named.\<close>

definition logger_toYamlString :: "yaml_lib \<Rightarrow> log_system \<Rightarrow> logger \<Rightarrow> string res" where
  "logger_toYamlString Y L l =
     (let n = yaml_set (yaml_set YNull ''name'' (YScalar (lo_name l))) ''level''
         (YScalar (LogLevel_ToString (lo_level l)))
      in if lo_appenders l = [] then Inr (y_emit Y n)
         else rbind (yaml_appenders Y L (lo_appenders l) YNull) (\<lambda>as. Inr (y_emit Y (yaml_set n ''appenders'' as))))"

section \<open>The manager\<close>

definition new_appender :: "appender \<Rightarrow> log_system \<Rightarrow> nat \<times> log_system" where
  "new_appender a L = (lg_fresh L, L\<lparr>lg_store := (lg_store L)(lg_fresh L := a), lg_fresh := lg_fresh L + 1\<rparr>)"

definition put_logger :: "string \<Rightarrow> logger \<Rightarrow> log_system \<Rightarrow> log_system" where
  "put_logger name l L = L\<lparr>lg_loggers := map_assign str_less name l (lg_loggers L)\<rparr>"

definition LoggerManager :: "(nat \<Rightarrow> appender) \<Rightarrow> nat \<Rightarrow> log_system res" where
  "LoggerManager store now =
     rbind StdoutLogAppender (\<lambda>a.
       case new_appender a \<lparr>lg_store = store, lg_fresh = 0, lg_loggers = []\<rparr> of
         (i, L) \<Rightarrow> Inr (put_logger ''root'' (addAppender i (new_logger ''root'' now)) L))"

definition getLogger :: "string \<Rightarrow> nat \<Rightarrow> log_system \<Rightarrow> logger \<times> log_system" where
  "getLogger name now L =
     (case map_find str_less name (lg_loggers L) of
        Some kv \<Rightarrow> (snd kv, L)
      | None \<Rightarrow> (new_logger name now, put_logger name (new_logger name now) L))"

fun yaml_loggers :: "yaml_lib \<Rightarrow> log_system \<Rightarrow> (string \<times> logger) list \<Rightarrow> yaml \<Rightarrow> yaml res" where
  "yaml_loggers Y L [] n = Inr n"
| "yaml_loggers Y L ((k, l) # ls) n =
     rbind (logger_toYamlString Y L l) (\<lambda>s. rbind (y_load Y s) (\<lambda>v. yaml_loggers Y L ls (yaml_push n v)))"

definition manager_toYamlString :: "yaml_lib \<Rightarrow> log_system \<Rightarrow> string res" where
  "manager_toYamlString Y L = rbind (yaml_loggers Y L (lg_loggers L) YNull) (\<lambda>n. Inr (y_emit Y n))"

end
