(* ===== verification/LogProps.thy ===== *)
theory LogProps
  imports Log
begin

text \<open>
  The log module: patterns are parsed back to the items they were written from, where the parser is undefined or mixes
  date formats, what the manager keeps of its loggers, and how one failed write silences a file for good.
\<close>

section \<open>Scanning a pattern\<close>

lemma scan_Nil [simp]: "scan [] m tmp date ps = Inr (Some (tmp, date, ps))"
  by (simp add: scan.simps)

lemma scan_plain: "CHR ''%'' \<notin> set s \<Longrightarrow> scan (s @ left) True tmp date ps = scan left True (tmp @ s) date ps"
  by (induction s arbitrary: tmp) (auto simp: scan.simps)

lemma scan_conversion:
  "c \<noteq> CHR ''d'' \<Longrightarrow>
   scan (CHR ''%'' # c # left) True tmp date ps = scan left True [] date (keep_text tmp ps @ [(1, [c])])"
  by (simp add: scan.simps(2) [of "CHR ''%''"] scan.simps(2) [of c])

lemma scan_date:
  assumes "CHR ''}'' \<notin> set f"
  shows "scan (''%d{'' @ f @ CHR ''}'' # left) True tmp date ps =
    scan left True [] (date @ f) (keep_text tmp ps @ [(1, ''d'')])"
proof -
  have "takeWhile (\<lambda>x. x \<noteq> CHR ''}'') (f @ CHR ''}'' # left) = f"
    "dropWhile (\<lambda>x. x \<noteq> CHR ''}'') (f @ CHR ''}'' # left) = CHR ''}'' # left"
    using assms by (auto simp: takeWhile_append dropWhile_append)
  then show ?thesis by (simp add: scan.simps(2) [of "CHR ''%''"] scan.simps(2) [of "CHR ''d''"])
qed

lemma scan_date_unclosed:
  assumes "CHR ''}'' \<notin> set f"
  shows "scan (''%d{'' @ f) True tmp date ps = Inr None"
proof -
  have "dropWhile (\<lambda>x. x \<noteq> CHR ''}'') f = []" using assms by auto
  then show ?thesis by (simp add: scan.simps(2) [of "CHR ''%''"] scan.simps(2) [of "CHR ''d''"])
qed

lemma scan_date_at_end: "scan ''%d'' True tmp date ps = Inl UndefinedBehaviour"
  by (simp add: scan.simps(2) [of "CHR ''%''"] scan.simps(2) [of "CHR ''d''"])

section \<open>Writing a pattern\<close>

fun conversion :: "format_item \<Rightarrow> char" where
  "conversion MessageItem = CHR ''m''"
| "conversion LevelItem = CHR ''p''"
| "conversion ElapseItem = CHR ''r''"
| "conversion LoggerNameItem = CHR ''c''"
| "conversion ThreadIdItem = CHR ''t''"
| "conversion FiberIdItem = CHR ''F''"
| "conversion ThreadNameItem = CHR ''N''"
| "conversion (DateTimeItem f) = CHR ''d''"
| "conversion FileNameItem = CHR ''f''"
| "conversion LineItem = CHR ''l''"
| "conversion NewLineItem = CHR ''n''"
| "conversion (StringItem s) = CHR ''s''"
| "conversion TabItem = CHR ''T''"
| "conversion PercentItem = CHR ''%''"

fun pattern_text :: "format_item \<Rightarrow> string" where
  "pattern_text (StringItem s) = s"
| "pattern_text (DateTimeItem f) = ''%d{'' @ f @ ''}''"
| "pattern_text i = [CHR ''%'', conversion i]"

fun piece :: "format_item \<Rightarrow> nat \<times> string" where
  "piece (StringItem s) = (0, s)"
| "piece i = (1, [conversion i])"

fun is_text :: "format_item \<Rightarrow> bool" where
  "is_text (StringItem s) = True"
| "is_text _ = False"

fun date_of :: "format_item \<Rightarrow> string" where
  "date_of (DateTimeItem f) = f"
| "date_of _ = []"

fun item_ok :: "format_item \<Rightarrow> bool" where
  "item_ok (StringItem s) \<longleftrightarrow> s \<noteq> [] \<and> CHR ''%'' \<notin> set s"
| "item_ok (DateTimeItem f) \<longleftrightarrow> f \<noteq> [] \<and> CHR ''}'' \<notin> set f"
| "item_ok _ = True"

text \<open>No two plain texts stand side by side.\<close>

fun texts_apart :: "format_item list \<Rightarrow> bool" where
  "texts_apart (i # j # is) \<longleftrightarrow> \<not> (is_text i \<and> is_text j) \<and> texts_apart (j # is)"
| "texts_apart _ = True"

lemma texts_apart_Cons:
  "texts_apart (i # is) \<longleftrightarrow> texts_apart is \<and> (is = [] \<or> \<not> is_text i \<or> \<not> is_text (hd is))"
  by (cases "is") auto

lemma keep_text_Nil [simp]: "keep_text [] ps = ps"
  by (simp add: keep_text_def)

lemma scan_item:
  assumes "item_ok i" and "\<not> is_text i"
  shows "scan (pattern_text i @ left) True tmp date ps =
    scan left True [] (date @ date_of i) (keep_text tmp ps @ [piece i])"
  using assms scan_date [of "date_of i" left tmp date ps] by (cases i) (simp_all add: scan_conversion)

lemma scan_items:
  assumes "list_all item_ok is" and "texts_apart is" and "is = [] \<or> tmp = [] \<or> \<not> is_text (hd is)"
  shows "\<exists>tmp' ps'. scan (concat (map pattern_text is) @ left) True tmp date ps =
      scan left True tmp' (date @ concat (map date_of is)) ps' \<and>
    keep_text tmp' ps' = keep_text tmp ps @ map piece is"
  using assms
proof (induction "is" arbitrary: tmp date ps)
  case Nil
  show ?case by (intro exI [of _ tmp] exI [of _ ps]) simp
next
  case (Cons i "is")
  show ?case
  proof (cases "is_text i")
    case True
    then obtain s where i: "i = StringItem s" by (cases i) auto
    then have s: "s \<noteq> []" "CHR ''%'' \<notin> set s" "tmp = []" using Cons.prems by auto
    have "\<exists>tmp' ps'. scan (concat (map pattern_text is) @ left) True s date ps =
        scan left True tmp' (date @ concat (map date_of is)) ps' \<and> keep_text tmp' ps' = keep_text s ps @ map piece is"
      using Cons.prems True by (intro Cons.IH) (auto simp: texts_apart_Cons)
    then show ?thesis using s i scan_plain [of s] by (auto simp: keep_text_def)
  next
    case False
    have "\<exists>tmp' ps'. scan (concat (map pattern_text is) @ left) True [] (date @ date_of i) (keep_text tmp ps @ [piece i]) =
        scan left True tmp' (date @ date_of i @ concat (map date_of is)) ps' \<and>
        keep_text tmp' ps' = keep_text tmp ps @ piece i # map piece is"
      using Cons.prems Cons.IH [of "[]" "date @ date_of i" "keep_text tmp ps @ [piece i]"]
      by (auto simp: texts_apart_Cons)
    then show ?thesis using False Cons.prems(1) by (simp add: scan_item)
  qed
qed

lemma make_items_pieces:
  "list_all item_ok is \<Longrightarrow> list_all (\<lambda>i. date_of i \<in> {[], date}) is \<Longrightarrow> make_items date (map piece is) = (is, False)"
proof (induction "is")
  case (Cons i "is")
  then show ?case by (cases i) (auto simp: new_DateTimeItem_def format_items_def)
qed simp

lemma one_date:
  "length (filter (\<lambda>i. date_of i \<noteq> []) is) \<le> 1 \<Longrightarrow> list_all (\<lambda>i. date_of i \<in> {[], concat (map date_of is)}) is"
proof (induction "is")
  case (Cons i "is")
  show ?case
  proof (cases "date_of i = []")
    case True
    with Cons show ?thesis by simp
  next
    case False
    with Cons.prems have "filter (\<lambda>i. date_of i \<noteq> []) is = []" by simp
    then have none: "\<forall>j\<in>set is. date_of j = []" by (simp add: filter_empty_conv)
    then have "concat (map date_of is) = []" by simp
    with none show ?thesis by (simp add: list_all_iff)
  qed
qed simp

text \<open>C34: a pattern is parsed back to what it was written from: any sequence of conversions and plain texts without
  percent signs, no two texts side by side, with at most one date format without a closing brace.\<close>

theorem pattern_roundtrip:
  assumes "list_all item_ok is" and "texts_apart is" and "length (filter (\<lambda>i. date_of i \<noteq> []) is) \<le> 1"
  shows "LogFormatter (concat (map pattern_text is)) =
    Inr \<lparr>lf_pattern = concat (map pattern_text is), lf_items = is, lf_error = False\<rparr>"
proof -
  obtain tmp ps where "scan (concat (map pattern_text is)) True [] [] [] = Inr (Some (tmp, concat (map date_of is), ps))"
    "keep_text tmp ps = map piece is"
    using scan_items [OF assms(1,2), of "[]" "[]" "[]" "[]"] by auto
  then show ?thesis
    using make_items_pieces [OF assms(1) one_date [OF assms(3)]] by (simp add: LogFormatter_def)
qed

text \<open>The items of the default pattern.\<close>

definition default_items :: "format_item list" where
  "default_items =
     [DateTimeItem ''%Y-%m-%d %H:%M:%S'', StringItem '' ['', ElapseItem, StringItem ''ms]'', TabItem, ThreadIdItem, TabItem,
      ThreadNameItem, TabItem, FiberIdItem, TabItem, StringItem ''['', LevelItem, StringItem '']'', TabItem, StringItem ''['',
      LoggerNameItem, StringItem '']'', TabItem, FileNameItem, StringItem '':'', LineItem, TabItem, MessageItem, NewLineItem]"

theorem pattern_roundtrip_witness:
  "LogFormatter default_pattern = Inr \<lparr>lf_pattern = default_pattern, lf_items = default_items, lf_error = False\<rparr>"
proof -
  have "concat (map pattern_text default_items) = default_pattern" by code_simp
  moreover have "list_all item_ok default_items" "texts_apart default_items"
    "length (filter (\<lambda>i. date_of i \<noteq> []) default_items) \<le> 1"
    by code_simp+
  ultimately show ?thesis using pattern_roundtrip [of default_items] by simp
qed

text \<open>Where the parser goes wrong, after any well-formed beginning: a \<^verbatim>\<open>%d\<close> at the end reads past the pattern, and
  an open brace is the error the code means to find.\<close>

theorem pattern_end:
  assumes "list_all item_ok is" and "texts_apart is" and "CHR ''}'' \<notin> set f"
  shows "LogFormatter (concat (map pattern_text is) @ ''%d'') = Inl UndefinedBehaviour \<and>
    (\<exists>F. LogFormatter (concat (map pattern_text is) @ ''%d{'' @ f) = Inr F \<and> lf_error F \<and> lf_items F = [])"
  using scan_items [OF assms(1,2), of "[]" "''%d''" "[]" "[]"]
    scan_items [OF assms(1,2), of "[]" "''%d{'' @ f" "[]" "[]"] scan_date_at_end scan_date_unclosed [OF assms(3)]
  by (auto simp: LogFormatter_def)

theorem pattern_end_witness:
  "LogFormatter ''%m%n%d'' = Inl UndefinedBehaviour \<and>
   (\<exists>F. LogFormatter ''%m%n%d{%H'' = Inr F \<and> lf_error F \<and> lf_items F = [])"
  using pattern_end [of "[MessageItem, NewLineItem]" "''%H''"] by simp

text \<open>All dates of a pattern are printed in one format, that of the braces of all of them together.\<close>

theorem date_formats_mixed:
  assumes "CHR ''}'' \<notin> set a" and "CHR ''}'' \<notin> set b" and "a \<noteq> []"
  shows "\<exists>F. LogFormatter (''%d{'' @ a @ ''}%d{'' @ b @ ''}'') = Inr F \<and>
    lf_items F = [DateTimeItem (a @ b), DateTimeItem (a @ b)]"
  using scan_date [OF assms(1), of "''%d{'' @ b @ ''}''" "[]" "[]" "[]"] scan_date [OF assms(2), of "[]" "[]" a "[(1, ''d'')]"]
    assms(3)
  by (simp add: LogFormatter_def new_DateTimeItem_def)

theorem date_formats_mixed_witness:
  "\<exists>F. LogFormatter ''%d{%H}%d{:%M}'' = Inr F \<and> lf_items F = [DateTimeItem ''%H:%M'', DateTimeItem ''%H:%M'']"
  using date_formats_mixed [of "''%H''" "'':%M''"] by simp

section \<open>A failed write\<close>

text \<open>A run of one appender over events, each with the outcomes of its calls.\<close>

fun log_run ::
    "(string \<Rightarrow> nat \<Rightarrow> string) \<Rightarrow> ((bool \<times> nat option) \<times> log_event) list \<Rightarrow> appender \<Rightarrow>
     (appender \<times> (sink \<times> string) list) res" where
  "log_run strftime [] a = Inr (a, [])"
| "log_run strftime (x # xs) a =
     rbind (appender_log strftime (fst x) (snd x) a) (\<lambda>(a, out).
     rbind (log_run strftime xs a) (\<lambda>(a, out'). Inr (a, out @ out')))"

definition jammed :: "appender \<Rightarrow> bool" where
  "jammed a \<longleftrightarrow> ap_open a \<and> \<not> ap_good a"

lemma jammed_log:
  assumes "jammed a" and "appender_log strftime outcome e a = Inr (a', out)"
    and "ap_sink a = ToFile file"
  shows "jammed a' \<and> ap_sink a' = ToFile file \<and> list_all (\<lambda>x. fst x = ToStdout) out"
  using assms
  by (auto simp: jammed_def appender_log_def reopen_when_due_def reopen_def Let_def write_stream_def format_error_def
      rbind_eq_Inr split: if_splits)

lemma jammed_run:
  "jammed a \<Longrightarrow> ap_sink a = ToFile file \<Longrightarrow> log_run strftime xs a = Inr (a', out) \<Longrightarrow>
   list_all (\<lambda>x. fst x = ToStdout) out"
proof (induction xs arbitrary: a out)
  case (Cons x xs)
  then obtain b o1 o2 where "appender_log strftime (fst x) (snd x) a = Inr (b, o1)"
    "log_run strftime xs b = Inr (a', o2)" "out = o1 @ o2"
    by (auto simp: rbind_eq_Inr)
  then show ?case using jammed_log [OF Cons.prems(1) _ Cons.prems(2)] Cons.IH by fastforce
qed simp

text \<open>One write that fails silences a file for good: the stream is neither closed nor opened again, so whatever
  comes later, and however well the file could be opened and written then, nothing goes to the file any more.\<close>

theorem failed_write_silences:
  assumes "ap_sink a = ToFile file" and "ap_open a" and "\<not> ap_reopenError a" and "le_time e < ap_lastTime a + 3"
    and "log_run strftime (((opens, Some k), e) # xs) a = Inr (a', out)"
  shows "\<exists>s later. out = (if ap_good a then [(ToFile file, take k s)] else []) @ later \<and>
    list_all (\<lambda>x. fst x = ToStdout) later"
proof -
  obtain b o1 o2 where b: "appender_log strftime (opens, Some k) e a = Inr (b, o1)"
    and r: "log_run strftime xs b = Inr (a', o2)" "out = o1 @ o2"
    using assms(5) by (auto simp: rbind_eq_Inr)
  from b have "jammed b \<and> ap_sink b = ToFile file \<and>
      (\<exists>s. o1 = (if ap_good a then [(ToFile file, take k s)] else []) @ [format_error])"
    using assms(1-4)
    by (auto simp: jammed_def appender_log_def reopen_when_due_def write_stream_def rbind_eq_Inr split: if_splits)
  then obtain s where "jammed b" "ap_sink b = ToFile file"
      "o1 = (if ap_good a then [(ToFile file, take k s)] else []) @ [format_error]"
    by blast
  with jammed_run [OF this(1,2) r(1)] r(2) show ?thesis
    by (intro exI [of _ s] exI [of _ "format_error # o2"]) (simp add: format_error_def)
qed

definition sample_event :: "nat \<Rightarrow> string \<Rightarrow> log_event" where
  "sample_event t text =
     \<lparr>le_level = INFO, le_content = text, le_file = ''a.cc'', le_line = 1, le_elapse = 0, le_threadId = 1, le_fiberId = 0,
      le_time = t, le_threadName = ''t'', le_loggerName = ''root''\<rparr>"

definition sample_appender :: appender where
  "sample_appender =
     (let f = \<lparr>lf_pattern = ''%m'', lf_items = [MessageItem], lf_error = False\<rparr>
      in \<lparr>ap_sink = ToFile ''a.log'', ap_formatter = None, ap_default = f, ap_open = True, ap_good = True, ap_lastTime = 9,
          ap_reopenError = False\<rparr>)"

theorem failed_write_silences_witness:
  "\<exists>a out. log_run (\<lambda>_ _. []) [((True, Some 2), sample_event 10 ''lost''), ((True, None), sample_event 100 ''never'')] sample_appender =
     Inr (a, out) \<and> filter (\<lambda>x. fst x = ToFile ''a.log'') out = [(ToFile ''a.log'', ''lo'')]"
proof -
  let ?r = "log_run (\<lambda>_ _. []) [((True, Some 2), sample_event 10 ''lost''), ((True, None), sample_event 100 ''never'')] sample_appender"
  have "(case ?r of Inr (a, out) \<Rightarrow> out \<noteq> [] \<and> hd out = (ToFile ''a.log'', ''lo'') | Inl _ \<Rightarrow> False)" by code_simp
  then obtain a out where r: "?r = Inr (a, out)" and h: "out \<noteq> []" "hd out = (ToFile ''a.log'', ''lo'')"
    by (cases ?r) auto
  from failed_write_silences [OF _ _ _ _ r, of "''a.log''"] obtain s later where
    "out = [(ToFile ''a.log'', take 2 s)] @ later" "list_all (\<lambda>x. fst x = ToStdout) later"
    by (auto simp: sample_appender_def sample_event_def)
  with h r show ?thesis by (auto simp: list_all_iff filter_empty_conv)
qed

section \<open>Levels\<close>

lemma level_names_known: "l \<noteq> NOTSET \<Longrightarrow> LogLevel_FromString (LogLevel_ToString l) = l"
  by (cases l) (simp_all add: LogLevel_FromString_def level_names_def)

lemma level_roundtrip [simp]: "LogLevel_FromString (LogLevel_ToString l) = l"
  by (cases "l = NOTSET") (simp_all add: level_names_known, simp add: LogLevel_FromString_def level_names_def)

section \<open>The manager\<close>

lemma default_formatter:
  "LogFormatter default_pattern = Inr \<lparr>lf_pattern = default_pattern, lf_items = default_items, lf_error = False\<rparr>"
  by code_simp

text \<open>The manager cannot print itself as it is made: its root logger writes to the console in the default format, and
  the console appender takes the pattern of the formatter that was never set.\<close>

theorem manager_yaml_undefined:
  "\<exists>L. LoggerManager store now = Inr L \<and> manager_toYamlString Y L = Inl UndefinedBehaviour"
  by (simp add: LoggerManager_def StdoutLogAppender_def default_formatter new_appender_def put_logger_def addAppender_def
      new_logger_def manager_toYamlString_def logger_toYamlString_def appender_toYamlString_def Let_def)

text \<open>The loggers of the manager: sorted, each under its own name, the root among them.\<close>

definition loggers_ok :: "log_system \<Rightarrow> bool" where
  "loggers_ok L \<longleftrightarrow> ordered_by str_less (map fst (lg_loggers L)) \<and> map_value str_less ''root'' (lg_loggers L) \<noteq> None \<and>
     list_all (\<lambda>kv. lo_name (snd kv) = fst kv) (lg_loggers L)"

end
