(* ===== verification/Config.thy ===== *)
theory Config
  imports OrdMap Yaml
begin

text \<open>
  The configuration (\<^verbatim>\<open>sylar/config.h\<close>, \<^verbatim>\<open>sylar/config.cc\<close>): variables with their listeners, the registry of variables by
  name, and loading of YAML into them. A variable carries the conversions of its type. \<open>'w\<close> is what listeners act on;
  a call that can throw answers with its result and the state it leaves behind.
\<close>

section \<open>Variables\<close>

type_synonym ('v, 'w) listener = "'v \<Rightarrow> 'v \<Rightarrow> 'w \<Rightarrow> unit res \<times> 'w"

record ('v, 'w) config_var =
  cv_type :: string
  cv_from :: "string \<Rightarrow> 'v res"
  cv_to :: "'v \<Rightarrow> string res"
  cv_eq :: "'v \<Rightarrow> 'v \<Rightarrow> bool"
  cv_name :: string
  cv_description :: string
  cv_val :: 'v
  cv_cbs :: "(nat \<times> ('v, 'w) listener) list"

text \<open>What a type brings: its name, the conversions from and to text, and its equality.\<close>

record 'v config_type =
  ct_name :: string
  ct_from :: "string \<Rightarrow> 'v res"
  ct_to :: "'v \<Rightarrow> string res"
  ct_eq :: "'v \<Rightarrow> 'v \<Rightarrow> bool"

definition new_config_var :: "'v config_type \<Rightarrow> string \<Rightarrow> 'v \<Rightarrow> string \<Rightarrow> ('v, 'w) config_var" where
  "new_config_var T name dflt description =
     \<lparr>cv_type = ct_name T, cv_from = ct_from T, cv_to = ct_to T, cv_eq = ct_eq T, cv_name = map tolower name,
      cv_description = description, cv_val = dflt, cv_cbs = []\<rparr>"

text \<open>A handler for \<^verbatim>\<open>std::exception\<close>.\<close>

fun caught :: "fault \<Rightarrow> bool" where
  "caught UndefinedBehaviour = False"
| "caught AssertionFailure = False"
| "caught _ = True"

definition var_toString :: "('v, 'w) config_var \<Rightarrow> string res" where
  "var_toString V = (case cv_to V (cv_val V) of Inr s \<Rightarrow> Inr s | Inl e \<Rightarrow> if caught e then Inr [] else Inl e)"

fun run_listeners :: "(nat \<times> ('v, 'w) listener) list \<Rightarrow> 'v \<Rightarrow> 'v \<Rightarrow> 'w \<Rightarrow> unit res \<times> 'w" where
  "run_listeners [] old new w = (Inr (), w)"
| "run_listeners ((k, cb) # cbs) old new w =
     (case cb old new w of (Inl e, w) \<Rightarrow> (Inl e, w) | (Inr _, w) \<Rightarrow> run_listeners cbs old new w)"

definition setValue :: "'v \<Rightarrow> ('v, 'w) config_var \<Rightarrow> 'w \<Rightarrow> unit res \<times> ('v, 'w) config_var \<times> 'w" where
  "setValue v V w =
     (if cv_eq V v (cv_val V) then (Inr (), V, w)
      else case run_listeners (cv_cbs V) (cv_val V) v w of
          (Inl e, w) \<Rightarrow> (Inl e, V, w)
        | (Inr _, w) \<Rightarrow> (Inr (), V\<lparr>cv_val := v\<rparr>, w))"

text \<open>\<open>fromString\<close> has no \<^verbatim>\<open>return true\<close>.\<close>

definition var_fromString :: "string \<Rightarrow> ('v, 'w) config_var \<Rightarrow> 'w \<Rightarrow> bool res \<times> ('v, 'w) config_var \<times> 'w" where
  "var_fromString text V w =
     (let (r, V, w) = (case cv_from V text of Inl e \<Rightarrow> (Inl e, V, w) | Inr v \<Rightarrow> setValue v V w)
      in (case r of Inr _ \<Rightarrow> Inr False | Inl e \<Rightarrow> if caught e then Inr False else Inl e, V, w))"

text \<open>The listeners, a map by number; the last number used is kept for each type of variable.\<close>

definition addListener :: "('v, 'w) listener \<Rightarrow> nat \<Rightarrow> ('v, 'w) config_var \<Rightarrow> nat \<times> nat \<times> ('v, 'w) config_var" where
  "addListener cb fun_id V =
     (let fun_id = fun_id + 1 in (fun_id, fun_id, V\<lparr>cv_cbs := map_assign (<) fun_id cb (cv_cbs V)\<rparr>))"

definition delListener :: "nat \<Rightarrow> ('v, 'w) config_var \<Rightarrow> ('v, 'w) config_var" where
  "delListener key V = V\<lparr>cv_cbs := map_erase (<) key (cv_cbs V)\<rparr>"

definition getListener :: "nat \<Rightarrow> ('v, 'w) config_var \<Rightarrow> ('v, 'w) listener option" where
  "getListener key V = map_option snd (map_find (<) key (cv_cbs V))"

definition clearListener :: "('v, 'w) config_var \<Rightarrow> ('v, 'w) config_var" where
  "clearListener V = V\<lparr>cv_cbs := []\<rparr>"

section \<open>The registry\<close>

record ('v, 'w) config =
  cf_datas :: "string \<Rightarrow> ('v, 'w) config_var option"
  cf_modified :: "string \<Rightarrow> nat"

definition new_config :: "('v, 'w) config" where
  "new_config = \<lparr>cf_datas = (\<lambda>_. None), cf_modified = (\<lambda>_. 0)\<rparr>"

definition name_chars :: string where
  "name_chars = ''abcdefghikjlmnopqrstuvwxyz._012345678''"

text \<open>\<^verbatim>\<open>find_first_not_of\<close> finds nothing.\<close>

definition name_ok :: "string \<Rightarrow> bool" where
  "name_ok name \<longleftrightarrow> list_all (\<lambda>c. c \<in> set name_chars) name"

definition LookupBase :: "string \<Rightarrow> ('v, 'w) config \<Rightarrow> ('v, 'w) config_var option" where
  "LookupBase name C = cf_datas C name"

text \<open>The two overloads of \<open>Lookup\<close>; the pointer answered is that of the variable of this name, \<open>None\<close> a null pointer.\<close>

definition Lookup ::
    "'v config_type \<Rightarrow> string \<Rightarrow> 'v \<Rightarrow> string \<Rightarrow> ('v, 'w) config \<Rightarrow> string option res \<times> ('v, 'w) config" where
  "Lookup T name dflt description C =
     (case cf_datas C name of
        Some V \<Rightarrow> (Inr (if cv_type V = ct_name T then Some name else None), C)
      | None \<Rightarrow>
          if \<not> name_ok name then (Inl InvalidArgument, C)
          else (Inr (Some name), C\<lparr>cf_datas := (cf_datas C)(name := Some (new_config_var T name dflt description))\<rparr>))"

definition Lookup_typed :: "'v config_type \<Rightarrow> string \<Rightarrow> ('v, 'w) config \<Rightarrow> string option" where
  "Lookup_typed T name C =
     (case cf_datas C name of None \<Rightarrow> None | Some V \<Rightarrow> if cv_type V = ct_name T then Some name else None)"

text \<open>\<open>Visit\<close>; the order of the table is an argument.\<close>

fun Visit :: "(('v, 'w) config_var \<Rightarrow> 'x \<Rightarrow> 'x) \<Rightarrow> string list \<Rightarrow> ('v, 'w) config \<Rightarrow> 'x \<Rightarrow> 'x" where
  "Visit cb [] C x = x"
| "Visit cb (name # names) C x = Visit cb names C (case cf_datas C name of Some V \<Rightarrow> cb V x | None \<Rightarrow> x)"

section \<open>Loading\<close>

lemma size_pair_list: "(k, v) \<in> set m \<Longrightarrow> size v < Suc (size_list (size_prod size size) m)"
  by (induction m) auto

function ListAllMember :: "string \<Rightarrow> yaml \<Rightarrow> (string \<times> yaml) list" where
  "ListAllMember pre node =
     (if \<not> name_ok pre then []
      else (pre, node) #
        (case node of
           YMap m \<Rightarrow> concat (map (\<lambda>(k, v).
             ListAllMember (if pre = [] then yaml_scalar k else pre @ ''.'' @ yaml_scalar k) v) m)
         | _ \<Rightarrow> []))"
  by auto
termination
  by (relation "measure (\<lambda>(_, n). size n)") (auto dest: size_pair_list)

declare ListAllMember.simps [simp del]

definition node_text :: "yaml_lib \<Rightarrow> yaml \<Rightarrow> string" where
  "node_text Y n = (case n of YScalar s \<Rightarrow> s | _ \<Rightarrow> y_emit Y n)"

definition store_var :: "string \<Rightarrow> ('v, 'w) config_var \<Rightarrow> ('v, 'w) config \<Rightarrow> ('v, 'w) config" where
  "store_var key V C = C\<lparr>cf_datas := (cf_datas C)(key := Some V)\<rparr>"

text \<open>The loop over the members.\<close>

fun load_members ::
    "yaml_lib \<Rightarrow> (string \<times> yaml) list \<Rightarrow> ('v, 'w) config \<Rightarrow> 'w \<Rightarrow> unit res \<times> ('v, 'w) config \<times> 'w" where
  "load_members Y [] C w = (Inr (), C, w)"
| "load_members Y ((name, node) # ns) C w =
     (let key = map tolower name
      in if name = [] then load_members Y ns C w
         else case LookupBase key C of
             None \<Rightarrow> load_members Y ns C w
           | Some V \<Rightarrow>
               (case var_fromString (node_text Y node) V w of
                  (Inl e, V, w) \<Rightarrow> (Inl e, store_var key V C, w)
                | (Inr _, V, w) \<Rightarrow> load_members Y ns (store_var key V C) w))"

definition LoadFromYaml :: "yaml_lib \<Rightarrow> yaml \<Rightarrow> ('v, 'w) config \<Rightarrow> 'w \<Rightarrow> unit res \<times> ('v, 'w) config \<times> 'w" where
  "LoadFromYaml Y root C w = load_members Y (ListAllMember [] root) C w"

text \<open>
  The loop over the files of the directory: each with its time of modification and what reading it gives. A file whose
  time is the one recorded is skipped; the time is recorded before the file is read. Any exception is caught.
\<close>

fun load_files ::
    "yaml_lib \<Rightarrow> bool \<Rightarrow> (string \<times> nat \<times> yaml res) list \<Rightarrow> ('v, 'w) config \<Rightarrow> 'w \<Rightarrow> unit res \<times> ('v, 'w) config \<times> 'w" where
  "load_files Y force [] C w = (Inr (), C, w)"
| "load_files Y force ((file, mtime, content) # fs) C w =
     (if \<not> force \<and> cf_modified C file = mtime then load_files Y force fs C w
      else
        let C = C\<lparr>cf_modified := (cf_modified C)(file := mtime)\<rparr>
        in case content of
             Inl e \<Rightarrow> if caught e then load_files Y force fs C w else (Inl e, C, w)
           | Inr root \<Rightarrow>
               (case LoadFromYaml Y root C w of
                  (Inl e, C, w) \<Rightarrow> if caught e then load_files Y force fs C w else (Inl e, C, w)
                | (Inr _, C, w) \<Rightarrow> load_files Y force fs C w))"

definition LoadFromConfDir ::
    "yaml_lib \<Rightarrow> (string \<Rightarrow> (string \<times> nat \<times> yaml res) list) \<Rightarrow> string \<Rightarrow> bool \<Rightarrow> ('v, 'w) config \<Rightarrow> 'w \<Rightarrow>
     unit res \<times> ('v, 'w) config \<times> 'w" where
  "LoadFromConfDir Y yml_files absolute_path force C w = load_files Y force (yml_files absolute_path) C w"

end
