(* ===== verification/LogConfig.thy ===== *)
theory LogConfig
  imports LogProps ConfigProps
begin

text \<open>
  The log section of the configuration (the second part of \<^verbatim>\<open>sylar/log.cpp\<close>): definitions of loggers, their
  conversion from and to YAML, and the listener that makes the loggers what a new section says. What a reload does to
  every logger, and which changes of a file it does not see.
\<close>

section \<open>Definitions of loggers\<close>

record appender_define =
  ad_type :: int
  ad_pattern :: string
  ad_file :: string

definition new_appender_define :: appender_define where
  "new_appender_define = \<lparr>ad_type = 0, ad_pattern = [], ad_file = []\<rparr>"

definition appender_define_eq :: "appender_define \<Rightarrow> appender_define \<Rightarrow> bool" where
  "appender_define_eq a b \<longleftrightarrow> ad_type a = ad_type b \<and> ad_pattern a = ad_pattern b \<and> ad_file a = ad_file b"

record log_define =
  ld_name :: string
  ld_level :: log_level
  ld_appenders :: "appender_define list"

text \<open>The code compares \<^verbatim>\<open>appenders\<close> with itself.\<close>

definition log_define_eq :: "log_define \<Rightarrow> log_define \<Rightarrow> bool" where
  "log_define_eq a b \<longleftrightarrow> ld_name a = ld_name b \<and> ld_level a = ld_level b \<and>
     list_all2 appender_define_eq (ld_appenders a) (ld_appenders a)"

definition log_define_less :: "log_define \<Rightarrow> log_define \<Rightarrow> bool" where
  "log_define_less a b \<longleftrightarrow> str_less (ld_name a) (ld_name b)"

definition log_define_isValid :: "log_define \<Rightarrow> bool" where
  "log_define_isValid d \<longleftrightarrow> ld_name d \<noteq> []"

section \<open>Conversion\<close>

text \<open>\<^verbatim>\<open>if(n[key].IsDefined()) x = n[key].as<std::string>()\<close>.\<close>

definition string_or :: "yaml_lib \<Rightarrow> string \<Rightarrow> yaml \<Rightarrow> string \<Rightarrow> string res" where
  "string_or Y dflt n key =
     rbind (y_get Y n key) (\<lambda>r. case r of None \<Rightarrow> Inr dflt | Some v \<Rightarrow> y_string Y v)"

text \<open>One entry of \<^verbatim>\<open>appenders\<close>; \<open>None\<close> when it is skipped.\<close>

definition read_appender :: "yaml_lib \<Rightarrow> yaml \<Rightarrow> appender_define option res" where
  "read_appender Y a =
     rbind (y_get Y a ''type'') (\<lambda>r.
       case r of
         None \<Rightarrow> Inr None
       | Some t \<Rightarrow>
           rbind (y_string Y t) (\<lambda>type.
             if type = ''FileLogAppender'' then
               rbind (y_get Y a ''file'') (\<lambda>r.
                 case r of
                   None \<Rightarrow> Inr None
                 | Some f \<Rightarrow>
                     rbind (y_string Y f) (\<lambda>file. rbind (string_or Y [] a ''pattern'') (\<lambda>pattern.
                       Inr (Some \<lparr>ad_type = 1, ad_pattern = pattern, ad_file = file\<rparr>))))
             else if type = ''StdoutLogAppender'' then
               rbind (string_or Y [] a ''pattern'') (\<lambda>pattern.
                 Inr (Some \<lparr>ad_type = 2, ad_pattern = pattern, ad_file = []\<rparr>))
             else Inr None))"

fun read_appenders :: "yaml_lib \<Rightarrow> yaml res list \<Rightarrow> appender_define list res" where
  "read_appenders Y [] = Inr []"
| "read_appenders Y (x # xs) =
     rbind x (\<lambda>a. rbind (read_appender Y a) (\<lambda>r. rbind (read_appenders Y xs) (\<lambda>as.
       Inr (case r of None \<Rightarrow> as | Some d \<Rightarrow> d # as))))"

definition LogDefine_from :: "yaml_lib \<Rightarrow> string \<Rightarrow> log_define res" where
  "LogDefine_from Y v =
     rbind (y_load Y v) (\<lambda>n. rbind (y_get Y n ''name'') (\<lambda>r.
       case r of
         None \<Rightarrow> Inl (Thrown ''log config name is null'')
       | Some nm \<Rightarrow>
           rbind (y_string Y nm) (\<lambda>name.
           rbind (string_or Y [] n ''level'') (\<lambda>level.
           rbind (y_get Y n ''appenders'') (\<lambda>as.
           rbind (case as of None \<Rightarrow> Inr [] | Some as \<Rightarrow> read_appenders Y (y_elems Y as)) (\<lambda>as.
             Inr \<lparr>ld_name = name, ld_level = LogLevel_FromString level, ld_appenders = as\<rparr>))))))"

definition appender_node :: "appender_define \<Rightarrow> yaml" where
  "appender_node a =
     (let n = (if ad_type a = 1 then yaml_set (yaml_set YNull ''type'' (YScalar ''FileLogAppender'')) ''file'' (YScalar (ad_file a))
               else if ad_type a = 2 then yaml_set YNull ''type'' (YScalar ''StdoutLogAppender'') else YNull)
      in if ad_pattern a = [] then n else yaml_set n ''pattern'' (YScalar (ad_pattern a)))"

definition define_node :: "log_define \<Rightarrow> yaml" where
  "define_node d =
     (let n = yaml_set (yaml_set YNull ''name'' (YScalar (ld_name d))) ''level'' (YScalar (LogLevel_ToString (ld_level d)))
      in if ld_appenders d = [] then n
         else yaml_set n ''appenders'' (foldl (\<lambda>s a. yaml_push s (appender_node a)) YNull (ld_appenders d)))"

definition LogDefine_to :: "yaml_lib \<Rightarrow> log_define \<Rightarrow> string res" where
  "LogDefine_to Y d = Inr (y_emit Y (define_node d))"

text \<open>The conversions of \<^verbatim>\<open>std::set<T>\<close>, over those of \<open>T\<close>.\<close>

fun read_set :: "yaml_lib \<Rightarrow> ('a \<Rightarrow> 'a \<Rightarrow> bool) \<Rightarrow> (string \<Rightarrow> 'a res) \<Rightarrow> yaml res list \<Rightarrow> 'a list \<Rightarrow> 'a list res" where
  "read_set Y lt from_text [] s = Inr s"
| "read_set Y lt from_text (x # xs) s =
     rbind x (\<lambda>n. rbind (from_text (y_emit Y n)) (\<lambda>a. read_set Y lt from_text xs (set_insert lt a s)))"

definition set_from :: "yaml_lib \<Rightarrow> ('a \<Rightarrow> 'a \<Rightarrow> bool) \<Rightarrow> (string \<Rightarrow> 'a res) \<Rightarrow> string \<Rightarrow> 'a list res" where
  "set_from Y lt from_text v = rbind (y_load Y v) (\<lambda>node. read_set Y lt from_text (y_elems Y node) [])"

fun write_set :: "yaml_lib \<Rightarrow> ('a \<Rightarrow> string res) \<Rightarrow> 'a list \<Rightarrow> yaml list res" where
  "write_set Y to_text [] = Inr []"
| "write_set Y to_text (a # as) =
     rbind (to_text a) (\<lambda>s. rbind (y_load Y s) (\<lambda>n. rbind (write_set Y to_text as) (\<lambda>ns. Inr (n # ns))))"

definition set_to :: "yaml_lib \<Rightarrow> ('a \<Rightarrow> string res) \<Rightarrow> 'a list \<Rightarrow> string res" where
  "set_to Y to_text as = rbind (write_set Y to_text as) (\<lambda>ns. Inr (y_emit Y (YSeq ns)))"

text \<open>The type of the variable \<^verbatim>\<open>logs\<close>.\<close>

definition logs_type :: "yaml_lib \<Rightarrow> log_define list config_type" where
  "logs_type Y =
     \<lparr>ct_name = ''std::set<LogDefine>'', ct_from = set_from Y log_define_less (LogDefine_from Y),
      ct_to = set_to Y (LogDefine_to Y), ct_eq = list_all2 log_define_eq\<rparr>"

section \<open>The listener\<close>

text \<open>What a call of the listener is given: \<^verbatim>\<open>strftime\<close>, the outcomes of writing its message, whether a file opens,
  whether the program runs as a daemon, the message, and the time.\<close>

record log_env =
  rl_strftime :: "string \<Rightarrow> nat \<Rightarrow> string"
  rl_outcome :: "nat \<Rightarrow> bool \<times> nat option"
  rl_opens :: "string \<Rightarrow> bool"
  rl_daemon :: bool
  rl_message :: log_event
  rl_now :: nat

type_synonym log_world = "log_system \<times> (sink \<times> string) list"

definition change_logger :: "string \<Rightarrow> (logger \<Rightarrow> logger) \<Rightarrow> log_system \<Rightarrow> log_system" where
  "change_logger name f L =
     (case map_find str_less name (lg_loggers L) of Some kv \<Rightarrow> put_logger name (f (snd kv)) L | None \<Rightarrow> L)"

text \<open>The appender of an entry; \<open>None\<close> where the loop goes on without one, a null pointer for any other type.\<close>

definition make_appender :: "log_env \<Rightarrow> appender_define \<Rightarrow> (appender \<times> (sink \<times> string) list) option res" where
  "make_appender E a =
     (if ad_type a = 1 then rbind (FileLogAppender (rl_opens E (ad_file a)) (ad_file a)) (\<lambda>r. Inr (Some r))
      else if ad_type a = 2 then
        if rl_daemon E then Inr None else rbind StdoutLogAppender (\<lambda>r. Inr (Some (r, [])))
      else Inl UndefinedBehaviour)"

fun add_appenders :: "log_env \<Rightarrow> string \<Rightarrow> appender_define list \<Rightarrow> log_world \<Rightarrow> log_world res" where
  "add_appenders E name [] (L, out) = Inr (L, out)"
| "add_appenders E name (a # as) (L, out) =
     rbind (make_appender E a) (\<lambda>r.
       case r of
         None \<Rightarrow> add_appenders E name as (L, out)
       | Some (ap, out') \<Rightarrow>
           rbind (LogFormatter (if ad_pattern a = [] then default_pattern else ad_pattern a)) (\<lambda>f.
             case new_appender (setFormatter f ap) L of
               (i, L) \<Rightarrow> add_appenders E name as (change_logger name (addAppender i) L, out @ out')))"

definition set_logger :: "log_env \<Rightarrow> log_define \<Rightarrow> log_world \<Rightarrow> log_world res" where
  "set_logger E d s =
     (let L = snd (getLogger (ld_name d) (rl_now E) (fst s));
          L = change_logger (ld_name d) (\<lambda>l. clearAppenders (setLevel (ld_level d) l)) L
      in add_appenders E (ld_name d) (ld_appenders d) (L, snd s))"

fun apply_new :: "log_env \<Rightarrow> log_define list \<Rightarrow> log_define list \<Rightarrow> log_world \<Rightarrow> log_world res" where
  "apply_new E old [] s = Inr s"
| "apply_new E old (d # ds) s =
     (case set_find log_define_less d old of
        None \<Rightarrow> rbind (set_logger E d s) (apply_new E old ds)
      | Some d' \<Rightarrow>
          if \<not> log_define_eq d d' then rbind (set_logger E d s) (apply_new E old ds) else apply_new E old ds s)"

fun apply_gone :: "log_env \<Rightarrow> log_define list \<Rightarrow> log_define list \<Rightarrow> log_system \<Rightarrow> log_system" where
  "apply_gone E new [] L = L"
| "apply_gone E new (d # ds) L =
     (case set_find log_define_less d new of
        Some _ \<Rightarrow> apply_gone E new ds L
      | None \<Rightarrow>
          let L = snd (getLogger (ld_name d) (rl_now E) L)
          in apply_gone E new ds (change_logger (ld_name d) (\<lambda>l. clearAppenders (setLevel NOTSET l)) L))"

text \<open>The message to the root logger, then the two loops.\<close>

definition announce :: "log_env \<Rightarrow> log_world \<Rightarrow> log_world res" where
  "announce E s =
     (case getLogger ''root'' (rl_now E) (fst s) of
        (root, L) \<Rightarrow>
          rbind (SYLAR_LOG_LEVEL (rl_strftime E) (rl_outcome E) root INFO (rl_message E) L) (\<lambda>(L, out).
            Inr (L, snd s @ out)))"

definition on_logs_change :: "log_env \<Rightarrow> (log_define list, log_world) listener" where
  "on_logs_change E old new s =
     (case rbind (announce E s) (apply_new E old new) of
        Inl e \<Rightarrow> (Inl e, s)
      | Inr (L, out) \<Rightarrow> (Inr (), apply_gone E new old L, out))"

end
