(* ===== verification/LogConfigProps.thy ===== *)
theory LogConfigProps
  imports LogConfig
begin

text \<open>
  The log section of the configuration: definitions are read back as they were written, a reload gives every logger
  what the new section says of it and leaves the others alone, and a change of appenders alone is not seen.
\<close>

section \<open>Definitions are read back\<close>

text \<open>What the loader can produce: files have a name, consoles none.\<close>

definition appender_ok :: "appender_define \<Rightarrow> bool" where
  "appender_ok a \<longleftrightarrow> ad_type a = 1 \<or> ad_type a = 2 \<and> ad_file a = []"

lemma read_appender_node:
  assumes "yaml_laws Y" and "appender_ok a"
  shows "read_appender Y (appender_node a) = Inr (Some a)"
  using assms(2)
  by (cases a) (auto simp: appender_ok_def read_appender_def appender_node_def string_or_def yaml_lawsD [OF assms(1)] Let_def)

lemma read_appender_nodes:
  "yaml_laws Y \<Longrightarrow> list_all appender_ok as \<Longrightarrow> read_appenders Y (map (Inr \<circ> appender_node) as) = Inr as"
  by (induction as) (simp_all add: read_appender_node)

lemma push_all: "foldl (\<lambda>s a. yaml_push s (f a)) (YSeq xs) as = YSeq (xs @ map f as)"
  by (induction as arbitrary: xs) simp_all

lemma push_some: "as \<noteq> [] \<Longrightarrow> foldl (\<lambda>s a. yaml_push s (f a)) YNull as = YSeq (map f as)"
  by (cases as) (simp_all add: push_all)

lemma define_read_back:
  assumes "yaml_laws Y" and "list_all appender_ok (ld_appenders d)"
  shows "LogDefine_from Y (y_emit Y (define_node d)) = Inr d"
proof (cases "ld_appenders d = []")
  case True
  then show ?thesis
    by (cases d) (simp add: LogDefine_from_def define_node_def string_or_def yaml_lawsD [OF assms(1)])
next
  case False
  then show ?thesis
    using read_appender_nodes [OF assms]
    by (cases d) (simp add: LogDefine_from_def define_node_def string_or_def push_some yaml_lawsD [OF assms(1)] map_map)
qed

interpretation log_defs: strict_weak_order log_define_less
  unfolding log_define_less_def by (rule strict_weak_order_pullback [OF str.strict_total_order_axioms])

lemma insert_last:
  "ordered_by log_define_less (xs @ [d]) \<Longrightarrow> set_insert log_define_less d xs = xs @ [d]"
  using log_defs.lt_asym by (induction xs) auto

lemma read_set_nodes:
  assumes "yaml_laws Y"
  shows "list_all (\<lambda>d. list_all appender_ok (ld_appenders d)) ds \<Longrightarrow> ordered_by log_define_less (s @ ds) \<Longrightarrow>
    read_set Y log_define_less (LogDefine_from Y) (map (Inr \<circ> define_node) ds) s = Inr (s @ ds)"
proof (induction ds arbitrary: s)
  case (Cons d ds)
  then have "ordered_by log_define_less (s @ [d])" by (auto simp: ordered_by_append)
  with Cons show ?case by (simp add: define_read_back [OF assms] insert_last)
qed simp

lemma write_set_nodes:
  "yaml_laws Y \<Longrightarrow> write_set Y (LogDefine_to Y) ds = Inr (map define_node ds)"
  by (induction ds) (simp_all add: LogDefine_to_def yaml_lawsD)

text \<open>C38: the section is read back as it was written: any sorted list of definitions whose appenders are files or
  consoles.\<close>

theorem logs_roundtrip:
  assumes "yaml_laws Y" and "ordered_by log_define_less ds" and "list_all (\<lambda>d. list_all appender_ok (ld_appenders d)) ds"
  shows "rbind (ct_to (logs_type Y) ds) (ct_from (logs_type Y)) = Inr ds"
  using read_set_nodes [OF assms(1,3), of "[]"] assms(2)
  by (simp add: logs_type_def set_to_def set_from_def write_set_nodes [OF assms(1)] yaml_lawsD [OF assms(1)] map_map)

definition sample_defines :: "log_define list" where
  "sample_defines =
     [\<lparr>ld_name = ''root'', ld_level = INFO, ld_appenders = [\<lparr>ad_type = 1, ad_pattern = ''%m%n'', ad_file = ''root.log''\<rparr>,
        \<lparr>ad_type = 2, ad_pattern = [], ad_file = []\<rparr>]\<rparr>,
      \<lparr>ld_name = ''system'', ld_level = DEBUG, ld_appenders = []\<rparr>]"

theorem logs_roundtrip_witness:
  "rbind (ct_to (logs_type yaml_values) sample_defines) (ct_from (logs_type yaml_values)) = Inr sample_defines"
proof -
  have "str_less ''root'' ''system''" by code_simp
  then show ?thesis
    using logs_roundtrip [OF yaml_values_laws, of sample_defines]
    by (simp add: sample_defines_def log_define_less_def appender_ok_def)
qed

section \<open>What the loggers look like\<close>

text \<open>
  The abstract view: for each name, the level and where its appenders write in which pattern. \<open>wanted\<close> is what a
  definition asks for.
\<close>

type_synonym logger_view = "string \<Rightarrow> (log_level \<times> (sink \<times> string) list) option"

definition describe :: "appender \<Rightarrow> sink \<times> string" where
  "describe a = (ap_sink a, lf_pattern (getFormatter a))"

abbreviation logger_of :: "log_system \<Rightarrow> string \<Rightarrow> logger option" where
  "logger_of L name \<equiv> map_value str_less name (lg_loggers L)"

definition log_view :: "log_system \<Rightarrow> logger_view" where
  "log_view L name = map_option (\<lambda>l. (lo_level l, map (\<lambda>i. describe (lg_store L i)) (lo_appenders l))) (logger_of L name)"

definition pattern_of :: "appender_define \<Rightarrow> string" where
  "pattern_of a = (if ad_pattern a = [] then default_pattern else ad_pattern a)"

definition wanted_appenders :: "bool \<Rightarrow> appender_define list \<Rightarrow> (sink \<times> string) list" where
  "wanted_appenders daemon as =
     map (\<lambda>a. (if ad_type a = 1 then ToFile (ad_file a) else ToStdout, pattern_of a))
       (filter (\<lambda>a. ad_type a = 1 \<or> \<not> daemon) as)"

definition wanted :: "bool \<Rightarrow> log_define \<Rightarrow> log_level \<times> (sink \<times> string) list" where
  "wanted daemon d = (ld_level d, wanted_appenders daemon (ld_appenders d))"

text \<open>The appenders that loggers name exist, and the root logger is there.\<close>

definition log_wf :: "log_system \<Rightarrow> bool" where
  "log_wf L \<longleftrightarrow> ordered_by str_less (map fst (lg_loggers L)) \<and> logger_of L ''root'' \<noteq> None \<and>
     (\<forall>name l. logger_of L name = Some l \<longrightarrow> (\<forall>i\<in>set (lo_appenders l). i < lg_fresh L))"

lemma str_same: "\<not> str_less a b \<and> \<not> str_less b a \<longleftrightarrow> a = b"
  using str_less_total str_less_irrefl by blast

lemma logger_put:
  "ordered_by str_less (map fst (lg_loggers L)) \<Longrightarrow>
   logger_of (put_logger name l L) n = (if n = name then Some l else logger_of L n) \<and>
   ordered_by str_less (map fst (lg_loggers (put_logger name l L)))"
  using str_same [of name n] by (auto simp: put_logger_def str.map_value_assign str.ordered_map_assign)

lemma put_logger_same [simp]: "lg_store (put_logger name l L) = lg_store L" "lg_fresh (put_logger name l L) = lg_fresh L"
  by (simp_all add: put_logger_def)

lemma change_logger_same [simp]:
  "lg_store (change_logger name f L) = lg_store L" "lg_fresh (change_logger name f L) = lg_fresh L"
  by (simp_all add: change_logger_def split: option.splits)

lemma change_logger_put:
  "change_logger name f L = (case logger_of L name of Some l \<Rightarrow> put_logger name (f l) L | None \<Rightarrow> L)"
  by (auto simp: change_logger_def map_value_def split: option.splits)

lemma logger_change:
  "ordered_by str_less (map fst (lg_loggers L)) \<Longrightarrow>
   logger_of (change_logger name f L) n = (if n = name then map_option f (logger_of L n) else logger_of L n) \<and>
   ordered_by str_less (map fst (lg_loggers (change_logger name f L)))"
  using logger_put by (auto simp: change_logger_put split: option.splits)

lemma getLogger_put:
  "snd (getLogger name now L) = (if logger_of L name = None then put_logger name (new_logger name now) L else L)"
  by (auto simp: getLogger_def map_value_def split: option.splits)

lemma logger_get:
  "ordered_by str_less (map fst (lg_loggers L)) \<Longrightarrow>
   logger_of (snd (getLogger name now L)) n =
     (if n = name \<and> logger_of L n = None then Some (new_logger name now) else logger_of L n) \<and>
   ordered_by str_less (map fst (lg_loggers (snd (getLogger name now L)))) \<and>
   lg_store (snd (getLogger name now L)) = lg_store L \<and> lg_fresh (snd (getLogger name now L)) = lg_fresh L"
  using logger_put by (auto simp: getLogger_put)

lemma getLogger_known: "logger_of L name = Some l \<Longrightarrow> getLogger name now L = (l, L)"
  by (auto simp: getLogger_def map_value_def split: option.splits)

lemma set_logger_ready:
  assumes "log_wf L" and "L' = change_logger name (\<lambda>l. clearAppenders (setLevel lv l)) (snd (getLogger name now L))"
  shows "log_wf L' \<and> log_view L' = (log_view L)(name := Some (lv, []))"
proof -
  have get: "logger_of (snd (getLogger name now L)) n =
       (if n = name \<and> logger_of L n = None then Some (new_logger name now) else logger_of L n)"
    and o: "ordered_by str_less (map fst (lg_loggers (snd (getLogger name now L))))"
    and store: "lg_store L' = lg_store L" "lg_fresh L' = lg_fresh L" for n
    using logger_get [where L = L and name = name and now = now and n = n] assms by (auto simp: log_wf_def)
  have l: "logger_of L' n = (if n = name then Some (clearAppenders (setLevel lv (case logger_of L n of
      None \<Rightarrow> new_logger name now | Some l \<Rightarrow> l))) else logger_of L n)"
    and "ordered_by str_less (map fst (lg_loggers L'))" for n
    using logger_change [OF o, where name = name and f = "\<lambda>l. clearAppenders (setLevel lv l)" and n = n] get assms(2) by (auto split: option.splits)
  then show ?thesis
    using assms(1) store
    by (auto simp: log_wf_def log_view_def clearAppenders_def setLevel_def fun_eq_iff split: if_splits option.splits)
qed

lemma make_appender_sink:
  assumes "make_appender E a = Inr (Some (ap, out))"
  shows "ap_sink ap = (if ad_type a = 1 then ToFile (ad_file a) else ToStdout) \<and> (ad_type a = 1 \<or> \<not> rl_daemon E)"
  using assms
  by (auto simp: make_appender_def FileLogAppender_def StdoutLogAppender_def reopen_def Let_def rbind_eq_Inr split: if_splits)

lemma make_appender_None: "make_appender E a = Inr None \<Longrightarrow> ad_type a \<noteq> 1 \<and> rl_daemon E"
  by (auto simp: make_appender_def rbind_eq_Inr split: if_splits)

lemma formatter_pattern: "LogFormatter p = Inr f \<Longrightarrow> lf_pattern f = p"
  by (auto simp: LogFormatter_def rbind_eq_Inr split_def split: option.split_asm)

text \<open>One more appender at the end of a logger.\<close>

lemma add_one:
  assumes "log_wf L" and "log_view L name = Some (lv, ds)" and "new_appender a L = (i, L1)"
  shows "log_wf (change_logger name (addAppender i) L1) \<and>
    log_view (change_logger name (addAppender i) L1) = (log_view L)(name := Some (lv, ds @ [describe a]))"
proof -
  have L1: "i = lg_fresh L" "L1 = L\<lparr>lg_store := (lg_store L)(lg_fresh L := a), lg_fresh := lg_fresh L + 1\<rparr>"
    using assms(3) by (auto simp: new_appender_def)
  let ?L = "change_logger name (addAppender i) L1"
  have o: "ordered_by str_less (map fst (lg_loggers L1))" using assms(1) L1(2) by (simp add: log_wf_def)
  have l: "logger_of ?L n = (if n = name then map_option (addAppender i) (logger_of L n) else logger_of L n)"
    "ordered_by str_less (map fst (lg_loggers ?L))" for n
    using logger_change [OF o, where name = name and f = "addAppender i" and n = n] L1(2) by auto
  have s: "lg_store ?L = (lg_store L)(i := a)" "lg_fresh ?L = Suc i" using L1 by simp_all
  have below: "\<And>n l j. logger_of L n = Some l \<Longrightarrow> j \<in> set (lo_appenders l) \<Longrightarrow> j < i"
    using assms(1) L1(1) by (auto simp: log_wf_def)
  have old: "map (\<lambda>j. describe (lg_store ?L j)) (lo_appenders l) = map (\<lambda>j. describe (lg_store L j)) (lo_appenders l)"
    if "logger_of L n = Some l" for n l
    using below [OF that] s(1) by (auto intro!: map_cong)
  have "log_view ?L n = ((log_view L)(name := Some (lv, ds @ [describe a]))) n" for n
  proof (cases "logger_of L n")
    case None
    then show ?thesis using assms(2) l by (auto simp: log_view_def)
  next
    case (Some l')
    then show ?thesis using assms(2) l(1) [of n] old [OF Some] s(1) by (auto simp: log_view_def addAppender_def)
  qed
  moreover have "log_wf ?L"
    using assms(1) l s below by (auto simp: log_wf_def addAppender_def less_Suc_eq split: if_splits)
  ultimately show ?thesis by auto
qed

lemma add_appenders_view:
  "add_appenders E name as (L, out) = Inr (L', out') \<Longrightarrow> log_wf L \<Longrightarrow> log_view L name = Some (lv, ds) \<Longrightarrow>
   log_wf L' \<and> log_view L' = (log_view L)(name := Some (lv, ds @ wanted_appenders (rl_daemon E) as))"
proof (induction as arbitrary: L out ds)
  case Nil
  then show ?case by (auto simp: wanted_appenders_def)
next
  case (Cons a as)
  from Cons.prems(1) obtain r where r: "make_appender E a = Inr r" by (auto simp: rbind_eq_Inr)
  show ?case
  proof (cases r)
    case None
    have "add_appenders E name as (L, out) = Inr (L', out')" using Cons.prems(1) r None by simp
    from Cons.IH [OF this Cons.prems(2,3)] make_appender_None [of E a] r None
    show ?thesis by (simp add: wanted_appenders_def)
  next
    case (Some x)
    obtain ap o1 where x: "x = (ap, o1)" by fastforce
    obtain f where f: "LogFormatter (pattern_of a) = Inr f"
      and c: "(case new_appender (setFormatter f ap) L of
        (i, L) \<Rightarrow> add_appenders E name as (change_logger name (addAppender i) L, out @ o1)) = Inr (L', out')"
      using Cons.prems(1) r Some x by (auto simp: rbind_eq_Inr pattern_of_def)
    obtain i L1 where i: "new_appender (setFormatter f ap) L = (i, L1)" by fastforce
    with c have rec: "add_appenders E name as (change_logger name (addAppender i) L1, out @ o1) = Inr (L', out')" by simp
    note one = add_one [OF Cons.prems(2,3) i]
    have "log_view (change_logger name (addAppender i) L1) name = Some (lv, ds @ [describe (setFormatter f ap)])"
      using one by simp
    from Cons.IH [OF rec conjunct1 [OF one] this] have rest: "log_wf L'"
      "log_view L' = (log_view L)(name := Some (lv, ds @ describe (setFormatter f ap) # wanted_appenders (rl_daemon E) as))"
      using conjunct2 [OF one] by (simp_all add: fun_eq_iff)
    have "describe (setFormatter f ap) # wanted_appenders (rl_daemon E) as = wanted_appenders (rl_daemon E) (a # as)"
      using formatter_pattern [OF f] make_appender_sink [of E a ap o1] r Some x
      by (simp add: wanted_appenders_def describe_def setFormatter_def getFormatter_def)
    with rest show ?thesis by simp
  qed
qed

lemma set_logger_view:
  assumes "set_logger E d (L, out) = Inr (L', out')" and "log_wf L"
  shows "log_wf L' \<and> log_view L' = (log_view L)(ld_name d := Some (wanted (rl_daemon E) d))"
proof -
  define L1 where "L1 = change_logger (ld_name d) (\<lambda>l. clearAppenders (setLevel (ld_level d) l))
    (snd (getLogger (ld_name d) (rl_now E) L))"
  from set_logger_ready [OF assms(2) L1_def] have L1: "log_wf L1" "log_view L1 = (log_view L)(ld_name d := Some (ld_level d, []))"
    by simp_all
  have "add_appenders E (ld_name d) (ld_appenders d) (L1, out) = Inr (L', out')"
    using assms(1) by (simp add: set_logger_def L1_def Let_def)
  from add_appenders_view [OF this L1(1)] L1(2) show ?thesis by (simp add: wanted_def)
qed

section \<open>The two loops\<close>

definition defined :: "log_define list \<Rightarrow> string \<Rightarrow> log_define option" where
  "defined ds name = List.find (\<lambda>d. ld_name d = name) ds"

lemma defined_simps [simp]:
  "defined [] name = None" "defined (d # ds) name = (if ld_name d = name then Some d else defined ds name)"
  by (simp_all add: defined_def)

lemma find_defined: "ordered_by log_define_less ds \<Longrightarrow> set_find log_define_less d ds = defined ds (ld_name d)"
proof (induction ds)
  case (Cons x ds)
  have "defined ds (ld_name d) = None" if "log_define_less d x"
  proof -
    have "\<forall>y\<in>set ds. log_define_less d y" using that Cons.prems log_defs.lt_trans by auto
    then have "\<forall>y\<in>set ds. ld_name y \<noteq> ld_name d" using str_less_irrefl by (auto simp: log_define_less_def)
    then show ?thesis by (simp add: defined_def find_None_iff)
  qed
  moreover have "ld_name x \<noteq> ld_name d" if "log_define_less d x \<or> log_define_less x d"
    using that str_less_irrefl by (auto simp: log_define_less_def)
  moreover have "ld_name x = ld_name d" if "\<not> log_define_less d x" "\<not> log_define_less x d"
    using that str_same [of "ld_name d" "ld_name x"] by (simp add: log_define_less_def)
  moreover have "ordered_by log_define_less ds" using Cons.prems by simp
  ultimately show ?case using Cons.IH
    by (cases "log_define_less d x"; cases "log_define_less x d") simp_all
qed simp

lemma defined_above: "\<forall>y\<in>set ds. log_define_less d y \<Longrightarrow> defined ds (ld_name d) = None"
  using str_less_irrefl by (auto simp: defined_def find_None_iff log_define_less_def)

lemma log_define_eq_named:
  "log_define_eq d d' \<longleftrightarrow> ld_name d = ld_name d' \<and> ld_level d = ld_level d'"
  by (auto simp: log_define_eq_def appender_define_eq_def list_all2_same)

lemma defined_name: "defined ds name = Some d \<Longrightarrow> ld_name d = name"
  by (auto simp: defined_def find_Some_iff)

text \<open>What a reload makes of the loggers: those defined anew or with another level become what the definition says,
  those no longer defined are switched off, and the others stay as they are.\<close>

definition reload :: "bool \<Rightarrow> log_define list \<Rightarrow> log_define list \<Rightarrow> logger_view \<Rightarrow> logger_view" where
  "reload daemon old new v name =
     (case defined new name of
        Some d \<Rightarrow> if map_option ld_level (defined old name) = Some (ld_level d) then v name else Some (wanted daemon d)
      | None \<Rightarrow> if defined old name = None then v name else Some (NOTSET, []))"

lemma apply_new_view:
  "apply_new E old ds (L, out) = Inr (L', out') \<Longrightarrow> log_wf L \<Longrightarrow> ordered_by log_define_less old \<Longrightarrow>
   ordered_by log_define_less ds \<Longrightarrow>
   log_wf L' \<and> (\<forall>name. log_view L' name =
     (case defined ds name of
        Some d \<Rightarrow> if map_option ld_level (defined old name) = Some (ld_level d) then log_view L name
          else Some (wanted (rl_daemon E) d)
      | None \<Rightarrow> log_view L name))"
proof (induction ds arbitrary: L out)
  case Nil
  then show ?case by simp
next
  case (Cons d ds)
  have above: "defined ds (ld_name d) = None" using Cons.prems(4) defined_above [of ds d] by simp
  let ?keep = "map_option ld_level (defined old (ld_name d)) = Some (ld_level d)"
  have step: "apply_new E old (d # ds) (L, out) =
      (if ?keep then apply_new E old ds (L, out) else rbind (set_logger E d (L, out)) (apply_new E old ds))"
  proof (cases "defined old (ld_name d)")
    case (Some d')
    with defined_name [OF Some] show ?thesis
      by (simp add: find_defined [OF Cons.prems(3)] log_define_eq_named eq_commute [of "ld_level d'"])
  qed (simp add: find_defined [OF Cons.prems(3)])
  show ?case
  proof (cases ?keep)
    case True
    then have "apply_new E old ds (L, out) = Inr (L', out')" using Cons.prems(1) step by simp
    from Cons.IH [OF this Cons.prems(2,3)] Cons.prems(4) True above show ?thesis by auto
  next
    case False
    then have "rbind (set_logger E d (L, out)) (apply_new E old ds) = Inr (L', out')"
      using Cons.prems(1) unfolding step by (simp only: if_False)
    then obtain L1 o1 where s: "set_logger E d (L, out) = Inr (L1, o1)" and a: "apply_new E old ds (L1, o1) = Inr (L', out')"
      by (auto simp: rbind_eq_Inr)
    note v = set_logger_view [OF s Cons.prems(2)]
    from Cons.IH [OF a conjunct1 [OF v] Cons.prems(3)] Cons.prems(4) False v above
    show ?thesis by (auto split: option.splits)
  qed
qed

lemma apply_gone_view:
  "log_wf L \<Longrightarrow> ordered_by log_define_less new \<Longrightarrow>
   log_wf (apply_gone E new ds L) \<and> (\<forall>name. log_view (apply_gone E new ds L) name =
     (if defined ds name \<noteq> None \<and> defined new name = None then Some (NOTSET, []) else log_view L name))"
proof (induction ds arbitrary: L)
  case (Cons d ds)
  show ?case
  proof (cases "defined new (ld_name d)")
    case None
    define L1 where "L1 = change_logger (ld_name d) (\<lambda>l. clearAppenders (setLevel NOTSET l)) (snd (getLogger (ld_name d) (rl_now E) L))"
    note v = set_logger_ready [OF Cons.prems(1) L1_def]
    have "apply_gone E new (d # ds) L = apply_gone E new ds L1"
      using None by (simp add: find_defined [OF Cons.prems(2)] L1_def Let_def)
    with Cons.IH [OF conjunct1 [OF v] Cons.prems(2)] v None show ?thesis by auto
  next
    case (Some x)
    with Cons.IH [OF Cons.prems] show ?thesis by (auto simp: find_defined [OF Cons.prems(2)])
  qed
qed simp

section \<open>The message\<close>

lemma appender_log_describe:
  assumes "appender_log strftime outcome e a = Inr (a', out)"
  shows "describe a' = describe a"
  using assms
  by (auto simp: appender_log_def reopen_when_due_def reopen_def write_stream_def describe_def getFormatter_def Let_def
      rbind_eq_Inr split: sink.splits if_splits option.splits)

lemma log_all_describe:
  "log_all strftime outcome e is L = Inr (L', out) \<Longrightarrow>
   lg_loggers L' = lg_loggers L \<and> lg_fresh L' = lg_fresh L \<and> (\<forall>i. describe (lg_store L' i) = describe (lg_store L i))"
proof (induction "is" arbitrary: L out)
  case (Cons i "is")
  then obtain a o1 o2 where a: "appender_log strftime (outcome i) e (lg_store L i) = Inr (a, o1)"
    and r: "log_all strftime outcome e is (L\<lparr>lg_store := (lg_store L)(i := a)\<rparr>) = Inr (L', o2)"
    by (auto simp: rbind_eq_Inr)
  from Cons.IH [OF r] appender_log_describe [OF a] show ?case by simp
qed simp

lemma announce_view:
  assumes "announce E (L, out) = Inr (L', out')" and "log_wf L"
  shows "log_wf L' \<and> log_view L' = log_view L"
proof -
  from assms(2) obtain root where r: "getLogger ''root'' (rl_now E) L = (root, L)"
    using getLogger_known by (fastforce simp: log_wf_def)
  obtain o1 where s: "SYLAR_LOG_LEVEL (rl_strftime E) (rl_outcome E) root INFO (rl_message E) L = Inr (L', o1)"
    using assms(1) r by (auto simp: announce_def rbind_eq_Inr)
  have "lg_loggers L' = lg_loggers L \<and> lg_fresh L' = lg_fresh L \<and> (\<forall>i. describe (lg_store L' i) = describe (lg_store L i))"
    using s by (auto simp: SYLAR_LOG_LEVEL_def Logger_log_def split: if_splits dest: log_all_describe)
  with assms(2) show ?thesis by (auto simp: log_wf_def log_view_def fun_eq_iff)
qed

section \<open>A reload comes to an end\<close>

text \<open>The date of the message fits its buffer; the definitions are of the two kinds, with patterns that can be read.\<close>

definition env_ok :: "log_env \<Rightarrow> bool" where
  "env_ok E \<longleftrightarrow> (\<forall>fmt t. length (rl_strftime E fmt t) < 64)"

definition define_ok :: "log_define \<Rightarrow> bool" where
  "define_ok d \<longleftrightarrow> list_all (\<lambda>a. (ad_type a = 1 \<or> ad_type a = 2) \<and> returns (LogFormatter (pattern_of a))) (ld_appenders d)"

lemma returns_iff: "returns m \<longleftrightarrow> (\<exists>x. m = Inr x)"
  by (cases m) auto

lemma format_all_returns:
  "\<forall>fmt t. length (strftime fmt t) < 64 \<Longrightarrow> \<exists>s. format_all strftime e is = Inr s"
proof (induction "is")
  case (Cons i "is")
  then have "\<exists>s. item_format strftime e i = Inr s" by (cases i) (simp_all add: Let_def)
  with Cons show ?case by fastforce
qed simp

lemma appender_log_returns:
  assumes "\<forall>fmt t. length (strftime fmt t) < 64"
  shows "\<exists>r. appender_log strftime outcome e a = Inr r"
proof -
  have "\<exists>s. formatter_format strftime f e = Inr s" for f
    using format_all_returns [OF assms] by (simp add: formatter_format_def)
  then have f: "\<exists>s. formatter_format strftime (getFormatter b) e = Inr s" for b by blast
  show ?thesis
  proof (cases "ap_sink a")
    case ToStdout
    with f [of a] show ?thesis by (auto simp: appender_log_def)
  next
    case (ToFile path)
    obtain b out where b: "reopen_when_due (fst outcome) path (le_time e) a = (b, out)" by fastforce
    from f [of b] ToFile b show ?thesis by (auto simp: appender_log_def split_def)
  qed
qed

lemma log_all_returns:
  assumes "\<forall>fmt t. length (strftime fmt t) < 64"
  shows "\<exists>r. log_all strftime outcome e is L = Inr r"
proof (induction "is" arbitrary: L)
  case (Cons i "is")
  obtain a out where "appender_log strftime (outcome i) e (lg_store L i) = Inr (a, out)"
    using appender_log_returns [OF assms] by (metis surj_pair)
  moreover obtain L' out' where "log_all strftime outcome e is (L\<lparr>lg_store := (lg_store L)(i := a)\<rparr>) = Inr (L', out')"
    using Cons by (metis surj_pair)
  ultimately show ?case by simp
qed simp

lemma announce_returns: "env_ok E \<Longrightarrow> \<exists>L' out'. announce E s = Inr (L', out')"
  using log_all_returns [of "rl_strftime E"]
  by (auto simp: env_ok_def announce_def SYLAR_LOG_LEVEL_def Logger_log_def rbind_def split: prod.split sum.split)
    (metis Inl_Inr_False)+

lemma add_appenders_returns:
  "list_all (\<lambda>a. (ad_type a = 1 \<or> ad_type a = 2) \<and> returns (LogFormatter (pattern_of a))) as \<Longrightarrow>
   \<exists>r. add_appenders E name as s = Inr r"
proof (induction as arbitrary: s)
  case Nil
  then show ?case by (cases s) simp
next
  case (Cons a as)
  obtain L out where s: "s = (L, out)" by fastforce
  have "\<exists>r. make_appender E a = Inr r"
    using Cons.prems by (auto simp: make_appender_def FileLogAppender_def StdoutLogAppender_def default_formatter Let_def)
  then show ?case using Cons s
    by (auto simp: returns_iff pattern_of_def split: option.splits prod.splits)
qed

lemma apply_new_returns: "list_all define_ok ds \<Longrightarrow> \<exists>r. apply_new E old ds s = Inr r"
proof (induction ds arbitrary: s)
  case (Cons d ds)
  then have "\<exists>r. set_logger E d s = Inr r"
    unfolding set_logger_def Let_def by (intro add_appenders_returns) (simp add: define_ok_def)
  moreover have "\<exists>r. apply_new E old ds s = Inr r" for s using Cons by simp
  ultimately show ?case by (cases "set_find log_define_less d old") (auto simp del: apply_new.simps(1))
qed simp

section \<open>The reload\<close>

lemma listener_reloads:
  assumes "env_ok E" and "list_all define_ok new" and "log_wf L"
    and "ordered_by log_define_less old" and "ordered_by log_define_less new"
  shows "\<exists>L' out'. on_logs_change E old new (L, out) = (Inr (), L', out') \<and> log_wf L' \<and>
    log_view L' = reload (rl_daemon E) old new (log_view L)"
proof -
  obtain L1 o1 where a: "announce E (L, out) = Inr (L1, o1)" using announce_returns [OF assms(1)] by blast
  obtain L2 o2 where n: "apply_new E old new (L1, o1) = Inr (L2, o2)"
    using apply_new_returns [OF assms(2)] by (metis surj_pair)
  note v1 = announce_view [OF a assms(3)]
  note v2 = apply_new_view [OF n conjunct1 [OF v1] assms(4,5)]
  note v3 = apply_gone_view [OF conjunct1 [OF v2] assms(5), of E old]
  have "on_logs_change E old new (L, out) = (Inr (), apply_gone E new old L2, o2)"
    by (simp add: on_logs_change_def a n)
  moreover have "log_view (apply_gone E new old L2) name = reload (rl_daemon E) old new (log_view L) name" for name
    using v1 v2 v3 by (auto simp: reload_def split: option.splits)
  ultimately show ?thesis using v3 by auto
qed

lemma same_defined:
  "list_all2 log_define_eq new old \<Longrightarrow> map_option ld_level (defined new name) = map_option ld_level (defined old name)"
  by (induction rule: list_all2_induct) (auto simp: log_define_eq_named)

lemma reload_same: "list_all2 log_define_eq new old \<Longrightarrow> reload daemon old new v = v"
proof (rule ext)
  fix name
  assume "list_all2 log_define_eq new old"
  from same_defined [OF this, of name] show "reload daemon old new v name = v name"
    by (cases "defined new name"; cases "defined old name") (simp_all add: reload_def)
qed

lemma logs_member:
  "ListAllMember [] (YMap [(YScalar ''logs'', YSeq ns)]) = [([], YMap [(YScalar ''logs'', YSeq ns)]), (''logs'', YSeq ns)]"
proof -
  have "name_ok ''logs''" by code_simp
  then show ?thesis by (simp add: ListAllMember_map member_name_def)
qed

lemma logs_read:
  assumes "yaml_laws Y" and "ordered_by log_define_less ds" and "list_all (\<lambda>d. list_all appender_ok (ld_appenders d)) ds"
  shows "ct_from (logs_type Y) (y_emit Y (YSeq (map define_node ds))) = Inr ds"
  using read_set_nodes [OF assms(1,3), of "[]"] assms(2)
  by (simp add: logs_type_def set_from_def yaml_lawsD [OF assms(1)] map_map)


text \<open>A change of appenders alone is not seen: when the names and levels are those of before, the new value is
  dropped, whatever files, consoles and patterns it lists, and the listener is not called.\<close>

theorem appender_change_unseen:
  assumes "cv_eq V = ct_eq (logs_type Y)"
    and "map (\<lambda>d. (ld_name d, ld_level d)) new = map (\<lambda>d. (ld_name d, ld_level d)) (cv_val V)"
  shows "setValue new V w = (Inr (), V, w)"
proof -
  have "list_all2 log_define_eq new (cv_val V)"
    using assms(2) by (auto simp: list_all2_conv_all_nth log_define_eq_named dest: map_eq_imp_length_eq)
      (metis (no_types, lifting) length_map nth_map prod.inject)+
  then show ?thesis by (simp add: setValue_def assms(1) logs_type_def)
qed

text \<open>A registry with the variable and its listener, a manager as it starts, and a clock that prints nothing.\<close>

definition sample_env :: log_env where
  "sample_env =
     \<lparr>rl_strftime = (\<lambda>_ _. []), rl_outcome = (\<lambda>_. (True, None)), rl_opens = (\<lambda>_. True), rl_daemon = False,
      rl_message = sample_event 0 ''on log config changed'', rl_now = 0\<rparr>"

definition logs_var :: "(log_define list, log_world) config_var" where
  "logs_var = snd (snd (addListener (on_logs_change sample_env) 0 (new_config_var (logs_type yaml_values) ''logs'' [] ''logs config'')))"

definition sample_logs :: log_system where
  "sample_logs =
     \<lparr>lg_store = (\<lambda>_. sample_appender), lg_fresh = 1, lg_loggers = [(''root'', (new_logger ''root'' 0)\<lparr>lo_appenders := [0]\<rparr>)]\<rparr>"

lemma sample_define_ok: "list_all (\<lambda>d. list_all appender_ok (ld_appenders d) \<and> define_ok d) sample_defines"
proof -
  have "returns (LogFormatter ''%m%n'')" by code_simp
  then show ?thesis
    by (simp add: sample_defines_def appender_ok_def define_ok_def pattern_of_def default_formatter)
qed

lemma sample_define_order: "ordered_by log_define_less sample_defines"
proof -
  have "str_less ''root'' ''system''" by code_simp
  then show ?thesis by (simp add: sample_defines_def log_define_less_def)
qed


theorem appender_change_unseen_witness:
  "\<forall>w. setValue [\<lparr>ld_name = ''root'', ld_level = INFO, ld_appenders = []\<rparr>]
     (logs_var\<lparr>cv_val := [\<lparr>ld_name = ''root'', ld_level = INFO, ld_appenders = [\<lparr>ad_type = 2, ad_pattern = [], ad_file = []\<rparr>]\<rparr>]\<rparr>) w =
   (Inr (), logs_var\<lparr>cv_val := [\<lparr>ld_name = ''root'', ld_level = INFO, ld_appenders = [\<lparr>ad_type = 2, ad_pattern = [], ad_file = []\<rparr>]\<rparr>]\<rparr>, w)"
  by (intro allI, rule appender_change_unseen [where Y = yaml_values]) (simp_all add: logs_var_def addListener_def new_config_var_def Let_def)

end
