(* ===== verification/Env.thy ===== *)
theory Env
  imports OrdMap
begin

text \<open>
  The environment of the program (\<^verbatim>\<open>sylar/env.h\<close>, \<^verbatim>\<open>sylar/env.cc\<close>): command line options, help texts, environment
  variables and paths. Where the program is stored, its working path and the environment of the process are arguments.
\<close>

section \<open>State and operations\<close>

record environ =
  ev_args :: "(string \<times> string) list"
  ev_helps :: "(string \<times> string) list"
  ev_program :: string
  ev_exe :: string
  ev_cwd :: string

definition new_environ :: environ where
  "new_environ = \<lparr>ev_args = [], ev_helps = [], ev_program = [], ev_exe = [], ev_cwd = []\<rparr>"

definition env_add :: "string \<Rightarrow> string \<Rightarrow> environ \<Rightarrow> environ" where
  "env_add key val E = E\<lparr>ev_args := map_assign str_less key val (ev_args E)\<rparr>"

definition env_has :: "string \<Rightarrow> environ \<Rightarrow> bool" where
  "env_has key E = (map_find str_less key (ev_args E) \<noteq> None)"

definition env_del :: "string \<Rightarrow> environ \<Rightarrow> environ" where
  "env_del key E = E\<lparr>ev_args := map_erase str_less key (ev_args E)\<rparr>"

definition env_get :: "string \<Rightarrow> string \<Rightarrow> environ \<Rightarrow> string" where
  "env_get key dflt E = (case map_find str_less key (ev_args E) of Some kv \<Rightarrow> snd kv | None \<Rightarrow> dflt)"

text \<open>The loop over the command line, whose arguments are C strings; \<open>now_key\<close> is an option that waits for its value.\<close>

fun parse_args :: "string list \<Rightarrow> string option \<Rightarrow> environ \<Rightarrow> bool \<times> environ" where
  "parse_args [] now_key E = (True, case now_key of Some k \<Rightarrow> env_add k [] E | None \<Rightarrow> E)"
| "parse_args (a # as) now_key E =
     (if a \<noteq> [] \<and> hd a = CHR ''-'' then
        if length a > 1 then
          parse_args as (Some (tl a)) (case now_key of Some k \<Rightarrow> env_add k [] E | None \<Rightarrow> E)
        else (False, E)
      else
        (case now_key of
           Some k \<Rightarrow> parse_args as None (env_add k a E)
         | None \<Rightarrow> (False, E)))"

text \<open>\<open>exe\<close> is what the link of the process points to; without an \<^verbatim>\<open>argv[0]\<close> the program name is a null pointer.\<close>

definition env_init :: "string \<Rightarrow> string list \<Rightarrow> environ \<Rightarrow> (bool \<times> environ) res" where
  "env_init exe argv E =
     (case argv of
        [] \<Rightarrow> Inl UndefinedBehaviour
      | program # as \<Rightarrow>
          let cwd = (case find_last_idx CHR ''/'' exe of Some pos \<Rightarrow> take pos exe | None \<Rightarrow> exe) @ ''/''
          in Inr (parse_args as None (E\<lparr>ev_exe := exe, ev_cwd := cwd, ev_program := program\<rparr>)))"

definition env_removeHelp :: "string \<Rightarrow> environ \<Rightarrow> environ" where
  "env_removeHelp key E = E\<lparr>ev_helps := filter (\<lambda>h. fst h \<noteq> key) (ev_helps E)\<rparr>"

definition env_addHelp :: "string \<Rightarrow> string \<Rightarrow> environ \<Rightarrow> environ" where
  "env_addHelp key desc E = (let E = env_removeHelp key E in E\<lparr>ev_helps := ev_helps E @ [(key, desc)]\<rparr>)"

definition env_printHelp :: "environ \<Rightarrow> string" where
  "env_printHelp E =
     ''Usage: '' @ ev_program E @ '' [options]'' @ [CHR 0x0A] @
     concat (map (\<lambda>(k, d). ''    -'' @ k @ '' : '' @ d @ [CHR 0x0A]) (ev_helps E))"

text \<open>The environment of the process: a variable is a C string; \<^verbatim>\<open>setenv\<close> refuses an empty name and one with \<^verbatim>\<open>=\<close>.\<close>

definition setEnv :: "string \<Rightarrow> string \<Rightarrow> (string \<rightharpoonup> string) \<Rightarrow> bool \<times> (string \<rightharpoonup> string)" where
  "setEnv key val P =
     (let k = c_str key
      in if k = [] \<or> CHR ''='' \<in> set k then (False, P) else (True, P(k \<mapsto> c_str val)))"

definition getEnv :: "string \<Rightarrow> string \<Rightarrow> (string \<rightharpoonup> string) \<Rightarrow> string" where
  "getEnv key dflt P = (case P (c_str key) of None \<Rightarrow> dflt | Some v \<Rightarrow> v)"

definition getAbsolutePath :: "string \<Rightarrow> environ \<Rightarrow> string" where
  "getAbsolutePath path E =
     (if path = [] then ''/'' else if hd path = CHR ''/'' then path else ev_cwd E @ path)"

text \<open>\<open>work_path\<close> is the variable \<^verbatim>\<open>server.work_path\<close>, \<open>None\<close> as long as nobody has registered it.\<close>

definition getAbsoluteWorkPath :: "string option \<Rightarrow> string \<Rightarrow> string res" where
  "getAbsoluteWorkPath work_path path =
     (if path = [] then Inr ''/'' else if hd path = CHR ''/'' then Inr path
      else case work_path of None \<Rightarrow> Inl UndefinedBehaviour | Some w \<Rightarrow> Inr (w @ ''/'' @ path))"

definition getConfigPath :: "environ \<Rightarrow> string" where
  "getConfigPath E = getAbsolutePath (env_get ''c'' ''conf'' E) E"

section \<open>Command lines\<close>

text \<open>A command line as a list of options, each with its value if it has one, and what it leaves in the map.\<close>

type_synonym cmd_options = "(string \<times> string option) list"

definition render :: "cmd_options \<Rightarrow> string list" where
  "render opts = concat (map (\<lambda>(k, v). (CHR ''-'' # k) # (case v of None \<Rightarrow> [] | Some v \<Rightarrow> [v])) opts)"

definition option_ok :: "string \<times> string option \<Rightarrow> bool" where
  "option_ok o1 \<longleftrightarrow> fst o1 \<noteq> [] \<and> (case snd o1 of None \<Rightarrow> True | Some v \<Rightarrow> v = [] \<or> hd v \<noteq> CHR ''-'')"

definition store_option :: "environ \<Rightarrow> string \<times> string option \<Rightarrow> environ" where
  "store_option E o1 = env_add (fst o1) (case snd o1 of None \<Rightarrow> [] | Some v \<Rightarrow> v) E"

lemma render_simps [simp]:
  "render [] = []"
  "render ((k, None) # opts) = (CHR ''-'' # k) # render opts"
  "render ((k, Some v) # opts) = (CHR ''-'' # k) # v # render opts"
  by (simp_all add: render_def)

lemma parse_render:
  "list_all option_ok opts \<Longrightarrow>
   parse_args (render opts) None E = (True, foldl store_option E opts) \<and>
   parse_args (render opts) (Some k) E = (True, foldl store_option (env_add k [] E) opts)"
proof (induction opts arbitrary: E k)
  case (Cons o1 opts)
  obtain a v where o1: "o1 = (a, v)" by fastforce
  show ?case
  proof (cases v)
    case None
    with Cons o1 show ?thesis by (simp add: option_ok_def store_option_def)
  next
    case (Some x)
    with Cons o1 show ?thesis by (auto simp: option_ok_def store_option_def)
  qed
qed simp

lemma parse_only_rendered:
  "fst (parse_args as now_key E) \<Longrightarrow>
   case now_key of
     None \<Rightarrow> \<exists>opts. list_all option_ok opts \<and> as = render opts
   | Some k \<Rightarrow> \<exists>v opts. list_all option_ok opts \<and> (v = [] \<or> hd v \<noteq> CHR ''-'') \<and>
       (as = render opts \<or> as = v # render opts)"
proof (induction "as" now_key E rule: parse_args.induct)
  case (1 now_key E)
  show ?case by (cases now_key) (auto intro!: exI [of _ "[]"])
next
  case (2 a "as" now_key E)
  show ?case
  proof (cases "a \<noteq> [] \<and> hd a = CHR ''-''")
    case True
    then have len: "length a > 1" using 2 by (auto split: if_splits)
    then have a: "a = CHR ''-'' # tl a" "tl a \<noteq> []" using True by (cases a; auto)+
    obtain v opts where r: "list_all option_ok opts" "v = [] \<or> hd v \<noteq> CHR ''-''"
      "as = render opts \<or> as = v # render opts"
      using "2.IH"(1) [OF True len] "2.prems" True len by auto
    from r(3) have "\<exists>opts. list_all option_ok opts \<and> a # as = render opts"
    proof
      assume "as = render opts"
      then show ?thesis using r(1) a by (intro exI [of _ "(tl a, None) # opts"]) (simp add: option_ok_def)
    next
      assume "as = v # render opts"
      then show ?thesis using r(1,2) a by (intro exI [of _ "(tl a, Some v) # opts"]) (simp add: option_ok_def)
    qed
    then show ?thesis by (cases now_key) (simp_all, blast)
  next
    case False
    then obtain k where k: "now_key = Some k" "fst (parse_args as None (env_add k a E))"
      using "2.prems" by (auto split: option.splits)
    from "2.IH"(2) [OF False k(1) k(2)] show ?thesis using k(1) False by auto
  qed
qed


section \<open>Options and helps\<close>

definition args_ok :: "environ \<Rightarrow> bool" where
  "args_ok E \<longleftrightarrow> ordered_by str_less (map fst (ev_args E))"

text \<open>The map of options: what is read after each change.\<close>

lemma env_get_value: "env_get k d E = (case map_value str_less k (ev_args E) of Some v \<Rightarrow> v | None \<Rightarrow> d)"
  by (simp add: env_get_def map_value_def split: option.split)

lemma env_add_get:
  assumes "args_ok E"
  shows "env_get k d (env_add key val E) = (if k = key then val else env_get k d E) \<and> args_ok (env_add key val E)"
proof -
  have "\<not> str_less key k \<and> \<not> str_less k key \<longleftrightarrow> key = k" using str_less_total str_less_irrefl by blast
  then show ?thesis
    using assms by (auto simp: args_ok_def env_get_value env_add_def str.map_value_assign str.ordered_map_assign)
qed

lemma stored_last:
  "args_ok E \<Longrightarrow> args_ok (foldl store_option E opts) \<and>
   env_get k d (foldl store_option E opts) =
     (case List.find (\<lambda>o1. fst o1 = k) (rev opts) of
        Some o1 \<Rightarrow> (case snd o1 of None \<Rightarrow> [] | Some v \<Rightarrow> v) | None \<Rightarrow> env_get k d E)"
proof (induction opts rule: rev_induct)
  case (snoc o1 opts)
  have "foldl store_option E (opts @ [o1]) =
      env_add (fst o1) (case snd o1 of None \<Rightarrow> [] | Some v \<Rightarrow> v) (foldl store_option E opts)"
    by (simp add: store_option_def [of "foldl store_option E opts"])
  with snoc env_add_get [of "foldl store_option E opts" k d "fst o1"] show ?case by auto
qed simp

text \<open>Each help text is kept once, the latest last.\<close>

lemma addHelp_once:
  "distinct (map fst (ev_helps E)) \<Longrightarrow> distinct (map fst (ev_helps (env_addHelp k d E)))"
  by (auto simp: env_addHelp_def env_removeHelp_def Let_def distinct_map_filter)

end
