(* ===== verification/Files.thy ===== *)
theory Files
  imports Prelude "HOL-Library.Word"
begin

text \<open>
  The file utilities of \<^verbatim>\<open>FSUtil\<close> (\<^verbatim>\<open>sylar/util.cpp\<close>): splitting of paths, listing, removing and making of
  directories. What stands at a path is a tree; the permissions are arguments, which say for each path whether the
  call on it succeeds. Removing succeeds exactly when nothing is left, except that sockets and block devices are taken for
  directories; a listing has exactly the regular files with the suffix.
\<close>

section \<open>Paths\<close>

definition Dirname :: "string \<Rightarrow> string" where
  "Dirname filename =
     (if filename = [] then ''.''
      else case find_last_idx CHR ''/'' filename of
          None \<Rightarrow> ''.''
        | Some pos \<Rightarrow> if pos = 0 then ''/'' else take pos filename)"

definition Basename :: "string \<Rightarrow> string" where
  "Basename filename =
     (if filename = [] then filename
      else case find_last_idx CHR ''/'' filename of None \<Rightarrow> filename | Some pos \<Rightarrow> drop (pos + 1) filename)"

lemma find_last_idx_None: "find_last_idx c s = None \<longleftrightarrow> c \<notin> set s"
  by (induction s) (auto split: option.splits)

lemma find_last_idx_split:
  "find_last_idx c s = Some i \<Longrightarrow> s = take i s @ c # drop (Suc i) s \<and> c \<notin> set (drop (Suc i) s) \<and> i < length s"
proof (induction s arbitrary: i)
  case (Cons d s)
  show ?case
  proof (cases "find_last_idx c s")
    case None
    with Cons.prems have "i = 0" "d = c" by (simp_all split: if_splits)
    with None show ?thesis by (simp add: find_last_idx_None)
  next
    case (Some j)
    with Cons.prems have "i = Suc j" by simp
    with Cons.IH [OF Some] show ?thesis by simp
  qed
qed simp

text \<open>The directory and the name of a path give the path back: joined by a slash, except that the directory of a path
  without one is \<^verbatim>\<open>.\<close> and that of an entry of the root is the root; the name has no slash.\<close>

theorem path_split:
  "(if CHR ''/'' \<notin> set path then Dirname path = ''.'' \<and> Basename path = path
    else if CHR ''/'' \<notin> set (tl path) then Dirname path = ''/'' \<and> path = ''/'' @ Basename path
    else path = Dirname path @ ''/'' @ Basename path) \<and>
   CHR ''/'' \<notin> set (Basename path)"
proof (cases "find_last_idx CHR ''/'' path")
  case None
  then show ?thesis using find_last_idx_None [of "CHR ''/''" path] by (auto simp: Dirname_def Basename_def)
next
  case (Some i)
  note s = find_last_idx_split [OF Some]
  have path: "path \<noteq> []" "CHR ''/'' \<in> set path" using s by (auto dest: arg_cong [where f = set])
  show ?thesis
  proof (cases "i = 0")
    case True
    with s path Some show ?thesis by (auto simp: Dirname_def Basename_def drop_Suc)
  next
    case False
    then have "CHR ''/'' \<in> set (tl path)"
      using s path by (metis Un_iff append_is_Nil_conv list.sel(3) list.set_intros(1) set_append take_eq_Nil tl_append2)
    with s path Some False show ?thesis by (auto simp: Dirname_def Basename_def)
  qed
qed

section \<open>What stands at a path\<close>

text \<open>The kinds of files with the file type bits of \<^verbatim>\<open>st_mode\<close>.\<close>

datatype file_kind = Regular | Symlink_file | Fifo | CharDevice | BlockDevice | UnixSocket

datatype inode = File file_kind | Directory "(string \<times> inode) list"

fun st_mode :: "inode \<Rightarrow> nat" where
  "st_mode (File Regular) = 0x8000"
| "st_mode (File Symlink_file) = 0xA000"
| "st_mode (File Fifo) = 0x1000"
| "st_mode (File CharDevice) = 0x2000"
| "st_mode (File BlockDevice) = 0x6000"
| "st_mode (File UnixSocket) = 0xC000"
| "st_mode (Directory es) = 0x4000"

text \<open>The test \<^verbatim>\<open>st_mode & S_IFDIR\<close> looks at one bit.\<close>

definition dir_bit :: "inode \<Rightarrow> bool" where
  "dir_bit n \<longleftrightarrow> st_mode n div 0x4000 mod 2 = 1"

text \<open>Which calls succeed, by path.\<close>

record permissions =
  pm_unlink :: "string \<Rightarrow> bool"
  pm_opendir :: "string \<Rightarrow> bool"
  pm_rmdir :: "string \<Rightarrow> bool"

section \<open>Removing\<close>

text \<open>The result and what is left at the path.\<close>

definition Unlink :: "permissions \<Rightarrow> string \<Rightarrow> bool \<Rightarrow> inode option \<Rightarrow> bool \<times> inode option" where
  "Unlink P path exist n =
     (case n of
        None \<Rightarrow> (\<not> exist, None)
      | Some n \<Rightarrow>
          (case n of
             Directory es \<Rightarrow> (False, Some n)
           | File k \<Rightarrow> if pm_unlink P path then (True, None) else (False, Some n)))"

lemma size_entry [termination_simp]: "(k, v) \<in> set es \<Longrightarrow> size v < Suc (size_list (size_prod size size) es)"
  by (induction es) auto

lemma size_entry_snd [termination_simp]: "e \<in> set es \<Longrightarrow> size (snd e) < Suc (size_list (size_prod size size) es)"
  using size_entry [of "fst e" "snd e" es] by simp

fun Rm :: "permissions \<Rightarrow> string \<Rightarrow> inode option \<Rightarrow> bool \<times> inode option"
and Rm_node :: "permissions \<Rightarrow> string \<Rightarrow> inode \<Rightarrow> bool \<times> inode option"
and Rm_entries :: "permissions \<Rightarrow> string \<Rightarrow> bool \<Rightarrow> (string \<times> inode) list \<Rightarrow> bool \<times> (string \<times> inode) list" where
  "Rm P path None = (True, None)"
| "Rm P path (Some n) = Rm_node P path n"
| "Rm_node P path (File k) =
     (if \<not> dir_bit (File k) then Unlink P path False (Some (File k)) else (False, Some (File k)))"
| "Rm_node P path (Directory es) =
     (if \<not> pm_opendir P path then (False, Some (Directory es))
      else case Rm_entries P path True es of
          (ret, es) \<Rightarrow> if es = [] \<and> pm_rmdir P path then (ret, None) else (False, Some (Directory es)))"
| "Rm_entries P path ret [] = (ret, [])"
| "Rm_entries P path ret ((name, n) # es) =
     (case Rm_node P (path @ ''/'' @ name) n of
        (ret, left) \<Rightarrow>
          (case Rm_entries P path ret es of
             (ret, es) \<Rightarrow> (ret, case left of None \<Rightarrow> es | Some n \<Rightarrow> (name, n) # es)))"

definition Mv ::
    "permissions \<Rightarrow> (string \<Rightarrow> string \<Rightarrow> bool) \<Rightarrow> string \<Rightarrow> string \<Rightarrow> inode \<Rightarrow> inode option \<Rightarrow> bool \<times> inode option" where
  "Mv P rename from_path to_path moved n =
     (case Rm P to_path n of (ok, left) \<Rightarrow>
        if ok then (if rename from_path to_path then (True, Some moved) else (False, left)) else (False, left))"

definition Symlink :: "permissions \<Rightarrow> (string \<Rightarrow> string \<Rightarrow> bool) \<Rightarrow> string \<Rightarrow> string \<Rightarrow> inode option \<Rightarrow> bool \<times> inode option" where
  "Symlink P symlink from_path to_path n =
     (case Rm P to_path n of (ok, left) \<Rightarrow>
        if ok then (if symlink from_path to_path then (True, Some (File Symlink_file)) else (False, left)) else (False, left))"

text \<open>What can be removed: nothing in it is a socket or a block device, and every call on the way succeeds.\<close>

fun removable :: "permissions \<Rightarrow> string \<Rightarrow> inode \<Rightarrow> bool" where
  "removable P path (File k) \<longleftrightarrow> k \<noteq> UnixSocket \<and> k \<noteq> BlockDevice \<and> pm_unlink P path"
| "removable P path (Directory es) \<longleftrightarrow> pm_opendir P path \<and> pm_rmdir P path \<and>
     list_all (\<lambda>e. removable P (path @ ''/'' @ fst e) (snd e)) es"

lemma dir_bit_file: "dir_bit (File k) \<longleftrightarrow> k = UnixSocket \<or> k = BlockDevice"
  by (cases k) (simp_all add: dir_bit_def)

lemma Rm_removes:
  "(fst (Rm P path n0) \<longleftrightarrow> (case n0 of None \<Rightarrow> True | Some n \<Rightarrow> removable P path n)) \<and>
   (snd (Rm P path n0) = None \<longleftrightarrow> (case n0 of None \<Rightarrow> True | Some n \<Rightarrow> removable P path n))"
  "(fst (Rm_node P path n) \<longleftrightarrow> removable P path n) \<and> (snd (Rm_node P path n) = None \<longleftrightarrow> removable P path n)"
  "(snd (Rm_entries P path ret es) = [] \<longleftrightarrow> list_all (\<lambda>e. removable P (path @ ''/'' @ fst e) (snd e)) es) \<and>
   (list_all (\<lambda>e. removable P (path @ ''/'' @ fst e) (snd e)) es \<longrightarrow> fst (Rm_entries P path ret es) = (es \<noteq> [] \<or> ret))"
proof (induction P path n0 and P path n and P path ret es rule: Rm_Rm_node_Rm_entries.induct)
  case (3 P path k)
  then show ?case by (auto simp: dir_bit_file Unlink_def)
next
  case (4 P path es)
  then show ?case by (auto split: prod.splits)
next
  case (6 P path ret name n es)
  obtain r left where n: "Rm_node P (path @ ''/'' @ name) n = (r, left)" by fastforce
  obtain r' es' where e: "Rm_entries P path r es = (r', es')" by fastforce
  from 6(1) 6(2) [OF n [symmetric]] n e show ?case by (auto split: option.splits)
qed simp_all

text \<open>\<open>Rm\<close> answers true exactly when nothing is left, whatever is in the directory and whichever calls fail, and that
  is when every call on the way succeeds and the tree holds no socket and no block device, which the test of the mode
  takes for directories.\<close>

theorem rm_true_when_gone:
  "(fst (Rm P path n0) \<longleftrightarrow> snd (Rm P path n0) = None) \<and>
   (fst (Rm P path n0) \<longleftrightarrow> (case n0 of None \<Rightarrow> True | Some n \<Rightarrow> removable P path n))"
  using Rm_removes(1) [of P path n0] by blast

section \<open>Listing\<close>

text \<open>A directory lists its entries but for itself and its parent, which the loop skips.\<close>

definition has_suffix :: "string \<Rightarrow> string \<Rightarrow> bool" where
  "has_suffix subfix name \<longleftrightarrow>
     subfix = [] \<or> \<not> length name < length subfix \<and> drop (length name - length subfix) name = subfix"

fun ListAllFile :: "permissions \<Rightarrow> string \<Rightarrow> string list \<Rightarrow> string \<Rightarrow> inode \<Rightarrow> string list"
and list_entries :: "permissions \<Rightarrow> string \<Rightarrow> string list \<Rightarrow> string \<Rightarrow> (string \<times> inode) list \<Rightarrow> string list" where
  "ListAllFile P subfix files path (File k) = files"
| "ListAllFile P subfix files path (Directory es) =
     (if pm_opendir P path then list_entries P subfix files path es else files)"
| "list_entries P subfix files path [] = files"
| "list_entries P subfix files path ((name, n) # es) =
     list_entries P subfix
       (case n of
          Directory ds \<Rightarrow> ListAllFile P subfix files (path @ ''/'' @ name) n
        | File k \<Rightarrow>
            if k = Regular \<and> has_suffix subfix name then files @ [path @ ''/'' @ name] else files) path es"

text \<open>A regular file below a directory whose way can be read, by its path and its name.\<close>

inductive regular_below :: "permissions \<Rightarrow> string \<Rightarrow> inode \<Rightarrow> string \<Rightarrow> string \<Rightarrow> bool" for P where
  entry: "pm_opendir P path \<Longrightarrow> (name, File Regular) \<in> set es \<Longrightarrow>
    regular_below P path (Directory es) (path @ ''/'' @ name) name"
| below: "pm_opendir P path \<Longrightarrow> (dir, Directory ds) \<in> set es \<Longrightarrow>
    regular_below P (path @ ''/'' @ dir) (Directory ds) p name \<Longrightarrow> regular_below P path (Directory es) p name"

inductive_cases regular_belowE: "regular_below P path (File k) p name" "regular_below P path (Directory es) p name"

lemma has_suffix_iff: "has_suffix t name \<longleftrightarrow> suffix t name"
proof
  assume "has_suffix t name"
  then show "suffix t name" unfolding has_suffix_def by (metis suffix_bot.bot_least suffix_drop)
qed (auto simp: has_suffix_def suffix_def)

definition found_in :: "permissions \<Rightarrow> string \<Rightarrow> string \<Rightarrow> string \<times> inode \<Rightarrow> string \<Rightarrow> bool" where
  "found_in P subfix path e p \<longleftrightarrow>
     (case snd e of
        File k \<Rightarrow> k = Regular \<and> has_suffix subfix (fst e) \<and> p = path @ ''/'' @ fst e
      | Directory ds \<Rightarrow> \<exists>name. regular_below P (path @ ''/'' @ fst e) (snd e) p name \<and> has_suffix subfix name)"

lemma regular_below_dir:
  "pm_opendir P path \<Longrightarrow>
   (\<exists>name. regular_below P path (Directory es) p name \<and> has_suffix subfix name) \<longleftrightarrow> (\<exists>e\<in>set es. found_in P subfix path e p)"
proof
  assume "\<exists>name. regular_below P path (Directory es) p name \<and> has_suffix subfix name"
  then obtain name where r: "regular_below P path (Directory es) p name" "has_suffix subfix name" by blast
  from r(1) show "\<exists>e\<in>set es. found_in P subfix path e p"
    by cases (use r(2) in \<open>force simp: found_in_def\<close>)+
next
  assume o: "pm_opendir P path" and "\<exists>e\<in>set es. found_in P subfix path e p"
  then obtain d n where e: "(d, n) \<in> set es" "found_in P subfix path (d, n) p" by auto
  show "\<exists>name. regular_below P path (Directory es) p name \<and> has_suffix subfix name"
  proof (cases n)
    case (File k)
    with e have "(d, File Regular) \<in> set es" "has_suffix subfix d" "p = path @ ''/'' @ d"
      by (auto simp: found_in_def)
    with regular_below.entry [OF o] show ?thesis by auto
  next
    case (Directory ds)
    with e obtain name where "regular_below P (path @ ''/'' @ d) (Directory ds) p name" "has_suffix subfix name"
      by (auto simp: found_in_def)
    with regular_below.below [OF o] e(1) Directory show ?thesis by blast
  qed
qed

lemma listed:
  "set (ListAllFile P subfix files path n) =
     set files \<union> {p. \<exists>name. regular_below P path n p name \<and> has_suffix subfix name}"
  "set (list_entries P subfix files path es) = set files \<union> {p. \<exists>e\<in>set es. found_in P subfix path e p}"
proof (induction P subfix files path n and P subfix files path es rule: ListAllFile_list_entries.induct)
  case (1 P subfix files path k)
  show ?case by (auto elim: regular_belowE)
next
  case (2 P subfix files path es)
  then show ?case using regular_below_dir [of P path es _ subfix] by (auto elim: regular_belowE)
next
  case (4 P subfix files path name n es)
  then show ?case by (cases n) (auto simp: found_in_def)
qed simp

text \<open>A listing has exactly the regular files below the directory whose names end in the suffix; links and other
  kinds of files are not followed and not listed.\<close>

theorem list_all_regular:
  "p \<in> set (ListAllFile P subfix [] path n) \<longleftrightarrow> (\<exists>name. regular_below P path n p name \<and> suffix subfix name)"
  by (simp add: listed has_suffix_iff)

section \<open>Making directories\<close>

text \<open>
  \<open>S\<close> says which paths exist, \<open>mk S d\<close> whether \<^verbatim>\<open>mkdir\<close> of \<open>d\<close> succeeds then. The loop cuts the path at each slash after
  the first character; of an empty path it looks behind the terminating null byte.
\<close>

type_synonym path_state = "string \<Rightarrow> bool"

definition mkdir_one :: "(path_state \<Rightarrow> string \<Rightarrow> bool) \<Rightarrow> string \<Rightarrow> path_state \<Rightarrow> bool \<times> path_state" where
  "mkdir_one mk d S = (if S d then (True, S) else if mk S d then (True, S(d := True)) else (False, S))"

fun mkdir_all :: "(path_state \<Rightarrow> string \<Rightarrow> bool) \<Rightarrow> string list \<Rightarrow> path_state \<Rightarrow> bool \<times> path_state" where
  "mkdir_all mk [] S = (True, S)"
| "mkdir_all mk (d # ds) S = (case mkdir_one mk d S of (ok, S) \<Rightarrow> if ok then mkdir_all mk ds S else (False, S))"

definition cuts :: "string \<Rightarrow> string list" where
  "cuts path = map (\<lambda>i. take i path) (filter (\<lambda>i. path ! i = CHR ''/'') [1..<length path])"

definition Mkdir :: "(path_state \<Rightarrow> string \<Rightarrow> bool) \<Rightarrow> string \<Rightarrow> path_state \<Rightarrow> (bool \<times> path_state) res" where
  "Mkdir mk dirname S =
     (let path = c_str dirname
      in if S path then Inr (True, S) else if path = [] then Inl UndefinedBehaviour
         else Inr (mkdir_all mk (cuts path @ [path]) S))"

definition OpenForWrite ::
    "(path_state \<Rightarrow> string \<Rightarrow> bool) \<Rightarrow> (path_state \<Rightarrow> string \<Rightarrow> bool) \<Rightarrow> string \<Rightarrow> path_state \<Rightarrow> (bool \<times> path_state) res" where
  "OpenForWrite opens mk filename S =
     (if opens S (c_str filename) then Inr (True, S)
      else rbind (Mkdir mk (Dirname filename) S) (\<lambda>(_, S). Inr (opens S (c_str filename), S)))"

lemma mkdir_all_append:
  "mkdir_all mk (xs @ ys) S = (case mkdir_all mk xs S of (ok, S) \<Rightarrow> if ok then mkdir_all mk ys S else (False, S))"
  by (induction xs arbitrary: S) (auto split: prod.splits)

text \<open>A kernel that makes a directory wherever its parent is there.\<close>

definition makes_below :: "(path_state \<Rightarrow> string \<Rightarrow> bool) \<Rightarrow> bool" where
  "makes_below mk \<longleftrightarrow> (\<forall>S d. d \<noteq> [] \<longrightarrow> S (Dirname d) \<longrightarrow> mk S d)"

lemma mkdir_all_ordered:
  assumes "makes_below mk" and "S ''.''" and "S ''/''"
  shows "list_all (\<lambda>d. d \<noteq> []) ds \<Longrightarrow>
    \<forall>k<length ds. Dirname (ds ! k) \<in> {''.'', ''/''} \<union> set (take k ds) \<Longrightarrow>
    \<exists>S'. mkdir_all mk ds S = (True, S') \<and> (\<forall>d. S d \<or> d \<in> set ds \<longrightarrow> S' d)"
proof (induction ds rule: rev_induct)
  case (snoc d ds)
  have "\<forall>k<length ds. Dirname (ds ! k) \<in> {''.'', ''/''} \<union> set (take k ds)"
  proof (intro allI impI)
    fix k
    assume "k < length ds"
    with spec [OF snoc.prems(2), of k] show "Dirname (ds ! k) \<in> {''.'', ''/''} \<union> set (take k ds)"
      by (simp add: nth_append)
  qed
  with snoc obtain S' where S': "mkdir_all mk ds S = (True, S')" "\<forall>d. S d \<or> d \<in> set ds \<longrightarrow> S' d" by auto
  have "Dirname d \<in> {''.'', ''/''} \<union> set ds" using spec [OF snoc.prems(2), of "length ds"] by simp
  then have "S' (Dirname d)" using S'(2) assms(2,3) by auto
  then have "S' d \<or> mk S' d" using assms(1) snoc.prems(1) by (simp add: makes_below_def)
  with S' show ?case by (auto simp: mkdir_all_append mkdir_one_def)
qed simp

lemma sorted_before:
  assumes "sorted_wrt (<) L" and "k < length L" and "j \<in> set L" and "j < (L ! k :: nat)"
  shows "j \<in> set (take k L)"
proof -
  obtain m where m: "m < length L" "j = L ! m" using assms(3) by (auto simp: in_set_conv_nth)
  have "m < k"
  proof (rule ccontr)
    assume "\<not> m < k"
    then have "L ! k \<le> L ! m" using sorted_wrt_nth_less [OF assms(1), of k m] m(1) by (cases "k = m") auto
    with m(2) assms(4) show False by simp
  qed
  with m assms(2) show ?thesis by (auto simp: in_set_conv_nth intro!: exI [of _ m])
qed

lemma Dirname_take:
  assumes "0 < i" and "i \<le> length path"
  shows "Dirname (take i path) \<in> {''.'', ''/''} \<union> (\<lambda>j. take j path) ` {j. 1 \<le> j \<and> j < i \<and> path ! j = CHR ''/''}"
proof (cases "find_last_idx CHR ''/'' (take i path)")
  case None
  then show ?thesis by (auto simp: Dirname_def)
next
  case (Some j)
  note s = find_last_idx_split [OF Some]
  have "take i path ! j = CHR ''/''" using s by (metis length_take min.strict_boundedE nth_append_length less_imp_le min.absorb2)
  moreover have "j < i" using s by simp
  ultimately show ?thesis using Some assms by (auto simp: Dirname_def)
qed

text \<open>\<open>Mkdir\<close> makes every missing parent before its child: wherever the kernel makes a directory whose parent is there, a
  path that is not empty can be made, and all its parents are there afterwards.\<close>

theorem mkdir_reaches:
  assumes "makes_below mk" and "S ''.''" and "S ''/''" and "c_str dirname \<noteq> []" and "\<not> S (c_str dirname)"
  shows "\<exists>S'. Mkdir mk dirname S = Inr (True, S') \<and> S' (c_str dirname) \<and> list_all S' (cuts (c_str dirname))"
proof -
  define path where "path = c_str dirname"
  define L where "L = filter (\<lambda>i. path ! i = CHR ''/'') [1..<length path] @ [length path]"
  have ds: "cuts path @ [path] = map (\<lambda>i. take i path) L" by (simp add: cuts_def L_def)
  have L: "sorted_wrt (<) L" "\<forall>i\<in>set L. 0 < i \<and> i \<le> length path"
    using assms(4) by (auto simp: L_def sorted_wrt_append path_def intro: sorted_wrt_filter)
  have "list_all (\<lambda>d. d \<noteq> []) (cuts path @ [path])"
    using L(2) by (auto simp: ds list_all_iff)
  moreover have "\<forall>k<length (cuts path @ [path]).
      Dirname ((cuts path @ [path]) ! k) \<in> {''.'', ''/''} \<union> set (take k (cuts path @ [path]))"
  proof (intro allI impI)
    fix k
    assume k: "k < length (cuts path @ [path])"
    then have k: "k < length L" by (simp add: ds)
    have i: "0 < L ! k" "L ! k \<le> length path" using L(2) k by auto
    have "take j path \<in> set (take k (map (\<lambda>i. take i path) L))" if j: "1 \<le> j" "j < L ! k" "path ! j = CHR ''/''" for j
    proof -
      have "j \<in> set L" using j i(2) by (auto simp: L_def)
      then show ?thesis using sorted_before [OF L(1) k _ j(2)] by (auto simp: take_map)
    qed
    then have below: "(\<lambda>j. take j path) ` {j. 1 \<le> j \<and> j < L ! k \<and> path ! j = CHR ''/''} \<subseteq> set (take k (cuts path @ [path]))"
      unfolding ds by blast
    have elem: "(cuts path @ [path]) ! k = take (L ! k) path" unfolding ds using k by (rule nth_map)
    show "Dirname ((cuts path @ [path]) ! k) \<in> {''.'', ''/''} \<union> set (take k (cuts path @ [path]))"
      unfolding elem using Dirname_take [OF i] below by blast
  qed
  ultimately obtain S' where "mkdir_all mk (cuts path @ [path]) S = (True, S')" "\<forall>d. S d \<or> d \<in> set (cuts path @ [path]) \<longrightarrow> S' d"
    using mkdir_all_ordered [OF assms(1-3)] by blast
  with assms(4,5) show ?thesis by (simp add: Mkdir_def path_def [symmetric] list_all_iff)
qed

text \<open>A kernel with nothing but the root and the working directory.\<close>

theorem mkdir_reaches_witness:
  "\<exists>S'. Mkdir (\<lambda>S d. S (Dirname d)) ''/var/log/app'' (\<lambda>d. d = ''/'' \<or> d = ''.'') = Inr (True, S') \<and>
     S' ''/var/log/app'' \<and> S' ''/var/log'' \<and> S' ''/var''"
proof -
  have c: "cuts ''/var/log/app'' = [''/var'', ''/var/log'']" "c_str ''/var/log/app'' = ''/var/log/app''"
    by code_simp+
  show ?thesis
    using mkdir_reaches [of "\<lambda>S d. S (Dirname d)" "\<lambda>d. d = ''/'' \<or> d = ''.''" "''/var/log/app''"] c
    by (auto simp: makes_below_def)
qed

section \<open>Numbers from texts\<close>

text \<open>\<^verbatim>\<open>strtol\<close> and \<^verbatim>\<open>strtoull\<close> as \<^verbatim>\<open>atoi\<close> and \<^verbatim>\<open>TypeUtil::Atoi\<close> use them: no digits are zero, what does not fit is the
  nearest bound, and a sign in front of an unsigned number negates it modulo the width.\<close>

definition strtol :: "string \<Rightarrow> int" where
  "strtol s = (case sto (\<lambda>_. True) s of Inl _ \<Rightarrow> 0 | Inr v \<Rightarrow> max (- (2 ^ 63)) (min (2 ^ 63 - 1) v))"

definition strtoull :: "string \<Rightarrow> 64 word" where
  "strtoull s =
     (case sto (\<lambda>_. True) s of
        Inl _ \<Rightarrow> 0
      | Inr v \<Rightarrow> if \<bar>v\<bar> < 2 ^ 64 then word_of_int v else - 1)"

definition atoi :: "string \<Rightarrow> int" where
  "atoi s = sint (word_of_int (strtol s) :: 32 word)"

definition ToChar :: "string \<Rightarrow> char" where
  "ToChar str = (case str of [] \<Rightarrow> CHR 0x00 | c # cs \<Rightarrow> c)"

definition Atoi :: "string \<Rightarrow> int" where
  "Atoi str = (if str = [] then 0 else sint (strtoull (c_str str)))"

text \<open>The overloads for C strings; \<open>None\<close> is a null pointer.\<close>

definition ToChar_ptr :: "string option \<Rightarrow> char" where
  "ToChar_ptr str = (case str of None \<Rightarrow> CHR 0x00 | Some s \<Rightarrow> hd (c_str s @ [CHR 0x00]))"

definition Atoi_ptr :: "string option \<Rightarrow> int" where
  "Atoi_ptr str = (case str of None \<Rightarrow> 0 | Some s \<Rightarrow> sint (strtoull (c_str s)))"

text \<open>A pid file: whether something stands at the path, its first line if it can be read, and which processes can be signalled.\<close>

definition IsRunningPidfile :: "bool \<Rightarrow> string option \<Rightarrow> (int \<Rightarrow> bool) \<Rightarrow> bool" where
  "IsRunningPidfile there line signalled =
     (if \<not> there then False
      else case line of
          None \<Rightarrow> False
        | Some line \<Rightarrow>
            if line = [] then False
            else let pid = atoi (c_str line) in if pid \<le> 1 then False else signalled pid)"

lemma c_str_show_int [simp]: "c_str (show_int x) = show_int x"
  by (rule c_str_id) (use show_int_chars in \<open>fastforce simp: is_digit_def\<close>)

lemma sto_any_show_int [simp]: "sto (\<lambda>_. True) (show_int x) = Inr x"
  using sto_show_int [of "\<lambda>_. True" x "[]"] by simp

lemma show_int_not_Nil [simp]: "show_int x \<noteq> []"
  using sto_any_show_int [of x] by (auto simp: sto_def split_sign_def)

lemma sint_of_int [simp]: "in_i64 x \<Longrightarrow> sint (word_of_int x :: 64 word) = x"
  by (simp add: sint_sbintrunc' signed_take_bit_int_eq_self in_i64_def)

text \<open>\<open>Atoi\<close> reads every 64-bit number back from its text, although it reads an unsigned number; a number between the
  signed and the unsigned bound comes back negative, and one beyond both as minus one.\<close>

theorem Atoi_show_int:
  "Atoi (show_int x) = (if in_i64 x then x else if 2 ^ 64 \<le> \<bar>x\<bar> then - 1 else sint (word_of_int x :: 64 word))"
  by (auto simp: Atoi_def strtoull_def in_i64_def)

lemma pidfile_written:
  assumes "1 < pid" and "in_i32 pid"
  shows "IsRunningPidfile True (Some (show_int pid)) signalled = signalled pid"
proof -
  have "max (- (2 ^ 63)) (min (2 ^ 63 - 1) pid) = pid" using assms by (simp add: in_i32_def)
  moreover have "sint (word_of_int pid :: 32 word) = pid"
    using assms by (simp add: sint_sbintrunc' signed_take_bit_int_eq_self in_i32_def)
  ultimately show ?thesis using assms(1) by (simp add: IsRunningPidfile_def atoi_def strtol_def)
qed

end
