(* ===== verification/Socket.thy ===== *)
theory Socket
  imports HookProps AddressProps Files
begin

text \<open>
  \<open>Socket\<close> of \<^verbatim>\<open>sylar/socket.h\<close> and \<^verbatim>\<open>sylar/socket.cc\<close>: a descriptor with its family, its two cached addresses and the mark
  that it is connected. The system calls, the descriptor table of \<open>Hook\<close> and the events of the IO manager are the record
  \<open>kernel\<close> over a state of any type; \<open>kn_open\<close> says which descriptors are open in it, and \<open>kernel_laws\<close> what the calls do to
  them. A program of sockets is a list of operations on a store of sockets; what is open after it is what its sockets hold.
\<close>

section \<open>The kernel\<close>

record 'k kernel =
  kn_open :: "'k \<Rightarrow> int set"
  kn_socket :: "16 word \<Rightarrow> 32 word \<Rightarrow> 32 word \<Rightarrow> 'k \<Rightarrow> int \<times> 'k"
  kn_accept :: "int \<Rightarrow> 'k \<Rightarrow> int \<times> 'k"
  kn_context :: "int \<Rightarrow> 'k \<Rightarrow> fd_ctx option"
  kn_bind :: "int \<Rightarrow> byte list \<Rightarrow> nat \<Rightarrow> 'k \<Rightarrow> int \<times> 'k"
  kn_connect :: "int \<Rightarrow> byte list \<Rightarrow> nat \<Rightarrow> 64 word \<Rightarrow> 'k \<Rightarrow> int \<times> 'k"
  kn_listen :: "int \<Rightarrow> int \<Rightarrow> 'k \<Rightarrow> int \<times> 'k"
  kn_close :: "int \<Rightarrow> 'k \<Rightarrow> 'k"
  kn_setopt :: "int \<Rightarrow> int \<Rightarrow> int \<Rightarrow> int \<Rightarrow> 'k \<Rightarrow> int \<times> 'k"
  kn_getopt :: "int \<Rightarrow> int \<Rightarrow> int \<Rightarrow> 'k \<Rightarrow> int option"
  kn_settimeo :: "int \<Rightarrow> bool \<Rightarrow> int \<Rightarrow> int \<Rightarrow> 'k \<Rightarrow> int \<times> 'k"
  kn_errno :: "'k \<Rightarrow> int"
  kn_sockname :: "int \<Rightarrow> 'k \<Rightarrow> (byte list \<times> nat) option"
  kn_peername :: "int \<Rightarrow> 'k \<Rightarrow> (byte list \<times> nat) option"
  kn_unlink :: "string \<Rightarrow> 'k \<Rightarrow> 'k"
  kn_send :: "int \<Rightarrow> byte list list \<Rightarrow> address option \<Rightarrow> 32 word \<Rightarrow> 'k \<Rightarrow> int \<times> 'k"
  kn_recv :: "int \<Rightarrow> nat list \<Rightarrow> bool \<Rightarrow> 32 word \<Rightarrow> 'k \<Rightarrow> (int \<times> byte list) \<times> 'k"
  kn_cancel :: "int \<Rightarrow> bool option \<Rightarrow> 'k \<Rightarrow> bool \<times> 'k"

section \<open>A socket\<close>

definition TCP :: "32 word" where "TCP = 1"
definition UDP :: "32 word" where "UDP = 2"

record sock =
  sk_sock :: int
  sk_family :: "16 word"
  sk_type :: "32 word"
  sk_protocol :: "32 word"
  sk_isConnected :: bool
  sk_localAddress :: "address option"
  sk_remoteAddress :: "address option"

definition new_Socket :: "16 word \<Rightarrow> 32 word \<Rightarrow> 32 word \<Rightarrow> sock" where
  "new_Socket family type protocol =
     \<lparr>sk_sock = - 1, sk_family = family, sk_type = type, sk_protocol = protocol, sk_isConnected = False,
      sk_localAddress = None, sk_remoteAddress = None\<rparr>"

definition isValid :: "sock \<Rightarrow> bool" where
  "isValid s = (sk_sock s \<noteq> - 1)"

definition getOption :: "'k kernel \<Rightarrow> int \<Rightarrow> int \<Rightarrow> sock \<Rightarrow> 'k \<Rightarrow> int option" where
  "getOption K level opt s k = kn_getopt K (sk_sock s) level opt k"

definition setOption :: "'k kernel \<Rightarrow> int \<Rightarrow> int \<Rightarrow> int \<Rightarrow> sock \<Rightarrow> 'k \<Rightarrow> bool \<times> 'k" where
  "setOption K level opt val s k = (case kn_setopt K (sk_sock s) level opt val k of (rt, k) \<Rightarrow> (rt = 0, k))"

text \<open>\<^verbatim>\<open>SOL_SOCKET\<close> with \<^verbatim>\<open>SO_REUSEADDR\<close>, \<^verbatim>\<open>IPPROTO_TCP\<close> with \<^verbatim>\<open>TCP_NODELAY\<close>.\<close>

definition initSock :: "'k kernel \<Rightarrow> sock \<Rightarrow> 'k \<Rightarrow> 'k" where
  "initSock K s k =
     (let k = snd (setOption K 1 2 1 s k) in if sk_type s = TCP then snd (setOption K 6 1 1 s k) else k)"

definition newSock :: "'k kernel \<Rightarrow> sock \<Rightarrow> 'k \<Rightarrow> sock \<times> 'k" where
  "newSock K s k =
     (case kn_socket K (sk_family s) (sk_type s) (sk_protocol s) k of
        (fd, k) \<Rightarrow>
          let s = s\<lparr>sk_sock := fd\<rparr>
          in if sk_sock s \<noteq> - 1 then (s, initSock K s k) else (s, k))"

definition CreateTCP :: "address \<Rightarrow> sock" where
  "CreateTCP a = new_Socket (getFamily a) TCP 0"

definition CreateUDP :: "'k kernel \<Rightarrow> address \<Rightarrow> 'k \<Rightarrow> sock \<times> 'k" where
  "CreateUDP K a k =
     (case newSock K (new_Socket (getFamily a) UDP 0) k of (s, k) \<Rightarrow> (s\<lparr>sk_isConnected := True\<rparr>, k))"

definition CreateTCPSocket :: sock where "CreateTCPSocket = new_Socket AF_INET TCP 0"

definition CreateTCPSocket6 :: sock where "CreateTCPSocket6 = new_Socket AF_INET6 TCP 0"

definition CreateUDPSocket :: "'k kernel \<Rightarrow> 'k \<Rightarrow> sock \<times> 'k" where
  "CreateUDPSocket K k = (case newSock K (new_Socket AF_INET UDP 0) k of (s, k) \<Rightarrow> (s\<lparr>sk_isConnected := True\<rparr>, k))"

definition CreateUDPSocket6 :: "'k kernel \<Rightarrow> 'k \<Rightarrow> sock \<times> 'k" where
  "CreateUDPSocket6 K k = (case newSock K (new_Socket AF_INET6 UDP 0) k of (s, k) \<Rightarrow> (s\<lparr>sk_isConnected := True\<rparr>, k))"

definition CreateUnixTCPSocket :: sock where "CreateUnixTCPSocket = new_Socket AF_UNIX TCP 0"

definition CreateUnixUDPSocket :: sock where "CreateUnixUDPSocket = new_Socket AF_UNIX UDP 0"

definition sock_close :: "'k kernel \<Rightarrow> sock \<Rightarrow> 'k \<Rightarrow> bool \<times> sock \<times> 'k" where
  "sock_close K s k =
     (if \<not> sk_isConnected s \<and> sk_sock s = - 1 then (True, s, k)
      else
        let s = s\<lparr>sk_isConnected := False\<rparr>
        in if sk_sock s \<noteq> - 1 then (False, s\<lparr>sk_sock := - 1\<rparr>, kn_close K (sk_sock s) k) else (False, s, k))"

text \<open>The destructor.\<close>

definition destroy :: "'k kernel \<Rightarrow> sock \<Rightarrow> 'k \<Rightarrow> 'k" where
  "destroy K s k = snd (snd (sock_close K s k))"

section \<open>Addresses of a socket\<close>

text \<open>
  \<^verbatim>\<open>getsockname\<close> and \<^verbatim>\<open>getpeername\<close> write the family of the socket, the bytes \<open>m\<close> behind it and the length.
\<close>

definition filled_address :: "16 word \<Rightarrow> byte list \<Rightarrow> nat \<Rightarrow> address" where
  "filled_address family m n =
     (if family = AF_UNIX
      then Unix (setAddrLen n (new_UnixAddress\<lparr>sun_path := take 108 (map char_at m @ replicate 108 (CHR 0x00))\<rparr>))
      else address_create (le_bytes family @ m))"

definition getRemoteAddress :: "'k kernel \<Rightarrow> sock \<Rightarrow> 'k \<Rightarrow> address \<times> sock" where
  "getRemoteAddress K s k =
     (case sk_remoteAddress s of
        Some a \<Rightarrow> (a, s)
      | None \<Rightarrow>
          case kn_peername K (sk_sock s) k of
            None \<Rightarrow> (Unknown (UnknownAddress (sk_family s)), s)
          | Some (m, n) \<Rightarrow>
              let result = filled_address (sk_family s) m n in (result, s\<lparr>sk_remoteAddress := Some result\<rparr>))"

definition getLocalAddress :: "'k kernel \<Rightarrow> sock \<Rightarrow> 'k \<Rightarrow> address \<times> sock" where
  "getLocalAddress K s k =
     (case sk_localAddress s of
        Some a \<Rightarrow> (a, s)
      | None \<Rightarrow>
          case kn_sockname K (sk_sock s) k of
            None \<Rightarrow> (Unknown (UnknownAddress (sk_family s)), s)
          | Some (m, n) \<Rightarrow>
              let result = filled_address (sk_family s) m n in (result, s\<lparr>sk_localAddress := Some result\<rparr>))"

section \<open>Connecting, binding, accepting\<close>

definition sock_init :: "'k kernel \<Rightarrow> int \<Rightarrow> sock \<Rightarrow> 'k \<Rightarrow> bool \<times> sock \<times> 'k" where
  "sock_init K fd s k =
     (case kn_context K fd k of
        None \<Rightarrow> (False, s, k)
      | Some ctx \<Rightarrow>
          if fx_socket ctx \<and> \<not> fx_closed ctx then
            let s = s\<lparr>sk_sock := fd, sk_isConnected := True\<rparr>;
                k = initSock K s k;
                s = snd (getLocalAddress K s k)
            in (True, snd (getRemoteAddress K s k), k)
          else (False, s, k))"

definition sock_accept :: "'k kernel \<Rightarrow> sock \<Rightarrow> 'k \<Rightarrow> sock option \<times> 'k" where
  "sock_accept K s k =
     (let c = new_Socket (sk_family s) (sk_type s) (sk_protocol s)
      in case kn_accept K (sk_sock s) k of
           (newsock, k) \<Rightarrow>
             if newsock = - 1 then (None, destroy K c k)
             else
               case sock_init K newsock c k of
                 (ok, c, k) \<Rightarrow> if ok then (Some c, k) else (None, destroy K c k))"

text \<open>A valid descriptor, or a new one.\<close>

definition ensure_sock :: "'k kernel \<Rightarrow> sock \<Rightarrow> 'k \<Rightarrow> sock \<times> 'k" where
  "ensure_sock K s k = (if \<not> isValid s then newSock K s k else (s, k))"

definition sock_connect :: "'k kernel \<Rightarrow> address \<Rightarrow> 64 word \<Rightarrow> sock \<Rightarrow> 'k \<Rightarrow> bool \<times> sock \<times> 'k" where
  "sock_connect K a timeout_ms s k =
     (let s = s\<lparr>sk_remoteAddress := Some a\<rparr>
      in case ensure_sock K s k of
           (s, k) \<Rightarrow>
             if \<not> isValid s then (False, s, k)
             else if getFamily a \<noteq> sk_family s then (False, s, k)
             else
               case kn_connect K (sk_sock s) (getAddr a) (getAddrLen a) timeout_ms k of
                 (rt, k) \<Rightarrow>
                   if rt \<noteq> 0 then (False, snd (sock_close K s k))
                   else
                     let s = s\<lparr>sk_isConnected := True\<rparr>;
                         s = snd (getRemoteAddress K s k)
                     in (True, snd (getLocalAddress K s k), k))"

definition sock_reconnect :: "'k kernel \<Rightarrow> 64 word \<Rightarrow> sock \<Rightarrow> 'k \<Rightarrow> bool \<times> sock \<times> 'k" where
  "sock_reconnect K timeout_ms s k =
     (case sk_remoteAddress s of
        None \<Rightarrow> (False, s, k)
      | Some a \<Rightarrow> sock_connect K a timeout_ms (s\<lparr>sk_localAddress := None\<rparr>) k)"

text \<open>A path nobody answers at is removed before it is bound; a timeout of \<open>- 1\<close> is none.\<close>

definition probe_path :: "'k kernel \<Rightarrow> address \<Rightarrow> 'k \<Rightarrow> bool \<times> 'k" where
  "probe_path K a k =
     (case a of
        Unix u \<Rightarrow>
          (case sock_connect K a (- 1) CreateUnixTCPSocket k of
             (ok, s, k) \<Rightarrow>
               if ok then (True, destroy K s k)
               else (False, destroy K s (kn_unlink K (unix_getPath u) k)))
      | _ \<Rightarrow> (False, k))"

definition sock_bind :: "'k kernel \<Rightarrow> address \<Rightarrow> sock \<Rightarrow> 'k \<Rightarrow> bool \<times> sock \<times> 'k" where
  "sock_bind K a s k =
     (let s = s\<lparr>sk_localAddress := Some a\<rparr>
      in case ensure_sock K s k of
           (s, k) \<Rightarrow>
             if \<not> isValid s then (False, s, k)
             else if getFamily a \<noteq> sk_family s then (False, s, k)
             else
               case probe_path K a k of
                 (answered, k) \<Rightarrow>
                   if answered then (False, s, k)
                   else
                     case kn_bind K (sk_sock s) (getAddr a) (getAddrLen a) k of
                       (rt, k) \<Rightarrow>
                         if rt \<noteq> 0 then (False, s, k) else (True, snd (getLocalAddress K s k), k))"

definition sock_listen :: "'k kernel \<Rightarrow> int \<Rightarrow> sock \<Rightarrow> 'k \<Rightarrow> bool \<times> 'k" where
  "sock_listen K backlog s k =
     (if \<not> isValid s then (False, k)
      else case kn_listen K (sk_sock s) backlog k of (rt, k) \<Rightarrow> (rt = 0, k))"

section \<open>Data, timeouts, cancelling\<close>

definition sock_send :: "'k kernel \<Rightarrow> byte list \<Rightarrow> 32 word \<Rightarrow> sock \<Rightarrow> 'k \<Rightarrow> int \<times> 'k" where
  "sock_send K buffer flags s k =
     (if sk_isConnected s then kn_send K (sk_sock s) [buffer] None flags k else (- 1, k))"

definition sock_sendmsg :: "'k kernel \<Rightarrow> byte list list \<Rightarrow> 32 word \<Rightarrow> sock \<Rightarrow> 'k \<Rightarrow> int \<times> 'k" where
  "sock_sendmsg K buffers flags s k =
     (if sk_isConnected s then kn_send K (sk_sock s) buffers None flags k else (- 1, k))"

definition sock_sendTo :: "'k kernel \<Rightarrow> byte list \<Rightarrow> address \<Rightarrow> 32 word \<Rightarrow> sock \<Rightarrow> 'k \<Rightarrow> int \<times> 'k" where
  "sock_sendTo K buffer to_addr flags s k =
     (if sk_isConnected s then kn_send K (sk_sock s) [buffer] (Some to_addr) flags k else (- 1, k))"

definition sock_sendmsgTo :: "'k kernel \<Rightarrow> byte list list \<Rightarrow> address \<Rightarrow> 32 word \<Rightarrow> sock \<Rightarrow> 'k \<Rightarrow> int \<times> 'k" where
  "sock_sendmsgTo K buffers to_addr flags s k =
     (if sk_isConnected s then kn_send K (sk_sock s) buffers (Some to_addr) flags k else (- 1, k))"

text \<open>What is received, into buffers of the given sizes; the flag asks for the address of the sender, too.\<close>

definition sock_recv :: "'k kernel \<Rightarrow> nat \<Rightarrow> 32 word \<Rightarrow> sock \<Rightarrow> 'k \<Rightarrow> (int \<times> byte list) \<times> 'k" where
  "sock_recv K len flags s k =
     (if sk_isConnected s then kn_recv K (sk_sock s) [len] False flags k else ((- 1, []), k))"

definition sock_recvmsg :: "'k kernel \<Rightarrow> nat list \<Rightarrow> 32 word \<Rightarrow> sock \<Rightarrow> 'k \<Rightarrow> (int \<times> byte list) \<times> 'k" where
  "sock_recvmsg K lens flags s k =
     (if sk_isConnected s then kn_recv K (sk_sock s) lens False flags k else ((- 1, []), k))"

definition sock_recvFrom :: "'k kernel \<Rightarrow> nat \<Rightarrow> 32 word \<Rightarrow> sock \<Rightarrow> 'k \<Rightarrow> (int \<times> byte list) \<times> 'k" where
  "sock_recvFrom K len flags s k =
     (if sk_isConnected s then kn_recv K (sk_sock s) [len] True flags k else ((- 1, []), k))"

definition sock_recvmsgFrom :: "'k kernel \<Rightarrow> nat list \<Rightarrow> 32 word \<Rightarrow> sock \<Rightarrow> 'k \<Rightarrow> (int \<times> byte list) \<times> 'k" where
  "sock_recvmsgFrom K lens flags s k =
     (if sk_isConnected s then kn_recv K (sk_sock s) lens True flags k else ((- 1, []), k))"

text \<open>\<open>int\<close> of a 64-bit number; the division and the remainder are those of C.\<close>

definition to_i32 :: "int \<Rightarrow> int" where
  "to_i32 v = sint (word_of_int v :: 32 word)"

definition c_div :: "int \<Rightarrow> int \<Rightarrow> int" where
  "c_div a b = sgn a * sgn b * (\<bar>a\<bar> div \<bar>b\<bar>)"

definition c_mod :: "int \<Rightarrow> int \<Rightarrow> int" where
  "c_mod a b = a - c_div a b * b"

definition setTimeouts :: "'k kernel \<Rightarrow> bool \<Rightarrow> int \<Rightarrow> sock \<Rightarrow> 'k \<Rightarrow> 'k" where
  "setTimeouts K rcv v s k =
     snd (kn_settimeo K (sk_sock s) rcv (to_i32 (c_div v 1000)) (to_i32 (c_mod v 1000 * 1000)) k)"

definition setSendTimeout :: "'k kernel \<Rightarrow> int \<Rightarrow> sock \<Rightarrow> 'k \<Rightarrow> 'k" where
  "setSendTimeout K v s k = setTimeouts K False v s k"

definition setRecvTimeout :: "'k kernel \<Rightarrow> int \<Rightarrow> sock \<Rightarrow> 'k \<Rightarrow> 'k" where
  "setRecvTimeout K v s k = setTimeouts K True v s k"

definition getSendTimeout :: "'k kernel \<Rightarrow> sock \<Rightarrow> 'k \<Rightarrow> int" where
  "getSendTimeout K s k =
     (case kn_context K (sk_sock s) k of None \<Rightarrow> - 1 | Some ctx \<Rightarrow> sint (getTimeout False ctx))"

definition getRecvTimeout :: "'k kernel \<Rightarrow> sock \<Rightarrow> 'k \<Rightarrow> int" where
  "getRecvTimeout K s k =
     (case kn_context K (sk_sock s) k of None \<Rightarrow> - 1 | Some ctx \<Rightarrow> sint (getTimeout True ctx))"

text \<open>\<^verbatim>\<open>SO_ERROR\<close>, or the error of asking for it.\<close>

definition getError :: "'k kernel \<Rightarrow> sock \<Rightarrow> 'k \<Rightarrow> int" where
  "getError K s k = (case getOption K 1 4 s k of None \<Rightarrow> kn_errno K k | Some e \<Rightarrow> e)"

text \<open>The events of the descriptor: \<open>Some True\<close> reading, \<open>Some False\<close> writing, \<open>None\<close> all.\<close>

definition cancelRead :: "'k kernel \<Rightarrow> sock \<Rightarrow> 'k \<Rightarrow> bool \<times> 'k" where
  "cancelRead K s k = kn_cancel K (sk_sock s) (Some True) k"

definition cancelWrite :: "'k kernel \<Rightarrow> sock \<Rightarrow> 'k \<Rightarrow> bool \<times> 'k" where
  "cancelWrite K s k = kn_cancel K (sk_sock s) (Some False) k"

definition cancelAccept :: "'k kernel \<Rightarrow> sock \<Rightarrow> 'k \<Rightarrow> bool \<times> 'k" where
  "cancelAccept K s k = kn_cancel K (sk_sock s) (Some True) k"

definition sock_cancelAll :: "'k kernel \<Rightarrow> sock \<Rightarrow> 'k \<Rightarrow> bool \<times> 'k" where
  "sock_cancelAll K s k = kn_cancel K (sk_sock s) None k"

definition sock_dump :: "sock \<Rightarrow> string" where
  "sock_dump s =
     ''[Socket sock='' @ show_int (sk_sock s) @ '' is_connected='' @ (if sk_isConnected s then ''1'' else ''0'') @
     '' family='' @ show_word (sk_family s) @ '' type='' @ show_int (sint (sk_type s)) @ '' protocol='' @ show_int (sint (sk_protocol s)) @
     (case sk_localAddress s of None \<Rightarrow> [] | Some a \<Rightarrow> '' local_address='' @ address_insert a) @
     (case sk_remoteAddress s of None \<Rightarrow> [] | Some a \<Rightarrow> '' remote_address='' @ address_insert a) @ '']''"

end
