(* ===== verification/SocketProps.thy ===== *)
theory SocketProps
  imports Socket
begin

text \<open>
  What sockets do to the descriptors. \<open>kernel_laws\<close> states the calls of the kernel: \<^verbatim>\<open>socket\<close> and \<^verbatim>\<open>accept\<close> answer \<open>- 1\<close> or
  open a descriptor that was not open, \<^verbatim>\<open>close\<close> closes one, the others open and close nothing. Over any sequence of
  operations on any number of sockets every open descriptor is held by exactly one socket, if accepted descriptors are in the
  descriptor table; where they are not, \<open>accept\<close> loses them.
\<close>

section \<open>Laws of the kernel\<close>

definition kernel_laws :: "'k kernel \<Rightarrow> bool" where
  "kernel_laws K \<longleftrightarrow>
     (\<forall>f t p k. case kn_socket K f t p k of (fd, k') \<Rightarrow>
        if fd = - 1 then kn_open K k' = kn_open K k
        else fd \<notin> kn_open K k \<and> kn_open K k' = insert fd (kn_open K k)) \<and>
     (\<forall>s k. case kn_accept K s k of (fd, k') \<Rightarrow>
        if fd = - 1 then kn_open K k' = kn_open K k
        else fd \<notin> kn_open K k \<and> kn_open K k' = insert fd (kn_open K k)) \<and>
     (\<forall>fd k. kn_open K (kn_close K fd k) = kn_open K k - {fd}) \<and>
     (\<forall>fd a n k. kn_open K (snd (kn_bind K fd a n k)) = kn_open K k) \<and>
     (\<forall>fd a n t k. kn_open K (snd (kn_connect K fd a n t k)) = kn_open K k) \<and>
     (\<forall>fd n k. kn_open K (snd (kn_listen K fd n k)) = kn_open K k) \<and>
     (\<forall>fd l opt v k. kn_open K (snd (kn_setopt K fd l opt v k)) = kn_open K k) \<and>
     (\<forall>fd r a b k. kn_open K (snd (kn_settimeo K fd r a b k)) = kn_open K k) \<and>
     (\<forall>p k. kn_open K (kn_unlink K p k) = kn_open K k) \<and>
     (\<forall>fd e k. kn_open K (snd (kn_cancel K fd e k)) = kn_open K k)"

text \<open>An accepted descriptor is in the descriptor table as a socket, as it is when the calls are hooked.\<close>

definition accepts_registered :: "'k kernel \<Rightarrow> bool" where
  "accepts_registered K \<longleftrightarrow>
     (\<forall>s k. case kn_accept K s k of (fd, k') \<Rightarrow>
        if fd = - 1 then True
        else case kn_context K fd k' of None \<Rightarrow> False | Some c \<Rightarrow> fx_socket c \<and> \<not> fx_closed c)"

lemma kernel_opens:
  assumes "kernel_laws K"
  shows "kn_socket K f t p k = (fd, k') \<Longrightarrow>
      if fd = - 1 then kn_open K k' = kn_open K k else fd \<notin> kn_open K k \<and> kn_open K k' = insert fd (kn_open K k)"
    and "kn_accept K s k = (fd, k') \<Longrightarrow>
      if fd = - 1 then kn_open K k' = kn_open K k else fd \<notin> kn_open K k \<and> kn_open K k' = insert fd (kn_open K k)"
    and "kn_open K (kn_close K fd k) = kn_open K k - {fd}"
    and "kn_bind K fd a n k = (r, k') \<Longrightarrow> kn_open K k' = kn_open K k"
    and "kn_connect K fd a n tm k = (r, k') \<Longrightarrow> kn_open K k' = kn_open K k"
    and "kn_listen K fd i k = (r, k') \<Longrightarrow> kn_open K k' = kn_open K k"
    and "kn_setopt K fd l opt v k = (r, k') \<Longrightarrow> kn_open K k' = kn_open K k"
    and "kn_settimeo K fd rcv l opt k = (r, k') \<Longrightarrow> kn_open K k' = kn_open K k"
    and "kn_open K (kn_unlink K path k) = kn_open K k"
    and "kn_cancel K fd e k = (b, k') \<Longrightarrow> kn_open K k' = kn_open K k"
  using assms unfolding kernel_laws_def by (metis (mono_tags, lifting) case_prodD snd_conv | blast)+

section \<open>One socket\<close>

definition fds :: "sock \<Rightarrow> int set" where
  "fds s = (if sk_sock s = - 1 then {} else {sk_sock s})"

text \<open>The operation changes what is open only in what the socket holds, and a connected stream socket is valid.\<close>

definition sock_ok :: "sock \<Rightarrow> bool" where
  "sock_ok s \<longleftrightarrow> sk_sock s = - 1 \<longrightarrow> sk_type s = TCP \<longrightarrow> \<not> sk_isConnected s"

definition moves :: "'k kernel \<Rightarrow> sock \<times> 'k \<Rightarrow> sock \<times> 'k \<Rightarrow> bool" where
  "moves K p q \<longleftrightarrow> fds (fst p) \<subseteq> kn_open K (snd p) \<longrightarrow> sock_ok (fst p) \<longrightarrow>
     kn_open K (snd q) = (kn_open K (snd p) - fds (fst p)) \<union> fds (fst q) \<and>
     fds (fst q) \<inter> (kn_open K (snd p) - fds (fst p)) = {} \<and> sock_ok (fst q)"

lemma moves_refl: "moves K p p"
  by (auto simp: moves_def)

lemma moves_trans: "moves K p q \<Longrightarrow> moves K q r \<Longrightarrow> moves K p r"
  unfolding moves_def by (simp, blast)

lemma moves_silent:
  assumes "kn_open K k' = kn_open K k" and "sk_sock s' = sk_sock s" and "sock_ok s \<Longrightarrow> sock_ok s'"
  shows "moves K (s, k) (s', k')"
  using assms by (auto simp: moves_def fds_def)

lemma address_fields:
  "sk_sock (snd (getRemoteAddress K s k)) = sk_sock s" "sk_isConnected (snd (getRemoteAddress K s k)) = sk_isConnected s"
  "sk_type (snd (getRemoteAddress K s k)) = sk_type s" "sk_family (snd (getRemoteAddress K s k)) = sk_family s"
  "sk_sock (snd (getLocalAddress K s k)) = sk_sock s" "sk_isConnected (snd (getLocalAddress K s k)) = sk_isConnected s"
  "sk_type (snd (getLocalAddress K s k)) = sk_type s" "sk_family (snd (getLocalAddress K s k)) = sk_family s"
  by (auto simp: getRemoteAddress_def getLocalAddress_def Let_def split: option.split)

lemma setOption_opens:
  assumes "kernel_laws K"
  shows "kn_open K (snd (setOption K l opt v s k)) = kn_open K k"
  using kernel_opens(7) [OF assms] by (auto simp: setOption_def split: prod.split)

lemma initSock_opens: "kernel_laws K \<Longrightarrow> kn_open K (initSock K s k) = kn_open K k"
  by (simp add: initSock_def Let_def setOption_opens)

lemma newSock_moves:
  assumes laws: "kernel_laws K" and s: "sk_sock s = - 1"
  shows "moves K (s, k) (newSock K s k)"
proof -
  obtain fd k' where c: "kn_socket K (sk_family s) (sk_type s) (sk_protocol s) k = (fd, k')" by fastforce
  from kernel_opens(1) [OF laws c] c s show ?thesis
    by (auto simp: newSock_def moves_def fds_def sock_ok_def initSock_opens [OF laws] Let_def split: if_splits)
qed

lemma newSock_fields:
  "sk_type (fst (newSock K s k)) = sk_type s" "sk_isConnected (fst (newSock K s k)) = sk_isConnected s"
  "sk_family (fst (newSock K s k)) = sk_family s"
  by (simp_all add: newSock_def Let_def split: prod.split)

lemma close_moves:
  assumes laws: "kernel_laws K"
  shows "moves K (s, k) (snd (sock_close K s k))"
  by (auto simp: moves_def sock_close_def fds_def sock_ok_def Let_def kernel_opens(3) [OF laws])

lemma close_gone: "sk_sock (fst (snd (sock_close K s k))) = - 1"
  by (simp add: sock_close_def Let_def)

lemma destroy_opens:
  assumes "kernel_laws K" and "fds s \<subseteq> kn_open K k"
  shows "kn_open K (destroy K s k) = kn_open K k - fds s"
  using assms(2) by (auto simp: destroy_def sock_close_def fds_def Let_def kernel_opens(3) [OF assms(1)])

lemma ensure_moves: "kernel_laws K \<Longrightarrow> moves K (s, k) (ensure_sock K s k)"
  by (simp add: ensure_sock_def isValid_def newSock_moves moves_refl)

lemma connect_moves:
  assumes laws: "kernel_laws K"
  shows "moves K (s, k) (snd (sock_connect K a tm s k))"
proof -
  define s0 where "s0 = s\<lparr>sk_remoteAddress := Some a\<rparr>"
  obtain s1 k1 where e: "ensure_sock K s0 k = (s1, k1)" by fastforce
  obtain rt k2 where c: "kn_connect K (sk_sock s1) (getAddr a) (getAddrLen a) tm k1 = (rt, k2)" by fastforce
  have "moves K (s, k) (s0, k)" by (rule moves_silent) (simp_all add: s0_def sock_ok_def)
  moreover have "moves K (s0, k) (s1, k1)" using ensure_moves [OF laws, of s0 k] e by simp
  ultimately have m1: "moves K (s, k) (s1, k1)" by (rule moves_trans)
  have m2: "moves K (s1, k1) (s1, k2)" by (rule moves_silent) (simp_all add: kernel_opens(5) [OF laws c])
  have m3: "moves K (s1, k2) (snd (getLocalAddress K (snd (getRemoteAddress K (s1\<lparr>sk_isConnected := True\<rparr>) k2)) k2), k2)"
    if "isValid s1"
    using that by (intro moves_silent) (simp_all add: address_fields sock_ok_def isValid_def)
  show ?thesis
    using m1 moves_trans [OF moves_trans [OF m1 m2] close_moves [OF laws, of s1 k2]] moves_trans [OF moves_trans [OF m1 m2] m3]
    by (simp add: sock_connect_def s0_def [symmetric] e c Let_def)
qed

lemma reconnect_moves:
  assumes laws: "kernel_laws K"
  shows "moves K (s, k) (snd (sock_reconnect K tm s k))"
proof -
  have "moves K (s, k) (s\<lparr>sk_localAddress := None\<rparr>, k)" by (rule moves_silent) (simp_all add: sock_ok_def)
  from moves_trans [OF this connect_moves [OF laws]] show ?thesis
    by (simp add: sock_reconnect_def moves_refl split: option.split)
qed

lemma probe_opens:
  assumes laws: "kernel_laws K"
  shows "kn_open K (snd (probe_path K a k)) = kn_open K k"
proof (cases a)
  case (Unix u)
  obtain ok s k1 where c: "sock_connect K a (- 1) CreateUnixTCPSocket k = (ok, s, k1)" by (metis prod_cases3)
  have new: "fds CreateUnixTCPSocket = {}" "sock_ok CreateUnixTCPSocket"
    by (simp_all add: CreateUnixTCPSocket_def new_Socket_def fds_def sock_ok_def)
  from connect_moves [OF laws, of CreateUnixTCPSocket k a "- 1"] c new
  have m: "kn_open K k1 = kn_open K k \<union> fds s" "fds s \<inter> kn_open K k = {}" by (simp_all add: moves_def)
  have d: "kn_open K (destroy K s k1) = kn_open K k"
    "kn_open K (destroy K s (kn_unlink K (unix_getPath u) k1)) = kn_open K k"
    using m by (auto simp: destroy_opens [OF laws] kernel_opens(9) [OF laws])
  with c Unix show ?thesis by (simp add: probe_path_def)
qed (simp_all add: probe_path_def)

lemma bind_moves:
  assumes laws: "kernel_laws K"
  shows "moves K (s, k) (snd (sock_bind K a s k))"
proof -
  define s0 where "s0 = s\<lparr>sk_localAddress := Some a\<rparr>"
  obtain s1 k1 where e: "ensure_sock K s0 k = (s1, k1)" by fastforce
  obtain b k2 where p: "probe_path K a k1 = (b, k2)" by fastforce
  obtain rt k3 where c: "kn_bind K (sk_sock s1) (getAddr a) (getAddrLen a) k2 = (rt, k3)" by fastforce
  have "moves K (s, k) (s0, k)" by (rule moves_silent) (simp_all add: s0_def sock_ok_def)
  moreover have "moves K (s0, k) (s1, k1)" using ensure_moves [OF laws, of s0 k] e by simp
  ultimately have m1: "moves K (s, k) (s1, k1)" by (rule moves_trans)
  have o: "kn_open K k2 = kn_open K k1" "kn_open K k3 = kn_open K k2"
    using probe_opens [OF laws, of a k1] kernel_opens(4) [OF laws c] p by simp_all
  have "moves K (s1, k1) (s1, k2)" "moves K (s1, k1) (s1, k3)" "moves K (s1, k1) (snd (getLocalAddress K s1 k3), k3)"
    by (rule moves_silent; simp add: o address_fields sock_ok_def)+
  with m1 show ?thesis
    by (auto simp: sock_bind_def s0_def [symmetric] e p c Let_def intro: moves_trans)
qed

lemma listen_opens:
  assumes laws: "kernel_laws K"
  shows "kn_open K (snd (sock_listen K n s k)) = kn_open K k"
  using kernel_opens(6) [OF laws] by (auto simp: sock_listen_def split: prod.split)

text \<open>An accepted client holds the descriptor \<open>accept\<close> has opened; without a client nothing is open that was not.\<close>

lemma accept_opens:
  assumes laws: "kernel_laws K" and reg: "accepts_registered K"
  shows "case sock_accept K s k of
      (None, k') \<Rightarrow> kn_open K k' = kn_open K k
    | (Some c, k') \<Rightarrow> kn_open K k' = kn_open K k \<union> fds c \<and> fds c \<inter> kn_open K k = {} \<and> fds c \<noteq> {} \<and>
        sock_ok c \<and> sk_isConnected c"
proof -
  obtain fd k1 where a: "kn_accept K (sk_sock s) k = (fd, k1)" by fastforce
  note o = kernel_opens(2) [OF laws a]
  show ?thesis
  proof (cases "fd = - 1")
    case True
    then have "sock_accept K s k = (None, k1)"
      by (simp add: sock_accept_def a destroy_def sock_close_def new_Socket_def Let_def)
    with o True show ?thesis by simp
  next
    case False
    note r = reg [unfolded accepts_registered_def, THEN spec, THEN spec, of "sk_sock s" k]
    from r a False obtain ctx where ctx: "kn_context K fd k1 = Some ctx" "fx_socket ctx" "\<not> fx_closed ctx"
      by (auto split: option.splits)
    define c0 where "c0 = (new_Socket (sk_family s) (sk_type s) (sk_protocol s))\<lparr>sk_sock := fd, sk_isConnected := True\<rparr>"
    define k2 where "k2 = initSock K c0 k1"
    define c where "c = snd (getRemoteAddress K (snd (getLocalAddress K c0 k2)) k2)"
    have "sock_accept K s k = (Some c, k2)"
      using a False ctx by (simp add: sock_accept_def sock_init_def Let_def c0_def k2_def c_def)
    moreover have "sk_sock c = fd" "sk_isConnected c" by (simp_all add: c_def c0_def address_fields)
    moreover have "kn_open K k2 = kn_open K k1" by (simp add: k2_def initSock_opens [OF laws])
    ultimately show ?thesis using o False by (simp add: fds_def sock_ok_def)
  qed
qed

section \<open>Programs of sockets\<close>

text \<open>The sockets a program has, \<open>None\<close> where the last reference is gone, and what it can do with them.\<close>

record 'k net =
  nt_socks :: "sock option list"
  nt_kern :: 'k

datatype sock_op =
    CreateTcp address
  | CreateUdp address
  | BindTo nat address
  | ConnectTo nat address "64 word"
  | ReconnectTo nat "64 word"
  | ListenOn nat int
  | AcceptOn nat
  | CloseSock nat
  | CancelAll nat
  | SetRecvTimeout nat int
  | Drop nat

definition add_sock :: "sock \<times> 'k \<Rightarrow> 'k net \<Rightarrow> 'k net" where
  "add_sock sk N = N\<lparr>nt_socks := nt_socks N @ [Some (fst sk)], nt_kern := snd sk\<rparr>"

definition sock_at :: "nat \<Rightarrow> 'k net \<Rightarrow> sock option" where
  "sock_at i N = (if i < length (nt_socks N) then nt_socks N ! i else None)"

definition on_sock :: "nat \<Rightarrow> (sock \<Rightarrow> 'k \<Rightarrow> bool \<times> sock \<times> 'k) \<Rightarrow> 'k net \<Rightarrow> bool \<times> 'k net" where
  "on_sock i f N =
     (case sock_at i N of
        None \<Rightarrow> (False, N)
      | Some s \<Rightarrow>
          case f s (nt_kern N) of
            (ok, s, k) \<Rightarrow> (ok, N\<lparr>nt_socks := (nt_socks N)[i := Some s], nt_kern := k\<rparr>))"

fun sock_step :: "'k kernel \<Rightarrow> sock_op \<Rightarrow> 'k net \<Rightarrow> bool \<times> 'k net" where
  "sock_step K (CreateTcp a) N = (True, add_sock (CreateTCP a, nt_kern N) N)"
| "sock_step K (CreateUdp a) N = (True, add_sock (CreateUDP K a (nt_kern N)) N)"
| "sock_step K (BindTo i a) N = on_sock i (sock_bind K a) N"
| "sock_step K (ConnectTo i a tm) N = on_sock i (sock_connect K a tm) N"
| "sock_step K (ReconnectTo i tm) N = on_sock i (sock_reconnect K tm) N"
| "sock_step K (ListenOn i n) N = on_sock i (\<lambda>s k. case sock_listen K n s k of (ok, k) \<Rightarrow> (ok, s, k)) N"
| "sock_step K (CloseSock i) N = on_sock i (sock_close K) N"
| "sock_step K (CancelAll i) N = on_sock i (\<lambda>s k. case sock_cancelAll K s k of (ok, k) \<Rightarrow> (ok, s, k)) N"
| "sock_step K (SetRecvTimeout i v) N = on_sock i (\<lambda>s k. (True, s, setRecvTimeout K v s k)) N"
| "sock_step K (AcceptOn i) N =
     (case sock_at i N of
        None \<Rightarrow> (False, N)
      | Some s \<Rightarrow>
          case sock_accept K s (nt_kern N) of
            (None, k) \<Rightarrow> (False, N\<lparr>nt_kern := k\<rparr>)
          | (Some c, k) \<Rightarrow> (True, add_sock (c, k) N))"
| "sock_step K (Drop i) N =
     (case sock_at i N of
        None \<Rightarrow> (False, N)
      | Some s \<Rightarrow> (True, N\<lparr>nt_socks := (nt_socks N)[i := None], nt_kern := destroy K s (nt_kern N)\<rparr>))"

definition sock_run :: "'k kernel \<Rightarrow> sock_op list \<Rightarrow> 'k net \<Rightarrow> 'k net" where
  "sock_run K ops N = foldl (\<lambda>N op. snd (sock_step K op N)) N ops"

text \<open>The descriptors the sockets hold, one for each that is valid.\<close>

definition held :: "sock option \<Rightarrow> int list" where
  "held so = (case so of None \<Rightarrow> [] | Some s \<Rightarrow> if isValid s then [sk_sock s] else [])"

definition holdings :: "'k net \<Rightarrow> int list" where
  "holdings N = concat (map held (nt_socks N))"

definition net_ok :: "'k kernel \<Rightarrow> int set \<Rightarrow> 'k net \<Rightarrow> bool" where
  "net_ok K base N \<longleftrightarrow>
     kn_open K (nt_kern N) = base \<union> set (holdings N) \<and> distinct (holdings N) \<and> base \<inter> set (holdings N) = {} \<and>
     list_all (\<lambda>so. case so of None \<Rightarrow> True | Some s \<Rightarrow> sock_ok s) (nt_socks N)"

lemma held_fds: "set (held (Some s)) = fds s" "distinct (held so)"
  by (auto simp: held_def fds_def isValid_def split: option.split)

lemma sock_at_split:
  assumes "sock_at i N = Some s"
  obtains xs ys where "nt_socks N = xs @ Some s # ys" and "\<And>so. (nt_socks N)[i := so] = xs @ so # ys"
proof -
  have i: "i < length (nt_socks N)" "nt_socks N ! i = Some s" using assms by (auto simp: sock_at_def split: if_splits)
  show thesis
  proof (rule that)
    show "nt_socks N = take i (nt_socks N) @ Some s # drop (Suc i) (nt_socks N)"
      using id_take_nth_drop [OF i(1)] i(2) by simp
    show "(nt_socks N)[i := so] = take i (nt_socks N) @ so # drop (Suc i) (nt_socks N)" for so
      using i by (simp add: upd_conv_take_nth_drop)
  qed
qed

text \<open>What one operation must do to the socket it works on for the whole to stay in order.\<close>

lemma net_ok_update:
  assumes ok: "net_ok K base N" and at: "sock_at i N = Some s"
    and m: "kn_open K k = (kn_open K (nt_kern N) - fds s) \<union> set (held so)"
    and new: "set (held so) \<inter> (kn_open K (nt_kern N) - fds s) = {}"
    and sok: "case so of None \<Rightarrow> True | Some s \<Rightarrow> sock_ok s"
  shows "net_ok K base (N\<lparr>nt_socks := (nt_socks N)[i := so], nt_kern := k\<rparr>)"
proof -
  obtain xs ys where N: "nt_socks N = xs @ Some s # ys" "(nt_socks N)[i := so] = xs @ so # ys"
    using sock_at_split [OF at] by metis
  define X where "X = set (concat (map held (xs @ ys)))"
  have o: "kn_open K (nt_kern N) = base \<union> X \<union> fds s" "fds s \<inter> (base \<union> X) = {}" "base \<inter> X = {}"
    "distinct (concat (map held (xs @ ys)))" "list_all (\<lambda>so. case so of None \<Rightarrow> True | Some s \<Rightarrow> sock_ok s) (xs @ ys)"
    using ok by (auto simp: net_ok_def holdings_def N held_fds(1) X_def)
  then have "kn_open K (nt_kern N) - fds s = base \<union> X" by blast
  with m new have k: "kn_open K k = base \<union> X \<union> set (held so)" "set (held so) \<inter> (base \<union> X) = {}" by auto
  have h: "set (concat (map held (xs @ so # ys))) = X \<union> set (held so)" by (auto simp: X_def)
  have "distinct (concat (map held (xs @ so # ys)))"
    using o(4) k(2) held_fds(2) [of so] by (auto simp: X_def)
  moreover have "base \<inter> set (concat (map held (xs @ so # ys))) = {}" using o(3) k(2) unfolding h by blast
  moreover have u: "nt_socks (N\<lparr>nt_socks := (nt_socks N)[i := so], nt_kern := k\<rparr>) = xs @ so # ys" using N(2) by simp
  ultimately show ?thesis
    using k(1) o(5) sok unfolding net_ok_def holdings_def u h by (simp add: Un_assoc)
qed

lemma on_sock_ok:
  assumes ok: "net_ok K base N"
    and f: "\<And>s k. moves K (s, k) (snd (f s k))"
  shows "net_ok K base (snd (on_sock i f N))"
proof (cases "sock_at i N")
  case None
  with ok show ?thesis by (simp add: on_sock_def)
next
  case (Some s)
  obtain b s' k where r: "f s (nt_kern N) = (b, s', k)" by (metis prod_cases3)
  obtain xs ys where N: "nt_socks N = xs @ Some s # ys" using sock_at_split [OF Some] by metis
  have "fds s \<subseteq> kn_open K (nt_kern N)" "sock_ok s"
    using ok held_fds(1) [of s] by (auto simp: net_ok_def holdings_def N)
  with f [of s "nt_kern N"] r have "kn_open K k = (kn_open K (nt_kern N) - fds s) \<union> fds s'"
    "fds s' \<inter> (kn_open K (nt_kern N) - fds s) = {}" "sock_ok s'"
    by (simp_all add: moves_def)
  with net_ok_update [OF ok Some, of k "Some s'"] Some r show ?thesis by (simp add: on_sock_def held_fds(1))
qed

lemma add_sock_ok:
  assumes "net_ok K base N" and "kn_open K k = kn_open K (nt_kern N) \<union> fds s"
    and "fds s \<inter> kn_open K (nt_kern N) = {}" and "sock_ok s"
  shows "net_ok K base (add_sock (s, k) N)"
  using assms held_fds(2) [of "Some s"] unfolding net_ok_def holdings_def add_sock_def
  by (auto simp: held_fds(1))

lemma sock_step_ok:
  assumes laws: "kernel_laws K" and reg: "accepts_registered K" and ok: "net_ok K base N"
  shows "net_ok K base (snd (sock_step K op N))"
proof (cases op)
  case (CreateTcp a)
  with ok show ?thesis
    using add_sock_ok [OF ok, of "nt_kern N" "CreateTCP a"] by (simp add: CreateTCP_def new_Socket_def fds_def sock_ok_def)
next
  case (CreateUdp a)
  define s0 where "s0 = new_Socket (getFamily a) UDP 0"
  obtain s k where n: "newSock K s0 (nt_kern N) = (s, k)" by fastforce
  have "moves K (s0, nt_kern N) (s, k)"
    using newSock_moves [OF laws, of s0 "nt_kern N"] n by (simp add: s0_def new_Socket_def)
  moreover have "fds s0 = {}" "sock_ok s0" by (simp_all add: s0_def new_Socket_def fds_def sock_ok_def)
  moreover have "sk_type s = UDP" using newSock_fields(1) [of K s0 "nt_kern N"] n by (simp add: s0_def new_Socket_def)
  ultimately show ?thesis
    using CreateUdp add_sock_ok [OF ok, of k "s\<lparr>sk_isConnected := True\<rparr>"] n
    by (simp add: CreateUDP_def s0_def moves_def fds_def sock_ok_def TCP_def UDP_def split: if_splits)
next
  case (ListenOn i n)
  have "moves K (s, k) (s, snd (sock_listen K n s k))" for s k
    by (rule moves_silent) (simp_all add: listen_opens [OF laws])
  with ListenOn show ?thesis by (simp, intro on_sock_ok [OF ok]) (simp add: case_prod_unfold)
next
  case (CancelAll i)
  have "moves K (s, k) (s, snd (sock_cancelAll K s k))" for s k
    using kernel_opens(10) [OF laws] by (intro moves_silent) (simp_all add: sock_cancelAll_def, metis prod.collapse)
  with CancelAll show ?thesis by (simp, intro on_sock_ok [OF ok]) (simp add: case_prod_unfold)
next
  case (SetRecvTimeout i v)
  have "moves K (s, k) (s, setRecvTimeout K v s k)" for s k
    using kernel_opens(8) [OF laws] by (intro moves_silent) (simp_all add: setRecvTimeout_def setTimeouts_def, metis prod.collapse)
  with SetRecvTimeout show ?thesis by (simp, intro on_sock_ok [OF ok]) simp
next
  case (AcceptOn i)
  show ?thesis
  proof (cases "sock_at i N")
    case (Some s)
    obtain c k where a: "sock_accept K s (nt_kern N) = (c, k)" by fastforce
    note o = accept_opens [OF laws reg, where s = s and k = "nt_kern N", unfolded a]
    show ?thesis
    proof (cases c)
      case None
      with o have "net_ok K base (N\<lparr>nt_kern := k\<rparr>)" using ok by (simp add: net_ok_def holdings_def)
      with AcceptOn Some a None show ?thesis by simp
    next
      case (Some c')
      with o add_sock_ok [OF ok, of k c'] AcceptOn \<open>sock_at i N = Some s\<close> a show ?thesis by simp
    qed
  qed (use AcceptOn ok in simp)
next
  case (Drop i)
  show ?thesis
  proof (cases "sock_at i N")
    case (Some s)
    obtain xs ys where N: "nt_socks N = xs @ Some s # ys" using sock_at_split [OF Some] by metis
    have "fds s \<subseteq> kn_open K (nt_kern N)" using ok held_fds(1) [of s] by (auto simp: net_ok_def holdings_def N)
    with net_ok_update [OF ok Some, of "destroy K s (nt_kern N)" None] Drop Some show ?thesis
      by (simp add: destroy_opens [OF laws] held_def)
  qed (use Drop ok in simp)
qed (simp_all add: on_sock_ok [OF ok] bind_moves [OF laws] connect_moves [OF laws] reconnect_moves [OF laws] close_moves [OF laws])

lemma sock_run_ok:
  assumes "kernel_laws K" and "accepts_registered K" and "net_ok K base N"
  shows "net_ok K base (sock_run K ops N)"
  using assms(3) by (induction ops arbitrary: N) (simp_all add: sock_run_def sock_step_ok [OF assms(1,2)])

text \<open>Whatever a program does with its sockets, the descriptors it has opened are exactly those its sockets hold, no two
  sockets hold the same, none is one the program had before, and a stream socket is connected only with a descriptor; so once
  all sockets are gone everything is closed.\<close>

theorem sockets_own_descriptors:
  assumes "kernel_laws K" and "accepts_registered K"
  shows "let N = sock_run K ops \<lparr>nt_socks = [], nt_kern = k\<rparr>
    in kn_open K (nt_kern N) = kn_open K k \<union> set (holdings N) \<and> distinct (holdings N) \<and>
       kn_open K k \<inter> set (holdings N) = {} \<and>
       list_all (\<lambda>so. case so of None \<Rightarrow> True | Some s \<Rightarrow> sock_ok s) (nt_socks N)"
proof -
  have "net_ok K (kn_open K k) \<lparr>nt_socks = [], nt_kern = k\<rparr>" by (simp add: net_ok_def holdings_def)
  from sock_run_ok [OF assms this, of ops] show ?thesis by (simp add: net_ok_def Let_def)
qed

text \<open>A kernel that opens the number above all open ones, puts what it opens in the descriptor table, and lets every call succeed.\<close>

record os =
  os_fds :: "int list"
  os_table :: "int \<Rightarrow> fd_ctx option"

definition os_fresh :: "os \<Rightarrow> int" where
  "os_fresh S = foldr max (os_fds S) 2 + 1"

definition os_opened :: "os \<Rightarrow> int \<times> os" where
  "os_opened S =
     (let fd = os_fresh S
      in (fd, S\<lparr>os_fds := fd # os_fds S, os_table := (os_table S)(fd := Some (fst (new_fd_ctx fd (Some True) new_hook_state)))\<rparr>))"

definition os_kernel :: "os kernel" where
  "os_kernel =
     \<lparr>kn_open = (\<lambda>S. set (os_fds S)), kn_socket = (\<lambda>_ _ _. os_opened),
      kn_accept = (\<lambda>fd S. if 0 \<le> fd \<and> fd \<in> set (os_fds S) then os_opened S else (- 1, S)),
      kn_context = (\<lambda>fd S. os_table S fd), kn_bind = (\<lambda>_ _ _ S. (0, S)), kn_connect = (\<lambda>_ _ _ _ S. (0, S)),
      kn_listen = (\<lambda>_ _ S. (0, S)), kn_close = (\<lambda>fd S. S\<lparr>os_fds := filter (\<lambda>f. f \<noteq> fd) (os_fds S), os_table := (os_table S)(fd := None)\<rparr>),
      kn_setopt = (\<lambda>_ _ _ _ S. (0, S)), kn_getopt = (\<lambda>_ _ _ _. Some 0),
      kn_settimeo = (\<lambda>fd rcv sec usec S.
        (0, S\<lparr>os_table := (os_table S)(fd := map_option (setTimeout rcv (timeval_ms sec usec)) (os_table S fd))\<rparr>)),
      kn_errno = (\<lambda>_. 0), kn_sockname = (\<lambda>_ _. Some ([0, 80, 127, 0, 0, 1], 16)), kn_peername = (\<lambda>_ _. None), kn_unlink = (\<lambda>_ S. S),
      kn_send = (\<lambda>_ bs _ _ S. (int (length (concat bs)), S)), kn_recv = (\<lambda>_ _ _ _ S. ((0, []), S)), kn_cancel = (\<lambda>_ _ S. (True, S))\<rparr>"

lemma foldr_max: "x \<in> set xs \<Longrightarrow> x \<le> foldr max xs (2 :: int)" "2 \<le> foldr max xs (2 :: int)"
  by (induction xs) auto

lemma os_fresh_not_open: "os_fresh S \<notin> set (os_fds S)" "os_fresh S \<noteq> - 1"
  using foldr_max(1) [of "os_fresh S" "os_fds S"] foldr_max(2) [of "os_fds S"] by (auto simp: os_fresh_def)

lemma os_laws: "kernel_laws os_kernel"
  using os_fresh_not_open by (simp add: kernel_laws_def os_kernel_def os_opened_def Let_def) auto

lemma os_registered: "accepts_registered os_kernel"
  by (simp add: accepts_registered_def os_kernel_def os_opened_def new_fd_ctx_def Let_def)

theorem sockets_own_descriptors_witness:
  "holdings (sock_run os_kernel
       [CreateTcp (IPv4 (IPv4Address 0 80)), BindTo 0 (IPv4 (IPv4Address 0 80)), ListenOn 0 128, AcceptOn 0, CloseSock 0]
       \<lparr>nt_socks = [], nt_kern = \<lparr>os_fds = [0, 1, 2], os_table = (\<lambda>_. None)\<rparr>\<rparr>) = [4] \<and>
   kn_open os_kernel (nt_kern (sock_run os_kernel
       [CreateTcp (IPv4 (IPv4Address 0 80)), BindTo 0 (IPv4 (IPv4Address 0 80)), ListenOn 0 128, AcceptOn 0, CloseSock 0]
       \<lparr>nt_socks = [], nt_kern = \<lparr>os_fds = [0, 1, 2], os_table = (\<lambda>_. None)\<rparr>\<rparr>)) = {0, 1, 2, 4}"
proof -
  define N where "N = sock_run os_kernel
       [CreateTcp (IPv4 (IPv4Address 0 80)), BindTo 0 (IPv4 (IPv4Address 0 80)), ListenOn 0 128, AcceptOn 0, CloseSock 0]
       \<lparr>nt_socks = [], nt_kern = \<lparr>os_fds = [0, 1, 2], os_table = (\<lambda>_. None)\<rparr>\<rparr>"
  have h: "holdings N = [4]" unfolding N_def by code_simp
  moreover have "kn_open os_kernel (nt_kern N) = {0, 1, 2} \<union> set (holdings N)"
    using sockets_own_descriptors [OF os_laws os_registered, of
        "[CreateTcp (IPv4 (IPv4Address 0 80)), BindTo 0 (IPv4 (IPv4Address 0 80)), ListenOn 0 128, AcceptOn 0, CloseSock 0]"
        "\<lparr>os_fds = [0, 1, 2], os_table = (\<lambda>_. None)\<rparr>"]
    unfolding N_def [symmetric] by (simp add: Let_def os_kernel_def)
  ultimately show ?thesis unfolding N_def [symmetric] by auto
qed

section \<open>Accepting, addresses, timeouts\<close>

text \<open>A descriptor the table does not have, because the thread that accepts does not hook its calls: it stays open and nobody
  holds it.\<close>

lemma accept_loses_descriptor:
  assumes "kernel_laws K" and "kn_accept K (sk_sock s) k = (fd, k')" and "fd \<noteq> - 1" and "kn_context K fd k' = None"
  shows "sock_accept K s k = (None, k') \<and> fd \<in> kn_open K k' \<and> fd \<notin> kn_open K k"
  using kernel_opens(2) [OF assms(1,2)] assms(2-4)
  by (simp add: sock_accept_def sock_init_def destroy_def sock_close_def new_Socket_def Let_def)

text \<open>A bound socket keeps the address it was asked for: of the port 0 the port the kernel has chosen is never read.\<close>

lemma bound_address_is_asked:
  "sk_localAddress (fst (snd (sock_bind K a s k))) = Some a"
proof -
  define s0 where "s0 = s\<lparr>sk_localAddress := Some a\<rparr>"
  obtain s1 k1 where e: "ensure_sock K s0 k = (s1, k1)" by fastforce
  have "sk_localAddress (fst (ensure_sock K s0 k)) = Some a"
    by (simp add: s0_def ensure_sock_def newSock_def Let_def split: prod.split)
  then have "sk_localAddress s1 = Some a" by (simp add: e)
  then show ?thesis
    by (simp add: sock_bind_def s0_def [symmetric] e getLocalAddress_def case_prod_unfold Let_def)
qed

text \<open>The hooked \<^verbatim>\<open>setsockopt\<close>: the timeout of a descriptor in the table is stored in milliseconds.\<close>

definition timeouts_hooked :: "'k kernel \<Rightarrow> bool" where
  "timeouts_hooked K \<longleftrightarrow>
     (\<forall>fd rcv sec usec k. kn_context K fd (snd (kn_settimeo K fd rcv sec usec k)) =
        map_option (setTimeout rcv (timeval_ms sec usec)) (kn_context K fd k))"

lemma c_div_mod: "c_div v 1000 * 1000 + c_mod v 1000 = v" "\<bar>c_mod v 1000\<bar> < 1000"
proof -
  show "c_div v 1000 * 1000 + c_mod v 1000 = v" by (simp add: c_mod_def)
  have "c_mod v 1000 = sgn v * (\<bar>v\<bar> mod 1000)"
    unfolding c_mod_def c_div_def by (cases v "0 :: int" rule: linorder_cases) (simp_all add: minus_div_mult_eq_mod minus_mod_eq_div_mult [symmetric])
  then show "\<bar>c_mod v 1000\<bar> < 1000" by (simp add: abs_mult abs_sgn_eq)
qed

lemma to_i32_id: "- (2 ^ 31) \<le> v \<Longrightarrow> v < 2 ^ 31 \<Longrightarrow> to_i32 v = v"
  by (simp add: to_i32_def sint_sbintrunc' signed_take_bit_int_eq_self)

text \<open>Every timeout below 2^31 seconds is read back as it was set, the \<open>- 1\<close> that means none included, although it goes
  through seconds and microseconds of 32 bits, and the other timeout stays.\<close>

theorem timeouts_read_back:
  assumes "timeouts_hooked K" and "kn_context K (sk_sock s) k \<noteq> None" and "\<bar>v\<bar> < 2 ^ 31 * 1000"
  shows "getRecvTimeout K s (setRecvTimeout K v s k) = v \<and> getSendTimeout K s (setRecvTimeout K v s k) = getSendTimeout K s k \<and>
    getSendTimeout K s (setSendTimeout K v s k) = v \<and> getRecvTimeout K s (setSendTimeout K v s k) = getRecvTimeout K s k"
proof -
  obtain c where c: "kn_context K (sk_sock s) k = Some c" using assms(2) by blast
  have "\<bar>v\<bar> div 1000 < 2 ^ 31" using assms(3) by linarith
  then have d: "\<bar>c_div v 1000\<bar> < 2 ^ 31" by (simp add: c_div_def abs_mult abs_sgn_eq)
  have m: "\<bar>c_mod v 1000 * 1000\<bar> < 2 ^ 31" using c_div_mod(2) [of v] by (simp add: abs_mult)
  have "timeval_ms (to_i32 (c_div v 1000)) (to_i32 (c_mod v 1000 * 1000)) = word_of_int v"
    using d m c_div_mod(1) [of v] by (simp add: timeval_ms_def to_i32_id)
  moreover have "sint (word_of_int v :: 64 word) = v" using assms(3) by (intro sint_of_int) (auto simp: in_i64_def)
  ultimately show ?thesis
    using assms(1) c
    by (simp add: timeouts_hooked_def getRecvTimeout_def getSendTimeout_def setRecvTimeout_def setSendTimeout_def setTimeouts_def
        setTimeout_def getTimeout_def)
qed

text \<open>No timeout, on the first socket a program opens.\<close>

theorem timeouts_read_back_witness:
  "let S = snd (os_opened \<lparr>os_fds = [0, 1, 2], os_table = (\<lambda>_. None)\<rparr>); s = CreateTCPSocket\<lparr>sk_sock := 3\<rparr>
   in getRecvTimeout os_kernel s (setRecvTimeout os_kernel (- 1) s S) = - 1 \<and>
      getSendTimeout os_kernel s (setSendTimeout os_kernel (- 1) s S) = - 1"
proof -
  define S where "S = snd (os_opened \<lparr>os_fds = [0, 1, 2], os_table = (\<lambda>_. None)\<rparr>)"
  define s where "s = CreateTCPSocket\<lparr>sk_sock := 3\<rparr>"
  have "timeouts_hooked os_kernel" by (simp add: timeouts_hooked_def os_kernel_def)
  moreover have "kn_context os_kernel (sk_sock s) S \<noteq> None"
    by (simp add: S_def s_def os_kernel_def os_opened_def os_fresh_def Let_def)
  ultimately show ?thesis
    using timeouts_read_back [of os_kernel s S "- 1"] unfolding S_def [symmetric] s_def [symmetric] Let_def by simp
qed

end
