(* ===== verification/TcpServer.thy ===== *)
theory TcpServer
  imports SocketProps
begin

text \<open>
  \<open>TcpServer\<close> of \<^verbatim>\<open>sylar/tcp_server.h\<close> and \<^verbatim>\<open>sylar/tcp_server.cc\<close> over the sockets of \<open>Socket\<close>. Pointers to sockets are
  indices into the store; the tasks handed to the accepting scheduler are data, and a step runs one of them for one turn of
  its loop, so a list of steps is an interleaving of the callers of the server with its tasks.
\<close>

section \<open>State and operations\<close>

datatype server_task = StartAccept nat | CloseSocks

record 'k tcp_server =
  ts_net :: "'k net"
  ts_socks :: "nat list"
  ts_tasks :: "server_task list"
  ts_clients :: "nat list"
  ts_recvTimeout :: "64 word"
  ts_name :: string
  ts_type :: string
  ts_isStop :: bool

text \<open>\<open>read_timeout\<close> is the configured value of \<^verbatim>\<open>tcp_server.read_timeout\<close>.\<close>

definition new_TcpServer :: "64 word \<Rightarrow> 'k \<Rightarrow> 'k tcp_server" where
  "new_TcpServer read_timeout k =
     \<lparr>ts_net = \<lparr>nt_socks = [], nt_kern = k\<rparr>, ts_socks = [], ts_tasks = [], ts_clients = [], ts_recvTimeout = read_timeout,
      ts_name = ''sylar/1.0.0'', ts_type = ''tcp'', ts_isStop = True\<rparr>"

definition do_sock :: "'k kernel \<Rightarrow> sock_op \<Rightarrow> 'k tcp_server \<Rightarrow> bool \<times> 'k tcp_server" where
  "do_sock K op S = (case sock_step K op (ts_net S) of (ok, N) \<Rightarrow> (ok, S\<lparr>ts_net := N\<rparr>))"

text \<open>A reference to a socket is given up; the last one destroys it. The references are the vector of the server and the
  accept loops, which are bound to their socket.\<close>

definition release :: "'k kernel \<Rightarrow> nat \<Rightarrow> 'k tcp_server \<Rightarrow> 'k tcp_server" where
  "release K i S =
     (if i \<in> set (ts_socks S) \<or> StartAccept i \<in> set (ts_tasks S) then S else snd (do_sock K (Drop i) S))"

definition clear_socks :: "'k kernel \<Rightarrow> 'k tcp_server \<Rightarrow> 'k tcp_server" where
  "clear_socks K S = foldl (\<lambda>S i. release K i S) (S\<lparr>ts_socks := []\<rparr>) (ts_socks S)"

text \<open>\<^verbatim>\<open>SOMAXCONN\<close> is 4096.\<close>

fun bind_addrs :: "'k kernel \<Rightarrow> address list \<Rightarrow> address list \<Rightarrow> 'k tcp_server \<Rightarrow> address list \<times> 'k tcp_server" where
  "bind_addrs K [] fails S = (fails, S)"
| "bind_addrs K (a # as) fails S =
     (let i = length (nt_socks (ts_net S)); S = snd (do_sock K (CreateTcp a) S)
      in case do_sock K (BindTo i a) S of
           (ok, S) \<Rightarrow>
             if \<not> ok then bind_addrs K as (fails @ [a]) (release K i S)
             else
               case do_sock K (ListenOn i 4096) S of
                 (ok, S) \<Rightarrow>
                   if \<not> ok then bind_addrs K as (fails @ [a]) (release K i S)
                   else bind_addrs K as fails (S\<lparr>ts_socks := ts_socks S @ [i]\<rparr>))"

definition server_bind ::
    "'k kernel \<Rightarrow> address list \<Rightarrow> address list \<Rightarrow> 'k tcp_server \<Rightarrow> bool \<times> address list \<times> 'k tcp_server" where
  "server_bind K addrs fails S =
     (case bind_addrs K addrs fails S of
        (fails, S) \<Rightarrow> if fails \<noteq> [] then (False, fails, clear_socks K S) else (True, fails, S))"

definition server_bind_one :: "'k kernel \<Rightarrow> address \<Rightarrow> 'k tcp_server \<Rightarrow> bool \<times> 'k tcp_server" where
  "server_bind_one K a S = (case server_bind K [a] [] S of (ok, _, S) \<Rightarrow> (ok, S))"

definition server_start :: "'k tcp_server \<Rightarrow> bool \<times> 'k tcp_server" where
  "server_start S =
     (if \<not> ts_isStop S then (True, S)
      else (True, S\<lparr>ts_isStop := False, ts_tasks := ts_tasks S @ map StartAccept (ts_socks S)\<rparr>))"

definition server_stop :: "'k tcp_server \<Rightarrow> 'k tcp_server" where
  "server_stop S = S\<lparr>ts_isStop := True, ts_tasks := ts_tasks S @ [CloseSocks]\<rparr>"

definition server_setRecvTimeout :: "64 word \<Rightarrow> 'k tcp_server \<Rightarrow> 'k tcp_server" where
  "server_setRecvTimeout v S = S\<lparr>ts_recvTimeout := v\<rparr>"

definition server_setName :: "string \<Rightarrow> 'k tcp_server \<Rightarrow> 'k tcp_server" where
  "server_setName v S = S\<lparr>ts_name := v\<rparr>"

section \<open>Tasks\<close>

text \<open>A turn of the accept loop: whether the loop goes on.\<close>

definition accept_turn :: "'k kernel \<Rightarrow> nat \<Rightarrow> 'k tcp_server \<Rightarrow> bool \<times> 'k tcp_server" where
  "accept_turn K i S =
     (if ts_isStop S then (False, S)
      else
        let c = length (nt_socks (ts_net S))
        in case do_sock K (AcceptOn i) S of
             (client, S) \<Rightarrow>
               if client
               then (True, (snd (do_sock K (SetRecvTimeout c (sint (ts_recvTimeout S))) S))\<lparr>ts_clients := ts_clients S @ [c]\<rparr>)
               else (True, S))"

definition close_one :: "'k kernel \<Rightarrow> 'k tcp_server \<Rightarrow> nat \<Rightarrow> 'k tcp_server" where
  "close_one K S i = snd (do_sock K (CloseSock i) (snd (do_sock K (CancelAll i) S)))"

definition close_task :: "'k kernel \<Rightarrow> 'k tcp_server \<Rightarrow> 'k tcp_server" where
  "close_task K S = clear_socks K (foldl (close_one K) S (ts_socks S))"

text \<open>A task that is over gives up what it holds.\<close>

definition run_task :: "'k kernel \<Rightarrow> nat \<Rightarrow> 'k tcp_server \<Rightarrow> 'k tcp_server" where
  "run_task K n S =
     (if n < length (ts_tasks S) then
        (let gone = take n (ts_tasks S) @ drop (Suc n) (ts_tasks S)
         in case ts_tasks S ! n of
              StartAccept i \<Rightarrow>
                (case accept_turn K i S of
                   (running, S) \<Rightarrow> if running then S else release K i (S\<lparr>ts_tasks := gone\<rparr>))
            | CloseSocks \<Rightarrow> close_task K (S\<lparr>ts_tasks := gone\<rparr>))
      else S)"

text \<open>The client is served and its socket destroyed with the last reference.\<close>

definition client_done :: "'k kernel \<Rightarrow> 'k tcp_server \<Rightarrow> 'k tcp_server" where
  "client_done K S =
     (case ts_clients S of [] \<Rightarrow> S | c # cs \<Rightarrow> snd (do_sock K (Drop c) (S\<lparr>ts_clients := cs\<rparr>)))"

text \<open>The destructor.\<close>

definition server_destroy :: "'k kernel \<Rightarrow> 'k tcp_server \<Rightarrow> 'k tcp_server" where
  "server_destroy K S = clear_socks K (foldl (\<lambda>S i. snd (do_sock K (CloseSock i) S)) S (ts_socks S))"

definition server_toString :: "string \<Rightarrow> string \<Rightarrow> string \<Rightarrow> 'k tcp_server \<Rightarrow> string" where
  "server_toString pre io_name accept_name S =
     pre @ ''[type='' @ ts_type S @ '' name='' @ ts_name S @ '' io_worker='' @ io_name @ '' accept='' @ accept_name @
     '' recv_timeout='' @ show_word (ts_recvTimeout S) @ '']'' @ [CHR 0x0A] @
     (let pfx = (if pre = [] then ''    '' else pre)
      in concat (map (\<lambda>i. pfx @ pfx @ (case sock_at i (ts_net S) of None \<Rightarrow> [] | Some s \<Rightarrow> sock_dump s) @ [CHR 0x0A]) (ts_socks S)))"

section \<open>Steps\<close>

datatype server_op =
    OpBind "address list" "address list"
  | OpStart
  | OpStop
  | OpTimeout "64 word"
  | OpTask nat
  | OpClientDone

fun server_step :: "'k kernel \<Rightarrow> server_op \<Rightarrow> 'k tcp_server \<Rightarrow> 'k tcp_server" where
  "server_step K (OpBind addrs fails) S = snd (snd (server_bind K addrs fails S))"
| "server_step K OpStart S = snd (server_start S)"
| "server_step K OpStop S = server_stop S"
| "server_step K (OpTimeout v) S = server_setRecvTimeout v S"
| "server_step K (OpTask n) S = run_task K n S"
| "server_step K OpClientDone S = client_done K S"

definition server_run :: "'k kernel \<Rightarrow> server_op list \<Rightarrow> 'k tcp_server \<Rightarrow> 'k tcp_server" where
  "server_run K ops S = foldl (\<lambda>S op. server_step K op S) S ops"

end
