(* ===== verification/TcpServerProps.thy ===== *)
theory TcpServerProps
  imports TcpServer
begin

text \<open>
  The server as a whole: every step of it is a list of operations on sockets, so its descriptors are those of its sockets; the
  sockets in the store are exactly those the server, its tasks and its clients refer to, so none is lost; binding is all or
  nothing; a stopped server closes; and what happens when it is started again before it has closed.
\<close>

section \<open>Steps of the server as operations on sockets\<close>

definition by_socks :: "'k kernel \<Rightarrow> 'k tcp_server \<Rightarrow> 'k tcp_server \<Rightarrow> bool" where
  "by_socks K S S' \<longleftrightarrow> (\<exists>ops. ts_net S' = sock_run K ops (ts_net S))"

lemma by_socks_refl: "ts_net S' = ts_net S \<Longrightarrow> by_socks K S S'"
  unfolding by_socks_def by (intro exI [of _ "[]"]) (simp add: sock_run_def)

lemma by_socks_trans: "by_socks K S S' \<Longrightarrow> by_socks K S' S'' \<Longrightarrow> by_socks K S S''"
  unfolding by_socks_def sock_run_def by (metis foldl_append)

lemma by_socks_do: "by_socks K S (snd (do_sock K op S))"
  unfolding by_socks_def do_sock_def sock_run_def by (intro exI [of _ "[op]"]) (simp add: case_prod_unfold)

lemma by_socks_do_eq: "do_sock K op S = (ok, S') \<Longrightarrow> by_socks K S S'"
  using by_socks_do [of K S op] by simp

lemma by_socks_release: "by_socks K S (release K i S)"
  by (simp add: release_def by_socks_refl by_socks_do)

lemma by_socks_fold:
  assumes "\<And>S i. by_socks K S (f S i)"
  shows "by_socks K S (foldl f S is)"
  by (induction "is" arbitrary: S) (auto intro: by_socks_refl by_socks_trans assms)

lemma by_socks_clear: "by_socks K S (clear_socks K S)"
  unfolding clear_socks_def
  by (rule by_socks_trans [OF _ by_socks_fold]) (simp_all add: by_socks_refl by_socks_release)

lemma by_socks_bind: "by_socks K S (snd (bind_addrs K addrs fails S))"
proof (induction addrs arbitrary: fails S)
  case Nil
  show ?case by (simp add: by_socks_refl)
next
  case (Cons a "as")
  define i where "i = length (nt_socks (ts_net S))"
  define S1 where "S1 = snd (do_sock K (CreateTcp a) S)"
  obtain b S2 where b: "do_sock K (BindTo i a) S1 = (b, S2)" by fastforce
  obtain l S3 where l: "do_sock K (ListenOn i 4096) S2 = (l, S3)" by fastforce
  have s2: "by_socks K S S2" using by_socks_trans [OF by_socks_do by_socks_do_eq [OF b [unfolded S1_def]]] .
  have s3: "by_socks K S S3" by (rule by_socks_trans [OF s2 by_socks_do_eq [OF l]])
  have k: "by_socks K S (S3\<lparr>ts_socks := x\<rparr>)" for x by (rule by_socks_trans [OF s3 by_socks_refl]) simp
  show ?case
    using by_socks_trans [OF by_socks_trans [OF s2 by_socks_release] Cons.IH]
      by_socks_trans [OF by_socks_trans [OF s3 by_socks_release] Cons.IH] by_socks_trans [OF k Cons.IH]
    by (simp add: Let_def i_def [symmetric] S1_def [symmetric] b l)
qed

lemma by_socks_turn: "by_socks K S (snd (accept_turn K i S))"
proof -
  obtain c S1 where a: "do_sock K (AcceptOn i) S = (c, S1)" by fastforce
  have s: "by_socks K S S1" by (rule by_socks_do_eq [OF a])
  have "by_socks K S ((snd (do_sock K op S1))\<lparr>ts_clients := x\<rparr>)" for op x
    by (rule by_socks_trans [OF by_socks_trans [OF s by_socks_do] by_socks_refl]) simp
  with s show ?thesis by (simp add: accept_turn_def a Let_def by_socks_refl)
qed

lemma by_socks_task: "by_socks K S (run_task K n S)"
proof -
  note a = by_socks_turn
  have t: "by_socks K S (S\<lparr>ts_tasks := g\<rparr>)" for g by (rule by_socks_refl) simp
  have "by_socks K (S\<lparr>ts_tasks := g\<rparr>) (close_task K (S\<lparr>ts_tasks := g\<rparr>))" for g
    unfolding close_task_def close_one_def
    by (rule by_socks_trans [OF by_socks_fold by_socks_clear]) (rule by_socks_trans [OF by_socks_do by_socks_do])
  then have c: "by_socks K S (close_task K (S\<lparr>ts_tasks := g\<rparr>))" for g by (rule by_socks_trans [OF t])
  have "by_socks K S ((snd (accept_turn K i S))\<lparr>ts_tasks := g\<rparr>)" for i g
    by (rule by_socks_trans [OF a by_socks_refl]) simp
  then have r: "by_socks K S (release K i ((snd (accept_turn K i S))\<lparr>ts_tasks := g\<rparr>))" for i g
    by (rule by_socks_trans [OF _ by_socks_release])
  show ?thesis
    by (auto simp: run_task_def Let_def case_prod_unfold a c r by_socks_refl split: server_task.split)
qed

lemma by_socks_step: "by_socks K S (server_step K op S)"
proof (cases op)
  case (OpBind addrs fails)
  have "by_socks K S (clear_socks K (snd (bind_addrs K addrs fails S)))"
    by (rule by_socks_trans [OF by_socks_bind by_socks_clear])
  with OpBind by_socks_bind [of K S addrs fails] show ?thesis by (simp add: server_bind_def case_prod_unfold)
next
  case OpClientDone
  have "by_socks K S (snd (do_sock K (Drop c) (S\<lparr>ts_clients := cs\<rparr>)))" for c cs
    by (rule by_socks_trans [OF by_socks_refl by_socks_do]) simp
  with OpClientDone show ?thesis by (simp add: client_done_def by_socks_refl split: list.split)
qed (simp_all add: by_socks_refl by_socks_task server_start_def server_stop_def server_setRecvTimeout_def)

lemma by_socks_run: "by_socks K S (server_run K ops S)"
  unfolding server_run_def by (rule by_socks_fold) (rule by_socks_step)

section \<open>Who refers to which socket\<close>

definition live :: "'k tcp_server \<Rightarrow> nat set" where
  "live S = {i. sock_at i (ts_net S) \<noteq> None}"

definition accepting :: "'k tcp_server \<Rightarrow> nat set" where
  "accepting S = {i. StartAccept i \<in> set (ts_tasks S)}"

definition server_ok :: "'k tcp_server \<Rightarrow> bool" where
  "server_ok S \<longleftrightarrow>
     live S = set (ts_socks S) \<union> accepting S \<union> set (ts_clients S) \<and>
     set (ts_clients S) \<inter> (set (ts_socks S) \<union> accepting S) = {} \<and> distinct (ts_socks S) \<and> distinct (ts_clients S)"

lemma do_sock_fields [simp]:
  "ts_socks (snd (do_sock K op S)) = ts_socks S" "ts_tasks (snd (do_sock K op S)) = ts_tasks S"
  "ts_clients (snd (do_sock K op S)) = ts_clients S" "ts_isStop (snd (do_sock K op S)) = ts_isStop S"
  "ts_recvTimeout (snd (do_sock K op S)) = ts_recvTimeout S" "accepting (snd (do_sock K op S)) = accepting S"
  by (simp_all add: do_sock_def case_prod_unfold accepting_def)

lemma sock_at_on_sock: "(sock_at j (snd (on_sock i f N)) = None) = (sock_at j N = None)"
  by (auto simp: on_sock_def sock_at_def nth_list_update case_prod_unfold split: option.split if_splits)

lemma live_bound: "i \<in> live S \<Longrightarrow> i < length (nt_socks (ts_net S))"
  by (simp add: live_def sock_at_def split: if_splits)

lemma live_on_sock:
  "live (snd (do_sock K (BindTo i a) S)) = live S"
  "live (snd (do_sock K (ListenOn i n) S)) = live S"
  "live (snd (do_sock K (CloseSock i) S)) = live S"
  "live (snd (do_sock K (CancelAll i) S)) = live S"
  "live (snd (do_sock K (SetRecvTimeout i v) S)) = live S"
  by (simp_all add: live_def do_sock_def case_prod_unfold sock_at_on_sock del: not_None_eq)

lemma live_create:
  "live (snd (do_sock K (CreateTcp a) S)) = insert (length (nt_socks (ts_net S))) (live S)"
  "live (snd (do_sock K (Drop i) S)) = live S - {i}"
  by (auto simp: live_def do_sock_def case_prod_unfold add_sock_def sock_at_def nth_append nth_list_update
      split: option.splits if_splits)

lemmas live_do_sock = live_on_sock live_create

lemma live_accept:
  "live (snd (do_sock K (AcceptOn i) S)) =
     (if fst (do_sock K (AcceptOn i) S) then insert (length (nt_socks (ts_net S))) (live S) else live S)"
  by (auto simp: live_def do_sock_def case_prod_unfold add_sock_def sock_at_def nth_append split: option.splits if_splits)

lemma release_fields [simp]:
  "ts_socks (release K i S) = ts_socks S" "ts_tasks (release K i S) = ts_tasks S" "ts_clients (release K i S) = ts_clients S"
  "ts_isStop (release K i S) = ts_isStop S" "accepting (release K i S) = accepting S"
  by (simp_all add: release_def)

lemma live_release: "live (release K i S) = (if i \<in> set (ts_socks S) \<union> accepting S then live S else live S - {i})"
  by (simp add: release_def live_do_sock accepting_def)

lemma clear_fields [simp]:
  "ts_socks (clear_socks K S) = []" "ts_tasks (clear_socks K S) = ts_tasks S" "ts_clients (clear_socks K S) = ts_clients S"
  "ts_isStop (clear_socks K S) = ts_isStop S" "accepting (clear_socks K S) = accepting S"
proof -
  have "ts_socks (foldl (\<lambda>S i. release K i S) T is) = ts_socks T \<and> ts_tasks (foldl (\<lambda>S i. release K i S) T is) = ts_tasks T \<and>
      ts_clients (foldl (\<lambda>S i. release K i S) T is) = ts_clients T \<and> ts_isStop (foldl (\<lambda>S i. release K i S) T is) = ts_isStop T \<and>
      accepting (foldl (\<lambda>S i. release K i S) T is) = accepting T" for T "is"
    by (induction "is" arbitrary: T) simp_all
  then show "ts_socks (clear_socks K S) = []" "ts_tasks (clear_socks K S) = ts_tasks S"
    "ts_clients (clear_socks K S) = ts_clients S" "ts_isStop (clear_socks K S) = ts_isStop S"
    "accepting (clear_socks K S) = accepting S"
    by (simp_all add: clear_socks_def accepting_def)
qed

lemma live_clear: "live (clear_socks K S) = live S - (set (ts_socks S) - accepting S)"
proof -
  have "ts_socks T = [] \<Longrightarrow> live (foldl (\<lambda>S i. release K i S) T is) = live T - (set is - accepting T)" for T "is"
    by (induction "is" arbitrary: T) (auto simp: live_release)
  from this [of "S\<lparr>ts_socks := []\<rparr>" "ts_socks S"] show ?thesis by (simp add: clear_socks_def live_def accepting_def)
qed

lemma clear_ok: "server_ok S \<Longrightarrow> server_ok (clear_socks K S)"
  by (auto simp: server_ok_def live_clear)

lemma live_update [simp]:
  "live (S\<lparr>ts_socks := x\<rparr>) = live S" "live (S\<lparr>ts_tasks := y\<rparr>) = live S" "live (S\<lparr>ts_clients := z\<rparr>) = live S"
  "live (S\<lparr>ts_isStop := b\<rparr>) = live S" "live (S\<lparr>ts_recvTimeout := t\<rparr>) = live S"
  "accepting (S\<lparr>ts_socks := x\<rparr>) = accepting S" "accepting (S\<lparr>ts_clients := z\<rparr>) = accepting S"
  "accepting (S\<lparr>ts_isStop := b\<rparr>) = accepting S" "accepting (S\<lparr>ts_recvTimeout := t\<rparr>) = accepting S"
  by (simp_all add: live_def accepting_def)

text \<open>A new socket, while nobody refers to it yet: it is released, or the server takes it.\<close>

lemma server_ok_new:
  assumes "server_ok S" and "i \<notin> live S" and "live S' = insert i (live S)" and "accepting S' = accepting S"
    and "ts_socks S' = ts_socks S" and "ts_clients S' = ts_clients S"
  shows "server_ok (release K i S')" and "server_ok (S'\<lparr>ts_socks := ts_socks S' @ [i]\<rparr>)"
proof -
  have i: "i \<notin> set (ts_socks S)" "i \<notin> accepting S" "i \<notin> set (ts_clients S)" using assms(1,2) by (auto simp: server_ok_def)
  show "server_ok (release K i S')" using assms i by (simp add: server_ok_def live_release)
  show "server_ok (S'\<lparr>ts_socks := ts_socks S' @ [i]\<rparr>)" using assms i by (auto simp: server_ok_def)
qed

lemma bind_ok: "server_ok S \<Longrightarrow> server_ok (snd (bind_addrs K addrs fails S))"
proof (induction addrs arbitrary: fails S)
  case (Cons a "as")
  define i where "i = length (nt_socks (ts_net S))"
  define S1 where "S1 = snd (do_sock K (CreateTcp a) S)"
  obtain b S2 where b: "do_sock K (BindTo i a) S1 = (b, S2)" by fastforce
  obtain l S3 where l: "do_sock K (ListenOn i 4096) S2 = (l, S3)" by fastforce
  have S2: "S2 = snd (do_sock K (BindTo i a) S1)" and S3: "S3 = snd (do_sock K (ListenOn i 4096) S2)" using b l by simp_all
  have new: "i \<notin> live S" using live_bound [of i S] by (auto simp: i_def)
  have L2: "live S2 = insert i (live S)" by (simp only: S2 S1_def live_do_sock i_def)
  have L3: "live S3 = insert i (live S)" by (simp only: S3 live_do_sock L2)
  have "server_ok (release K i S2)" by (rule server_ok_new(1) [OF Cons.prems new L2]) (simp_all add: S2 S1_def)
  moreover have "server_ok (release K i S3)" "server_ok (S3\<lparr>ts_socks := ts_socks S3 @ [i]\<rparr>)"
    by (rule server_ok_new [OF Cons.prems new L3]; simp add: S3 S2 S1_def)+
  ultimately show ?case using Cons.IH by (simp add: Let_def i_def [symmetric] S1_def [symmetric] b l)
qed simp

lemma turn_ok:
  assumes "server_ok S"
  shows "server_ok (snd (accept_turn K i S))"
proof -
  obtain c S1 where a: "do_sock K (AcceptOn i) S = (c, S1)" by fastforce
  define n where "n = length (nt_socks (ts_net S))"
  have S1: "S1 = snd (do_sock K (AcceptOn i) S)" using a by simp
  have new: "n \<notin> live S" using live_bound [of n S] by (auto simp: n_def)
  have L: "live S1 = (if c then insert n (live S) else live S)" using live_accept [of K i S] by (simp add: a n_def)
  have f: "ts_socks S1 = ts_socks S" "ts_clients S1 = ts_clients S" "accepting S1 = accepting S" by (simp_all add: S1)
  show ?thesis
    using assms new L f unfolding accept_turn_def Let_def n_def [symmetric] a
    by (auto simp: server_ok_def live_do_sock)
qed

lemma close_fold:
  "live (foldl (close_one K) S is) = live S \<and> ts_socks (foldl (close_one K) S is) = ts_socks S \<and>
   ts_tasks (foldl (close_one K) S is) = ts_tasks S \<and> ts_clients (foldl (close_one K) S is) = ts_clients S \<and>
   ts_isStop (foldl (close_one K) S is) = ts_isStop S \<and> accepting (foldl (close_one K) S is) = accepting S"
  by (induction "is" arbitrary: S) (simp_all add: close_one_def live_do_sock)

lemma close_task_fields [simp]:
  "ts_socks (close_task K S) = []" "ts_tasks (close_task K S) = ts_tasks S" "ts_clients (close_task K S) = ts_clients S"
  "ts_isStop (close_task K S) = ts_isStop S" "accepting (close_task K S) = accepting S"
  "live (close_task K S) = live S - (set (ts_socks S) - accepting S)"
  by (simp_all add: close_task_def close_fold live_clear)

lemma close_task_ok: "server_ok S \<Longrightarrow> server_ok (close_task K S)"
  by (auto simp: server_ok_def)

text \<open>Taking the \<open>n\<close>th task out.\<close>

lemma taken_tasks:
  assumes "n < length (ts_tasks S)"
  shows "set (ts_tasks S) = insert (ts_tasks S ! n) (set (take n (ts_tasks S) @ drop (Suc n) (ts_tasks S)))"
  using id_take_nth_drop [OF assms] by (metis Un_insert_right list.simps(15) set_append)

lemma run_task_ok:
  assumes "server_ok S"
  shows "server_ok (run_task K n S)"
proof (cases "n < length (ts_tasks S)")
  case True
  define gone where "gone = take n (ts_tasks S) @ drop (Suc n) (ts_tasks S)"
  note t = taken_tasks [OF True, folded gone_def]
  show ?thesis
  proof (cases "ts_tasks S ! n")
    case (StartAccept i)
    obtain r S' where a: "accept_turn K i S = (r, S')" by fastforce
    have ok: "server_ok S'" using turn_ok [OF assms, of K i] a by simp
    have tasks: "ts_tasks S' = ts_tasks S"
      using a by (auto simp: accept_turn_def Let_def case_prod_unfold split: if_splits)
    have "accepting S' = insert i (accepting (S'\<lparr>ts_tasks := gone\<rparr>))"
      using t StartAccept by (auto simp: accepting_def tasks)
    with ok have "server_ok (release K i (S'\<lparr>ts_tasks := gone\<rparr>))"
      unfolding server_ok_def by (simp add: live_release) blast
    with ok a StartAccept True show ?thesis by (simp add: run_task_def gone_def Let_def)
  next
    case CloseSocks
    have "accepting (S\<lparr>ts_tasks := gone\<rparr>) = accepting S" using t CloseSocks by (auto simp: accepting_def)
    with assms have "server_ok (S\<lparr>ts_tasks := gone\<rparr>)" by (simp add: server_ok_def)
    from close_task_ok [OF this, of K] CloseSocks True show ?thesis by (simp add: run_task_def gone_def Let_def)
  qed
qed (use assms in \<open>simp add: run_task_def\<close>)

lemma server_step_ok: "server_ok S \<Longrightarrow> server_ok (server_step K op S)"
proof (cases op)
  case (OpBind addrs fails)
  assume "server_ok S"
  from bind_ok [OF this, of K addrs fails] clear_ok [OF bind_ok [OF this, of K addrs fails], of K] OpBind show ?thesis
    by (simp add: server_bind_def case_prod_unfold)
next
  case OpStart
  assume ok: "server_ok S"
  have "accepting (S\<lparr>ts_isStop := False, ts_tasks := ts_tasks S @ map StartAccept (ts_socks S)\<rparr>) = accepting S \<union> set (ts_socks S)"
    by (auto simp: accepting_def)
  with ok OpStart show ?thesis by (auto simp: server_start_def server_ok_def)
next
  case OpStop
  assume "server_ok S"
  with OpStop show ?thesis by (simp add: server_stop_def server_ok_def accepting_def live_def)
next
  case OpClientDone
  assume "server_ok S"
  with OpClientDone show ?thesis by (auto simp: client_done_def server_ok_def live_do_sock split: list.split)
next
  case (OpTimeout v)
  assume "server_ok S"
  with OpTimeout show ?thesis by (simp add: server_setRecvTimeout_def server_ok_def)
qed (simp_all add: run_task_ok)

lemma server_run_ok: "server_ok S \<Longrightarrow> server_ok (server_run K ops S)"
  by (induction ops arbitrary: S) (simp_all add: server_run_def server_step_ok)



section \<open>Binding\<close>

definition bound_to :: "'k net \<Rightarrow> nat \<Rightarrow> address \<Rightarrow> bool" where
  "bound_to N i a = (case sock_at i N of None \<Rightarrow> False | Some s \<Rightarrow> isValid s \<and> sk_localAddress s = Some a)"

lemma on_sock_other:
  "length (nt_socks (snd (on_sock i f N))) = length (nt_socks N)"
  "j \<noteq> i \<Longrightarrow> sock_at j (snd (on_sock i f N)) = sock_at j N"
  by (auto simp: on_sock_def sock_at_def case_prod_unfold split: option.split)

text \<open>Operations on the socket \<open>i\<close> leave the sockets before it alone.\<close>

definition same_below :: "nat \<Rightarrow> 'k tcp_server \<Rightarrow> 'k tcp_server \<Rightarrow> bool" where
  "same_below i S S' \<longleftrightarrow> length (nt_socks (ts_net S)) \<le> length (nt_socks (ts_net S')) \<and>
     (\<forall>j<i. sock_at j (ts_net S') = sock_at j (ts_net S))"

lemma same_below_trans: "same_below i S S' \<Longrightarrow> same_below j S' S'' \<Longrightarrow> i \<le> j \<Longrightarrow> same_below i S S''"
  by (auto simp: same_below_def)

lemma same_below_do:
  "i \<le> length (nt_socks (ts_net S)) \<Longrightarrow> same_below i S (snd (do_sock K (CreateTcp a) S))"
  "same_below i S (snd (do_sock K (BindTo i a) S))"
  "same_below i S (snd (do_sock K (ListenOn i n) S))"
  "same_below i S (release K i S)"
proof -
  show "same_below i S (snd (do_sock K (CreateTcp a) S))" if "i \<le> length (nt_socks (ts_net S))"
    using that by (auto simp: same_below_def do_sock_def add_sock_def sock_at_def nth_append)
  show "same_below i S (snd (do_sock K (BindTo i a) S))" "same_below i S (snd (do_sock K (ListenOn i n) S))"
    by (simp_all add: same_below_def do_sock_def case_prod_unfold on_sock_other)
  show "same_below i S (release K i S)"
    by (auto simp: same_below_def do_sock_def release_def case_prod_unfold sock_at_def split: option.split)
qed

lemma bind_addrs_fields:
  "ts_clients (snd (bind_addrs K addrs fails S)) = ts_clients S \<and> ts_tasks (snd (bind_addrs K addrs fails S)) = ts_tasks S \<and>
   ts_isStop (snd (bind_addrs K addrs fails S)) = ts_isStop S"
proof (induction addrs arbitrary: fails S)
  case (Cons a "as")
  define i where "i = length (nt_socks (ts_net S))"
  define S1 where "S1 = snd (do_sock K (CreateTcp a) S)"
  obtain b S2 where b: "do_sock K (BindTo i a) S1 = (b, S2)" by fastforce
  obtain l S3 where l: "do_sock K (ListenOn i 4096) S2 = (l, S3)" by fastforce
  have S2: "S2 = snd (do_sock K (BindTo i a) S1)" and S3: "S3 = snd (do_sock K (ListenOn i 4096) S2)" using b l by simp_all
  have "ts_clients S3 = ts_clients S \<and> ts_tasks S3 = ts_tasks S \<and> ts_isStop S3 = ts_isStop S"
    "ts_clients S2 = ts_clients S \<and> ts_tasks S2 = ts_tasks S \<and> ts_isStop S2 = ts_isStop S"
    by (simp_all add: S3 S2 S1_def)
  with Cons.IH show ?case by (simp add: Let_def i_def [symmetric] S1_def [symmetric] b l)
qed simp

lemma bind_answers: "fst (sock_bind K a s k) \<Longrightarrow> isValid (fst (snd (sock_bind K a s k)))"
  by (auto simp: sock_bind_def case_prod_unfold Let_def isValid_def address_fields split: if_splits)

lemma bind_addrs_binds:
  "(fst (bind_addrs K addrs fails S) = [] \<longrightarrow>
      fails = [] \<and> (\<exists>new. ts_socks (snd (bind_addrs K addrs fails S)) = ts_socks S @ new \<and>
        list_all2 (bound_to (ts_net (snd (bind_addrs K addrs fails S)))) new addrs)) \<and>
   same_below (length (nt_socks (ts_net S))) S (snd (bind_addrs K addrs fails S))"
proof (induction addrs arbitrary: fails S)
  case Nil
  show ?case by (simp add: same_below_def)
next
  case (Cons a "as")
  define i where "i = length (nt_socks (ts_net S))"
  define S1 where "S1 = snd (do_sock K (CreateTcp a) S)"
  obtain b S2 where b: "do_sock K (BindTo i a) S1 = (b, S2)" by fastforce
  obtain l S3 where l: "do_sock K (ListenOn i 4096) S2 = (l, S3)" by fastforce
  have S2: "S2 = snd (do_sock K (BindTo i a) S1)" and S3: "S3 = snd (do_sock K (ListenOn i 4096) S2)" using b l by simp_all
  have m1: "same_below i S S1" unfolding S1_def by (rule same_below_do) (simp add: i_def)
  have m2: "same_below i S S2" by (rule same_below_trans [OF m1 _ order_refl]) (simp add: S2 same_below_do)
  have m3: "same_below i S S3" by (rule same_below_trans [OF m2 _ order_refl]) (simp add: S3 same_below_do)
  have at1: "sock_at i (ts_net S1) = Some (CreateTCP a)" "length (nt_socks (ts_net S1)) = Suc i"
    by (simp_all add: S1_def do_sock_def add_sock_def sock_at_def i_def)
  have at2: "sock_at i (ts_net S2) = Some (fst (snd (sock_bind K a (CreateTCP a) (nt_kern (ts_net S1)))))"
    "b = fst (sock_bind K a (CreateTCP a) (nt_kern (ts_net S1)))" "length (nt_socks (ts_net S2)) = Suc i"
    using b at1 by (auto simp: do_sock_def on_sock_def case_prod_unfold sock_at_def)
  have at3: "sock_at i (ts_net S3) = sock_at i (ts_net S2)" "length (nt_socks (ts_net S3)) = Suc i"
    using at2(1,3) by (auto simp: S3 do_sock_def on_sock_def case_prod_unfold sock_at_def)
  have bound: "bound_to (ts_net S3) i a" if b
    using that at2 at3 bind_answers [of K a "CreateTCP a" "nt_kern (ts_net S1)"]
      bound_address_is_asked [of K a "CreateTCP a" "nt_kern (ts_net S1)"] by (simp add: bound_to_def)
  have socks: "ts_socks S3 = ts_socks S" by (simp add: S3 S2 S1_def)
  have rel: "same_below i S (release K i S2)" "same_below i S (release K i S3)"
    by (rule same_below_trans [OF m2 same_below_do(4) order_refl], rule same_below_trans [OF m3 same_below_do(4) order_refl])
  show ?case
  proof (cases "b \<and> l")
    case True
    define S4 where "S4 = S3\<lparr>ts_socks := ts_socks S3 @ [i]\<rparr>"
    define T where "T = bind_addrs K as fails S4"
    have r: "bind_addrs K (a # as) fails S = T"
      using True by (simp add: Let_def i_def [symmetric] S1_def [symmetric] b l T_def S4_def)
    note IH = Cons.IH [where fails = fails and S = S4, folded T_def]
    have m4: "same_below i S S4" "length (nt_socks (ts_net S4)) = Suc i" using m3 at3(2) by (simp_all add: S4_def same_below_def)
    have sb: "same_below i S (snd T)" by (rule same_below_trans [OF m4(1) conjunct2 [OF IH]]) (simp add: m4(2))
    have "bound_to (ts_net (snd T)) i a"
      using IH bound True by (simp add: same_below_def m4(2) bound_to_def) (simp add: S4_def)
    with IH sb show ?thesis unfolding r by (auto simp: S4_def socks i_def)
  next
    case False
    define S4 where "S4 = (if b then release K i S3 else release K i S2)"
    define T where "T = bind_addrs K as (fails @ [a]) S4"
    have r: "bind_addrs K (a # as) fails S = T"
      using False by (auto simp: Let_def i_def [symmetric] S1_def [symmetric] b l T_def S4_def)
    note IH = Cons.IH [where fails = "fails @ [a]" and S = S4, folded T_def]
    have m4: "same_below i S S4" using rel by (simp add: S4_def)
    then have "same_below i S (snd T)" by (rule same_below_trans [OF _ conjunct2 [OF IH]]) (use m4 in \<open>simp add: same_below_def i_def\<close>)
    with IH show ?thesis unfolding r by (simp add: i_def)
  qed
qed

text \<open>Binding is all or nothing: it succeeds with one socket for every address, in their order, each with a descriptor and
  bound to its address; or it fails and the server has no listening socket left but those accept loops still run on.\<close>

theorem bind_all_or_nothing:
  "let S = server_run K ops (new_TcpServer read_timeout k)
   in case server_bind K addrs [] S of
        (ok, fails, S') \<Rightarrow>
          if ok then fails = [] \<and> take (length (ts_socks S)) (ts_socks S') = ts_socks S \<and>
            list_all2 (bound_to (ts_net S')) (drop (length (ts_socks S)) (ts_socks S')) addrs
          else ts_socks S' = [] \<and> live S' = accepting S \<union> set (ts_clients S)"
proof -
  define S where "S = server_run K ops (new_TcpServer read_timeout k)"
  have "server_ok (new_TcpServer read_timeout k)"
    by (simp add: new_TcpServer_def server_ok_def live_def accepting_def sock_at_def)
  then have ok: "server_ok S" unfolding S_def by (rule server_run_ok)
  obtain f T where b: "bind_addrs K addrs [] S = (f, T)" by fastforce
  show ?thesis
  proof (cases "f = []")
    case True
    with bind_addrs_binds [of K addrs "[]" S] b show ?thesis
      unfolding S_def [symmetric] Let_def by (auto simp: server_bind_def)
  next
    case False
    have "server_ok (clear_socks K T)" using clear_ok [OF bind_ok [OF ok, of K addrs "[]"], of K] b by simp
    moreover have "ts_clients T = ts_clients S \<and> accepting T = accepting S"
      using bind_addrs_fields [of K addrs "[]" S] b by (simp add: accepting_def)
    ultimately show ?thesis
      using False b unfolding S_def [symmetric] Let_def by (simp add: server_bind_def server_ok_def)
  qed
qed

section \<open>Stopping\<close>

text \<open>The scheduler picks any task for each turn.\<close>

fun run_some :: "'k kernel \<Rightarrow> nat list \<Rightarrow> 'k tcp_server \<Rightarrow> 'k tcp_server" where
  "run_some K [] S = S"
| "run_some K (p # ps) S = run_some K ps (run_task K (p mod length (ts_tasks S)) S)"

lemma run_task_stopped:
  assumes "ts_isStop S" and "n < length (ts_tasks S)"
  shows "ts_isStop (run_task K n S)" and "length (ts_tasks (run_task K n S)) = length (ts_tasks S) - 1"
    and "ts_clients (run_task K n S) = ts_clients S"
    and "CloseSocks \<in> set (ts_tasks S) \<or> ts_socks S = [] \<Longrightarrow>
      CloseSocks \<in> set (ts_tasks (run_task K n S)) \<or> ts_socks (run_task K n S) = []"
proof -
  define gone where "gone = take n (ts_tasks S) @ drop (Suc n) (ts_tasks S)"
  have r: "run_task K n S = (case ts_tasks S ! n of
      StartAccept i \<Rightarrow> release K i (S\<lparr>ts_tasks := gone\<rparr>) | CloseSocks \<Rightarrow> close_task K (S\<lparr>ts_tasks := gone\<rparr>))"
    using assms by (simp add: run_task_def accept_turn_def gone_def Let_def split: server_task.split)
  have len: "length gone = length (ts_tasks S) - 1" using assms(2) by (simp add: gone_def)
  show "ts_isStop (run_task K n S)" "length (ts_tasks (run_task K n S)) = length (ts_tasks S) - 1"
    "ts_clients (run_task K n S) = ts_clients S"
    using assms(1) len by (simp_all add: r split: server_task.split)
  show "CloseSocks \<in> set (ts_tasks (run_task K n S)) \<or> ts_socks (run_task K n S) = []"
    if "CloseSocks \<in> set (ts_tasks S) \<or> ts_socks S = []"
    using that taken_tasks [OF assms(2), folded gone_def] by (auto simp: r split: server_task.split)
qed

lemma run_some_stopped:
  assumes "ts_isStop S" and "length ps = length (ts_tasks S)" and "CloseSocks \<in> set (ts_tasks S) \<or> ts_socks S = []"
    and "server_ok S"
  shows "ts_tasks (run_some K ps S) = [] \<and> ts_socks (run_some K ps S) = [] \<and> ts_clients (run_some K ps S) = ts_clients S \<and>
    server_ok (run_some K ps S)"
  using assms
proof (induction ps arbitrary: S)
  case (Cons p ps)
  define n where "n = p mod length (ts_tasks S)"
  have n: "n < length (ts_tasks S)" using Cons.prems(2) unfolding n_def by (intro mod_less_divisor) (cases "ts_tasks S"; simp)
  note r = run_task_stopped [OF Cons.prems(1) n, of K]
  have "length ps = length (ts_tasks (run_task K n S))" using r(2) Cons.prems(2) by simp
  from Cons.IH [OF r(1) this r(4) [OF Cons.prems(3)] run_task_ok [OF Cons.prems(4)]] r(3) show ?case by (simp add: n_def)
qed simp


section \<open>Starting again too early\<close>

text \<open>Loops on sockets that are closed: every turn fails and the loop goes on.\<close>

definition spinning :: "'k tcp_server \<Rightarrow> bool" where
  "spinning S \<longleftrightarrow> \<not> ts_isStop S \<and> ts_socks S = [] \<and> ts_tasks S \<noteq> [] \<and>
     list_all (\<lambda>t. case t of CloseSocks \<Rightarrow> False
       | StartAccept i \<Rightarrow> (case sock_at i (ts_net S) of None \<Rightarrow> False | Some s \<Rightarrow> sk_sock s = - 1)) (ts_tasks S)"

lemma spinning_turn:
  assumes "spinning S" and "\<And>k. fst (kn_accept K (- 1) k) = - 1"
  shows "spinning (run_task K n S) \<and> ts_tasks (run_task K n S) = ts_tasks S \<and> ts_clients (run_task K n S) = ts_clients S"
proof (cases "n < length (ts_tasks S)")
  case True
  then have "ts_tasks S ! n \<in> set (ts_tasks S)" by simp
  with assms(1) have "case ts_tasks S ! n of CloseSocks \<Rightarrow> False
      | StartAccept i \<Rightarrow> (case sock_at i (ts_net S) of None \<Rightarrow> False | Some s \<Rightarrow> sk_sock s = - 1)"
    unfolding spinning_def list_all_iff by blast
  then obtain i s where t: "ts_tasks S ! n = StartAccept i" and s: "sock_at i (ts_net S) = Some s" "sk_sock s = - 1"
    by (cases "ts_tasks S ! n") (auto split: option.splits)
  obtain k' where a: "kn_accept K (- 1) (nt_kern (ts_net S)) = (- 1, k')" using assms(2) by (metis prod.collapse)
  have "sock_accept K s (nt_kern (ts_net S)) = (None, k')"
    by (simp add: sock_accept_def s a destroy_def sock_close_def new_Socket_def Let_def)
  then have r: "run_task K n S = S\<lparr>ts_net := (ts_net S)\<lparr>nt_kern := k'\<rparr>\<rparr>"
    using assms(1) True by (simp add: run_task_def t accept_turn_def do_sock_def s Let_def spinning_def)
  have "sock_at j (ts_net (S\<lparr>ts_net := (ts_net S)\<lparr>nt_kern := k'\<rparr>\<rparr>)) = sock_at j (ts_net S)" for j
    by (simp add: sock_at_def)
  with assms(1) show ?thesis unfolding r spinning_def by simp
qed (use assms in \<open>simp add: run_task_def\<close>)

lemma sock_at_on:
  "sock_at j (snd (on_sock i f N)) =
     (if j = i then map_option (\<lambda>s. fst (snd (f s (nt_kern N)))) (sock_at i N) else sock_at j N)"
  by (auto simp: on_sock_def sock_at_def case_prod_unfold split: option.split)

definition closed_at :: "nat \<Rightarrow> 'k tcp_server \<Rightarrow> bool" where
  "closed_at j S \<longleftrightarrow> (case sock_at j (ts_net S) of None \<Rightarrow> True | Some s \<Rightarrow> sk_sock s = - 1)"

lemma close_one_closes: "j = i \<or> closed_at j S \<Longrightarrow> closed_at j (close_one K S i)"
  by (auto simp: closed_at_def close_one_def do_sock_def case_prod_unfold sock_at_on close_gone sock_close_def Let_def
      split: option.splits)

lemma close_fold_closes: "j \<in> set is \<or> closed_at j S \<Longrightarrow> closed_at j (foldl (close_one K) S is)"
  by (induction "is" arbitrary: S) (auto simp: close_one_closes)

lemma release_fold_closed: "closed_at j S \<Longrightarrow> closed_at j (foldl (\<lambda>S i. release K i S) S is)"
proof (induction "is" arbitrary: S)
  case (Cons i "is")
  have "closed_at j (release K i S)"
    using Cons.prems
    by (auto simp: closed_at_def release_def do_sock_def case_prod_unfold sock_at_def nth_list_update split: option.splits if_splits)
  with Cons.IH show ?case by simp
qed simp

lemma close_task_closes:
  assumes "j \<in> set (ts_socks S)"
  shows "closed_at j (close_task K S)"
proof -
  have "closed_at j (foldl (close_one K) S (ts_socks S))" using assms close_fold_closes by blast
  then have "closed_at j ((foldl (close_one K) S (ts_socks S))\<lparr>ts_socks := []\<rparr>)" by (simp add: closed_at_def)
  from release_fold_closed [OF this] show ?thesis by (simp add: close_task_def clear_socks_def)
qed

text \<open>A server that is stopped and started again before the task that closes its sockets has run counts as running and
  serves nobody: its loops turn for ever on closed sockets, however often they run.\<close>

theorem restart_serves_nobody:
  assumes "server_ok S" and "\<not> ts_isStop S" and "ts_socks S \<noteq> []" and "ts_tasks S = map StartAccept (ts_socks S)"
    and "\<And>k. fst (kn_accept K (- 1) k) = - 1"
    and "S' = run_task K (length (ts_socks S)) (snd (server_start (server_stop S)))"
  shows "\<not> ts_isStop (run_some K ps S') \<and> ts_clients (run_some K ps S') = ts_clients S \<and>
    ts_tasks (run_some K ps S') = map StartAccept (ts_socks S @ ts_socks S)"
proof -
  define T where "T = S\<lparr>ts_isStop := False, ts_tasks := map StartAccept (ts_socks S) @ map StartAccept (ts_socks S)\<rparr>"
  have T: "ts_socks T = ts_socks S" "ts_clients T = ts_clients S" "\<not> ts_isStop T"
    "ts_tasks T = map StartAccept (ts_socks S @ ts_socks S)" "live T = live S" "accepting T = set (ts_socks S)"
    by (auto simp: T_def accepting_def live_def)
  have S': "S' = close_task K T"
    using assms(2,4) by (simp add: assms(6) server_start_def server_stop_def run_task_def nth_append T_def)
  have "spinning S'"
  proof -
    have "case sock_at i (ts_net S') of None \<Rightarrow> False | Some s \<Rightarrow> sk_sock s = - 1" if i: "i \<in> set (ts_socks S)" for i
    proof -
      have "i \<in> live S'" using i assms(1) by (simp add: S' T server_ok_def)
      moreover have "closed_at i S'" unfolding S' by (rule close_task_closes) (simp add: T i)
      ultimately show ?thesis by (auto simp: live_def closed_at_def)
    qed
    with assms(3) show ?thesis by (auto simp: spinning_def S' T list_all_iff)
  qed
  moreover have "spinning (run_some K ps U) \<and> ts_tasks (run_some K ps U) = ts_tasks U \<and> ts_clients (run_some K ps U) = ts_clients U"
    if "spinning U" for U
    using that
  proof (induction ps arbitrary: U)
    case (Cons p ps)
    from spinning_turn [OF Cons.prems assms(5), of "p mod length (ts_tasks U)"] Cons.IH show ?case by simp
  qed simp
  ultimately show ?thesis by (simp add: spinning_def S' T)
qed

theorem restart_serves_nobody_witness:
  "let S = server_run os_kernel [OpBind [IPv4 (IPv4Address 0 80)] [], OpStart]
       (new_TcpServer 120000 \<lparr>os_fds = [0, 1, 2], os_table = (\<lambda>_. None)\<rparr>);
       S' = run_task os_kernel 1 (snd (server_start (server_stop S)))
   in \<forall>ps. ts_clients (run_some os_kernel ps S') = [] \<and> ts_tasks (run_some os_kernel ps S') = [StartAccept 0, StartAccept 0]"
proof -
  define S where "S = server_run os_kernel [OpBind [IPv4 (IPv4Address 0 80)] [], OpStart]
       (new_TcpServer 120000 \<lparr>os_fds = [0, 1, 2], os_table = (\<lambda>_. None)\<rparr>)"
  have e: "ts_socks S = [0]" "ts_clients S = []" "ts_tasks S = [StartAccept 0]" "\<not> ts_isStop S"
    unfolding S_def by code_simp+
  have ok: "server_ok S"
    unfolding S_def
    by (rule server_run_ok) (simp add: new_TcpServer_def server_ok_def live_def accepting_def sock_at_def)
  have "ts_clients (run_some os_kernel ps (run_task os_kernel 1 (snd (server_start (server_stop S))))) = [] \<and>
      ts_tasks (run_some os_kernel ps (run_task os_kernel 1 (snd (server_start (server_stop S))))) = [StartAccept 0, StartAccept 0]" for ps
    using restart_serves_nobody [OF ok e(4) _ _ _ refl, of os_kernel ps]
    by (simp add: e os_kernel_def)
  then show ?thesis unfolding S_def [symmetric] Let_def by blast
qed

end
