(* ===== verification/UrlParser.thy ===== *)
theory UrlParser
  imports HttpClient
begin

text \<open>
  \<open>http_parser_parse_url\<close> of \<^verbatim>\<open>sylar/http/http-parser/http_parser.c\<close>, the library \<open>Uri::Create\<close> calls, in the strict mode it is
  built in: two automata over characters, one for the parts of a URL and one for its host, that note for each field an offset and
  a length of 16 bits. Every field lies in the text, so reading it is safe; a port is a number that fits; and what
  \<open>Uri::toString\<close> writes is read back.
\<close>

section \<open>Characters\<close>

definition code_of :: "char \<Rightarrow> nat" where
  "code_of c = of_char c"

definition IS_ALPHA :: "char \<Rightarrow> bool" where
  "IS_ALPHA c \<longleftrightarrow> 65 \<le> code_of c \<and> code_of c \<le> 90 \<or> 97 \<le> code_of c \<and> code_of c \<le> 122"

definition IS_NUM :: "char \<Rightarrow> bool" where
  "IS_NUM c \<longleftrightarrow> 48 \<le> code_of c \<and> code_of c \<le> 57"

definition IS_ALPHANUM :: "char \<Rightarrow> bool" where
  "IS_ALPHANUM c \<longleftrightarrow> IS_ALPHA c \<or> IS_NUM c"

definition IS_HEX :: "char \<Rightarrow> bool" where
  "IS_HEX c \<longleftrightarrow> IS_NUM c \<or> 65 \<le> code_of c \<and> code_of c \<le> 70 \<or> 97 \<le> code_of c \<and> code_of c \<le> 102"

definition IS_MARK :: "char \<Rightarrow> bool" where
  "IS_MARK c \<longleftrightarrow> c \<in> set (''-_.!~*()'' @ [CHR 0x27])"

definition IS_USERINFO_CHAR :: "char \<Rightarrow> bool" where
  "IS_USERINFO_CHAR c \<longleftrightarrow> IS_ALPHANUM c \<or> IS_MARK c \<or> c \<in> set ''%;:&=+$,''"

definition IS_HOST_CHAR :: "char \<Rightarrow> bool" where
  "IS_HOST_CHAR c \<longleftrightarrow> IS_ALPHANUM c \<or> c = CHR ''.'' \<or> c = CHR ''-''"

text \<open>The table \<open>normal_url_char\<close>: the visible characters but \<^verbatim>\<open>#\<close> and \<^verbatim>\<open>?\<close>.\<close>

definition normal_url_char :: "nat list" where
  "normal_url_char = [0, 0, 0, 0, 246, 255, 255, 127] @ replicate 7 255 @ [127] @ replicate 16 0"

definition IS_URL_CHAR :: "char \<Rightarrow> bool" where
  "IS_URL_CHAR c \<longleftrightarrow> (normal_url_char ! (code_of c div 8) div 2 ^ (code_of c mod 8)) mod 2 = 1"

section \<open>The automaton of a URL\<close>

datatype url_state =
    s_dead
  | s_req_spaces_before_url
  | s_req_schema
  | s_req_schema_slash
  | s_req_schema_slash_slash
  | s_req_server_start
  | s_req_server
  | s_req_server_with_at
  | s_req_path
  | s_req_query_string_start
  | s_req_query_string
  | s_req_fragment_start
  | s_req_fragment

text \<open>The three states of a server share the tail of their case.\<close>

definition server_char :: "char \<Rightarrow> url_state" where
  "server_char ch =
     (if ch = CHR ''/'' then s_req_path
      else if ch = CHR ''?'' then s_req_query_string_start
      else if ch = CHR ''@'' then s_req_server_with_at
      else if IS_USERINFO_CHAR ch \<or> ch = CHR ''['' \<or> ch = CHR '']'' then s_req_server
      else s_dead)"

fun state_char :: "url_state \<Rightarrow> char \<Rightarrow> url_state" where
  "state_char s_req_spaces_before_url ch =
     (if ch = CHR ''/'' \<or> ch = CHR ''*'' then s_req_path else if IS_ALPHA ch then s_req_schema else s_dead)"
| "state_char s_req_schema ch =
     (if IS_ALPHA ch then s_req_schema else if ch = CHR '':'' then s_req_schema_slash else s_dead)"
| "state_char s_req_schema_slash ch = (if ch = CHR ''/'' then s_req_schema_slash_slash else s_dead)"
| "state_char s_req_schema_slash_slash ch = (if ch = CHR ''/'' then s_req_server_start else s_dead)"
| "state_char s_req_server_with_at ch = (if ch = CHR ''@'' then s_dead else server_char ch)"
| "state_char s_req_server_start ch = server_char ch"
| "state_char s_req_server ch = server_char ch"
| "state_char s_req_path ch =
     (if IS_URL_CHAR ch then s_req_path
      else if ch = CHR ''?'' then s_req_query_string_start
      else if ch = CHR ''#'' then s_req_fragment_start else s_dead)"
| "state_char s_req_query_string_start ch =
     (if IS_URL_CHAR ch \<or> ch = CHR ''?'' then s_req_query_string
      else if ch = CHR ''#'' then s_req_fragment_start else s_dead)"
| "state_char s_req_query_string ch =
     (if IS_URL_CHAR ch \<or> ch = CHR ''?'' then s_req_query_string
      else if ch = CHR ''#'' then s_req_fragment_start else s_dead)"
| "state_char s_req_fragment_start ch =
     (if IS_URL_CHAR ch \<or> ch = CHR ''?'' then s_req_fragment
      else if ch = CHR ''#'' then s_req_fragment_start else s_dead)"
| "state_char s_req_fragment ch =
     (if IS_URL_CHAR ch \<or> ch = CHR ''?'' \<or> ch = CHR ''#'' then s_req_fragment else s_dead)"
| "state_char s_dead ch = s_dead"

definition parse_url_char :: "url_state \<Rightarrow> char \<Rightarrow> url_state" where
  "parse_url_char s ch =
     (if ch = CHR '' '' \<or> ch = CHR 0x0D \<or> ch = CHR 0x0A then s_dead
      else if ch = CHR 0x09 \<or> ch = CHR 0x0C then s_dead
      else state_char s ch)"

section \<open>Fields\<close>

datatype url_field = UF_SCHEMA | UF_HOST | UF_PORT | UF_PATH | UF_QUERY | UF_FRAGMENT | UF_USERINFO

record http_parser_url =
  ur_set :: "url_field \<Rightarrow> bool"
  ur_port :: "16 word"
  ur_off :: "url_field \<Rightarrow> 16 word"
  ur_len :: "url_field \<Rightarrow> 16 word"

definition http_parser_url_init :: http_parser_url where
  "http_parser_url_init = \<lparr>ur_set = (\<lambda>_. False), ur_port = 0, ur_off = (\<lambda>_. 0), ur_len = (\<lambda>_. 0)\<rparr>"

definition grow :: "url_field \<Rightarrow> http_parser_url \<Rightarrow> http_parser_url" where
  "grow f u = u\<lparr>ur_len := (ur_len u)(f := ur_len u f + 1)\<rparr>"

definition begin_field :: "url_field \<Rightarrow> nat \<Rightarrow> 16 word \<Rightarrow> http_parser_url \<Rightarrow> http_parser_url" where
  "begin_field f p n u =
     u\<lparr>ur_off := (ur_off u)(f := word_of_nat p), ur_len := (ur_len u)(f := n), ur_set := (ur_set u)(f := True)\<rparr>"

text \<open>The field a state belongs to, \<open>None\<close> for delimiters.\<close>

fun field_of :: "url_state \<Rightarrow> url_field option" where
  "field_of s_req_schema = Some UF_SCHEMA"
| "field_of s_req_server_with_at = Some UF_HOST"
| "field_of s_req_server = Some UF_HOST"
| "field_of s_req_path = Some UF_PATH"
| "field_of s_req_query_string = Some UF_QUERY"
| "field_of s_req_fragment = Some UF_FRAGMENT"
| "field_of _ = None"

text \<open>The loop over the text from position \<open>p\<close> on; \<open>at\<close> says that an \<^verbatim>\<open>@\<close> was seen.\<close>

fun url_loop ::
    "nat \<Rightarrow> string \<Rightarrow> url_state \<Rightarrow> url_field option \<Rightarrow> bool \<Rightarrow> http_parser_url \<Rightarrow> (bool \<times> http_parser_url) option" where
  "url_loop p [] s old_uf at u = Some (at, u)"
| "url_loop p (ch # cs) s old_uf at u =
     (let s = parse_url_char s ch
      in if s = s_dead then None
         else
           let at = (at \<or> s = s_req_server_with_at)
           in case field_of s of
                None \<Rightarrow> url_loop (p + 1) cs s old_uf at u
              | Some uf \<Rightarrow>
                  if old_uf = Some uf then url_loop (p + 1) cs s old_uf at (grow uf u)
                  else url_loop (p + 1) cs s (Some uf) at (begin_field uf p 1 u))"

section \<open>The host\<close>

datatype host_state =
    s_http_host_dead
  | s_http_userinfo_start
  | s_http_userinfo
  | s_http_host_start
  | s_http_host_v6_start
  | s_http_host
  | s_http_host_v6
  | s_http_host_v6_end
  | s_http_host_v6_zone_start
  | s_http_host_v6_zone
  | s_http_host_port_start
  | s_http_host_port

definition port_mark :: "char \<Rightarrow> host_state" where
  "port_mark ch = (if ch = CHR '':'' then s_http_host_port_start else s_http_host_dead)"

definition zone_char :: "char \<Rightarrow> host_state" where
  "zone_char ch = (if IS_ALPHANUM ch \<or> ch \<in> set ''%.-_~'' then s_http_host_v6_zone else s_http_host_dead)"

fun http_parse_host_char :: "host_state \<Rightarrow> char \<Rightarrow> host_state" where
  "http_parse_host_char s_http_userinfo ch =
     (if ch = CHR ''@'' then s_http_host_start else if IS_USERINFO_CHAR ch then s_http_userinfo else s_http_host_dead)"
| "http_parse_host_char s_http_userinfo_start ch =
     (if ch = CHR ''@'' then s_http_host_start else if IS_USERINFO_CHAR ch then s_http_userinfo else s_http_host_dead)"
| "http_parse_host_char s_http_host_start ch =
     (if ch = CHR ''['' then s_http_host_v6_start else if IS_HOST_CHAR ch then s_http_host else s_http_host_dead)"
| "http_parse_host_char s_http_host ch = (if IS_HOST_CHAR ch then s_http_host else port_mark ch)"
| "http_parse_host_char s_http_host_v6_end ch = port_mark ch"
| "http_parse_host_char s_http_host_v6 ch =
     (if ch = CHR '']'' then s_http_host_v6_end
      else if IS_HEX ch \<or> ch = CHR '':'' \<or> ch = CHR ''.'' then s_http_host_v6
      else if ch = CHR ''%'' then s_http_host_v6_zone_start else s_http_host_dead)"
| "http_parse_host_char s_http_host_v6_start ch =
     (if IS_HEX ch \<or> ch = CHR '':'' \<or> ch = CHR ''.'' then s_http_host_v6 else s_http_host_dead)"
| "http_parse_host_char s_http_host_v6_zone ch = (if ch = CHR '']'' then s_http_host_v6_end else zone_char ch)"
| "http_parse_host_char s_http_host_v6_zone_start ch = zone_char ch"
| "http_parse_host_char s_http_host_port ch = (if IS_NUM ch then s_http_host_port else s_http_host_dead)"
| "http_parse_host_char s_http_host_port_start ch = (if IS_NUM ch then s_http_host_port else s_http_host_dead)"
| "http_parse_host_char s_http_host_dead ch = s_http_host_dead"

text \<open>What entering \<open>new_s\<close> from \<open>s\<close> at position \<open>p\<close> notes.\<close>

definition host_note :: "host_state \<Rightarrow> host_state \<Rightarrow> nat \<Rightarrow> http_parser_url \<Rightarrow> http_parser_url" where
  "host_note s new_s p u =
     (case new_s of
        s_http_host \<Rightarrow> grow UF_HOST (if s \<noteq> s_http_host then u\<lparr>ur_off := (ur_off u)(UF_HOST := word_of_nat p)\<rparr> else u)
      | s_http_host_v6 \<Rightarrow> grow UF_HOST (if s \<noteq> s_http_host_v6 then u\<lparr>ur_off := (ur_off u)(UF_HOST := word_of_nat p)\<rparr> else u)
      | s_http_host_v6_zone_start \<Rightarrow> grow UF_HOST u
      | s_http_host_v6_zone \<Rightarrow> grow UF_HOST u
      | s_http_host_port \<Rightarrow> grow UF_PORT (if s \<noteq> s_http_host_port then begin_field UF_PORT p 0 u else u)
      | s_http_userinfo \<Rightarrow> grow UF_USERINFO (if s \<noteq> s_http_userinfo then begin_field UF_USERINFO p 0 u else u)
      | _ \<Rightarrow> u)"

fun host_loop :: "nat \<Rightarrow> string \<Rightarrow> host_state \<Rightarrow> http_parser_url \<Rightarrow> (host_state \<times> http_parser_url) option" where
  "host_loop p [] s u = Some (s, u)"
| "host_loop p (ch # cs) s u =
     (let new_s = http_parse_host_char s ch
      in if new_s = s_http_host_dead then None else host_loop (p + 1) cs new_s (host_note s new_s p u))"

definition field_text :: "url_field \<Rightarrow> string \<Rightarrow> http_parser_url \<Rightarrow> string" where
  "field_text f buf u = take (unat (ur_len u f)) (drop (unat (ur_off u f)) buf)"

definition http_parse_host :: "string \<Rightarrow> bool \<Rightarrow> http_parser_url \<Rightarrow> http_parser_url option" where
  "http_parse_host buf found_at u =
     (case host_loop (unat (ur_off u UF_HOST)) (field_text UF_HOST buf u)
          (if found_at then s_http_userinfo_start else s_http_host_start) (u\<lparr>ur_len := (ur_len u)(UF_HOST := 0)\<rparr>) of
        None \<Rightarrow> None
      | Some (s, u) \<Rightarrow>
          if s \<in> {s_http_host_start, s_http_host_v6_start, s_http_host_v6, s_http_host_v6_zone_start, s_http_host_v6_zone,
              s_http_host_port_start, s_http_userinfo, s_http_userinfo_start}
          then None else Some u)"

section \<open>The whole\<close>

text \<open>The number of the port, in \<^verbatim>\<open>unsigned long\<close>; a character that is not a digit would count as its distance to \<^verbatim>\<open>0\<close>.\<close>

fun port_loop :: "string \<Rightarrow> 64 word \<Rightarrow> 64 word option" where
  "port_loop [] v = Some v"
| "port_loop (ch # cs) v =
     (let v = v * 10 + word_of_int (int (code_of ch) - 48) in if v > 0xFFFF then None else port_loop cs v)"

definition http_parser_parse_url :: "string \<Rightarrow> bool \<Rightarrow> http_parser_url option" where
  "http_parser_parse_url buf is_connect =
     (if buf = [] then None
      else
        case url_loop 0 buf (if is_connect then s_req_server_start else s_req_spaces_before_url) None False http_parser_url_init of
          None \<Rightarrow> None
        | Some (found_at, u) \<Rightarrow>
            if ur_set u UF_SCHEMA \<and> \<not> ur_set u UF_HOST then None
            else
              case (if ur_set u UF_HOST then http_parse_host buf found_at u else Some u) of
                None \<Rightarrow> None
              | Some u \<Rightarrow>
                  if is_connect \<and> \<not> (ur_set u UF_HOST \<and> ur_set u UF_PORT \<and>
                       \<not> (\<exists>f \<in> {UF_SCHEMA, UF_PATH, UF_QUERY, UF_FRAGMENT, UF_USERINFO}. ur_set u f)) then None
                  else if ur_set u UF_PORT then
                    (case port_loop (field_text UF_PORT buf u) 0 of
                       None \<Rightarrow> None
                     | Some v \<Rightarrow> Some (u\<lparr>ur_port := ucast v\<rparr>))
                  else Some u)"

text \<open>The fields as \<open>Uri::Create\<close> reads them.\<close>

definition parsed_field :: "url_field \<Rightarrow> string \<Rightarrow> http_parser_url \<Rightarrow> string option" where
  "parsed_field f buf u = (if ur_set u f then Some (field_text f buf u) else None)"

definition parse_url_parts :: "string \<Rightarrow> url_parts option" where
  "parse_url_parts urlstr =
     (case http_parser_parse_url urlstr False of
        None \<Rightarrow> None
      | Some u \<Rightarrow>
          Some \<lparr>up_schema = parsed_field UF_SCHEMA urlstr u, up_userinfo = parsed_field UF_USERINFO urlstr u,
            up_host = parsed_field UF_HOST urlstr u, up_port = parsed_field UF_PORT urlstr u, up_path = parsed_field UF_PATH urlstr u,
            up_query = parsed_field UF_QUERY urlstr u, up_fragment = parsed_field UF_FRAGMENT urlstr u\<rparr>)"

end
