(* ===== verification/UrlProps.thy ===== *)
theory UrlProps
  imports UrlParser
begin

text \<open>
  The parser of URLs: every field it reports lies in the text; below 64 KB a port is made of digits and fits, so \<open>Uri::Create\<close>
  never throws, and what \<open>Uri::toString\<close> writes is read back.
\<close>

section \<open>Fields lie in the text\<close>

definition within :: "nat \<Rightarrow> url_field \<Rightarrow> http_parser_url \<Rightarrow> bool" where
  "within n f u \<longleftrightarrow> unat (ur_off u f) + unat (ur_len u f) \<le> n"

lemma unat_of_nat_le: "unat (word_of_nat p :: 16 word) \<le> p"
  by (simp add: unat_of_nat)

lemma unat_suc_le: "unat (w + 1 :: 16 word) \<le> unat w + 1"
  using unat_of_nat_le [of "unat w + 1"] by (simp add: add.commute)

lemma within_mono: "within m f u \<Longrightarrow> m \<le> n \<Longrightarrow> within n f u"
  by (simp add: within_def)

lemma within_grow: "within p f u \<Longrightarrow> within (p + 1) f (grow f u)" "f \<noteq> g \<Longrightarrow> within p f (grow g u) = within p f u"
  using unat_suc_le [of "ur_len u f"] by (simp_all add: within_def grow_def)

lemma within_begin:
  "within (p + 1) f (begin_field f p 1 u)" "within p f (begin_field f p 0 u)"
  "f \<noteq> g \<Longrightarrow> within q f (begin_field g p n u) = within q f u"
  using unat_of_nat_le [of p] by (simp_all add: within_def begin_field_def)

lemma set_begin [simp]: "ur_set (begin_field f p n u) g = (g = f \<or> ur_set u g)"
  by (simp add: begin_field_def)

lemma set_grow [simp]: "ur_set (grow f u) = ur_set u"
  by (simp add: grow_def)

lemma url_loop_within:
  assumes "url_loop p cs s old_uf at u = Some (at', u')" and "\<And>f. ur_set u f \<Longrightarrow> within p f u"
    and "\<And>f. old_uf = Some f \<Longrightarrow> ur_set u f"
  shows "ur_set u' f \<Longrightarrow> within (p + length cs) f u'"
  using assms
proof (induction p cs s old_uf at u rule: url_loop.induct)
  case (2 p ch cs s old_uf at u)
  define s' where "s' = parse_url_char s ch"
  have alive: "s' \<noteq> s_dead" using "2.prems"(2) by (auto simp: s'_def Let_def)
  show ?case
  proof (cases "field_of s'")
    case None
    with 2(1) [OF s'_def alive refl None] "2.prems" alive within_mono show ?thesis
      by (fastforce simp: s'_def [symmetric] Let_def)
  next
    case (Some uf)
    define w where "w = (if old_uf = Some uf then grow uf u else begin_field uf p 1 u)"
    have r: "url_loop (p + 1) cs s' (Some uf) (at \<or> s' = s_req_server_with_at) w = Some (at', u')"
      using "2.prems"(2) alive Some by (auto simp: s'_def [symmetric] Let_def w_def split: if_splits)
    have w: "within (p + 1) g w" if "ur_set w g" for g
      using that "2.prems"(3,4) within_grow(1) [of p uf u] within_mono [of p g u "p + 1"]
      by (cases "g = uf") (auto simp: w_def within_begin(1) [simplified] within_begin(3) within_grow(2) split: if_splits)
    have "ur_set w uf" using "2.prems"(4) by (auto simp: w_def)
    with 2(2) [OF s'_def alive refl Some] 2(3) [OF s'_def alive refl Some] r w "2.prems"(1) show ?thesis
      by (cases "old_uf = Some uf") (auto simp: w_def)
  qed
qed simp

text \<open>What the loop over the host keeps, \<open>N\<close> the length of the text.\<close>

definition host_inv :: "nat \<Rightarrow> nat \<Rightarrow> host_state \<Rightarrow> http_parser_url \<Rightarrow> bool" where
  "host_inv N p s u \<longleftrightarrow>
     (\<forall>f. ur_set u f \<longrightarrow> within N f u) \<and> within p UF_HOST u \<and>
     (s \<in> {s_http_userinfo_start, s_http_userinfo, s_http_host_start, s_http_host_v6_start} \<longrightarrow> ur_len u UF_HOST = 0) \<and>
     (s = s_http_host_port \<longrightarrow> within p UF_PORT u) \<and> (s = s_http_userinfo \<longrightarrow> within p UF_USERINFO u)"

lemma host_from:
  "http_parse_host_char s c = s_http_host \<Longrightarrow> s = s_http_host \<or> s = s_http_host_start"
  "http_parse_host_char s c = s_http_host_v6 \<Longrightarrow> s = s_http_host_v6 \<or> s = s_http_host_v6_start"
  "http_parse_host_char s c \<in> {s_http_userinfo_start, s_http_userinfo, s_http_host_start, s_http_host_v6_start} \<Longrightarrow>
     s \<in> {s_http_userinfo_start, s_http_userinfo, s_http_host_start, s_http_host_v6_start}"
  by (cases s; simp add: port_mark_def zone_char_def split: if_splits)+

lemma host_note_set:
  "ur_set (host_note s n p u) f =
     (ur_set u f \<or> n = s_http_host_port \<and> s \<noteq> s_http_host_port \<and> f = UF_PORT \<or>
      n = s_http_userinfo \<and> s \<noteq> s_http_userinfo \<and> f = UF_USERINFO)"
  by (auto simp: host_note_def split: host_state.split)

lemma host_note_other:
  "f \<notin> {UF_HOST, UF_PORT, UF_USERINFO} \<Longrightarrow> within q f (host_note s n p u) = within q f u"
  by (auto simp: host_note_def within_grow(2) within_begin(3) within_def begin_field_def grow_def split: host_state.split)

lemma host_note_host:
  assumes "within p UF_HOST u" and "n = http_parse_host_char s c"
    and "s \<in> {s_http_userinfo_start, s_http_userinfo, s_http_host_start, s_http_host_v6_start} \<longrightarrow> ur_len u UF_HOST = 0"
  shows "within (p + 1) UF_HOST (host_note s n p u)"
proof -
  have u: "within (p + 1) UF_HOST u" "within (p + 1) UF_HOST (grow UF_HOST u)"
    using within_mono [OF assms(1)] within_grow(1) [OF assms(1)] by simp_all
  have new: "within (p + 1) UF_HOST (grow UF_HOST (u\<lparr>ur_off := (ur_off u)(UF_HOST := word_of_nat p)\<rparr>))"
    if "ur_len u UF_HOST = 0"
    using that unat_of_nat_le [of p] by (simp add: within_def grow_def)
  show ?thesis
    using u new assms(3) host_from(1) [OF assms(2) [symmetric, THEN trans, of s_http_host]]
      host_from(2) [OF assms(2) [symmetric, THEN trans, of s_http_host_v6]]
    by (auto simp: host_note_def within_grow(2) within_begin(3) split: host_state.split)
qed

lemma host_note_fresh:
  "within p UF_PORT u \<or> s \<noteq> s_http_host_port \<Longrightarrow> within (p + 1) UF_PORT (host_note s s_http_host_port p u)"
  "within p UF_USERINFO u \<or> s \<noteq> s_http_userinfo \<Longrightarrow> within (p + 1) UF_USERINFO (host_note s s_http_userinfo p u)"
  using within_grow(1) within_begin(2) by (auto simp: host_note_def simp del: One_nat_def)

lemma host_inv_step:
  assumes inv: "host_inv N p s u" and n: "n = http_parse_host_char s c" and p: "p < N"
  shows "host_inv N (p + 1) n (host_note s n p u)"
proof -
  let ?u = "host_note s n p u"
  have host: "within (p + 1) UF_HOST ?u" using host_note_host [OF _ n] inv by (simp add: host_inv_def)
  have port: "within (p + 1) UF_PORT ?u" if "n = s_http_host_port"
    using host_note_fresh(1) [of p u s] inv that by (auto simp: host_inv_def)
  have user: "within (p + 1) UF_USERINFO ?u" if "n = s_http_userinfo"
    using host_note_fresh(2) [of p u s] inv that by (auto simp: host_inv_def)
  have same: "within N UF_PORT ?u = within N UF_PORT u" if "n \<noteq> s_http_host_port"
    using that by (auto simp: host_note_def within_def grow_def begin_field_def split: host_state.split)
  have same2: "within N UF_USERINFO ?u = within N UF_USERINFO u" if "n \<noteq> s_http_userinfo"
    using that by (auto simp: host_note_def within_def grow_def begin_field_def split: host_state.split)
  have all: "within N f ?u" if "ur_set ?u f" for f
  proof (cases f)
    case UF_HOST
    with within_mono [OF host, of N] p show ?thesis by simp
  next
    case UF_PORT
    with within_mono [OF port, of N] p same that inv show ?thesis
      by (cases "n = s_http_host_port") (auto simp: host_note_set host_inv_def)
  next
    case UF_USERINFO
    with within_mono [OF user, of N] p same2 that inv show ?thesis
      by (cases "n = s_http_userinfo") (auto simp: host_note_set host_inv_def)
  qed (use that inv in \<open>auto simp: host_note_other host_note_set host_inv_def\<close>)
  have "ur_len ?u UF_HOST = 0"
    if "n \<in> {s_http_userinfo_start, s_http_userinfo, s_http_host_start, s_http_host_v6_start}"
  proof -
    have "s \<in> {s_http_userinfo_start, s_http_userinfo, s_http_host_start, s_http_host_v6_start}"
      using host_from(3) [of s c] that unfolding n .
    then have "ur_len u UF_HOST = 0" using inv by (simp add: host_inv_def)
    moreover have "ur_len ?u UF_HOST = ur_len u UF_HOST" using that by (auto simp: host_note_def grow_def begin_field_def)
    ultimately show ?thesis by simp
  qed
  with host port user all show ?thesis by (simp add: host_inv_def)
qed

lemma host_loop_inv:
  "host_loop p cs s u = Some (s', u') \<Longrightarrow> host_inv N p s u \<Longrightarrow> p + length cs \<le> N \<Longrightarrow> host_inv N (p + length cs) s' u'"
proof (induction p cs s u rule: host_loop.induct)
  case (2 p ch cs s u)
  define n where "n = http_parse_host_char s ch"
  have n: "n \<noteq> s_http_host_dead" "host_loop (p + 1) cs n (host_note s n p u) = Some (s', u')"
    using "2.prems"(1) by (auto simp: n_def Let_def split: if_splits)
  have "host_inv N (p + 1) n (host_note s n p u)" using host_inv_step [OF "2.prems"(2) n_def] "2.prems"(3) by simp
  from "2.IH" [OF n_def n(1) n(2) this] "2.prems"(3) show ?case by simp
qed simp

lemma field_text_length: "within (length buf) f u \<Longrightarrow> length (field_text f buf u) = unat (ur_len u f)"
  by (simp add: field_text_def within_def)

text \<open>The stages of a parse that succeeds.\<close>

lemma parse_url_stages:
  assumes "http_parser_parse_url buf is_connect = Some u"
  obtains found_at v w where
    "url_loop 0 buf (if is_connect then s_req_server_start else s_req_spaces_before_url) None False http_parser_url_init =
       Some (found_at, v)"
    and "(if ur_set v UF_HOST then http_parse_host buf found_at v else Some v) = Some w"
    and "ur_set u = ur_set w" and "ur_off u = ur_off w" and "ur_len u = ur_len w"
    and "ur_set w UF_PORT \<Longrightarrow> \<exists>n. port_loop (field_text UF_PORT buf w) 0 = Some n \<and> ur_port u = ucast n"
proof -
  obtain found_at v where l: "url_loop 0 buf (if is_connect then s_req_server_start else s_req_spaces_before_url) None False
      http_parser_url_init = Some (found_at, v)"
    and r: "\<not> (ur_set v UF_SCHEMA \<and> \<not> ur_set v UF_HOST)"
    using assms by (auto simp: http_parser_parse_url_def split: if_splits option.splits)
  obtain w where "(if ur_set v UF_HOST then http_parse_host buf found_at v else Some v) = Some w"
    "ur_set u = ur_set w" "ur_off u = ur_off w" "ur_len u = ur_len w"
    "ur_set w UF_PORT \<longrightarrow> (\<exists>n. port_loop (field_text UF_PORT buf w) 0 = Some n \<and> ur_port u = ucast n)"
    using assms l r
    by (auto simp: http_parser_parse_url_def split: if_splits option.splits)
  with that [OF l] show thesis by blast
qed

lemma parse_host_stage:
  assumes "http_parse_host buf found_at v = Some w"
  obtains s where "host_loop (unat (ur_off v UF_HOST)) (field_text UF_HOST buf v)
      (if found_at then s_http_userinfo_start else s_http_host_start) (v\<lparr>ur_len := (ur_len v)(UF_HOST := 0)\<rparr>) = Some (s, w)"
  using assms by (auto simp: http_parse_host_def split: option.splits if_splits)

lemma url_stage_within:
  "url_loop 0 buf s None False http_parser_url_init = Some (at, v) \<Longrightarrow> ur_set v g \<Longrightarrow> within (length buf) g v"
  using url_loop_within [of 0 buf s None False http_parser_url_init at v g] by (simp add: http_parser_url_init_def)

text \<open>C28: whatever the text and however long, each field the parser reports lies inside the text: offset and length are cut to
  16 bits, but never reach beyond the end, so \<open>Uri::Create\<close> reads only what it was given.\<close>

theorem url_fields_within:
  assumes "http_parser_parse_url buf is_connect = Some u" and "ur_set u f"
  shows "unat (ur_off u f) + unat (ur_len u f) \<le> length buf"
  using assms(1)
proof (rule parse_url_stages)
  fix found_at v w
  assume l: "url_loop 0 buf (if is_connect then s_req_server_start else s_req_spaces_before_url) None False http_parser_url_init =
      Some (found_at, v)"
    and w: "(if ur_set v UF_HOST then http_parse_host buf found_at v else Some v) = Some w"
    and u: "ur_set u = ur_set w" "ur_off u = ur_off w" "ur_len u = ur_len w"
  note v = url_stage_within [OF l]
  have "within (length buf) f w"
  proof (cases "ur_set v UF_HOST")
    case True
    define v0 where "v0 = v\<lparr>ur_len := (ur_len v)(UF_HOST := 0)\<rparr>"
    define s0 where "s0 = (if found_at then s_http_userinfo_start else s_http_host_start)"
    from w True have "http_parse_host buf found_at v = Some w" by simp
    then obtain s where h: "host_loop (unat (ur_off v UF_HOST)) (field_text UF_HOST buf v) s0 v0 = Some (s, w)"
      unfolding v0_def s0_def by (rule parse_host_stage)
    have "host_inv (length buf) (unat (ur_off v UF_HOST)) s0 v0"
      using v v [OF True] by (auto simp: host_inv_def v0_def s0_def within_def)
    from host_loop_inv [OF h this] v [OF True] field_text_length [OF v [OF True]]
    have "host_inv (length buf) (unat (ur_off v UF_HOST) + length (field_text UF_HOST buf v)) s w" by (simp add: within_def)
    with assms(2) u(1) show ?thesis by (simp add: host_inv_def)
  next
    case False
    with w v assms(2) u(1) show ?thesis by simp
  qed
  then show ?thesis by (simp add: within_def u)
qed

text \<open>A URL with all its fields.\<close>

theorem url_fields_within_witness:
  "let u = the (http_parser_parse_url ''http://me@h:8080/p?q#f'' False)
   in ur_set u UF_FRAGMENT \<and> unat (ur_off u UF_FRAGMENT) + unat (ur_len u UF_FRAGMENT) \<le> 22"
proof -
  define u where "u = the (http_parser_parse_url ''http://me@h:8080/p?q#f'' False)"
  have "http_parser_parse_url ''http://me@h:8080/p?q#f'' False \<noteq> None" "ur_set u UF_FRAGMENT"
    unfolding u_def by code_simp+
  moreover from this have "http_parser_parse_url ''http://me@h:8080/p?q#f'' False = Some u" by (simp add: u_def)
  moreover have "length ''http://me@h:8080/p?q#f'' = 22" by code_simp
  ultimately show ?thesis
    using url_fields_within [of "''http://me@h:8080/p?q#f''" False u UF_FRAGMENT] unfolding u_def [symmetric] Let_def by metis
qed

section \<open>Ports\<close>

definition port_inv :: "string \<Rightarrow> nat \<Rightarrow> host_state \<Rightarrow> http_parser_url \<Rightarrow> bool" where
  "port_inv buf p s u \<longleftrightarrow> (ur_set u UF_PORT \<longleftrightarrow> s = s_http_host_port) \<and>
     (s = s_http_host_port \<longrightarrow> unat (ur_off u UF_PORT) + unat (ur_len u UF_PORT) = p \<and> 0 < unat (ur_len u UF_PORT) \<and>
        list_all IS_NUM (field_text UF_PORT buf u))"

lemma port_from:
  "http_parse_host_char s c = s_http_host_port \<Longrightarrow> IS_NUM c"
  "http_parse_host_char s_http_host_port c \<in> {s_http_host_port, s_http_host_dead}"
  by (cases s; simp add: port_mark_def zone_char_def split: if_splits)+

lemma unat_small: "p < 2 ^ 16 \<Longrightarrow> unat (word_of_nat p :: 16 word) = p"
  by (simp add: unat_of_nat)

lemma unat_suc_small: "unat (w :: 16 word) + 1 < 2 ^ 16 \<Longrightarrow> unat (w + 1) = unat w + 1"
  using unat_small [of "unat w + 1"] by (simp add: add.commute)

lemma port_inv_step:
  assumes inv: "port_inv buf p s u" and n: "n = http_parse_host_char s (buf ! p)" and alive: "n \<noteq> s_http_host_dead"
    and p: "p < length buf" and small: "length buf < 2 ^ 16"
  shows "port_inv buf (p + 1) n (host_note s n p u)"
proof (cases "n = s_http_host_port")
  case False
  then have "s \<noteq> s_http_host_port" using port_from(2) [of "buf ! p"] n alive by auto
  with inv False show ?thesis by (simp add: port_inv_def host_note_set)
next
  case True
  have num: "IS_NUM (buf ! p)" using port_from(1) [OF n [symmetric, unfolded True]] .
  show ?thesis
  proof (cases "s = s_http_host_port")
    case False
    with True num p unat_small [of p] small show ?thesis
      by (simp add: port_inv_def host_note_def field_text_def grow_def begin_field_def take_Suc_conv_app_nth hd_drop_conv_nth)
  next
    case s: True
    have i: "unat (ur_off u UF_PORT) + unat (ur_len u UF_PORT) = p" "list_all IS_NUM (field_text UF_PORT buf u)" "ur_set u UF_PORT"
      using inv s by (auto simp: port_inv_def)
    have "unat (ur_len u UF_PORT + 1) = unat (ur_len u UF_PORT) + 1" by (rule unat_suc_small) (use i(1) p small in linarith)
    moreover have "take (unat (ur_len u UF_PORT) + 1) (drop (unat (ur_off u UF_PORT)) buf) =
        take (unat (ur_len u UF_PORT)) (drop (unat (ur_off u UF_PORT)) buf) @ [buf ! p]"
      using i(1) p by (simp add: take_Suc_conv_app_nth less_diff_conv)
    ultimately show ?thesis
      using True s i num by (simp add: port_inv_def host_note_def field_text_def grow_def)
  qed
qed

lemma host_loop_port:
  assumes "host_loop p cs s u = Some (s', u')" and "port_inv buf p s u" and "cs = take (length cs) (drop p buf)"
    and "p + length cs \<le> length buf" and "length buf < 2 ^ 16"
  shows "port_inv buf (p + length cs) s' u'"
  using assms
proof (induction p cs s u rule: host_loop.induct)
  case (2 p ch cs s u)
  define n where "n = http_parse_host_char s ch"
  have n: "n \<noteq> s_http_host_dead" "host_loop (p + 1) cs n (host_note s n p u) = Some (s', u')"
    using "2.prems"(1) by (auto simp: n_def Let_def split: if_splits)
  have p: "p < length buf" using "2.prems"(4) by simp
  then have d: "drop p buf = buf ! p # drop (p + 1) buf" by (simp add: Cons_nth_drop_Suc)
  have ch: "ch = buf ! p" "cs = take (length cs) (drop (p + 1) buf)" using "2.prems"(3) by (simp_all add: d)
  have "port_inv buf (p + 1) n (host_note s n p u)"
    by (rule port_inv_step [OF "2.prems"(2) _ n(1) p "2.prems"(5)]) (simp add: n_def ch(1))
  from "2.IH" [OF n_def n(1) n(2) this ch(2)] "2.prems"(4,5) show ?case by simp
qed simp

lemma url_loop_no_port:
  "url_loop p cs s old_uf at u = Some (at', u') \<Longrightarrow> \<not> ur_set u UF_PORT \<Longrightarrow> \<not> ur_set u' UF_PORT"
proof (induction p cs s old_uf at u rule: url_loop.induct)
  case (2 p ch cs s old_uf at u)
  define s' where "s' = parse_url_char s ch"
  have "field_of s' \<noteq> Some UF_PORT" by (cases s') simp_all
  with 2 show ?case by (auto simp: s'_def [symmetric] Let_def split: if_splits option.splits)
qed simp

lemma IS_NUM_digit: "IS_NUM c = is_digit c"
  by (simp add: IS_NUM_def is_digit_def code_of_def)

text \<open>The loop over digits computes their number, unless that is too large.\<close>

lemma digits_grow: "n \<le> foldl (\<lambda>n c. 10 * n + digit_val c) n ds"
proof (induction ds arbitrary: n)
  case (Cons d ds)
  have "n \<le> 10 * n + digit_val d" by simp
  with Cons.IH [of "10 * n + digit_val d"] show ?case by simp
qed simp

lemma port_loop_digits:
  "list_all IS_NUM ds \<Longrightarrow> unat v \<le> 0xFFFF \<Longrightarrow>
   port_loop ds v = (let n = foldl (\<lambda>n c. 10 * n + digit_val c) (unat v) ds in if n \<le> 0xFFFF then Some (word_of_nat n) else None)"
proof (induction ds arbitrary: v)
  case (Cons c ds)
  define w where "w = v * 10 + word_of_int (int (code_of c) - 48)"
  have d: "digit_val c \<le> 9" "int (code_of c) - 48 = int (digit_val c)"
    using Cons.prems(1) by (auto simp: IS_NUM_def digit_val_def code_of_def)
  define n where "n = 10 * unat v + digit_val c"
  have "w = word_of_nat n" by (simp add: w_def n_def d(2) mult.commute)
  then have "unat w = n mod 2 ^ 64" by (simp only: unat_of_nat) simp
  also have "\<dots> = 10 * unat v + digit_val c" using Cons.prems(2) d(1) by (simp add: n_def)
  finally have w: "unat w = 10 * unat v + digit_val c" .
  have eq: "port_loop (c # ds) v = (if w > 0xFFFF then None else port_loop ds w)"
    by (simp only: port_loop.simps w_def Let_def)
  have big: "w > 0xFFFF \<longleftrightarrow> unat w > 0xFFFF" by (simp add: word_less_nat_alt)
  show ?case
  proof (cases "w > 0xFFFF")
    case True
    then have "0xFFFF < foldl (\<lambda>n c. 10 * n + digit_val c) (unat w) ds"
      using big digits_grow [of "unat w" ds] by linarith
    with True show ?thesis unfolding eq by (simp add: w Let_def)
  next
    case False
    with Cons.IH [of w] Cons.prems(1) big show ?thesis unfolding eq by (simp add: w Let_def)
  qed
qed simp

lemma stoi_digits:
  assumes "list_all IS_NUM ds" and "ds \<noteq> []" and "read_digits ds \<le> 0xFFFF"
  shows "stoi ds = Inr (int (read_digits ds))"
proof -
  have "takeWhile is_digit ds = ds" using assms(1) by (simp add: takeWhile_eq_all_conv list_all_iff IS_NUM_digit)
  moreover obtain c cs where c: "ds = c # cs" using assms(2) by (cases ds) auto
  moreover have "\<not> is_space c" "c \<noteq> CHR ''-''" "c \<noteq> CHR ''+''"
    using assms(1) c by (auto simp: IS_NUM_def code_of_def is_space_def)
  ultimately show ?thesis using assms(3) by (simp add: stoi_def sto_def split_sign_def in_i32_def)
qed

lemma parsed_port:
  assumes "http_parser_parse_url buf is_connect = Some u" and "ur_set u UF_PORT" and "length buf < 2 ^ 16"
  shows "list_all IS_NUM (field_text UF_PORT buf u) \<and> field_text UF_PORT buf u \<noteq> [] \<and>
    read_digits (field_text UF_PORT buf u) \<le> 0xFFFF \<and> unat (ur_port u) = read_digits (field_text UF_PORT buf u)"
  using assms(1)
proof (rule parse_url_stages)
  fix found_at v w
  assume l: "url_loop 0 buf (if is_connect then s_req_server_start else s_req_spaces_before_url) None False http_parser_url_init =
      Some (found_at, v)"
    and w: "(if ur_set v UF_HOST then http_parse_host buf found_at v else Some v) = Some w"
    and u: "ur_set u = ur_set w" "ur_off u = ur_off w" "ur_len u = ur_len w"
    and n: "ur_set w UF_PORT \<Longrightarrow> \<exists>n. port_loop (field_text UF_PORT buf w) 0 = Some n \<and> ur_port u = ucast n"
  have no: "\<not> ur_set v UF_PORT" by (rule url_loop_no_port [OF l]) (simp add: http_parser_url_init_def)
  with w assms(2) u(1) have host: "ur_set v UF_HOST" by (cases "ur_set v UF_HOST") simp_all
  define v0 where "v0 = v\<lparr>ur_len := (ur_len v)(UF_HOST := 0)\<rparr>"
  define s0 where "s0 = (if found_at then s_http_userinfo_start else s_http_host_start)"
  from w host have "http_parse_host buf found_at v = Some w" by simp
  then obtain s where h: "host_loop (unat (ur_off v UF_HOST)) (field_text UF_HOST buf v) s0 v0 = Some (s, w)"
    unfolding v0_def s0_def by (rule parse_host_stage)
  have len: "length (field_text UF_HOST buf v) = unat (ur_len v UF_HOST)"
    "unat (ur_off v UF_HOST) + unat (ur_len v UF_HOST) \<le> length buf"
    using field_text_length [OF url_stage_within [OF l host]] url_stage_within [OF l host] by (simp_all add: within_def)
  have "port_inv buf (unat (ur_off v UF_HOST)) s0 v0" using no by (simp add: port_inv_def v0_def s0_def)
  then have inv: "port_inv buf (unat (ur_off v UF_HOST) + length (field_text UF_HOST buf v)) s w"
    by (rule host_loop_port [OF h]) (use len assms(3) in \<open>simp_all add: field_text_def\<close>)
  have "ur_set w UF_PORT" using assms(2) u(1) by simp
  then have digits: "list_all IS_NUM (field_text UF_PORT buf w)" "0 < unat (ur_len w UF_PORT)"
    and at_end: "unat (ur_off w UF_PORT) + unat (ur_len w UF_PORT) = unat (ur_off v UF_HOST) + length (field_text UF_HOST buf v)"
    using inv by (simp_all add: port_inv_def)
  have "length (field_text UF_PORT buf w) = unat (ur_len w UF_PORT)"
    by (rule field_text_length) (use at_end len in \<open>simp add: within_def\<close>)
  then have ne: "field_text UF_PORT buf w \<noteq> []" using digits(2) by auto
  obtain k where k: "port_loop (field_text UF_PORT buf w) 0 = Some k" "ur_port u = ucast k"
    using n [OF \<open>ur_set w UF_PORT\<close>] by blast
  define r where "r = read_digits (field_text UF_PORT buf w)"
  have "r \<le> 0xFFFF" "k = word_of_nat r"
    using port_loop_digits [OF digits(1), of 0] k(1) by (auto simp: Let_def read_digits_def [symmetric] r_def split: if_splits)
  moreover from this have "unat (ucast k :: 16 word) = r" by (simp add: unsigned_ucast_eq take_bit_nat_eq_self unat_of_nat)
  ultimately show ?thesis
    using digits ne k(2) by (simp add: field_text_def u r_def)
qed

text \<open>C40: \<open>Uri::Create\<close> of a text below 64 KB never throws: it answers null exactly when the parser refuses the text, and the
  port of what it creates is between 0 and 65535.\<close>

theorem Uri_Create_answers:
  assumes "length url < 2 ^ 16"
  shows "case Uri_Create parse_url_parts url of
      Inl _ \<Rightarrow> False
    | Inr None \<Rightarrow> http_parser_parse_url url False = None
    | Inr (Some r) \<Rightarrow> http_parser_parse_url url False \<noteq> None \<and> 0 \<le> u_port r \<and> u_port r \<le> 0xFFFF"
proof (cases "http_parser_parse_url url False")
  case None
  then show ?thesis by (simp add: Uri_Create_def parse_url_parts_def)
next
  case (Some u)
  show ?thesis
  proof (cases "ur_set u UF_PORT")
    case True
    note p = parsed_port [OF Some True assms]
    from p have "stoi (field_text UF_PORT url u) = Inr (int (read_digits (field_text UF_PORT url u)))"
      by (intro stoi_digits) simp_all
    with p Some True show ?thesis by (simp add: Uri_Create_def parse_url_parts_def parsed_field_def Let_def)
  next
    case False
    with Some show ?thesis by (simp add: Uri_Create_def parse_url_parts_def parsed_field_def Let_def)
  qed
qed

theorem Uri_Create_answers_witness:
  "Uri_Create parse_url_parts ''http://me@h:65536/'' = Inr None \<and>
   (case Uri_Create parse_url_parts ''http://me@h:8080/p?q#f'' of
      Inl _ \<Rightarrow> False | Inr None \<Rightarrow> False | Inr (Some r) \<Rightarrow> u_port r \<le> 0xFFFF)"
proof -
  have "length ''http://me@h:8080/p?q#f'' < 2 ^ 16" by simp
  moreover have "http_parser_parse_url ''http://me@h:8080/p?q#f'' False \<noteq> None" by code_simp
  moreover have "Uri_Create parse_url_parts ''http://me@h:65536/'' = Inr None" by code_simp
  ultimately show ?thesis
    using Uri_Create_answers [of "''http://me@h:8080/p?q#f''"] by (auto split: sum.splits option.splits)
qed

end
