(* ===== verification/UriRoundtrip.thy ===== *)
theory UriRoundtrip
  imports UrlProps
begin

text \<open>
  \<open>Uri::toString\<close> and \<open>Uri::Create\<close>: what is written is read back, part by part. The automata are run over the segments of the
  text; a segment is a run of characters on which the state stays.
\<close>

section \<open>Segments of a URL\<close>

definition more :: "url_field \<Rightarrow> nat \<Rightarrow> http_parser_url \<Rightarrow> http_parser_url" where
  "more f n u = u\<lparr>ur_len := (ur_len u)(f := ur_len u f + word_of_nat n)\<rparr>"

lemma more_0 [simp]: "more f 0 u = u"
  by (simp add: more_def)

lemma more_grow: "more f n (grow f u) = more f (Suc n) u"
  by (simp add: more_def grow_def add.assoc)

lemma more_begin: "more f n (begin_field f p k u) = begin_field f p (k + word_of_nat n) u"
  by (simp add: more_def begin_field_def)

text \<open>The state \<open>s\<close>, which belongs to the field \<open>f\<close>, is kept by the characters of \<open>cs\<close>.\<close>

definition stays :: "url_state \<Rightarrow> string \<Rightarrow> bool" where
  "stays s cs \<longleftrightarrow> list_all (\<lambda>c. parse_url_char s c = s) cs"

lemma url_run:
  assumes "field_of s = Some f" and "s \<noteq> s_req_server_with_at"
  shows "stays s cs \<Longrightarrow> url_loop p (cs @ xs) s (Some f) at u = url_loop (p + length cs) xs s (Some f) at (more f (length cs) u)"
proof (induction cs arbitrary: p u)
  case (Cons c cs)
  then have c: "parse_url_char s c = s" "stays s cs" by (simp_all add: stays_def)
  have "s \<noteq> s_dead" using assms(1) by auto
  with Cons.IH [OF c(2), of "p + 1" "grow f u"] assms c(1) show ?case by (simp add: Let_def more_grow)
qed simp

text \<open>Entering the segment from another field.\<close>

lemma url_segment:
  assumes "parse_url_char s0 c = s" and "field_of s = Some f" and "s \<noteq> s_req_server_with_at" and "old_uf \<noteq> Some f" and "stays s cs"
  shows "url_loop p (c # cs @ xs) s0 old_uf at u =
    url_loop (p + Suc (length cs)) xs s (Some f) at (begin_field f p (word_of_nat (Suc (length cs))) u)"
proof -
  have "s \<noteq> s_dead" using assms(2) by auto
  with url_run [OF assms(2,3,5), of "p + 1" xs at "begin_field f p 1 u"] assms show ?thesis
    by (simp add: Let_def more_begin)
qed

text \<open>A delimiter.\<close>

lemma url_delimiter:
  assumes "parse_url_char s0 c = s" and "field_of s = None" and "s \<noteq> s_dead"
  shows "url_loop p (c # xs) s0 old_uf at u = url_loop (p + 1) xs s old_uf at u"
proof -
  have "s \<noteq> s_req_server_with_at" using assms(2) by auto
  with assms show ?thesis by (simp add: Let_def)
qed

section \<open>Segments of a host\<close>

definition host_stays :: "host_state \<Rightarrow> string \<Rightarrow> bool" where
  "host_stays s cs \<longleftrightarrow> list_all (\<lambda>c. http_parse_host_char s c = s) cs"

lemma host_run:
  assumes "\<And>p u. host_note s s p u = grow f u" and "s \<noteq> s_http_host_dead"
  shows "host_stays s cs \<Longrightarrow> host_loop p (cs @ xs) s u = host_loop (p + length cs) xs s (more f (length cs) u)"
proof (induction cs arbitrary: p u)
  case (Cons c cs)
  then have c: "http_parse_host_char s c = s" "host_stays s cs" by (simp_all add: host_stays_def)
  with Cons.IH [OF c(2), of "p + 1" "grow f u"] assms show ?case by (simp add: Let_def more_grow)
qed simp

lemma host_segment:
  assumes "http_parse_host_char s0 c = s" and "\<And>p u. host_note s s p u = grow f u" and "s \<noteq> s_http_host_dead"
    and "host_note s0 s p u = grow f v" and "host_stays s cs"
  shows "host_loop p (c # cs @ xs) s0 u = host_loop (p + Suc (length cs)) xs s (more f (Suc (length cs)) v)"
  using host_run [OF assms(2,3,5), of "p + 1" xs "grow f v"] assms(1,3,4) by (simp add: Let_def more_grow)

section \<open>Well-formed URIs\<close>

definition scheme_ok :: "string \<Rightarrow> bool" where
  "scheme_ok s \<longleftrightarrow> s \<noteq> [] \<and> list_all IS_ALPHA s"

definition query_char :: "char \<Rightarrow> bool" where
  "query_char c \<longleftrightarrow> IS_URL_CHAR c \<or> c = CHR ''?''"

definition fragment_char :: "char \<Rightarrow> bool" where
  "fragment_char c \<longleftrightarrow> query_char c \<or> c = CHR ''#''"

definition uri_ok :: "uri \<Rightarrow> bool" where
  "uri_ok u \<longleftrightarrow>
     scheme_ok (u_scheme u) \<and> list_all IS_USERINFO_CHAR (u_userinfo u) \<and>
     u_host u \<noteq> [] \<and> list_all IS_HOST_CHAR (u_host u) \<and> 0 \<le> u_port u \<and> u_port u \<le> 0xFFFF \<and>
     u_path u \<noteq> [] \<and> hd (u_path u) = CHR ''/'' \<and> list_all IS_URL_CHAR (u_path u) \<and> list_all query_char (u_query u) \<and>
     (u_fragment u = [] \<or> query_char (hd (u_fragment u))) \<and> list_all fragment_char (u_fragment u) \<and>
     length (uri_toString u) < 2 ^ 16"

lemma url_char_plain:
  assumes "IS_URL_CHAR c"
  shows "c \<noteq> CHR '' ''" "c \<noteq> CHR 0x0D" "c \<noteq> CHR 0x0A" "c \<noteq> CHR 0x09" "c \<noteq> CHR 0x0C"
  using assms by (auto simp: IS_URL_CHAR_def normal_url_char_def code_of_def)

lemma userinfo_char_plain:
  assumes "IS_USERINFO_CHAR c"
  shows "c \<noteq> CHR '' ''" "c \<noteq> CHR 0x0D" "c \<noteq> CHR 0x0A" "c \<noteq> CHR 0x09" "c \<noteq> CHR 0x0C" "c \<noteq> CHR ''/''" "c \<noteq> CHR ''?''" "c \<noteq> CHR ''@''"
  using assms by (auto simp: IS_USERINFO_CHAR_def IS_ALPHANUM_def IS_ALPHA_def IS_NUM_def IS_MARK_def code_of_def)

lemma alpha_plain:
  assumes "IS_ALPHA c"
  shows "c \<noteq> CHR '' ''" "c \<noteq> CHR 0x0D" "c \<noteq> CHR 0x0A" "c \<noteq> CHR 0x09" "c \<noteq> CHR 0x0C" "c \<noteq> CHR ''/''" "c \<noteq> CHR ''*''"
  using assms by (auto simp: IS_ALPHA_def code_of_def)

lemma char_steps:
  "IS_ALPHA c \<Longrightarrow> parse_url_char s_req_spaces_before_url c = s_req_schema"
  "IS_ALPHA c \<Longrightarrow> parse_url_char s_req_schema c = s_req_schema"
  "IS_USERINFO_CHAR c \<Longrightarrow> parse_url_char s_req_server_start c = s_req_server"
  "IS_USERINFO_CHAR c \<Longrightarrow> parse_url_char s_req_server c = s_req_server"
  "IS_USERINFO_CHAR c \<Longrightarrow> parse_url_char s_req_server_with_at c = s_req_server"
  "IS_URL_CHAR c \<Longrightarrow> parse_url_char s_req_path c = s_req_path"
  "query_char c \<Longrightarrow> parse_url_char s_req_query_string_start c = s_req_query_string"
  "query_char c \<Longrightarrow> parse_url_char s_req_query_string c = s_req_query_string"
  "query_char c \<Longrightarrow> parse_url_char s_req_fragment_start c = s_req_fragment"
  "fragment_char c \<Longrightarrow> parse_url_char s_req_fragment c = s_req_fragment"
  using url_char_plain [of c] userinfo_char_plain [of c] alpha_plain [of c]
  by (auto simp: parse_url_char_def server_char_def query_char_def fragment_char_def)

lemma delimiter_steps:
  "parse_url_char s_req_schema CHR '':'' = s_req_schema_slash"
  "parse_url_char s_req_schema_slash CHR ''/'' = s_req_schema_slash_slash"
  "parse_url_char s_req_schema_slash_slash CHR ''/'' = s_req_server_start"
  "parse_url_char s_req_server CHR ''@'' = s_req_server_with_at"
  "parse_url_char s_req_server CHR ''/'' = s_req_path"
  "parse_url_char s_req_path CHR ''?'' = s_req_query_string_start"
  "parse_url_char s_req_path CHR ''#'' = s_req_fragment_start"
  "parse_url_char s_req_query_string CHR ''#'' = s_req_fragment_start"
  by code_simp+

lemma host_userinfo: "IS_HOST_CHAR c \<Longrightarrow> IS_USERINFO_CHAR c"
  by (auto simp: IS_HOST_CHAR_def IS_USERINFO_CHAR_def IS_MARK_def)

section \<open>The parts of a URL\<close>

lemma stays_all: "list_all P cs \<Longrightarrow> (\<And>c. P c \<Longrightarrow> parse_url_char s c = s) \<Longrightarrow> stays s cs"
  by (auto simp: stays_def list_all_iff)

lemma grow_begin: "grow f (begin_field f p k u) = begin_field f p (k + 1) u"
  by (simp add: grow_def begin_field_def)

lemma scheme_part:
  assumes "scheme_ok sch"
  shows "url_loop 0 (sch @ ''://'' @ xs) s_req_spaces_before_url None at u =
    url_loop (length sch + 3) xs s_req_server_start (Some UF_SCHEMA) at (begin_field UF_SCHEMA 0 (word_of_nat (length sch)) u)"
proof -
  obtain c cs where sch: "sch = c # cs" "IS_ALPHA c" "list_all IS_ALPHA cs" using assms by (cases sch) (auto simp: scheme_ok_def)
  have st: "stays s_req_schema cs" by (rule stays_all [OF sch(3)]) (rule char_steps(2))
  define v where "v = begin_field UF_SCHEMA 0 (word_of_nat (length sch)) u"
  have "url_loop 0 (sch @ ''://'' @ xs) s_req_spaces_before_url None at u =
      url_loop (length sch) (''://'' @ xs) s_req_schema (Some UF_SCHEMA) at v"
    using url_segment [OF char_steps(1) [OF sch(2)] _ _ _ st, of UF_SCHEMA None 0 "''://'' @ xs" at u]
    by (simp add: sch(1) v_def del: url_loop.simps)
  also have "\<dots> = url_loop (length sch + 1) (''//'' @ xs) s_req_schema_slash (Some UF_SCHEMA) at v"
    using url_delimiter [OF delimiter_steps(1), of "length sch" "''//'' @ xs"] by (simp del: url_loop.simps)
  also have "\<dots> = url_loop (length sch + 2) (''/'' @ xs) s_req_schema_slash_slash (Some UF_SCHEMA) at v"
    using url_delimiter [OF delimiter_steps(2), of "length sch + 1" "''/'' @ xs"] by (simp del: url_loop.simps)
  also have "\<dots> = url_loop (length sch + 3) xs s_req_server_start (Some UF_SCHEMA) at v"
    using url_delimiter [OF delimiter_steps(3), of "length sch + 2" xs] by (simp add: numeral_3_eq_3 del: url_loop.simps)
  finally show ?thesis by (simp add: v_def)
qed

definition authority :: "string \<Rightarrow> string \<Rightarrow> string" where
  "authority ui hp = (if ui = [] then hp else ui @ ''@'' @ hp)"

lemma authority_part:
  assumes "list_all IS_USERINFO_CHAR ui" and "list_all IS_USERINFO_CHAR hp" and "hp \<noteq> []"
  shows "url_loop p (authority ui hp @ xs) s_req_server_start (Some UF_SCHEMA) False u =
    url_loop (p + length (authority ui hp)) xs s_req_server (Some UF_HOST) (ui \<noteq> [])
      (begin_field UF_HOST p (word_of_nat (length (authority ui hp))) u)"
proof -
  obtain d ds where hp: "hp = d # ds" "IS_USERINFO_CHAR d" "list_all IS_USERINFO_CHAR ds" using assms(2,3) by (cases hp) auto
  have hs: "stays s_req_server ds" by (rule stays_all [OF hp(3)]) (rule char_steps(4))
  show ?thesis
  proof (cases ui)
    case Nil
    with url_segment [OF char_steps(3) [OF hp(2)] _ _ _ hs, of UF_HOST "Some UF_SCHEMA" p xs False u] show ?thesis
      by (simp add: authority_def hp(1) del: url_loop.simps)
  next
    case (Cons c cs)
    have c: "IS_USERINFO_CHAR c" "list_all IS_USERINFO_CHAR cs" using assms(1) Cons by simp_all
    have us: "stays s_req_server cs" by (rule stays_all [OF c(2)]) (rule char_steps(4))
    define q where "q = p + length ui"
    define v where "v = begin_field UF_HOST p (word_of_nat (length ui)) u"
    have "url_loop p (ui @ ''@'' @ hp @ xs) s_req_server_start (Some UF_SCHEMA) False u =
        url_loop q (''@'' @ hp @ xs) s_req_server (Some UF_HOST) False v"
      using url_segment [OF char_steps(3) [OF c(1)] _ _ _ us, of UF_HOST "Some UF_SCHEMA" p "''@'' @ hp @ xs" False u]
      by (simp add: Cons q_def v_def del: url_loop.simps)
    also have "\<dots> = url_loop (q + 1) (hp @ xs) s_req_server_with_at (Some UF_HOST) True (grow UF_HOST v)"
      using delimiter_steps(4) by (simp add: Let_def)
    also have "\<dots> = url_loop (q + 2) (ds @ xs) s_req_server (Some UF_HOST) True (grow UF_HOST (grow UF_HOST v))"
      using char_steps(5) [OF hp(2)] by (simp add: hp(1) Let_def)
    also have "\<dots> = url_loop (q + 2 + length ds) xs s_req_server (Some UF_HOST) True
        (more UF_HOST (length ds) (grow UF_HOST (grow UF_HOST v)))"
      by (rule url_run [OF _ _ hs]) simp_all
    also have "more UF_HOST (length ds) (grow UF_HOST (grow UF_HOST v)) = begin_field UF_HOST p (word_of_nat (length (authority ui hp))) u"
      using Cons by (simp add: v_def grow_begin more_begin authority_def hp(1) add.assoc)
    finally show ?thesis using Cons by (simp add: authority_def hp(1) q_def add.assoc del: url_loop.simps)
  qed
qed

lemma path_part:
  assumes "pa \<noteq> []" and "hd pa = CHR ''/''" and "list_all IS_URL_CHAR pa"
  shows "url_loop p (pa @ xs) s_req_server (Some UF_HOST) at u =
    url_loop (p + length pa) xs s_req_path (Some UF_PATH) at (begin_field UF_PATH p (word_of_nat (length pa)) u)"
proof -
  obtain cs where pa: "pa = CHR ''/'' # cs" "list_all IS_URL_CHAR cs" using assms by (cases pa) auto
  have st: "stays s_req_path cs" by (rule stays_all [OF pa(2)]) (rule char_steps(6))
  show ?thesis
    using url_segment [OF delimiter_steps(5) _ _ _ st, of UF_PATH "Some UF_HOST" p xs at u] by (simp add: pa(1) del: url_loop.simps)
qed

lemma query_part:
  assumes "list_all query_char q"
  shows "url_loop p (marked ''?'' q @ xs) s_req_path (Some UF_PATH) at u =
    url_loop (p + length (marked ''?'' q)) xs (if q = [] then s_req_path else s_req_query_string)
      (Some (if q = [] then UF_PATH else UF_QUERY)) at (if q = [] then u else begin_field UF_QUERY (p + 1) (word_of_nat (length q)) u)"
proof (cases q)
  case Nil
  then show ?thesis by (simp add: marked_def)
next
  case (Cons c cs)
  have c: "query_char c" "list_all query_char cs" using assms Cons by simp_all
  have st: "stays s_req_query_string cs" by (rule stays_all [OF c(2)]) (rule char_steps(8))
  have "url_loop p (marked ''?'' q @ xs) s_req_path (Some UF_PATH) at u = url_loop (p + 1) (q @ xs) s_req_query_string_start (Some UF_PATH) at u"
    using url_delimiter [OF delimiter_steps(6), of p "q @ xs"] Cons by (simp add: marked_def del: url_loop.simps)
  also have "\<dots> = url_loop (p + 1 + length q) xs s_req_query_string (Some UF_QUERY) at (begin_field UF_QUERY (p + 1) (word_of_nat (length q)) u)"
    using url_segment [OF char_steps(7) [OF c(1)] _ _ _ st, of UF_QUERY "Some UF_PATH" "p + 1" xs at u]
    by (simp add: Cons del: url_loop.simps)
  finally show ?thesis using Cons by (simp add: marked_def del: url_loop.simps)
qed

lemma fragment_part:
  assumes "fr = [] \<or> query_char (hd fr)" and "list_all fragment_char fr" and "s = s_req_path \<or> s = s_req_query_string"
    and "old_uf \<noteq> Some UF_FRAGMENT"
  shows "url_loop p (marked ''#'' fr) s old_uf at u =
    Some (at, if fr = [] then u else begin_field UF_FRAGMENT (p + 1) (word_of_nat (length fr)) u)"
proof (cases fr)
  case Nil
  then show ?thesis by (simp add: marked_def)
next
  case (Cons c cs)
  have c: "query_char c" "list_all fragment_char cs" using assms(1,2) Cons by simp_all
  have st: "stays s_req_fragment cs" by (rule stays_all [OF c(2)]) (rule char_steps(10))
  have d: "parse_url_char s CHR ''#'' = s_req_fragment_start" using assms(3) delimiter_steps(7,8) by auto
  have "url_loop p (marked ''#'' fr) s old_uf at u = url_loop (p + 1) fr s_req_fragment_start old_uf at u"
    using url_delimiter [OF d, of p fr] Cons by (simp add: marked_def del: url_loop.simps)
  also have "\<dots> = url_loop (p + 1 + length fr) [] s_req_fragment (Some UF_FRAGMENT) at
      (begin_field UF_FRAGMENT (p + 1) (word_of_nat (length fr)) u)"
    using url_segment [OF char_steps(9) [OF c(1)] _ _ _ st, of UF_FRAGMENT old_uf "p + 1" "[]" at u] assms(4)
    by (simp add: Cons del: url_loop.simps)
  finally show ?thesis using Cons by simp
qed

section \<open>The parts of a host\<close>

lemma host_stays_all: "list_all P cs \<Longrightarrow> (\<And>c. P c \<Longrightarrow> http_parse_host_char s c = s) \<Longrightarrow> host_stays s cs"
  by (auto simp: host_stays_def list_all_iff)

lemma host_steps:
  "IS_USERINFO_CHAR c \<Longrightarrow> http_parse_host_char s_http_userinfo_start c = s_http_userinfo"
  "IS_USERINFO_CHAR c \<Longrightarrow> http_parse_host_char s_http_userinfo c = s_http_userinfo"
  "IS_HOST_CHAR c \<Longrightarrow> http_parse_host_char s_http_host_start c = s_http_host"
  "IS_HOST_CHAR c \<Longrightarrow> http_parse_host_char s_http_host c = s_http_host"
  "IS_NUM c \<Longrightarrow> http_parse_host_char s_http_host_port_start c = s_http_host_port"
  "IS_NUM c \<Longrightarrow> http_parse_host_char s_http_host_port c = s_http_host_port"
  using userinfo_char_plain(8) [of c]
  by (auto simp: IS_HOST_CHAR_def IS_ALPHANUM_def IS_ALPHA_def IS_NUM_def code_of_def)

lemma userinfo_part:
  assumes "list_all IS_USERINFO_CHAR ui" and "ui \<noteq> []"
  shows "host_loop p (ui @ ''@'' @ xs) s_http_userinfo_start u =
    host_loop (p + length ui + 1) xs s_http_host_start (begin_field UF_USERINFO p (word_of_nat (length ui)) u)"
proof -
  obtain c cs where ui: "ui = c # cs" "IS_USERINFO_CHAR c" "list_all IS_USERINFO_CHAR cs" using assms by (cases ui) auto
  have st: "host_stays s_http_userinfo cs" by (rule host_stays_all [OF ui(3)]) (rule host_steps(2))
  have "host_loop p (ui @ ''@'' @ xs) s_http_userinfo_start u =
      host_loop (p + length ui) (''@'' @ xs) s_http_userinfo (more UF_USERINFO (length ui) (begin_field UF_USERINFO p 0 u))"
    using host_segment [OF host_steps(1) [OF ui(2)] _ _ _ st, of UF_USERINFO p u "begin_field UF_USERINFO p 0 u" "''@'' @ xs"]
    by (simp add: ui(1) host_note_def del: host_loop.simps)
  then show ?thesis by (simp add: more_begin host_note_def)
qed

lemma name_part:
  assumes "list_all IS_HOST_CHAR h" and "h \<noteq> []"
  shows "host_loop p (h @ xs) s_http_host_start u =
    host_loop (p + length h) xs s_http_host (more UF_HOST (length h) (u\<lparr>ur_off := (ur_off u)(UF_HOST := word_of_nat p)\<rparr>))"
proof -
  obtain c cs where h: "h = c # cs" "IS_HOST_CHAR c" "list_all IS_HOST_CHAR cs" using assms by (cases h) auto
  have st: "host_stays s_http_host cs" by (rule host_stays_all [OF h(3)]) (rule host_steps(4))
  show ?thesis
    using host_segment [OF host_steps(3) [OF h(2)] _ _ _ st, of UF_HOST p u "u\<lparr>ur_off := (ur_off u)(UF_HOST := word_of_nat p)\<rparr>" xs]
    by (simp add: h(1) host_note_def del: host_loop.simps)
qed

lemma port_part:
  assumes "list_all IS_NUM ds"
  shows "host_loop p (marked '':'' ds) s_http_host u =
    Some (if ds = [] then (s_http_host, u) else (s_http_host_port, begin_field UF_PORT (p + 1) (word_of_nat (length ds)) u))"
proof (cases ds)
  case Nil
  then show ?thesis by (simp add: marked_def)
next
  case (Cons c cs)
  have c: "IS_NUM c" "list_all IS_NUM cs" using assms Cons by simp_all
  have st: "host_stays s_http_host_port cs" by (rule host_stays_all [OF c(2)]) (rule host_steps(6))
  have "http_parse_host_char s_http_host CHR '':'' = s_http_host_port_start" by code_simp
  then have "host_loop p (marked '':'' ds) s_http_host u = host_loop (p + 1) ds s_http_host_port_start u"
    using Cons by (simp add: marked_def Let_def host_note_def)
  also have "\<dots> = host_loop (p + 1 + length ds) [] s_http_host_port (more UF_PORT (length ds) (begin_field UF_PORT (p + 1) 0 u))"
    using host_segment [OF host_steps(5) [OF c(1)] _ _ _ st, of UF_PORT "p + 1" u "begin_field UF_PORT (p + 1) 0 u" "[]"]
    by (simp add: Cons host_note_def del: host_loop.simps)
  finally show ?thesis using Cons by (simp add: more_begin)
qed

section \<open>The whole\<close>

lemma field_text_at:
  assumes "buf = xs @ ys @ zs" and "length buf < 2 ^ 16"
    and "ur_off u f = word_of_nat (length xs)" and "ur_len u f = word_of_nat (length ys)"
  shows "field_text f buf u = ys"
proof -
  have "length xs < 2 ^ 16" "length ys < 2 ^ 16" using assms(1,2) by simp_all
  then show ?thesis using assms by (simp only: field_text_def unat_small) simp
qed

lemma begin_more_fields [simp]:
  "ur_off (begin_field f p n u) g = (if g = f then word_of_nat p else ur_off u g)"
  "ur_len (begin_field f p n u) g = (if g = f then n else ur_len u g)"
  "ur_off (more f m u) = ur_off u" "ur_set (more f m u) = ur_set u"
  "ur_len (more f m u) g = (if g = f then ur_len u f + word_of_nat m else ur_len u g)"
  by (simp_all add: begin_field_def more_def)

lemma init_fields [simp]: "ur_set http_parser_url_init f = False"
  by (simp add: http_parser_url_init_def)

definition url_text :: "string \<Rightarrow> string \<Rightarrow> string \<Rightarrow> string \<Rightarrow> string \<Rightarrow> string \<Rightarrow> string" where
  "url_text sch ui hp pa q fr = sch @ ''://'' @ authority ui hp @ pa @ marked ''?'' q @ marked ''#'' fr"

text \<open>What the first loop notes.\<close>

definition first_pass :: "string \<Rightarrow> string \<Rightarrow> string \<Rightarrow> string \<Rightarrow> string \<Rightarrow> string \<Rightarrow> http_parser_url" where
  "first_pass sch ui hp pa q fr =
     (let oh = length sch + 3; op = oh + length (authority ui hp); oq = op + length pa;
          v = begin_field UF_PATH op (word_of_nat (length pa)) (begin_field UF_HOST oh (word_of_nat (length (authority ui hp)))
            (begin_field UF_SCHEMA 0 (word_of_nat (length sch)) http_parser_url_init));
          v = (if q = [] then v else begin_field UF_QUERY (oq + 1) (word_of_nat (length q)) v)
      in if fr = [] then v else begin_field UF_FRAGMENT (oq + length (marked ''?'' q) + 1) (word_of_nat (length fr)) v)"

lemma first_loop:
  assumes "scheme_ok sch" and "list_all IS_USERINFO_CHAR ui" and "list_all IS_USERINFO_CHAR hp" and "hp \<noteq> []"
    and "pa \<noteq> []" and "hd pa = CHR ''/''" and "list_all IS_URL_CHAR pa" and "list_all query_char q"
    and "fr = [] \<or> query_char (hd fr)" and "list_all fragment_char fr"
  shows "url_loop 0 (url_text sch ui hp pa q fr) s_req_spaces_before_url None False http_parser_url_init =
    Some (ui \<noteq> [], first_pass sch ui hp pa q fr)"
proof -
  have e: "(if q = [] then s_req_path else s_req_query_string) = s_req_path \<or> (if q = [] then s_req_path else s_req_query_string) = s_req_query_string"
    "Some (if q = [] then UF_PATH else UF_QUERY) \<noteq> Some UF_FRAGMENT" by simp_all
  show ?thesis
    unfolding url_text_def scheme_part [OF assms(1)] authority_part [OF assms(2-4)] path_part [OF assms(5-7)]
      query_part [OF assms(8)] fragment_part [OF assms(9,10) e] first_pass_def Let_def by simp
qed

text \<open>The host.\<close>

lemma host_pass:
  assumes "list_all IS_USERINFO_CHAR ui" and "list_all IS_HOST_CHAR h" and "h \<noteq> []" and "list_all IS_NUM ds" and "ur_len v0 UF_HOST = 0"
    and "oh' = oh + (if ui = [] then 0 else length ui + 1)"
  shows "\<exists>s w. host_loop oh (authority ui (h @ marked '':'' ds)) (if ui \<noteq> [] then s_http_userinfo_start else s_http_host_start) v0 = Some (s, w) \<and>
    (s = s_http_host \<or> s = s_http_host_port) \<and>
    ur_off w UF_HOST = word_of_nat oh' \<and> ur_len w UF_HOST = word_of_nat (length h) \<and>
    (ur_set w UF_PORT \<longleftrightarrow> ur_set v0 UF_PORT \<or> ds \<noteq> []) \<and> (ur_set w UF_USERINFO \<longleftrightarrow> ur_set v0 UF_USERINFO \<or> ui \<noteq> []) \<and>
    (ds \<noteq> [] \<longrightarrow> ur_off w UF_PORT = word_of_nat (oh' + length h + 1) \<and> ur_len w UF_PORT = word_of_nat (length ds)) \<and>
    (ui \<noteq> [] \<longrightarrow> ur_off w UF_USERINFO = word_of_nat oh \<and> ur_len w UF_USERINFO = word_of_nat (length ui)) \<and>
    (\<forall>f. f \<notin> {UF_HOST, UF_PORT, UF_USERINFO} \<longrightarrow> ur_set w f = ur_set v0 f \<and> ur_off w f = ur_off v0 f \<and> ur_len w f = ur_len v0 f) \<and>
    ur_set w UF_HOST = ur_set v0 UF_HOST"
proof -
  define v1 where "v1 = (if ui = [] then v0 else begin_field UF_USERINFO oh (word_of_nat (length ui)) v0)"
  define v2 where "v2 = more UF_HOST (length h) (v1\<lparr>ur_off := (ur_off v1)(UF_HOST := word_of_nat oh')\<rparr>)"
  have "host_loop oh (authority ui (h @ marked '':'' ds)) (if ui \<noteq> [] then s_http_userinfo_start else s_http_host_start) v0 =
      host_loop oh' (h @ marked '':'' ds) s_http_host_start v1"
    using userinfo_part [OF assms(1), of oh "h @ marked '':'' ds" v0] by (simp add: authority_def assms(6) v1_def add.assoc)
  also have "\<dots> = host_loop (oh' + length h) (marked '':'' ds) s_http_host v2"
    by (simp only: name_part [OF assms(2,3)] v2_def)
  finally show ?thesis
    unfolding port_part [OF assms(4)] using assms(5) by (auto simp: v1_def v2_def)
qed

lemma parse_url_text:
  assumes "scheme_ok sch" and "list_all IS_USERINFO_CHAR ui" and "list_all IS_HOST_CHAR h" and "h \<noteq> []" and "list_all IS_NUM ds"
    and "pa \<noteq> []" and "hd pa = CHR ''/''" and "list_all IS_URL_CHAR pa" and "list_all query_char q"
    and "fr = [] \<or> query_char (hd fr)" and "list_all fragment_char fr" and "read_digits ds \<le> 0xFFFF"
    and small: "length (url_text sch ui (h @ marked '':'' ds) pa q fr) < 2 ^ 16"
  shows "parse_url_parts (url_text sch ui (h @ marked '':'' ds) pa q fr) =
    Some \<lparr>up_schema = Some sch, up_userinfo = (if ui = [] then None else Some ui), up_host = Some h,
      up_port = (if ds = [] then None else Some ds), up_path = Some pa, up_query = (if q = [] then None else Some q),
      up_fragment = (if fr = [] then None else Some fr)\<rparr>"
proof -
  define hp where "hp = h @ marked '':'' ds"
  define T where "T = url_text sch ui hp pa q fr"
  define oh where "oh = length sch + 3"
  define oh' where "oh' = oh + (if ui = [] then 0 else length ui + 1)"
  define v where "v = first_pass sch ui hp pa q fr"
  define v0 where "v0 = v\<lparr>ur_len := (ur_len v)(UF_HOST := 0)\<rparr>"
  have hp: "list_all IS_USERINFO_CHAR hp" "hp \<noteq> []"
    using assms(3,4,5) host_userinfo by (auto simp: hp_def marked_def list_all_iff IS_USERINFO_CHAR_def IS_ALPHANUM_def)
  have l: "url_loop 0 T s_req_spaces_before_url None False http_parser_url_init = Some (ui \<noteq> [], v)"
    unfolding T_def v_def by (rule first_loop [OF assms(1,2) hp assms(6-11)])
  have T: "length T < 2 ^ 16" using small by (simp add: T_def hp_def)
  have v: "ur_set v UF_SCHEMA" "ur_set v UF_HOST" "\<not> ur_set v UF_PORT" "\<not> ur_set v UF_USERINFO" "ur_set v UF_PATH"
    "ur_set v UF_QUERY \<longleftrightarrow> q \<noteq> []" "ur_set v UF_FRAGMENT \<longleftrightarrow> fr \<noteq> []"
    "ur_off v UF_HOST = word_of_nat oh" "ur_len v UF_HOST = word_of_nat (length (authority ui hp))"
    by (simp_all add: v_def first_pass_def Let_def oh_def)
  have "field_text UF_HOST T v = authority ui hp"
    by (rule field_text_at [where xs = "sch @ ''://''" and zs = "pa @ marked ''?'' q @ marked ''#'' fr"])
      (use T v in \<open>simp_all add: T_def url_text_def oh_def\<close>)
  moreover have "unat (ur_off v UF_HOST) = oh" unfolding v(8) by (rule unat_small) (use T in \<open>simp add: T_def url_text_def oh_def\<close>)
  moreover obtain s w where w: "host_loop oh (authority ui hp) (if ui \<noteq> [] then s_http_userinfo_start else s_http_host_start) v0 = Some (s, w)"
    "s = s_http_host \<or> s = s_http_host_port" "ur_off w UF_HOST = word_of_nat oh'" "ur_len w UF_HOST = word_of_nat (length h)"
    "ur_set w UF_PORT \<longleftrightarrow> ds \<noteq> []" "ur_set w UF_USERINFO \<longleftrightarrow> ui \<noteq> []"
    "ds \<noteq> [] \<longrightarrow> ur_off w UF_PORT = word_of_nat (oh' + length h + 1) \<and> ur_len w UF_PORT = word_of_nat (length ds)"
    "ui \<noteq> [] \<longrightarrow> ur_off w UF_USERINFO = word_of_nat oh \<and> ur_len w UF_USERINFO = word_of_nat (length ui)"
    "\<And>f. f \<notin> {UF_HOST, UF_PORT, UF_USERINFO} \<Longrightarrow> ur_set w f = ur_set v f \<and> ur_off w f = ur_off v f \<and> ur_len w f = ur_len v f"
    "ur_set w UF_HOST"
  proof -
    have "ur_len v0 UF_HOST = 0" by (simp add: v0_def)
    moreover have v0: "ur_set v0 = ur_set v" "ur_off v0 = ur_off v" "\<And>f. f \<noteq> UF_HOST \<Longrightarrow> ur_len v0 f = ur_len v f"
      by (simp_all add: v0_def)
    ultimately obtain s w where h: "host_loop oh (authority ui hp) (if ui \<noteq> [] then s_http_userinfo_start else s_http_host_start) v0 = Some (s, w)"
      and r: "s = s_http_host \<or> s = s_http_host_port" "ur_off w UF_HOST = word_of_nat oh'" "ur_len w UF_HOST = word_of_nat (length h)"
        "ur_set w UF_PORT \<longleftrightarrow> ur_set v0 UF_PORT \<or> ds \<noteq> []" "ur_set w UF_USERINFO \<longleftrightarrow> ur_set v0 UF_USERINFO \<or> ui \<noteq> []"
        "ds \<noteq> [] \<longrightarrow> ur_off w UF_PORT = word_of_nat (oh' + length h + 1) \<and> ur_len w UF_PORT = word_of_nat (length ds)"
        "ui \<noteq> [] \<longrightarrow> ur_off w UF_USERINFO = word_of_nat oh \<and> ur_len w UF_USERINFO = word_of_nat (length ui)"
        "\<forall>f. f \<notin> {UF_HOST, UF_PORT, UF_USERINFO} \<longrightarrow> ur_set w f = ur_set v0 f \<and> ur_off w f = ur_off v0 f \<and> ur_len w f = ur_len v0 f"
        "ur_set w UF_HOST = ur_set v0 UF_HOST"
      using host_pass [OF assms(2,3,4,5) _ oh'_def, of v0, folded hp_def] by blast
    show ?thesis
      by (rule that [OF h r(1-3) _ _ r(6,7)]) (use r(4,5,8,9) v v0 in auto)
  qed
  ultimately have host: "http_parse_host T (ui \<noteq> []) v = Some w"
    by (auto simp: http_parse_host_def v0_def)
  have schema: "field_text UF_SCHEMA T w = sch"
    by (rule field_text_at [where xs = "[]" and zs = "''://'' @ authority ui hp @ pa @ marked ''?'' q @ marked ''#'' fr"])
      (use T w(9) in \<open>simp_all add: T_def url_text_def v_def first_pass_def Let_def\<close>)
  have hostf: "field_text UF_HOST T w = h"
    by (rule field_text_at [where xs = "sch @ ''://'' @ (if ui = [] then [] else ui @ ''@'')" and
          zs = "marked '':'' ds @ pa @ marked ''?'' q @ marked ''#'' fr"])
      (use T w(3,4) in \<open>simp_all add: T_def url_text_def authority_def hp_def oh'_def oh_def\<close>)
  have user: "field_text UF_USERINFO T w = ui" if "ui \<noteq> []"
    by (rule field_text_at [where xs = "sch @ ''://''" and zs = "''@'' @ hp @ pa @ marked ''?'' q @ marked ''#'' fr"])
      (use T w(8) that in \<open>simp_all add: T_def url_text_def authority_def oh_def\<close>)
  have port: "field_text UF_PORT T w = ds" if "ds \<noteq> []"
    by (rule field_text_at [where xs = "sch @ ''://'' @ (if ui = [] then [] else ui @ ''@'') @ h @ '':''" and
          zs = "pa @ marked ''?'' q @ marked ''#'' fr"])
      (use T w(7) that in \<open>simp_all add: T_def url_text_def authority_def hp_def marked_def oh'_def oh_def\<close>)
  have path: "field_text UF_PATH T w = pa"
    by (rule field_text_at [where xs = "sch @ ''://'' @ authority ui hp" and zs = "marked ''?'' q @ marked ''#'' fr"])
      (use T w(9) in \<open>simp_all add: T_def url_text_def v_def first_pass_def Let_def\<close>)
  have query: "field_text UF_QUERY T w = q" if "q \<noteq> []"
    by (rule field_text_at [where xs = "sch @ ''://'' @ authority ui hp @ pa @ ''?''" and zs = "marked ''#'' fr"])
      (use T w(9) that in \<open>simp_all add: T_def url_text_def v_def first_pass_def Let_def marked_def\<close>)
  have fragment: "field_text UF_FRAGMENT T w = fr" if "fr \<noteq> []"
    by (rule field_text_at [where xs = "sch @ ''://'' @ authority ui hp @ pa @ marked ''?'' q @ ''#''" and zs = "[]"])
      (use T w(9) that in \<open>simp_all add: T_def url_text_def v_def first_pass_def Let_def marked_def\<close>)
  have "port_loop (field_text UF_PORT T w) 0 = Some (word_of_nat (read_digits ds))" if "ds \<noteq> []"
    using port_loop_digits [OF assms(5), of 0] assms(12) by (simp add: port [OF that] read_digits_def Let_def)
  then obtain x where "http_parser_parse_url T False = Some x" "ur_set x = ur_set w" "\<And>f. field_text f T x = field_text f T w"
    using l host v(1,2) w(5) assms(1)
    by (cases "ds = []") (auto simp: http_parser_parse_url_def field_text_def T_def url_text_def scheme_ok_def)
  then show ?thesis
    using schema hostf user port path query fragment w(5,6,9,10) v
    by (simp add: parse_url_parts_def parsed_field_def T_def hp_def)
qed

text \<open>C9: a URI that is written out is read back as it was: scheme, user, host, port, path, query and fragment, with the port
  left out where it is the default of the scheme, for every URI below 64 KB whose parts are made of the characters allowed there.\<close>

theorem uri_read_back:
  assumes "uri_ok u"
  shows "Uri_Create parse_url_parts (uri_toString u) = Inr (Some u)"
proof -
  define ds where "ds = (if isDefaultPort u then [] else show_int (u_port u))"
  have u: "scheme_ok (u_scheme u)" "list_all IS_USERINFO_CHAR (u_userinfo u)" "list_all IS_HOST_CHAR (u_host u)" "u_host u \<noteq> []"
    "u_path u \<noteq> []" "hd (u_path u) = CHR ''/''" "list_all IS_URL_CHAR (u_path u)" "list_all query_char (u_query u)"
    "u_fragment u = [] \<or> query_char (hd (u_fragment u))" "list_all fragment_char (u_fragment u)"
    "0 \<le> u_port u" "u_port u \<le> 0xFFFF" "length (uri_toString u) < 2 ^ 16"
    using assms by (simp_all add: uri_ok_def)
  have digits: "show_int (u_port u) = show_nat (nat (u_port u))" using u(11) by (simp add: show_int_def)
  have ds: "list_all IS_NUM ds" "read_digits ds \<le> 0xFFFF"
    using show_nat_digits u(11,12) by (auto simp: ds_def digits list_all_iff IS_NUM_digit read_digits_def)
       (metis nat_le_iff of_nat_numeral read_digits_def read_digits_show_nat)
  have show_int_ne: "show_int (u_port u) \<noteq> []" by (simp add: digits)
  have t: "uri_toString u = url_text (u_scheme u) (u_userinfo u) (u_host u @ marked '':'' ds) (u_path u) (u_query u) (u_fragment u)"
    using u(5) show_int_ne by (simp add: uri_toString_def url_text_def authority_def marked_def ds_def uri_getPath_def)
  have p: "parse_url_parts (uri_toString u) =
      Some \<lparr>up_schema = Some (u_scheme u), up_userinfo = (if u_userinfo u = [] then None else Some (u_userinfo u)),
        up_host = Some (u_host u), up_port = (if ds = [] then None else Some ds), up_path = Some (u_path u),
        up_query = (if u_query u = [] then None else Some (u_query u)),
        up_fragment = (if u_fragment u = [] then None else Some (u_fragment u))\<rparr>"
    unfolding t by (rule parse_url_text [OF u(1-4) ds(1) u(5-10) ds(2)]) (use u(13) t in simp)
  have given: "given (if x = [] then None else Some x) = x" for x by (simp add: given_def)
  show ?thesis
  proof (cases "isDefaultPort u")
    case True
    then have "u_port u = (if u_scheme u = ''http'' \<or> u_scheme u = ''ws'' then 80 else if u_scheme u = ''https'' then 443 else 0)"
      by (auto simp: isDefaultPort_def split: if_splits)
    with p True show ?thesis using show_int_ne by (simp add: Uri_Create_def ds_def given given_def [of "Some _"] Let_def)
  next
    case False
    have "in_i32 (u_port u)" using u(11,12) by (simp add: in_i32_def)
    with p False show ?thesis using show_int_ne by (simp add: Uri_Create_def ds_def given given_def [of "Some _"] Let_def)
  qed
qed

theorem uri_read_back_witness:
  "let u = \<lparr>u_scheme = ''ws'', u_userinfo = ''me:x'', u_host = ''a-b.org'', u_port = 81, u_path = ''/p/q'', u_query = ''k=v?'',
       u_fragment = ''s#1''\<rparr>
   in uri_toString u = ''ws://me:x@a-b.org:81/p/q?k=v?#s#1'' \<and> Uri_Create parse_url_parts (uri_toString u) = Inr (Some u)"
proof -
  define u where "u = \<lparr>u_scheme = ''ws'', u_userinfo = ''me:x'', u_host = ''a-b.org'', u_port = 81, u_path = ''/p/q'',
      u_query = ''k=v?'', u_fragment = ''s#1''\<rparr>"
  have t: "uri_toString u = ''ws://me:x@a-b.org:81/p/q?k=v?#s#1''" unfolding u_def by code_simp
  have "scheme_ok (u_scheme u)" "list_all IS_USERINFO_CHAR (u_userinfo u)" "list_all IS_HOST_CHAR (u_host u)"
    "list_all IS_URL_CHAR (u_path u)" "list_all query_char (u_query u)" "query_char (hd (u_fragment u))"
    "list_all fragment_char (u_fragment u)"
    unfolding u_def by code_simp+
  moreover have "u_host u \<noteq> []" "0 \<le> u_port u" "u_port u \<le> 0xFFFF" "u_path u \<noteq> []" "hd (u_path u) = CHR ''/''"
    by (simp_all add: u_def)
  moreover have "length (uri_toString u) < 2 ^ 16" unfolding t by simp
  ultimately have "uri_ok u" unfolding uri_ok_def by blast
  with uri_read_back [of u] t show ?thesis unfolding u_def [symmetric] Let_def by simp
qed

end
