(* ===== verification/Spec2Isabelle.thy ===== *)
theory Spec2Isabelle
  imports OrdMap Base64Url Models MysqlSpec BlogDaoProps UserDaoProps BlogService UserService
    CryptoUtil Redis JwtProps Url HttpProps Servlet Session ApiProps
    MysqlPool RedisPool ByteArrayProps Timer Scheduler IOManager AddressProps HookProps HttpClientProps LogConfigProps
    Env Files TcpServerProps UriRoundtrip
begin

text \<open>
  Verification of the blog server: a REST service (\<^verbatim>\<open>blog/src\<close>) on the sylar framework
  (\<^verbatim>\<open>sylar\<close>).

  \<open>HttpServer\<close> receives a request through the parser callbacks, \<open>ServletDispatch\<close> finds its servlet,
  and the servlet reads the user from the token (\<open>JWTUtil\<close>), calls a service
  (\<open>BlogService\<close>, \<open>UserService\<close>), and the service a data access object (\<open>BlogDao\<close>, \<open>UserDao\<close> over
  \<open>BaseDao\<close>), which prepares SQL statements on a MySQL connection. Entities travel as JSON.

  Theories, in the order of their imports:

  \<^item> \<open>Prelude\<close>: results with faults, fixed-width integers, \<^verbatim>\<open>std::string\<close> searches, number
    conversions.
  \<^item> \<open>OrdMap\<close>: \<^verbatim>\<open>std::map\<close> and \<^verbatim>\<open>std::set\<close> as sorted lists under a comparator; the locales
    \<open>strict_weak_order\<close> and \<open>strict_total_order\<close> state what a comparator promises.
  \<^item> \<open>Base64Url\<close>, \<open>CryptoUtil\<close>, \<open>Url\<close>: the codecs. Round trips, alphabets, injectivity.
  \<^item> \<open>Models\<close>: \<open>Blog\<close>, \<open>User\<close>, \<open>ApiResponse\<close> and their JSON (\<^verbatim>\<open>blog/src/model\<close>).
  \<^item> \<open>Mysql\<close>: the wrapper classes of \<^verbatim>\<open>sylar/db/mysql_connector.cc\<close> over the driver \<open>D\<close>;
    \<open>MysqlSpec\<close>: the laws \<open>mysql_laws\<close> of the server, with an in-memory server that satisfies them.
  \<^item> \<open>BaseDao\<close>, \<open>BlogDao\<close>, \<open>BlogDaoSpec\<close>, \<open>BlogDaoProps\<close>, \<open>UserDao\<close>, \<open>UserDaoProps\<close>: the data access
    objects (\<^verbatim>\<open>blog/src/dao\<close>). Each operation refines an operation on the list of stored entities;
    the locale \<open>entity_dao\<close> proves the batch operations of the base class once for both.
  \<^item> \<open>BlogService\<close>, \<open>UserService\<close>: the services (\<^verbatim>\<open>blog/src/service\<close>). Ownership, effects of each
    call, what any sequence of calls keeps, registration and login.
  \<^item> \<open>Redis\<close>: replies and commands of \<^verbatim>\<open>sylar/db/redis_connector.cc\<close> over the driver \<open>R\<close>.
  \<^item> \<open>Jwt\<close>, \<open>JwtProps\<close>: tokens and their blacklist (\<^verbatim>\<open>blog/src/util/jwt_util.cc\<close>).

  \<^item> \<open>Http\<close>, \<open>HttpProps\<close>: requests, responses, parameters and text (\<^verbatim>\<open>sylar/http/http.cc\<close>). Form
    decoding, look-up in any case, framing of a response.
  \<^item> \<open>Servlet\<close>: the dispatcher and the routes (\<^verbatim>\<open>sylar/http/servlet.cc\<close>, \<^verbatim>\<open>blog/src/core/server.cc\<close>);
    the locale \<open>uri_table\<close> is the interface of its two tables.
  \<^item> \<open>Session\<close>: parser callbacks, the receive loop, \<open>handleClient\<close> (\<^verbatim>\<open>http_parser.cc\<close>,
    \<^verbatim>\<open>http_session.cc\<close>, \<^verbatim>\<open>http_server.cc\<close>, \<^verbatim>\<open>stream.cc\<close>).
  \<^item> \<open>Api\<close>, \<open>ApiProps\<close>: the ten servlets of \<^verbatim>\<open>blog/src/http/servlet\<close> composed with all of the above;
    who may change what, what a forged token does, which requests end the process.

  \<^item> \<open>Pool\<close>, \<open>MysqlPool\<close>, \<open>RedisPool\<close>: the connection pools of \<^verbatim>\<open>sylar/db\<close>. A call of the pool is a
    program counter, a step is what it does between two changes of the lock, and \<open>interleave\<close>
    mixes the steps of any callers, of the cleanup timer and of the server. The locale \<open>handout\<close>
    states what one step must keep so that no connection is in two hands; both pools provide it.
    The limit of the MySQL pool and how far it is exceeded, how returns to the Redis pool race and
    block, and that \<open>getConnection\<close> comes back.

  \<^item> \<open>ByteArray\<close>, \<open>ByteArrayProps\<close>: the chained buffer of \<^verbatim>\<open>sylar/bytearray.cc\<close> and the socket streams that
    fill and drain it. It refines a flat array with a position (\<open>ba_wf\<close>, \<open>ba_data\<close>); integers and strings are
    read back; where it is undefined.

  \<^item> \<open>Timer\<close>: the timers of \<^verbatim>\<open>sylar/timer.cc\<close>, a set ordered by a comparator that looks into the timers.
    The order and the membership are kept by every call, expiry is exact, and when it is not.
  \<^item> \<open>Scheduler\<close>: fibers and the threads that run them (\<^verbatim>\<open>sylar/fiber.cc\<close>, \<^verbatim>\<open>sylar/scheduler.cc\<close>), as steps of any
    number of threads. No fiber runs twice, the count of active threads, and the race in \<open>yield\<close>.
  \<^item> \<open>IOManager\<close>: the scheduler that waits in \<^verbatim>\<open>epoll\<close> (\<^verbatim>\<open>sylar/iomanager.cc\<close>), over \<open>Scheduler\<close> and \<open>Timer\<close>. The
    bookkeeping of events, what a report does, when it stops, how long it waits, and two races.
  \<^item> \<open>Address\<close>, \<open>AddressProps\<close>: the socket addresses of \<^verbatim>\<open>sylar/address.cc\<close>, over the byte order of \<open>ByteArray\<close>. Their
    order, subnets bit by bit, the text of IPv6 addresses, what the resolver is asked.
  \<^item> \<open>Hook\<close>, \<open>HookProps\<close>: the interposed system calls and their table of descriptors (\<^verbatim>\<open>sylar/hook.cc\<close>,
    \<^verbatim>\<open>sylar/fd_manager.cc\<close>), over \<open>IOManager\<close>. The flags a program sees, that sockets never block a thread and how they may, what a
    waiting call answers.
  \<^item> \<open>HttpClient\<close>, \<open>HttpClientProps\<close>: \<open>Uri\<close>, the requests of the client and its pool of connections (\<^verbatim>\<open>sylar/uri.cc\<close>,
    \<^verbatim>\<open>sylar/http/http_connection.cc\<close>), a third pool that provides \<open>handout\<close>. What an answer says about what was
    sent, the headers of a request, that no connection is too old.
  \<^item> \<open>UrlParser\<close>, \<open>UrlProps\<close>, \<open>UriRoundtrip\<close>: the two automata that take a URL apart
    (\<^verbatim>\<open>sylar/http/http-parser/http_parser.c\<close>). Fields lie in the text, ports fit, and what \<open>Uri\<close> writes is read back.

  \<^item> \<open>Yaml\<close>, \<open>Log\<close>, \<open>LogProps\<close>: nodes of the YAML library and the laws \<open>yaml_laws\<close> of its calls; levels, patterns, appenders
    and loggers (\<^verbatim>\<open>sylar/log.cpp\<close>). Patterns are parsed back, and how one failed write silences a file.
  \<^item> \<open>Config\<close>, \<open>ConfigProps\<close>: variables, listeners, the registry and the loading of files (\<^verbatim>\<open>sylar/config.cc\<close>). The members
    of a file are the paths of its maps; a load comes back and keeps the good values.
  \<^item> \<open>LogConfig\<close>, \<open>LogConfigProps\<close>: the section \<^verbatim>\<open>logs\<close> and its listener. Loading refines the specification \<open>reload\<close> on
    the abstract view of the loggers, from the text of the file on.

  \<^item> \<open>Env\<close>: the command line, help texts and paths (\<^verbatim>\<open>sylar/env.cc\<close>). Which command lines are accepted, and what is read.
  \<^item> \<open>Files\<close>: paths and trees of files, and numbers from texts (\<^verbatim>\<open>sylar/util.cpp\<close>). When removing says that it has removed,
    what a listing holds, that every missing parent is made.
  \<^item> \<open>Socket\<close>, \<open>SocketProps\<close>: sockets over the record \<open>kernel\<close> of the system calls and its laws \<open>kernel_laws\<close>
    (\<^verbatim>\<open>sylar/socket.cc\<close>). Every open descriptor is held by exactly one socket; timeouts are read back.
  \<^item> \<open>TcpServer\<close>, \<open>TcpServerProps\<close>: binding, the accept loops and the closing task (\<^verbatim>\<open>sylar/tcp_server.cc\<close>), as steps in
    any order, each a list of operations on sockets. Nothing is lost, binding is all or nothing, stopping ends, and starting
    again too early does not.

  Conventions. A call that ends in an uncaught exception or in undefined behaviour is an \<open>Inl\<close>. The
  clock, random draws and the database handle are arguments. MySQL Connector/C++, hiredis, jsoncpp
  and OpenSSL are not part of the sources, and of the vendored http_parser only the URL part is modelled: the others are parameters (records of their operations), and
  what the code relies on is a named predicate (\<open>mysql_laws\<close>, \<open>redis_laws\<close>, \<open>json_laws\<close>) that a concrete
  instance satisfies. All definitions are total; loops are structural or have a measure, so no fuel
  is used.

  Not modelled: the request automaton of the vendored HTTP parser and the front end, which are system calls, library
  code or input and output.
\<close>

end
